(* ===== verification/Prelude.thy ===== *)
theory Prelude
  imports Main "HOL-Library.Word" "HOL-Library.Multiset"
begin

text \<open>
  Shared material of the development: names for the machine integers of the C code, the
  byte memory a packet header lives in, little-endian loads and stores, the switch/while
  copy loop (Duff's device) the code uses to fill transmit tables, and generic lemmas on
  lists and multisets. Two collections of facts are filled by the component theories:
  \<open>mem_simps\<close> (how a load sees a store) and \<open>frame\<close> (what an operation leaves alone).
\<close>

unbundle bit_operations_syntax

named_theorems mem_simps
named_theorems frame

type_synonym u8 = "8 word"
type_synonym u16 = "16 word"
type_synonym u32 = "32 word"
type_synonym u64 = "64 word"

section \<open>Byte memory\<close>

text \<open>
  The bytes of a packet buffer, by offset from \<open>rte_pktmbuf_mtod\<close>. A buffer has at least
  \<open>RTE_MBUF_DEFAULT_BUF_SIZE\<close> bytes, so every header offset the code reads is inside it; a
  total function is the contents of the buffer.
\<close>

type_synonym mem = "nat \<Rightarrow> u8"

definition ldn :: "mem \<Rightarrow> nat \<Rightarrow> nat \<Rightarrow> u8 list" where
  "ldn m a n = map (\<lambda>k. m (a + k)) [0..<n]"

definition stn :: "mem \<Rightarrow> nat \<Rightarrow> u8 list \<Rightarrow> mem" where
  "stn m a bs = (\<lambda>i. if a \<le> i \<and> i < a + length bs then bs ! (i - a) else m i)"

definition ld16 :: "mem \<Rightarrow> nat \<Rightarrow> u16" where
  "ld16 m a = ucast (m a) OR push_bit 8 (ucast (m (Suc a)))"

definition st16 :: "mem \<Rightarrow> nat \<Rightarrow> u16 \<Rightarrow> mem" where
  "st16 m a v = m(a := ucast v, Suc a := ucast (drop_bit 8 v))"

definition ld32 :: "mem \<Rightarrow> nat \<Rightarrow> u32" where
  "ld32 m a = ucast (m a) OR push_bit 8 (ucast (m (a + 1)))
     OR push_bit 16 (ucast (m (a + 2))) OR push_bit 24 (ucast (m (a + 3)))"

definition le64 :: "u64 \<Rightarrow> u8 list" where
  "le64 v = map (\<lambda>k. ucast (drop_bit (8 * k) v)) [0..<8]"

definition bswap16 :: "u16 \<Rightarrow> u16" where
  "bswap16 v = push_bit 8 v OR drop_bit 8 v"

definition bswap32 :: "u32 \<Rightarrow> u32" where
  "bswap32 v = push_bit 24 v OR (push_bit 8 v AND 0x00ff0000)
     OR (drop_bit 8 v AND 0x0000ff00) OR drop_bit 24 v"

lemma length_ldn [simp]: "length (ldn m a n) = n"
  by (simp add: ldn_def)

lemma nth_ldn [simp]: "k < n \<Longrightarrow> ldn m a n ! k = m (a + k)"
  by (simp add: ldn_def)

lemma length_le64 [simp]: "length (le64 v) = 8"
  by (simp add: le64_def)

lemma stn_out [mem_simps]: "i < a \<or> a + length bs \<le> i \<Longrightarrow> stn m a bs i = m i"
  by (auto simp: stn_def)

lemma stn_in [mem_simps]: "a \<le> i \<Longrightarrow> i < a + length bs \<Longrightarrow> stn m a bs i = bs ! (i - a)"
  by (simp add: stn_def)

lemma st16_other [mem_simps]: "i \<noteq> a \<Longrightarrow> i \<noteq> Suc a \<Longrightarrow> st16 m a v i = m i"
  by (simp add: st16_def)

lemma ld16_st16 [simp]: "ld16 (st16 m a v) a = v"
  by (rule bit_word_eqI) (auto simp: ld16_def st16_def bit_simps)

lemma ld16_cong: "m a = m' a \<Longrightarrow> m (Suc a) = m' (Suc a) \<Longrightarrow> ld16 m a = ld16 m' a"
  by (simp add: ld16_def)

lemma bswap16_bswap16 [simp]: "bswap16 (bswap16 v) = v"
  by (rule bit_word_eqI) (auto simp: bswap16_def bit_simps)

lemma bswap32_bswap32 [simp]: "bswap32 (bswap32 v) = v"
proof (rule bit_word_eqI)
  fix n assume n: "n < LENGTH(32)"
  have "n \<in> {0..<32}" using n by simp
  then show "bit (bswap32 (bswap32 v)) n = bit v n"
    by (simp add: atLeastLessThan_nat_numeral)
       (elim disjE; auto simp: bswap32_def bit_simps bit_numeral_rec dest: bit_imp_le_length)
qed

section \<open>Lists of addresses\<close>

lemma map_upt_shift: "map f [a..<a + n] = map (\<lambda>k. f (a + k)) [0..<n]"
proof -
  have "[a..<a + n] = map (\<lambda>k. a + k) [0..<n]"
    by (induction n) auto
  then show ?thesis by (simp add: comp_def)
qed

lemma take_map_upt: "r \<le> n \<Longrightarrow> take r (map f [0..<n]) = map f [0..<r]"
  by (simp add: take_map)

lemma drop_map_upt: "r \<le> n \<Longrightarrow> drop r (map f [0..<n]) = map f [r..<n]"
  by (simp add: drop_map)

lemma map_upt_split: "r \<le> n \<Longrightarrow> map f [0..<r] @ map f [r..<n] = map f [0..<n]"
  by (metis le_add_diff_inverse map_append upt_add_eq_append zero_le)

lemma upt_8: "[0..<8] = [0, 1, 2, 3, 4, 5, 6, 7 :: nat]"
  by (simp add: upt_rec)

lemma upt_4: "[0..<4] = [0, 1, 2, 3 :: nat]"
  by (simp add: upt_rec)

lemma mod_add_mid: "(a + b mod m + c) mod m = (a + b + c) mod (m :: nat)"
  by (metis mod_add_left_eq mod_add_right_eq)

lemma mod4_cases: "n mod 4 = 0 \<or> n mod 4 = 1 \<or> n mod 4 = 2 \<or> n mod 4 = (3 :: nat)"
proof -
  have "n mod 4 < 4" by simp
  then show ?thesis by arith
qed

section \<open>Shifts of C\<close>

text \<open>
  \<open>1 << n\<close> for an \<open>int\<close> 1: defined by the C standard for \<open>n < 32\<close>; for larger counts the
  compiled code uses the machine's shift, which takes the count modulo 32.
\<close>

definition shl1 :: "nat \<Rightarrow> u32" where
  "shl1 n = push_bit (n mod 32) 1"

definition in_mask :: "u32 \<Rightarrow> nat \<Rightarrow> bool" where
  "in_mask m n \<longleftrightarrow> m AND shl1 n \<noteq> 0"

lemma in_mask_bit: "in_mask m n \<longleftrightarrow> bit m (n mod 32)"
  by (simp only: in_mask_def shl1_def bit_iff_and_push_bit_not_eq_0)

section \<open>Loops that may stop\<close>

text \<open>A \<open>for\<close> loop whose body ends the function with \<open>Inl\<close>.\<close>

fun foldM :: "('x \<Rightarrow> 's \<Rightarrow> 'e + 's) \<Rightarrow> 'x list \<Rightarrow> 's \<Rightarrow> 'e + 's" where
  "foldM f [] s = Inr s"
| "foldM f (x # xs) s = (case f x s of Inl e \<Rightarrow> Inl e | Inr s1 \<Rightarrow> foldM f xs s1)"

lemma foldM_Cons_Inr:
  "foldM f (x # xs) s = Inr t \<longleftrightarrow> (\<exists>s1. f x s = Inr s1 \<and> foldM f xs s1 = Inr t)"
  by (auto split: sum.splits)

lemma map_nth_take: "n \<le> length xs \<Longrightarrow> map ((!) xs) [0..<n] = take n xs"
  by (simp add: list_eq_iff_nth_eq)

lemma foldM_total:
  "(\<And>x s. x \<in> set xs \<Longrightarrow> \<exists>s1. f x s = Inr s1) \<Longrightarrow> \<exists>t. foldM f xs s = Inr t"
proof (induction xs arbitrary: s)
  case (Cons x xs)
  then obtain s1 where "f x s = Inr s1" by fastforce
  with Cons show ?case by simp
qed simp

text \<open>Induction over the passes: \<open>P done s\<close> after the elements \<open>done\<close>.\<close>

lemma foldM_passes:
  assumes "foldM f xs s = Inr t" and "P [] s"
    and "\<And>ys y zs s1 s2. xs = ys @ y # zs \<Longrightarrow> P ys s1 \<Longrightarrow> f y s1 = Inr s2 \<Longrightarrow> P (ys @ [y]) s2"
  shows "P xs t"
proof -
  have "foldM f zs s = Inr t \<Longrightarrow> P ys s \<Longrightarrow> xs = ys @ zs \<Longrightarrow> P (ys @ zs) t" for ys zs s
  proof (induction zs arbitrary: ys s)
    case (Cons z zs)
    then obtain s1 where 1: "f z s = Inr s1" "foldM f zs s1 = Inr t"
      by (auto simp: foldM_Cons_Inr simp del: foldM.simps)
    have "P (ys @ [z]) s1" using assms(3) [OF _ Cons.prems(2) 1(1)] Cons.prems(3) by simp
    from Cons.IH [OF 1(2) this] Cons.prems(3) show ?case by simp
  qed simp
  from this [OF assms(1), of "[]"] assms(2) show ?thesis by simp
qed

lemma foldM_inv:
  assumes "foldM f xs s = Inr t" and "I s"
    and "\<And>y s1 s2. y \<in> set xs \<Longrightarrow> I s1 \<Longrightarrow> f y s1 = Inr s2 \<Longrightarrow> I s2"
  shows "I t"
proof (rule foldM_passes [where P = "\<lambda>_. I", OF assms(1,2)])
  show "\<And>ys y zs s1 s2. xs = ys @ y # zs \<Longrightarrow> I s1 \<Longrightarrow> f y s1 = Inr s2 \<Longrightarrow> I s2"
    by (rule assms(3)) auto
qed

lemma upt_split: "[0..<n] = ys @ y # zs \<Longrightarrow> ys = [0..<y] \<and> y < n"
proof -
  assume a: "[0..<n] = ys @ y # zs"
  have l: "length ys < n" using arg_cong [OF a, of length] by simp
  have "y = length ys" using arg_cong [OF a, of "\<lambda>l. l ! length ys"] l by simp
  moreover have "ys = [0..<length ys]" using arg_cong [OF a, of "take (length ys)"] l by simp
  ultimately show ?thesis using l by simp
qed

lemma distinct_by_key:
  assumes "\<And>k. distinct (map snd (filter (\<lambda>x. fst x = k) xs))"
  shows "distinct (xs :: ('a \<times> 'b) list)"
  using assms
proof (induction xs)
  case (Cons x xs)
  have "distinct (map snd (filter (\<lambda>y. fst y = k) xs))" for k
    using Cons.prems [of k] by (simp split: if_splits)
  moreover have "x \<notin> set xs" using Cons.prems [of "fst x"] by (force simp: image_iff)
  ultimately show ?case using Cons.IH by simp
qed simp

end
