(* ===== verification/C_String.thy ===== *)
theory C_String
  imports Prelude
begin

text \<open>
  What the program uses of the C library on strings: \<open>isspace\<close>, \<open>strtok_r\<close>, \<open>strtoul\<close>,
  \<open>strchr\<close> and \<open>fgets\<close>, as the C standard and POSIX describe them. A C string is the list of its
  characters without the terminating NUL. \<open>unsigned long\<close> has 64 bits.
\<close>

definition code_of :: "char \<Rightarrow> nat" where
  "code_of c = of_char c"

definition isspace :: "char \<Rightarrow> bool" where
  "isspace c \<longleftrightarrow> code_of c = 32 \<or> (9 \<le> code_of c \<and> code_of c \<le> 13)"

definition EINVAL :: int where "EINVAL = 22"

section \<open>Tokens\<close>

text \<open>\<open>strtok_r\<close>: skip delimiters, take the token, step over the delimiter that ends it. \<open>None\<close> is
  the null pointer; the second component is what the save pointer points to.\<close>

definition strtok_r :: "string \<Rightarrow> string \<Rightarrow> (string \<times> string) option" where
  "strtok_r dlm s =
     (let s1 = dropWhile (\<lambda>c. c \<in> set dlm) s;
          tok = takeWhile (\<lambda>c. c \<notin> set dlm) s1
      in if s1 = [] then None else Some (tok, drop (length tok + 1) s1))"

text \<open>The first \<open>n\<close> tokens, or \<open>None\<close> when there are fewer.\<close>

fun strtoks :: "string \<Rightarrow> nat \<Rightarrow> string \<Rightarrow> string list option" where
  "strtoks dlm 0 s = Some []"
| "strtoks dlm (Suc n) s =
     (case strtok_r dlm s of None \<Rightarrow> None
      | Some (t, rest) \<Rightarrow> (case strtoks dlm n rest of None \<Rightarrow> None | Some ts \<Rightarrow> Some (t # ts)))"

lemma strtoks_length: "strtoks dlm n s = Some ts \<Longrightarrow> length ts = n"
  by (induction n arbitrary: s ts) (auto split: option.splits)

lemma strtok_r_token:
  assumes "strtok_r dlm s = Some (t, rest)"
  shows "t \<noteq> []" and "set t \<inter> set dlm = {}"
proof -
  let ?s1 = "dropWhile (\<lambda>c. c \<in> set dlm) s"
  have n: "?s1 \<noteq> []" and t: "t = takeWhile (\<lambda>c. c \<notin> set dlm) ?s1"
    using assms by (auto simp: strtok_r_def Let_def split: if_splits)
  have "hd ?s1 \<notin> set dlm" using hd_dropWhile [OF n] .
  with n show "t \<noteq> []" unfolding t by (cases ?s1) auto
  show "set t \<inter> set dlm = {}" unfolding t by (auto dest: set_takeWhileD)
qed

lemma strtoks_tokens:
  "strtoks dlm n s = Some ts \<Longrightarrow> t \<in> set ts \<Longrightarrow> t \<noteq> [] \<and> set t \<inter> set dlm = {}"
proof (induction n arbitrary: s ts)
  case 0
  then show ?case by simp
next
  case (Suc n)
  obtain t1 rest ts1 where 1: "strtok_r dlm s = Some (t1, rest)" "strtoks dlm n rest = Some ts1"
    and ts: "ts = t1 # ts1"
    using Suc.prems(1) by (auto split: option.splits)
  show ?case using Suc.IH [OF 1(2)] strtok_r_token [OF 1(1)] Suc.prems(2) unfolding ts by auto
qed

section \<open>Numbers\<close>

definition digit_val :: "char \<Rightarrow> nat" where
  "digit_val c =
     (let n = code_of c
      in if 48 \<le> n \<and> n \<le> 57 then n - 48
         else if 97 \<le> n \<and> n \<le> 122 then n - 87
         else if 65 \<le> n \<and> n \<le> 90 then n - 55
         else 36)"

definition is_digit :: "nat \<Rightarrow> char \<Rightarrow> bool" where
  "is_digit b c \<longleftrightarrow> digit_val c < b"

definition num_of :: "nat \<Rightarrow> string \<Rightarrow> nat" where
  "num_of b ds = foldl (\<lambda>n c. n * b + digit_val c) 0 ds"

definition ULONG_MAX :: nat where "ULONG_MAX = 2 ^ 64 - 1"

text \<open>The prefix of the number: the base to use and the string after \<open>0x\<close>. A \<open>0x\<close> that no
  digit follows is the number 0.\<close>

definition is_x :: "char \<Rightarrow> bool" where
  "is_x c \<longleftrightarrow> code_of c = 120 \<or> code_of c = 88"

definition num_prefix :: "nat \<Rightarrow> string \<Rightarrow> nat \<times> string" where
  "num_prefix base s =
     (let hex = (case s of a # x # d # rest \<Rightarrow> code_of a = 48 \<and> is_x x \<and> is_digit 16 d | _ \<Rightarrow> False)
      in if hex \<and> (base = 0 \<or> base = 16) then (16, drop 2 s)
         else if base = 0 then (case s of a # rest \<Rightarrow> if code_of a = 48 then (8, s) else (10, s) | [] \<Rightarrow> (10, s))
         else (base, s))"

record strtoul_result =
  su_erange :: bool
  su_val :: nat
  su_end :: string

definition strtoul :: "string \<Rightarrow> nat \<Rightarrow> strtoul_result" where
  "strtoul s base =
     (let s1 = dropWhile isspace s;
          neg = (s1 \<noteq> [] \<and> code_of (hd s1) = 45);
          s2 = (if s1 \<noteq> [] \<and> (code_of (hd s1) = 45 \<or> code_of (hd s1) = 43) then tl s1 else s1);
          (b, s3) = num_prefix base s2;
          ds = takeWhile (is_digit b) s3;
          v = num_of b ds
      in if ds = [] then \<lparr>su_erange = False, su_val = 0, su_end = s\<rparr>
         else if ULONG_MAX < v then \<lparr>su_erange = True, su_val = ULONG_MAX, su_end = drop (length ds) s3\<rparr>
         else \<lparr>su_erange = False, su_val = (if neg then (2 ^ 64 - v) mod 2 ^ 64 else v),
                su_end = drop (length ds) s3\<rparr>)"

text \<open>\<open>strtol\<close>: the signed number, kept within the range of \<open>long\<close>.\<close>

definition strtol :: "string \<Rightarrow> nat \<Rightarrow> int" where
  "strtol s base =
     (let s1 = dropWhile isspace s;
          neg = (s1 \<noteq> [] \<and> code_of (hd s1) = 45);
          s2 = (if s1 \<noteq> [] \<and> (code_of (hd s1) = 45 \<or> code_of (hd s1) = 43) then tl s1 else s1);
          (b, s3) = num_prefix base s2;
          v = int (num_of b (takeWhile (is_digit b) s3))
      in if neg then max (- (2 ^ 63)) (- v) else min (2 ^ 63 - 1) v)"

text \<open>\<open>end[0]\<close>, with \<open>None\<close> for the NUL.\<close>

definition first_char :: "string \<Rightarrow> char option" where
  "first_char s = (case s of [] \<Rightarrow> None | c # _ \<Rightarrow> Some c)"

lemma strtoul_max: "su_val (strtoul s b) \<le> ULONG_MAX"
proof -
  have "(x :: nat) mod 2 ^ 64 \<le> ULONG_MAX" for x
  proof -
    have "x mod 2 ^ 64 < 2 ^ 64" by simp
    then show ?thesis by (simp add: ULONG_MAX_def)
  qed
  then show ?thesis by (auto simp: strtoul_def Let_def case_prod_beta not_less)
qed

section \<open>Lines\<close>

text \<open>\<open>LINE_MAX\<close> of POSIX; \<open>fgets\<close> reads up to a newline or \<open>LINE_MAX - 1\<close> characters. The
  string in the buffer ends at the first NUL.\<close>

definition LINE_MAX :: nat where "LINE_MAX = 2048"

definition fgets_len :: "string \<Rightarrow> nat" where
  "fgets_len f =
     (let n = length (takeWhile (\<lambda>c. code_of c \<noteq> 10) f)
      in min (LINE_MAX - 1) (min (n + 1) (length f)))"

definition c_str :: "string \<Rightarrow> string" where
  "c_str s = takeWhile (\<lambda>c. code_of c \<noteq> 0) s"

lemma fgets_len_pos: "f \<noteq> [] \<Longrightarrow> 0 < fgets_len f"
  by (cases f) (simp_all add: fgets_len_def LINE_MAX_def Let_def)

function file_lines :: "string \<Rightarrow> string list" where
  "file_lines f = (if f = [] then [] else c_str (take (fgets_len f) f) # file_lines (drop (fgets_len f) f))"
  by pat_completeness auto
termination
proof (relation "measure length")
  fix f :: string assume "f \<noteq> []"
  then show "(drop (fgets_len f) f, f) \<in> measure length"
    using fgets_len_pos [of f] by simp
qed simp

declare file_lines.simps [simp del]

lemma file_lines_short: "l \<in> set (file_lines f) \<Longrightarrow> length l < LINE_MAX"
proof (induction f rule: file_lines.induct)
  case (1 f)
  show ?case
  proof (cases "f = []")
    case True
    then show ?thesis using 1(2) by (simp add: file_lines.simps)
  next
    case False
    have "length (c_str (take (fgets_len f) f)) \<le> length (take (fgets_len f) f)"
      unfolding c_str_def by (rule length_takeWhile_le)
    then have "length (c_str (take (fgets_len f) f)) < LINE_MAX"
      by (simp add: fgets_len_def LINE_MAX_def Let_def)
    then show ?thesis using 1 False by (subst (asm) file_lines.simps) auto
  qed
qed

end
