(* ===== verification/Dpdk.thy ===== *)
theory Dpdk
  imports Prelude
begin

text \<open>
  What the program takes from the DPDK libraries. The headers of DPDK are not part of the
  repository, so its constants and functions are the fields of a record that every
  definition using them takes as an argument; the documented behaviour of a function is a
  named predicate on that record. The program's own globals (\<open>l3fwd/l3fwd.h\<close>) are the
  record \<open>glob\<close>.

  An mbuf is the identity of the buffer (its address) with the fields the program reads
  and writes. The layout of the Ethernet, IPv4 and IPv6 headers is that of the protocols:
  a 14 byte Ethernet header, a 20 byte IPv4 header, a 40 byte IPv6 header, all unpadded.
\<close>

record mbuf =
  mb_id :: nat
  mb_data :: mem
  packet_type :: u32
  pkt_len :: u32
  ol_flags :: u64
  mb_port :: u16

record dpdk =
  max_ethports :: nat
  is_ipv4_hdr :: "u32 \<Rightarrow> bool"
  is_ipv6_hdr :: "u32 \<Rightarrow> bool"
  ptype_l3_mask :: u32
  ptype_l3_ipv4 :: u32
  ptype_l3_ipv6 :: u32
  ptype_l4_tcp :: u32
  ptype_l4_udp :: u32
  ptype_l3_ipv4_ext :: u32
  ptype_l3_ipv6_ext :: u32
  ptype_l3_ipv4_options :: u32
  ptype_l3_ipv6_headers :: u32
  rx_ip_cksum_mask :: u64
  rx_ip_cksum_none :: u64
  ipv4_cksum :: "mem \<Rightarrow> u16"
  tx_burst :: "nat \<Rightarrow> u16 \<Rightarrow> u16 \<Rightarrow> mbuf list \<Rightarrow> nat"

record glob =
  rx_burst_size :: nat
  tx_burst_size :: nat
  enabled_port_mask :: u32
  dest_eth_addr :: "u16 \<Rightarrow> u64"
  ports_eth_addr :: "u16 \<Rightarrow> u8 list"
  val_eth :: "u16 \<Rightarrow> u8 list"

definition FWDSTEP :: nat where "FWDSTEP = 4"
definition MAX_PKT_BURST :: nat where "MAX_PKT_BURST = 512"
definition BAD_PORT :: u16 where "BAD_PORT = -1"
definition PREFETCH_OFFSET :: nat where "PREFETCH_OFFSET = 3"

definition ETH_LEN :: nat where "ETH_LEN = 14"

abbreviation ip_hdr :: "mem \<Rightarrow> mem" where
  "ip_hdr d \<equiv> (\<lambda>i. d (ETH_LEN + i))"

section \<open>Documented behaviour\<close>

text \<open>
  \<open>rte_eth_tx_burst\<close> returns the number of packets it took from the front of the array, at
  most as many as it was given. Its answers may differ from call to call, so the function
  gets the number of the call.
\<close>

definition tx_burst_ok :: "dpdk \<Rightarrow> bool" where
  "tx_burst_ok E \<longleftrightarrow> (\<forall>c p q ms. tx_burst E c p q ms \<le> length ms)"

text \<open>\<open>RTE_ETH_IS_IPV4_HDR\<close> and \<open>RTE_ETH_IS_IPV6_HDR\<close> test one bit of the packet type, which the
  types of an IPv4 and of an IPv6 header with unknown extensions have.\<close>

definition ptype_ok :: "dpdk \<Rightarrow> bool" where
  "ptype_ok E \<longleftrightarrow>
     (\<forall>t. is_ipv4_hdr E t \<longleftrightarrow> t AND ptype_l3_ipv4 E \<noteq> 0) \<and>
     (\<forall>t. is_ipv6_hdr E t \<longleftrightarrow> t AND ptype_l3_ipv6 E \<noteq> 0) \<and>
     (\<exists>n. ptype_l3_ipv4 E = push_bit n 1) \<and>
     ptype_l3_ipv4_ext E AND ptype_l3_ipv4 E \<noteq> 0 \<and> ptype_l3_ipv4_ext E AND ptype_l3_ipv6 E = 0 \<and>
     ptype_l3_ipv6_ext E AND ptype_l3_ipv6 E \<noteq> 0 \<and> ptype_l3_ipv6_ext E AND ptype_l3_ipv4 E = 0"

text \<open>The types the exact-match path tests: the types of layer 3 are within the mask of layer 3,
  those of layer 4 outside, and an IPv4 and an IPv6 header without extensions share no bit. Two
  fields name the types with IPv4 options (\<open>RTE_PTYPE_L3_IPV4_EXT\<close>) and with IPv6 extension headers
  (\<open>RTE_PTYPE_L3_IPV6_EXT\<close>); \<open>ptype_l3_ipv4_ext\<close> and \<open>ptype_l3_ipv6_ext\<close> are the types for
  unknown extensions.\<close>

definition l4_types :: "dpdk \<Rightarrow> u32" where
  "l4_types E = ptype_l4_tcp E OR ptype_l4_udp E"

definition em_ptype_ok :: "dpdk \<Rightarrow> bool" where
  "em_ptype_ok E \<longleftrightarrow> ptype_l3_ipv4 E \<noteq> 0 \<and> ptype_l3_ipv6 E \<noteq> 0 \<and> ptype_l3_ipv4 E AND ptype_l3_ipv6 E = 0
     \<and> (\<forall>t \<in> {ptype_l3_ipv4 E, ptype_l3_ipv6 E, ptype_l3_ipv4_options E, ptype_l3_ipv6_ext E}.
          t AND ptype_l3_mask E = t \<and> t AND l4_types E = 0)
     \<and> ptype_l3_mask E AND l4_types E = 0"

text \<open>
  \<open>rte_ipv4_cksum\<close> reads the header's ten 16-bit words only (documented: the header
  checksum, the checksum field being zeroed by the caller).
\<close>

definition ipv4_cksum_ok :: "dpdk \<Rightarrow> bool" where
  "ipv4_cksum_ok E \<longleftrightarrow>
     (\<forall>h h'. (\<forall>i < 60. h i = h' i) \<longrightarrow> ipv4_cksum E h = ipv4_cksum E h')"

lemma tx_burst_le: "tx_burst_ok E \<Longrightarrow> tx_burst E c p q ms \<le> length ms"
  by (simp add: tx_burst_ok_def)

section \<open>A concrete instance\<close>

text \<open>
  The documented values of a 32-port build, with a driver that takes at most 24 packets of a
  burst. The witnesses evaluate the definitions on it.
\<close>

definition dpdk_ex :: dpdk where
  "dpdk_ex = \<lparr> max_ethports = 32,
     is_ipv4_hdr = (\<lambda>t. t AND 0x10 \<noteq> 0), is_ipv6_hdr = (\<lambda>t. t AND 0x40 \<noteq> 0),
     ptype_l3_mask = 0xf0, ptype_l3_ipv4 = 0x10, ptype_l3_ipv6 = 0x40,
     ptype_l4_tcp = 0x100, ptype_l4_udp = 0x200,
     ptype_l3_ipv4_ext = 0x90, ptype_l3_ipv6_ext = 0xe0,
     ptype_l3_ipv4_options = 0x30, ptype_l3_ipv6_headers = 0xc0,
     rx_ip_cksum_mask = 0x90, rx_ip_cksum_none = 0x90,
     ipv4_cksum = (\<lambda>h. 0), tx_burst = (\<lambda>c p q ms. min 24 (length ms)) \<rparr>"

definition glob_ex :: glob where
  "glob_ex = \<lparr> rx_burst_size = 32, tx_burst_size = 32, enabled_port_mask = 0xf,
     dest_eth_addr = (\<lambda>p. 2 + push_bit 40 (ucast p)),
     ports_eth_addr = (\<lambda>p. [0x6c, 0x92, 0xbf, 0x68, 0xe1, ucast p]),
     val_eth = (\<lambda>p. take 6 (le64 (2 + push_bit 40 (ucast p)))
        @ [0x6c, 0x92, 0xbf, 0x68, 0xe1, ucast p] @ replicate 4 0) \<rparr>"

definition mbuf_ex :: "nat \<Rightarrow> mbuf" where
  "mbuf_ex i = \<lparr> mb_id = i, mb_data = (\<lambda>_. 0), packet_type = 0x10, pkt_len = 64,
     ol_flags = 0x80, mb_port = 0 \<rparr>"

lemma tx_burst_ok_ex: "tx_burst_ok dpdk_ex"
  by (simp add: tx_burst_ok_def dpdk_ex_def)

lemma ptype_ok_ex: "ptype_ok dpdk_ex"
  unfolding ptype_ok_def dpdk_ex_def by (auto intro!: exI [of _ 4])

lemma em_ptype_ok_ex: "em_ptype_ok dpdk_ex"
  by (simp add: em_ptype_ok_def dpdk_ex_def l4_types_def)

lemma ipv4_cksum_ok_ex: "ipv4_cksum_ok dpdk_ex"
  by (simp add: ipv4_cksum_ok_def dpdk_ex_def)

end
