(* ===== verification/Route_Parse.thy ===== *)
theory Route_Parse
  imports C_String Dpdk
begin

text \<open>
  Reading the routes (\<open>l3fwd/lpm_route_parse.c\<close>, \<open>l3fwd/em_route_parse.c\<close>, the macro
  \<open>GET_CB_FIELD\<close> and the route types of \<open>l3fwd/l3fwd_route.h\<close>, the default tables of
  \<open>l3fwd/main.c\<close> and \<open>l3fwd/l3fwd_em.c\<close>). A parser writes through its rule argument, so it takes
  the rule and returns it with the return code. The rule types are polymorphic in the address: the
  unions of the source hold an IPv4 address in one of the two arrays and an IPv6 address in the other,
  and no code reads the other member. \<open>inet_pton\<close> and the two address macros of the DPDK headers
  are parameters; so are the files and whether \<open>fseek\<close> and \<open>calloc\<close> succeed. Writing past
  the end of the allocated array is the outcome \<open>Overrun\<close>.
\<close>

section \<open>Types and parameters\<close>

record 'a route =
  rt_ip :: 'a
  rt_depth :: u8
  rt_out :: u8

record 'a five_tuple =
  ip_dst :: 'a
  ip_src :: 'a
  port_dst :: u16
  port_src :: u16
  proto :: u8

record 'a em_rule =
  em_key :: "'a five_tuple"
  em_out :: u8

text \<open>\<open>inet_pton4\<close> gives the four bytes as the little-endian word they make in memory,
  \<open>inet_pton6\<close> the sixteen bytes; \<open>None\<close> is a text that is no address, which leaves the
  destination as it was.\<close>

record inet =
  inet_pton4 :: "string \<Rightarrow> u32 option"
  inet_pton6 :: "string \<Rightarrow> u8 list option"
  rte_IPV4 :: "nat \<Rightarrow> nat \<Rightarrow> nat \<Rightarrow> nat \<Rightarrow> u32"
  rte_IPV6 :: "u16 list \<Rightarrow> u8 list"

record stdio =
  fopen :: "string \<Rightarrow> string option"
  fseek_ok :: bool
  calloc_ok :: "nat \<Rightarrow> bool"

definition COMMENT_LEAD_CHAR :: char where "COMMENT_LEAD_CHAR = CHR ''#''"
definition ROUTE_LEAD_CHAR :: char where "ROUTE_LEAD_CHAR = CHR ''R''"

definition rule_dlm :: string where "rule_dlm = [CHR '' '', CHR 0x09, CHR 0x0A]"

section \<open>Fields, addresses and lines\<close>

definition get_cb_field :: "string \<Rightarrow> nat \<Rightarrow> nat \<Rightarrow> char option \<Rightarrow> (nat \<times> string) option" where
  "get_cb_field s base lim dlm =
     (let r = strtoul s base
      in if su_erange r \<or> first_char (su_end r) \<noteq> dlm \<or> lim < su_val r then None
         else Some (su_val r, tl (su_end r)))"

fun bypass_loop :: "string \<Rightarrow> bool" where
  "bypass_loop [] = True"
| "bypass_loop (c # cs) = (if \<not> isspace c then False else bypass_loop cs)"

definition is_bypass_line :: "string \<Rightarrow> bool" where
  "is_bypass_line buff = (if first_char buff = Some COMMENT_LEAD_CHAR then True else bypass_loop buff)"

definition parse_ipv6_addr_mask :: "inet \<Rightarrow> string \<Rightarrow> u8 list \<Rightarrow> u8 \<Rightarrow> int \<times> u8 list \<times> u8" where
  "parse_ipv6_addr_mask N token ipv6 mlen =
     (case strtok_r ''/'' token of
        None \<Rightarrow> (- EINVAL, ipv6, mlen)
      | Some (sa, sv) \<Rightarrow>
          case strtok_r ''/'' sv of
            None \<Rightarrow> (- EINVAL, ipv6, mlen)
          | Some (sm, _) \<Rightarrow>
              case inet_pton6 N sa of
                None \<Rightarrow> (- EINVAL, ipv6, mlen)
              | Some a \<Rightarrow>
                  case get_cb_field sm 0 128 None of
                    None \<Rightarrow> (- EINVAL, a, mlen)
                  | Some (v, _) \<Rightarrow> (0, a, of_nat v))"

definition parse_ipv4_addr_mask :: "inet \<Rightarrow> string \<Rightarrow> u32 \<Rightarrow> u8 \<Rightarrow> int \<times> u32 \<times> u8" where
  "parse_ipv4_addr_mask N token ipv4 mlen =
     (case strtok_r ''/'' token of
        None \<Rightarrow> (- EINVAL, ipv4, mlen)
      | Some (sa, sv) \<Rightarrow>
          case strtok_r ''/'' sv of
            None \<Rightarrow> (- EINVAL, ipv4, mlen)
          | Some (sm, _) \<Rightarrow>
              case inet_pton4 N sa of
                None \<Rightarrow> (- EINVAL, ipv4, mlen)
              | Some a \<Rightarrow>
                  case get_cb_field sm 0 32 None of
                    None \<Rightarrow> (- EINVAL, a, mlen)
                  | Some (v, _) \<Rightarrow> (0, bswap32 a, of_nat v))"

section \<open>The LPM rule parsers\<close>

definition lpm_parse_v6_net :: "inet \<Rightarrow> string \<Rightarrow> u8 list \<Rightarrow> u8 \<Rightarrow> int \<times> u8 list \<times> u8" where
  "lpm_parse_v6_net N inp v mask_len = parse_ipv6_addr_mask N inp v mask_len"

definition lpm_parse_v6_rule :: "inet \<Rightarrow> string \<Rightarrow> u8 list route \<Rightarrow> int \<times> u8 list route" where
  "lpm_parse_v6_rule N str v =
     (case strtoks rule_dlm 2 str of
        None \<Rightarrow> (- EINVAL, v)
      | Some inp \<Rightarrow>
          let (rc, a, d) = lpm_parse_v6_net N (inp ! 0) (rt_ip v) (rt_depth v);
              v1 = v\<lparr>rt_ip := a, rt_depth := d\<rparr>
          in case get_cb_field (inp ! 1) 0 255 None of
               None \<Rightarrow> (- EINVAL, v1)
             | Some (x, _) \<Rightarrow> (rc, v1\<lparr>rt_out := of_nat x\<rparr>))"

definition lpm_parse_v4_rule :: "inet \<Rightarrow> string \<Rightarrow> u32 route \<Rightarrow> int \<times> u32 route" where
  "lpm_parse_v4_rule N str v =
     (case strtoks rule_dlm 2 str of
        None \<Rightarrow> (- EINVAL, v)
      | Some inp \<Rightarrow>
          let (rc, a, d) = parse_ipv4_addr_mask N (inp ! 0) (rt_ip v) (rt_depth v);
              v1 = v\<lparr>rt_ip := a, rt_depth := d\<rparr>
          in case get_cb_field (inp ! 1) 0 255 None of
               None \<Rightarrow> (- EINVAL, v1)
             | Some (x, _) \<Rightarrow> (rc, v1\<lparr>rt_out := of_nat x\<rparr>))"

section \<open>The exact-match rule parsers\<close>

definition em_parse_v6_net :: "inet \<Rightarrow> string \<Rightarrow> u8 list \<Rightarrow> int \<times> u8 list" where
  "em_parse_v6_net N inp v = (case inet_pton6 N inp of None \<Rightarrow> (- EINVAL, v) | Some a \<Rightarrow> (0, a))"

text \<open>The four numeric fields, in the order the parsers read them: the source port (field 3), the
  destination port (2), the protocol (4), the output port (5). A field that is no number ends the
  parser.\<close>

definition em_parse_fields :: "string list \<Rightarrow> 'a em_rule \<Rightarrow> int \<times> 'a em_rule" where
  "em_parse_fields inp v =
     (case get_cb_field (inp ! 3) 0 65535 None of
        None \<Rightarrow> (- EINVAL, v)
      | Some (sp, _) \<Rightarrow>
          let v1 = v\<lparr>em_key := (em_key v)\<lparr>port_src := of_nat sp\<rparr>\<rparr>
          in case get_cb_field (inp ! 2) 0 65535 None of
               None \<Rightarrow> (- EINVAL, v1)
             | Some (dp, _) \<Rightarrow>
                 let v2 = v1\<lparr>em_key := (em_key v1)\<lparr>port_dst := of_nat dp\<rparr>\<rparr>
                 in case get_cb_field (inp ! 4) 0 255 None of
                      None \<Rightarrow> (- EINVAL, v2)
                    | Some (pr, _) \<Rightarrow>
                        let v3 = v2\<lparr>em_key := (em_key v2)\<lparr>proto := of_nat pr\<rparr>\<rparr>
                        in case get_cb_field (inp ! 5) 0 255 None of
                             None \<Rightarrow> (- EINVAL, v3)
                           | Some (x, _) \<Rightarrow> (0, v3\<lparr>em_out := of_nat x\<rparr>))"

definition em_parse_v6_rule :: "inet \<Rightarrow> string \<Rightarrow> u8 list em_rule \<Rightarrow> int \<times> u8 list em_rule" where
  "em_parse_v6_rule N str v =
     (case strtoks rule_dlm 6 str of
        None \<Rightarrow> (- EINVAL, v)
      | Some inp \<Rightarrow>
          let (rc, d) = em_parse_v6_net N (inp ! 0) (ip_dst (em_key v));
              v1 = v\<lparr>em_key := (em_key v)\<lparr>ip_dst := d\<rparr>\<rparr>
          in if rc \<noteq> 0 then (rc, v1)
             else let (rc, s) = em_parse_v6_net N (inp ! 1) (ip_src (em_key v1));
                      v2 = v1\<lparr>em_key := (em_key v1)\<lparr>ip_src := s\<rparr>\<rparr>
                  in if rc \<noteq> 0 then (rc, v2) else em_parse_fields inp v2)"

text \<open>\<open>inet_pton\<close> returns 1 for an address and 0 for any other text. The byte order of the
  destination is swapped before the return code is looked at.\<close>

definition inet_pton_v4 :: "inet \<Rightarrow> string \<Rightarrow> u32 \<Rightarrow> int \<times> u32" where
  "inet_pton_v4 N s old = (case inet_pton4 N s of None \<Rightarrow> (0, old) | Some a \<Rightarrow> (1, a))"

definition em_parse_v4_rule :: "inet \<Rightarrow> string \<Rightarrow> u32 em_rule \<Rightarrow> int \<times> u32 em_rule" where
  "em_parse_v4_rule N str v =
     (case strtoks rule_dlm 6 str of
        None \<Rightarrow> (- EINVAL, v)
      | Some inp \<Rightarrow>
          let (rc, d) = inet_pton_v4 N (inp ! 0) (ip_dst (em_key v));
              v1 = v\<lparr>em_key := (em_key v)\<lparr>ip_dst := bswap32 d\<rparr>\<rparr>
          in if rc \<noteq> 1 then (rc, v1)
             else let (rc, s) = inet_pton_v4 N (inp ! 1) (ip_src (em_key v1));
                      v2 = v1\<lparr>em_key := (em_key v1)\<lparr>ip_src := bswap32 s\<rparr>\<rparr>
                  in if rc \<noteq> 1 then (rc, v2) else em_parse_fields inp v2)"

section \<open>Reading a rule file\<close>

datatype 'r rules_out = Rules "'r list" nat | Rule_error | Overrun

fun add_rules_loop :: "(string \<Rightarrow> 'r \<Rightarrow> int \<times> 'r) \<Rightarrow> string list \<Rightarrow> 'r list \<Rightarrow> nat \<Rightarrow> 'r rules_out" where
  "add_rules_loop parser [] route_rules route_cnt = Rules route_rules route_cnt"
| "add_rules_loop parser (buff # bs) route_rules route_cnt =
     (if is_bypass_line buff then add_rules_loop parser bs route_rules route_cnt
      else if first_char buff \<noteq> Some ROUTE_LEAD_CHAR then Rule_error
      else if length route_rules \<le> route_cnt then Overrun
      else let (rc, r) = parser (tl buff) (route_rules ! route_cnt)
           in if rc \<noteq> 0 then Rule_error
              else add_rules_loop parser bs (route_rules[route_cnt := r]) (route_cnt + 1))"

text \<open>\<open>lpm_add_rules\<close> and \<open>em_add_rules\<close> have the same body, on arrays of different types.
  The result is the array stored through \<open>proute_base\<close> and the return code; \<open>None\<close> is an
  overrun. \<open>zero\<close> is the rule \<open>calloc\<close> makes.\<close>

definition add_rules :: "'r \<Rightarrow> stdio \<Rightarrow> string \<Rightarrow> (string \<Rightarrow> 'r \<Rightarrow> int \<times> 'r) \<Rightarrow> ('r list option \<times> int) option" where
  "add_rules zero S rule_path parser =
     (case fopen S rule_path of
        None \<Rightarrow> Some (None, - EINVAL)
      | Some fh \<Rightarrow>
          let ls = file_lines fh;
              route_num = length (filter (\<lambda>buff. first_char buff = Some ROUTE_LEAD_CHAR) ls)
          in if route_num = 0 then Some (None, - EINVAL)
             else if \<not> fseek_ok S then Some (None, - EINVAL)
             else if \<not> calloc_ok S route_num then Some (None, - EINVAL)
             else case add_rules_loop parser ls (replicate route_num zero) 0 of
                    Rules rs cnt \<Rightarrow> Some (Some rs, int cnt)
                  | Rule_error \<Rightarrow> Some (None, - EINVAL)
                  | Overrun \<Rightarrow> None)"

definition zero_route :: "'a \<Rightarrow> 'a route" where
  "zero_route z = \<lparr>rt_ip = z, rt_depth = 0, rt_out = 0\<rparr>"

definition zero_em_rule :: "'a \<Rightarrow> 'a em_rule" where
  "zero_em_rule z = \<lparr>em_key = \<lparr>ip_dst = z, ip_src = z, port_dst = 0, port_src = 0, proto = 0\<rparr>, em_out = 0\<rparr>"

definition zero6 :: "u8 list" where "zero6 = replicate 16 0"

definition lpm_add_rules ::
    "'a \<Rightarrow> stdio \<Rightarrow> string \<Rightarrow> (string \<Rightarrow> 'a route \<Rightarrow> int \<times> 'a route) \<Rightarrow> ('a route list option \<times> int) option" where
  "lpm_add_rules z = add_rules (zero_route z)"

definition em_add_rules ::
    "'a \<Rightarrow> stdio \<Rightarrow> string \<Rightarrow> (string \<Rightarrow> 'a em_rule \<Rightarrow> int \<times> 'a em_rule) \<Rightarrow> ('a em_rule list option \<times> int) option" where
  "em_add_rules z = add_rules (zero_em_rule z)"

section \<open>The default routes\<close>

definition ipv4_l3fwd_route_array :: "inet \<Rightarrow> u32 route list" where
  "ipv4_l3fwd_route_array N =
     map (\<lambda>i. \<lparr>rt_ip = rte_IPV4 N 198 18 i 0, rt_depth = 24, rt_out = of_nat i\<rparr>) [0..<16]"

definition ipv6_l3fwd_route_array :: "inet \<Rightarrow> u8 list route list" where
  "ipv6_l3fwd_route_array N =
     map (\<lambda>i. \<lparr>rt_ip = rte_IPV6 N [0x2001, 0x0200, 0, of_nat i, 0, 0, 0, 0], rt_depth = 64,
                rt_out = of_nat i\<rparr>) [0..<16]"

definition ipv4_l3fwd_em_route_array :: "inet \<Rightarrow> u32 em_rule list" where
  "ipv4_l3fwd_em_route_array N =
     map (\<lambda>i. \<lparr>em_key = \<lparr>ip_dst = rte_IPV4 N 198 18 i 0, ip_src = rte_IPV4 N 198 18 i 1,
                          port_dst = 9, port_src = 9, proto = 17\<rparr>, em_out = of_nat i\<rparr>) [0..<16]"

definition ipv6_l3fwd_em_route_array :: "u8 list em_rule list" where
  "ipv6_l3fwd_em_route_array =
     map (\<lambda>i. \<lparr>em_key = \<lparr>ip_dst = [32, 1, 2, 0, 0, 0, 0, of_nat i, 0, 0, 0, 0, 0, 0, 0, 0],
                          ip_src = [32, 1, 2, 0, 0, 0, 0, of_nat i, 0, 0, 0, 0, 0, 0, 0, 1],
                          port_dst = 9, port_src = 9, proto = 17\<rparr>, em_out = of_nat i\<rparr>) [0..<16]"

section \<open>Loading the tables\<close>

text \<open>The globals \<open>route_base_v4\<close>, \<open>route_base_v6\<close>, \<open>route_num_v4\<close>, \<open>route_num_v6\<close>; for exact
  match the two arrays are \<open>em_route_base_v4\<close> and \<open>em_route_base_v6\<close>.\<close>

record ('r4, 'r6) route_tables =
  route_base_v4 :: "'r4 list option"
  route_base_v6 :: "'r6 list option"
  route_num_v4 :: int
  route_num_v6 :: int

record parm_cfg =
  rule_ipv4_name :: "string option"
  rule_ipv6_name :: "string option"

text \<open>The copy loops of the default tables write into what \<open>calloc\<close> returned without looking at
  it; \<open>None\<close> is the write through a null pointer.\<close>

fun copy_defaults :: "'r list \<Rightarrow> nat \<Rightarrow> 'r list \<Rightarrow> 'r list" where
  "copy_defaults [] i base = base"
| "copy_defaults (r # rs) i base = copy_defaults rs (i + 1) (base[i := r])"

definition add_default_rules :: "stdio \<Rightarrow> 'r \<Rightarrow> 'r list \<Rightarrow> 'r list option" where
  "add_default_rules S zero arr =
     (if \<not> calloc_ok S (length arr) then None
      else Some (copy_defaults arr 0 (replicate (length arr) zero)))"

definition lpm_free_routes :: "('r4, 'r6) route_tables \<Rightarrow> ('r4, 'r6) route_tables" where
  "lpm_free_routes t = \<lparr>route_base_v4 = None, route_base_v6 = None, route_num_v4 = 0, route_num_v6 = 0\<rparr>"

definition em_free_routes :: "('r4, 'r6) route_tables \<Rightarrow> ('r4, 'r6) route_tables" where
  "em_free_routes t = \<lparr>route_base_v4 = None, route_base_v6 = None, route_num_v4 = 0, route_num_v6 = 0\<rparr>"

text \<open>\<open>None\<close>: a write outside an array. \<open>Some (True, t)\<close>: the program exits with the globals \<open>t\<close>.\<close>

definition read_config_files_lpm ::
    "stdio \<Rightarrow> inet \<Rightarrow> parm_cfg \<Rightarrow> (u32 route, u8 list route) route_tables \<Rightarrow>
       (bool \<times> (u32 route, u8 list route) route_tables) option" where
  "read_config_files_lpm S N cfg t =
     (case (rule_ipv4_name cfg, rule_ipv6_name cfg) of
        (Some f4, Some f6) \<Rightarrow>
          (case lpm_add_rules 0 S f4 (lpm_parse_v4_rule N) of
             None \<Rightarrow> None
           | Some (b4, n4) \<Rightarrow>
               let t1 = t\<lparr>route_base_v4 := b4, route_num_v4 := n4\<rparr>
               in if n4 < 0 then Some (True, lpm_free_routes t1)
                  else case lpm_add_rules zero6 S f6 (lpm_parse_v6_rule N) of
                         None \<Rightarrow> None
                       | Some (b6, n6) \<Rightarrow>
                           let t2 = t1\<lparr>route_base_v6 := b6, route_num_v6 := n6\<rparr>
                           in if n6 < 0 then Some (True, lpm_free_routes t2) else Some (False, t2))
      | _ \<Rightarrow>
          (case add_default_rules S (zero_route 0) (ipv4_l3fwd_route_array N) of
             None \<Rightarrow> None
           | Some b4 \<Rightarrow>
               let t1 = t\<lparr>route_num_v4 := int (length (ipv4_l3fwd_route_array N)), route_base_v4 := Some b4\<rparr>
               in case add_default_rules S (zero_route zero6) (ipv6_l3fwd_route_array N) of
                    None \<Rightarrow> None
                  | Some b6 \<Rightarrow>
                      Some (False, t1\<lparr>route_num_v6 := int (length (ipv6_l3fwd_route_array N)),
                                      route_base_v6 := Some b6\<rparr>)))"

definition read_config_files_em ::
    "stdio \<Rightarrow> inet \<Rightarrow> parm_cfg \<Rightarrow> (u32 em_rule, u8 list em_rule) route_tables \<Rightarrow>
       (bool \<times> (u32 em_rule, u8 list em_rule) route_tables) option" where
  "read_config_files_em S N cfg t =
     (case (rule_ipv4_name cfg, rule_ipv6_name cfg) of
        (Some f4, Some f6) \<Rightarrow>
          (case em_add_rules 0 S f4 (em_parse_v4_rule N) of
             None \<Rightarrow> None
           | Some (b4, n4) \<Rightarrow>
               let t1 = t\<lparr>route_base_v4 := b4, route_num_v4 := n4\<rparr>
               in if n4 < 0 then Some (True, em_free_routes t1)
                  else case em_add_rules zero6 S f6 (em_parse_v6_rule N) of
                         None \<Rightarrow> None
                       | Some (b6, n6) \<Rightarrow>
                           let t2 = t1\<lparr>route_base_v6 := b6, route_num_v6 := n6\<rparr>
                           in if n6 < 0 then Some (True, em_free_routes t2) else Some (False, t2))
      | _ \<Rightarrow>
          (case add_default_rules S (zero_em_rule 0) (ipv4_l3fwd_em_route_array N) of
             None \<Rightarrow> None
           | Some b4 \<Rightarrow>
               let t1 = t\<lparr>route_num_v4 := int (length (ipv4_l3fwd_em_route_array N)), route_base_v4 := Some b4\<rparr>
               in case add_default_rules S (zero_em_rule zero6) ipv6_l3fwd_em_route_array of
                    None \<Rightarrow> None
                  | Some b6 \<Rightarrow>
                      Some (False, t1\<lparr>route_num_v6 := int (length ipv6_l3fwd_em_route_array),
                                      route_base_v6 := Some b6\<rparr>)))"

section \<open>What a rule file means\<close>

text \<open>The reading of a line, without the parsers' order of evaluation: the fields of the line, each
  a number within its bound or an address, or \<open>None\<close>.\<close>

definition cb_num :: "nat \<Rightarrow> string \<Rightarrow> nat option" where
  "cb_num lim tok =
     (let r = strtoul tok 0
      in if \<not> su_erange r \<and> su_end r = [] \<and> su_val r \<le> lim then Some (su_val r) else None)"

lemma get_cb_field_num: "get_cb_field tok 0 lim None = map_option (\<lambda>v. (v, [])) (cb_num lim tok)"
  by (auto simp: get_cb_field_def cb_num_def Let_def first_char_def split: list.splits)

lemma cb_num_le: "cb_num lim tok = Some v \<Longrightarrow> v \<le> lim"
  by (simp add: cb_num_def Let_def split: if_splits)

definition net_of :: "(string \<Rightarrow> 'a option) \<Rightarrow> nat \<Rightarrow> string \<Rightarrow> ('a \<times> nat) option" where
  "net_of addr bits tok =
     (case strtoks ''/'' 2 tok of
        Some [sa, sm] \<Rightarrow> Option.bind (addr sa) (\<lambda>a. map_option (Pair a) (cb_num bits sm))
      | _ \<Rightarrow> None)"

definition route_of :: "(string \<Rightarrow> 'a option) \<Rightarrow> nat \<Rightarrow> string \<Rightarrow> 'a route option" where
  "route_of addr bits line =
     (case strtoks rule_dlm 2 line of
        Some [net, out] \<Rightarrow>
          Option.bind (net_of addr bits net) (\<lambda>(a, m).
            map_option (\<lambda>x. \<lparr>rt_ip = a, rt_depth = of_nat m, rt_out = of_nat x\<rparr>) (cb_num 255 out))
      | _ \<Rightarrow> None)"

definition addr4 :: "inet \<Rightarrow> string \<Rightarrow> u32 option" where
  "addr4 N s = map_option bswap32 (inet_pton4 N s)"

definition em_fields_of :: "'a \<Rightarrow> 'a \<Rightarrow> string list \<Rightarrow> 'a em_rule option" where
  "em_fields_of d s inp =
     Option.bind (cb_num 65535 (inp ! 3)) (\<lambda>sp. Option.bind (cb_num 65535 (inp ! 2)) (\<lambda>dp.
     Option.bind (cb_num 255 (inp ! 4)) (\<lambda>pr. map_option (\<lambda>x.
       \<lparr>em_key = \<lparr>ip_dst = d, ip_src = s, port_dst = of_nat dp, port_src = of_nat sp, proto = of_nat pr\<rparr>,
         em_out = of_nat x\<rparr>) (cb_num 255 (inp ! 5)))))"

definition em_rule6_of :: "inet \<Rightarrow> string \<Rightarrow> u8 list em_rule option" where
  "em_rule6_of N line =
     Option.bind (strtoks rule_dlm 6 line) (\<lambda>inp.
     Option.bind (inet_pton6 N (inp ! 0)) (\<lambda>d. Option.bind (inet_pton6 N (inp ! 1)) (\<lambda>s.
       em_fields_of d s inp)))"

text \<open>For IPv4 a line of six fields whose destination or source is no address is read as a rule as
  well: the fields after the bad address keep their zeros.\<close>

definition em_rule4_of :: "inet \<Rightarrow> string \<Rightarrow> u32 em_rule option" where
  "em_rule4_of N line =
     Option.bind (strtoks rule_dlm 6 line) (\<lambda>inp.
       case addr4 N (inp ! 0) of
         None \<Rightarrow> Some (zero_em_rule 0)
       | Some d \<Rightarrow>
           case addr4 N (inp ! 1) of
             None \<Rightarrow> Some \<lparr>em_key = \<lparr>ip_dst = d, ip_src = 0, port_dst = 0, port_src = 0, proto = 0\<rparr>, em_out = 0\<rparr>
           | Some s \<Rightarrow> em_fields_of d s inp)"

text \<open>The rules of a file: every line that is neither blank nor a comment starts with \<open>R\<close> and reads
  as a rule, and there is at least one.\<close>

definition rules_of :: "(string \<Rightarrow> 'r option) \<Rightarrow> string \<Rightarrow> 'r list option" where
  "rules_of rule f =
     (let ls = filter (\<lambda>l. \<not> is_bypass_line l) (file_lines f)
      in if ls = [] \<or> (\<exists>l \<in> set ls. hd l \<noteq> ROUTE_LEAD_CHAR) then None
         else those (map (\<lambda>l. rule (tl l)) ls))"

lemma bypass_loop_all: "bypass_loop l \<longleftrightarrow> (\<forall>c \<in> set l. isspace c)"
  by (induction l) auto

lemma not_bypass_nonempty: "\<not> is_bypass_line l \<Longrightarrow> l \<noteq> []"
  by (auto simp: is_bypass_line_def first_char_def)

lemma route_line_not_bypass:
  assumes "first_char l = Some ROUTE_LEAD_CHAR" shows "\<not> is_bypass_line l"
proof (cases l)
  case (Cons c cs)
  have "\<not> isspace CHR ''R''" by (simp add: isspace_def code_of_def)
  with assms Cons show ?thesis
    by (simp add: is_bypass_line_def first_char_def ROUTE_LEAD_CHAR_def COMMENT_LEAD_CHAR_def)
qed (use assms in \<open>simp add: first_char_def\<close>)

lemma map_those_length: "those (map g xs) = Some ys \<Longrightarrow> length ys = length xs"
  by (induction xs arbitrary: ys) (auto split: option.splits)

section \<open>The contract of a rule parser\<close>

text \<open>What the file reader needs of the callback it is given: on a fresh rule it returns 0 with the
  rule the line denotes, and something else when the line denotes none.\<close>

locale rule_parser =
  fixes parser :: "string \<Rightarrow> 'r \<Rightarrow> int \<times> 'r" and zero :: 'r and rule :: "string \<Rightarrow> 'r option"
  assumes parse_some: "rule s = Some r \<Longrightarrow> parser s zero = (0, r)"
    and parse_none: "rule s = None \<Longrightarrow> fst (parser s zero) \<noteq> 0"
begin

definition accepted :: "string list \<Rightarrow> 'r list option" where
  "accepted ls =
     (let rs = filter (\<lambda>l. \<not> is_bypass_line l) ls
      in if \<exists>l \<in> set rs. hd l \<noteq> ROUTE_LEAD_CHAR then None else those (map (\<lambda>l. rule (tl l)) rs))"

abbreviation route_lines :: "string list \<Rightarrow> nat" where
  "route_lines ls \<equiv> length (filter (\<lambda>l. first_char l = Some ROUTE_LEAD_CHAR) ls)"

lemma loop_accepted:
  "add_rules_loop parser ls (rs @ replicate (route_lines ls) zero) (length rs) =
     (case accepted ls of None \<Rightarrow> Rule_error | Some rs' \<Rightarrow> Rules (rs @ rs') (length rs + length rs'))"
proof (induction ls arbitrary: rs)
  case Nil
  then show ?case by (simp add: accepted_def)
next
  case (Cons l ls)
  show ?case
  proof (cases "is_bypass_line l")
    case True
    then have "first_char l \<noteq> Some ROUTE_LEAD_CHAR" using route_line_not_bypass by blast
    then show ?thesis using True Cons.IH [of rs] by (simp add: accepted_def)
  next
    case False
    then obtain c cs where l: "l = c # cs" using not_bypass_nonempty by (cases l) auto
    show ?thesis
    proof (cases "c = ROUTE_LEAD_CHAR")
      case False
      then show ?thesis using \<open>\<not> is_bypass_line l\<close> l by (simp add: accepted_def first_char_def)
    next
      case True
      then have fc: "first_char l = Some ROUTE_LEAD_CHAR" using l by (simp add: first_char_def)
      show ?thesis
      proof (cases "rule cs")
        case None
        then have "fst (parser cs zero) \<noteq> 0" by (rule parse_none)
        then show ?thesis using None \<open>\<not> is_bypass_line l\<close> l fc True
          by (simp add: accepted_def nth_append case_prod_beta Let_def)
      next
        case (Some r)
        have "add_rules_loop parser (l # ls) (rs @ replicate (route_lines (l # ls)) zero) (length rs)
          = add_rules_loop parser ls ((rs @ [r]) @ replicate (route_lines ls) zero) (length (rs @ [r]))"
          using \<open>\<not> is_bypass_line l\<close> l fc parse_some [OF Some] by (simp add: nth_append)
        also have "\<dots> = (case accepted ls of None \<Rightarrow> Rule_error
            | Some rs' \<Rightarrow> Rules (rs @ r # rs') (length rs + length (r # rs')))"
          unfolding Cons.IH by (simp cong: option.case_cong)
        finally show ?thesis using \<open>\<not> is_bypass_line l\<close> l Some True
          by (auto simp: accepted_def Let_def split: option.splits)
      qed
    qed
  qed
qed

lemma accepted_route_lines:
  assumes "accepted ls = Some rs"
  shows "filter (\<lambda>l. \<not> is_bypass_line l) ls = filter (\<lambda>l. first_char l = Some ROUTE_LEAD_CHAR) ls"
proof (rule filter_cong [OF refl])
  fix l assume l: "l \<in> set ls"
  show "(\<not> is_bypass_line l) \<longleftrightarrow> first_char l = Some ROUTE_LEAD_CHAR"
  proof
    assume nb: "\<not> is_bypass_line l"
    then have "hd l = ROUTE_LEAD_CHAR"
      using assms l by (auto simp: accepted_def Let_def split: if_splits)
    then show "first_char l = Some ROUTE_LEAD_CHAR"
      using not_bypass_nonempty [OF nb] by (cases l) (simp_all add: first_char_def)
  qed (rule route_line_not_bypass)
qed

lemma accepted_length:
  assumes "accepted ls = Some rs" shows "length rs = route_lines ls"
proof -
  have "those (map (\<lambda>l. rule (tl l)) (filter (\<lambda>l. \<not> is_bypass_line l) ls)) = Some rs"
    using assms by (simp add: accepted_def Let_def split: if_splits)
  from map_those_length [OF this] show ?thesis
    unfolding accepted_route_lines [OF assms] .
qed

lemma add_rules_rules:
  assumes "fopen S p = Some f" and "fseek_ok S" and "\<And>n. calloc_ok S n"
  shows "add_rules zero S p parser =
    Some (case rules_of rule f of None \<Rightarrow> (None, - EINVAL) | Some rs \<Rightarrow> (Some rs, int (length rs)))"
proof -
  let ?ls = "file_lines f"
  have r: "rules_of rule f = (if filter (\<lambda>l. \<not> is_bypass_line l) ?ls = [] then None else accepted ?ls)"
    by (simp add: rules_of_def accepted_def Let_def)
  have z: "route_lines ?ls = 0" if "filter (\<lambda>l. \<not> is_bypass_line l) ?ls = []"
    using that by (auto simp: filter_empty_conv dest: route_line_not_bypass)
  have a: "accepted ?ls = None" if "route_lines ?ls = 0" "filter (\<lambda>l. \<not> is_bypass_line l) ?ls \<noteq> []"
    using that accepted_route_lines [of ?ls] by (cases "accepted ?ls") auto
  show ?thesis using loop_accepted [of ?ls "[]"] z a
    by (auto simp: add_rules_def assms Let_def r split: option.splits)
qed

lemma add_rules_no_overrun: "add_rules zero S p parser \<noteq> None"
  using loop_accepted [of _ "[]"] by (simp add: add_rules_def Let_def split: option.splits)

lemma add_rules_accepted:
  assumes "add_rules zero S p parser = Some (Some rs, n)"
  obtains f where "fopen S p = Some f" and "accepted (file_lines f) = Some rs"
    and "0 < route_lines (file_lines f)" and "n = int (length rs)"
proof -
  from assms obtain f where f: "fopen S p = Some f" and r: "0 < route_lines (file_lines f)"
    and l: "(case add_rules_loop parser (file_lines f) (replicate (route_lines (file_lines f)) zero) 0 of
        Rules rs cnt \<Rightarrow> Some (Some rs, int cnt) | Rule_error \<Rightarrow> Some (None, - EINVAL) | Overrun \<Rightarrow> None)
      = Some (Some rs, n)"
    unfolding add_rules_def Let_def by (cases "fopen S p") (simp_all split: if_splits)
  from l loop_accepted [of "file_lines f" "[]"]
  have "accepted (file_lines f) = Some rs" and "n = int (length rs)"
    by (cases "accepted (file_lines f)"; simp)+
  with f r show thesis using that by blast
qed

lemma add_rules_count:
  assumes "add_rules zero S p parser = Some (Some rs, n)" shows "n = int (length rs) \<and> 0 < n"
  using add_rules_accepted [OF assms] accepted_length by (metis of_nat_0_less_iff)

lemma add_rules_denoted:
  assumes "add_rules zero S p parser = Some (Some rs, n)" and "r \<in> set rs"
  obtains s where "rule s = Some r"
proof -
  obtain f where "accepted (file_lines f) = Some rs"
    using add_rules_accepted [OF assms(1)] by blast
  then have "those (map (\<lambda>l. rule (tl l)) (filter (\<lambda>l. \<not> is_bypass_line l) (file_lines f))) = Some rs"
    by (simp add: accepted_def Let_def split: if_splits)
  moreover have "\<exists>l. rule (tl l) = Some r" if "those (map (\<lambda>l. rule (tl l)) ls) = Some rs" "r \<in> set rs" for ls
    using that by (induction ls arbitrary: rs) (auto split: option.splits)
  ultimately show thesis using assms(2) that by blast
qed

end

section \<open>The parsers keep the contract\<close>

lemma EINVAL_nonzero [simp]: "EINVAL \<noteq> 0" by (simp add: EINVAL_def)

lemma two_tokens:
  assumes "strtoks dlm 2 s = Some inp" obtains a b where "inp = [a, b]"
  using strtoks_length [OF assms] that by (auto simp: numeral_2_eq_2 length_Suc_conv)

lemma two_strtoks:
  "strtoks dlm 2 s = (case strtok_r dlm s of None \<Rightarrow> None
    | Some (a, sv) \<Rightarrow> map_option (\<lambda>(b, _). [a, b]) (strtok_r dlm sv))"
  by (simp add: numeral_2_eq_2 split: option.splits)

lemma parse_ipv4_addr_mask_net:
  "parse_ipv4_addr_mask N tok old m =
     (case net_of (addr4 N) 32 tok of
        Some (a, v) \<Rightarrow> (0, a, of_nat v)
      | None \<Rightarrow> (- EINVAL, fst (snd (parse_ipv4_addr_mask N tok old m)), snd (snd (parse_ipv4_addr_mask N tok old m))))"
  by (simp add: parse_ipv4_addr_mask_def net_of_def two_strtoks addr4_def get_cb_field_num
      split: option.splits)

lemma parse_ipv6_addr_mask_net:
  "parse_ipv6_addr_mask N tok old m =
     (case net_of (inet_pton6 N) 128 tok of
        Some (a, v) \<Rightarrow> (0, a, of_nat v)
      | None \<Rightarrow> (- EINVAL, fst (snd (parse_ipv6_addr_mask N tok old m)), snd (snd (parse_ipv6_addr_mask N tok old m))))"
  by (simp add: parse_ipv6_addr_mask_def net_of_def two_strtoks get_cb_field_num
      split: option.splits)

lemma lpm_parse_v4_some:
  assumes "route_of (addr4 N) 32 s = Some r"
  shows "lpm_parse_v4_rule N s v = (0, r)"
proof -
  obtain inp where i: "strtoks rule_dlm 2 s = Some inp"
    using assms by (auto simp: route_of_def split: option.splits)
  obtain a b where ab: "inp = [a, b]" using two_tokens [OF i] .
  from assms obtain ip m x where n: "net_of (addr4 N) 32 a = Some (ip, m)" "cb_num 255 b = Some x"
    and r: "r = \<lparr>rt_ip = ip, rt_depth = of_nat m, rt_out = of_nat x\<rparr>"
    by (auto simp: route_of_def i ab bind_eq_Some_conv)
  show ?thesis
    using parse_ipv4_addr_mask_net [of N a "rt_ip v" "rt_depth v"]
    by (cases v) (simp add: lpm_parse_v4_rule_def i ab n r get_cb_field_num)
qed

lemma lpm_parse_v4_none:
  assumes "route_of (addr4 N) 32 s = None"
  shows "fst (lpm_parse_v4_rule N s v) = - EINVAL"
proof (cases "strtoks rule_dlm 2 s")
  case (Some inp)
  obtain a b where ab: "inp = [a, b]" using two_tokens [OF Some] .
  have "net_of (addr4 N) 32 a = None \<or> cb_num 255 b = None"
    using assms by (cases "net_of (addr4 N) 32 a") (auto simp: route_of_def Some ab)
  then show ?thesis
    using arg_cong [OF parse_ipv4_addr_mask_net [of N a "rt_ip v" "rt_depth v"], of fst]
    by (auto simp: lpm_parse_v4_rule_def Some ab get_cb_field_num Let_def case_prod_beta split: option.splits)
qed (simp add: lpm_parse_v4_rule_def)

lemma lpm_parse_v6_some:
  assumes "route_of (inet_pton6 N) 128 s = Some r"
  shows "lpm_parse_v6_rule N s v = (0, r)"
proof -
  obtain inp where i: "strtoks rule_dlm 2 s = Some inp"
    using assms by (auto simp: route_of_def split: option.splits)
  obtain a b where ab: "inp = [a, b]" using two_tokens [OF i] .
  from assms obtain ip m x where n: "net_of (inet_pton6 N) 128 a = Some (ip, m)" "cb_num 255 b = Some x"
    and r: "r = \<lparr>rt_ip = ip, rt_depth = of_nat m, rt_out = of_nat x\<rparr>"
    by (auto simp: route_of_def i ab bind_eq_Some_conv)
  show ?thesis
    using parse_ipv6_addr_mask_net [of N a "rt_ip v" "rt_depth v"]
    by (cases v) (simp add: lpm_parse_v6_rule_def lpm_parse_v6_net_def i ab n r get_cb_field_num)
qed

lemma lpm_parse_v6_none:
  assumes "route_of (inet_pton6 N) 128 s = None"
  shows "fst (lpm_parse_v6_rule N s v) = - EINVAL"
proof (cases "strtoks rule_dlm 2 s")
  case (Some inp)
  obtain a b where ab: "inp = [a, b]" using two_tokens [OF Some] .
  have "net_of (inet_pton6 N) 128 a = None \<or> cb_num 255 b = None"
    using assms by (cases "net_of (inet_pton6 N) 128 a") (auto simp: route_of_def Some ab)
  then show ?thesis
    using arg_cong [OF parse_ipv6_addr_mask_net [of N a "rt_ip v" "rt_depth v"], of fst]
    by (auto simp: lpm_parse_v6_rule_def lpm_parse_v6_net_def Some ab get_cb_field_num Let_def case_prod_beta
        split: option.splits)
qed (simp add: lpm_parse_v6_rule_def)

lemma em_parse_fields_some:
  assumes "em_fields_of (ip_dst (em_key v)) (ip_src (em_key v)) inp = Some r"
  shows "em_parse_fields inp v = (0, r)"
proof -
  from assms obtain sp dp pr x where n: "cb_num 65535 (inp ! 3) = Some sp" "cb_num 65535 (inp ! 2) = Some dp"
      "cb_num 255 (inp ! 4) = Some pr" "cb_num 255 (inp ! 5) = Some x"
    and r: "r = \<lparr>em_key = \<lparr>ip_dst = ip_dst (em_key v), ip_src = ip_src (em_key v), port_dst = of_nat dp,
        port_src = of_nat sp, proto = of_nat pr\<rparr>, em_out = of_nat x\<rparr>"
    by (auto simp: em_fields_of_def bind_eq_Some_conv)
  show ?thesis by (cases v; cases "em_key v") (simp add: em_parse_fields_def get_cb_field_num n r)
qed

lemma em_parse_fields_none:
  assumes "em_fields_of d s inp = None"
  shows "fst (em_parse_fields inp v) = - EINVAL"
  using assms
  by (auto simp: em_fields_of_def em_parse_fields_def get_cb_field_num Let_def bind_eq_None_conv split: option.splits)

lemma em_parse_v6_some:
  assumes "em_rule6_of N s = Some r"
  shows "em_parse_v6_rule N s v = (0, r)"
proof -
  from assms obtain inp d a where n: "strtoks rule_dlm 6 s = Some inp" "inet_pton6 N (inp ! 0) = Some d"
    "inet_pton6 N (inp ! 1) = Some a" and r: "em_fields_of d a inp = Some r"
    by (auto simp: em_rule6_of_def bind_eq_Some_conv)
  show ?thesis unfolding em_parse_v6_rule_def n em_parse_v6_net_def Let_def option.case prod.case
    by simp (rule em_parse_fields_some, simp add: r)
qed

lemma em_parse_v6_none:
  assumes "em_rule6_of N s = None"
  shows "fst (em_parse_v6_rule N s v) = - EINVAL"
  using assms em_parse_fields_none
  by (auto simp: em_rule6_of_def em_parse_v6_rule_def em_parse_v6_net_def Let_def split: option.splits)

lemma em_parse_v4_some:
  assumes "em_rule4_of N s = Some r"
  shows "em_parse_v4_rule N s (zero_em_rule 0) = (0, r)"
proof -
  have b0: "bswap32 0 = 0" by (simp add: bswap32_def)
  from assms obtain inp where i: "strtoks rule_dlm 6 s = Some inp"
    by (auto simp: em_rule4_of_def bind_eq_Some_conv)
  show ?thesis
  proof (cases "inet_pton4 N (inp ! 0)")
    case None
    then have "r = zero_em_rule 0" using assms by (simp add: em_rule4_of_def i addr4_def)
    then show ?thesis using None
      by (simp add: em_parse_v4_rule_def i inet_pton_v4_def zero_em_rule_def b0)
  next
    case d: (Some d)
    show ?thesis
    proof (cases "inet_pton4 N (inp ! 1)")
      case None
      then show ?thesis using assms d
        by (simp add: em_rule4_of_def em_parse_v4_rule_def i inet_pton_v4_def addr4_def zero_em_rule_def b0)
    next
      case (Some a)
      then show ?thesis using assms d
        by (simp add: em_rule4_of_def em_parse_v4_rule_def i inet_pton_v4_def addr4_def zero_em_rule_def
            em_parse_fields_some)
    qed
  qed
qed

lemma em_parse_v4_none:
  assumes "em_rule4_of N s = None"
  shows "fst (em_parse_v4_rule N s v) = - EINVAL"
  using assms em_parse_fields_none
  by (auto simp: em_rule4_of_def em_parse_v4_rule_def inet_pton_v4_def addr4_def Let_def split: option.splits)

interpretation lpm4: rule_parser "lpm_parse_v4_rule N" "zero_route 0" "route_of (addr4 N) 32" for N
  by unfold_locales (simp_all add: lpm_parse_v4_some lpm_parse_v4_none)

interpretation lpm6: rule_parser "lpm_parse_v6_rule N" "zero_route zero6" "route_of (inet_pton6 N) 128" for N
  by unfold_locales (simp_all add: lpm_parse_v6_some lpm_parse_v6_none)

interpretation em4: rule_parser "em_parse_v4_rule N" "zero_em_rule 0" "em_rule4_of N" for N
  by unfold_locales (simp_all add: em_parse_v4_some em_parse_v4_none)

interpretation em6: rule_parser "em_parse_v6_rule N" "zero_em_rule zero6" "em_rule6_of N" for N
  by unfold_locales (simp_all add: em_parse_v6_some em_parse_v6_none)

section \<open>Writing a route\<close>

text \<open>A number in decimal, and a route the way the rule files write it: the address, a slash, the
  prefix length, a blank and the output port. \<open>ntop\<close> is any printer of addresses.\<close>

function dec :: "nat \<Rightarrow> string" where
  "dec n = (if n < 10 then [char_of (48 + n)] else dec (n div 10) @ [char_of (48 + n mod 10)])"
  by pat_completeness auto
termination by (relation "measure id") auto

declare dec.simps [simp del]

definition show_route :: "('a \<Rightarrow> string) \<Rightarrow> 'a route \<Rightarrow> string" where
  "show_route ntop r =
     ntop (rt_ip r) @ ''/'' @ dec (unat (rt_depth r)) @ '' '' @ dec (unat (rt_out r))"

definition show_line :: "('a \<Rightarrow> string) \<Rightarrow> 'a route \<Rightarrow> string" where
  "show_line ntop r = ROUTE_LEAD_CHAR # show_route ntop r @ [CHR 0x0A]"

text \<open>What a printer of addresses has to satisfy: \<open>addr\<close> reads its text back, which is not empty
  and has neither a slash, nor a blank, nor a line end, nor a NUL in it.\<close>

definition printer_ok :: "(string \<Rightarrow> 'a option) \<Rightarrow> ('a \<Rightarrow> string) \<Rightarrow> bool" where
  "printer_ok addr ntop \<longleftrightarrow>
     (\<forall>a. addr (ntop a) = Some a \<and> ntop a \<noteq> [] \<and> length (ntop a) \<le> 100
        \<and> (\<forall>c \<in> set (ntop a). c \<noteq> CHR ''/'' \<and> c \<notin> set rule_dlm \<and> code_of c \<noteq> 0))"

lemma digit_char:
  assumes "k < 10"
  shows "digit_val (char_of (48 + k)) = k" and "code_of (char_of (48 + k)) = 48 + k"
proof -
  show c: "code_of (char_of (48 + k)) = 48 + k"
    using assms by (simp add: code_of_def)
  show "digit_val (char_of (48 + k)) = k"
    unfolding digit_val_def Let_def c using assms by simp
qed

lemma dec_digits: "c \<in> set (dec n) \<Longrightarrow> 48 \<le> code_of c \<and> code_of c \<le> 57"
proof (induction n rule: dec.induct)
  case (1 n)
  show ?case
  proof (cases "n < 10")
    case True
    then show ?thesis using 1(2) digit_char [of n] by (subst (asm) dec.simps) simp
  next
    case False
    then show ?thesis using 1 digit_char [of "n mod 10"] by (subst (asm) dec.simps) auto
  qed
qed

lemma dec_nonempty [simp]: "dec n \<noteq> []"
  by (subst dec.simps) simp

lemma num_of_dec: "num_of 10 (dec n) = n"
proof (induction n rule: dec.induct)
  case (1 n)
  show ?case
  proof (cases "n < 10")
    case True
    then show ?thesis by (subst dec.simps) (simp add: num_of_def digit_char)
  next
    case False
    then have "num_of 10 (dec n) = num_of 10 (dec (n div 10)) * 10 + n mod 10"
      by (subst dec.simps) (simp add: num_of_def digit_char)
    also have "\<dots> = n" using 1 False by simp
    finally show ?thesis .
  qed
qed

lemma char_zero: "char_of (48 :: nat) = CHR ''0''"
  by code_simp

lemma code_zero: "code_of c = 48 \<longleftrightarrow> c = CHR ''0''"
proof -
  have "code_of CHR ''0'' = 48" by (simp add: code_of_def)
  then show ?thesis unfolding code_of_def by (metis of_char_eq_iff)
qed

lemma dec_zero: "hd (dec n) = CHR ''0'' \<longleftrightarrow> n = 0"
proof (induction n rule: dec.induct)
  case (1 n)
  have z: "char_of (48 + k) = CHR ''0'' \<longleftrightarrow> k = 0" if "k < 10" for k :: nat
  proof
    assume "char_of (48 + k) = CHR ''0''"
    then have "code_of (char_of (48 + k)) = 48" by (simp add: code_of_def)
    then show "k = 0" using digit_char [OF that] by simp
  qed (simp add: char_zero)
  show ?case
  proof (cases "n < 10")
    case True
    then show ?thesis using z [of n] by (subst dec.simps) simp
  next
    case False
    then show ?thesis using 1 by (subst dec.simps) (simp add: div_eq_0_iff)
  qed
qed

text \<open>\<open>strtoul\<close> in base 0 reads it back.\<close>

lemma dec_prefix: "num_prefix 0 (dec n) = (if n = 0 then 8 else 10, dec n)"
proof -
  obtain c cs where d: "dec n = c # cs" using dec_nonempty [of n] by (cases "dec n") blast+
  have "code_of c = 48 \<longleftrightarrow> n = 0"
    using dec_zero [of n] d by (simp add: code_zero)
  moreover have "\<not> is_x (hd cs)" if "cs \<noteq> []"
    using dec_digits [of "hd cs" n] that d by (auto simp: is_x_def)
  ultimately show ?thesis
    by (auto simp: num_prefix_def d split: list.splits)
qed

lemma unat_u8: "unat (x :: u8) \<le> 255"
  using unsigned_less [where ?'a = nat and w = x] by simp

lemma dec_takeWhile: "(\<And>c. c \<in> set (dec n) \<Longrightarrow> P c) \<Longrightarrow> takeWhile P (dec n) = dec n"
  by (simp add: takeWhile_eq_all_conv)

lemma dec_is_digit:
  assumes "c \<in> set (dec n)" shows "is_digit (if n = 0 then 8 else 10) c"
proof (cases "n = 0")
  case True
  have "dec 0 = [CHR ''0'']" by (subst dec.simps) (simp add: char_zero)
  then show ?thesis using assms True by (simp add: is_digit_def digit_val_def code_of_def)
next
  case False
  then show ?thesis using dec_digits [OF assms] by (simp add: is_digit_def digit_val_def Let_def less_diff_conv2)
qed

lemma strtoul_dec:
  assumes "n \<le> ULONG_MAX"
  shows "strtoul (dec n) 0 = \<lparr>su_erange = False, su_val = n, su_end = []\<rparr>"
proof -
  let ?b = "if n = 0 then 8 else 10 :: nat"
  have h: "hd (dec n) \<in> set (dec n)" by simp
  have s: "\<not> isspace (hd (dec n))" and m: "code_of (hd (dec n)) \<noteq> 45" "code_of (hd (dec n)) \<noteq> 43"
    using dec_digits [OF h] by (auto simp: isspace_def)
  have d: "dropWhile isspace (dec n) = dec n"
    using s by (metis dropWhile_eq_self_iff)
  have t: "takeWhile (is_digit ?b) (dec n) = dec n"
    by (rule dec_takeWhile) (rule dec_is_digit)
  have v: "num_of ?b (dec n) = n"
  proof (cases "n = 0")
    case True
    have "dec 0 = [CHR ''0'']" by (subst dec.simps) (simp add: char_zero)
    then show ?thesis using True by (simp add: num_of_def digit_val_def code_of_def)
  next
    case False
    then show ?thesis using num_of_dec [of n] by simp
  qed
  have sg: "(if dec n \<noteq> [] \<and> (code_of (hd (dec n)) = 45 \<or> code_of (hd (dec n)) = 43)
      then tl (dec n) else dec n) = dec n"
    using m by simp
  show ?thesis
    unfolding strtoul_def Let_def d sg dec_prefix prod.case t v using m assms by simp
qed

lemma cb_num_dec: "n \<le> lim \<Longrightarrow> n \<le> ULONG_MAX \<Longrightarrow> cb_num lim (dec n) = Some n"
  by (simp add: cb_num_def strtoul_dec)

lemma strtok_r_app:
  assumes "x \<noteq> []" and "set x \<inter> set dlm = {}" and "d \<in> set dlm"
  shows "strtok_r dlm (x @ d # y) = Some (x, y)"
proof -
  have "dropWhile (\<lambda>c. c \<in> set dlm) (x @ d # y) = x @ d # y"
    using assms by (cases x) auto
  moreover have "takeWhile (\<lambda>c. c \<notin> set dlm) (x @ d # y) = x"
    using assms by (auto simp: takeWhile_append)
  ultimately show ?thesis using assms(1) by (simp add: strtok_r_def Let_def)
qed

lemma strtok_r_end:
  assumes "x \<noteq> []" and "set x \<inter> set dlm = {}"
  shows "strtok_r dlm x = Some (x, [])"
proof -
  have "dropWhile (\<lambda>c. c \<in> set dlm) x = x"
    using assms by (cases x) auto
  moreover have "takeWhile (\<lambda>c. c \<notin> set dlm) x = x"
    using assms by (auto simp: takeWhile_eq_all_conv)
  ultimately show ?thesis using assms(1) by (simp only: strtok_r_def Let_def) simp
qed

lemma dec_no_delim: "set (dec n) \<inter> set ''/'' = {}" "set (dec n) \<inter> set rule_dlm = {}"
proof -
  have c: "code_of CHR ''/'' = 47" "code_of CHR '' '' = 32" "code_of CHR 0x09 = 9" "code_of CHR 0x0A = 10"
    by (simp_all add: code_of_def)
  show "set (dec n) \<inter> set ''/'' = {}" "set (dec n) \<inter> set rule_dlm = {}"
    using dec_digits [of _ n] c by (fastforce simp: rule_dlm_def)+
qed

lemma route_of_show:
  assumes p: "printer_ok addr ntop" and d: "unat (rt_depth r) \<le> bits" and b: "bits \<le> 255"
  shows "route_of addr bits (show_route ntop (r :: 'a route) @ [CHR 0x0A]) = Some r"
proof -
  let ?net = "ntop (rt_ip r) @ ''/'' @ dec (unat (rt_depth r))"
  let ?out = "dec (unat (rt_out r))"
  have pc: "addr (ntop (rt_ip r)) = Some (rt_ip r)" "ntop (rt_ip r) \<noteq> []"
      "set (ntop (rt_ip r)) \<inter> set ''/'' = {}" "set (ntop (rt_ip r)) \<inter> set rule_dlm = {}"
    using p by (auto simp: printer_ok_def)
  have u: "unat x \<le> ULONG_MAX" "unat x \<le> 255" for x :: u8
    using unat_u8 [of x] by (simp_all add: ULONG_MAX_def)
  have sl: "CHR ''/'' \<notin> set rule_dlm" by (simp add: rule_dlm_def)
  have n: "strtok_r rule_dlm (?net @ CHR '' '' # ?out @ [CHR 0x0A]) = Some (?net, ?out @ [CHR 0x0A])"
    by (rule strtok_r_app) (use pc sl dec_no_delim in \<open>auto simp: rule_dlm_def\<close>)
  have o: "strtok_r rule_dlm (?out @ CHR 0x0A # []) = Some (?out, [])"
    by (rule strtok_r_app) (use dec_no_delim in \<open>auto simp: rule_dlm_def\<close>)
  have t: "strtoks rule_dlm 2 (show_route ntop r @ [CHR 0x0A]) = Some [?net, ?out]"
    using n o by (simp add: two_strtoks show_route_def)
  have "strtok_r ''/'' (ntop (rt_ip r) @ CHR ''/'' # dec (unat (rt_depth r)))
      = Some (ntop (rt_ip r), dec (unat (rt_depth r)))"
    by (rule strtok_r_app) (use pc in auto)
  moreover have "strtok_r ''/'' (dec (unat (rt_depth r))) = Some (dec (unat (rt_depth r)), [])"
    by (rule strtok_r_end) (use dec_no_delim in auto)
  ultimately have "net_of addr bits ?net = Some (rt_ip r, unat (rt_depth r))"
    using pc d u by (simp add: net_of_def two_strtoks cb_num_dec)
  then show ?thesis
    by (simp add: route_of_def t cb_num_dec u)
qed

lemma file_lines_cons:
  assumes "CHR 0x0A \<notin> set l" and "\<forall>c \<in> set l. code_of c \<noteq> 0" and "length l < LINE_MAX - 1"
  shows "file_lines (l @ CHR 0x0A # f) = (l @ [CHR 0x0A]) # file_lines f"
proof -
  have c: "code_of x = 10 \<longleftrightarrow> x = CHR 0x0A" for x
  proof -
    have "code_of CHR 0x0A = 10" by (simp add: code_of_def)
    then show ?thesis unfolding code_of_def by (metis of_char_eq_iff)
  qed
  have "takeWhile (\<lambda>c. code_of c \<noteq> 10) (l @ CHR 0x0A # f) = l"
    using assms(1) by (auto simp: takeWhile_append c)
  then have n: "fgets_len (l @ CHR 0x0A # f) = length l + 1"
    using assms(3) by (simp add: fgets_len_def Let_def)
  have "c_str (l @ [CHR 0x0A]) = l @ [CHR 0x0A]"
    using assms(2) by (auto simp: c_str_def takeWhile_eq_all_conv code_of_def)
  then show ?thesis by (subst file_lines.simps) (simp add: n)
qed

lemma dec_length: "length (dec n) \<le> n + 1"
proof (induction n rule: dec.induct)
  case (1 n)
  show ?case
  proof (cases "n < 10")
    case False
    then have "length (dec n) \<le> n div 10 + 2" using 1 by (subst dec.simps) simp
    then show ?thesis using False by simp
  qed (subst dec.simps, simp)
qed

lemma file_lines_show:
  assumes p: "printer_ok addr ntop"
  shows "file_lines (concat (map (show_line ntop) rs)) = map (show_line ntop) rs"
proof (induction rs)
  case (Cons r rs)
  let ?l = "ROUTE_LEAD_CHAR # show_route ntop r"
  have nl: "CHR 0x0A \<in> set rule_dlm" by (simp add: rule_dlm_def)
  have a: "CHR 0x0A \<notin> set ?l" "\<forall>c \<in> set ?l. code_of c \<noteq> 0"
    using p dec_no_delim(2) nl dec_digits
    by (fastforce simp: printer_ok_def show_route_def ROUTE_LEAD_CHAR_def code_of_def)+
  have "length (dec (unat x)) \<le> 256" for x :: u8
    using dec_length [of "unat x"] unat_u8 [of x] by simp
  from this [of "rt_depth r"] this [of "rt_out r"] have "length ?l \<le> 100 + 2 * 256 + 3"
    using p [unfolded printer_ok_def, rule_format, of "rt_ip r"] by (simp add: show_route_def)
  then have "length ?l < LINE_MAX - 1" by (simp add: LINE_MAX_def)
  from file_lines_cons [OF a this, of "concat (map (show_line ntop) rs)"] Cons.IH
  show ?case by (simp add: show_line_def [of ntop r])
qed (simp add: file_lines.simps)
section \<open>A concrete instance\<close>

text \<open>Dotted quads; for IPv6 only the loopback address, for the witnesses about IPv4.\<close>

definition quad :: "u32 \<Rightarrow> string" where
  "quad a = dec (unat (ucast (drop_bit 24 a) :: u8)) @ ''.'' @ dec (unat (ucast (drop_bit 16 a) :: u8))
     @ ''.'' @ dec (unat (ucast (drop_bit 8 a) :: u8)) @ ''.'' @ dec (unat (ucast a :: u8))"

definition unquad :: "string \<Rightarrow> u32 option" where
  "unquad s =
     Option.bind (strtoks ''.'' 4 s) (\<lambda>t.
     Option.bind (cb_num 255 (t ! 0)) (\<lambda>a. Option.bind (cb_num 255 (t ! 1)) (\<lambda>b.
     Option.bind (cb_num 255 (t ! 2)) (\<lambda>c. map_option (\<lambda>d.
       push_bit 24 (of_nat a) OR push_bit 16 (of_nat b) OR push_bit 8 (of_nat c) OR of_nat d)
       (cb_num 255 (t ! 3))))))"

definition inet_ex :: inet where
  "inet_ex = \<lparr> inet_pton4 = (\<lambda>s. map_option bswap32 (unquad s)),
     inet_pton6 = (\<lambda>s. if s = ''::1'' then Some (replicate 15 0 @ [1]) else None),
     rte_IPV4 = (\<lambda>a b c d. push_bit 24 (of_nat a) OR push_bit 16 (of_nat b) OR push_bit 8 (of_nat c) OR of_nat d),
     rte_IPV6 = (\<lambda>ws. concat (map (\<lambda>w. [ucast (drop_bit 8 w), ucast w]) ws)) \<rparr>"

lemma dec_no_dot: "set (dec n) \<inter> set ''.'' = {}"
proof -
  have "code_of CHR ''.'' = 46" by (simp add: code_of_def)
  then show ?thesis using dec_digits [of _ n] by fastforce
qed

lemma quad_tokens:
  "strtoks ''.'' 4 (dec a @ ''.'' @ dec b @ ''.'' @ dec c @ ''.'' @ dec d) = Some [dec a, dec b, dec c, dec d]"
proof -
  have s: "strtok_r ''.'' (dec n @ CHR ''.'' # y) = Some (dec n, y)" for n y
    by (rule strtok_r_app) (use dec_no_dot in auto)
  have e: "strtok_r ''.'' (dec d) = Some (dec d, [])"
    by (rule strtok_r_end) (use dec_no_dot in auto)
  have n4: "(4 :: nat) = Suc (Suc (Suc (Suc 0)))" by simp
  show ?thesis unfolding n4 by (simp add: s e)
qed

lemma unquad_quad: "unquad (quad a) = Some a"
proof -
  have u: "unat x \<le> 255" "unat x \<le> ULONG_MAX" for x :: u8
    using unat_u8 [of x] by (simp_all add: ULONG_MAX_def)
  have w: "push_bit 24 (ucast (ucast (drop_bit 24 a) :: u8)) OR push_bit 16 (ucast (ucast (drop_bit 16 a) :: u8))
      OR push_bit 8 (ucast (ucast (drop_bit 8 a) :: u8)) OR ucast (ucast a :: u8) = a"
  proof (rule bit_word_eqI)
    fix n assume n: "n < LENGTH(32)"
    consider "n < 8" | "8 \<le> n" "n < 16" | "16 \<le> n" "n < 24" | "24 \<le> n" by linarith
    then show "bit (push_bit 24 (ucast (ucast (drop_bit 24 a) :: u8) :: u32) OR push_bit 16 (ucast (ucast (drop_bit 16 a) :: u8))
      OR push_bit 8 (ucast (ucast (drop_bit 8 a) :: u8)) OR ucast (ucast a :: u8)) n = bit a n"
      using n by cases (auto simp: bit_simps)
  qed
  have n: "of_nat (unat x) = (ucast x :: u32)" for x :: u8
    by simp
  show ?thesis unfolding unquad_def quad_def quad_tokens
    by (simp add: cb_num_dec u w)
qed

lemma dec_len3: "n < 256 \<Longrightarrow> length (dec n) \<le> 3"
proof -
  assume n: "n < 256"
  have 1: "length (dec m) \<le> 1" if "m < 10" for m using that by (subst dec.simps) simp
  have 2: "length (dec m) \<le> 2" if "m < 100" for m
    using that 1 [of "m div 10"] by (subst dec.simps) auto
  show ?thesis using n 2 [of "n div 10"] by (subst dec.simps) auto
qed

lemma quad_printer: "printer_ok (addr4 inet_ex) quad"
proof -
  have a: "addr4 inet_ex (quad a) = Some a" for a
    by (simp add: addr4_def inet_ex_def unquad_quad)
  have l: "length (dec (unat x)) \<le> 3" for x :: u8
    using dec_len3 [of "unat x"] unat_u8 [of x] by simp
  have len: "length (quad a) \<le> 100" for a
    using l [of "ucast (drop_bit 24 a)"] l [of "ucast (drop_bit 16 a)"] l [of "ucast (drop_bit 8 a)"]
      l [of "ucast a"] by (simp add: quad_def)
  have c: "c \<noteq> CHR ''/'' \<and> c \<notin> set rule_dlm \<and> code_of c \<noteq> 0" if "c \<in> set (quad a)" for c a
  proof -
    have "c = CHR ''.'' \<or> (\<exists>n. c \<in> set (dec n))" using that by (auto simp: quad_def)
    then show ?thesis
    proof (elim disjE exE)
      assume "c = CHR ''.''" then show ?thesis by (simp add: rule_dlm_def code_of_def)
    next
      fix n assume "c \<in> set (dec n)"
      then show ?thesis using dec_no_delim [of n] dec_digits [of c n] by auto
    qed
  qed
  show ?thesis using a len c by (auto simp: printer_ok_def quad_def)
qed

definition route_ex :: "u32 route list" where
  "route_ex = [\<lparr>rt_ip = 0xc6120000, rt_depth = 24, rt_out = 0\<rparr>, \<lparr>rt_ip = 0x0a000000, rt_depth = 8, rt_out = 255\<rparr>]"

definition stdio_ex :: stdio where
  "stdio_ex = \<lparr> fopen = (\<lambda>p. if p = ''v4'' then Some (concat (map (show_line quad) route_ex)) else None),
     fseek_ok = True, calloc_ok = (\<lambda>n. True) \<rparr>"

section \<open>The tables after loading\<close>

lemma copy_defaults_at:
  "length base = i + length rs \<Longrightarrow> copy_defaults rs i base = take i base @ rs"
proof (induction rs arbitrary: i base)
  case (Cons r rs)
  have "take (i + 1) (base[i := r]) = take i base @ [r]"
    using Cons.prems by (simp add: take_Suc_conv_app_nth)
  then show ?case using Cons by simp
qed simp

lemma add_default_rules_arr:
  assumes "\<And>n. calloc_ok S n" shows "add_default_rules S z arr = Some arr"
  by (simp add: add_default_rules_def assms copy_defaults_at)

lemma route_of_depth:
  assumes "route_of addr bits s = Some r" and "bits \<le> 255" shows "unat (rt_depth r) \<le> bits"
proof -
  from assms(1) obtain net out a m x where n: "net_of addr bits net = Some (a, m)"
    and r: "r = \<lparr>rt_ip = a, rt_depth = of_nat m, rt_out = of_nat x\<rparr>"
    by (auto simp: route_of_def bind_eq_Some_conv split: option.splits list.splits)
  from n obtain sm where "cb_num bits sm = Some m"
    by (auto simp: net_of_def bind_eq_Some_conv split: option.splits list.splits)
  from cb_num_le [OF this] assms(2) show ?thesis
    by (simp add: r unat_of_nat)
qed

text \<open>The tables a set-up can use: both arrays are there, the counts are their lengths, there is a
  route in each, and no prefix is longer than its address.\<close>

definition lpm_tables_ok :: "(u32 route, u8 list route) route_tables \<Rightarrow> bool" where
  "lpm_tables_ok t \<longleftrightarrow>
     (case (route_base_v4 t, route_base_v6 t) of
        (Some b4, Some b6) \<Rightarrow>
          route_num_v4 t = int (length b4) \<and> route_num_v6 t = int (length b6) \<and> b4 \<noteq> [] \<and> b6 \<noteq> []
          \<and> (\<forall>r \<in> set b4. unat (rt_depth r) \<le> 32) \<and> (\<forall>r \<in> set b6. unat (rt_depth r) \<le> 128)
      | _ \<Rightarrow> False)"

lemma add_rules_none:
  assumes "add_rules zero S p parser = Some (None, n)" shows "n = - EINVAL"
proof (cases "fopen S p")
  case (Some f)
  show ?thesis using assms unfolding add_rules_def Some option.case Let_def
    by (simp split: if_splits rules_out.splits)
qed (use assms in \<open>simp add: add_rules_def\<close>)

lemma lpm4_rules:
  assumes "lpm_add_rules 0 S f (lpm_parse_v4_rule N) = Some (b, n)"
  shows "n < 0 \<or> (\<exists>rs. b = Some rs \<and> n = int (length rs) \<and> rs \<noteq> [] \<and> (\<forall>r \<in> set rs. unat (rt_depth r) \<le> 32))"
proof (cases b)
  case None
  then have "n = - EINVAL" using assms add_rules_none by (simp add: lpm_add_rules_def)
  then show ?thesis by (simp add: EINVAL_def)
next
  case (Some rs)
  note a = assms [unfolded Some lpm_add_rules_def]
  have "unat (rt_depth r) \<le> 32" if "r \<in> set rs" for r
    by (rule lpm4.add_rules_denoted [OF a that]) (erule route_of_depth, simp)
  with lpm4.add_rules_count [OF a] Some show ?thesis by (cases rs) auto
qed

lemma lpm6_rules:
  assumes "lpm_add_rules zero6 S f (lpm_parse_v6_rule N) = Some (b, n)"
  shows "n < 0 \<or> (\<exists>rs. b = Some rs \<and> n = int (length rs) \<and> rs \<noteq> [] \<and> (\<forall>r \<in> set rs. unat (rt_depth r) \<le> 128))"
proof (cases b)
  case None
  then have "n = - EINVAL" using assms add_rules_none by (simp add: lpm_add_rules_def)
  then show ?thesis by (simp add: EINVAL_def)
next
  case (Some rs)
  note a = assms [unfolded Some lpm_add_rules_def]
  have "unat (rt_depth r) \<le> 128" if "r \<in> set rs" for r
    by (rule lpm6.add_rules_denoted [OF a that]) (erule route_of_depth, simp)
  with lpm6.add_rules_count [OF a] Some show ?thesis by (cases rs) auto
qed

lemma read_config_default:
  assumes "\<And>n. calloc_ok S n" and "rule_ipv4_name cfg = None \<or> rule_ipv6_name cfg = None"
  shows "\<exists>t'. read_config_files_lpm S N cfg t = Some (False, t') \<and> lpm_tables_ok t'"
  using assms
  by (auto simp: read_config_files_lpm_def add_default_rules_arr lpm_tables_ok_def
      ipv4_l3fwd_route_array_def ipv6_l3fwd_route_array_def split: option.splits)

section \<open>Properties\<close>

text \<open>C10. \<open>lpm_add_rules\<close> reads a file as what it says: when every line that is neither blank
  nor a comment starts with \<open>R\<close> and holds a network and an output port, and there is such a line,
  the array has exactly these rules in their order and the return code is their number; for any other
  file there is no array and the code is \<open>-EINVAL\<close>. The rules of the second pass fit the array
  the first pass sized. This holds for IPv4 and for IPv6.\<close>

theorem lpm_add_rules_reads_file:
  assumes "fopen S p = Some f" and "fseek_ok S" and "\<forall>n. calloc_ok S n"
  shows "lpm_add_rules 0 S p (lpm_parse_v4_rule N) =
      Some (case rules_of (route_of (addr4 N) 32) f of None \<Rightarrow> (None, - EINVAL) | Some rs \<Rightarrow> (Some rs, int (length rs)))
    \<and> lpm_add_rules zero6 S p (lpm_parse_v6_rule N) =
      Some (case rules_of (route_of (inet_pton6 N) 128) f of None \<Rightarrow> (None, - EINVAL) | Some rs \<Rightarrow> (Some rs, int (length rs)))"
  unfolding lpm_add_rules_def using assms by (simp add: lpm4.add_rules_rules lpm6.add_rules_rules)

theorem lpm_add_rules_reads_file_witness:
  "lpm_add_rules 0 stdio_ex ''v4'' (lpm_parse_v4_rule inet_ex) =
      Some (case rules_of (route_of (addr4 inet_ex) 32) (concat (map (show_line quad) route_ex)) of
              None \<Rightarrow> (None, - EINVAL) | Some rs \<Rightarrow> (Some rs, int (length rs)))"
  by (rule lpm_add_rules_reads_file [THEN conjunct1]) (simp_all add: stdio_ex_def)

text \<open>C11. Writing routes and reading them gives them back: for any printer of addresses that
  \<open>inet_pton\<close> reads back and any non-empty list of IPv4 routes with prefix lengths up to 32, the
  file with one line per route is read as exactly that list.\<close>

theorem lpm_add_rules_roundtrip:
  assumes "printer_ok (addr4 N) ntop" and "rs \<noteq> []" and "\<forall>r \<in> set rs. unat (rt_depth r) \<le> 32"
    and "fopen S p = Some (concat (map (show_line ntop) rs))" and "fseek_ok S" and "\<forall>n. calloc_ok S n"
  shows "lpm_add_rules 0 S p (lpm_parse_v4_rule N) = Some (Some rs, int (length rs))"
proof -
  have nb: "\<not> is_bypass_line (show_line ntop r)" for r :: "u32 route"
    by (rule route_line_not_bypass) (simp add: show_line_def first_char_def)
  have l: "filter (\<lambda>l. \<not> is_bypass_line l) (map (show_line ntop) rs) = map (show_line ntop) rs"
    by (simp add: filter_map nb comp_def)
  have hd: "hd (show_line ntop r) = ROUTE_LEAD_CHAR" for r :: "u32 route"
    by (simp add: show_line_def)
  have "those (map (\<lambda>r. route_of (addr4 N) 32 (tl (show_line ntop r))) rs) = Some rs"
    using assms(3) by (induction rs) (simp_all add: show_line_def route_of_show [OF assms(1)])
  then have "rules_of (route_of (addr4 N) 32) (concat (map (show_line ntop) rs)) = Some rs"
    using assms(2) by (simp add: rules_of_def file_lines_show [OF assms(1)] l hd comp_def)
  then show ?thesis
    unfolding lpm_add_rules_def by (simp add: lpm4.add_rules_rules [OF assms(4,5)] assms(6))
qed

theorem lpm_add_rules_roundtrip_witness:
  "lpm_add_rules 0 stdio_ex ''v4'' (lpm_parse_v4_rule inet_ex) = Some (Some route_ex, int (length route_ex))"
  by (rule lpm_add_rules_roundtrip [OF quad_printer]) (simp_all add: stdio_ex_def route_ex_def)

text \<open>Loading the routes of the LPM and FIB modes always ends in one of two ways: the program
  exits with the tables freed, or both tables are there, not empty, with their counts, and no prefix
  is longer than its address. It never writes outside an array when memory can be allocated; without
  both rule files the sixteen default routes are taken.\<close>

lemma read_config_files_lpm_tables:
  assumes "\<forall>n. calloc_ok S n"
  shows "\<exists>ex t'. read_config_files_lpm S N cfg t = Some (ex, t')
    \<and> (if ex then t' = \<lparr>route_base_v4 = None, route_base_v6 = None, route_num_v4 = 0, route_num_v6 = 0\<rparr>
       else lpm_tables_ok t')"
proof (cases "rule_ipv4_name cfg = None \<or> rule_ipv6_name cfg = None")
  case True
  then obtain t' where "read_config_files_lpm S N cfg t = Some (False, t')" "lpm_tables_ok t'"
    using read_config_default [of S cfg N t] assms by blast
  then show ?thesis by (intro exI [of _ False] exI [of _ t']) simp
next
  case False
  then obtain f4 f6 where f: "rule_ipv4_name cfg = Some f4" "rule_ipv6_name cfg = Some f6" by auto
  obtain b4 n4 where 4: "lpm_add_rules 0 S f4 (lpm_parse_v4_rule N) = Some (b4, n4)"
    using lpm4.add_rules_no_overrun [of S f4 N] by (auto simp: lpm_add_rules_def)
  obtain b6 n6 where 6: "lpm_add_rules zero6 S f6 (lpm_parse_v6_rule N) = Some (b6, n6)"
    using lpm6.add_rules_no_overrun [of S f6 N] by (auto simp: lpm_add_rules_def)
  have r: "read_config_files_lpm S N cfg t =
      (let t1 = t\<lparr>route_base_v4 := b4, route_num_v4 := n4\<rparr>; t2 = t1\<lparr>route_base_v6 := b6, route_num_v6 := n6\<rparr>
       in if n4 < 0 then Some (True, lpm_free_routes t1)
          else if n6 < 0 then Some (True, lpm_free_routes t2) else Some (False, t2))"
    by (simp add: read_config_files_lpm_def f 4 6 Let_def)
  show ?thesis
  proof (cases "n4 < 0 \<or> n6 < 0")
    case True
    show ?thesis unfolding r Let_def by (intro exI [of _ True]) (use True in \<open>auto simp: lpm_free_routes_def\<close>)
  next
    case False
    with lpm4_rules [OF 4] lpm6_rules [OF 6] show ?thesis
      unfolding r Let_def by (intro exI [of _ False]) (auto simp: lpm_tables_ok_def)
  qed
qed

text \<open>\<open>em_add_rules\<close> reads an exact-match rule file as \<open>lpm_add_rules\<close> reads its own: exactly
  the rules of the lines, in their order, with their number, or no array and \<open>-EINVAL\<close>.\<close>

lemma em_add_rules_reads_file:
  assumes "fopen S p = Some f" and "fseek_ok S" and "\<forall>n. calloc_ok S n"
  shows "em_add_rules 0 S p (em_parse_v4_rule N) =
      Some (case rules_of (em_rule4_of N) f of None \<Rightarrow> (None, - EINVAL) | Some rs \<Rightarrow> (Some rs, int (length rs)))
    \<and> em_add_rules zero6 S p (em_parse_v6_rule N) =
      Some (case rules_of (em_rule6_of N) f of None \<Rightarrow> (None, - EINVAL) | Some rs \<Rightarrow> (Some rs, int (length rs)))"
  unfolding em_add_rules_def using assms by (simp add: em4.add_rules_rules em6.add_rules_rules)

text \<open>A line of an IPv4 exact-match file whose destination is no address is taken without an
  error: \<open>em_parse_v4_rule\<close> returns the 0 of \<open>inet_pton\<close>, which its caller reads as success, and
  the rule stays all zeros, so the flow with every field 0 is sent to port 0. The IPv6 parser returns
  \<open>-EINVAL\<close> for such a line.\<close>

lemma em_parse_v4_rule_takes_no_address:
  assumes "strtoks rule_dlm 6 s = Some inp" and "inet_pton4 N (inp ! 0) = None" and "inet_pton6 N (inp ! 0) = None"
  shows "em_parse_v4_rule N s (zero_em_rule 0) = (0, zero_em_rule 0)
    \<and> em_parse_v6_rule N s (zero_em_rule zero6) = (- EINVAL, zero_em_rule zero6)"
  using assms
  by (simp add: em_parse_v4_rule_def em_parse_v6_rule_def em_parse_v6_net_def inet_pton_v4_def
      zero_em_rule_def bswap32_def)

end
