(* ===== verification/Config.thy ===== *)
theory Config
  imports Route_Parse
begin

text \<open>
  The command line of \<open>l3fwd/main.c\<close>: the parsers of the single options and \<open>parse_args\<close>. The
  options arrive as the list \<open>getopt_long\<close> delivers; the globals the options set are the record
  \<open>cfg\<close>. A parser that calls \<open>rte_exit\<close> ends the program (\<open>Exits\<close>), one that makes
  \<open>parse_args\<close> return \<open>-1\<close> ends in \<open>Fails\<close>. The build has the event library of DPDK
  (\<open>RTE_LIB_EVENTDEV\<close>). Limits and helpers from the DPDK headers are the record \<open>cfg_env\<close>.
\<close>

section \<open>Parameters and state\<close>

record cfg_env =
  ce_max_ethports :: nat
  ce_max_queues :: nat
  ce_max_lcore :: nat
  ce_cache_max :: nat
  ce_strsplit :: "string \<Rightarrow> nat \<Rightarrow> char \<Rightarrow> string list"
  ce_etheraddr :: "string \<Rightarrow> u8 list option"
  ce_dev0_rx_burst :: "u16 option"
  ce_acl_alg :: "string \<Rightarrow> nat"
  ce_rss_acl :: u64

definition MAX_LCORE_PARAMS :: nat where "MAX_LCORE_PARAMS = 1024"
definition DEFAULT_PKT_BURST :: nat where "DEFAULT_PKT_BURST = 32"
definition DESC_DEFAULT :: u16 where "DESC_DEFAULT = 1024"

record lcore_params =
  lp_port :: u16
  lp_queue :: u16
  lp_lcore :: u32

definition lcore_params_array_default :: "lcore_params list" where
  "lcore_params_array_default =
     map (\<lambda>(p, q, l). \<lparr>lp_port = p, lp_queue = q, lp_lcore = l\<rparr>)
       [(0, 0, 2), (0, 1, 2), (0, 2, 2), (1, 0, 2), (1, 1, 2), (1, 2, 2), (2, 0, 2), (3, 0, 3), (3, 1, 3)]"

datatype lookup_mode = Lookup_default | Lookup_lpm | Lookup_em | Lookup_fib | Lookup_acl

datatype sched_type = Sched_ordered | Sched_atomic | Sched_parallel

text \<open>The part of \<open>struct l3fwd_event_resources\<close> the options set.\<close>

record evt_rsrc =
  ev_enabled :: bool
  ev_sched_type :: sched_type
  ev_eth_rx_queues :: u16
  ev_vector_enabled :: bool
  ev_vector_size :: u16
  ev_vector_tmo_ns :: u64

text \<open>\<open>c_array\<close> holds the entries of \<open>lcore_params_array\<close> written by \<open>--config\<close>, of which
  there are \<open>nb_lcore_params\<close>; \<open>c_use_array\<close> tells where the pointer \<open>lcore_params\<close> points.
  The last three are the local flags of \<open>parse_args\<close>.\<close>

record cfg =
  c_port_mask :: u32
  c_promiscuous :: bool
  c_lookup :: lookup_mode
  c_nb_params :: nat
  c_array :: "lcore_params list"
  c_use_array :: bool
  c_rxd :: u16
  c_txd :: u16
  c_rx_burst :: nat
  c_tx_burst :: nat
  c_mbcache :: u32
  c_dest_eth :: "nat \<Rightarrow> u64"
  c_val_eth :: "nat \<Rightarrow> u8 list"
  c_numa :: bool
  c_ipv6 :: bool
  c_max_pkt_len :: u32
  c_parse_ptype :: bool
  c_relax :: bool
  c_disable_rss :: bool
  c_per_port_pool :: bool
  c_evt :: evt_rsrc
  c_rules :: parm_cfg
  c_alg :: nat
  c_rss_hf :: u64
  c_fl_config :: bool
  c_fl_eventq :: bool
  c_fl_eth_rxq :: bool

definition active_params :: "cfg \<Rightarrow> lcore_params list" where
  "active_params c = take (c_nb_params c) (if c_use_array c then c_array c else lcore_params_array_default)"

section \<open>Numbers\<close>

text \<open>\<open>(arg[0] == 0) || (end == NULL) || ( *end != 0)\<close>: the test every numeric option makes.\<close>

definition bad_number :: "string \<Rightarrow> strtoul_result \<Rightarrow> bool" where
  "bad_number arg r \<longleftrightarrow> arg = [] \<or> su_end r \<noteq> []"

text \<open>The return value of type \<open>int\<close> is the low 32 bits of the number.\<close>

definition parse_max_pkt_len :: "string \<Rightarrow> u32" where
  "parse_max_pkt_len pktlen =
     (let r = strtoul pktlen 10
      in if bad_number pktlen r then - 1 else if su_val r = 0 then - 1 else of_nat (su_val r))"

definition parse_portmask :: "string \<Rightarrow> u32" where
  "parse_portmask portmask =
     (let r = strtoul portmask 16 in if bad_number portmask r then 0 else of_nat (su_val r))"

text \<open>\<open>None\<close> is \<open>rte_exit\<close>.\<close>

definition parse_queue_size :: "string \<Rightarrow> u16 \<Rightarrow> u16 option" where
  "parse_queue_size arg queue_size =
     (let r = strtoul arg 10
      in if bad_number arg r \<or> su_val r = 0 then None
         else if 65535 < su_val r then None
         else Some (of_nat (su_val r)))"

definition parse_event_eth_rx_queues :: "string \<Rightarrow> evt_rsrc \<Rightarrow> evt_rsrc" where
  "parse_event_eth_rx_queues arg e =
     (let r = strtoul arg 10; n = of_nat (su_val r) :: u16
      in if bad_number arg r then e else if n = 0 then e else e\<lparr>ev_eth_rx_queues := n\<rparr>)"

definition parse_mbcache_size :: "cfg_env \<Rightarrow> string \<Rightarrow> u32 \<Rightarrow> u32 option" where
  "parse_mbcache_size E arg cur =
     (let r = strtoul arg 10
      in if bad_number arg r then Some cur
         else if su_val r \<le> ce_cache_max E then Some (of_nat (su_val r)) else None)"

definition parse_pkt_burst :: "cfg_env \<Rightarrow> string \<Rightarrow> bool \<Rightarrow> nat \<Rightarrow> nat" where
  "parse_pkt_burst E arg is_rx_burst burst_sz =
     (let r = strtoul arg 10; pkt_burst = su_val r
      in if bad_number arg r then burst_sz
         else if MAX_PKT_BURST < pkt_burst then burst_sz
         else if 0 < pkt_burst then pkt_burst
         else if is_rx_burst then
           (case ce_dev0_rx_burst E of
              None \<Rightarrow> burst_sz
            | Some b \<Rightarrow>
                if unat b = 0 then burst_sz
                else if MAX_PKT_BURST < unat b then burst_sz
                else unat b)
         else burst_sz)"

section \<open>The queue configuration\<close>

definition strchr :: "char \<Rightarrow> string \<Rightarrow> string option" where
  "strchr c s = (let r = dropWhile (\<lambda>x. x \<noteq> c) s in if r = [] then None else Some r)"

lemma strchr_shorter: "strchr c s = Some r \<Longrightarrow> length r \<le> length s"
  using length_dropWhile_le [of "\<lambda>x. x \<noteq> c" s] by (auto simp: strchr_def Let_def split: if_splits)

lemma strchr_hd: "strchr c s = Some r \<Longrightarrow> \<exists>q. r = c # q"
  using hd_dropWhile [of "\<lambda>x. x \<noteq> c" s]
  by (cases "dropWhile (\<lambda>x. x \<noteq> c) s") (auto simp: strchr_def simp del: dropWhile_eq_Nil_conv)

definition max_fld :: "cfg_env \<Rightarrow> nat list" where
  "max_fld E = [ce_max_ethports E, ce_max_queues E, ce_max_lcore E]"

text \<open>One field; \<open>None\<close> is the return of \<open>-1\<close>.\<close>

definition config_field :: "string \<Rightarrow> nat \<Rightarrow> nat option" where
  "config_field str lim =
     (let r = strtoul str 0
      in if su_erange r \<or> su_end r = str \<or> lim < su_val r then None else Some (su_val r))"

fun config_fields :: "string list \<Rightarrow> nat list \<Rightarrow> nat list option" where
  "config_fields (s # ss) (m # ms) =
     (case config_field s m of
        None \<Rightarrow> None
      | Some v \<Rightarrow> (case config_fields ss ms of None \<Rightarrow> None | Some vs \<Rightarrow> Some (v # vs)))"
| "config_fields _ _ = Some []"

text \<open>One \<open>(port,queue,lcore)\<close> group: \<open>None\<close> when there is no opening parenthesis left,
  \<open>Some None\<close> for the returns of \<open>-1\<close>, else the entry and the string at the closing parenthesis.\<close>

definition config_entry :: "cfg_env \<Rightarrow> string \<Rightarrow> (lcore_params \<times> string) option option" where
  "config_entry E p0 =
     (case strchr CHR 0x28 p0 of
        None \<Rightarrow> None
      | Some q \<Rightarrow>
          (case strchr CHR 0x29 (tl q) of
             None \<Rightarrow> Some None
           | Some p1 \<Rightarrow>
               let size = length (tl q) - length p1;
                   str_fld = ce_strsplit E (take size (tl q)) 3 CHR 0x2C
               in if 256 \<le> size then Some None
                  else if length str_fld \<noteq> 3 then Some None
                  else case config_fields str_fld (max_fld E) of
                         None \<Rightarrow> Some None
                       | Some int_fld \<Rightarrow>
                           Some (Some (\<lparr>lp_port = of_nat (int_fld ! 0), lp_queue = of_nat (int_fld ! 1),
                                        lp_lcore = of_nat (int_fld ! 2)\<rparr>, p1))))"

lemma config_entry_shorter:
  assumes "config_entry E p0 = Some (Some (p, p1))" shows "length p1 < length p0"
proof -
  from assms obtain q where q: "strchr CHR 0x28 p0 = Some q" "strchr CHR 0x29 (tl q) = Some p1"
    by (auto simp: config_entry_def Let_def split: option.splits if_splits)
  obtain r where "q = CHR 0x28 # r" using strchr_hd [OF q(1)] by blast
  then show ?thesis using strchr_shorter [OF q(1)] strchr_shorter [OF q(2)] by simp
qed

function parse_config_loop :: "cfg_env \<Rightarrow> lcore_params list \<Rightarrow> string \<Rightarrow> int \<times> lcore_params list" where
  "parse_config_loop E arr p0 =
     (case config_entry E p0 of
        None \<Rightarrow> (0, arr)
      | Some None \<Rightarrow> (- 1, arr)
      | Some (Some (p, p1)) \<Rightarrow>
          if MAX_LCORE_PARAMS \<le> length arr then (- 1, arr) else parse_config_loop E (arr @ [p]) p1)"
  by pat_completeness auto
termination
  by (relation "measure (\<lambda>(E, arr, p0). length p0)") (auto dest: config_entry_shorter)

declare parse_config_loop.simps [simp del]

definition parse_config :: "cfg_env \<Rightarrow> string \<Rightarrow> cfg \<Rightarrow> int \<times> cfg" where
  "parse_config E q_arg c =
     (let (rc, arr) = parse_config_loop E [] q_arg;
          c1 = c\<lparr>c_nb_params := length arr, c_array := arr\<rparr>
      in if rc \<noteq> 0 then (rc, c1) else (0, c1\<lparr>c_use_array := True\<rparr>))"

section \<open>Addresses, modes and names\<close>

text \<open>\<open>dest\<close> are the low six bytes of \<open>dest_eth_addr[portid]\<close> in memory.\<close>

definition set_low6 :: "u64 \<Rightarrow> u8 list \<Rightarrow> u64" where
  "set_low6 v bs =
     fold (\<lambda>k w. (w AND NOT (push_bit (8 * k) 0xff)) OR push_bit (8 * k) (ucast (bs ! k))) [0..<6] v"

text \<open>The port is the low 16 bits of the number.\<close>

definition parse_eth_dest :: "cfg_env \<Rightarrow> string \<Rightarrow> cfg \<Rightarrow> cfg option" where
  "parse_eth_dest E arg c =
     (let r = strtoul arg 10; portid = unat (of_nat (su_val r) :: u16)
      in if su_erange r \<or> su_end r = arg \<or> first_char (su_end r) \<noteq> Some CHR '','' then None
         else if ce_max_ethports E \<le> portid then None
         else case ce_etheraddr E (tl (su_end r)) of
                None \<Rightarrow> None
              | Some peer_addr \<Rightarrow>
                  let d = set_low6 (c_dest_eth c portid) peer_addr
                  in Some (c\<lparr>c_dest_eth := (c_dest_eth c)(portid := d),
                             c_val_eth := (c_val_eth c)(portid := le64 d @ drop 8 (c_val_eth c portid))\<rparr>))"

definition parse_mode :: "string \<Rightarrow> evt_rsrc \<Rightarrow> evt_rsrc" where
  "parse_mode arg e =
     (if arg = ''poll'' then e\<lparr>ev_enabled := False\<rparr>
      else if arg = ''eventdev'' then e\<lparr>ev_enabled := True\<rparr> else e)"

definition parse_eventq_sched :: "string \<Rightarrow> evt_rsrc \<Rightarrow> evt_rsrc" where
  "parse_eventq_sched arg e =
     (let e1 = (if arg = ''ordered'' then e\<lparr>ev_sched_type := Sched_ordered\<rparr> else e);
          e2 = (if arg = ''atomic'' then e1\<lparr>ev_sched_type := Sched_atomic\<rparr> else e1)
      in if arg = ''parallel'' then e2\<lparr>ev_sched_type := Sched_parallel\<rparr> else e2)"

definition parse_lookup :: "string \<Rightarrow> lookup_mode option" where
  "parse_lookup arg =
     (if arg = ''em'' then Some Lookup_em
      else if arg = ''lpm'' then Some Lookup_lpm
      else if arg = ''fib'' then Some Lookup_fib
      else if arg = ''acl'' then Some Lookup_acl
      else None)"

section \<open>\<open>parse_args\<close>\<close>

text \<open>What \<open>getopt_long\<close> returns, in its order, with \<open>optarg\<close>; \<open>Opt_other\<close> is any other value
  (an unknown option).\<close>

datatype opt =
    Opt_p string | Opt_P | Opt_E | Opt_L | Opt_config string | Opt_rx_queue_size string
  | Opt_tx_queue_size string | Opt_rx_burst string | Opt_tx_burst string | Opt_mbcache string
  | Opt_eth_dest string | Opt_no_numa | Opt_ipv6 | Opt_max_pkt_len string | Opt_hash_entry_num string
  | Opt_parse_ptype | Opt_relax_rx_offload | Opt_disable_rss | Opt_per_port_pool | Opt_mode string
  | Opt_eventq_sched string | Opt_event_eth_rxqs string | Opt_event_vector
  | Opt_event_vector_size string | Opt_event_vector_tmo string | Opt_lookup string
  | Opt_rule_ipv4 string | Opt_rule_ipv6 string | Opt_alg string | Opt_other

datatype parsed = Goes cfg | Fails | Exits

definition exits_or :: "'a option \<Rightarrow> ('a \<Rightarrow> cfg) \<Rightarrow> parsed" where
  "exits_or x f = (case x of None \<Rightarrow> Exits | Some v \<Rightarrow> Goes (f v))"

definition set_evt :: "(evt_rsrc \<Rightarrow> evt_rsrc) \<Rightarrow> cfg \<Rightarrow> parsed" where
  "set_evt f c = Goes (c\<lparr>c_evt := f (c_evt c)\<rparr>)"

text \<open>The options \<open>-p\<close>, \<open>-P\<close>, \<open>-E\<close>, \<open>-L\<close>, \<open>--config\<close> and \<open>--lookup\<close>, which can fail.\<close>

fun parse_opt :: "cfg_env \<Rightarrow> cfg \<Rightarrow> opt \<Rightarrow> parsed" where
  "parse_opt E c (Opt_p arg) =
     (let m = parse_portmask arg in if m = 0 then Fails else Goes (c\<lparr>c_port_mask := m\<rparr>))"
| "parse_opt E c Opt_P = Goes (c\<lparr>c_promiscuous := True\<rparr>)"
| "parse_opt E c Opt_E =
     (if c_lookup c \<noteq> Lookup_default then Fails else Goes (c\<lparr>c_lookup := Lookup_em\<rparr>))"
| "parse_opt E c Opt_L =
     (if c_lookup c \<noteq> Lookup_default then Fails else Goes (c\<lparr>c_lookup := Lookup_lpm\<rparr>))"
| "parse_opt E c (Opt_config arg) =
     (let (ret, c1) = parse_config E arg c in if ret \<noteq> 0 then Fails else Goes (c1\<lparr>c_fl_config := True\<rparr>))"
| "parse_opt E c (Opt_rx_queue_size arg) = exits_or (parse_queue_size arg (c_rxd c)) (\<lambda>v. c\<lparr>c_rxd := v\<rparr>)"
| "parse_opt E c (Opt_tx_queue_size arg) = exits_or (parse_queue_size arg (c_txd c)) (\<lambda>v. c\<lparr>c_txd := v\<rparr>)"
| "parse_opt E c (Opt_rx_burst arg) = Goes (c\<lparr>c_rx_burst := parse_pkt_burst E arg True (c_rx_burst c)\<rparr>)"
| "parse_opt E c (Opt_tx_burst arg) = Goes (c\<lparr>c_tx_burst := parse_pkt_burst E arg False (c_tx_burst c)\<rparr>)"
| "parse_opt E c (Opt_mbcache arg) = exits_or (parse_mbcache_size E arg (c_mbcache c)) (\<lambda>v. c\<lparr>c_mbcache := v\<rparr>)"
| "parse_opt E c (Opt_eth_dest arg) = exits_or (parse_eth_dest E arg c) (\<lambda>c. c)"
| "parse_opt E c Opt_no_numa = Goes (c\<lparr>c_numa := False\<rparr>)"
| "parse_opt E c Opt_ipv6 = Goes (c\<lparr>c_ipv6 := True\<rparr>)"
| "parse_opt E c (Opt_max_pkt_len arg) = Goes (c\<lparr>c_max_pkt_len := parse_max_pkt_len arg\<rparr>)"
| "parse_opt E c (Opt_hash_entry_num arg) = Goes c"
| "parse_opt E c Opt_parse_ptype = Goes (c\<lparr>c_parse_ptype := True\<rparr>)"
| "parse_opt E c Opt_relax_rx_offload = Goes (c\<lparr>c_relax := True\<rparr>)"
| "parse_opt E c Opt_disable_rss = Goes (c\<lparr>c_disable_rss := True\<rparr>)"
| "parse_opt E c Opt_per_port_pool = Goes (c\<lparr>c_per_port_pool := True\<rparr>)"
| "parse_opt E c (Opt_mode arg) = set_evt (parse_mode arg) c"
| "parse_opt E c (Opt_eventq_sched arg) =
     set_evt (parse_eventq_sched arg) (c\<lparr>c_fl_eventq := True\<rparr>)"
| "parse_opt E c (Opt_event_eth_rxqs arg) =
     set_evt (parse_event_eth_rx_queues arg) (c\<lparr>c_fl_eth_rxq := True\<rparr>)"
| "parse_opt E c Opt_event_vector = set_evt (\<lambda>e. e\<lparr>ev_vector_enabled := True\<rparr>) c"
| "parse_opt E c (Opt_event_vector_size arg) =
     set_evt (\<lambda>e. e\<lparr>ev_vector_size := of_int (strtol arg 10)\<rparr>) c"
| "parse_opt E c (Opt_event_vector_tmo arg) =
     set_evt (\<lambda>e. e\<lparr>ev_vector_tmo_ns := of_nat (su_val (strtoul arg 10))\<rparr>) c"
| "parse_opt E c (Opt_lookup arg) =
     (if c_lookup c \<noteq> Lookup_default then Fails
      else case parse_lookup arg of None \<Rightarrow> Fails | Some m \<Rightarrow> Goes (c\<lparr>c_lookup := m\<rparr>))"
| "parse_opt E c (Opt_rule_ipv4 arg) = Goes (c\<lparr>c_rules := (c_rules c)\<lparr>rule_ipv4_name := Some arg\<rparr>\<rparr>)"
| "parse_opt E c (Opt_rule_ipv6 arg) = Goes (c\<lparr>c_rules := (c_rules c)\<lparr>rule_ipv6_name := Some arg\<rparr>\<rparr>)"
| "parse_opt E c (Opt_alg arg) = Goes (c\<lparr>c_alg := ce_acl_alg E arg\<rparr>)"
| "parse_opt E c Opt_other = Fails"

fun parse_opts :: "cfg_env \<Rightarrow> cfg \<Rightarrow> opt list \<Rightarrow> parsed" where
  "parse_opts E c [] = Goes c"
| "parse_opts E c (x # xs) =
     (case parse_opt E c x of Goes c1 \<Rightarrow> parse_opts E c1 xs | Fails \<Rightarrow> Fails | Exits \<Rightarrow> Exits)"

text \<open>The checks after the loop: the event options, the defaults of the vectors and of the mode.\<close>

definition finish_args :: "cfg_env \<Rightarrow> cfg \<Rightarrow> parsed" where
  "finish_args E c =
     (let e = c_evt c
      in if ev_enabled e \<and> c_fl_config c then Fails
         else if \<not> ev_enabled e \<and> c_fl_eth_rxq c then Fails
         else if \<not> ev_enabled e \<and> c_fl_eventq c then Fails
         else
           let e1 = (if ev_vector_enabled e \<and> ev_vector_size e = 0 then e\<lparr>ev_vector_size := 512\<rparr> else e);
               e2 = (if ev_vector_enabled e1 \<and> ev_vector_tmo_ns e1 = 0 then e1\<lparr>ev_vector_tmo_ns := 1000000\<rparr> else e1);
               c1 = c\<lparr>c_evt := e2\<rparr>;
               c2 = (if c_lookup c1 = Lookup_default then c1\<lparr>c_lookup := Lookup_lpm\<rparr> else c1)
           in Goes (if c_lookup c2 = Lookup_acl then c2\<lparr>c_rss_hf := c_rss_hf c2 OR ce_rss_acl E\<rparr> else c2))"

definition parse_args :: "cfg_env \<Rightarrow> cfg \<Rightarrow> opt list \<Rightarrow> parsed" where
  "parse_args E c opts =
     (case parse_opts E (c\<lparr>c_fl_config := False, c_fl_eventq := False, c_fl_eth_rxq := False\<rparr>) opts of
        Goes c1 \<Rightarrow> finish_args E c1 | Fails \<Rightarrow> Fails | Exits \<Rightarrow> Exits)"

text \<open>The globals as the program starts, after \<open>main\<close> has set the destination addresses to
  02:00:00:00:00:xx; \<open>local_admin\<close> is \<open>RTE_ETHER_LOCAL_ADMIN_ADDR\<close>.\<close>

definition init_dest :: "u64 \<Rightarrow> nat \<Rightarrow> u64" where
  "init_dest local_admin portid = local_admin + push_bit 40 (of_nat portid)"

definition init_val_eth :: "u64 \<Rightarrow> nat \<Rightarrow> u8 list" where
  "init_val_eth local_admin portid = le64 (init_dest local_admin portid) @ drop 8 (replicate 16 0)"

definition init_cfg :: "cfg_env \<Rightarrow> u64 \<Rightarrow> u64 \<Rightarrow> cfg" where
  "init_cfg E local_admin rss_hf =
     \<lparr> c_port_mask = 0, c_promiscuous = False, c_lookup = Lookup_default,
       c_nb_params = length lcore_params_array_default, c_array = [], c_use_array = False,
       c_rxd = DESC_DEFAULT, c_txd = DESC_DEFAULT, c_rx_burst = DEFAULT_PKT_BURST, c_tx_burst = DEFAULT_PKT_BURST,
       c_mbcache = of_nat (ce_cache_max E),
       c_dest_eth = (\<lambda>p. if p < ce_max_ethports E then init_dest local_admin p else 0),
       c_val_eth = (\<lambda>p. if p < ce_max_ethports E then init_val_eth local_admin p else replicate 16 0),
       c_numa = True, c_ipv6 = False, c_max_pkt_len = 0, c_parse_ptype = False, c_relax = False,
       c_disable_rss = False, c_per_port_pool = False,
       c_evt = \<lparr>ev_enabled = False, ev_sched_type = Sched_atomic, ev_eth_rx_queues = 1,
                ev_vector_enabled = False, ev_vector_size = 0, ev_vector_tmo_ns = 0\<rparr>,
       c_rules = \<lparr>rule_ipv4_name = None, rule_ipv6_name = None\<rparr>, c_alg = 0, c_rss_hf = rss_hf,
       c_fl_config = False, c_fl_eventq = False, c_fl_eth_rxq = False \<rparr>"

section \<open>The invariant of the options\<close>

definition cfg_env_ok :: "cfg_env \<Rightarrow> bool" where
  "cfg_env_ok E \<longleftrightarrow> 4 \<le> ce_max_ethports E \<and> ce_max_ethports E < 2 ^ 16
     \<and> 4 \<le> ce_max_queues E \<and> ce_max_queues E < 2 ^ 16
     \<and> 4 \<le> ce_max_lcore E \<and> ce_max_lcore E < 2 ^ 16 \<and> ce_cache_max E < 2 ^ 32"

definition param_in_limits :: "cfg_env \<Rightarrow> lcore_params \<Rightarrow> bool" where
  "param_in_limits E p \<longleftrightarrow> unat (lp_port p) \<le> ce_max_ethports E \<and> unat (lp_queue p) \<le> ce_max_queues E
     \<and> unat (lp_lcore p) \<le> ce_max_lcore E"

definition bursts_ok :: "cfg \<Rightarrow> bool" where
  "bursts_ok c \<longleftrightarrow> 1 \<le> c_rx_burst c \<and> c_rx_burst c \<le> MAX_PKT_BURST \<and> 1 \<le> c_tx_burst c \<and> c_tx_burst c \<le> MAX_PKT_BURST"

definition params_ok :: "cfg_env \<Rightarrow> cfg \<Rightarrow> bool" where
  "params_ok E c \<longleftrightarrow> c_nb_params c = length (if c_use_array c then c_array c else lcore_params_array_default)
     \<and> c_nb_params c \<le> MAX_LCORE_PARAMS \<and> (\<forall>p \<in> set (active_params c). param_in_limits E p)"

definition macs_ok :: "cfg_env \<Rightarrow> cfg \<Rightarrow> bool" where
  "macs_ok E c \<longleftrightarrow> (\<forall>p < ce_max_ethports E. length (c_val_eth c p) = 16 \<and> take 8 (c_val_eth c p) = le64 (c_dest_eth c p))"

definition cfg_inv :: "cfg_env \<Rightarrow> cfg \<Rightarrow> bool" where
  "cfg_inv E c \<longleftrightarrow> bursts_ok c \<and> params_ok E c \<and> macs_ok E c \<and> unat (c_mbcache c) \<le> ce_cache_max E"

lemma parse_pkt_burst_range:
  "1 \<le> b \<and> b \<le> MAX_PKT_BURST \<Longrightarrow> 1 \<le> parse_pkt_burst E arg rx b \<and> parse_pkt_burst E arg rx b \<le> MAX_PKT_BURST"
  by (auto simp: parse_pkt_burst_def Let_def split: option.splits)

lemma of_nat_le: "unat (of_nat n :: u16) \<le> n" "unat (of_nat n :: u32) \<le> n"
  by (simp_all add: unat_of_nat)

lemma config_field_le: "config_field s m = Some v \<Longrightarrow> v \<le> m"
  by (auto simp: config_field_def Let_def split: if_splits)

lemma config_fields_le:
  assumes "config_fields ss (max_fld E) = Some vs" and "length ss = 3"
  shows "vs ! 0 \<le> ce_max_ethports E" and "vs ! 1 \<le> ce_max_queues E" and "vs ! 2 \<le> ce_max_lcore E"
proof -
  obtain a b c where ss: "ss = [a, b, c]"
    using assms(2) by (auto simp: numeral_3_eq_3 length_Suc_conv)
  from assms(1) show "vs ! 0 \<le> ce_max_ethports E" "vs ! 1 \<le> ce_max_queues E" "vs ! 2 \<le> ce_max_lcore E"
    by (auto simp: ss max_fld_def dest: config_field_le split: option.splits)
qed

lemma config_entry_limits:
  assumes "config_entry E s = Some (Some (p, s'))" shows "param_in_limits E p"
proof -
  from assms obtain fs vs where f: "length fs = 3" "config_fields fs (max_fld E) = Some vs"
    and p: "p = \<lparr>lp_port = of_nat (vs ! 0), lp_queue = of_nat (vs ! 1), lp_lcore = of_nat (vs ! 2)\<rparr>"
    by (auto simp: config_entry_def Let_def split: option.splits if_splits)
  show ?thesis using config_fields_le [OF f(2,1)] of_nat_le
    by (auto simp: param_in_limits_def p intro: order_trans)
qed

lemma parse_config_loop_params:
  "\<lbrakk>parse_config_loop E arr s = (rc, arr'); length arr \<le> MAX_LCORE_PARAMS; \<forall>p \<in> set arr. param_in_limits E p\<rbrakk>
    \<Longrightarrow> length arr' \<le> MAX_LCORE_PARAMS \<and> (\<forall>p \<in> set arr'. param_in_limits E p)"
proof (induction E arr s rule: parse_config_loop.induct)
  case (1 E arr s)
  show ?case
  proof (cases "\<exists>p s1. config_entry E s = Some (Some (p, s1)) \<and> length arr < MAX_LCORE_PARAMS")
    case False
    then have "arr' = arr" using 1(2)
      by (subst (asm) parse_config_loop.simps) (auto split: option.splits if_splits)
    then show ?thesis using 1 by simp
  next
    case True
    then obtain p s1 where t: "config_entry E s = Some (Some (p, s1))" "length arr < MAX_LCORE_PARAMS"
      by blast
    then have "parse_config_loop E (arr @ [p]) s1 = (rc, arr')"
      using 1(2) by (subst (asm) parse_config_loop.simps) simp
    then show ?thesis
      using 1(1) [OF t(1) refl refl] t 1(3,4) config_entry_limits [OF t(1)] by simp
  qed
qed

lemma parse_config_inv:
  assumes "cfg_env_ok E" and "parse_config E q c = (0, c1)" and "cfg_inv E c"
  shows "cfg_inv E (c1\<lparr>c_fl_config := True\<rparr>)"
proof -
  obtain rc arr where l: "parse_config_loop E [] q = (rc, arr)" by fastforce
  have c1: "c1 = c\<lparr>c_nb_params := length arr, c_array := arr, c_use_array := True\<rparr>"
    using assms(2) l by (auto simp: parse_config_def Let_def split: if_splits)
  have "length arr \<le> MAX_LCORE_PARAMS \<and> (\<forall>p \<in> set arr. param_in_limits E p)"
    using parse_config_loop_params [OF l] by simp
  then show ?thesis using assms(3)
    by (simp add: c1 cfg_inv_def bursts_ok_def params_ok_def macs_ok_def active_params_def)
qed

lemma length_le64_append: "length (le64 d @ drop 8 v) = 8 + (length v - 8)"
  by simp

lemma parse_eth_dest_inv:
  assumes "parse_eth_dest E arg c = Some c1" and "cfg_inv E c"
  shows "cfg_inv E c1"
  using assms
  by (auto simp: parse_eth_dest_def cfg_inv_def bursts_ok_def params_ok_def macs_ok_def active_params_def Let_def
      split: if_splits option.splits)

lemmas cfg_inv_simps = cfg_inv_def bursts_ok_def params_ok_def macs_ok_def active_params_def

lemma cfg_inv_update [simp]:
  "cfg_inv E (c\<lparr>c_port_mask := v0\<rparr>) = cfg_inv E c"
  "cfg_inv E (c\<lparr>c_promiscuous := v1\<rparr>) = cfg_inv E c"
  "cfg_inv E (c\<lparr>c_lookup := v2\<rparr>) = cfg_inv E c"
  "cfg_inv E (c\<lparr>c_rxd := v3\<rparr>) = cfg_inv E c"
  "cfg_inv E (c\<lparr>c_txd := v4\<rparr>) = cfg_inv E c"
  "cfg_inv E (c\<lparr>c_numa := v5\<rparr>) = cfg_inv E c"
  "cfg_inv E (c\<lparr>c_ipv6 := v6\<rparr>) = cfg_inv E c"
  "cfg_inv E (c\<lparr>c_max_pkt_len := v7\<rparr>) = cfg_inv E c"
  "cfg_inv E (c\<lparr>c_parse_ptype := v8\<rparr>) = cfg_inv E c"
  "cfg_inv E (c\<lparr>c_relax := v9\<rparr>) = cfg_inv E c"
  "cfg_inv E (c\<lparr>c_disable_rss := v10\<rparr>) = cfg_inv E c"
  "cfg_inv E (c\<lparr>c_per_port_pool := v11\<rparr>) = cfg_inv E c"
  "cfg_inv E (c\<lparr>c_evt := v12\<rparr>) = cfg_inv E c"
  "cfg_inv E (c\<lparr>c_rules := v13\<rparr>) = cfg_inv E c"
  "cfg_inv E (c\<lparr>c_alg := v14\<rparr>) = cfg_inv E c"
  "cfg_inv E (c\<lparr>c_rss_hf := v15\<rparr>) = cfg_inv E c"
  "cfg_inv E (c\<lparr>c_fl_config := v16\<rparr>) = cfg_inv E c"
  "cfg_inv E (c\<lparr>c_fl_eventq := v17\<rparr>) = cfg_inv E c"
  "cfg_inv E (c\<lparr>c_fl_eth_rxq := v18\<rparr>) = cfg_inv E c"
  by (simp_all add: cfg_inv_simps)

lemma parse_opt_inv:
  assumes E: "cfg_env_ok E" and "parse_opt E c x = Goes c1" and inv: "cfg_inv E c"
  shows "cfg_inv E c1"
proof (cases x)
  case (Opt_config arg)
  obtain rc c2 where p: "parse_config E arg c = (rc, c2)" by fastforce
  then show ?thesis using assms(2) Opt_config parse_config_inv [OF E _ inv] by (auto split: if_splits)
next
  case (Opt_eth_dest arg)
  then show ?thesis using assms(2) parse_eth_dest_inv [OF _ inv] by (auto simp: exits_or_def split: option.splits)
next
  case (Opt_rx_burst arg)
  then show ?thesis using assms(2) inv parse_pkt_burst_range [of "c_rx_burst c" E arg True]
    by (auto simp: cfg_inv_simps)
next
  case (Opt_tx_burst arg)
  then show ?thesis using assms(2) inv parse_pkt_burst_range [of "c_tx_burst c" E arg False]
    by (auto simp: cfg_inv_simps)
next
  case (Opt_mbcache arg)
  show ?thesis using assms(2) inv Opt_mbcache
    by (auto simp: cfg_inv_simps exits_or_def parse_mbcache_size_def Let_def
        intro: order_trans [OF of_nat_le(2)] split: option.splits if_splits)
qed (use assms in \<open>auto simp: exits_or_def set_evt_def Let_def split: if_splits option.splits\<close>)

lemma parse_opts_inv:
  assumes E: "cfg_env_ok E"
  shows "parse_opts E c xs = Goes c1 \<Longrightarrow> cfg_inv E c \<Longrightarrow> cfg_inv E c1"
  by (induction xs arbitrary: c) (auto split: parsed.splits dest: parse_opt_inv [OF E])

lemma init_cfg_inv: "cfg_env_ok E \<Longrightarrow> cfg_inv E (init_cfg E a h)"
  by (auto simp: cfg_inv_simps init_cfg_def cfg_env_ok_def DEFAULT_PKT_BURST_def MAX_PKT_BURST_def MAX_LCORE_PARAMS_def
      lcore_params_array_default_def param_in_limits_def init_val_eth_def unat_of_nat)

section \<open>Which options were given\<close>

fun lookup_of :: "opt \<Rightarrow> lookup_mode option" where
  "lookup_of Opt_E = Some Lookup_em"
| "lookup_of Opt_L = Some Lookup_lpm"
| "lookup_of (Opt_lookup arg) = parse_lookup arg"
| "lookup_of _ = None"

fun is_lookup :: "opt \<Rightarrow> bool" where
  "is_lookup Opt_E = True"
| "is_lookup Opt_L = True"
| "is_lookup (Opt_lookup arg) = True"
| "is_lookup _ = False"

lemma parse_lookup_not_default: "parse_lookup arg = Some m \<Longrightarrow> m \<noteq> Lookup_default"
  by (auto simp: parse_lookup_def split: if_splits)

lemma parse_config_frame [frame]:
  "parse_config E q c = (rc, c1) \<Longrightarrow> c_fl_config c1 = c_fl_config c \<and> c_lookup c1 = c_lookup c"
  by (auto simp: parse_config_def Let_def split: if_splits prod.splits)

lemma parse_eth_dest_frame [frame]:
  "parse_eth_dest E arg c = Some c1 \<Longrightarrow> c_fl_config c1 = c_fl_config c \<and> c_lookup c1 = c_lookup c"
  by (auto simp: parse_eth_dest_def Let_def split: if_splits option.splits)

lemma parse_opt_config:
  "parse_opt E c x = Goes c1 \<Longrightarrow> c_fl_config c1 \<longleftrightarrow> c_fl_config c \<or> (\<exists>a. x = Opt_config a)"
  by (cases x) (auto simp: exits_or_def set_evt_def Let_def dest: frame split: if_splits option.splits prod.splits)

lemma parse_opt_lookup:
  assumes "parse_opt E c x = Goes c1"
  shows "if is_lookup x then c_lookup c = Lookup_default \<and> lookup_of x = Some (c_lookup c1) \<and> c_lookup c1 \<noteq> Lookup_default
    else c_lookup c1 = c_lookup c"
  using assms
  by (cases x) (auto simp: exits_or_def set_evt_def Let_def dest: frame parse_lookup_not_default
      split: if_splits option.splits prod.splits)

lemma parse_opts_config:
  "parse_opts E c xs = Goes c1 \<Longrightarrow> c_fl_config c1 \<longleftrightarrow> c_fl_config c \<or> (\<exists>a. Opt_config a \<in> set xs)"
  by (induction xs arbitrary: c) (auto split: parsed.splits dest!: parse_opt_config)

lemma parse_opts_lookup_set:
  "parse_opts E c xs = Goes c1 \<Longrightarrow> c_lookup c \<noteq> Lookup_default \<Longrightarrow>
    filter is_lookup xs = [] \<and> c_lookup c1 = c_lookup c"
proof (induction xs arbitrary: c)
  case (Cons x xs)
  then obtain c2 where 2: "parse_opt E c x = Goes c2" "parse_opts E c2 xs = Goes c1"
    by (auto split: parsed.splits)
  then show ?case using parse_opt_lookup [OF 2(1)] Cons.prems(2) Cons.IH [OF 2(2)] by (auto split: if_splits)
qed simp

lemma parse_opts_lookup:
  "parse_opts E c xs = Goes c1 \<Longrightarrow> c_lookup c = Lookup_default \<Longrightarrow>
    (filter is_lookup xs = [] \<and> c_lookup c1 = Lookup_default)
    \<or> (\<exists>x. filter is_lookup xs = [x] \<and> lookup_of x = Some (c_lookup c1) \<and> c_lookup c1 \<noteq> Lookup_default)"
proof (induction xs arbitrary: c)
  case (Cons x xs)
  then obtain c2 where 2: "parse_opt E c x = Goes c2" "parse_opts E c2 xs = Goes c1"
    by (auto split: parsed.splits)
  show ?case
  proof (cases "is_lookup x")
    case True
    then show ?thesis using parse_opt_lookup [OF 2(1)] parse_opts_lookup_set [OF 2(2)] by auto
  next
    case False
    then show ?thesis using parse_opt_lookup [OF 2(1)] Cons.IH [OF 2(2)] Cons.prems(2) by simp
  qed
qed simp

section \<open>Writing a configuration\<close>

lemma dec_len: "n < 10 ^ k \<Longrightarrow> 0 < k \<Longrightarrow> length (dec n) \<le> k"
proof (induction n arbitrary: k rule: dec.induct)
  case (1 n)
  show ?case
  proof (cases "n < 10")
    case True
    then show ?thesis using 1(3) by (subst dec.simps) simp
  next
    case False
    then obtain j where k: "k = Suc j" using 1(2,3) by (cases k) auto
    then have "n div 10 < 10 ^ j" using 1(2) by (simp add: less_mult_imp_div_less mult.commute)
    moreover have "0 < j" using False 1(2) k by (cases j) auto
    ultimately have "length (dec (n div 10)) \<le> j" using 1(1) False by simp
    then show ?thesis using False k by (subst dec.simps) simp
  qed
qed

definition show_param :: "lcore_params \<Rightarrow> string" where
  "show_param p = CHR 0x28 # dec (unat (lp_port p)) @ CHR 0x2C # dec (unat (lp_queue p)) @ CHR 0x2C #
     dec (unat (lp_lcore p)) @ [CHR 0x29]"

text \<open>\<open>rte_strsplit\<close> cuts a string of three parts without a comma at its two commas.\<close>

definition strsplit_ok :: "cfg_env \<Rightarrow> bool" where
  "strsplit_ok E \<longleftrightarrow> (\<forall>a b c. CHR 0x2C \<notin> set (a @ b @ c) \<longrightarrow>
     ce_strsplit E (a @ CHR 0x2C # b @ CHR 0x2C # c) 3 CHR 0x2C = [a, b, c])"

lemma dec_not:
  assumes "code_of c < 48" shows "c \<notin> set (dec n)"
  using dec_digits [of c n] assms by auto

lemma config_field_dec: "n \<le> m \<Longrightarrow> n \<le> ULONG_MAX \<Longrightarrow> config_field (dec n) m = Some n"
  by (simp add: config_field_def strtoul_dec dec_nonempty [symmetric])

lemma config_entry_show:
  assumes E: "cfg_env_ok E" and s: "strsplit_ok E" and p: "param_in_limits E p"
  shows "config_entry E (show_param p @ f) = Some (Some (p, CHR 0x29 # f))"
proof -
  let ?a = "dec (unat (lp_port p))" and ?b = "dec (unat (lp_queue p))" and ?c = "dec (unat (lp_lcore p))"
  let ?g = "?a @ CHR 0x2C # ?b @ CHR 0x2C # ?c"
  have lim: "unat (lp_port p) < 2 ^ 16" "unat (lp_queue p) < 2 ^ 16" "unat (lp_lcore p) < 2 ^ 16"
    using p E by (auto simp: param_in_limits_def cfg_env_ok_def)
  then have "length ?a \<le> 5" "length ?b \<le> 5" "length ?c \<le> 5"
    by (intro dec_len; simp)+
  then have len: "length ?g < 256" by simp
  have c: "code_of CHR 0x29 < 48" "code_of CHR 0x2C < 48" by (simp_all add: code_of_def)
  have o: "strchr CHR 0x28 (show_param p @ f) = Some (show_param p @ f)"
    by (simp add: strchr_def show_param_def)
  have "dropWhile (\<lambda>x. x \<noteq> CHR 0x29) (?g @ CHR 0x29 # f) = CHR 0x29 # f"
    using dec_not [OF c(1)] by (subst dropWhile_append2) auto
  then have cl: "strchr CHR 0x29 (tl (show_param p @ f)) = Some (CHR 0x29 # f)"
    by (simp add: strchr_def show_param_def)
  have sz: "length (tl (show_param p @ f)) - length (CHR 0x29 # f) = length ?g"
    by (simp add: show_param_def)
  have tk: "take (length ?g) (tl (show_param p @ f)) = ?g"
    by (simp add: show_param_def)
  have sp: "ce_strsplit E ?g 3 CHR 0x2C = [?a, ?b, ?c]"
    using s dec_not [OF c(2)] by (simp add: strsplit_ok_def)
  have U: "n < 2 ^ 16 \<Longrightarrow> n \<le> ULONG_MAX" for n by (simp add: ULONG_MAX_def)
  have cf: "config_fields [?a, ?b, ?c] (max_fld E) = Some [unat (lp_port p), unat (lp_queue p), unat (lp_lcore p)]"
    using p lim U by (simp add: max_fld_def config_field_dec param_in_limits_def)
  show ?thesis
    unfolding config_entry_def o option.case cl Let_def sz tk sp using len cf by simp
qed

lemma config_entry_skip: "config_entry E (CHR 0x29 # f) = config_entry E f"
  by (simp add: config_entry_def strchr_def)

lemma parse_config_loop_show:
  assumes E: "cfg_env_ok E" "strsplit_ok E"
  shows "\<forall>p \<in> set ps. param_in_limits E p \<Longrightarrow> length arr + length ps \<le> MAX_LCORE_PARAMS \<Longrightarrow>
    parse_config_loop E arr (concat (map show_param ps)) = (0, arr @ ps)
    \<and> parse_config_loop E arr (CHR 0x29 # concat (map show_param ps)) = (0, arr @ ps)"
proof (induction ps arbitrary: arr)
  case Nil
  have "config_entry E [] = None" by (simp add: config_entry_def strchr_def)
  then show ?case by (simp add: parse_config_loop.simps [of E arr] config_entry_skip)
next
  case (Cons p ps)
  have "config_entry E (show_param p @ concat (map show_param ps)) = Some (Some (p, CHR 0x29 # concat (map show_param ps)))"
    using config_entry_show [OF E] Cons.prems(1) by simp
  then show ?case using Cons.IH [of "arr @ [p]"] Cons.prems
    by (simp add: parse_config_loop.simps [of E arr] config_entry_skip)
qed

lemma strtoul10_app:
  assumes "n \<le> ULONG_MAX" and "x = [] \<or> \<not> is_digit 10 (hd x)"
  shows "strtoul (dec n @ x) 10 = \<lparr>su_erange = False, su_val = n, su_end = x\<rparr>"
proof -
  have h: "hd (dec n @ x) \<in> set (dec n)" by simp
  have s: "\<not> isspace (hd (dec n @ x))" and m: "code_of (hd (dec n @ x)) \<noteq> 45" "code_of (hd (dec n @ x)) \<noteq> 43"
    using dec_digits [OF h] by (auto simp: isspace_def)
  have d: "dropWhile isspace (dec n @ x) = dec n @ x"
    using s by (metis dropWhile_eq_self_iff)
  have sg: "(if dec n @ x \<noteq> [] \<and> (code_of (hd (dec n @ x)) = 45 \<or> code_of (hd (dec n @ x)) = 43)
      then tl (dec n @ x) else dec n @ x) = dec n @ x"
    using m by simp
  have pf: "num_prefix 10 (dec n @ x) = (10, dec n @ x)" by (simp add: num_prefix_def)
  have dg: "is_digit 10 c" if "c \<in> set (dec n)" for c
    using dec_digits [OF that] by (simp add: is_digit_def digit_val_def Let_def less_diff_conv2)
  have "takeWhile (is_digit 10) x = []" using assms(2) by (cases x) auto
  then have t: "takeWhile (is_digit 10) (dec n @ x) = dec n"
    using dg by (simp add: takeWhile_append)
  show ?thesis
    unfolding strtoul_def Let_def d sg pf prod.case t num_of_dec using m assms(1) by simp
qed

section \<open>A concrete instance\<close>

fun split_at :: "char \<Rightarrow> string \<Rightarrow> string list" where
  "split_at d [] = [[]]"
| "split_at d (c # cs) =
     (if c = d then [] # split_at d cs
      else case split_at d cs of [] \<Rightarrow> [[c]] | s # ss \<Rightarrow> (c # s) # ss)"

lemma parse_args_steps:
  assumes "cfg_env_ok E" and "parse_args E (init_cfg E a h) opts = Goes c"
  obtains c1 where "parse_opts E ((init_cfg E a h)\<lparr>c_fl_config := False, c_fl_eventq := False, c_fl_eth_rxq := False\<rparr>) opts = Goes c1"
    and "finish_args E c1 = Goes c" and "cfg_inv E c"
proof -
  let ?c0 = "(init_cfg E a h)\<lparr>c_fl_config := False, c_fl_eventq := False, c_fl_eth_rxq := False\<rparr>"
  obtain c1 where 1: "parse_opts E ?c0 opts = Goes c1" and f: "finish_args E c1 = Goes c"
    using assms(2) by (auto simp: parse_args_def split: parsed.splits)
  have "cfg_inv E c1" by (rule parse_opts_inv [OF assms(1) 1]) (simp add: init_cfg_inv [OF assms(1)])
  then have "cfg_inv E c" using f by (auto simp: finish_args_def Let_def split: if_splits)
  then show ?thesis using that 1 f by blast
qed

lemma parse_args_cfg_inv: "cfg_env_ok E \<Longrightarrow> parse_args E (init_cfg E a h) opts = Goes c \<Longrightarrow> cfg_inv E c"
  by (rule parse_args_steps)

definition env_ex :: cfg_env where
  "env_ex = \<lparr> ce_max_ethports = 32, ce_max_queues = 1024, ce_max_lcore = 128, ce_cache_max = 512,
     ce_strsplit = (\<lambda>s n d. split_at d s),
     ce_etheraddr = (\<lambda>s. if s = ''aa'' then Some [0xa, 0xb, 0xc, 0xd, 0xe, 0xf] else None),
     ce_dev0_rx_burst = Some 32, ce_acl_alg = (\<lambda>s. 0), ce_rss_acl = 0x70 \<rparr>"

lemma env_ok_ex: "cfg_env_ok env_ex"
  by (simp add: cfg_env_ok_def env_ex_def)

lemma split_at_none: "d \<notin> set s \<Longrightarrow> split_at d s = [s]"
  by (induction s) auto

lemma split_at_app: "d \<notin> set s \<Longrightarrow> split_at d (s @ d # r) = s # split_at d r"
  by (induction s) auto

lemma strsplit_ok_ex: "strsplit_ok env_ex"
  by (simp add: strsplit_ok_def env_ex_def split_at_app split_at_none)

section \<open>Properties\<close>

text \<open>C12. Whatever options the program is started with, when \<open>parse_args\<close> succeeds the
  configuration is one the rest can use: the receive and transmit bursts are between 1 and
  \<open>MAX_PKT_BURST\<close> (the size of the transmit tables), the queue entries in use are the ones written
  and each is within the limits \<open>parse_config\<close> tests, the memory pool cache is not too large, and
  every rewriting header starts with its port's destination address. Either no lookup mode was asked
  for and the mode is LPM, or exactly one was asked for and it is the mode. The event mode never comes
  with a queue configuration, and an enabled vector has a size and a timeout.\<close>

theorem parse_args_invariant:
  assumes "cfg_env_ok E" and "parse_args E (init_cfg E a h) opts = Goes c"
  shows "cfg_inv E c
    \<and> (if filter is_lookup opts = [] then c_lookup c = Lookup_lpm
       else length (filter is_lookup opts) = 1 \<and> lookup_of (hd (filter is_lookup opts)) = Some (c_lookup c))
    \<and> \<not> (ev_enabled (c_evt c) \<and> Opt_config q \<in> set opts)
    \<and> \<not> (ev_vector_enabled (c_evt c) \<and> (ev_vector_size (c_evt c) = 0 \<or> ev_vector_tmo_ns (c_evt c) = 0))"
proof -
  let ?c0 = "init_cfg E a h\<lparr>c_fl_config := False, c_fl_eventq := False, c_fl_eth_rxq := False\<rparr>"
  obtain c1 where 1: "parse_opts E ?c0 opts = Goes c1" and f: "finish_args E c1 = Goes c" and i: "cfg_inv E c"
    using parse_args_steps [OF assms] by blast
  have "c_lookup ?c0 = Lookup_default" by (simp add: init_cfg_def)
  from parse_opts_lookup [OF 1 this] f
  have l: "if filter is_lookup opts = [] then c_lookup c = Lookup_lpm
      else length (filter is_lookup opts) = 1 \<and> lookup_of (hd (filter is_lookup opts)) = Some (c_lookup c)"
    by (auto simp: finish_args_def Let_def split: if_splits)
  have e: "\<not> (ev_enabled (c_evt c) \<and> Opt_config q \<in> set opts)"
    using f parse_opts_config [OF 1] by (auto simp: finish_args_def Let_def split: if_splits)
  have "\<not> (ev_vector_enabled (c_evt c) \<and> (ev_vector_size (c_evt c) = 0 \<or> ev_vector_tmo_ns (c_evt c) = 0))"
    using f by (auto simp: finish_args_def Let_def split: if_splits)
  with i l e show ?thesis by blast
qed

theorem parse_args_invariant_witness:
  "case parse_args env_ex (init_cfg env_ex 2 0x10) [Opt_P, Opt_lookup ''em'', Opt_no_numa] of
     Goes c \<Rightarrow> cfg_inv env_ex c | _ \<Rightarrow> False"
proof -
  obtain c where c: "parse_args env_ex (init_cfg env_ex 2 0x10) [Opt_P, Opt_lookup ''em'', Opt_no_numa] = Goes c"
    by (simp add: parse_args_def init_cfg_def parse_lookup_def finish_args_def)
  show ?thesis using parse_args_invariant [OF env_ok_ex c, THEN conjunct1] by (simp add: c)
qed

text \<open>C34. A configuration written as \<open>(port,queue,lcore)\<close> groups is read back as its entries, for
  any list of up to 1024 entries. The bounds are tested with \<open>>\<close>, so the entries accepted include
  those whose port is \<open>RTE_MAX_ETHPORTS\<close> or whose lcore is \<open>RTE_MAX_LCORE\<close>.\<close>

theorem parse_config_roundtrip:
  assumes "cfg_env_ok E" and "strsplit_ok E" and "\<forall>p \<in> set ps. param_in_limits E p" and "length ps \<le> MAX_LCORE_PARAMS"
  shows "parse_config E (concat (map show_param ps)) c =
    (0, c\<lparr>c_nb_params := length ps, c_array := ps, c_use_array := True\<rparr>)"
  using parse_config_loop_show [OF assms(1,2), of ps "[]"] assms(3,4) by (simp add: parse_config_def)

theorem parse_config_roundtrip_witness:
  "let ps = [\<lparr>lp_port = 0, lp_queue = 0, lp_lcore = 1\<rparr>, \<lparr>lp_port = 32, lp_queue = 3, lp_lcore = 128\<rparr>]
   in parse_config env_ex (concat (map show_param ps)) (init_cfg env_ex 2 0) =
    (0, (init_cfg env_ex 2 0)\<lparr>c_nb_params := length ps, c_array := ps, c_use_array := True\<rparr>)"
  unfolding Let_def
  by (rule parse_config_roundtrip [OF env_ok_ex strsplit_ok_ex])
     (simp_all add: param_in_limits_def env_ex_def MAX_LCORE_PARAMS_def)

text \<open>\<open>parse_eth_dest\<close> takes the port of \<open>--eth-dest\<close> modulo 65536 before it compares it
  with \<open>RTE_MAX_ETHPORTS\<close>: a port number of 65536 or more that is in range modulo 65536 is not
  refused and changes the destination address of another port.\<close>

lemma parse_eth_dest_wraps:
  assumes "n \<le> ULONG_MAX" and "n mod 65536 < ce_max_ethports E" and "ce_etheraddr E m = Some addr"
  shows "parse_eth_dest E (dec n @ CHR 0x2C # m) c =
    (let p = n mod 65536; d = set_low6 (c_dest_eth c p) addr
     in Some (c\<lparr>c_dest_eth := (c_dest_eth c)(p := d), c_val_eth := (c_val_eth c)(p := le64 d @ drop 8 (c_val_eth c p))\<rparr>))"
proof -
  have "\<not> is_digit 10 CHR 0x2C" by (simp add: is_digit_def digit_val_def code_of_def)
  then have r: "strtoul (dec n @ CHR 0x2C # m) 10 = \<lparr>su_erange = False, su_val = n, su_end = CHR 0x2C # m\<rparr>"
    by (intro strtoul10_app [OF assms(1)]) simp
  have p: "unat (of_nat n :: u16) = n mod 65536" by (simp add: unat_of_nat)
  have e: "CHR 0x2C # m \<noteq> dec n @ CHR 0x2C # m"
  proof
    assume "CHR 0x2C # m = dec n @ CHR 0x2C # m"
    from arg_cong [OF this, of length] show False by simp
  qed
  show ?thesis unfolding parse_eth_dest_def r Let_def strtoul_result.simps p
    using e assms(2,3) by (simp add: first_char_def)
qed

end
