(* ===== verification/Pkt_Group.thy ===== *)
theory Pkt_Group
  imports Dpdk
begin

text \<open>
  Grouping of consecutive packets with the same destination port: the table and the step of
  \<open>common/pkt_group.h\<close>, the three vector versions of \<open>port_groupx4\<close>
  (\<open>common/sse/port_group.h\<close>, \<open>common/neon/port_group.h\<close>, \<open>common/altivec/port_group.h\<close>) and
  \<open>process_dst_port\<close> (\<open>l3fwd/l3fwd_sse.h\<close>). The array \<open>pnum\<close> is a function from indices,
  \<open>lp\<close> is the index it points to; the counters stay below the burst size, so they are
  natural numbers. The vector units are behind an interface, the locale \<open>cmp4_unit\<close>.
\<close>

record gptbl_entry =
  gp_pnum :: u64
  gp_idx :: nat
  gp_lpv :: nat

definition gptbl :: "gptbl_entry list" where
  "gptbl =
    [\<lparr> gp_pnum = 0x0001000100010001, gp_idx = 4, gp_lpv = 0 \<rparr>,
     \<lparr> gp_pnum = 0x0001000100010002, gp_idx = 4, gp_lpv = 1 \<rparr>,
     \<lparr> gp_pnum = 0x0001000100020001, gp_idx = 4, gp_lpv = 0 \<rparr>,
     \<lparr> gp_pnum = 0x0001000100020003, gp_idx = 4, gp_lpv = 2 \<rparr>,
     \<lparr> gp_pnum = 0x0001000200010001, gp_idx = 4, gp_lpv = 0 \<rparr>,
     \<lparr> gp_pnum = 0x0001000200010002, gp_idx = 4, gp_lpv = 1 \<rparr>,
     \<lparr> gp_pnum = 0x0001000200030001, gp_idx = 4, gp_lpv = 0 \<rparr>,
     \<lparr> gp_pnum = 0x0001000200030004, gp_idx = 4, gp_lpv = 3 \<rparr>,
     \<lparr> gp_pnum = 0x0002000100010001, gp_idx = 3, gp_lpv = 0 \<rparr>,
     \<lparr> gp_pnum = 0x0002000100010002, gp_idx = 3, gp_lpv = 1 \<rparr>,
     \<lparr> gp_pnum = 0x0002000100020001, gp_idx = 3, gp_lpv = 0 \<rparr>,
     \<lparr> gp_pnum = 0x0002000100020003, gp_idx = 3, gp_lpv = 2 \<rparr>,
     \<lparr> gp_pnum = 0x0002000300010001, gp_idx = 2, gp_lpv = 0 \<rparr>,
     \<lparr> gp_pnum = 0x0002000300010002, gp_idx = 2, gp_lpv = 1 \<rparr>,
     \<lparr> gp_pnum = 0x0002000300040001, gp_idx = 1, gp_lpv = 0 \<rparr>,
     \<lparr> gp_pnum = 0x0002000300040005, gp_idx = 0, gp_lpv = 4 \<rparr>]"

definition GRPMSK :: nat where "GRPMSK = 15"

definition u16_lane :: "u64 \<Rightarrow> nat \<Rightarrow> nat" where
  "u16_lane w i = unat (ucast (drop_bit (16 * i) w) :: u16)"

type_synonym grp = "(nat \<Rightarrow> nat) \<times> nat"

section \<open>One packet at a time\<close>

text \<open>\<open>GROUP_PORT_STEP\<close>: the port of the current run, then \<open>pnum\<close> and \<open>lp\<close>.\<close>

definition GROUP_PORT_STEP :: "(nat \<Rightarrow> u16) \<Rightarrow> nat \<Rightarrow> u16 \<times> grp \<Rightarrow> u16 \<times> grp" where
  "GROUP_PORT_STEP dcp idx st =
     (case st of (dlp, pnum, lp) \<Rightarrow>
        if dlp = dcp idx then (dlp, pnum(lp := pnum lp + 1), lp)
        else (dcp idx, pnum(idx := 1), idx))"

section \<open>Four packets at a time\<close>

text \<open>The part of \<open>port_groupx4\<close> after the comparison: \<open>pn\<close> is the index of \<open>pn[0]\<close>, \<open>v\<close>
  the 4 bit mask. The 64-bit store fills four counters.\<close>

definition group_update :: "nat \<Rightarrow> nat \<Rightarrow> grp \<Rightarrow> grp" where
  "group_update pn v st =
     (case st of (pnum, lp) \<Rightarrow>
        let e = gptbl ! v;
            pnum1 = pnum(lp := pnum lp + gp_lpv e)
        in if v \<noteq> GRPMSK then
             (pnum1(pn := u16_lane (gp_pnum e) 0, pn + 1 := u16_lane (gp_pnum e) 1,
                    pn + 2 := u16_lane (gp_pnum e) 2, pn + 3 := u16_lane (gp_pnum e) 3,
                    pn + 4 := 1), pn + gp_idx e)
           else (pnum1, lp))"

text \<open>The vector instructions, on eight 16-bit lanes, lane 0 first (little-endian order).\<close>

definition cmpeq_epi16 :: "u16 list \<Rightarrow> u16 list \<Rightarrow> u16 list" where
  "cmpeq_epi16 a b = map (\<lambda>i. if a ! i = b ! i then 0xffff else 0) [0..<8]"

definition unpacklo_epi16 :: "u16 list \<Rightarrow> u16 list \<Rightarrow> u16 list" where
  "unpacklo_epi16 a b = [a ! 0, b ! 0, a ! 1, b ! 1, a ! 2, b ! 2, a ! 3, b ! 3]"

definition movemask_ps :: "u16 list \<Rightarrow> nat" where
  "movemask_ps a = (\<Sum>i<4. if bit (a ! (2 * i + 1)) 15 then 2 ^ i else 0)"

definition cmp4_sse :: "u16 list \<Rightarrow> u16 list \<Rightarrow> nat" where
  "cmp4_sse dp1 dp2 =
     (let x = cmpeq_epi16 dp1 dp2; y = unpacklo_epi16 x x in movemask_ps y)"

definition port_groupx4 :: "nat \<Rightarrow> grp \<Rightarrow> u16 list \<Rightarrow> u16 list \<Rightarrow> grp" where
  "port_groupx4 pn st dp1 dp2 = group_update pn (cmp4_sse dp1 dp2) st"

definition vandq_u16 :: "u16 list \<Rightarrow> u16 list \<Rightarrow> u16 list" where
  "vandq_u16 a b = map (\<lambda>i. a ! i AND b ! i) [0..<8]"

definition vaddvq_u16 :: "u16 list \<Rightarrow> u16" where
  "vaddvq_u16 a = sum_list a"

definition cmp4_neon :: "u16 list \<Rightarrow> u16 list \<Rightarrow> nat" where
  "cmp4_neon dp1 dp2 =
     unat (vaddvq_u16 (vandq_u16 (cmpeq_epi16 dp1 dp2) [1, 2, 4, 8, 0, 0, 0, 0]))"

definition port_groupx4_neon :: "nat \<Rightarrow> grp \<Rightarrow> u16 list \<Rightarrow> u16 list \<Rightarrow> grp" where
  "port_groupx4_neon pn st dp1 dp2 = group_update pn (cmp4_neon dp1 dp2) st"

text \<open>POWER: \<open>vec_mergeh\<close> doubles the first four lanes; \<open>vec_vbpermq\<close> numbers the 128 bits
  from the most significant and gathers the ones its 16 index bytes name (an index of 128 or
  more gives 0), the last byte's bit being the least significant of the result.\<close>

definition vec_mergeh :: "u16 list \<Rightarrow> u16 list \<Rightarrow> u16 list" where
  "vec_mergeh a b = [a ! 0, b ! 0, a ! 1, b ! 1, a ! 2, b ! 2, a ! 3, b ! 3]"

definition be_bit :: "u16 list \<Rightarrow> nat \<Rightarrow> bool" where
  "be_bit a n = (n < 128 \<and> bit (a ! ((127 - n) div 16)) ((127 - n) mod 16))"

definition vec_vbpermq :: "u16 list \<Rightarrow> nat list \<Rightarrow> nat" where
  "vec_vbpermq a idx = (\<Sum>i<16. if be_bit a (idx ! i) then 2 ^ (15 - i) else 0)"

definition perm_mask :: "nat list" where
  "perm_mask = replicate 12 0x80 @ [0x00, 0x20, 0x40, 0x60]"

definition cmp4_altivec :: "u16 list \<Rightarrow> u16 list \<Rightarrow> nat" where
  "cmp4_altivec dp1 dp2 =
     (let x = cmpeq_epi16 dp1 dp2; y = vec_mergeh x x in vec_vbpermq y perm_mask)"

definition port_groupx4_altivec :: "nat \<Rightarrow> grp \<Rightarrow> u16 list \<Rightarrow> u16 list \<Rightarrow> grp" where
  "port_groupx4_altivec pn st dp1 dp2 = group_update pn (cmp4_altivec dp1 dp2) st"

section \<open>Runs\<close>

text \<open>Reference definitions: the length of the run of equal ports from \<open>j\<close>, and the runs of the
  first \<open>n\<close> ports as (start, length) pairs.\<close>

definition run_len :: "(nat \<Rightarrow> 'a) \<Rightarrow> nat \<Rightarrow> nat \<Rightarrow> nat" where
  "run_len d n j = length (takeWhile (\<lambda>i. d i = d j) [j..<n])"

lemma run_len_pos: "j < n \<Longrightarrow> 0 < run_len d n j"
  by (simp add: run_len_def upt_conv_Cons)

function runs :: "(nat \<Rightarrow> 'a) \<Rightarrow> nat \<Rightarrow> nat \<Rightarrow> (nat \<times> nat) list" where
  "runs d n j = (if j < n then (j, run_len d n j) # runs d n (j + run_len d n j) else [])"
  by pat_completeness auto
termination
proof (relation "measure (\<lambda>(d, n, j). n - j)")
  fix d :: "nat \<Rightarrow> 'a" and n j :: nat
  assume "j < n"
  then show "((d, n, j + run_len d n j), d, n, j) \<in> measure (\<lambda>(d, n, j). n - j)"
    using run_len_pos [of j n d] by simp
qed simp

declare runs.simps [simp del]

definition is_start :: "(nat \<Rightarrow> 'a) \<Rightarrow> nat \<Rightarrow> bool" where
  "is_start d i \<longleftrightarrow> i = 0 \<or> d i \<noteq> d (i - 1)"

definition flat :: "(nat \<Rightarrow> 'a) \<Rightarrow> nat \<Rightarrow> nat \<Rightarrow> bool" where
  "flat d a b \<longleftrightarrow> (\<forall>k\<in>{a..b}. d k = d a)"

lemma flatD: "flat d a b \<Longrightarrow> a \<le> k \<Longrightarrow> k \<le> b \<Longrightarrow> d k = d a"
  unfolding flat_def by (meson atLeastAtMost_iff)

lemma flat_refl [simp]: "flat d a a"
  by (simp add: flat_def)

lemma flat_Suc: "a \<le> b \<Longrightarrow> flat d a (Suc b) \<longleftrightarrow> flat d a b \<and> d (Suc b) = d a"
  unfolding flat_def by (auto simp only: atLeastAtMost_iff le_Suc_eq)

lemma flat_cong: "(\<And>i. i \<le> b \<Longrightarrow> d' i = d i) \<Longrightarrow> a \<le> b \<Longrightarrow> flat d a b \<Longrightarrow> flat d' a b"
  unfolding flat_def by (metis atLeastAtMost_iff)

lemma run_len_eq:
  assumes "0 < k" and "j + k \<le> n" and "flat d j (j + k - 1)"
    and "j + k = n \<or> d (j + k) \<noteq> d j"
  shows "run_len d n j = k"
proof -
  have s: "[j..<n] = [j..<j + k] @ [j + k..<n]"
    using assms(2) by (metis le_add1 le_add_diff_inverse upt_add_eq_append)
  have a: "d i = d j" if "i \<in> set [j..<j + k]" for i
    by (rule flatD [OF assms(3)]) (use that in auto)
  have "takeWhile (\<lambda>i. d i = d j) [j + k..<n] = []"
    using assms(4) by (cases "j + k < n") (auto simp only: upt_conv_Cons takeWhile.simps upt_conv_Nil
      not_less split: if_splits)
  moreover have "takeWhile (\<lambda>i. d i = d j) ([j..<j + k] @ [j + k..<n])
      = [j..<j + k] @ takeWhile (\<lambda>i. d i = d j) [j + k..<n]"
    by (rule takeWhile_append2) (rule a)
  ultimately show ?thesis
    unfolding run_len_def s by (simp only: append_Nil2 length_upt diff_add_inverse)
qed

section \<open>The invariant of the counters\<close>

text \<open>After position \<open>J\<close>: \<open>lp\<close> starts the run that holds \<open>J\<close> and counts it up to \<open>J\<close>; every
  earlier run's start holds its length. Entries that start no run hold anything.\<close>

definition closed_run :: "(nat \<Rightarrow> 'a) \<Rightarrow> nat \<Rightarrow> nat \<Rightarrow> nat \<Rightarrow> bool" where
  "closed_run d lp k i \<longleftrightarrow>
     0 < k \<and> i + k \<le> lp \<and> flat d i (i + k - 1) \<and> is_start d (i + k)"

definition grp_inv :: "(nat \<Rightarrow> u16) \<Rightarrow> nat \<Rightarrow> grp \<Rightarrow> bool" where
  "grp_inv d J st \<longleftrightarrow> (case st of (pnum, lp) \<Rightarrow>
     lp \<le> J \<and> pnum lp = J - lp + 1 \<and> is_start d lp \<and> flat d lp J \<and>
     (\<forall>i<lp. is_start d i \<longrightarrow> closed_run d lp (pnum i) i))"

lemma grp_inv_init: "grp_inv d 0 (pnum(0 := 1), 0)"
  by (simp add: grp_inv_def is_start_def)

lemma grp_inv_cong:
  assumes "grp_inv d J (pnum, lp)" and "\<And>i. i \<le> lp \<Longrightarrow> is_start d i \<Longrightarrow> pnum' i = pnum i"
  shows "grp_inv d J (pnum', lp)"
  using assms(1) assms(2) [OF order.refl] assms(2) [OF less_imp_le] by (simp add: grp_inv_def)

lemma closed_run_mono: "closed_run d lp k i \<Longrightarrow> lp \<le> lp' \<Longrightarrow> closed_run d lp' k i"
  by (simp add: closed_run_def)

lemma is_start_cong: "(\<And>i. i \<le> J \<Longrightarrow> d' i = d i) \<Longrightarrow> i \<le> J \<Longrightarrow> is_start d' i = is_start d i"
  by (simp add: is_start_def)

lemma closed_run_cong:
  assumes "\<And>i. i \<le> J \<Longrightarrow> d' i = d i" and "closed_run d lp k i" and "lp \<le> J"
  shows "closed_run d' lp k i"
  using assms is_start_cong [of J d' d "i + k"] flat_cong [of "i + k - 1" d' d i]
  unfolding closed_run_def by auto

lemma grp_inv_ports:
  assumes "grp_inv d J (pnum, lp)" and eq: "\<And>i. i \<le> J \<Longrightarrow> d' i = d i"
  shows "grp_inv d' J (pnum, lp)"
proof -
  have lp: "lp \<le> J" and fl: "flat d lp J" using assms(1) by (simp_all add: grp_inv_def)
  have s: "is_start d' i = is_start d i" if "i \<le> J" for i
    using that by (rule is_start_cong [rotated]) (rule eq)
  have "closed_run d' lp (pnum i) i" if "i < lp" "is_start d' i" for i
  proof (rule closed_run_cong [OF eq _ lp])
    show "closed_run d lp (pnum i) i"
      using that assms(1) lp s [of i] by (simp add: grp_inv_def)
  qed
  then show ?thesis
    using assms(1) s [OF lp] flat_cong [OF eq lp fl] by (simp add: grp_inv_def)
qed

text \<open>Inside the current run nothing starts a run.\<close>

lemma grp_inv_not_start:
  assumes "grp_inv d J (pnum, lp)" and "lp < i" and "i \<le> J"
  shows "\<not> is_start d i"
proof -
  have fl: "flat d lp J" using assms(1) by (simp add: grp_inv_def)
  have "d i = d lp" and "d (i - 1) = d lp"
    using assms(2,3) by (auto intro: flatD [OF fl])
  then show ?thesis using assms(2) by (simp add: is_start_def)
qed

lemma GROUP_PORT_STEP_inv:
  assumes inv: "grp_inv d J (pnum, lp)"
  shows "grp_inv d (Suc J) (snd (GROUP_PORT_STEP d (Suc J) (d J, pnum, lp)))
    \<and> fst (GROUP_PORT_STEP d (Suc J) (d J, pnum, lp)) = d (Suc J)"
proof -
  have lp: "lp \<le> J" "pnum lp = J - lp + 1" and fl: "flat d lp J"
    using inv by (simp_all add: grp_inv_def)
  show ?thesis
  proof (cases "d J = d (Suc J)")
    case True
    have "d J = d lp" using fl lp by (intro flatD) auto
    with True inv show ?thesis
      by (auto simp: GROUP_PORT_STEP_def grp_inv_def flat_Suc)
  next
    case False
    have st: "is_start d (Suc J)" using False by (simp add: is_start_def)
    have "closed_run d (Suc J) ((pnum(Suc J := 1)) i) i" if i: "i < Suc J" "is_start d i" for i
    proof -
      have "\<not> lp < i" using grp_inv_not_start [OF inv, of i] i by auto
      then consider "i < lp" | "i = lp" by linarith
      then show ?thesis
      proof cases
        case 1
        then have "closed_run d lp (pnum i) i" using inv i by (simp add: grp_inv_def)
        with 1 lp show ?thesis by (auto intro: closed_run_mono)
      next
        case 2
        with lp st fl show ?thesis by (simp add: closed_run_def)
      qed
    qed
    with False st show ?thesis
      by (simp add: GROUP_PORT_STEP_def grp_inv_def)
  qed
qed

section \<open>The table is four single steps\<close>

text \<open>The mask the comparison yields for four adjacent pairs.\<close>

definition pair_mask :: "bool \<Rightarrow> bool \<Rightarrow> bool \<Rightarrow> bool \<Rightarrow> nat" where
  "pair_mask e0 e1 e2 e3 = of_bool e0 + 2 * of_bool e1 + 4 * of_bool e2 + 8 * of_bool e3"

definition step4 :: "(nat \<Rightarrow> u16) \<Rightarrow> nat \<Rightarrow> u16 \<times> grp \<Rightarrow> u16 \<times> grp" where
  "step4 d w st = GROUP_PORT_STEP d (w + 4) (GROUP_PORT_STEP d (w + 3)
     (GROUP_PORT_STEP d (w + 2) (GROUP_PORT_STEP d (w + 1) st)))"

lemma GROUP_PORT_STEP_chain:
  assumes "grp_inv d J (snd st)" and "fst st = d J" and "k = Suc J"
  shows "grp_inv d k (snd (GROUP_PORT_STEP d k st)) \<and> fst (GROUP_PORT_STEP d k st) = d k"
proof -
  obtain pnum lp where "st = (d J, pnum, lp)" using assms(2) by (cases st) auto
  then show ?thesis using assms(1,3) GROUP_PORT_STEP_inv by simp
qed

lemma step4_inv:
  assumes "grp_inv d w (pnum, lp)"
  shows "grp_inv d (w + 4) (snd (step4 d w (d w, pnum, lp)))"
proof -
  define s1 where "s1 = GROUP_PORT_STEP d (w + 1) (d w, pnum, lp)"
  define s2 where "s2 = GROUP_PORT_STEP d (w + 2) s1"
  define s3 where "s3 = GROUP_PORT_STEP d (w + 3) s2"
  have 1: "grp_inv d (w + 1) (snd s1) \<and> fst s1 = d (w + 1)"
    unfolding s1_def by (rule GROUP_PORT_STEP_chain [of d w]) (simp_all add: assms)
  have 2: "grp_inv d (w + 2) (snd s2) \<and> fst s2 = d (w + 2)"
    unfolding s2_def by (rule GROUP_PORT_STEP_chain [of d "w + 1"]) (use 1 in auto)
  have 3: "grp_inv d (w + 3) (snd s3) \<and> fst s3 = d (w + 3)"
    unfolding s3_def by (rule GROUP_PORT_STEP_chain [of d "w + 2"]) (use 2 in auto)
  have "grp_inv d (w + 4) (snd (GROUP_PORT_STEP d (w + 4) s3))"
    by (rule conjunct1, rule GROUP_PORT_STEP_chain [of d "w + 3"]) (use 3 in auto)
  then show ?thesis by (simp only: step4_def s1_def s2_def s3_def)
qed

text \<open>The step on a port value instead of an array.\<close>

definition port_step :: "u16 \<Rightarrow> nat \<Rightarrow> u16 \<times> grp \<Rightarrow> u16 \<times> grp" where
  "port_step x idx st =
     (case st of (dlp, pnum, lp) \<Rightarrow>
        if dlp = x then (dlp, pnum(lp := pnum lp + 1), lp) else (x, pnum(idx := 1), idx))"

lemma GROUP_PORT_STEP_port: "GROUP_PORT_STEP d idx st = port_step (d idx) idx st"
  by (simp add: GROUP_PORT_STEP_def port_step_def)

text \<open>The sixteen rows of the table, decoded.\<close>

lemma group_update_rows:
  "group_update w (0) (pnum, lp) = (pnum(lp := pnum lp + 0, w := 1, w + 1 := 1, w + 2 := 1, w + 3 := 1, w + 4 := 1), w + 4)"
  "group_update w (Suc 0) (pnum, lp) = (pnum(lp := pnum lp + 1, w := 2, w + 1 := 1, w + 2 := 1, w + 3 := 1, w + 4 := 1), w + 4)"
  "group_update w (2) (pnum, lp) = (pnum(lp := pnum lp + 0, w := 1, w + 1 := 2, w + 2 := 1, w + 3 := 1, w + 4 := 1), w + 4)"
  "group_update w (3) (pnum, lp) = (pnum(lp := pnum lp + 2, w := 3, w + 1 := 2, w + 2 := 1, w + 3 := 1, w + 4 := 1), w + 4)"
  "group_update w (4) (pnum, lp) = (pnum(lp := pnum lp + 0, w := 1, w + 1 := 1, w + 2 := 2, w + 3 := 1, w + 4 := 1), w + 4)"
  "group_update w (5) (pnum, lp) = (pnum(lp := pnum lp + 1, w := 2, w + 1 := 1, w + 2 := 2, w + 3 := 1, w + 4 := 1), w + 4)"
  "group_update w (6) (pnum, lp) = (pnum(lp := pnum lp + 0, w := 1, w + 1 := 3, w + 2 := 2, w + 3 := 1, w + 4 := 1), w + 4)"
  "group_update w (7) (pnum, lp) = (pnum(lp := pnum lp + 3, w := 4, w + 1 := 3, w + 2 := 2, w + 3 := 1, w + 4 := 1), w + 4)"
  "group_update w (8) (pnum, lp) = (pnum(lp := pnum lp + 0, w := 1, w + 1 := 1, w + 2 := 1, w + 3 := 2, w + 4 := 1), w + 3)"
  "group_update w (9) (pnum, lp) = (pnum(lp := pnum lp + 1, w := 2, w + 1 := 1, w + 2 := 1, w + 3 := 2, w + 4 := 1), w + 3)"
  "group_update w (10) (pnum, lp) = (pnum(lp := pnum lp + 0, w := 1, w + 1 := 2, w + 2 := 1, w + 3 := 2, w + 4 := 1), w + 3)"
  "group_update w (11) (pnum, lp) = (pnum(lp := pnum lp + 2, w := 3, w + 1 := 2, w + 2 := 1, w + 3 := 2, w + 4 := 1), w + 3)"
  "group_update w (12) (pnum, lp) = (pnum(lp := pnum lp + 0, w := 1, w + 1 := 1, w + 2 := 3, w + 3 := 2, w + 4 := 1), w + 2)"
  "group_update w (13) (pnum, lp) = (pnum(lp := pnum lp + 1, w := 2, w + 1 := 1, w + 2 := 3, w + 3 := 2, w + 4 := 1), w + 2)"
  "group_update w (14) (pnum, lp) = (pnum(lp := pnum lp + 0, w := 1, w + 1 := 4, w + 2 := 3, w + 3 := 2, w + 4 := 1), w + 1)"
  "group_update w 15 (pnum, lp) = (pnum(lp := pnum lp + 4), lp)"
  by (simp_all add: group_update_def gptbl_def u16_lane_def GRPMSK_def Let_def)

lemma pair_mask_rows:
  "pair_mask False False False False = 0"
  "pair_mask True False False False = Suc 0"
  "pair_mask False True False False = 2"
  "pair_mask True True False False = 3"
  "pair_mask False False True False = 4"
  "pair_mask True False True False = 5"
  "pair_mask False True True False = 6"
  "pair_mask True True True False = 7"
  "pair_mask False False False True = 8"
  "pair_mask True False False True = 9"
  "pair_mask False True False True = 10"
  "pair_mask True True False True = 11"
  "pair_mask False False True True = 12"
  "pair_mask True False True True = 13"
  "pair_mask False True True True = 14"
  "pair_mask True True True True = 15"
  by (simp_all add: pair_mask_def)

lemmas gptbl_eval = group_update_rows pair_mask_rows

lemma group_update_lp:
  "snd (group_update w (pair_mask (a = b) (b = c) (c = e) (e = f)) (pnum, lp))
   = snd (snd (port_step f (w + 4) (port_step e (w + 3) (port_step c (w + 2)
       (port_step b (w + 1) (a, pnum, lp))))))"
  by (cases "a = b"; cases "b = c"; cases "c = e"; cases "e = f";
      simp add: gptbl_eval port_step_def)

text \<open>The counters agree wherever a run can start: at the run open before the window if it
  started there, and at the positions of the window whose port differs from the one before.\<close>

lemma group_update_pnum:
  assumes "lp \<le> w" and "pnum lp = w - lp + 1"
    and "i = w \<Longrightarrow> lp = w" and "i = w + 1 \<Longrightarrow> a \<noteq> b" and "i = w + 2 \<Longrightarrow> b \<noteq> c"
    and "i = w + 3 \<Longrightarrow> c \<noteq> e" and "i = w + 4 \<Longrightarrow> e \<noteq> f"
    and "i \<le> snd (group_update w (pair_mask (a = b) (b = c) (c = e) (e = f)) (pnum, lp))"
  shows "fst (group_update w (pair_mask (a = b) (b = c) (c = e) (e = f)) (pnum, lp)) i
   = fst (snd (port_step f (w + 4) (port_step e (w + 3) (port_step c (w + 2)
       (port_step b (w + 1) (a, pnum, lp)))))) i"
proof -
  have ne: "lp \<noteq> w + 1" "lp \<noteq> w + 2" "lp \<noteq> w + 3" "lp \<noteq> w + 4" using assms(1) by auto
  have lo: ?thesis if "i < w"
    using that ne
    by (cases "a = b"; cases "b = c"; cases "c = e"; cases "e = f"; simp add: gptbl_eval port_step_def)
  have hi: ?thesis if "w + 4 < i"
    using that assms(1)
    by (cases "a = b"; cases "b = c"; cases "c = e"; cases "e = f"; simp add: gptbl_eval port_step_def)
  have 0: ?thesis if "i = w"
    using that assms(2,3)
    by (cases "a = b"; cases "b = c"; cases "c = e"; cases "e = f"; simp add: gptbl_eval port_step_def)
  have 1: ?thesis if "i = w + 1"
    using that ne assms(4)
    by (cases "a = b"; cases "b = c"; cases "c = e"; cases "e = f"; simp add: gptbl_eval port_step_def)
  have 2: ?thesis if "i = w + 2"
    using that ne assms(5)
    by (cases "a = b"; cases "b = c"; cases "c = e"; cases "e = f"; simp add: gptbl_eval port_step_def)
  have 3: ?thesis if "i = w + 3"
    using that ne assms(6,8)
    by (cases "a = b"; cases "b = c"; cases "c = e"; cases "e = f"; simp add: gptbl_eval port_step_def)
  have 4: ?thesis if "i = w + 4"
    using that ne assms(7,8)
    by (cases "a = b"; cases "b = c"; cases "c = e"; cases "e = f"; simp add: gptbl_eval port_step_def)
  have "i < w \<or> i = w \<or> i = w + 1 \<or> i = w + 2 \<or> i = w + 3 \<or> i = w + 4 \<or> w + 4 < i" by arith
  then show ?thesis using lo hi 0 1 2 3 4 by blast
qed

lemma group_update_step4:
  assumes inv: "grp_inv d w (pnum, lp)"
    and v: "v = pair_mask (d w = d (w + 1)) (d (w + 1) = d (w + 2))
       (d (w + 2) = d (w + 3)) (d (w + 3) = d (w + 4))"
  shows "snd (group_update w v (pnum, lp)) = snd (snd (step4 d w (d w, pnum, lp)))"
    and "i \<le> snd (group_update w v (pnum, lp)) \<Longrightarrow> is_start d i \<Longrightarrow>
      fst (group_update w v (pnum, lp)) i = fst (snd (step4 d w (d w, pnum, lp))) i"
proof -
  have lp: "lp \<le> w" "pnum lp = w - lp + 1"
    using inv by (simp_all add: grp_inv_def)
  show "snd (group_update w v (pnum, lp)) = snd (snd (step4 d w (d w, pnum, lp)))"
    unfolding v step4_def GROUP_PORT_STEP_port by (rule group_update_lp)
  assume i: "i \<le> snd (group_update w v (pnum, lp))" "is_start d i"
  have "lp = w" if "i = w"
    using grp_inv_not_start [OF inv, of w] lp(1) that i(2) by (cases "lp = w") auto
  moreover have "d k \<noteq> d (Suc k)" if "i = Suc k" for k
    using i(2) that by (auto simp: is_start_def)
  then have "i = w + 1 \<Longrightarrow> d w \<noteq> d (w + 1)" "i = w + 2 \<Longrightarrow> d (w + 1) \<noteq> d (w + 2)"
    "i = w + 3 \<Longrightarrow> d (w + 2) \<noteq> d (w + 3)" "i = w + 4 \<Longrightarrow> d (w + 3) \<noteq> d (w + 4)"
    by (simp_all add: eval_nat_numeral)
  ultimately show "fst (group_update w v (pnum, lp)) i = fst (snd (step4 d w (d w, pnum, lp))) i"
    using i(1) unfolding v step4_def GROUP_PORT_STEP_port
    by (intro group_update_pnum lp)
qed

lemma group_update_inv:
  assumes inv: "grp_inv d w (pnum, lp)"
    and v: "v = pair_mask (d w = d (w + 1)) (d (w + 1) = d (w + 2))
       (d (w + 2) = d (w + 3)) (d (w + 3) = d (w + 4))"
  shows "grp_inv d (w + 4) (group_update w v (pnum, lp))"
proof -
  obtain pn' lp' where g: "group_update w v (pnum, lp) = (pn', lp')"
    by (cases "group_update w v (pnum, lp)")
  obtain dl pn'' lp'' where t: "step4 d w (d w, pnum, lp) = (dl, pn'', lp'')"
    by (cases "step4 d w (d w, pnum, lp)")
  have "lp' = lp''" using group_update_step4(1) [OF inv v] g t by simp
  moreover have "pn' i = pn'' i" if "i \<le> lp'" "is_start d i" for i
    using group_update_step4(2) [OF inv v, of i] that g t by simp
  moreover have "grp_inv d (w + 4) (pn'', lp'')"
    using step4_inv [OF inv] t by simp
  ultimately show ?thesis unfolding g by (auto intro: grp_inv_cong)
qed

section \<open>The comparison unit as an interface\<close>

text \<open>All \<open>port_groupx4\<close> needs of a vector unit: the mask of the four low lane comparisons.\<close>

locale cmp4_unit =
  fixes cmp4 :: "u16 list \<Rightarrow> u16 list \<Rightarrow> nat"
  assumes cmp4_mask: "length a = 8 \<Longrightarrow> length b = 8 \<Longrightarrow>
    cmp4 a b = pair_mask (a ! 0 = b ! 0) (a ! 1 = b ! 1) (a ! 2 = b ! 2) (a ! 3 = b ! 3)"
begin

lemma groupx4_inv:
  assumes "grp_inv d w st" and "length dp1 = 8" and "length dp2 = 8"
    and dp1: "dp1 ! 0 = d w" "dp1 ! 1 = d (w + 1)" "dp1 ! 2 = d (w + 2)" "dp1 ! 3 = d (w + 3)"
    and dp2: "dp2 ! 0 = d (w + 1)" "dp2 ! 1 = d (w + 2)" "dp2 ! 2 = d (w + 3)" "dp2 ! 3 = d (w + 4)"
  shows "grp_inv d (w + 4) (group_update w (cmp4 dp1 dp2) st)"
proof -
  have "cmp4 dp1 dp2 = pair_mask (d w = d (w + 1)) (d (w + 1) = d (w + 2))
      (d (w + 2) = d (w + 3)) (d (w + 3) = d (w + 4))"
    by (simp only: cmp4_mask [OF assms(2,3)] dp1 dp2)
  then show ?thesis using assms(1) group_update_inv by (cases st) simp
qed

end

lemma sum_lessThan_4: "(\<Sum>i<(4::nat). f i) = f 0 + f 1 + f 2 + (f 3 :: 'a::comm_monoid_add)"
proof -
  have "{..<4} = {0, 1, 2, 3 :: nat}" by auto
  then show ?thesis by (simp add: add.assoc)
qed

lemma upt_16: "{..<16} = {0, 1, 2, 3, 4, 5, 6, 7, 8, 9, 10, 11, 12, 13, 14, 15 :: nat}"
  by (simp add: set_eq_iff less_Suc_eq eval_nat_numeral)

text \<open>A lane of a comparison is all ones or zero.\<close>

definition lane_of :: "bool \<Rightarrow> u16" where
  "lane_of c = (if c then 0xffff else 0)"

lemma bit_lane_of: "n < 16 \<Longrightarrow> bit (lane_of c) n \<longleftrightarrow> c"
proof -
  have e: "(0xffff :: u16) = mask 16" by (simp add: mask_eq_decr_exp)
  show "n < 16 \<Longrightarrow> ?thesis" unfolding lane_of_def e by (cases c) (simp_all add: bit_mask_iff)
qed

lemma lane_of_and: "lane_of c AND x = (if c then x else 0)"
proof -
  have e: "(0xffff :: u16) = -1" by simp
  show ?thesis unfolding lane_of_def e by simp
qed

lemma cmpeq_lanes:
  "cmpeq_epi16 a b = [lane_of (a ! 0 = b ! 0), lane_of (a ! 1 = b ! 1), lane_of (a ! 2 = b ! 2),
     lane_of (a ! 3 = b ! 3), lane_of (a ! 4 = b ! 4), lane_of (a ! 5 = b ! 5),
     lane_of (a ! 6 = b ! 6), lane_of (a ! 7 = b ! 7)]"
  unfolding cmpeq_epi16_def upt_8 by (simp add: lane_of_def)

lemma pair_mask_sum:
  "pair_mask a b c e = (if a then 1 else 0) + (if b then 2 else 0) + (if c then 4 else 0)
     + (if e then 8 else 0)"
  by (simp add: pair_mask_def)

interpretation sse: cmp4_unit cmp4_sse
proof
  fix a b :: "u16 list"
  have "movemask_ps [p, p, q, q, r, r, s, s] = pair_mask (bit p 15) (bit q 15) (bit r 15) (bit s 15)"
    for p q r s
    by (simp add: movemask_ps_def sum_lessThan_4 pair_mask_sum)
  then show "cmp4_sse a b = pair_mask (a ! 0 = b ! 0) (a ! 1 = b ! 1) (a ! 2 = b ! 2) (a ! 3 = b ! 3)"
    by (simp add: cmp4_sse_def Let_def unpacklo_epi16_def cmpeq_lanes bit_lane_of)
qed

interpretation neon: cmp4_unit cmp4_neon
proof
  fix a b :: "u16 list"
  have "vandq_u16 (cmpeq_epi16 a b) [1, 2, 4, 8, 0, 0, 0, 0]
      = [if a ! 0 = b ! 0 then 1 else 0, if a ! 1 = b ! 1 then 2 else 0,
         if a ! 2 = b ! 2 then 4 else 0, if a ! 3 = b ! 3 then 8 else 0, 0, 0, 0, 0]"
    unfolding vandq_u16_def upt_8 cmpeq_lanes by (simp add: lane_of_and)
  then show "cmp4_neon a b = pair_mask (a ! 0 = b ! 0) (a ! 1 = b ! 1) (a ! 2 = b ! 2) (a ! 3 = b ! 3)"
    by (simp add: cmp4_neon_def vaddvq_u16_def pair_mask_sum)
qed

lemma be_bit_lane: "n < 128 \<Longrightarrow> be_bit a n = bit (a ! ((127 - n) div 16)) ((127 - n) mod 16)"
  by (simp add: be_bit_def)

interpretation altivec: cmp4_unit cmp4_altivec
proof
  fix a b :: "u16 list"
  have none: "\<not> be_bit y 128" for y by (simp add: be_bit_def)
  have "vec_vbpermq y perm_mask
      = pair_mask (be_bit y 0x60) (be_bit y 0x40) (be_bit y 0x20) (be_bit y 0)" for y
  proof -
    have f: "{..<16} = {..<12} \<union> {12, 13, 14, 15 :: nat}" by auto
    let ?g = "\<lambda>i. if be_bit y (perm_mask ! i) then 2 ^ (15 - i) else (0::nat)"
    have "vec_vbpermq y perm_mask = sum ?g {..<12} + sum ?g {12, 13, 14, 15}"
      unfolding vec_vbpermq_def f by (rule sum.union_disjoint) auto
    moreover have "sum ?g {..<12} = 0"
      by (rule sum.neutral) (simp add: perm_mask_def nth_append none)
    ultimately show ?thesis
      by (simp add: perm_mask_def nth_append pair_mask_sum)
  qed
  then show "cmp4_altivec a b = pair_mask (a ! 0 = b ! 0) (a ! 1 = b ! 1) (a ! 2 = b ! 2) (a ! 3 = b ! 3)"
    by (simp add: cmp4_altivec_def Let_def vec_mergeh_def cmpeq_lanes be_bit_lane bit_lane_of)
qed

section \<open>From the invariant to the runs\<close>

text \<open>What the send loop relies on: walking from 0 in steps of \<open>pnum\<close> visits the runs.\<close>

lemma closed_run_len:
  assumes "closed_run d lp k i" and "lp < n"
  shows "run_len d n i = k"
proof (rule run_len_eq)
  show "0 < k" "i + k \<le> n" and f: "flat d i (i + k - 1)"
    using assms by (auto simp: closed_run_def)
  have "d (i + k) \<noteq> d (i + k - 1)"
    using assms by (auto simp: closed_run_def is_start_def)
  moreover have "d (i + k - 1) = d i"
    using \<open>0 < k\<close> by (intro flatD [OF f]) auto
  ultimately show "i + k = n \<or> d (i + k) \<noteq> d i" by simp
qed

lemma grp_inv_run_len:
  assumes "grp_inv d J (pnum, lp)" and "n = Suc J" and "i < n" and "is_start d i"
  shows "pnum i = run_len d n i" and "i + pnum i < n \<Longrightarrow> is_start d (i + pnum i)"
proof -
  have lp: "lp \<le> J" "pnum lp = J - lp + 1" and fl: "flat d lp J"
    using assms(1) by (simp_all add: grp_inv_def)
  have i: "i \<le> lp"
    using grp_inv_not_start [OF assms(1), of i] assms(2-4) by (cases "lp < i") auto
  show "pnum i = run_len d n i"
  proof (cases "i = lp")
    case True
    have "run_len d n lp = Suc J - lp"
      using lp assms(2) fl by (intro run_len_eq) auto
    with True lp show ?thesis by simp
  next
    case False
    with i assms(1,4) have "closed_run d lp (pnum i) i" by (simp add: grp_inv_def)
    with lp assms(2) show ?thesis by (simp add: closed_run_len)
  qed
  show "is_start d (i + pnum i)" if "i + pnum i < n"
  proof (cases "i = lp")
    case True
    with that lp assms(2) show ?thesis by simp
  next
    case False
    with i assms(1,4) show ?thesis by (simp add: grp_inv_def closed_run_def)
  qed
qed

section \<open>\<open>process_dst_port\<close>\<close>

definition load8 :: "(nat \<Rightarrow> u16) \<Rightarrow> nat \<Rightarrow> u16 list" where
  "load8 d o' = map (\<lambda>k. d (o' + k)) [0..<8]"

definition set1_epi16 :: "u16 \<Rightarrow> u16 list" where
  "set1_epi16 x = replicate 8 x"

text \<open>\<open>_mm_movemask_epi8\<close>: one bit per byte, its most significant bit.\<close>

definition movemask_epi8 :: "u16 list \<Rightarrow> nat" where
  "movemask_epi8 a = (\<Sum>i<16. if bit (a ! (i div 2)) (8 * (i mod 2) + 7) then 2 ^ i else 0)"

fun dst_port_x8 :: "(nat \<Rightarrow> u16) \<Rightarrow> nat \<Rightarrow> nat \<Rightarrow> (nat \<times> nat) option" where
  "dst_port_x8 d nb i =
     (if 7 < nb then
        if movemask_epi8 (cmpeq_epi16 (load8 d i) (set1_epi16 (d 0))) \<noteq> 0xffff then None
        else dst_port_x8 d (nb - 8) (i + 8)
      else Some (nb, i))"

fun dst_port_x4 :: "(nat \<Rightarrow> u16) \<Rightarrow> nat \<Rightarrow> nat \<Rightarrow> (nat \<times> nat) option" where
  "dst_port_x4 d nb i =
     (if 3 < nb then
        if cmp4_sse (load8 d i) (set1_epi16 (d 0)) \<noteq> 0xf then None
        else dst_port_x4 d (nb - 4) (i + 4)
      else Some (nb, i))"

fun dst_port_x1 :: "(nat \<Rightarrow> u16) \<Rightarrow> nat \<Rightarrow> nat \<Rightarrow> bool" where
  "dst_port_x1 d 0 i = True"
| "dst_port_x1 d (Suc nb) i = (d i = d 0 \<and> dst_port_x1 d nb (i + 1))"

definition process_dst_port :: "(nat \<Rightarrow> u16) \<Rightarrow> nat \<Rightarrow> u16" where
  "process_dst_port d nb_elem =
     (case dst_port_x8 d nb_elem 0 of None \<Rightarrow> BAD_PORT
      | Some (nb, i) \<Rightarrow>
          (case dst_port_x4 d nb i of None \<Rightarrow> BAD_PORT
           | Some (nb', i') \<Rightarrow> if dst_port_x1 d nb' i' then d 0 else BAD_PORT))"

declare dst_port_x8.simps [simp del] dst_port_x4.simps [simp del]

definition all_eq :: "(nat \<Rightarrow> u16) \<Rightarrow> nat \<Rightarrow> nat \<Rightarrow> bool" where
  "all_eq d a b \<longleftrightarrow> (\<forall>k. a \<le> k \<and> k < b \<longrightarrow> d k = d 0)"

lemma all_eq_split: "a \<le> b \<Longrightarrow> b \<le> c \<Longrightarrow> all_eq d a c \<longleftrightarrow> all_eq d a b \<and> all_eq d b c"
  unfolding all_eq_def by (meson le_trans less_le_trans not_le)

lemma load8_len [simp]: "length (load8 d i) = 8"
  by (simp add: load8_def)

lemma less_8: "k < 8 \<longleftrightarrow> k \<in> {0, 1, 2, 3, 4, 5, 6, 7 :: nat}"
  by auto

lemma less_4: "k < 4 \<longleftrightarrow> k \<in> {0, 1, 2, 3 :: nat}"
  by auto

lemma all_eq_plus: "all_eq d a (a + n) \<longleftrightarrow> (\<forall>k<n. d (a + k) = d 0)"
  unfolding all_eq_def by (metis le_add1 le_add_diff_inverse nat_add_left_cancel_less)

lemma movemask_epi8_lanes:
  "movemask_epi8 [lane_of p0, lane_of p1, lane_of p2, lane_of p3, lane_of p4, lane_of p5,
     lane_of p6, lane_of p7] = 3 * of_bool p0 + 12 * of_bool p1 + 48 * of_bool p2
       + 192 * of_bool p3 + 768 * of_bool p4 + 3072 * of_bool p5 + 12288 * of_bool p6
       + 49152 * of_bool p7"
  unfolding movemask_epi8_def upt_16 by (simp add: bit_lane_of)

lemma of_bool_le_1: "of_bool P \<le> (1 :: nat)"
  by simp

lemma mask_all_8:
  "3 * of_bool p0 + 12 * of_bool p1 + 48 * of_bool p2
       + 192 * of_bool p3 + 768 * of_bool p4 + 3072 * of_bool p5 + 12288 * of_bool p6
       + 49152 * of_bool p7 = (65535 :: nat) \<longleftrightarrow> p0 \<and> p1 \<and> p2 \<and> p3 \<and> p4 \<and> p5 \<and> p6 \<and> p7"
  by (cases p0; cases p1; cases p2; cases p3; cases p4; cases p5; cases p6; cases p7; simp)

lemma all_less_8: "(\<forall>k<8. P k) \<longleftrightarrow> P 0 \<and> P 1 \<and> P 2 \<and> P 3 \<and> P 4 \<and> P 5 \<and> P 6 \<and> P (7 :: nat)"
  by (auto simp only: less_8 insert_iff empty_iff)

lemma mask_x8: "movemask_epi8 (cmpeq_epi16 (load8 d i) (set1_epi16 (d 0))) = 0xffff
    \<longleftrightarrow> all_eq d i (i + 8)"
  unfolding cmpeq_lanes movemask_epi8_lanes all_eq_plus all_less_8
  by (simp add: mask_all_8 load8_def set1_epi16_def)

lemma mask_x4: "cmp4_sse (load8 d i) (set1_epi16 (d 0)) = 0xf \<longleftrightarrow> all_eq d i (i + 4)"
proof -
  have "cmp4_sse (load8 d i) (set1_epi16 (d 0))
      = pair_mask (d i = d 0) (d (i + 1) = d 0) (d (i + 2) = d 0) (d (i + 3) = d 0)"
    by (subst sse.cmp4_mask) (simp_all add: load8_def set1_epi16_def)
  then show ?thesis
    unfolding all_eq_plus less_4 by (auto simp: pair_mask_def of_bool_def split: if_splits)
qed

lemma all_eq_head: "\<not> all_eq d i (i + a) \<Longrightarrow> a \<le> n \<Longrightarrow> \<not> all_eq d i (i + n)"
  using all_eq_split [of i "i + a" "i + n" d] by simp

lemma all_eq_empty [simp]: "all_eq d i i"
  unfolding all_eq_def by (meson not_le)

text \<open>Both vector loops have the same shape: blocks of \<open>B\<close> until one differs or too few are left.\<close>

definition blocks_ok :: "(nat \<Rightarrow> u16) \<Rightarrow> nat \<Rightarrow> nat \<Rightarrow> (nat \<times> nat) option \<Rightarrow> bool" where
  "blocks_ok d nb i r = (case r of None \<Rightarrow> \<not> all_eq d i (i + nb)
     | Some (nb', i') \<Rightarrow> all_eq d i i' \<and> i \<le> i' \<and> i' + nb' = i + nb)"

lemma blocks_ok_stop: "blocks_ok d nb i (Some (nb, i))"
  by (simp add: blocks_ok_def)

lemma blocks_ok_bad: "\<not> all_eq d i (i + B) \<Longrightarrow> B \<le> nb \<Longrightarrow> blocks_ok d nb i None"
  by (simp add: blocks_ok_def all_eq_head)

lemma blocks_ok_next:
  assumes "all_eq d i (i + B)" and "B \<le> nb" and "blocks_ok d (nb - B) (i + B) r"
  shows "blocks_ok d nb i r"
proof (cases r)
  case None
  then have "\<not> all_eq d (i + B) (i + nb)"
    using assms(2,3) by (simp add: blocks_ok_def)
  then show ?thesis
    using None all_eq_split [of i "i + B" "i + nb" d] assms(2) by (simp add: blocks_ok_def)
next
  case (Some p)
  obtain nb' i' where p: "p = (nb', i')" by (cases p)
  have "all_eq d (i + B) i'" "i + B \<le> i'" "i' + nb' = i + nb"
    using assms(2,3) Some p by (simp_all add: blocks_ok_def)
  then show ?thesis
    using Some p all_eq_split [of i "i + B" i' d] assms(1) by (simp add: blocks_ok_def)
qed

lemma dst_port_x8_step:
  "dst_port_x8 d nb i =
     (if 7 < nb then if all_eq d i (i + 8) then dst_port_x8 d (nb - 8) (i + 8) else None
      else Some (nb, i))"
  by (subst dst_port_x8.simps) (auto simp only: mask_x8 if_True if_False not_True_eq_False
    not_False_eq_True split: if_splits)

lemma dst_port_x8_spec: "blocks_ok d nb i (dst_port_x8 d nb i)"
proof (induction nb arbitrary: i rule: less_induct)
  case (less nb)
  consider "nb \<le> 7" | "7 < nb" "all_eq d i (i + 8)" | "7 < nb" "\<not> all_eq d i (i + 8)" by linarith
  then show ?case
  proof cases
    case 1
    then have "dst_port_x8 d nb i = Some (nb, i)" by (subst dst_port_x8_step) (simp only: not_less [symmetric] if_False)
    then show ?thesis by (simp only: blocks_ok_stop)
  next
    case 2
    then have e: "dst_port_x8 d nb i = dst_port_x8 d (nb - 8) (i + 8)"
      by (subst dst_port_x8_step) (simp only: if_True)
    show ?thesis unfolding e
      by (rule blocks_ok_next [OF 2(2)]) (use 2(1) less.IH [of "nb - 8" "i + 8"] in auto)
  next
    case 3
    then have e: "dst_port_x8 d nb i = None"
      by (subst dst_port_x8_step) (simp only: if_True if_False)
    show ?thesis unfolding e
      by (rule blocks_ok_bad [OF 3(2)]) (use 3(1) in simp)
  qed
qed

lemma dst_port_x4_step:
  "dst_port_x4 d nb i =
     (if 3 < nb then if all_eq d i (i + 4) then dst_port_x4 d (nb - 4) (i + 4) else None
      else Some (nb, i))"
  by (subst dst_port_x4.simps) (auto simp only: mask_x4 if_True if_False not_True_eq_False
    not_False_eq_True split: if_splits)

lemma dst_port_x4_spec: "blocks_ok d nb i (dst_port_x4 d nb i)"
proof (induction nb arbitrary: i rule: less_induct)
  case (less nb)
  consider "nb \<le> 3" | "3 < nb" "all_eq d i (i + 4)" | "3 < nb" "\<not> all_eq d i (i + 4)" by linarith
  then show ?case
  proof cases
    case 1
    then have "dst_port_x4 d nb i = Some (nb, i)" by (subst dst_port_x4_step) (simp only: not_less [symmetric] if_False)
    then show ?thesis by (simp only: blocks_ok_stop)
  next
    case 2
    then have e: "dst_port_x4 d nb i = dst_port_x4 d (nb - 4) (i + 4)"
      by (subst dst_port_x4_step) (simp only: if_True)
    show ?thesis unfolding e
      by (rule blocks_ok_next [OF 2(2)]) (use 2(1) less.IH [of "nb - 4" "i + 4"] in auto)
  next
    case 3
    then have e: "dst_port_x4 d nb i = None"
      by (subst dst_port_x4_step) (simp only: if_True if_False)
    show ?thesis unfolding e
      by (rule blocks_ok_bad [OF 3(2)]) (use 3(1) in simp)
  qed
qed

lemma dst_port_x1_spec: "dst_port_x1 d nb i \<longleftrightarrow> all_eq d i (i + nb)"
proof (induction nb arbitrary: i)
  case (Suc nb)
  have "all_eq d i (i + Suc nb) \<longleftrightarrow> all_eq d i (i + 1) \<and> all_eq d (i + 1) (i + 1 + nb)"
    using all_eq_split [of i "i + 1" "i + Suc nb" d] by simp
  moreover have "all_eq d i (i + 1) \<longleftrightarrow> d i = d 0"
    using all_eq_plus [of d i 1] by simp
  ultimately show ?case using Suc.IH [of "i + 1"] by simp
qed simp

lemma process_dst_port_all_eq:
  "process_dst_port d n = (if all_eq d 0 n then d 0 else BAD_PORT)"
proof (cases "dst_port_x8 d n 0")
  case None
  then show ?thesis
    using dst_port_x8_spec [of d n 0] by (simp add: process_dst_port_def blocks_ok_def)
next
  case (Some p)
  obtain nb i where p: "p = (nb, i)" by (cases p)
  have 8: "all_eq d 0 i" "i + nb = n"
    using dst_port_x8_spec [of d n 0] Some p by (simp_all add: blocks_ok_def)
  have split: "all_eq d 0 n \<longleftrightarrow> all_eq d i (i + nb)"
    using 8 all_eq_split [of 0 i n d] by simp
  show ?thesis
  proof (cases "dst_port_x4 d nb i")
    case None
    then show ?thesis
      using Some p dst_port_x4_spec [of d nb i] split by (simp add: process_dst_port_def blocks_ok_def)
  next
    case (Some q)
    obtain nb' i' where q: "q = (nb', i')" by (cases q)
    have 4: "all_eq d i i'" "i \<le> i'" "i' + nb' = i + nb"
      using dst_port_x4_spec [of d nb i] Some q by (simp_all add: blocks_ok_def)
    then have "all_eq d i (i + nb) \<longleftrightarrow> all_eq d i' (i' + nb')"
      using all_eq_split [of i i' "i + nb" d] by simp
    then show ?thesis
      using Some q \<open>dst_port_x8 d n 0 = Some p\<close> p split
      by (simp add: process_dst_port_def dst_port_x1_spec)
  qed
qed

section \<open>\<open>process_dst_port\<close> on NEON and AltiVec\<close>

text \<open>\<open>vshrn_n_u16(x, 4)\<close> keeps bits 4 to 11 of each lane; the 64-bit scalar is the lanes read
  little-endian.\<close>

definition vceq_u16 :: "nat \<Rightarrow> u16 list \<Rightarrow> u16 list \<Rightarrow> u16 list" where
  "vceq_u16 n a b = map (\<lambda>i. if a ! i = b ! i then 0xffff else 0) [0..<n]"

definition vshrn_n_u16 :: "u16 list \<Rightarrow> nat \<Rightarrow> u8 list" where
  "vshrn_n_u16 a n = map (\<lambda>x. ucast (drop_bit n x)) a"

definition u64_of :: "nat \<Rightarrow> nat list \<Rightarrow> nat" where
  "u64_of base xs = foldr (\<lambda>x acc. x + base * acc) xs 0"

fun neon_x8 :: "(nat \<Rightarrow> u16) \<Rightarrow> nat \<Rightarrow> nat \<Rightarrow> (nat \<times> nat) option" where
  "neon_x8 d nb i =
     (if 7 < nb then
        let dp1 = vceq_u16 8 (load8 d i) (set1_epi16 (d 0));
            res = u64_of 256 (map unat (vshrn_n_u16 dp1 4))
        in if res \<noteq> 2 ^ 64 - 1 then None else neon_x8 d (nb - 8) (i + 8)
      else Some (nb, i))"

fun neon_x4 :: "(nat \<Rightarrow> u16) \<Rightarrow> nat \<Rightarrow> nat \<Rightarrow> (nat \<times> nat) option" where
  "neon_x4 d nb i =
     (if 3 < nb then
        let dp1 = vceq_u16 4 (load8 d i) (set1_epi16 (d 0));
            res = u64_of 65536 (map unat dp1)
        in if res \<noteq> 2 ^ 64 - 1 then None else neon_x4 d (nb - 4) (i + 4)
      else Some (nb, i))"

definition process_dst_port_neon :: "(nat \<Rightarrow> u16) \<Rightarrow> nat \<Rightarrow> u16" where
  "process_dst_port_neon d nb_elem =
     (case neon_x8 d nb_elem 0 of None \<Rightarrow> BAD_PORT
      | Some (nb, i) \<Rightarrow>
          (case neon_x4 d nb i of None \<Rightarrow> BAD_PORT
           | Some (nb', i') \<Rightarrow> if dst_port_x1 d nb' i' then d 0 else BAD_PORT))"

definition vec_all_eq :: "u16 list \<Rightarrow> u16 list \<Rightarrow> bool" where
  "vec_all_eq a b \<longleftrightarrow> (\<forall>i\<in>{..<8}. a ! i = b ! i)"

fun altivec_x8 :: "(nat \<Rightarrow> u16) \<Rightarrow> nat \<Rightarrow> nat \<Rightarrow> (nat \<times> nat) option" where
  "altivec_x8 d nb i =
     (if 7 < nb then
        if \<not> vec_all_eq (load8 d i) (set1_epi16 (d 0)) then None
        else altivec_x8 d (nb - 8) (i + 8)
      else Some (nb, i))"

definition process_dst_port_altivec :: "(nat \<Rightarrow> u16) \<Rightarrow> nat \<Rightarrow> u16" where
  "process_dst_port_altivec d nb_elem =
     (case altivec_x8 d nb_elem 0 of None \<Rightarrow> BAD_PORT
      | Some (nb, i) \<Rightarrow> if dst_port_x1 d nb i then d 0 else BAD_PORT)"

declare neon_x8.simps [simp del] neon_x4.simps [simp del] altivec_x8.simps [simp del]

lemma all_less_4: "(\<forall>k<4. P k) \<longleftrightarrow> P 0 \<and> P 1 \<and> P 2 \<and> P (3 :: nat)"
  by (auto simp only: less_4 insert_iff empty_iff)

lemma u64_all_8:
  "u64_of 256 [255 * of_bool a, 255 * of_bool b, 255 * of_bool c, 255 * of_bool e,
     255 * of_bool f, 255 * of_bool g, 255 * of_bool h, 255 * of_bool i] = 2 ^ 64 - 1
   \<longleftrightarrow> a \<and> b \<and> c \<and> e \<and> f \<and> g \<and> h \<and> i"
  by (cases a; cases b; cases c; cases e; cases f; cases g; cases h; cases i; simp add: u64_of_def)

lemma neon_x8_step:
  "neon_x8 d nb i =
     (if 7 < nb then if all_eq d i (i + 8) then neon_x8 d (nb - 8) (i + 8) else None
      else Some (nb, i))"
proof -
  have u: "unat (ucast (drop_bit 4 (lane_of c)) :: u8) = 255 * of_bool c" for c
    by (simp add: lane_of_def)
  have l: "(if c then 0xffff else (0 :: u16)) = lane_of c" for c
    by (simp add: lane_of_def)
  have "u64_of 256 (map unat (vshrn_n_u16 (vceq_u16 8 (load8 d i) (set1_epi16 (d 0))) 4)) = 2 ^ 64 - 1
      \<longleftrightarrow> all_eq d i (i + 8)"
    unfolding vshrn_n_u16_def vceq_u16_def l upt_8 list.map u u64_all_8 all_eq_plus all_less_8
    by (simp add: load8_def set1_epi16_def)
  then show ?thesis
    by (subst neon_x8.simps) (auto simp only: Let_def if_True if_False not_True_eq_False
      not_False_eq_True split: if_splits)
qed

lemma u64_all_4:
  "u64_of 65536 [65535 * of_bool a, 65535 * of_bool b, 65535 * of_bool c, 65535 * of_bool e]
     = 2 ^ 64 - 1 \<longleftrightarrow> a \<and> b \<and> c \<and> e"
  by (cases a; cases b; cases c; cases e; simp add: u64_of_def)

lemma neon_x4_step:
  "neon_x4 d nb i =
     (if 3 < nb then if all_eq d i (i + 4) then neon_x4 d (nb - 4) (i + 4) else None
      else Some (nb, i))"
proof -
  have u: "unat (lane_of c) = 65535 * of_bool c" for c
    by (simp add: lane_of_def)
  have l: "(if c then 0xffff else (0 :: u16)) = lane_of c" for c
    by (simp add: lane_of_def)
  have "u64_of 65536 (map unat (vceq_u16 4 (load8 d i) (set1_epi16 (d 0)))) = 2 ^ 64 - 1
      \<longleftrightarrow> all_eq d i (i + 4)"
    unfolding vceq_u16_def l upt_4 list.map u u64_all_4 all_eq_plus all_less_4
    by (simp add: load8_def set1_epi16_def)
  then show ?thesis
    by (subst neon_x4.simps) (auto simp only: Let_def if_True if_False not_True_eq_False
      not_False_eq_True split: if_splits)
qed

lemma altivec_x8_step:
  "altivec_x8 d nb i =
     (if 7 < nb then if all_eq d i (i + 8) then altivec_x8 d (nb - 8) (i + 8) else None
      else Some (nb, i))"
proof -
  have "vec_all_eq (load8 d i) (set1_epi16 (d 0)) \<longleftrightarrow> all_eq d i (i + 8)"
    unfolding vec_all_eq_def all_eq_plus by (auto simp: load8_def set1_epi16_def)
  then show ?thesis
    by (subst altivec_x8.simps) (auto simp only: if_True if_False not_True_eq_False
      not_False_eq_True split: if_splits)
qed

text \<open>Loops with the same step are the same function.\<close>

lemma x8_unique:
  assumes "\<And>nb i. f nb i = (if 7 < nb then if all_eq d i (i + 8) then f (nb - 8) (i + 8) else None
      else Some (nb, i))"
  shows "f nb i = dst_port_x8 d nb i"
proof (induction nb arbitrary: i rule: less_induct)
  case (less nb)
  show ?case
    by (subst assms, subst dst_port_x8_step) (use less.IH [of "nb - 8"] in auto)
qed

lemma x4_unique:
  assumes "\<And>nb i. f nb i = (if 3 < nb then if all_eq d i (i + 4) then f (nb - 4) (i + 4) else None
      else Some (nb, i))"
  shows "f nb i = dst_port_x4 d nb i"
proof (induction nb arbitrary: i rule: less_induct)
  case (less nb)
  show ?case
    by (subst assms, subst dst_port_x4_step) (use less.IH [of "nb - 4"] in auto)
qed

lemma process_dst_port_neon_eq: "process_dst_port_neon d n = process_dst_port d n"
  unfolding process_dst_port_neon_def process_dst_port_def
  by (simp only: x8_unique [of "neon_x8 d", OF neon_x8_step] x4_unique [of "neon_x4 d", OF neon_x4_step])

lemma process_dst_port_altivec_all_eq:
  "process_dst_port_altivec d n = (if all_eq d 0 n then d 0 else BAD_PORT)"
proof (cases "dst_port_x8 d n 0")
  case None
  then show ?thesis
    using dst_port_x8_spec [of d n 0]
    by (simp add: process_dst_port_altivec_def x8_unique [of "altivec_x8 d", OF altivec_x8_step] blocks_ok_def)
next
  case (Some p)
  obtain nb i where p: "p = (nb, i)" by (cases p)
  have "all_eq d 0 i" "i + nb = n"
    using dst_port_x8_spec [of d n 0] Some p by (simp_all add: blocks_ok_def)
  then have "all_eq d 0 n \<longleftrightarrow> all_eq d i (i + nb)"
    using all_eq_split [of 0 i n d] by simp
  then show ?thesis
    using Some p
    by (simp add: process_dst_port_altivec_def x8_unique [of "altivec_x8 d", OF altivec_x8_step]
        dst_port_x1_spec)
qed

section \<open>Properties\<close>

text \<open>The three vector versions of \<open>port_groupx4\<close> (SSE, NEON, AltiVec) do the same to the
  counters and to \<open>lp\<close>, on every pair of eight-lane port vectors.\<close>

lemma port_groupx4_units_agree:
  assumes "length dp1 = 8" and "length dp2 = 8"
  shows "port_groupx4_neon pn st dp1 dp2 = port_groupx4 pn st dp1 dp2
    \<and> port_groupx4_altivec pn st dp1 dp2 = port_groupx4 pn st dp1 dp2"
  by (simp add: port_groupx4_def port_groupx4_neon_def port_groupx4_altivec_def
      sse.cmp4_mask [OF assms] neon.cmp4_mask [OF assms] altivec.cmp4_mask [OF assms])

text \<open>C6. One call of \<open>port_groupx4\<close> on the windows at \<open>w\<close> and \<open>w + 1\<close> has the meaning of four
  \<open>GROUP_PORT_STEP\<close>s: it carries the counter invariant from position \<open>w\<close> to \<open>w + 4\<close>, with the
  same \<open>lp\<close>, although it looks the counters up in a table of sixteen entries.\<close>

theorem port_groupx4_four_steps:
  assumes "grp_inv d w (pnum, lp)"
  shows "grp_inv d (w + 4) (port_groupx4 w (pnum, lp) (load8 d w) (load8 d (w + 1)))
    \<and> grp_inv d (w + 4) (snd (step4 d w (d w, pnum, lp)))
    \<and> snd (port_groupx4 w (pnum, lp) (load8 d w) (load8 d (w + 1)))
        = snd (snd (step4 d w (d w, pnum, lp)))"
proof -
  have l: "load8 d k ! i = d (k + i)" if "i < 8" for k i
    using that by (simp add: load8_def)
  have c: "cmp4_sse (load8 d w) (load8 d (w + 1)) = pair_mask (d w = d (w + 1))
      (d (w + 1) = d (w + 2)) (d (w + 2) = d (w + 3)) (d (w + 3) = d (w + 4))"
    by (subst sse.cmp4_mask) (simp_all add: l eval_nat_numeral)
  show ?thesis
    unfolding port_groupx4_def
    using group_update_inv [OF assms c] group_update_step4(1) [OF assms c] step4_inv [OF assms]
    by blast
qed

theorem port_groupx4_four_steps_witness:
  "let d = (\<lambda>i. if i < 3 then 5 else 6) in
   grp_inv d (0 + 4) (port_groupx4 0 ((\<lambda>_. 0)(0 := 1), 0) (load8 d 0) (load8 d (0 + 1)))
    \<and> grp_inv d (0 + 4) (snd (step4 d 0 (d 0, (\<lambda>_. 0)(0 := 1), 0)))
    \<and> snd (port_groupx4 0 ((\<lambda>_. 0)(0 := 1), 0) (load8 d 0) (load8 d (0 + 1)))
        = snd (snd (step4 d 0 (d 0, (\<lambda>_. 0)(0 := 1), 0)))"
  unfolding Let_def by (rule port_groupx4_four_steps) (rule grp_inv_init)

text \<open>\<open>process_dst_port\<close> returns the common destination port of the burst exactly when all
  its entries agree, and \<open>BAD_PORT\<close> when they do not, for every burst length: the blocks of
  eight, of four and the single comparisons together look at every entry. The NEON version (a
  narrowing shift to 64 bits) and the AltiVec version (blocks of eight only) agree.\<close>

lemma process_dst_port_correct:
  "process_dst_port d n = (if map d [0..<n] = replicate n (d 0) then d 0 else BAD_PORT)
    \<and> process_dst_port_neon d n = process_dst_port d n
    \<and> process_dst_port_altivec d n = process_dst_port d n"
proof -
  have "map d [0..<n] = replicate n (d 0) \<longleftrightarrow> (\<forall>k<n. d k = d 0)"
    by (auto simp: list_eq_iff_nth_eq)
  then show ?thesis
    by (simp add: process_dst_port_neon_eq process_dst_port_altivec_all_eq process_dst_port_all_eq all_eq_def)
qed

end
