(* ===== verification/Rewrite.thy ===== *)
theory Rewrite
  imports Dpdk
begin

text \<open>
  Header checks and header rewriting: \<open>is_valid_ipv4_pkt\<close> (\<open>l3fwd/l3fwd.h\<close>),
  \<open>rfc1812_process\<close> (\<open>l3fwd/l3fwd_common.h\<close>) and the SSE routines \<open>processx4_step3\<close> and
  \<open>process_packet\<close> (\<open>l3fwd/l3fwd_sse.h\<close>), on the bytes of the packet.
\<close>

definition IP_VER_IHL :: nat where "IP_VER_IHL = 14"
definition IP_TOTAL_LENGTH :: nat where "IP_TOTAL_LENGTH = 16"
definition IP_TTL :: nat where "IP_TTL = 22"
definition IP_CKSUM :: nat where "IP_CKSUM = 24"
definition IP_DST :: nat where "IP_DST = 30"

definition SIZEOF_IPV4_HDR :: nat where "SIZEOF_IPV4_HDR = 20"

lemmas ip_offsets = IP_VER_IHL_def IP_TOTAL_LENGTH_def IP_TTL_def IP_CKSUM_def IP_DST_def

section \<open>The five checks\<close>

text \<open>Returns the code of the check that failed, or 0, and the packet: the software
  checksum path overwrites the checksum field.\<close>

definition is_valid_ipv4_pkt :: "dpdk \<Rightarrow> mem \<Rightarrow> u32 \<Rightarrow> u64 \<Rightarrow> int \<times> mem" where
  "is_valid_ipv4_pkt E d link_len flags =
     (if unat link_len < SIZEOF_IPV4_HDR then (-1, d)
      else
        let sw = (flags AND rx_ip_cksum_mask E = rx_ip_cksum_none E);
            actual_cksum = ld16 d IP_CKSUM;
            d' = (if sw then st16 d IP_CKSUM 0 else d);
            expected_cksum = ipv4_cksum E (ip_hdr d')
        in if sw \<and> actual_cksum \<noteq> expected_cksum then (-2, d')
           else if drop_bit 4 (d' IP_VER_IHL) \<noteq> 4 then (-3, d')
           else if d' IP_VER_IHL AND 0xf < 5 then (-4, d')
           else if unat (bswap16 (ld16 d' IP_TOTAL_LENGTH)) < SIZEOF_IPV4_HDR then (-5, d')
           else (0, d'))"

section \<open>Time to live and checksum\<close>

text \<open>\<open>--time_to_live; ++hdr_checksum\<close>: the checksum is incremented as the CPU's 16-bit
  integer, without a byte swap.\<close>

definition ttl_dec :: "mem \<Rightarrow> mem" where
  "ttl_dec d = (let d1 = d(IP_TTL := d IP_TTL - 1) in st16 d1 IP_CKSUM (ld16 d1 IP_CKSUM + 1))"

definition IPV4_MIN_VER_IHL :: u8 where "IPV4_MIN_VER_IHL = 0x45"
definition IPV4_MAX_VER_IHL :: u8 where "IPV4_MAX_VER_IHL = 0x4f"
definition IPV4_MAX_VER_IHL_DIFF :: u8 where
  "IPV4_MAX_VER_IHL_DIFF = IPV4_MAX_VER_IHL - IPV4_MIN_VER_IHL"
definition IPV4_MIN_LEN_BE :: nat where "IPV4_MIN_LEN_BE = SIZEOF_IPV4_HDR * 2 ^ 8"

definition rfc1812_process :: "dpdk \<Rightarrow> mem \<Rightarrow> u16 \<Rightarrow> u32 \<Rightarrow> mem \<times> u16" where
  "rfc1812_process E d dp ptype =
     (if is_ipv4_hdr E ptype then
        let ihl = d IP_VER_IHL - IPV4_MIN_VER_IHL;
            d' = ttl_dec d;
            tl = ld16 d' IP_TOTAL_LENGTH
        in (d', if ihl > IPV4_MAX_VER_IHL_DIFF \<or>
                   ((ucast tl :: u8) = 0 \<and> unat tl < IPV4_MIN_LEN_BE) then BAD_PORT else dp)
      else (d, dp))"

section \<open>Rewriting the Ethernet addresses\<close>

definition MASK_ETH :: u8 where "MASK_ETH = 0x3f"

text \<open>\<open>_mm_blend_epi16\<close>: 16-bit lane \<open>i\<close> of the result is that of \<open>b\<close> where bit \<open>i\<close> of the
  mask is set, else that of \<open>a\<close>; a vector is its 16 bytes in memory order.\<close>

definition blend_epi16 :: "u8 list \<Rightarrow> u8 list \<Rightarrow> u8 \<Rightarrow> u8 list" where
  "blend_epi16 a b msk = map (\<lambda>k. if bit msk (k div 2) then b ! k else a ! k) [0..<16]"

definition process_packet :: "dpdk \<Rightarrow> glob \<Rightarrow> mbuf \<Rightarrow> u16 \<Rightarrow> mbuf \<times> u16" where
  "process_packet E G m dp =
     (let te = ldn (mb_data m) 0 16;
          ve = val_eth G dp;
          (d1, dp') = rfc1812_process E (mb_data m) dp (packet_type m);
          te' = blend_epi16 te ve MASK_ETH
      in (m\<lparr>mb_data := stn d1 0 te'\<rparr>, dp'))"

text \<open>One of the four lanes of \<open>processx4_step3\<close>: load, blend, store, then the RFC 1812
  update. The four buffers of a burst are different, so the order between lanes is free.\<close>

definition step3_lane :: "dpdk \<Rightarrow> glob \<Rightarrow> mbuf \<Rightarrow> u16 \<Rightarrow> mbuf \<times> u16" where
  "step3_lane E G m dp =
     (let ve = val_eth G dp;
          te = ldn (mb_data m) 0 16;
          te' = blend_epi16 te ve MASK_ETH;
          (d2, dp') = rfc1812_process E (stn (mb_data m) 0 te') dp (packet_type m)
      in (m\<lparr>mb_data := d2\<rparr>, dp'))"

type_synonym burst = "(nat \<Rightarrow> mbuf) \<times> (nat \<Rightarrow> u16)"

definition processx4_step3 :: "dpdk \<Rightarrow> glob \<Rightarrow> nat \<Rightarrow> burst \<Rightarrow> burst" where
  "processx4_step3 E G j PD =
     (let (P, D) = PD;
          r0 = step3_lane E G (P j) (D j);
          r1 = step3_lane E G (P (j + 1)) (D (j + 1));
          r2 = step3_lane E G (P (j + 2)) (D (j + 2));
          r3 = step3_lane E G (P (j + 3)) (D (j + 3))
      in (P(j := fst r0, j + 1 := fst r1, j + 2 := fst r2, j + 3 := fst r3),
          D(j := snd r0, j + 1 := snd r1, j + 2 := snd r2, j + 3 := snd r3)))"

text \<open>\<open>process_packet\<close> on element \<open>j\<close> of the burst.\<close>

definition process_at :: "dpdk \<Rightarrow> glob \<Rightarrow> nat \<Rightarrow> burst \<Rightarrow> burst" where
  "process_at E G j PD =
     (let (P, D) = PD; r = process_packet E G (P j) (D j)
      in (P(j := fst r), D(j := snd r)))"

section \<open>The NEON and AltiVec versions\<close>

text \<open>NEON (\<open>l3fwd/l3fwd_neon.h\<close>) copies lane 3 (bytes 12 to 15) of the packet's first 16
  bytes into the table entry; AltiVec (\<open>l3fwd/l3fwd_altivec.h\<close>) selects by a mask.\<close>

definition vget_lane_u32 :: "u8 list \<Rightarrow> nat \<Rightarrow> u8 list" where
  "vget_lane_u32 v n = take 4 (drop (4 * n) v)"

definition vset_lane_u32 :: "u8 list \<Rightarrow> u8 list \<Rightarrow> nat \<Rightarrow> u8 list" where
  "vset_lane_u32 x v n = take (4 * n) v @ x @ drop (4 * n + 4) v"

definition step3_lane_neon :: "dpdk \<Rightarrow> glob \<Rightarrow> mbuf \<Rightarrow> u16 \<Rightarrow> mbuf \<times> u16" where
  "step3_lane_neon E G m dp =
     (let ve = val_eth G dp;
          te = ldn (mb_data m) 0 16;
          ve' = vset_lane_u32 (vget_lane_u32 te 3) ve 3;
          (d2, dp') = rfc1812_process E (stn (mb_data m) 0 ve') dp (packet_type m)
      in (m\<lparr>mb_data := d2\<rparr>, dp'))"

definition process_packet_neon :: "dpdk \<Rightarrow> glob \<Rightarrow> mbuf \<Rightarrow> u16 \<Rightarrow> mbuf \<times> u16" where
  "process_packet_neon E G m dp =
     (let te = ldn (mb_data m) 0 16;
          ve = val_eth G dp;
          (d1, dp') = rfc1812_process E (mb_data m) dp (packet_type m);
          ve' = vset_lane_u32 (vget_lane_u32 te 3) ve 3
      in (m\<lparr>mb_data := stn d1 0 ve'\<rparr>, dp'))"

definition vec_sel :: "u8 list \<Rightarrow> u8 list \<Rightarrow> u16 list \<Rightarrow> u8 list" where
  "vec_sel a b msk = map (\<lambda>k. let c = (ucast (drop_bit (8 * (k mod 2)) (msk ! (k div 2))) :: u8)
     in (a ! k AND NOT c) OR (b ! k AND c)) [0..<16]"

definition eth_sel_mask :: "u16 list" where
  "eth_sel_mask = [0, 0, 0, 0, 0, 0, 0xffff, 0xffff]"

definition step3_lane_altivec :: "dpdk \<Rightarrow> glob \<Rightarrow> mbuf \<Rightarrow> u16 \<Rightarrow> mbuf \<times> u16" where
  "step3_lane_altivec E G m dp =
     (let ve = val_eth G dp;
          te = ldn (mb_data m) 0 16;
          te' = vec_sel ve te eth_sel_mask;
          (d2, dp') = rfc1812_process E (stn (mb_data m) 0 te') dp (packet_type m)
      in (m\<lparr>mb_data := d2\<rparr>, dp'))"

definition process_packet_altivec :: "dpdk \<Rightarrow> glob \<Rightarrow> mbuf \<Rightarrow> u16 \<Rightarrow> mbuf \<times> u16" where
  "process_packet_altivec E G m dp =
     (let te = ldn (mb_data m) 0 16;
          ve = val_eth G dp;
          (d1, dp') = rfc1812_process E (mb_data m) dp (packet_type m);
          te' = vec_sel ve te eth_sel_mask
      in (m\<lparr>mb_data := stn d1 0 te'\<rparr>, dp'))"

definition lanes4 :: "(mbuf \<Rightarrow> u16 \<Rightarrow> mbuf \<times> u16) \<Rightarrow> nat \<Rightarrow> burst \<Rightarrow> burst" where
  "lanes4 f j PD =
     (let (P, D) = PD;
          r0 = f (P j) (D j);
          r1 = f (P (j + 1)) (D (j + 1));
          r2 = f (P (j + 2)) (D (j + 2));
          r3 = f (P (j + 3)) (D (j + 3))
      in (P(j := fst r0, j + 1 := fst r1, j + 2 := fst r2, j + 3 := fst r3),
          D(j := snd r0, j + 1 := snd r1, j + 2 := snd r2, j + 3 := snd r3)))"

definition processx4_step3_neon :: "dpdk \<Rightarrow> glob \<Rightarrow> nat \<Rightarrow> burst \<Rightarrow> burst" where
  "processx4_step3_neon E G = lanes4 (step3_lane_neon E G)"

definition processx4_step3_altivec :: "dpdk \<Rightarrow> glob \<Rightarrow> nat \<Rightarrow> burst \<Rightarrow> burst" where
  "processx4_step3_altivec E G = lanes4 (step3_lane_altivec E G)"

text \<open>The address rewriting of the routines without vector instructions: an 8 byte store of
  \<open>dest_eth_addr\<close> over the destination address, then the source address copied.\<close>

definition set_mac :: "glob \<Rightarrow> u16 \<Rightarrow> mem \<Rightarrow> mem" where
  "set_mac G p d = stn (stn d 0 (le64 (dest_eth_addr G p))) 6 (ports_eth_addr G p)"

text \<open>\<open>val_eth\<close> as \<open>main\<close>, \<open>parse_eth_dest\<close> and \<open>l3fwd_poll_resource_setup\<close> build it: 8 bytes
  of \<open>dest_eth_addr\<close>, then the port's own address over bytes 6 to 11.\<close>

definition val_eth_of :: "u64 \<Rightarrow> u8 list \<Rightarrow> u8 list" where
  "val_eth_of dest src = take 6 (le64 dest) @ src @ replicate 4 0"

definition glob_ok :: "glob \<Rightarrow> bool" where
  "glob_ok G \<longleftrightarrow> (\<forall>p. length (ports_eth_addr G p) = 6 \<and>
     val_eth G p = val_eth_of (dest_eth_addr G p) (ports_eth_addr G p))"

lemma glob_ok_ex: "glob_ok glob_ex"
  by (simp add: glob_ok_def glob_ex_def val_eth_of_def)

section \<open>What the routines leave alone\<close>

lemma ttl_dec_frame [frame]:
  "i \<noteq> IP_TTL \<Longrightarrow> i \<noteq> IP_CKSUM \<Longrightarrow> i \<noteq> Suc IP_CKSUM \<Longrightarrow> ttl_dec d i = d i"
  by (simp add: ttl_dec_def Let_def st16_other)

lemma ttl_dec_cksum: "ld16 (ttl_dec d) IP_CKSUM = ld16 d IP_CKSUM + 1"
proof -
  have "ld16 (d(IP_TTL := d IP_TTL - 1)) IP_CKSUM = ld16 d IP_CKSUM"
    by (rule ld16_cong) (simp_all add: ip_offsets)
  then show ?thesis by (simp add: ttl_dec_def Let_def)
qed

lemma ttl_dec_ttl: "ttl_dec d IP_TTL = d IP_TTL - 1"
  by (simp add: ttl_dec_def Let_def st16_def ip_offsets)

lemma ttl_dec_len: "ld16 (ttl_dec d) IP_TOTAL_LENGTH = ld16 d IP_TOTAL_LENGTH"
  by (rule ld16_cong) (simp_all add: ttl_dec_frame ip_offsets)

lemma length_blend [simp]: "length (blend_epi16 a b msk) = 16"
  by (simp add: blend_epi16_def)

lemma mask_eth_bit: "bit MASK_ETH n \<longleftrightarrow> n < 6"
proof -
  have e: "MASK_ETH = mask 6" by (simp add: MASK_ETH_def mask_eq_decr_exp)
  have "bit (mask 6 :: u8) n \<longleftrightarrow> n < 6" by (auto simp only: bit_mask_iff possible_bit_word) simp_all
  then show ?thesis by (simp only: e)
qed

lemma blend_mask_nth:
  "k < 16 \<Longrightarrow> blend_epi16 a b MASK_ETH ! k = (if k < 12 then b ! k else a ! k)"
proof -
  have "k div 2 < 6 \<longleftrightarrow> k < 12" by arith
  then show "k < 16 \<Longrightarrow> ?thesis" by (simp add: blend_epi16_def mask_eth_bit)
qed

text \<open>The blended store writes bytes 0 to 11 and writes back what it loaded of the rest.\<close>

lemma stn_blend:
  "stn d 0 (blend_epi16 (ldn d 0 16) v MASK_ETH) = (\<lambda>i. if i < 12 then v ! i else d i)"
  by (rule ext) (simp add: stn_def blend_mask_nth)

section \<open>Four lanes are four packets\<close>

lemma rfc1812_cong:
  assumes "\<And>i. 12 \<le> i \<Longrightarrow> d i = d' i"
  shows "snd (rfc1812_process E d dp t) = snd (rfc1812_process E d' dp t)"
    and "12 \<le> i \<Longrightarrow> fst (rfc1812_process E d dp t) i = fst (rfc1812_process E d' dp t) i"
    and "i < 12 \<Longrightarrow> fst (rfc1812_process E d dp t) i = d i"
proof -
  have l: "ld16 d IP_TOTAL_LENGTH = ld16 d' IP_TOTAL_LENGTH"
    by (rule ld16_cong) (simp_all add: assms ip_offsets)
  have c: "ld16 (d(IP_TTL := d IP_TTL - 1)) IP_CKSUM = ld16 (d'(IP_TTL := d' IP_TTL - 1)) IP_CKSUM"
    by (rule ld16_cong) (simp_all add: assms ip_offsets)
  have v: "d IP_VER_IHL = d' IP_VER_IHL" by (simp add: assms ip_offsets)
  show "snd (rfc1812_process E d dp t) = snd (rfc1812_process E d' dp t)"
    by (simp add: rfc1812_process_def Let_def ttl_dec_len l v)
  show "fst (rfc1812_process E d dp t) i = fst (rfc1812_process E d' dp t) i" if "12 \<le> i"
    using that c by (simp add: rfc1812_process_def Let_def ttl_dec_def st16_def assms ip_offsets)
  show "fst (rfc1812_process E d dp t) i = d i" if "i < 12"
    using that by (simp add: rfc1812_process_def Let_def frame ip_offsets)
qed

lemma rfc1812_keeps_12_15:
  "i = 12 \<or> i = 13 \<or> i = 14 \<or> i = 15 \<Longrightarrow> fst (rfc1812_process E d dp t) i = d i"
  by (auto simp: rfc1812_process_def Let_def frame ip_offsets)

lemma step3_lane_eq: "step3_lane E G m dp = process_packet E G m dp"
proof -
  let ?d = "mb_data m" and ?v = "val_eth G dp" and ?t = "packet_type m"
  let ?b = "blend_epi16 (ldn ?d 0 16) ?v MASK_ETH"
  have same: "stn ?d 0 ?b i = ?d i" if "12 \<le> i" for i
    using that by (simp add: stn_blend)
  have "fst (rfc1812_process E (stn ?d 0 ?b) dp ?t) = stn (fst (rfc1812_process E ?d dp ?t)) 0 ?b"
  proof (rule ext)
    fix i :: nat
    consider "i < 12" | "i = 12 \<or> i = 13 \<or> i = 14 \<or> i = 15" | "16 \<le> i" by linarith
    then show "fst (rfc1812_process E (stn ?d 0 ?b) dp ?t) i
        = stn (fst (rfc1812_process E ?d dp ?t)) 0 ?b i"
    proof cases
      case 1
      then show ?thesis
        using rfc1812_cong(3) [OF same 1] by (simp add: stn_def)
    next
      case 2
      then have r: "fst (rfc1812_process E (stn ?d 0 ?b) dp ?t) i = stn ?d 0 ?b i"
        by (rule rfc1812_keeps_12_15)
      with 2 show ?thesis by (auto simp: stn_def)
    next
      case 3
      then show ?thesis
        using rfc1812_cong(2) [OF same] by (simp add: stn_def)
    qed
  qed
  moreover have "snd (rfc1812_process E (stn ?d 0 ?b) dp ?t) = snd (rfc1812_process E ?d dp ?t)"
    using same by (rule rfc1812_cong(1))
  ultimately show ?thesis
    by (simp add: step3_lane_def process_packet_def Let_def case_prod_beta)
qed

lemma processx4_step3_process_at:
  "processx4_step3 E G j PD = (process_at E G (j + 3) \<circ> process_at E G (j + 2)
     \<circ> process_at E G (j + 1) \<circ> process_at E G j) PD"
  by (cases PD) (simp add: processx4_step3_def process_at_def step3_lane_eq Let_def)

text \<open>The vector units write the same sixteen bytes, for table entries of sixteen bytes.\<close>

lemma blend_mask_eq:
  "length v = 16 \<Longrightarrow> length t = 16 \<Longrightarrow> blend_epi16 t v MASK_ETH = take 12 v @ drop 12 t"
  by (rule nth_equalityI) (auto simp: blend_mask_nth nth_append)

lemma neon_lane_eq:
  "length v = 16 \<Longrightarrow> length t = 16 \<Longrightarrow>
   vset_lane_u32 (vget_lane_u32 t 3) v 3 = blend_epi16 t v MASK_ETH"
  by (simp add: vset_lane_u32_def vget_lane_u32_def blend_mask_eq)

lemma eth_sel_byte:
  assumes "k < 16"
  shows "(ucast (drop_bit (8 * (k mod 2)) (eth_sel_mask ! (k div 2))) :: u8)
    = (if k < 12 then 0 else -1)"
proof -
  have m: "eth_sel_mask ! i = (if i < 6 then 0 else 0xffff)" if "i < 8" for i
  proof -
    have "i \<in> {0, 1, 2, 3, 4, 5, 6, 7}" using that by auto
    then show ?thesis by (elim insertE emptyE) (simp_all add: eth_sel_mask_def)
  qed
  have "k div 2 < 8" and "k div 2 < 6 \<longleftrightarrow> k < 12" using assms by auto
  moreover have "(ucast (drop_bit (8 * (k mod 2)) (0xffff :: u16)) :: u8) = -1"
    by (cases "k mod 2 = 0") (simp_all add: mod2_eq_if)
  ultimately show ?thesis by (simp only: m) simp
qed

lemma altivec_sel_eq:
  assumes "length v = 16" and "length t = 16"
  shows "vec_sel v t eth_sel_mask = blend_epi16 t v MASK_ETH"
proof (rule nth_equalityI)
  fix k assume "k < length (vec_sel v t eth_sel_mask)"
  then have k: "k < 16" by (simp add: vec_sel_def)
  then show "vec_sel v t eth_sel_mask ! k = blend_epi16 t v MASK_ETH ! k"
    by (simp add: vec_sel_def blend_mask_nth Let_def eth_sel_byte)
qed (simp add: vec_sel_def)

definition val_eth_16 :: "glob \<Rightarrow> bool" where
  "val_eth_16 G \<longleftrightarrow> (\<forall>p. length (val_eth G p) = 16)"

lemma process_packet_units:
  assumes "val_eth_16 G"
  shows "process_packet_neon E G = process_packet E G"
    and "process_packet_altivec E G = process_packet E G"
  using assms
  by (simp_all add: fun_eq_iff process_packet_neon_def process_packet_altivec_def
      process_packet_def val_eth_16_def neon_lane_eq altivec_sel_eq)

lemma processx4_step3_units_eq:
  assumes "val_eth_16 G"
  shows "processx4_step3_neon E G j PD = processx4_step3 E G j PD"
    and "processx4_step3_altivec E G j PD = processx4_step3 E G j PD"
proof -
  have "step3_lane_neon E G = step3_lane E G" "step3_lane_altivec E G = step3_lane E G"
    using assms
    by (simp_all add: fun_eq_iff step3_lane_neon_def step3_lane_altivec_def step3_lane_def
        val_eth_16_def neon_lane_eq altivec_sel_eq)
  then show "processx4_step3_neon E G j PD = processx4_step3 E G j PD"
    and "processx4_step3_altivec E G j PD = processx4_step3 E G j PD"
    by (simp_all add: processx4_step3_neon_def processx4_step3_altivec_def processx4_step3_def lanes4_def)
qed

section \<open>What the packet looks like afterwards\<close>

lemma process_packet_mac:
  "i < 12 \<Longrightarrow> mb_data (fst (process_packet E G m dp)) i = val_eth G dp ! i"
  by (simp add: process_packet_def Let_def case_prod_beta stn_def blend_mask_nth)

lemma process_packet_id [simp]:
  "mb_id (fst (process_packet E G m dp)) = mb_id m"
  "packet_type (fst (process_packet E G m dp)) = packet_type m"
  "mb_port (fst (process_packet E G m dp)) = mb_port m"
  by (simp_all add: process_packet_def Let_def case_prod_beta)

lemma process_packet_rest:
  "12 \<le> i \<Longrightarrow> mb_data (fst (process_packet E G m dp)) i
     = fst (rfc1812_process E (mb_data m) dp (packet_type m)) i"
proof -
  assume i: "12 \<le> i"
  show ?thesis
  proof (cases "i < 16")
    case True
    with i have "i = 12 \<or> i = 13 \<or> i = 14 \<or> i = 15" by auto
    with i True show ?thesis
      using rfc1812_keeps_12_15 [of i E "mb_data m" dp "packet_type m"]
      by (simp add: process_packet_def Let_def case_prod_beta stn_def blend_mask_nth)
  next
    case False
    then show ?thesis by (simp add: process_packet_def Let_def case_prod_beta stn_def)
  qed
qed

lemma process_packet_port:
  "snd (process_packet E G m dp) = snd (rfc1812_process E (mb_data m) dp (packet_type m))"
  by (simp add: process_packet_def Let_def case_prod_beta)

lemma set_mac_byte:
  "length (ports_eth_addr G p) = 6 \<Longrightarrow>
   set_mac G p d i = (if i < 6 then le64 (dest_eth_addr G p) ! i
                      else if i < 12 then ports_eth_addr G p ! (i - 6) else d i)"
  by (auto simp: set_mac_def stn_def)

lemma val_eth_nth:
  assumes "glob_ok G" and "i < 12"
  shows "val_eth G p ! i = (if i < 6 then le64 (dest_eth_addr G p) ! i else ports_eth_addr G p ! (i - 6))"
  using assms by (auto simp: glob_ok_def val_eth_of_def nth_append)

section \<open>Byte arithmetic of the checks\<close>

lemma unat_bswap16_ld16:
  "unat (bswap16 (ld16 d a)) = unat (d a) * 256 + unat (d (Suc a))"
proof -
  have b: "bswap16 (ld16 d a) = ucast (d (Suc a)) OR push_bit 8 (ucast (d a))"
    by (rule bit_word_eqI) (auto simp: bswap16_def ld16_def bit_simps dest: bit_imp_le_length)
  have disj: "ucast (d (Suc a)) AND push_bit 8 (ucast (d a)) = (0 :: u16)"
    by (rule bit_word_eqI) (auto simp: bit_simps dest: bit_imp_le_length)
  have "unat (ucast (d (Suc a)) OR push_bit 8 (ucast (d a)) :: u16)
      = unat (ucast (d (Suc a)) + push_bit 8 (ucast (d a)) :: u16)"
    by (simp only: disjunctive_add_eq_or [OF disj])
  moreover have "unat (d a) < 256" "unat (d (Suc a)) < 256"
    using unsigned_less [of "d a"] unsigned_less [of "d (Suc a)"] by simp_all
  ultimately show ?thesis unfolding b
    by (simp add: push_bit_eq_mult unat_word_ariths unsigned_ucast_eq take_bit_eq_mod)
qed

lemma unat_ld16: "unat (ld16 d a) = unat (d a) + 256 * unat (d (Suc a))"
proof -
  have disj: "ucast (d a) AND push_bit 8 (ucast (d (Suc a))) = (0 :: u16)"
    by (rule bit_word_eqI) (auto simp: bit_simps dest: bit_imp_le_length)
  have "unat (ld16 d a) = unat (ucast (d a) + push_bit 8 (ucast (d (Suc a))) :: u16)"
    by (simp only: ld16_def disjunctive_add_eq_or [OF disj])
  moreover have "unat (d a) < 256" "unat (d (Suc a)) < 256"
    using unsigned_less [of "d a"] unsigned_less [of "d (Suc a)"] by simp_all
  ultimately show ?thesis
    by (simp add: push_bit_eq_mult unat_word_ariths unsigned_ucast_eq take_bit_eq_mod)
qed

lemma ucast_ld16: "(ucast (ld16 d a) :: u8) = d a"
  by (rule bit_word_eqI) (auto simp: ld16_def bit_simps)

lemma min_len_check:
  "((ucast (ld16 d a) :: u8) = 0 \<and> unat (ld16 d a) < IPV4_MIN_LEN_BE) \<longleftrightarrow>
   unat (bswap16 (ld16 d a)) < SIZEOF_IPV4_HDR"
proof -
  have "unat (d a) < 256" "unat (d (Suc a)) < 256"
    using unsigned_less [of "d a"] unsigned_less [of "d (Suc a)"] by simp_all
  then show ?thesis
    by (auto simp: ucast_ld16 unat_ld16 unat_bswap16_ld16 IPV4_MIN_LEN_BE_def SIZEOF_IPV4_HDR_def
        simp flip: unat_eq_zero)
qed

lemma ver_ihl_check:
  "(v - IPV4_MIN_VER_IHL > IPV4_MAX_VER_IHL_DIFF) \<longleftrightarrow> \<not> (drop_bit 4 v = 4 \<and> \<not> v AND 0xf < 5)"
proof -
  have m: "v AND 0xf = take_bit 4 v"
    by (simp add: take_bit_eq_mask mask_eq_decr_exp and.commute)
  have l: "unat (v AND 0xf) = unat v mod 16"
    unfolding m take_bit_eq_mod by (subst unat_mod_distrib) simp
  have h: "unat (drop_bit 4 v) = unat v div 16"
    unfolding drop_bit_eq_div by (subst unat_div_distrib) simp
  have v: "unat v < 256" using unsigned_less [of v] by simp
  have e: "drop_bit 4 v = 4 \<longleftrightarrow> unat v div 16 = 4"
    by (simp add: word_unat_eq_iff h)
  have c: "unat (v - IPV4_MIN_VER_IHL) = (if 69 \<le> unat v then unat v - 69 else unat v + 187)"
    using v by (simp add: unat_sub_if' IPV4_MIN_VER_IHL_def)
  have b: "unat IPV4_MAX_VER_IHL_DIFF = 10"
    by (simp add: IPV4_MIN_VER_IHL_def IPV4_MAX_VER_IHL_DIFF_def IPV4_MAX_VER_IHL_def)
  have n: "10 < (if 69 \<le> u then u - 69 else u + 187) \<longleftrightarrow> \<not> (u div 16 = 4 \<and> \<not> u mod 16 < 5)"
    if "u < 256" for u :: nat
  proof (cases "u div 16 = 4")
    case True
    then have "u = 64 + u mod 16" by (metis div_mult_mod_eq mult.commute numeral_times_numeral
        semiring_norm(12) semiring_norm(13))
    then show ?thesis using True by auto
  next
    case False
    then have "u < 64 \<or> 80 \<le> u" by auto
    with that False show ?thesis by auto
  qed
  show ?thesis
    unfolding e word_less_nat_alt l c b using n [OF v] by simp
qed

section \<open>The header checksum\<close>

definition be16 :: "mem \<Rightarrow> nat \<Rightarrow> nat" where
  "be16 d a = unat (d a) * 256 + unat (d (Suc a))"

text \<open>The one's complement sum of the header's first \<open>n\<close> 16-bit words, as an integer: two
  sums stand for the same value exactly when they agree modulo 65535.\<close>

definition hdr_sum :: "mem \<Rightarrow> nat \<Rightarrow> nat" where
  "hdr_sum d n = (\<Sum>k<n. be16 d (ETH_LEN + 2 * k))"

lemma unat_dec: "0 < (x :: 'a::len word) \<Longrightarrow> unat (x - 1) = unat x - 1"
  by (simp add: unat_minus_one word_gt_0)

lemma unat_inc: "x \<noteq> (-1 :: 'a::len word) \<Longrightarrow> unat (x + 1) = Suc (unat x)"
  using unatSuc [of x] by (auto simp: add.commute eq_neg_iff_add_eq_0)

lemma be16_bswap: "be16 d a = unat (bswap16 (ld16 d a))"
  by (simp add: be16_def unat_bswap16_ld16)

lemma be16_ld16:
  "be16 d a = (unat (ld16 d a) mod 256) * 256 + unat (ld16 d a) div 256"
proof -
  have "unat (d a) < 256" "unat (d (Suc a)) < 256"
    using unsigned_less [of "d a"] unsigned_less [of "d (Suc a)"] by simp_all
  then show ?thesis by (simp add: be16_def unat_ld16)
qed

text \<open>Adding one to the little-endian value is adding \<open>0x0100\<close> with an end-around carry to
  the big-endian one, except at \<open>0xffff\<close>.\<close>

lemma end_around_carry:
  assumes "u < 65535"
  shows "((Suc u mod 256) * 256 + Suc u div 256) mod 65535 = ((u mod 256) * 256 + u div 256 + 256) mod 65535"
proof (cases "u mod 256 = 255")
  case True
  then have "Suc u mod 256 = 0" "Suc u div 256 = Suc (u div 256)"
    by (simp_all add: mod_Suc div_Suc)
  then have "(u mod 256) * 256 + u div 256 + 256 = (Suc u mod 256) * 256 + Suc u div 256 + 65535"
    using True by simp
  then show ?thesis by simp
next
  case False
  then have "Suc u mod 256 = Suc (u mod 256)" "Suc u div 256 = u div 256"
    by (simp_all add: mod_Suc div_Suc)
  then show ?thesis by (simp add: ac_simps)
qed

lemma ttl_dec_words:
  assumes "0 < d IP_TTL" and "ld16 d IP_CKSUM \<noteq> -1"
  shows "be16 (ttl_dec d) IP_TTL + 256 = be16 d IP_TTL"
    and "be16 (ttl_dec d) IP_CKSUM mod 65535 = (be16 d IP_CKSUM + 256) mod 65535"
proof -
  have p: "ttl_dec d (Suc IP_TTL) = d (Suc IP_TTL)"
    by (simp add: frame ip_offsets)
  have "0 < unat (d IP_TTL)" using assms(1) by (simp add: word_less_nat_alt)
  then show "be16 (ttl_dec d) IP_TTL + 256 = be16 d IP_TTL"
    by (simp add: be16_def p ttl_dec_ttl unat_dec assms(1) diff_mult_distrib)
  have u: "unat (ld16 (ttl_dec d) IP_CKSUM) = Suc (unat (ld16 d IP_CKSUM))"
    by (simp add: ttl_dec_cksum unat_inc assms(2))
  moreover have "Suc (unat (ld16 d IP_CKSUM)) < 65536"
  proof -
    have "unat (ld16 (ttl_dec d) IP_CKSUM) < 2 ^ LENGTH(16)" by (rule unsigned_less)
    then show ?thesis unfolding u by simp
  qed
  ultimately show "be16 (ttl_dec d) IP_CKSUM mod 65535 = (be16 d IP_CKSUM + 256) mod 65535"
    by (simp only: be16_ld16) (rule end_around_carry, simp)
qed

lemma hdr_sum_split:
  "6 \<le> n \<Longrightarrow> hdr_sum d n = be16 d IP_TTL + be16 d IP_CKSUM
     + (\<Sum>k\<in>{..<n} - {4} - {5}. be16 d (ETH_LEN + 2 * k))"
  unfolding hdr_sum_def
  by (subst sum.remove [of _ 4], simp, simp, subst sum.remove [of _ 5])
     (simp_all add: ETH_LEN_def ip_offsets)

lemma ttl_dec_hdr_sum:
  assumes "6 \<le> n" and "0 < d IP_TTL" and "ld16 d IP_CKSUM \<noteq> -1"
  shows "hdr_sum (ttl_dec d) n mod 65535 = hdr_sum d n mod 65535"
proof -
  let ?R = "\<lambda>d. \<Sum>k\<in>{..<n} - {4} - {5}. be16 d (ETH_LEN + 2 * k)"
  have r: "?R (ttl_dec d) = ?R d"
  proof (rule sum.cong)
    fix k assume k: "k \<in> {..<n} - {4} - {5}"
    then have "ETH_LEN + 2 * k \<noteq> IP_TTL" "ETH_LEN + 2 * k \<noteq> IP_CKSUM"
      by (auto simp: ETH_LEN_def ip_offsets)
    moreover have "Suc (ETH_LEN + 2 * k) \<noteq> IP_TTL" "ETH_LEN + 2 * k \<noteq> Suc IP_CKSUM"
      "Suc (ETH_LEN + 2 * k) \<noteq> IP_CKSUM"
      unfolding ETH_LEN_def ip_offsets by presburger+
    ultimately show "be16 (ttl_dec d) (ETH_LEN + 2 * k) = be16 d (ETH_LEN + 2 * k)"
      by (simp add: be16_def frame)
  qed simp
  have "hdr_sum (ttl_dec d) n mod 65535
      = (be16 (ttl_dec d) IP_TTL + be16 (ttl_dec d) IP_CKSUM mod 65535 + ?R d) mod 65535"
    by (simp add: hdr_sum_split assms(1) r mod_add_mid)
  also have "\<dots> = (be16 (ttl_dec d) IP_TTL + 256 + be16 d IP_CKSUM + ?R d) mod 65535"
    unfolding ttl_dec_words(2) [OF assms(2,3)] mod_add_mid by (simp add: ac_simps)
  also have "\<dots> = hdr_sum d n mod 65535"
    by (simp only: ttl_dec_words(1) [OF assms(2,3)] hdr_sum_split assms(1))
  finally show ?thesis .
qed

section \<open>Properties\<close>

text \<open>The vector routine \<open>processx4_step3\<close> does to the four packets from position \<open>j\<close> what
  four calls of the scalar routine \<open>process_packet\<close> do, in order, to the packets and to the
  destination ports, although one blends before and the other after the RFC 1812 update.\<close>

lemma processx4_step3_equiv:
  "processx4_step3 E G j PD = (process_at E G (j + 3) \<circ> process_at E G (j + 2)
     \<circ> process_at E G (j + 1) \<circ> process_at E G j) PD"
  by (rule processx4_step3_process_at)

text \<open>C30. The RFC 1812 update of an IPv4 packet decrements the time to live and keeps the
  header checksum right: the one's complement sum of the header words is unchanged, whatever
  the header length, provided the packet still has a time to live and its checksum field does
  not hold \<open>0xffff\<close> (which no correct header has).\<close>

theorem rfc1812_process_checksum:
  assumes "is_ipv4_hdr E t" and "6 \<le> n" and "0 < d IP_TTL" and "ld16 d IP_CKSUM \<noteq> -1"
  shows "hdr_sum (fst (rfc1812_process E d dp t)) n mod 65535 = hdr_sum d n mod 65535
    \<and> fst (rfc1812_process E d dp t) IP_TTL = d IP_TTL - 1"
  using ttl_dec_hdr_sum [OF assms(2-4)] assms(1)
  by (simp add: rfc1812_process_def Let_def ttl_dec_ttl)

theorem rfc1812_process_checksum_witness:
  "hdr_sum (fst (rfc1812_process dpdk_ex (\<lambda>_. 7) 3 0x10)) 10 mod 65535
     = hdr_sum (\<lambda>_. 7) 10 mod 65535
    \<and> fst (rfc1812_process dpdk_ex (\<lambda>_. 7) 3 0x10) IP_TTL = 7 - 1"
  by (rule rfc1812_process_checksum) (simp_all add: dpdk_ex_def ld16_def)

text \<open>The fast path's check agrees with the five-step check of the slow path: for an IPv4
  packet, \<open>rfc1812_process\<close> marks the destination port bad exactly when \<open>is_valid_ipv4_pkt\<close>
  rejects the packet with code -3, -4 or -5, on frames long enough whose checksum the hardware
  has checked; an accepted packet keeps its port.\<close>

lemma rfc1812_agrees_with_is_valid:
  assumes "is_ipv4_hdr E t" and "20 \<le> unat link_len"
    and "flags AND rx_ip_cksum_mask E \<noteq> rx_ip_cksum_none E"
  shows "snd (rfc1812_process E d dp t) = (if fst (is_valid_ipv4_pkt E d link_len flags) = 0 then dp else BAD_PORT)
    \<and> fst (is_valid_ipv4_pkt E d link_len flags) \<in> {0, -3, -4, -5}"
  using assms
  by (auto simp: rfc1812_process_def is_valid_ipv4_pkt_def Let_def SIZEOF_IPV4_HDR_def
      ttl_dec_len min_len_check [unfolded SIZEOF_IPV4_HDR_def] ver_ihl_check)

text \<open>On a table \<open>val_eth\<close> built the way the program builds it, \<open>process_packet\<close>, which blends sixteen
  loaded bytes around the checks, leaves the packet and the port as writing the two addresses with
  \<open>set_mac\<close> and then applying \<open>rfc1812_process\<close> would.\<close>

lemma process_packet_set_mac:
  assumes "glob_ok G"
  shows "process_packet E G m dp =
    (let r = rfc1812_process E (set_mac G dp (mb_data m)) dp (packet_type m)
     in (m\<lparr>mb_data := fst r\<rparr>, snd r))"
proof -
  have len: "length (ports_eth_addr G dp) = 6"
    using assms by (simp add: glob_ok_def)
  let ?d = "mb_data m" and ?s = "set_mac G dp (mb_data m)" and ?t = "packet_type m"
  have hi: "?s i = ?d i" if "12 \<le> i" for i
    using that by (simp add: set_mac_byte len)
  have t: "ttl_dec ?s i = (if i < 12 then ?s i else ttl_dec ?d i)" for i
    using hi by (auto simp: ttl_dec_def Let_def st16_def ld16_def IP_TTL_def IP_CKSUM_def)
  have l: "ld16 (ttl_dec ?s) IP_TOTAL_LENGTH = ld16 (ttl_dec ?d) IP_TOTAL_LENGTH"
    by (rule ld16_cong) (simp_all add: t IP_TOTAL_LENGTH_def)
  have v: "?s IP_VER_IHL = ?d IP_VER_IHL" by (simp add: hi IP_VER_IHL_def)
  have snd: "snd (rfc1812_process E ?s dp ?t) = snd (rfc1812_process E ?d dp ?t)"
    by (simp add: rfc1812_process_def Let_def l v)
  have "mb_data (fst (process_packet E G m dp)) i = fst (rfc1812_process E ?s dp ?t) i" for i
  proof (cases "i < 12")
    case True
    then show ?thesis
      by (simp add: process_packet_mac val_eth_nth [OF assms] rfc1812_process_def Let_def t set_mac_byte len)
  next
    case False
    then show ?thesis by (simp add: process_packet_rest rfc1812_process_def Let_def t hi)
  qed
  then have d: "mb_data (fst (process_packet E G m dp)) = fst (rfc1812_process E ?s dp ?t)" by blast
  have "fst (process_packet E G m dp) = m\<lparr>mb_data := mb_data (fst (process_packet E G m dp))\<rparr>"
    by (simp add: process_packet_def Let_def case_prod_beta)
  then show ?thesis using d snd process_packet_port [of E G m dp]
    by (simp add: Let_def prod_eq_iff)
qed

lemma rfc1812_port_bytes:
  "snd (rfc1812_process E d dp t) =
    (if is_ipv4_hdr E t \<and> (d 14 < 0x45 \<or> 0x4f < d 14 \<or> 256 * unat (d 16) + unat (d 17) < 20) then BAD_PORT else dp)"
proof -
  have v: "(d 14 - 0x45 > (0xa :: u8)) = (d 14 < 0x45 \<or> 0x4f < d 14)" by (simp add: word_less_nat_alt unat_sub_if_size word_size) arith
  have "unat (bswap16 (ld16 d 16)) = 256 * unat (d 16) + unat (d 17)" by (simp add: unat_bswap16_ld16)
  then have l: "((ucast (ld16 d 16) :: u8) = 0 \<and> unat (ld16 d 16) < IPV4_MIN_LEN_BE) = (256 * unat (d 16) + unat (d 17) < 20)"
    using min_len_check [of d 16] by (simp add: SIZEOF_IPV4_HDR_def)
  show ?thesis
    using v l ttl_dec_len [of d]
    by (simp add: rfc1812_process_def Let_def IPV4_MAX_VER_IHL_DIFF_def IPV4_MAX_VER_IHL_def IPV4_MIN_VER_IHL_def ip_offsets)
qed

text \<open>C31. What the header rewrite of the fast path does to a frame, byte by byte. Bytes 0 to 5 become the
  destination address configured for the port, bytes 6 to 11 the port's own address. In an IPv4 packet
  the time to live (byte 22) goes down by one and the checksum field (bytes 24 and 25, read by a little-endian
  host) up by one; every other byte, every byte from 12 on of other packets, and the other fields of the mbuf
  stay. The port becomes \<open>BAD_PORT\<close> exactly for IPv4 packets whose first header byte is outside 0x45 to 0x4f
  or whose total length is below 20.\<close>

theorem process_packet_effect:
  assumes "glob_ok G"
  shows "let r = process_packet E G m dp; d = mb_data m; d' = mb_data (fst r); v4 = is_ipv4_hdr E (packet_type m) in
      fst r = m\<lparr>mb_data := d'\<rparr>
    \<and> ldn d' 0 6 = take 6 (le64 (dest_eth_addr G dp)) \<and> ldn d' 6 6 = ports_eth_addr G dp
    \<and> d' 22 = (if v4 then d 22 - 1 else d 22)
    \<and> ld16 d' 24 = (if v4 then ld16 d 24 + 1 else ld16 d 24)
    \<and> (\<forall>i \<in> {12..} - {22, 24, 25}. d' i = d i)
    \<and> snd r = (if v4 \<and> (d 14 < 0x45 \<or> 0x4f < d 14 \<or> 256 * unat (d 16) + unat (d 17) < 20) then BAD_PORT else dp)"
proof -
  have len: "length (ports_eth_addr G dp) = 6" using assms by (simp add: glob_ok_def)
  let ?s = "set_mac G dp (mb_data m)" and ?r = "process_packet E G m dp" and ?d = "mb_data m"
  have hi: "?s i = ?d i" if "12 \<le> i" for i using that by (simp add: set_mac_byte len)
  have r: "?r = (m\<lparr>mb_data := fst (rfc1812_process E ?s dp (packet_type m))\<rparr>, snd (rfc1812_process E ?s dp (packet_type m)))"
    by (simp add: process_packet_set_mac [OF assms] Let_def)
  have d: "mb_data (fst ?r) = (if is_ipv4_hdr E (packet_type m) then ttl_dec ?s else ?s)"
    by (simp add: r rfc1812_process_def Let_def)
  have lo: "mb_data (fst ?r) i = ?s i" if "i \<noteq> 22" "i \<noteq> 24" "i \<noteq> 25" for i
    using that by (simp add: d frame ip_offsets)
  have "ldn (mb_data (fst ?r)) 0 6 = take 6 (le64 (dest_eth_addr G dp))"
    by (rule nth_equalityI) (simp_all add: lo set_mac_byte len)
  moreover have "ldn (mb_data (fst ?r)) 6 6 = ports_eth_addr G dp"
    by (rule nth_equalityI) (simp_all add: len lo set_mac_byte)
  moreover have "mb_data (fst ?r) 22 = (if is_ipv4_hdr E (packet_type m) then ?d 22 - 1 else ?d 22)"
    using ttl_dec_ttl [of ?s] by (simp add: d hi ip_offsets)
  moreover have "ld16 ?s 24 = ld16 ?d 24" by (rule ld16_cong) (simp_all add: hi)
  then have "ld16 (mb_data (fst ?r)) 24 = (if is_ipv4_hdr E (packet_type m) then ld16 ?d 24 + 1 else ld16 ?d 24)"
    using ttl_dec_cksum [of ?s] by (simp add: d ip_offsets)
  moreover have "\<forall>i \<in> {12..} - {22, 24, 25}. mb_data (fst ?r) i = ?d i" by (simp add: lo hi)
  ultimately show ?thesis
    using rfc1812_port_bytes [of E ?s dp "packet_type m"] by (simp add: Let_def r hi)
qed

theorem process_packet_effect_witness:
  "let r = process_packet dpdk_ex glob_ex (mbuf_ex 1) 2; d' = mb_data (fst r) in
      ldn d' 0 6 = take 6 (le64 (dest_eth_addr glob_ex 2)) \<and> ldn d' 6 6 = ports_eth_addr glob_ex 2
    \<and> d' 22 = 255 \<and> ld16 d' 24 = 1 \<and> (\<forall>i \<in> {12..} - {22, 24, 25}. d' i = 0) \<and> snd r = BAD_PORT"
  using process_packet_effect [OF glob_ok_ex, of dpdk_ex "mbuf_ex 1" 2]
  unfolding Let_def by (simp add: dpdk_ex_def mbuf_ex_def ld16_def)

text \<open>The software checksum path of \<open>is_valid_ipv4_pkt\<close> accepts a packet only with its
  checksum field zeroed: the field is overwritten for the computation and never restored, so
  what a caller forwards after the increment carries the checksum 1.\<close>

lemma is_valid_ipv4_pkt_zeroes_checksum:
  assumes "flags AND rx_ip_cksum_mask E = rx_ip_cksum_none E"
    and "is_valid_ipv4_pkt E d link_len flags = (0, d')"
  shows "ld16 d' IP_CKSUM = 0 \<and> ld16 (ttl_dec d') IP_CKSUM = 1"
proof -
  have "d' = st16 d IP_CKSUM 0"
    using assms by (auto simp: is_valid_ipv4_pkt_def Let_def split: if_splits)
  then show ?thesis by (simp add: ttl_dec_cksum)
qed

lemma is_valid_ipv4_pkt_zeroes_checksum_witness:
  "let d = (\<lambda>i. if i = 24 \<or> i = 25 then 0 else 0x45);
       d' = snd (is_valid_ipv4_pkt dpdk_ex d 64 0x90)
   in ld16 d' IP_CKSUM = 0 \<and> ld16 (ttl_dec d') IP_CKSUM = 1"
  unfolding Let_def
  by (rule is_valid_ipv4_pkt_zeroes_checksum [of "0x90" dpdk_ex "\<lambda>i. if i = 24 \<or> i = 25 then 0 else 0x45" 64])
     (simp_all add: dpdk_ex_def is_valid_ipv4_pkt_def ld16_def st16_def ip_offsets
        SIZEOF_IPV4_HDR_def bswap16_def)

end
