(* ===== verification/Tx_Path.thy ===== *)
theory Tx_Path
  imports Dpdk
begin

text \<open>
  The transmit side: \<open>send_burst\<close> and \<open>send_single_packet\<close> (\<open>l3fwd/l3fwd.h\<close>) and
  \<open>send_packetsx4\<close> (\<open>l3fwd/l3fwd_common.h\<close>) on the configuration of an lcore, and the drain
  of the transmit buffers every main loop does. The lcore's state is its \<open>lcore_conf\<close> with
  the effects of its operations: the packets handed to the driver, the packets freed, the
  number of driver calls, and a flag raised by any access outside the arrays of the
  structure. The two ways of sending share an interface, the locale \<open>tx_sink\<close>.
\<close>

record lcore =
  rx_queue_list :: "(u16 \<times> u16) list"
  tx_port_id :: "u16 list"
  tx_queue_id :: "u16 \<Rightarrow> u16"
  tb_len :: "u16 \<Rightarrow> nat"
  tb_tab :: "u16 \<Rightarrow> nat \<Rightarrow> mbuf"
  wire :: "(u16 \<times> mbuf) list"
  freed :: "mbuf list"
  calls :: nat
  out_of_range :: bool

definition bad_access :: "bool \<Rightarrow> lcore \<Rightarrow> lcore" where
  "bad_access c s = s\<lparr>out_of_range := out_of_range s \<or> c\<rparr>"

definition port_index_bad :: "dpdk \<Rightarrow> u16 \<Rightarrow> bool" where
  "port_index_bad E p \<longleftrightarrow> max_ethports E \<le> unat p"

definition pktmbuf_free :: "mbuf \<Rightarrow> lcore \<Rightarrow> lcore" where
  "pktmbuf_free m s = s\<lparr>freed := freed s @ [m]\<rparr>"

text \<open>\<open>rte_eth_tx_burst\<close>: the packets it takes are the driver's.\<close>

definition eth_tx_burst :: "dpdk \<Rightarrow> u16 \<Rightarrow> u16 \<Rightarrow> mbuf list \<Rightarrow> lcore \<Rightarrow> nat \<times> lcore" where
  "eth_tx_burst E p q ms s =
     (let n = tx_burst E (calls s) p q ms
      in (n, s\<lparr>calls := Suc (calls s), wire := wire s @ map (Pair p) (take n ms)\<rparr>))"

text \<open>\<open>do { rte_pktmbuf_free(m[r]); } while (++r < n);\<close>\<close>

function free_tail :: "(nat \<Rightarrow> mbuf) \<Rightarrow> nat \<Rightarrow> nat \<Rightarrow> lcore \<Rightarrow> lcore" where
  "free_tail m r n s =
     (let s' = pktmbuf_free (m r) s
      in if Suc r < n then free_tail m (Suc r) n s' else s')"
  by pat_completeness auto
termination by (relation "measure (\<lambda>(m, r, n, s). n - r)") auto

declare free_tail.simps [simp del]

definition send_burst :: "dpdk \<Rightarrow> nat \<Rightarrow> u16 \<Rightarrow> lcore \<Rightarrow> nat \<times> lcore" where
  "send_burst E n port s =
     (let s0 = bad_access (port_index_bad E port \<or> MAX_PKT_BURST < n) s;
          queueid = tx_queue_id s port;
          m_table = tb_tab s port;
          (ret, s1) = eth_tx_burst E port queueid (map m_table [0..<n]) s0
      in (ret, if ret < n then free_tail m_table ret n s1 else s1))"

definition store_tx :: "u16 \<Rightarrow> nat \<Rightarrow> mbuf \<Rightarrow> lcore \<Rightarrow> lcore" where
  "store_tx port i m s = bad_access (MAX_PKT_BURST \<le> i)
     (s\<lparr>tb_tab := (tb_tab s)(port := (tb_tab s port)(i := m))\<rparr>)"

definition send_single_packet :: "dpdk \<Rightarrow> glob \<Rightarrow> mbuf \<Rightarrow> u16 \<Rightarrow> lcore \<Rightarrow> nat \<times> lcore" where
  "send_single_packet E G m port s =
     (let s0 = bad_access (port_index_bad E port) s;
          len = tb_len s0 port;
          s1 = store_tx port len m s0;
          len = len + 1;
          (sent, s2, len) =
            (if len = rx_burst_size G
             then let (sent, s2) = send_burst E (rx_burst_size G) port s1 in (sent, s2, 0)
             else (0, s1, len))
      in (sent, s2\<lparr>tb_len := (tb_len s2)(port := len)\<rparr>))"

text \<open>The switch into a while loop (Duff's device): the remainder modulo 4 chooses where the
  first pass enters the body, and remainder 0 enters at its top without testing \<open>j < n\<close>.\<close>

function duff_while :: "(nat \<Rightarrow> 's \<Rightarrow> 's) \<Rightarrow> nat \<Rightarrow> nat \<Rightarrow> 's \<Rightarrow> 's" where
  "duff_while f j n s =
     (if j < n then duff_while f (j + 4) n (f (j + 3) (f (j + 2) (f (j + 1) (f j s)))) else s)"
  by pat_completeness auto
termination by (relation "measure (\<lambda>(f, j, n, s). n - j)") auto

declare duff_while.simps [simp del]

definition duff :: "(nat \<Rightarrow> 's \<Rightarrow> 's) \<Rightarrow> nat \<Rightarrow> 's \<Rightarrow> 's" where
  "duff f n s =
     (let r = n mod FWDSTEP
      in if r = 0 then duff_while f 4 n (f 3 (f 2 (f 1 (f 0 s))))
         else if r = 3 then duff_while f 3 n (f 2 (f 1 (f 0 s)))
         else if r = 2 then duff_while f 2 n (f 1 (f 0 s))
         else duff_while f 1 n (f 0 s))"

record tx_stats =
  st_sent :: nat
  st_dropped :: nat

definition send_packetsx4 ::
  "dpdk \<Rightarrow> glob \<Rightarrow> u16 \<Rightarrow> (nat \<Rightarrow> mbuf) \<Rightarrow> nat \<Rightarrow> lcore \<Rightarrow> tx_stats \<times> lcore" where
  "send_packetsx4 E G port m num s =
     (let s = bad_access (port_index_bad E port) s;
          len = tb_len s port
      in if tx_burst_size G \<le> num \<and> len = 0 then
           (let (n, s1) = eth_tx_burst E port (tx_queue_id s port) (map m [0..<num]) s;
                stats = \<lparr>st_sent = n, st_dropped = num - n\<rparr>
            in (stats, if n < num then free_tail m n num s1 else s1))
         else
           (let n = (if MAX_PKT_BURST < len + num then MAX_PKT_BURST - len else num);
                s1 = duff (\<lambda>j. store_tx port (len + j) (m j)) n s;
                len = len + n
            in if len = MAX_PKT_BURST then
                 (let (sent, s2) = send_burst E MAX_PKT_BURST port s1;
                      stats = \<lparr>st_sent = sent, st_dropped = MAX_PKT_BURST - sent\<rparr>;
                      len = num - n;
                      s3 = (if len = 0 then s2
                            else duff (\<lambda>j. store_tx port j (m (n + j))) len s2)
                  in (stats, s3\<lparr>tb_len := (tb_len s3)(port := len)\<rparr>))
               else (\<lparr>st_sent = 0, st_dropped = 0\<rparr>,
                     s1\<lparr>tb_len := (tb_len s1)(port := len)\<rparr>)))"

text \<open>The drain of the main loops: every transmit buffer that is not empty.\<close>

definition drain_port :: "dpdk \<Rightarrow> u16 \<Rightarrow> lcore \<Rightarrow> lcore" where
  "drain_port E port s =
     (if tb_len s port = 0 then s
      else let s1 = snd (send_burst E (tb_len s port) port s)
           in s1\<lparr>tb_len := (tb_len s1)(port := 0)\<rparr>)"

definition drain_all :: "dpdk \<Rightarrow> lcore \<Rightarrow> lcore" where
  "drain_all E s = fold (drain_port E) (tx_port_id s) s"

section \<open>Duff's device\<close>

lemma upt_4_Cons: "j + 4 \<le> n \<Longrightarrow> [j..<n] = j # (j + 1) # (j + 2) # (j + 3) # [j + 4..<n]"
  by (simp add: upt_conv_Cons [of j] upt_conv_Cons [of "Suc j"] upt_conv_Cons [of "Suc (Suc j)"]
      upt_conv_Cons [of "Suc (Suc (Suc j))"] numeral_eq_Suc)

lemma duff_while_fold:
  "(n - j) mod 4 = 0 \<Longrightarrow> j \<le> n \<Longrightarrow> duff_while f j n s = fold f [j..<n] s"
proof (induction "n - j" arbitrary: j s rule: less_induct)
  case less
  show ?case
  proof (cases "j < n")
    case True
    with less.prems(1) have j: "j + 4 \<le> n" by presburger
    from upt_4_Cons [OF j] have f: "fold f [j..<n] s
        = fold f [j + 4..<n] (f (j + 3) (f (j + 2) (f (j + 1) (f j s))))"
      by (simp only: fold_simps)
    have m: "(n - (j + 4)) mod 4 = 0" using less.prems(1) j by presburger
    have lt: "n - (j + 4) < n - j" using j by arith
    have "duff_while f (j + 4) n t = fold f [j + 4..<n] t" for t
      by (rule less.hyps [OF lt m j])
    then show ?thesis
      unfolding f using True by (subst duff_while.simps) (simp only: if_True)
  next
    case False
    then show ?thesis using less.prems by (subst duff_while.simps) simp
  qed
qed

lemma duff_fold:
  assumes "0 < n"
  shows "duff f n s = fold f [0..<n] s"
proof -
  have split: "fold f [0..<n] s = fold f [r..<n] (fold f [0..<r] s)" if "r \<le> n" for r
    using that upt_add_eq_append [of 0 r "n - r"] by simp
  have w: "duff_while f r n t = fold f [r..<n] t" if "(n - r) mod 4 = 0" "r \<le> n" for r t
    using that by (rule duff_while_fold)
  have n4: "n mod 4 = 0 \<Longrightarrow> 4 \<le> n" using assms by presburger
  have ge: "n mod 4 \<le> n" by simp
  have d: "(n - n mod 4) mod 4 = 0" by presburger
  have u: "fold f [0..<1] s = f 0 s" "fold f [0..<2] s = f 1 (f 0 s)"
    "fold f [0..<3] s = f 2 (f 1 (f 0 s))" "fold f [0..<4] s = f 3 (f 2 (f 1 (f 0 s)))"
    by (simp_all add: upt_rec) (simp_all add: eval_nat_numeral)
  have go: "fold f [0..<n] s = duff_while f r n (fold f [0..<r] s)"
    if "(n - r) mod 4 = 0" "r \<le> n" for r
    using split [OF that(2)] w [OF that] by simp
  consider "n mod 4 = 0" | "n mod 4 = 1" | "n mod 4 = 2" | "n mod 4 = 3"
    using mod4_cases [of n] by (elim disjE)
  then show ?thesis
  proof cases
    case 1
    then have "(n - 4) mod 4 = 0" by presburger
    have "duff f n s = duff_while f 4 n (fold f [0..<4] s)"
      unfolding u duff_def FWDSTEP_def Let_def 1 by (rule if_P [OF refl])
    from this go [OF \<open>(n - 4) mod 4 = 0\<close> n4 [OF 1], symmetric] show ?thesis by (rule trans)
  next
    case 2
    have "(n - 1) mod 4 = 0" "1 \<le> n" using ge d unfolding 2 by simp_all
    have "duff f n s = duff_while f 1 n (fold f [0..<1] s)"
      unfolding u duff_def FWDSTEP_def Let_def 2 by simp
    from this go [OF \<open>(n - 1) mod 4 = 0\<close> \<open>1 \<le> n\<close>, symmetric] show ?thesis by (rule trans)
  next
    case 3
    have "(n - 2) mod 4 = 0" "2 \<le> n" using ge d unfolding 3 by simp_all
    have "duff f n s = duff_while f 2 n (fold f [0..<2] s)"
      unfolding u duff_def FWDSTEP_def Let_def 3 by simp
    from this go [OF \<open>(n - 2) mod 4 = 0\<close> \<open>2 \<le> n\<close>, symmetric] show ?thesis by (rule trans)
  next
    case 4
    have "(n - 3) mod 4 = 0" "3 \<le> n" using ge d unfolding 4 by simp_all
    have "duff f n s = duff_while f 3 n (fold f [0..<3] s)"
      unfolding u duff_def FWDSTEP_def Let_def 4 by simp
    from this go [OF \<open>(n - 3) mod 4 = 0\<close> \<open>3 \<le> n\<close>, symmetric] show ?thesis by (rule trans)
  qed
qed

lemma duff_zero: "duff f 0 s = f 3 (f 2 (f 1 (f 0 s)))"
  by (simp add: duff_def duff_while.simps)

section \<open>The abstract transmit queues\<close>

text \<open>What the transmit path promises, without tables and indices: for each port the packets
  waiting, the packets handed to the driver and the packets freed.\<close>

record tx_abs =
  a_buf :: "u16 \<Rightarrow> mbuf list"
  a_wire :: "(u16 \<times> mbuf) list"
  a_freed :: "mbuf list"
  a_calls :: nat
  a_queue :: "u16 \<Rightarrow> u16"
  a_bad :: bool

definition buffered :: "lcore \<Rightarrow> u16 \<Rightarrow> mbuf list" where
  "buffered s p = map (tb_tab s p) [0..<tb_len s p]"

definition tx_view :: "lcore \<Rightarrow> tx_abs" where
  "tx_view s = \<lparr>a_buf = buffered s, a_wire = wire s, a_freed = freed s, a_calls = calls s,
     a_queue = tx_queue_id s, a_bad = out_of_range s\<rparr>"

text \<open>One driver call; what the driver does not take is freed.\<close>

definition abs_taken :: "dpdk \<Rightarrow> u16 \<Rightarrow> mbuf list \<Rightarrow> tx_abs \<Rightarrow> nat" where
  "abs_taken E p ms a = tx_burst E (a_calls a) p (a_queue a p) ms"

definition abs_emit :: "dpdk \<Rightarrow> u16 \<Rightarrow> mbuf list \<Rightarrow> tx_abs \<Rightarrow> tx_abs" where
  "abs_emit E p ms a =
     a\<lparr>a_calls := Suc (a_calls a),
       a_wire := a_wire a @ map (Pair p) (take (abs_taken E p ms a) ms),
       a_freed := a_freed a @ drop (abs_taken E p ms a) ms\<rparr>"

definition abs_buf :: "u16 \<Rightarrow> mbuf list \<Rightarrow> tx_abs \<Rightarrow> tx_abs" where
  "abs_buf p b a = a\<lparr>a_buf := (a_buf a)(p := b)\<rparr>"

definition abs_x4 :: "dpdk \<Rightarrow> glob \<Rightarrow> u16 \<Rightarrow> mbuf list \<Rightarrow> tx_abs \<Rightarrow> tx_abs" where
  "abs_x4 E G p ms a =
     (let b = a_buf a p @ ms
      in if tx_burst_size G \<le> length ms \<and> a_buf a p = [] then abs_emit E p ms a
         else if length b < MAX_PKT_BURST then abs_buf p b a
         else abs_buf p (drop MAX_PKT_BURST b) (abs_emit E p (take MAX_PKT_BURST b) a))"

definition abs_single :: "dpdk \<Rightarrow> glob \<Rightarrow> u16 \<Rightarrow> mbuf \<Rightarrow> tx_abs \<Rightarrow> tx_abs" where
  "abs_single E G p m a =
     (let b = a_buf a p @ [m]
      in if length b = rx_burst_size G then abs_buf p [] (abs_emit E p b a) else abs_buf p b a)"

definition abs_drain :: "dpdk \<Rightarrow> u16 \<Rightarrow> tx_abs \<Rightarrow> tx_abs" where
  "abs_drain E p a =
     (if a_buf a p = [] then a else abs_buf p [] (abs_emit E p (a_buf a p) a))"

section \<open>The operations refine the abstract queues\<close>

lemma length_buffered [simp]: "length (buffered s p) = tb_len s p"
  by (simp add: buffered_def)

lemma bad_access_False [simp]: "bad_access False s = s"
  by (simp add: bad_access_def)

lemma free_tail_eq: "r < n \<Longrightarrow> free_tail m r n s = s\<lparr>freed := freed s @ map m [r..<n]\<rparr>"
proof (induction "n - r" arbitrary: r s rule: less_induct)
  case less
  show ?case
  proof (cases "Suc r < n")
    case True
    have "n - Suc r < n - r" using less.prems by simp
    from less.hyps [OF this True]
    have e: "free_tail m (Suc r) n t = t\<lparr>freed := freed t @ map m [Suc r..<n]\<rparr>" for t .
    show ?thesis
      using True less.prems
      by (subst free_tail.simps) (simp add: e pktmbuf_free_def upt_conv_Cons [OF less.prems])
  next
    case False
    with less.prems have "n = Suc r" by simp
    then show ?thesis by (subst free_tail.simps) (simp add: pktmbuf_free_def)
  qed
qed

lemma free_rest_eq:
  "r \<le> n \<Longrightarrow> (if r < n then free_tail m r n s else s) = s\<lparr>freed := freed s @ map m [r..<n]\<rparr>"
  by (auto simp: free_tail_eq)

definition port_ok :: "dpdk \<Rightarrow> u16 \<Rightarrow> bool" where
  "port_ok E p \<longleftrightarrow> unat p < max_ethports E"

lemma port_index_ok [simp]: "port_ok E p \<Longrightarrow> port_index_bad E p = False"
  by (simp add: port_ok_def port_index_bad_def)

lemma send_burst_eq:
  fixes s :: lcore and n :: nat
  assumes "tx_burst_ok E" and "port_ok E p" and "n \<le> MAX_PKT_BURST"
  defines "ms \<equiv> map (tb_tab s p) [0..<n]"
  defines "r \<equiv> tx_burst E (calls s) p (tx_queue_id s p) ms"
  shows "send_burst E n p s = (r, s\<lparr>calls := Suc (calls s),
     wire := wire s @ map (Pair p) (take r ms), freed := freed s @ drop r ms\<rparr>)" and "r \<le> n"
proof -
  show r: "r \<le> n"
    unfolding r_def using tx_burst_le [OF assms(1), of "calls s" p "tx_queue_id s p" ms]
    by (simp add: ms_def)
  have d: "drop r ms = map (tb_tab s p) [r..<n]"
    unfolding ms_def by (rule drop_map_upt) (rule r)
  show "send_burst E n p s = (r, s\<lparr>calls := Suc (calls s),
     wire := wire s @ map (Pair p) (take r ms), freed := freed s @ drop r ms\<rparr>)"
    unfolding d
    using free_rest_eq [OF r, of "tb_tab s p" "s\<lparr>calls := Suc (calls s),
       wire := wire s @ map (Pair p) (take r ms)\<rparr>"] assms(2,3)
    by (simp add: send_burst_def eth_tx_burst_def Let_def flip: ms_def r_def split: if_splits)
qed

lemma send_burst_view:
  assumes "tx_burst_ok E" and "port_ok E p" and "n \<le> MAX_PKT_BURST"
  shows "tx_view (snd (send_burst E n p s)) = abs_emit E p (map (tb_tab s p) [0..<n]) (tx_view s)"
  unfolding send_burst_eq(1) [OF assms]
  by (simp add: tx_view_def abs_emit_def abs_taken_def buffered_def fun_eq_iff)

text \<open>A run of stores into one transmit table.\<close>

definition overlay :: "nat \<Rightarrow> nat \<Rightarrow> (nat \<Rightarrow> 'a) \<Rightarrow> (nat \<Rightarrow> 'a) \<Rightarrow> nat \<Rightarrow> 'a" where
  "overlay b n m f = (\<lambda>i. if b \<le> i \<and> i < b + n then m (i - b) else f i)"

lemma overlay_Suc: "(overlay b n m f)(b + n := m n) = overlay b (Suc n) m f"
  by (auto simp: overlay_def fun_eq_iff)

lemma overlay_0 [simp]: "overlay b 0 m f = f"
  unfolding overlay_def by (rule ext) auto

lemma map_overlay: "map (overlay b n m f) [0..<b + n] = map f [0..<b] @ map m [0..<n]"
proof (rule nth_equalityI)
  fix i assume "i < length (map (overlay b n m f) [0..<b + n])"
  then show "map (overlay b n m f) [0..<b + n] ! i = (map f [0..<b] @ map m [0..<n]) ! i"
    by (auto simp: overlay_def nth_append)
qed simp

lemma store_tx_eq:
  "i < MAX_PKT_BURST \<Longrightarrow> store_tx p i v s = s\<lparr>tb_tab := (tb_tab s)(p := (tb_tab s p)(i := v))\<rparr>"
  by (simp add: store_tx_def not_le [symmetric] del: not_le)

lemma store_run:
  "b + n \<le> MAX_PKT_BURST \<Longrightarrow> fold (\<lambda>j. store_tx p (b + j) (m j)) [0..<n] s
    = s\<lparr>tb_tab := (tb_tab s)(p := overlay b n m (tb_tab s p))\<rparr>"
proof (induction n)
  case (Suc n)
  let ?t = "s\<lparr>tb_tab := (tb_tab s)(p := overlay b n m (tb_tab s p))\<rparr>"
  have "fold (\<lambda>j. store_tx p (b + j) (m j)) [0..<n] s = ?t"
    by (rule Suc.IH) (use Suc.prems in simp)
  then have "fold (\<lambda>j. store_tx p (b + j) (m j)) [0..<Suc n] s = store_tx p (b + n) (m n) ?t"
    by (simp only: upt_Suc zero_le if_True fold_append comp_apply fold_simps)
  also have "\<dots> = ?t\<lparr>tb_tab := (tb_tab ?t)(p := (tb_tab ?t p)(b + n := m n))\<rparr>"
    using Suc.prems by (intro store_tx_eq) simp
  also have "\<dots> = s\<lparr>tb_tab := (tb_tab s)(p := (overlay b n m (tb_tab s p))(b + n := m n))\<rparr>"
    by simp
  finally show ?case by (simp only: overlay_Suc)
qed simp

lemma duff_store_run:
  assumes "0 < n" and "b + n \<le> MAX_PKT_BURST"
  shows "duff (\<lambda>j. store_tx p (b + j) (m j)) n s
    = s\<lparr>tb_tab := (tb_tab s)(p := overlay b n m (tb_tab s p))\<rparr>"
  by (simp only: duff_fold [OF assms(1)] store_run [OF assms(2)])

lemma view_len: "tx_view (s\<lparr>tb_len := (tb_len s)(p := k)\<rparr>)
    = abs_buf p (map (tb_tab s p) [0..<k]) (tx_view s)"
  by (auto simp: tx_view_def abs_buf_def buffered_def fun_eq_iff)

lemma view_tab: "tx_view (s\<lparr>tb_tab := (tb_tab s)(p := f)\<rparr>)
    = abs_buf p (map f [0..<tb_len s p]) (tx_view s)"
  by (auto simp: tx_view_def abs_buf_def buffered_def fun_eq_iff)

lemma abs_buf_emit: "abs_buf p b (abs_emit E p' ms a) = abs_emit E p' ms (abs_buf p b a)"
  by (simp add: abs_buf_def abs_emit_def abs_taken_def)

lemma abs_buf_buf [simp]: "abs_buf p b (abs_buf p b' a) = abs_buf p b a"
  by (simp add: abs_buf_def)

lemma tx_view_sel [simp]:
  "a_buf (tx_view s) = buffered s" "a_wire (tx_view s) = wire s" "a_freed (tx_view s) = freed s"
  "a_calls (tx_view s) = calls s" "a_queue (tx_view s) = tx_queue_id s"
  "a_bad (tx_view s) = out_of_range s"
  by (simp_all add: tx_view_def)

lemma send_burst_frame [frame]:
  assumes "tx_burst_ok E" and "port_ok E p" and "n \<le> MAX_PKT_BURST"
  shows "tb_tab (snd (send_burst E n p s)) = tb_tab s"
    and "tb_len (snd (send_burst E n p s)) = tb_len s"
    and "rx_queue_list (snd (send_burst E n p s)) = rx_queue_list s"
    and "tx_port_id (snd (send_burst E n p s)) = tx_port_id s"
  unfolding send_burst_eq(1) [OF assms] by simp_all

text \<open>A store past the end of the waiting packets, then the new length.\<close>

lemma view_push_run:
  "tx_view (s\<lparr>tb_tab := (tb_tab s)(p := overlay (tb_len s p) n m (tb_tab s p)),
      tb_len := (tb_len s)(p := tb_len s p + n)\<rparr>)
   = abs_buf p (buffered s p @ map m [0..<n]) (tx_view s)"
  by (auto simp: tx_view_def abs_buf_def buffered_def fun_eq_iff map_overlay)

lemma drain_port_view:
  assumes "tx_burst_ok E" and "port_ok E p" and "tb_len s p \<le> MAX_PKT_BURST"
  shows "tx_view (drain_port E p s) = abs_drain E p (tx_view s)"
proof (cases "tb_len s p = 0")
  case True
  then show ?thesis by (simp add: drain_port_def abs_drain_def buffered_def)
next
  case False
  then have "buffered s p \<noteq> []" by (simp add: buffered_def)
  with False show ?thesis
    by (simp add: drain_port_def abs_drain_def Let_def view_len send_burst_view [OF assms]
        flip: buffered_def)
qed

lemma send_single_packet_view:
  assumes "tx_burst_ok E" and "port_ok E p" and "tb_len s p < MAX_PKT_BURST"
    and "rx_burst_size G \<le> MAX_PKT_BURST"
  shows "tx_view (snd (send_single_packet E G m p s)) = abs_single E G p m (tx_view s)"
proof -
  let ?l = "tb_len s p"
  let ?t = "s\<lparr>tb_tab := (tb_tab s)(p := (tb_tab s p)(?l := m))\<rparr>"
  have st: "store_tx p ?l m s = ?t" by (rule store_tx_eq) (rule assms(3))
  have b: "map ((tb_tab s p)(?l := m)) [0..<Suc ?l] = buffered s p @ [m]"
    by (simp add: buffered_def)
  show ?thesis
  proof (cases "Suc ?l = rx_burst_size G")
    case True
    have v: "tx_view (snd (send_burst E (rx_burst_size G) p ?t))
        = abs_emit E p (buffered s p @ [m]) (tx_view ?t)"
      using send_burst_view [OF assms(1,2,4), of ?t] b True by simp
    have "snd (send_single_packet E G m p s) = (snd (send_burst E (rx_burst_size G) p ?t))
        \<lparr>tb_len := (tb_len (snd (send_burst E (rx_burst_size G) p ?t)))(p := 0)\<rparr>"
      using True assms(2) by (simp add: send_single_packet_def st Let_def case_prod_beta)
    then have "tx_view (snd (send_single_packet E G m p s))
        = abs_buf p [] (abs_emit E p (buffered s p @ [m]) (tx_view ?t))"
      by (simp only: view_len v upt_0 list.map)
    also have "\<dots> = abs_buf p [] (abs_emit E p (buffered s p @ [m]) (tx_view s))"
      by (simp only: abs_buf_emit view_tab abs_buf_buf)
    finally show ?thesis using True by (simp add: abs_single_def)
  next
    case False
    then have "snd (send_single_packet E G m p s) = ?t\<lparr>tb_len := (tb_len s)(p := Suc ?l)\<rparr>"
      using assms(2) by (simp add: send_single_packet_def st Let_def case_prod_beta)
    then have "tx_view (snd (send_single_packet E G m p s)) = abs_buf p (buffered s p @ [m]) (tx_view s)"
      using view_len [of ?t p "Suc ?l"] b by (simp add: view_tab)
    then show ?thesis using False by (simp add: abs_single_def)
  qed
qed

text \<open>Four-packet stores: direct, into the buffer, or through a full buffer.\<close>

lemma x4_direct:
  assumes "tx_burst_ok E" and "port_ok E p"
    and "tx_burst_size G \<le> num" and "tb_len s p = 0"
  shows "tx_view (snd (send_packetsx4 E G p m num s))
      = abs_emit E p (map m [0..<num]) (tx_view s)"
    and "tb_len (snd (send_packetsx4 E G p m num s)) = tb_len s"
    and "fst (send_packetsx4 E G p m num s)
      = (let n = abs_taken E p (map m [0..<num]) (tx_view s)
         in \<lparr>st_sent = n, st_dropped = num - n\<rparr>)"
proof -
  let ?ms = "map m [0..<num]"
  let ?n = "tx_burst E (calls s) p (tx_queue_id s p) ?ms"
  let ?s = "s\<lparr>calls := Suc (calls s), wire := wire s @ map (Pair p) (take ?n ?ms)\<rparr>"
  have n: "?n \<le> num" using tx_burst_le [OF assms(1), of "calls s" p "tx_queue_id s p" ?ms] by simp
  have d: "drop ?n ?ms = map m [?n..<num]" by (rule drop_map_upt) (rule n)
  have e: "send_packetsx4 E G p m num s
      = (\<lparr>st_sent = ?n, st_dropped = num - ?n\<rparr>, ?s\<lparr>freed := freed s @ map m [?n..<num]\<rparr>)"
    using free_rest_eq [OF n, of m ?s] assms(2-4)
    by (simp add: send_packetsx4_def eth_tx_burst_def Let_def split: if_splits)
  show "tx_view (snd (send_packetsx4 E G p m num s)) = abs_emit E p ?ms (tx_view s)"
    unfolding e by (simp add: tx_view_def abs_emit_def abs_taken_def d buffered_def fun_eq_iff)
  show "tb_len (snd (send_packetsx4 E G p m num s)) = tb_len s"
    unfolding e by simp
  show "fst (send_packetsx4 E G p m num s)
      = (let n = abs_taken E p ?ms (tx_view s) in \<lparr>st_sent = n, st_dropped = num - n\<rparr>)"
    unfolding e by (simp add: abs_taken_def Let_def)
qed

lemma x4_buffer:
  assumes "port_ok E p" and "0 < num" and "\<not> (tx_burst_size G \<le> num \<and> tb_len s p = 0)"
    and "tb_len s p + num < MAX_PKT_BURST"
  shows "send_packetsx4 E G p m num s = (\<lparr>st_sent = 0, st_dropped = 0\<rparr>,
     s\<lparr>tb_tab := (tb_tab s)(p := overlay (tb_len s p) num m (tb_tab s p)),
       tb_len := (tb_len s)(p := tb_len s p + num)\<rparr>)"
  using assms(1,3,4) duff_store_run [of num "tb_len s p" p m s] assms(2)
  by (auto simp: send_packetsx4_def Let_def)

lemma map_take_run: "b + n = k \<Longrightarrow> n \<le> num \<Longrightarrow>
    map (overlay b n m f) [0..<k] = take k (map f [0..<b] @ map m [0..<num])"
  by (auto simp: map_overlay take_map_upt)

text \<open>The buffer fills up: \<open>n\<close> packets complete it, the others start the next one.\<close>

lemma x4_full:
  fixes m :: "nat \<Rightarrow> mbuf" and s :: lcore and num :: nat
  assumes "tx_burst_ok E" and "port_ok E p"
    and "\<not> (tx_burst_size G \<le> num \<and> tb_len s p = 0)"
    and "tb_len s p < MAX_PKT_BURST" and "MAX_PKT_BURST \<le> tb_len s p + num" and "num \<le> MAX_PKT_BURST"
  defines "b \<equiv> buffered s p @ map m [0..<num]"
  shows "tx_view (snd (send_packetsx4 E G p m num s))
      = abs_buf p (drop MAX_PKT_BURST b) (abs_emit E p (take MAX_PKT_BURST b) (tx_view s))"
    and "fst (send_packetsx4 E G p m num s)
      = (let n = abs_taken E p (take MAX_PKT_BURST b) (tx_view s)
         in \<lparr>st_sent = n, st_dropped = MAX_PKT_BURST - n\<rparr>)"
proof -
  let ?l = "tb_len s p"
  define n where "n = MAX_PKT_BURST - ?l"
  define t where "t = s\<lparr>tb_tab := (tb_tab s)(p := overlay ?l n m (tb_tab s p))\<rparr>"
  define u where "u = snd (send_burst E MAX_PKT_BURST p t)"
  have c: "(tx_burst_size G \<le> num \<and> ?l = 0) = False" using assms(3) by simp
  have n: "0 < n" "?l + n = MAX_PKT_BURST" "n \<le> num" using assms by (simp_all add: n_def)
  have n': "(if MAX_PKT_BURST < ?l + num then MAX_PKT_BURST - ?l else num) = n"
    using assms(5) by (auto simp: n_def)
  have d1: "duff (\<lambda>j. store_tx p (?l + j) (m j)) n s = t"
    unfolding t_def by (rule duff_store_run) (use n in auto)
  have tb: "map (tb_tab t p) [0..<MAX_PKT_BURST] = take MAX_PKT_BURST b"
    using map_take_run [OF n(2,3), of m "tb_tab s p"] by (simp add: t_def b_def buffered_def)
  have uv: "tx_view u = abs_emit E p (take MAX_PKT_BURST b) (tx_view t)"
    unfolding u_def send_burst_view [OF assms(1,2) order.refl] tb ..
  have fr: "tb_tab u = tb_tab t" "tb_len u = tb_len t"
    unfolding u_def by (rule send_burst_frame [OF assms(1,2) order.refl])+
  have rest: "drop MAX_PKT_BURST b = map (\<lambda>j. m (n + j)) [0..<num - n]"
  proof -
    have "drop MAX_PKT_BURST b = drop n (map m [0..<num])"
      using n assms(4) by (simp add: b_def n_def)
    also have "\<dots> = map m [n..<n + (num - n)]" using n by (simp add: drop_map_upt)
    finally show ?thesis by (simp only: map_upt_shift)
  qed
  define w where "w = (if num - n = 0 then u
     else duff (\<lambda>j. store_tx p j (m (n + j))) (num - n) u)"
  have w: "w = u\<lparr>tb_tab := (tb_tab u)(p := overlay 0 (num - n) (\<lambda>j. m (n + j)) (tb_tab u p))\<rparr>"
  proof (cases "num - n = 0")
    case False
    then have "duff (\<lambda>j. store_tx p (0 + j) (m (n + j))) (num - n) u
        = u\<lparr>tb_tab := (tb_tab u)(p := overlay 0 (num - n) (\<lambda>j. m (n + j)) (tb_tab u p))\<rparr>"
      by (intro duff_store_run) (use assms(6) in auto)
    with False show ?thesis by (simp add: w_def)
  qed (simp add: w_def)
  have e: "send_packetsx4 E G p m num s
      = (\<lparr>st_sent = fst (send_burst E MAX_PKT_BURST p t),
          st_dropped = MAX_PKT_BURST - fst (send_burst E MAX_PKT_BURST p t)\<rparr>,
         w\<lparr>tb_len := (tb_len w)(p := num - n)\<rparr>)"
    unfolding send_packetsx4_def Let_def port_index_ok [OF assms(2)] bad_access_False c n' d1 n(2)
    by (simp add: case_prod_beta w_def u_def)
  have m0: "map (overlay 0 k f g) [0..<k] = map f [0..<k]" for k f and g :: "nat \<Rightarrow> mbuf"
    using map_overlay [of 0 k f g] by simp
  have "tx_view (w\<lparr>tb_len := (tb_len w)(p := num - n)\<rparr>)
      = abs_buf p (drop MAX_PKT_BURST b) (tx_view u)"
    unfolding view_len unfolding w view_tab by (simp add: m0 rest)
  then show "tx_view (snd (send_packetsx4 E G p m num s))
      = abs_buf p (drop MAX_PKT_BURST b) (abs_emit E p (take MAX_PKT_BURST b) (tx_view s))"
    unfolding e by (simp add: uv abs_buf_emit t_def view_tab)
  have "fst (send_burst E MAX_PKT_BURST p t) = abs_taken E p (take MAX_PKT_BURST b) (tx_view s)"
    unfolding send_burst_eq(1) [OF assms(1,2) order.refl] tb
    by (simp add: abs_taken_def t_def)
  then show "fst (send_packetsx4 E G p m num s)
      = (let n = abs_taken E p (take MAX_PKT_BURST b) (tx_view s)
         in \<lparr>st_sent = n, st_dropped = MAX_PKT_BURST - n\<rparr>)"
    unfolding e by (simp add: Let_def)
qed

lemma send_packetsx4_view:
  assumes "tx_burst_ok E" and "port_ok E p" and "0 < num" and "num \<le> MAX_PKT_BURST"
    and "tb_len s p < MAX_PKT_BURST"
  shows "tx_view (snd (send_packetsx4 E G p m num s)) = abs_x4 E G p (map m [0..<num]) (tx_view s)"
proof -
  consider (direct) "tx_burst_size G \<le> num" "tb_len s p = 0"
    | (buffer) "\<not> (tx_burst_size G \<le> num \<and> tb_len s p = 0)" "tb_len s p + num < MAX_PKT_BURST"
    | (full) "\<not> (tx_burst_size G \<le> num \<and> tb_len s p = 0)" "MAX_PKT_BURST \<le> tb_len s p + num"
    by linarith
  then show ?thesis
  proof cases
    case direct
    then have "buffered s p = []" by (simp add: buffered_def)
    then show ?thesis
      using x4_direct(1) [OF assms(1,2) direct] direct(1) by (simp add: abs_x4_def)
  next
    case buffer
    then show ?thesis
      using x4_buffer [OF assms(2,3) buffer] view_push_run [of s p num m]
      by (auto simp: abs_x4_def Let_def simp flip: length_0_conv)
  next
    case full
    then show ?thesis
      using x4_full(1) [OF assms(1,2) full(1) assms(5) full(2) assms(4), of m]
      by (auto simp: abs_x4_def Let_def simp flip: length_0_conv)
  qed
qed

section \<open>Invariant, conservation and order\<close>

text \<open>Every packet is in exactly one place: with the driver, freed, or waiting. Per port, the
  packets given to the driver followed by those waiting are the packets in order.\<close>

definition content :: "tx_abs \<Rightarrow> mbuf multiset" where
  "content a = mset (map snd (a_wire a)) + mset (a_freed a) + (\<Sum>p\<in>UNIV. mset (a_buf a p))"

definition out_seq :: "tx_abs \<Rightarrow> u16 \<Rightarrow> mbuf list" where
  "out_seq a p = map snd (filter (\<lambda>x. fst x = p) (a_wire a)) @ a_buf a p"

text \<open>A driver that takes every packet it is offered.\<close>

definition lossless :: "dpdk \<Rightarrow> bool" where
  "lossless E \<longleftrightarrow> (\<forall>c p q ms. tx_burst E c p q ms = length ms)"

lemma sum_upd:
  "(\<Sum>q\<in>UNIV. mset ((f(p := b)) q)) + mset (f (p::u16)) = (\<Sum>q\<in>UNIV. mset (f q)) + mset b"
proof -
  have "(\<Sum>q\<in>UNIV. mset ((f(p := b)) q)) = mset b + (\<Sum>q\<in>UNIV - {p}. mset (f q))"
    by (subst sum.remove [of _ p]) simp_all
  moreover have "(\<Sum>q\<in>UNIV. mset (f q)) = mset (f p) + (\<Sum>q\<in>UNIV - {p}. mset (f q))"
    by (subst sum.remove [of _ p]) simp_all
  ultimately show ?thesis by simp
qed

lemma content_buf: "content (abs_buf p b a) + mset (a_buf a p) = content a + mset b"
  using sum_upd [of "a_buf a" p b] by (simp add: content_def abs_buf_def add.commute add.left_commute)

lemma content_emit: "content (abs_emit E p ms a) = content a + mset ms"
proof -
  have "mset (take n ms) + mset (drop n ms) = mset ms" for n
    by (metis append_take_drop_id mset_append)
  then show ?thesis
    by (simp add: content_def abs_emit_def comp_def add.assoc add.commute add.left_commute)
qed

lemma out_seq_other: "q \<noteq> p \<Longrightarrow> out_seq (abs_buf p b a) q = out_seq a q"
  "q \<noteq> p \<Longrightarrow> out_seq (abs_emit E p ms a) q = out_seq a q"
  by (simp_all add: out_seq_def abs_buf_def abs_emit_def filter_empty_conv filter_map comp_def)

lemma out_seq_emit:
  "lossless E \<Longrightarrow> a_buf a p = [] \<Longrightarrow> out_seq (abs_emit E p ms a) p = out_seq a p @ ms"
  by (simp add: out_seq_def abs_emit_def abs_taken_def lossless_def filter_map comp_def)

lemma out_seq_buf: "out_seq (abs_buf p b a) p
    = map snd (filter (\<lambda>x. fst x = p) (a_wire a)) @ b"
  by (simp add: out_seq_def abs_buf_def)

section \<open>A transmit operation as an interface\<close>

text \<open>What the forwarding code relies on when it pushes packets out: whatever the operation, it
  keeps the invariant of the buffers, loses no packet, leaves the other ports alone, and with a
  driver that takes everything it keeps the order. \<open>good\<close> is the operation's requirement on the
  burst sizes, \<open>lim\<close> its limit on a buffer, \<open>accept\<close> the ports it may be called with.\<close>

definition tx_inv :: "nat \<Rightarrow> lcore \<Rightarrow> bool" where
  "tx_inv lim s \<longleftrightarrow> (\<forall>p. tb_len s p < lim) \<and> \<not> out_of_range s"

locale tx_sink =
  fixes good :: "glob \<Rightarrow> nat \<Rightarrow> bool"
    and lim :: "glob \<Rightarrow> nat"
    and accept :: "dpdk \<Rightarrow> u16 \<Rightarrow> bool"
    and push :: "dpdk \<Rightarrow> glob \<Rightarrow> u16 \<Rightarrow> mbuf list \<Rightarrow> lcore \<Rightarrow> lcore"
  assumes push_inv: "tx_burst_ok E \<Longrightarrow> good G (length ms) \<Longrightarrow> accept E p \<Longrightarrow> tx_inv (lim G) s \<Longrightarrow>
      tx_inv (lim G) (push E G p ms s)"
    and push_content: "tx_burst_ok E \<Longrightarrow> good G (length ms) \<Longrightarrow> accept E p \<Longrightarrow> tx_inv (lim G) s \<Longrightarrow>
      content (tx_view (push E G p ms s)) = content (tx_view s) + mset ms"
    and push_other: "tx_burst_ok E \<Longrightarrow> good G (length ms) \<Longrightarrow> accept E p \<Longrightarrow> tx_inv (lim G) s \<Longrightarrow>
      q \<noteq> p \<Longrightarrow> out_seq (tx_view (push E G p ms s)) q = out_seq (tx_view s) q"
    and push_order: "tx_burst_ok E \<Longrightarrow> good G (length ms) \<Longrightarrow> accept E p \<Longrightarrow> tx_inv (lim G) s \<Longrightarrow>
      port_ok E p \<Longrightarrow> lossless E \<Longrightarrow> out_seq (tx_view (push E G p ms s)) p = out_seq (tx_view s) p @ ms"
begin

text \<open>A sequence of pushes, each to its port.\<close>

definition push_all :: "dpdk \<Rightarrow> glob \<Rightarrow> (u16 \<times> mbuf list) list \<Rightarrow> lcore \<Rightarrow> lcore" where
  "push_all E G xs s = fold (\<lambda>(p, ms). push E G p ms) xs s"

definition pushable :: "dpdk \<Rightarrow> glob \<Rightarrow> (u16 \<times> mbuf list) list \<Rightarrow> bool" where
  "pushable E G xs \<longleftrightarrow> (\<forall>(p, ms) \<in> set xs. good G (length ms) \<and> accept E p)"

lemma pushable_Cons [simp]:
  "pushable E G ((p, ms) # xs) \<longleftrightarrow> good G (length ms) \<and> accept E p \<and> pushable E G xs"
  by (simp add: pushable_def)

lemma push_all_Nil [simp]: "push_all E G [] s = s"
  by (simp add: push_all_def)

lemma push_all_Cons [simp]: "push_all E G ((p, ms) # xs) s = push_all E G xs (push E G p ms s)"
  by (simp add: push_all_def)

lemma push_all_inv:
  assumes "tx_burst_ok E"
  shows "pushable E G xs \<Longrightarrow> tx_inv (lim G) s \<Longrightarrow> tx_inv (lim G) (push_all E G xs s)"
  by (induction xs arbitrary: s) (auto simp: push_inv [OF assms])

lemma push_all_content:
  assumes "tx_burst_ok E"
  shows "pushable E G xs \<Longrightarrow> tx_inv (lim G) s \<Longrightarrow>
    content (tx_view (push_all E G xs s)) = content (tx_view s) + mset (concat (map snd xs))"
  by (induction xs arbitrary: s) (auto simp: push_content push_inv assms)

lemma push_all_order:
  assumes "tx_burst_ok E" and "lossless E" and "port_ok E q"
  shows "pushable E G xs \<Longrightarrow> tx_inv (lim G) s \<Longrightarrow>
    out_seq (tx_view (push_all E G xs s)) q
      = out_seq (tx_view s) q @ concat (map snd (filter (\<lambda>x. fst x = q) xs))"
  by (induction xs arbitrary: s) (auto simp: push_order push_other push_inv assms)

end

lemma tx_inv_view:
  "tx_inv lim s \<longleftrightarrow> (\<forall>p. length (a_buf (tx_view s) p) < lim) \<and> \<not> a_bad (tx_view s)"
  by (simp add: tx_inv_def)

lemma port_upd_less: "(\<forall>q. length (f q) < n) \<Longrightarrow> length b < n \<Longrightarrow> length ((f(p := b)) q) < n"
  by simp

lemma abs_frame [simp]:
  "a_bad (abs_emit E p ms a) = a_bad a" "a_buf (abs_emit E p ms a) = a_buf a"
  "a_bad (abs_buf p b a) = a_bad a" "a_buf (abs_buf p b a) = (a_buf a)(p := b)"
  by (simp_all add: abs_emit_def abs_buf_def)

section \<open>\<open>send_packetsx4\<close> is such an operation\<close>

definition x4_push :: "dpdk \<Rightarrow> glob \<Rightarrow> u16 \<Rightarrow> mbuf list \<Rightarrow> lcore \<Rightarrow> lcore" where
  "x4_push E G p ms s = snd (send_packetsx4 E G p ((!) ms) (length ms) s)"

definition x4_good :: "glob \<Rightarrow> nat \<Rightarrow> bool" where
  "x4_good G n \<longleftrightarrow> 0 < n \<and> n \<le> MAX_PKT_BURST"

lemma x4_push_view:
  assumes "tx_burst_ok E" and "x4_good G (length ms)" and "port_ok E p"
    and "tx_inv MAX_PKT_BURST s"
  shows "tx_view (x4_push E G p ms s) = abs_x4 E G p ms (tx_view s)"
  using assms send_packetsx4_view [of E p "length ms" s G "(!) ms"]
  by (simp add: x4_push_def x4_good_def tx_inv_def map_nth)

lemma abs_x4_content: "content (abs_x4 E G p ms a) = content a + mset ms"
proof -
  have td: "mset (take n b) + mset (drop n b) = mset b" for n and b :: "mbuf list"
    by (metis append_take_drop_id mset_append)
  have "content (abs_buf p b' (abs_emit E p e a)) + mset (a_buf a p) = content a + mset ms + mset (a_buf a p)"
    if "mset b' + mset e = mset (a_buf a p) + mset ms" for b' e
    using content_buf [of p b' "abs_emit E p e a"] that
    by (simp add: content_emit add.commute add.left_commute)
  moreover have "content (abs_buf p (a_buf a p @ ms) a) + mset (a_buf a p)
      = content a + mset ms + mset (a_buf a p)"
    using content_buf [of p "a_buf a p @ ms" a] by (simp add: add.commute add.left_commute)
  ultimately show ?thesis
    using td [of MAX_PKT_BURST "a_buf a p @ ms"]
    by (simp add: abs_x4_def Let_def content_emit add.commute)
qed

lemma abs_x4_other: "q \<noteq> p \<Longrightarrow> out_seq (abs_x4 E G p ms a) q = out_seq a q"
  by (simp add: abs_x4_def Let_def out_seq_other)

lemma abs_x4_order:
  assumes "lossless E"
  shows "out_seq (abs_x4 E G p ms a) p = out_seq a p @ ms"
proof -
  have t: "abs_taken E p l a = length l" for l
    using assms by (simp add: abs_taken_def lossless_def)
  have w: "map snd (filter (\<lambda>x. fst x = p) (a_wire (abs_emit E p l a)))
      = map snd (filter (\<lambda>x. fst x = p) (a_wire a)) @ l" for l
    by (simp add: abs_emit_def t filter_map comp_def)
  have "out_seq (abs_buf p (drop n b) (abs_emit E p (take n b) a)) p
      = map snd (filter (\<lambda>x. fst x = p) (a_wire a)) @ b" for n b
    by (simp add: out_seq_buf w)
  then have "out_seq (abs_buf p (drop n b) (abs_emit E p (take n b) a)) p = out_seq a p @ ms"
    if "b = a_buf a p @ ms" for n b
    unfolding that by (simp only: out_seq_def append_assoc)
  moreover have "out_seq (abs_buf p (a_buf a p @ ms) a) p = out_seq a p @ ms"
    by (simp add: out_seq_buf) (simp add: out_seq_def)
  ultimately show ?thesis
    unfolding abs_x4_def Let_def by (simp add: out_seq_emit assms)
qed

interpretation x4: tx_sink x4_good "\<lambda>_. MAX_PKT_BURST" port_ok x4_push
proof
  fix E :: dpdk and G :: glob and ms :: "mbuf list" and s :: lcore and p q :: u16
  assume a: "tx_burst_ok E" "x4_good G (length ms)" "port_ok E p" "tx_inv MAX_PKT_BURST s"
  note v = x4_push_view [OF a]
  have "length (drop MAX_PKT_BURST (buffered s p @ ms)) < MAX_PKT_BURST"
  proof -
    have "tb_len s p < MAX_PKT_BURST" and "length ms \<le> MAX_PKT_BURST"
      using a(2,4) by (simp_all add: x4_good_def tx_inv_def)
    then show ?thesis by simp
  qed
  then show "tx_inv MAX_PKT_BURST (x4_push E G p ms s)"
    using a(4) unfolding tx_inv_view v
    by (auto simp: abs_x4_def Let_def)
  show "content (tx_view (x4_push E G p ms s)) = content (tx_view s) + mset ms"
    by (simp only: v abs_x4_content)
  show "q \<noteq> p \<Longrightarrow> out_seq (tx_view (x4_push E G p ms s)) q = out_seq (tx_view s) q"
    by (simp only: v abs_x4_other not_False_eq_True)
  show "lossless E \<Longrightarrow> out_seq (tx_view (x4_push E G p ms s)) p = out_seq (tx_view s) p @ ms"
    by (simp only: v abs_x4_order)
qed

text \<open>Only the packets it is given matter.\<close>

lemma duff_store_cong:
  assumes "0 < n" and "\<And>i. i < n \<Longrightarrow> m i = m' i"
  shows "duff (\<lambda>j. store_tx p (b + j) (m j)) n s = duff (\<lambda>j. store_tx p (b + j) (m' j)) n s"
  unfolding duff_fold [OF assms(1)] by (rule fold_cong) (simp_all add: assms(2))

lemma send_packetsx4_cong:
  assumes "0 < num" and "num \<le> MAX_PKT_BURST" and "tb_len s p < MAX_PKT_BURST"
    and eq: "\<And>i. i < num \<Longrightarrow> m i = m' i"
  shows "send_packetsx4 E G p m num s = send_packetsx4 E G p m' num s"
proof -
  let ?l = "tb_len s p"
  define n where "n = (if MAX_PKT_BURST < ?l + num then MAX_PKT_BURST - ?l else num)"
  have n: "0 < n" "n \<le> num" using assms(1,3) by (auto simp: n_def)
  have m: "map m [0..<num] = map m' [0..<num]" by (simp add: eq)
  have f: "(if r < num then free_tail m r num t else t) = (if r < num then free_tail m' r num t else t)"
    for r t by (auto simp: free_tail_eq eq)
  have d1: "duff (\<lambda>j. store_tx p (?l + j) (m j)) n t = duff (\<lambda>j. store_tx p (?l + j) (m' j)) n t" for t
    using n eq by (intro duff_store_cong) simp_all
  have d2: "(if num - n = 0 then t else duff (\<lambda>j. store_tx p j (m (n + j))) (num - n) t)
      = (if num - n = 0 then t else duff (\<lambda>j. store_tx p j (m' (n + j))) (num - n) t)" for t
    using duff_store_cong [of "num - n" "\<lambda>j. m (n + j)" "\<lambda>j. m' (n + j)" p 0] n eq by simp
  have l: "tb_len (bad_access c s) = tb_len s" for c by (simp add: bad_access_def)
  show ?thesis
    unfolding send_packetsx4_def Let_def l n_def [symmetric] m f d1 d2 ..
qed

section \<open>So is \<open>send_single_packet\<close>\<close>

definition single_push :: "dpdk \<Rightarrow> glob \<Rightarrow> u16 \<Rightarrow> mbuf list \<Rightarrow> lcore \<Rightarrow> lcore" where
  "single_push E G p ms s = fold (\<lambda>m s. snd (send_single_packet E G m p s)) ms s"

definition single_good :: "glob \<Rightarrow> nat \<Rightarrow> bool" where
  "single_good G n \<longleftrightarrow> 0 < rx_burst_size G \<and> rx_burst_size G \<le> MAX_PKT_BURST"

lemma abs_single_content: "content (abs_single E G p m a) = content a + {#m#}"
proof -
  have "content (abs_buf p b' (abs_emit E p e a)) + mset (a_buf a p)
      = content a + {#m#} + mset (a_buf a p)" if "mset b' + mset e = mset (a_buf a p) + {#m#}" for b' e
    using content_buf [of p b' "abs_emit E p e a"] that
    by (simp add: content_emit add.commute add.left_commute)
  moreover have "content (abs_buf p (a_buf a p @ [m]) a) + mset (a_buf a p)
      = content a + {#m#} + mset (a_buf a p)"
    using content_buf [of p "a_buf a p @ [m]" a] by (simp add: add.commute add.left_commute)
  ultimately show ?thesis by (simp add: abs_single_def Let_def)
qed

lemma abs_single_order:
  assumes "lossless E"
  shows "out_seq (abs_single E G p m a) p = out_seq a p @ [m]"
proof -
  have "out_seq (abs_emit E p b (abs_buf p [] a)) p = map snd (filter (\<lambda>x. fst x = p) (a_wire a)) @ b" for b
    by (subst out_seq_emit [OF assms]) (simp_all add: out_seq_buf)
  then have "out_seq (abs_buf p [] (abs_emit E p (a_buf a p @ [m]) a)) p = out_seq a p @ [m]"
    by (simp add: abs_buf_emit) (simp add: out_seq_def)
  moreover have "out_seq (abs_buf p (a_buf a p @ [m]) a) p = out_seq a p @ [m]"
    by (simp add: out_seq_buf) (simp add: out_seq_def)
  ultimately show ?thesis by (simp add: abs_single_def Let_def)
qed

text \<open>One packet, then by induction any number of them.\<close>

lemma single_step:
  assumes "tx_burst_ok E" and "single_good G n" and "port_ok E p" and "tx_inv (rx_burst_size G) s"
  shows "tx_view (snd (send_single_packet E G m p s)) = abs_single E G p m (tx_view s)"
    and "tx_inv (rx_burst_size G) (snd (send_single_packet E G m p s))"
proof -
  have l: "tb_len s q < rx_burst_size G" for q
    using assms(4) by (simp add: tx_inv_def)
  show v: "tx_view (snd (send_single_packet E G m p s)) = abs_single E G p m (tx_view s)"
    using assms(2) l [of p] by (intro send_single_packet_view assms(1,3)) (auto simp: single_good_def)
  have "Suc (tb_len s p) \<le> rx_burst_size G" using l [of p] by simp
  then show "tx_inv (rx_burst_size G) (snd (send_single_packet E G m p s))"
    using assms(2,4) unfolding tx_inv_view v
    by (auto simp: abs_single_def Let_def single_good_def)
qed

lemma single_push_Cons [simp]:
  "single_push E G p (m # ms) s = single_push E G p ms (snd (send_single_packet E G m p s))"
  "single_push E G p [] s = s"
  by (simp_all add: single_push_def)

interpretation single: tx_sink single_good rx_burst_size port_ok single_push
proof
  fix E :: dpdk and G :: glob and ms :: "mbuf list" and s :: lcore and p q :: u16
  assume a: "tx_burst_ok E" "single_good G (length ms)" "port_ok E p" "tx_inv (rx_burst_size G) s"
  have g: "single_good G n" for n using a(2) by (simp add: single_good_def)
  note step = single_step [OF a(1) g a(3)]
  show "tx_inv (rx_burst_size G) (single_push E G p ms s)"
    using a(4) by (induction ms arbitrary: s) (simp_all add: step)
  show "content (tx_view (single_push E G p ms s)) = content (tx_view s) + mset ms"
    using a(4) by (induction ms arbitrary: s) (simp_all add: step abs_single_content)
  show "out_seq (tx_view (single_push E G p ms s)) q = out_seq (tx_view s) q" if "q \<noteq> p"
  proof -
    have "out_seq (abs_single E G p m t) q = out_seq t q" for m t
      using that by (simp add: abs_single_def Let_def out_seq_other)
    with a(4) show ?thesis by (induction ms arbitrary: s) (simp_all add: step)
  qed
  show "out_seq (tx_view (single_push E G p ms s)) p = out_seq (tx_view s) p @ ms" if "lossless E"
    using a(4) by (induction ms arbitrary: s) (simp_all add: step abs_single_order that)
qed

section \<open>The drain\<close>

lemma abs_drain_content: "content (abs_drain E p a) = content a"
proof -
  have "content (abs_buf p [] (abs_emit E p (a_buf a p) a)) + mset (a_buf a p)
      = content a + mset (a_buf a p)"
    using content_buf [of p "[]" "abs_emit E p (a_buf a p) a"] by (simp add: content_emit)
  then show ?thesis by (simp add: abs_drain_def)
qed

lemma drain_port_tx_port_id [simp]:
  "tx_burst_ok E \<Longrightarrow> port_ok E p \<Longrightarrow> tb_len s p \<le> MAX_PKT_BURST \<Longrightarrow>
   tx_port_id (drain_port E p s) = tx_port_id s"
  by (simp add: drain_port_def Let_def frame)

lemma drain_port_inv:
  assumes "tx_burst_ok E" and "port_ok E p" and "tx_inv lim s" and "lim \<le> MAX_PKT_BURST"
  shows "tx_inv lim (drain_port E p s)" and "buffered (drain_port E p s) p = []"
    and "q \<noteq> p \<Longrightarrow> buffered (drain_port E p s) q = buffered s q"
    and "content (tx_view (drain_port E p s)) = content (tx_view s)"
proof -
  have "tb_len s p < lim" using assms(3) by (simp add: tx_inv_def)
  then have "tb_len s p \<le> MAX_PKT_BURST" using assms(4) by simp
  note v = drain_port_view [OF assms(1,2) this]
  have "0 < lim" using \<open>tb_len s p < lim\<close> by simp
  then show "tx_inv lim (drain_port E p s)"
    using assms(3) unfolding tx_inv_view v by (auto simp: abs_drain_def)
  have b: "buffered (drain_port E p s) = a_buf (abs_drain E p (tx_view s))"
    by (simp flip: v)
  show "buffered (drain_port E p s) p = []" unfolding b by (simp add: abs_drain_def)
  show "q \<noteq> p \<Longrightarrow> buffered (drain_port E p s) q = buffered s q"
    unfolding b by (simp add: abs_drain_def)
  show "content (tx_view (drain_port E p s)) = content (tx_view s)"
    by (simp only: v abs_drain_content)
qed

lemma drain_list:
  assumes "tx_burst_ok E" and "lim \<le> MAX_PKT_BURST"
  shows "\<forall>p \<in> set ps. port_ok E p \<Longrightarrow> tx_inv lim s \<Longrightarrow>
    tx_inv lim (fold (drain_port E) ps s)
    \<and> content (tx_view (fold (drain_port E) ps s)) = content (tx_view s)
    \<and> (\<forall>q. q \<notin> set ps \<longrightarrow> buffered (fold (drain_port E) ps s) q = buffered s q)
    \<and> (\<forall>q \<in> set ps. buffered (fold (drain_port E) ps s) q = [])"
proof (induction ps arbitrary: s)
  case (Cons p ps)
  then have p: "port_ok E p" and ps: "\<forall>p \<in> set ps. port_ok E p" by simp_all
  note d = drain_port_inv [OF assms(1) p Cons.prems(2) assms(2)]
  note ih = Cons.IH [OF ps d(1)]
  have "buffered (fold (drain_port E) ps (drain_port E p s)) p = []"
    using ih d(2) by (cases "p \<in> set ps") simp_all
  then show ?case using ih d(3,4) by auto
qed simp

section \<open>Accounting\<close>

text \<open>The returned statistics are what happened.\<close>

definition accounts :: "u16 \<Rightarrow> nat \<Rightarrow> lcore \<Rightarrow> tx_stats \<times> lcore \<Rightarrow> bool" where
  "accounts p num s r = (case r of (stats, s') \<Rightarrow>
     st_sent stats + st_dropped stats + tb_len s' p = num + tb_len s p \<and>
     length (wire s') = length (wire s) + st_sent stats \<and>
     length (freed s') = length (freed s) + st_dropped stats)"

lemma abs_emit_lengths:
  assumes "tx_burst_ok E"
  shows "abs_taken E p ms a \<le> length ms"
    and "length (a_wire (abs_emit E p ms a)) = length (a_wire a) + abs_taken E p ms a"
    and "length (a_freed (abs_emit E p ms a)) = length (a_freed a) + (length ms - abs_taken E p ms a)"
  using tx_burst_le [OF assms] by (simp_all add: abs_emit_def abs_taken_def)

lemma view_lengths:
  "length (wire s) = length (a_wire (tx_view s))" "length (freed s) = length (a_freed (tx_view s))"
  "tb_len s p = length (a_buf (tx_view s) p)"
  by simp_all

lemma abs_buf_sel [simp]:
  "a_wire (abs_buf p b a) = a_wire a" "a_freed (abs_buf p b a) = a_freed a"
  by (simp_all add: abs_buf_def)

lemma send_packetsx4_accounts_ok:
  assumes "tx_burst_ok E" and "port_ok E p" and "0 < num" and "num \<le> MAX_PKT_BURST"
    and "tb_len s p < MAX_PKT_BURST"
  shows "accounts p num s (send_packetsx4 E G p m num s)"
proof -
  let ?r = "send_packetsx4 E G p m num s"
  consider (direct) "tx_burst_size G \<le> num" "tb_len s p = 0"
    | (buffer) "\<not> (tx_burst_size G \<le> num \<and> tb_len s p = 0)" "tb_len s p + num < MAX_PKT_BURST"
    | (full) "\<not> (tx_burst_size G \<le> num \<and> tb_len s p = 0)" "MAX_PKT_BURST \<le> tb_len s p + num"
    by linarith
  then show ?thesis
  proof cases
    case direct
    let ?ms = "map m [0..<num]"
    note d = x4_direct [OF assms(1,2) direct, of m]
    have "length (wire (snd ?r)) = length (wire s) + abs_taken E p ?ms (tx_view s)"
      "length (freed (snd ?r)) = length (freed s) + (num - abs_taken E p ?ms (tx_view s))"
      unfolding view_lengths(1,2) d(1) by (simp_all add: abs_emit_lengths [OF assms(1)])
    then show ?thesis
      using d(2,3) abs_emit_lengths(1) [OF assms(1), of p ?ms "tx_view s"]
      by (simp add: accounts_def case_prod_beta Let_def)
  next
    case buffer
    then show ?thesis
      using x4_buffer [OF assms(2,3) buffer] by (simp add: accounts_def)
  next
    case full
    let ?b = "buffered s p @ map m [0..<num]"
    let ?k = "abs_taken E p (take MAX_PKT_BURST ?b) (tx_view s)"
    note f = x4_full [OF assms(1,2) full(1) assms(5) full(2) assms(4), of m]
    have b: "length (take MAX_PKT_BURST ?b) = MAX_PKT_BURST"
      using full(2) by simp
    have k: "?k \<le> MAX_PKT_BURST"
      using abs_emit_lengths(1) [OF assms(1), of p "take MAX_PKT_BURST ?b" "tx_view s"] unfolding b .
    have "length (wire (snd ?r)) = length (wire s) + ?k"
      "length (freed (snd ?r)) = length (freed s) + (MAX_PKT_BURST - ?k)"
      unfolding view_lengths(1,2) f(1) abs_buf_sel abs_emit_lengths(2,3) [OF assms(1)] b by simp_all
    moreover have "tb_len (snd ?r) p = tb_len s p + num - MAX_PKT_BURST"
      unfolding view_lengths(3) f(1) using assms(5) by simp
    ultimately show ?thesis
      using f(2) k full(2) by (simp add: accounts_def case_prod_beta Let_def)
  qed
qed

section \<open>The configuration stays\<close>

definition same_conf :: "lcore \<Rightarrow> lcore \<Rightarrow> bool" where
  "same_conf s s' \<longleftrightarrow> rx_queue_list s' = rx_queue_list s \<and> tx_port_id s' = tx_port_id s
     \<and> tx_queue_id s' = tx_queue_id s"

lemma same_conf_refl [simp]: "same_conf s s"
  by (simp add: same_conf_def)

lemma same_conf_trans: "same_conf s t \<Longrightarrow> same_conf t u \<Longrightarrow> same_conf s u"
  by (simp add: same_conf_def)

lemma same_conf_upd [simp]:
  "same_conf s (s'\<lparr>tb_len := l\<rparr>) = same_conf s s'" "same_conf s (s'\<lparr>tb_tab := t\<rparr>) = same_conf s s'"
  "same_conf s (s'\<lparr>wire := w\<rparr>) = same_conf s s'" "same_conf s (s'\<lparr>freed := f\<rparr>) = same_conf s s'"
  "same_conf s (s'\<lparr>calls := c\<rparr>) = same_conf s s'" "same_conf s (s'\<lparr>out_of_range := b\<rparr>) = same_conf s s'"
  by (simp_all add: same_conf_def)

lemma same_conf_fold: "(\<And>x s. x \<in> set xs \<Longrightarrow> same_conf s (f x s)) \<Longrightarrow> same_conf s (fold f xs s)"
proof (induction xs arbitrary: s)
  case (Cons x xs)
  then have "same_conf s (f x s)" "same_conf (f x s) (fold f xs (f x s))" by simp_all
  then show ?case by (auto intro: same_conf_trans)
qed simp

lemma free_tail_conf: "same_conf s (if r < n then free_tail m r n s else s)"
  by (auto simp: free_tail_eq)

lemma free_tail_conf': "same_conf s t \<Longrightarrow> same_conf s (if r < n then free_tail m r n t else t)"
  using same_conf_trans free_tail_conf by blast

lemma send_burst_conf: "same_conf s (snd (send_burst E n p s))"
  unfolding send_burst_def Let_def eth_tx_burst_def bad_access_def
  by (simp del: map_map) (auto simp: free_tail_eq)

lemma store_tx_conf [simp]: "same_conf s (store_tx p i m s)"
  by (simp add: store_tx_def bad_access_def)

lemma duff_conf:
  assumes "\<And>j s. same_conf s (f j s)"
  shows "same_conf s (duff f n s)"
proof (cases "n = 0")
  case True
  have "same_conf s (f 3 (f 2 (f 1 (f 0 s))))"
    by (meson assms same_conf_trans)
  then show ?thesis by (simp add: True duff_zero)
next
  case False
  then show ?thesis by (simp add: duff_fold same_conf_fold assms)
qed

lemma bad_access_conf [simp]: "same_conf s (bad_access c s') = same_conf s s'"
  by (simp add: bad_access_def)

lemma send_packetsx4_conf: "same_conf s (snd (send_packetsx4 E G p m num s))"
proof -
  let ?s = "bad_access (port_index_bad E p) s"
  have d: "same_conf t (duff (\<lambda>j. store_tx p (b + j) (m' j)) n t)" for b m' n t
    by (rule duff_conf) simp
  have d0: "same_conf t (duff (\<lambda>j. store_tx p j (m' j)) n t)" for m' n t
    by (rule duff_conf) simp
  have full: "same_conf s (snd (send_burst E k p (duff (\<lambda>j. store_tx p (b + j) (m' j)) n ?s)))" for k b m' n
    using same_conf_trans [OF d [of ?s] send_burst_conf] by (auto intro: same_conf_trans [of s ?s])
  have full': "same_conf s (duff (\<lambda>j. store_tx p j (m'' j)) n'
      (snd (send_burst E k p (duff (\<lambda>j. store_tx p (b + j) (m' j)) n ?s))))" for k b m' n m'' n'
    by (rule same_conf_trans [OF full d0])
  have buf: "same_conf s (duff (\<lambda>j. store_tx p (b + j) (m' j)) n ?s)" for b m' n
    by (rule same_conf_trans [OF _ d]) simp
  show ?thesis
    unfolding send_packetsx4_def Let_def eth_tx_burst_def case_prod_beta
    by (auto simp: full full' buf free_tail_eq)
qed

lemma send_single_packet_conf: "same_conf s (snd (send_single_packet E G m p s))"
  using same_conf_trans [OF _ send_burst_conf, of s "store_tx p (tb_len s p) m (bad_access (port_index_bad E p) s)"]
  by (auto simp: send_single_packet_def Let_def case_prod_beta store_tx_def bad_access_def)

section \<open>A concrete lcore\<close>

definition lcore_ex :: lcore where
  "lcore_ex = \<lparr>rx_queue_list = [(0, 0)], tx_port_id = [0, 1, 2, 3], tx_queue_id = (\<lambda>_. 0),
     tb_len = (\<lambda>_. 0), tb_tab = (\<lambda>_. mbuf_ex), wire = [], freed = [], calls = 0,
     out_of_range = False\<rparr>"

lemma tx_inv_ex: "0 < lim \<Longrightarrow> tx_inv lim lcore_ex"
  by (simp add: tx_inv_def lcore_ex_def)

lemma port_ok_ex: "p < 32 \<Longrightarrow> port_ok dpdk_ex p"
  by (simp add: port_ok_def dpdk_ex_def word_less_nat_alt)

text \<open>The same build with a driver that takes everything.\<close>

definition dpdk_all :: dpdk where
  "dpdk_all = dpdk_ex\<lparr>tx_burst := (\<lambda>c p q ms. length ms)\<rparr>"

lemma lossless_all: "tx_burst_ok dpdk_all" "lossless dpdk_all"
  by (simp_all add: tx_burst_ok_def lossless_def dpdk_all_def)

lemma port_ok_all: "p < 32 \<Longrightarrow> port_ok dpdk_all p"
  by (simp add: port_ok_def dpdk_all_def dpdk_ex_def word_less_nat_alt)

lemma MAX_PKT_BURST_pos: "0 < MAX_PKT_BURST"
  by (simp add: MAX_PKT_BURST_def)

section \<open>Properties\<close>

text \<open>C9. \<open>send_packetsx4\<close> refines the abstract transmit queues: on a buffer that is not full
  and a burst of 1 to 512 packets, the tables, indices and copy loops of the code do what the
  queues say. A big burst on an empty buffer goes straight out; else the packets are appended,
  and when 512 are waiting exactly those 512 go out and the rest waits.\<close>

theorem send_packetsx4_refines:
  assumes "tx_burst_ok E" and "port_ok E p" and "0 < num" and "num \<le> MAX_PKT_BURST"
    and "tb_len s p < MAX_PKT_BURST"
  shows "tx_view (snd (send_packetsx4 E G p m num s)) = abs_x4 E G p (map m [0..<num]) (tx_view s)"
  by (rule send_packetsx4_view [OF assms])

theorem send_packetsx4_refines_witness:
  "tx_view (snd (send_packetsx4 dpdk_ex glob_ex 2 mbuf_ex 7 lcore_ex))
    = abs_x4 dpdk_ex glob_ex 2 (map mbuf_ex [0..<7]) (tx_view lcore_ex)"
  by (rule send_packetsx4_refines [OF tx_burst_ok_ex port_ok_ex])
     (simp_all add: MAX_PKT_BURST_def lcore_ex_def)

text \<open>Any sequence of \<open>send_packetsx4\<close> calls with bursts of 1 to 512 packets on existing
  ports keeps every buffer below 512, never accesses a table out of range and loses no packet;
  if the driver takes every packet it is offered, each port sends its packets in order.\<close>

lemma send_packetsx4_sequence:
  assumes "tx_burst_ok E" and "tx_inv MAX_PKT_BURST s"
    and "\<forall>(p, ms) \<in> set xs. x4_good G (length ms) \<and> port_ok E p"
  shows "tx_inv MAX_PKT_BURST (fold (\<lambda>(p, ms). x4_push E G p ms) xs s)
    \<and> content (tx_view (fold (\<lambda>(p, ms). x4_push E G p ms) xs s))
        = content (tx_view s) + mset (concat (map snd xs))
    \<and> (lossless E \<and> port_ok E q \<longrightarrow>
        out_seq (tx_view (fold (\<lambda>(p, ms). x4_push E G p ms) xs s)) q
          = out_seq (tx_view s) q @ concat (map snd (filter (\<lambda>x. fst x = q) xs)))"
proof -
  have "x4.pushable E G xs" using assms(3) by (simp add: x4.pushable_def)
  then show ?thesis
    using assms(1,2) x4.push_all_inv x4.push_all_content x4.push_all_order
    unfolding x4.push_all_def by blast
qed

text \<open>Any number of \<open>send_single_packet\<close> calls on a port keeps every buffer below
  \<open>rx_burst_size\<close>, in range, and loses no packet; in order when the driver takes everything.\<close>

lemma send_single_packet_sequence:
  assumes "tx_burst_ok E" and "single_good G (length ms)" and "port_ok E p"
    and "tx_inv (rx_burst_size G) s"
  shows "tx_inv (rx_burst_size G) (single_push E G p ms s)
    \<and> content (tx_view (single_push E G p ms s)) = content (tx_view s) + mset ms
    \<and> (lossless E \<longrightarrow> out_seq (tx_view (single_push E G p ms s)) p = out_seq (tx_view s) p @ ms)"
  using single.push_inv [OF assms] single.push_content [OF assms] single.push_order [OF assms assms(3)]
  by blast

text \<open>C32. The drain of the main loop empties the buffer of every transmit port of the lcore,
  keeps the invariant and loses no packet.\<close>

theorem drain_all_empties:
  assumes "tx_burst_ok E" and "tx_inv lim s" and "lim \<le> MAX_PKT_BURST"
    and "\<forall>p \<in> set (tx_port_id s). port_ok E p"
  shows "(\<forall>p \<in> set (tx_port_id s). tb_len (drain_all E s) p = 0)
    \<and> tx_inv lim (drain_all E s) \<and> content (tx_view (drain_all E s)) = content (tx_view s)"
proof -
  note d = drain_list [OF assms(1,3,4,2)]
  have "tb_len (drain_all E s) p = 0" if "p \<in> set (tx_port_id s)" for p
  proof -
    have "length (buffered (drain_all E s) p) = 0" using d that by (simp add: drain_all_def)
    then show ?thesis by (simp only: length_buffered)
  qed
  then show ?thesis using d by (simp add: drain_all_def)
qed

theorem drain_all_empties_witness:
  "let s = lcore_ex\<lparr>tb_len := (\<lambda>p. if p = 2 then 30 else 0)\<rparr> in
   (\<forall>p \<in> set (tx_port_id s). tb_len (drain_all dpdk_ex s) p = 0)
    \<and> tx_inv 32 (drain_all dpdk_ex s)
    \<and> content (tx_view (drain_all dpdk_ex s)) = content (tx_view s)"
  unfolding Let_def
  by (rule drain_all_empties [OF tx_burst_ok_ex])
     (simp_all add: lcore_ex_def tx_inv_def MAX_PKT_BURST_def port_ok_ex)

text \<open>The two ways of sending must not be mixed.\<close>

lemma single_past_burst:
  assumes "port_ok E p" and "rx_burst_size G \<le> tb_len s p"
  shows "tb_len (snd (send_single_packet E G m p s)) p = Suc (tb_len s p)"
    and "out_of_range (snd (send_single_packet E G m p s))
      \<longleftrightarrow> out_of_range s \<or> MAX_PKT_BURST \<le> tb_len s p"
  using assms
  by (simp_all add: send_single_packet_def Let_def store_tx_def bad_access_def)

text \<open>\<open>send_single_packet\<close> flushes only when the length equals \<open>rx_burst_size\<close>: on a buffer
  that \<open>send_packetsx4\<close> has filled to that many packets or more, it never flushes again and
  writes past the end of \<open>m_table\<close> once 512 packets wait. The ACL code uses both on the same
  buffers, \<open>send_packets_single\<close> for bursts with denied packets.\<close>

lemma send_single_packet_after_x4_overruns:
  assumes "port_ok E p" and "rx_burst_size G \<le> tb_len s p" and "tb_len s p \<le> MAX_PKT_BURST"
    and "MAX_PKT_BURST < tb_len s p + length ms"
  shows "out_of_range (single_push E G p ms s)"
  using assms(2-4)
proof (induction ms arbitrary: s)
  case (Cons m ms)
  have keep: "out_of_range (single_push E G p ns t)"
    if "out_of_range t" "rx_burst_size G \<le> tb_len t p" for ns t
    using that by (induction ns arbitrary: t) (simp_all add: single_past_burst [OF assms(1)])
  show ?case
  proof (cases "MAX_PKT_BURST \<le> tb_len s p")
    case True
    then show ?thesis using Cons.prems by (simp add: keep single_past_burst [OF assms(1)])
  next
    case False
    then show ?thesis using Cons by (simp add: single_past_burst [OF assms(1)])
  qed
qed simp

end
