(* ===== verification/Send_Multi.thy ===== *)
theory Send_Multi
  imports Pkt_Group Rewrite Tx_Path
begin

text \<open>
  \<open>send_packets_multi\<close> (\<open>l3fwd/l3fwd_sse.h\<close> and \<open>l3fwd/l3fwd_neon.h\<close>): finish a burst of
  packets whose destination ports are known, group consecutive packets of one port, and send
  the groups. The code of the two files differs in the vector operations only, so it is
  written once over the record \<open>simd\<close> of those operations and instantiated for each; the laws
  the operations obey are the locale \<open>simd_unit\<close>.

  A burst is its packets and its destination ports by index (\<open>Rewrite.burst\<close>). The counters
  \<open>pnum\<close> start with arbitrary contents \<open>pnum0\<close>, as an uninitialised array does.
\<close>

record simd =
  sd_step3 :: "dpdk \<Rightarrow> glob \<Rightarrow> nat \<Rightarrow> burst \<Rightarrow> burst"
  sd_proc :: "dpdk \<Rightarrow> glob \<Rightarrow> mbuf \<Rightarrow> u16 \<Rightarrow> mbuf \<times> u16"
  sd_group :: "nat \<Rightarrow> grp \<Rightarrow> u16 list \<Rightarrow> u16 list \<Rightarrow> grp"
  sd_next :: "u16 list \<Rightarrow> u16 list \<Rightarrow> u16 list"
  sd_last :: "u16 list \<Rightarrow> u16 list"

section \<open>Grouping a burst\<close>

definition multi_body :: "simd \<Rightarrow> dpdk \<Rightarrow> glob \<Rightarrow> nat \<Rightarrow> burst \<times> grp \<times> u16 list \<Rightarrow>
    burst \<times> grp \<times> u16 list" where
  "multi_body U E G j st =
     (case st of (PD, g, dp1) \<Rightarrow>
        let PD' = sd_step3 U E G j PD;
            dp2 = load8 (snd PD') (j - FWDSTEP + 1);
            g' = sd_group U (j - FWDSTEP) g dp1 dp2;
            dp1' = sd_next U dp2 dp1
        in (PD', g', dp1'))"

text \<open>\<open>for (j = FWDSTEP; j != k; j += FWDSTEP)\<close>: \<open>k\<close> is a multiple of \<open>FWDSTEP\<close>.\<close>

function multi_loop :: "simd \<Rightarrow> dpdk \<Rightarrow> glob \<Rightarrow> nat \<Rightarrow> nat \<Rightarrow> burst \<times> grp \<times> u16 list \<Rightarrow>
    burst \<times> grp \<times> u16 list" where
  "multi_loop U E G k j st =
     (if j < k then multi_loop U E G k (j + FWDSTEP) (multi_body U E G j st) else st)"
  by pat_completeness auto
termination by (relation "measure (\<lambda>(U, E, G, k, j, st). k - j)") (auto simp: FWDSTEP_def)

declare multi_loop.simps [simp del]

text \<open>Finish packet \<open>j\<close> alone and put it into its group.\<close>

definition tail_step :: "simd \<Rightarrow> dpdk \<Rightarrow> glob \<Rightarrow> burst \<times> u16 \<times> grp \<times> nat \<Rightarrow> burst \<times> u16 \<times> grp \<times> nat" where
  "tail_step U E G st =
     (case st of ((P, D), dlp, g, j) \<Rightarrow>
        let r = sd_proc U E G (P j) (D j);
            P' = P(j := fst r); D' = D(j := snd r);
            (dlp', g') = GROUP_PORT_STEP D' j (dlp, g)
        in ((P', D'), dlp', g', j + 1))"

definition multi_tail :: "simd \<Rightarrow> dpdk \<Rightarrow> glob \<Rightarrow> nat \<Rightarrow> burst \<times> u16 \<times> grp \<times> nat \<Rightarrow>
    burst \<times> u16 \<times> grp \<times> nat" where
  "multi_tail U E G nb_rx st =
     (let r = nb_rx mod FWDSTEP
      in if r = 3 then tail_step U E G (tail_step U E G (tail_step U E G st))
         else if r = 2 then tail_step U E G (tail_step U E G st)
         else if r = 1 then tail_step U E G st
         else st)"

definition multi_group :: "simd \<Rightarrow> dpdk \<Rightarrow> glob \<Rightarrow> (nat \<Rightarrow> nat) \<Rightarrow> burst \<Rightarrow> nat \<Rightarrow> burst \<times> grp" where
  "multi_group U E G pnum0 PD nb_rx =
     (let k = nb_rx - nb_rx mod FWDSTEP;
          st = (if k \<noteq> 0 then
                  let PD1 = sd_step3 U E G 0 PD;
                      dp1 = load8 (snd PD1) 0;
                      (PD2, g, dp1) = multi_loop U E G k FWDSTEP (PD1, (pnum0(0 := 1), 0), dp1);
                      dp2 = sd_last U dp1;
                      (pnum, lp) = sd_group U (k - FWDSTEP) g dp1 dp2;
                      pnum = pnum(lp := pnum lp - 1)
                  in (PD2, snd PD2 (k - 1), (pnum, lp), k)
                else (PD, BAD_PORT - 1, (pnum0, MAX_PKT_BURST), 0));
          (PD', dlp, g, j) = multi_tail U E G nb_rx st
      in (PD', g))"

section \<open>Sending the groups\<close>

definition add_stats :: "tx_stats \<Rightarrow> tx_stats \<Rightarrow> tx_stats" where
  "add_stats a b = \<lparr>st_sent = st_sent a + st_sent b, st_dropped = st_dropped a + st_dropped b\<rparr>"

definition send_run :: "dpdk \<Rightarrow> glob \<Rightarrow> burst \<Rightarrow> nat \<times> nat \<Rightarrow> tx_stats \<times> lcore \<Rightarrow> tx_stats \<times> lcore" where
  "send_run E G PD jk acc =
     (case (PD, jk, acc) of ((P, D), (j, k), (stats, s)) \<Rightarrow>
        if D j \<noteq> BAD_PORT then
          let (ret, s') = send_packetsx4 E G (D j) (\<lambda>i. P (j + i)) k s
          in (add_stats stats ret, s')
        else (stats\<lparr>st_dropped := st_dropped stats + k\<rparr>,
              fold (\<lambda>m. pktmbuf_free (P m)) [j..<j + k] s))"

text \<open>\<open>for (j = 0; j < nb_rx; j += k)\<close> with \<open>k = pnum[j]\<close>, a loop that would not end on a
  counter that is 0: it is a partial function.\<close>

partial_function (option) dispatch :: "dpdk \<Rightarrow> glob \<Rightarrow> burst \<Rightarrow> (nat \<Rightarrow> nat) \<Rightarrow> nat \<Rightarrow> nat \<Rightarrow>
    tx_stats \<times> lcore \<Rightarrow> (tx_stats \<times> lcore) option" where
  "dispatch E G PD pnum nb_rx j acc =
     (if j < nb_rx then dispatch E G PD pnum nb_rx (j + pnum j) (send_run E G PD (j, pnum j) acc)
      else Some acc)"

definition send_multi :: "simd \<Rightarrow> dpdk \<Rightarrow> glob \<Rightarrow> (nat \<Rightarrow> nat) \<Rightarrow> burst \<Rightarrow> nat \<Rightarrow> lcore \<Rightarrow>
    (tx_stats \<times> lcore) option" where
  "send_multi U E G pnum0 PD nb_rx s =
     (let (PD', (pnum, lp)) = multi_group U E G pnum0 PD nb_rx
      in dispatch E G PD' pnum nb_rx 0 (\<lparr>st_sent = 0, st_dropped = 0\<rparr>, s))"

section \<open>The SSE and NEON instances\<close>

text \<open>\<open>_mm_srli_si128(x, 6)\<close> shifts three lanes out; \<open>_mm_shufflelo_epi16(x, 0xf9)\<close> picks lanes
  1, 2, 3, 3 of the low half.\<close>

definition srli_3 :: "u16 list \<Rightarrow> u16 list" where
  "srli_3 a = drop 3 a @ replicate 3 0"

definition shufflelo_f9 :: "u16 list \<Rightarrow> u16 list" where
  "shufflelo_f9 a = [a ! 1, a ! 2, a ! 3, a ! 3] @ drop 4 a"

definition sse_simd :: simd where
  "sse_simd = \<lparr> sd_step3 = processx4_step3, sd_proc = process_packet, sd_group = port_groupx4,
     sd_next = (\<lambda>dp2 dp1. srli_3 dp2), sd_last = shufflelo_f9 \<rparr>"

definition send_packets_multi :: "dpdk \<Rightarrow> glob \<Rightarrow> (nat \<Rightarrow> nat) \<Rightarrow> burst \<Rightarrow> nat \<Rightarrow> lcore \<Rightarrow>
    (tx_stats \<times> lcore) option" where
  "send_packets_multi = send_multi sse_simd"

text \<open>\<open>vextq_u16(a, b, n)\<close> takes lanes from \<open>n\<close> of \<open>a\<close>, then of \<open>b\<close>.\<close>

definition vextq_u16 :: "u16 list \<Rightarrow> u16 list \<Rightarrow> nat \<Rightarrow> u16 list" where
  "vextq_u16 a b n = drop n a @ take n b"

definition neon_last :: "u16 list \<Rightarrow> u16 list" where
  "neon_last dp1 = (let dp2 = vextq_u16 dp1 dp1 1 in dp2[3 := dp2 ! 2])"

definition neon_simd :: simd where
  "neon_simd = \<lparr> sd_step3 = processx4_step3_neon, sd_proc = process_packet_neon,
     sd_group = port_groupx4_neon,
     sd_next = (\<lambda>dp2 dp1. vextq_u16 dp2 dp1 (FWDSTEP - 1)), sd_last = neon_last \<rparr>"

definition send_packets_multi_neon :: "dpdk \<Rightarrow> glob \<Rightarrow> (nat \<Rightarrow> nat) \<Rightarrow> burst \<Rightarrow> nat \<Rightarrow> lcore \<Rightarrow>
    (tx_stats \<times> lcore) option" where
  "send_packets_multi_neon = send_multi neon_simd"

section \<open>The vector operations as an interface\<close>

locale simd_unit =
  fixes U :: simd and ok :: "glob \<Rightarrow> bool"
  assumes step3: "ok G \<Longrightarrow> sd_step3 U E G j PD = (process_at E G (j + 3) \<circ> process_at E G (j + 2)
      \<circ> process_at E G (j + 1) \<circ> process_at E G j) PD"
    and proc: "ok G \<Longrightarrow> sd_proc U E G = process_packet E G"
    and group: "length a = 8 \<Longrightarrow> length b = 8 \<Longrightarrow> sd_group U pn g a b = group_update pn
      (pair_mask (a ! 0 = b ! 0) (a ! 1 = b ! 1) (a ! 2 = b ! 2) (a ! 3 = b ! 3)) g"
    and next_lanes: "length a = 8 \<Longrightarrow> length b = 8 \<Longrightarrow> length (sd_next U a b) = 8
      \<and> sd_next U a b ! 0 = a ! 3 \<and> sd_next U a b ! 1 = a ! 4
      \<and> sd_next U a b ! 2 = a ! 5 \<and> sd_next U a b ! 3 = a ! 6"
    and last_lanes: "length a = 8 \<Longrightarrow> length (sd_last U a) = 8
      \<and> sd_last U a ! 0 = a ! 1 \<and> sd_last U a ! 1 = a ! 2
      \<and> sd_last U a ! 2 = a ! 3 \<and> sd_last U a ! 3 = a ! 3"

interpretation sse_multi: simd_unit sse_simd "\<lambda>_. True"
proof
  fix a b :: "u16 list" and pn g
  assume a: "length a = 8"
  then show "length (sd_last sse_simd a) = 8 \<and> sd_last sse_simd a ! 0 = a ! 1
      \<and> sd_last sse_simd a ! 1 = a ! 2 \<and> sd_last sse_simd a ! 2 = a ! 3
      \<and> sd_last sse_simd a ! 3 = a ! 3"
    by (simp add: sse_simd_def shufflelo_f9_def)
  assume b: "length b = 8"
  then show "sd_group sse_simd pn g a b = group_update pn
      (pair_mask (a ! 0 = b ! 0) (a ! 1 = b ! 1) (a ! 2 = b ! 2) (a ! 3 = b ! 3)) g"
    using a by (simp add: sse_simd_def port_groupx4_def sse.cmp4_mask)
  show "length (sd_next sse_simd a b) = 8
      \<and> sd_next sse_simd a b ! 0 = a ! 3 \<and> sd_next sse_simd a b ! 1 = a ! 4
      \<and> sd_next sse_simd a b ! 2 = a ! 5 \<and> sd_next sse_simd a b ! 3 = a ! 6"
    using a by (simp add: sse_simd_def srli_3_def nth_append)
qed (simp_all add: sse_simd_def processx4_step3_process_at)

interpretation neon_multi: simd_unit neon_simd val_eth_16
proof
  fix a b :: "u16 list" and pn g
  assume a: "length a = 8"
  then show "length (sd_last neon_simd a) = 8 \<and> sd_last neon_simd a ! 0 = a ! 1
      \<and> sd_last neon_simd a ! 1 = a ! 2 \<and> sd_last neon_simd a ! 2 = a ! 3
      \<and> sd_last neon_simd a ! 3 = a ! 3"
    by (simp add: neon_simd_def neon_last_def vextq_u16_def Let_def nth_append nth_list_update numeral_eq_Suc)
  assume b: "length b = 8"
  then show "sd_group neon_simd pn g a b = group_update pn
      (pair_mask (a ! 0 = b ! 0) (a ! 1 = b ! 1) (a ! 2 = b ! 2) (a ! 3 = b ! 3)) g"
    using a by (simp add: neon_simd_def port_groupx4_neon_def neon.cmp4_mask)
  show "length (sd_next neon_simd a b) = 8
      \<and> sd_next neon_simd a b ! 0 = a ! 3 \<and> sd_next neon_simd a b ! 1 = a ! 4
      \<and> sd_next neon_simd a b ! 2 = a ! 5 \<and> sd_next neon_simd a b ! 3 = a ! 6"
    using a b by (simp add: neon_simd_def vextq_u16_def nth_append FWDSTEP_def)
qed (simp_all add: neon_simd_def processx4_step3_units_eq processx4_step3_process_at process_packet_units)

section \<open>The burst, packet by packet\<close>

definition processed :: "dpdk \<Rightarrow> glob \<Rightarrow> burst \<Rightarrow> nat \<Rightarrow> burst" where
  "processed E G PD j = fold (process_at E G) [0..<j] PD"

lemma processed_Suc: "processed E G PD (Suc j) = process_at E G j (processed E G PD j)"
  by (simp add: processed_def)

lemma process_at_other:
  "i \<noteq> j \<Longrightarrow> snd (process_at E G j PD) i = snd PD i"
  "i \<noteq> j \<Longrightarrow> fst (process_at E G j PD) i = fst PD i"
  by (simp_all add: process_at_def Let_def case_prod_beta)

lemma processed_low: "i < j \<Longrightarrow> j \<le> n \<Longrightarrow> snd (processed E G PD n) i = snd (processed E G PD j) i"
  by (induction n) (auto simp: processed_Suc process_at_other le_Suc_eq)

lemma processed_at:
  "i < n \<Longrightarrow> fst (processed E G PD n) i = fst (process_packet E G (fst PD i) (snd PD i))
    \<and> snd (processed E G PD n) i = snd (process_packet E G (fst PD i) (snd PD i))"
proof -
  have hi: "fst (processed E G PD j) i = fst PD i \<and> snd (processed E G PD j) i = snd PD i"
    if "j \<le> i" for i j
    using that by (induction j) (simp_all add: processed_def process_at_other)
  show "i < n \<Longrightarrow> ?thesis"
  proof (induction n)
    case (Suc n)
    show ?case
    proof (cases "i = n")
      case True
      then show ?thesis
        using hi [of n n] by (simp add: processed_Suc process_at_def Let_def case_prod_beta)
    next
      case False
      with Suc show ?thesis by (simp add: processed_Suc process_at_other)
    qed
  qed simp
qed

section \<open>The repeated last port\<close>

lemma grp_inv_dec:
  assumes "grp_inv d (Suc J) (pnum, lp)" and "d (Suc J) = d J"
  shows "grp_inv d J (pnum(lp := pnum lp - 1), lp)"
proof -
  have i: "lp \<le> Suc J" "pnum lp = Suc J - lp + 1" "is_start d lp" "flat d lp (Suc J)"
    using assms(1) by (simp_all add: grp_inv_def)
  have "lp \<noteq> Suc J" using i(3) assms(2) by (auto simp: is_start_def)
  then have l: "lp \<le> J" using i(1) by simp
  then have "flat d lp J" using i(4) flat_Suc [of lp J d] by simp
  then show ?thesis using i l assms(1) by (simp add: grp_inv_def)
qed

text \<open>Between two passes of the loop: the packets before \<open>j\<close> are finished, the counters are right
  up to \<open>j - 4\<close>, and \<open>dp1\<close> holds the ports from there.\<close>

definition loop_inv :: "dpdk \<Rightarrow> glob \<Rightarrow> burst \<Rightarrow> nat \<Rightarrow> burst \<times> grp \<times> u16 list \<Rightarrow> bool" where
  "loop_inv E G PD j st = (case st of (PD', g, dp1) \<Rightarrow>
     PD' = processed E G PD j \<and> 4 \<le> j \<and> grp_inv (snd PD') (j - 4) g \<and> length dp1 = 8
     \<and> dp1 ! 0 = snd PD' (j - 4) \<and> dp1 ! 1 = snd PD' (j - 4 + 1)
     \<and> dp1 ! 2 = snd PD' (j - 4 + 2) \<and> dp1 ! 3 = snd PD' (j - 4 + 3))"

lemma loop_invD:
  assumes "loop_inv E G PD j (PD', g, dp1)"
  shows "PD' = processed E G PD j" and "4 \<le> j" and "grp_inv (snd PD') (j - 4) g"
    and "length dp1 = 8" and "dp1 ! 0 = snd PD' (j - 4)" and "dp1 ! 1 = snd PD' (j - 4 + 1)"
    and "dp1 ! 2 = snd PD' (j - 4 + 2)" and "dp1 ! 3 = snd PD' (j - 4 + 3)"
  using assms unfolding loop_inv_def prod.case by blast+

text \<open>The remaining packets, one by one.\<close>

definition tail_inv :: "dpdk \<Rightarrow> glob \<Rightarrow> burst \<Rightarrow> burst \<times> u16 \<times> grp \<times> nat \<Rightarrow> bool" where
  "tail_inv E G PD st = (case st of (PD', dlp, g, j) \<Rightarrow>
     PD' = processed E G PD j \<and> (if j = 0 then dlp \<noteq> snd (processed E G PD 1) 0
       else dlp = snd PD' (j - 1) \<and> grp_inv (snd PD') (j - 1) g))"

context simd_unit
begin

lemma step3_processed:
  "ok G \<Longrightarrow> sd_step3 U E G j (processed E G PD j) = processed E G PD (j + 4)"
  by (simp add: step3 processed_def eval_nat_numeral)

lemma group_inv:
  assumes "grp_inv d w g" and "length dp1 = 8" and "length dp2 = 8"
    and "dp1 ! 0 = d w" "dp1 ! 1 = d (w + 1)" "dp1 ! 2 = d (w + 2)" "dp1 ! 3 = d (w + 3)"
    and "dp2 ! 0 = d (w + 1)" "dp2 ! 1 = d (w + 2)" "dp2 ! 2 = d (w + 3)" "dp2 ! 3 = d (w + 4)"
  shows "grp_inv d (w + 4) (sd_group U w g dp1 dp2)"
proof -
  have "sd_group U w g dp1 dp2 = group_update w (pair_mask (d w = d (w + 1))
      (d (w + 1) = d (w + 2)) (d (w + 2) = d (w + 3)) (d (w + 3) = d (w + 4))) g"
    by (simp only: group [OF assms(2,3)] assms(4-))
  then show ?thesis using assms(1) group_update_inv by (cases g) simp
qed

lemma grp_inv_transfer:
  "grp_inv d J g \<Longrightarrow> (\<And>i. i \<le> J \<Longrightarrow> d' i = d i) \<Longrightarrow> grp_inv d' J g"
  using grp_inv_ports by (cases g) blast

lemma multi_body_inv:
  assumes ok: "ok G" and inv: "loop_inv E G PD j st"
  shows "loop_inv E G PD (j + 4) (multi_body U E G j st)"
proof -
  obtain PD' g dp1 where st: "st = (PD', g, dp1)" by (cases st)
  define d where "d = snd (processed E G PD (j + 4))"
  define dp2 where "dp2 = load8 d (j - 4 + 1)"
  have j: "4 \<le> j" and pd: "PD' = processed E G PD j" and len: "length dp1 = 8"
    and g: "grp_inv (snd PD') (j - 4) g"
    by (rule loop_invD [OF inv [unfolded st]])+
  obtain w where w: "j = w + 4" using j by (metis add.commute le_Suc_ex)
  have low: "snd PD' i = d i" if "i < w + 4" for i
    unfolding pd d_def w using that by (intro processed_low [symmetric]) simp_all
  have l2: "dp2 ! i = d (w + (i + 1))" if "i < 8" for i
    using that by (simp add: dp2_def load8_def w)
  have g': "grp_inv d (w + 4) (sd_group U w g dp1 dp2)"
  proof (rule group_inv [OF _ len])
    show "grp_inv d w g" using g low by (auto simp: w intro: grp_inv_transfer)
    show "length dp2 = 8" by (simp add: dp2_def)
    show "dp1 ! 0 = d w" "dp1 ! 1 = d (w + 1)" "dp1 ! 2 = d (w + 2)" "dp1 ! 3 = d (w + 3)"
      using loop_invD(5-8) [OF inv [unfolded st]] by (simp_all add: w low)
    show "dp2 ! 0 = d (w + 1)" "dp2 ! 1 = d (w + 2)" "dp2 ! 2 = d (w + 3)" "dp2 ! 3 = d (w + 4)"
      by (simp_all add: l2)
  qed
  have nx: "length (sd_next U dp2 dp1) = 8" "sd_next U dp2 dp1 ! 0 = d (w + 4)"
    "sd_next U dp2 dp1 ! 1 = d (w + 4 + 1)" "sd_next U dp2 dp1 ! 2 = d (w + 4 + 2)"
    "sd_next U dp2 dp1 ! 3 = d (w + 4 + 3)"
    using next_lanes [of dp2 dp1] len by (simp_all add: dp2_def load8_def w add.assoc) (simp_all only: add.commute)
  have e: "multi_body U E G j st
      = (processed E G PD (j + 4), sd_group U w g dp1 dp2, sd_next U dp2 dp1)"
    using step3_processed [OF ok] by (simp add: multi_body_def st pd Let_def FWDSTEP_def dp2_def d_def w)
  have k: "j + 4 - 4 = w + 4" by (simp add: w)
  show ?thesis
    unfolding e loop_inv_def prod.case d_def [symmetric] k
    by (intro conjI refl g' nx) simp
qed

lemma multi_loop_inv:
  assumes ok: "ok G"
  shows "loop_inv E G PD j st \<Longrightarrow> (k - j) mod 4 = 0 \<Longrightarrow> j \<le> k \<Longrightarrow>
    loop_inv E G PD k (multi_loop U E G k j st)"
proof (induction "k - j" arbitrary: j st rule: less_induct)
  case less
  show ?case
  proof (cases "j < k")
    case True
    then have "j + 4 \<le> k" using less.prems(2) by presburger
    moreover from this have "(k - (j + 4)) mod 4 = 0" using less.prems(2) by presburger
    moreover have "k - (j + 4) < k - j" using True by simp
    ultimately have "loop_inv E G PD k (multi_loop U E G k (j + 4) (multi_body U E G j st))"
      by (intro less.hyps multi_body_inv [OF ok less.prems(1)])
    with True show ?thesis by (subst multi_loop.simps) (simp add: FWDSTEP_def)
  next
    case False
    with less.prems(1,3) show ?thesis by (subst multi_loop.simps) simp
  qed
qed

text \<open>The last window repeats the last port, and the counter it added is taken back.\<close>

lemma last_window:
  assumes "loop_inv E G PD k (PD', g, dp1)"
  shows "case sd_group U (k - 4) g dp1 (sd_last U dp1) of (pnum, lp) \<Rightarrow>
    grp_inv (snd PD') (k - 1) (pnum(lp := pnum lp - 1), lp)"
proof -
  obtain w where w: "k = w + 4" using loop_invD(2) [OF assms] by (metis add.commute le_Suc_ex)
  define d where "d = (snd PD')(w + 4 := snd PD' (w + 3))"
  have len: "length dp1 = 8" and g: "grp_inv (snd PD') w g"
    using loop_invD(4,3) [OF assms] by (simp_all add: w)
  have "grp_inv d (w + 4) (sd_group U w g dp1 (sd_last U dp1))"
  proof (rule group_inv [OF _ len])
    show "grp_inv d w g" using g by (rule grp_inv_transfer) (simp add: d_def)
    show "length (sd_last U dp1) = 8" using last_lanes [OF len] by simp
    show "dp1 ! 0 = d w" "dp1 ! 1 = d (w + 1)" "dp1 ! 2 = d (w + 2)" "dp1 ! 3 = d (w + 3)"
      and "sd_last U dp1 ! 0 = d (w + 1)" "sd_last U dp1 ! 1 = d (w + 2)"
      "sd_last U dp1 ! 2 = d (w + 3)" "sd_last U dp1 ! 3 = d (w + 4)"
      using loop_invD(5-8) [OF assms] last_lanes [OF len] by (simp_all add: w d_def)
  qed
  moreover obtain pnum lp where r: "sd_group U w g dp1 (sd_last U dp1) = (pnum, lp)"
    by (cases "sd_group U w g dp1 (sd_last U dp1)")
  ultimately have "grp_inv d (Suc (w + 3)) (pnum, lp)" by (simp add: eval_nat_numeral)
  moreover have "d (Suc (w + 3)) = d (w + 3)" by (simp add: d_def eval_nat_numeral)
  ultimately have "grp_inv d (w + 3) (pnum(lp := pnum lp - 1), lp)" by (rule grp_inv_dec)
  then have "grp_inv (snd PD') (w + 3) (pnum(lp := pnum lp - 1), lp)"
    by (rule grp_inv_ports) (simp add: d_def)
  moreover have "k - 4 = w" "k - 1 = w + 3" by (simp_all add: w)
  ultimately show ?thesis by (simp only: r prod.case)
qed

lemma tail_step_inv:
  assumes ok: "ok G" and inv: "tail_inv E G PD (PD', dlp, g, j)"
  shows "tail_inv E G PD (tail_step U E G (PD', dlp, g, j))"
    and "snd (snd (snd (tail_step U E G (PD', dlp, g, j)))) = j + 1"
proof -
  obtain P D where pd: "PD' = (P, D)" by (cases PD')
  obtain pnum lp where g: "g = (pnum, lp)" by (cases g)
  let ?r = "process_packet E G (P j) (D j)"
  define d where "d = D(j := snd ?r)"
  have PD: "(P, D) = processed E G PD j" using inv pd by (simp add: tail_inv_def)
  then have nxt: "processed E G PD (j + 1) = (P(j := fst ?r), d)"
    by (simp add: processed_Suc process_at_def Let_def d_def flip: PD)
  have e: "tail_step U E G (PD', dlp, g, j)
      = ((P(j := fst ?r), d), fst (GROUP_PORT_STEP d j (dlp, pnum, lp)),
         snd (GROUP_PORT_STEP d j (dlp, pnum, lp)), j + 1)"
    by (simp add: tail_step_def pd g proc [OF ok] Let_def case_prod_beta d_def)
  show "snd (snd (snd (tail_step U E G (PD', dlp, g, j)))) = j + 1" by (simp add: e)
  show "tail_inv E G PD (tail_step U E G (PD', dlp, g, j))"
  proof (cases "j = 0")
    case True
    then have "dlp \<noteq> d 0" using inv nxt by (simp add: tail_inv_def)
    then have "GROUP_PORT_STEP d j (dlp, pnum, lp) = (d 0, pnum(0 := 1), 0)"
      using True by (simp add: GROUP_PORT_STEP_def)
    then show ?thesis
      unfolding e tail_inv_def prod.case using nxt True grp_inv_init [of d pnum] by simp
  next
    case False
    then obtain i where i: "j = Suc i" by (cases j) auto
    have "dlp = D i" and gi: "grp_inv D i (pnum, lp)"
      using inv by (simp_all add: tail_inv_def i pd g)
    then have "dlp = d i" by (simp add: d_def i)
    moreover have "grp_inv d i (pnum, lp)"
      using gi by (rule grp_inv_ports) (simp add: d_def i)
    ultimately have "grp_inv d j (snd (GROUP_PORT_STEP d j (dlp, pnum, lp)))
        \<and> fst (GROUP_PORT_STEP d j (dlp, pnum, lp)) = d j"
      unfolding i using GROUP_PORT_STEP_inv by blast
    then show ?thesis
      unfolding e tail_inv_def prod.case using nxt by simp
  qed
qed

lemma multi_tail_inv:
  assumes ok: "ok G" and inv: "tail_inv E G PD (PD', dlp, g, nb_rx - nb_rx mod 4)"
  shows "tail_inv E G PD (multi_tail U E G nb_rx (PD', dlp, g, nb_rx - nb_rx mod 4))"
    and "snd (snd (snd (multi_tail U E G nb_rx (PD', dlp, g, nb_rx - nb_rx mod 4)))) = nb_rx"
proof -
  let ?t = "tail_step U E G" and ?s = "(PD', dlp, g, nb_rx - nb_rx mod 4)"
  have step: "tail_inv E G PD (?t st) \<and> snd (snd (snd (?t st))) = snd (snd (snd st)) + 1"
    if "tail_inv E G PD st" for st
    using that tail_step_inv [OF ok] by (cases st) auto
  have 1: "tail_inv E G PD (?t ?s) \<and> snd (snd (snd (?t ?s))) = nb_rx - nb_rx mod 4 + 1"
    using step [OF inv] by simp
  have 2: "tail_inv E G PD (?t (?t ?s)) \<and> snd (snd (snd (?t (?t ?s)))) = nb_rx - nb_rx mod 4 + 2"
    using step [of "?t ?s"] 1 by simp
  have 3: "tail_inv E G PD (?t (?t (?t ?s))) \<and> snd (snd (snd (?t (?t (?t ?s))))) = nb_rx - nb_rx mod 4 + 3"
    using step [of "?t (?t ?s)"] 2 by simp
  have le: "nb_rx mod 4 \<le> nb_rx" by simp
  have m: "nb_rx mod 4 = 0 \<or> nb_rx mod 4 = 1 \<or> nb_rx mod 4 = 2 \<or> nb_rx mod 4 = 3"
    by (rule mod4_cases)
  from m show "tail_inv E G PD (multi_tail U E G nb_rx ?s)"
    by (elim disjE) (use 1 2 3 inv in \<open>simp_all add: multi_tail_def FWDSTEP_def\<close>)
  from m le show "snd (snd (snd (multi_tail U E G nb_rx ?s))) = nb_rx"
    by (elim disjE) (use 1 2 3 in \<open>simp_all add: multi_tail_def FWDSTEP_def\<close>)
qed

lemma multi_group_inv:
  assumes ok: "ok G" and n: "0 < nb_rx" and d0: "snd (processed E G PD 1) 0 \<noteq> BAD_PORT - 1"
  shows "fst (multi_group U E G pnum0 PD nb_rx) = processed E G PD nb_rx"
    and "grp_inv (snd (processed E G PD nb_rx)) (nb_rx - 1) (snd (multi_group U E G pnum0 PD nb_rx))"
proof -
  define k where "k = nb_rx - nb_rx mod 4"
  define st where "st = (if k \<noteq> 0 then
      let PD1 = sd_step3 U E G 0 PD;
          dp1 = load8 (snd PD1) 0;
          (PD2, g, dp1) = multi_loop U E G k 4 (PD1, (pnum0(0 := 1), 0), dp1);
          dp2 = sd_last U dp1;
          (pnum, lp) = sd_group U (k - 4) g dp1 dp2;
          pnum = pnum(lp := pnum lp - 1)
      in (PD2, snd PD2 (k - 1), (pnum, lp), k)
    else (PD, BAD_PORT - 1, (pnum0, MAX_PKT_BURST), 0))"
  have k4: "k mod 4 = 0" unfolding k_def by presburger
  have inv: "tail_inv E G PD st \<and> snd (snd (snd st)) = k"
  proof (cases "k = 0")
    case True
    then show ?thesis using d0 by (simp add: st_def tail_inv_def processed_def)
  next
    case False
    then have "4 \<le> k" using k4 by presburger
    let ?PD1 = "sd_step3 U E G 0 PD"
    have p4: "?PD1 = processed E G PD 4"
      using step3_processed [OF ok, of E 0 PD] by (simp add: processed_def)
    have "loop_inv E G PD 4 (?PD1, (pnum0(0 := 1), 0), load8 (snd ?PD1) 0)"
      by (simp add: loop_inv_def p4 grp_inv_init [unfolded One_nat_def] load8_def)
    moreover have "(k - 4) mod 4 = 0" using k4 by presburger
    ultimately have l: "loop_inv E G PD k (multi_loop U E G k 4 (?PD1, (pnum0(0 := 1), 0), load8 (snd ?PD1) 0))"
      using \<open>4 \<le> k\<close> by (rule multi_loop_inv [OF ok])
    obtain PD2 g dp1 where m: "multi_loop U E G k 4 (?PD1, (pnum0(0 := 1), 0), load8 (snd ?PD1) 0)
        = (PD2, g, dp1)" by (metis prod_cases3)
    obtain pnum lp where r: "sd_group U (k - 4) g dp1 (sd_last U dp1) = (pnum, lp)"
      by (cases "sd_group U (k - 4) g dp1 (sd_last U dp1)")
    have "grp_inv (snd PD2) (k - 1) (pnum(lp := pnum lp - 1), lp)"
      using last_window [OF l [unfolded m]] by (simp add: r)
    moreover have "PD2 = processed E G PD k" by (rule loop_invD [OF l [unfolded m]])
    moreover have "st = (PD2, snd PD2 (k - 1), (pnum(lp := pnum lp - 1), lp), k)"
      using False by (simp add: st_def Let_def m [unfolded One_nat_def] r)
    ultimately show ?thesis using False by (simp add: tail_inv_def)
  qed
  obtain PD' dlp g where st: "st = (PD', dlp, g, k)" using inv by (cases st) auto
  have t: "tail_inv E G PD (multi_tail U E G nb_rx st)" "snd (snd (snd (multi_tail U E G nb_rx st))) = nb_rx"
    using multi_tail_inv [OF ok, of E PD PD' dlp g nb_rx] inv by (simp_all add: st k_def)
  obtain PD'' dlp' g' where m: "multi_tail U E G nb_rx st = (PD'', dlp', g', nb_rx)"
    using t(2) by (cases "multi_tail U E G nb_rx st") auto
  have "multi_group U E G pnum0 PD nb_rx = (PD'', g')"
    unfolding multi_group_def FWDSTEP_def k_def [symmetric] Let_def [of k]
    using m by (simp add: st_def Let_def)
  moreover have "PD'' = processed E G PD nb_rx \<and> grp_inv (snd PD'') (nb_rx - 1) g'"
    using t(1) n unfolding m by (auto simp: tail_inv_def)
  ultimately show "fst (multi_group U E G pnum0 PD nb_rx) = processed E G PD nb_rx"
    and "grp_inv (snd (processed E G PD nb_rx)) (nb_rx - 1) (snd (multi_group U E G pnum0 PD nb_rx))"
    by auto
qed

end

section \<open>The send loop visits the runs\<close>

lemma runs_end: "n \<le> j \<Longrightarrow> runs d n j = []"
  by (simp add: runs.simps)

lemma runs_step: "j < n \<Longrightarrow> runs d n j = (j, run_len d n j) # runs d n (j + run_len d n j)"
  by (simp add: runs.simps)

lemma run_len_bound: "j < n \<Longrightarrow> j + run_len d n j \<le> n"
  using length_takeWhile_le [of "\<lambda>i. d i = d j" "[j..<n]"] by (simp add: run_len_def)

lemma run_len_same: "j \<le> i \<Longrightarrow> i < j + run_len d n j \<Longrightarrow> d i = d j"
proof -
  assume i: "j \<le> i" "i < j + run_len d n j"
  have "run_len d n j \<le> n - j"
    using length_takeWhile_le [of "\<lambda>i. d i = d j" "[j..<n]"] by (simp add: run_len_def)
  with i have "i < n" by simp
  have "i - j < length (takeWhile (\<lambda>i. d i = d j) [j..<n])" using i by (simp add: run_len_def)
  then have "d (takeWhile (\<lambda>i. d i = d j) [j..<n] ! (i - j)) = d j"
    using nth_mem set_takeWhileD by fastforce
  moreover have "takeWhile (\<lambda>i. d i = d j) [j..<n] ! (i - j) = i"
    using \<open>i - j < length (takeWhile (\<lambda>i. d i = d j) [j..<n])\<close> i \<open>i < n\<close>
    by (simp add: takeWhile_nth)
  ultimately show ?thesis by simp
qed

lemma runs_concat: "j \<le> n \<Longrightarrow> concat (map (\<lambda>(i, k). [i..<i + k]) (runs d n j)) = [j..<n]"
proof (induction d n j rule: runs.induct)
  case (1 d n j)
  show ?case
  proof (cases "j < n")
    case True
    have b: "j + run_len d n j \<le> n" by (rule run_len_bound) (rule True)
    then have "[j..<n] = [j..<j + run_len d n j] @ [j + run_len d n j..<n]"
      by (metis le_add1 le_add_diff_inverse upt_add_eq_append)
    then show ?thesis
      using 1(1) [OF True b] by (simp add: runs_step [OF True])
  next
    case False
    then show ?thesis using 1(2) by (simp add: runs_end)
  qed
qed

definition const_on :: "(nat \<Rightarrow> 'a) \<Rightarrow> nat \<Rightarrow> nat \<Rightarrow> bool" where
  "const_on d i k \<longleftrightarrow> (\<forall>x \<in> {i..<i + k}. d x = d i)"

lemma const_onD: "const_on d i k \<Longrightarrow> i \<le> x \<Longrightarrow> x < i + k \<Longrightarrow> d x = d i"
  unfolding const_on_def by (meson atLeastLessThan_iff)

lemma run_const: "const_on d j (run_len d n j)"
  unfolding const_on_def by (meson atLeastLessThan_iff run_len_same)

lemma runs_props:
  "(i, k) \<in> set (runs d n j) \<Longrightarrow> 0 < k \<and> i + k \<le> n \<and> const_on d i k"
proof (induction d n j rule: runs.induct)
  case (1 d n j)
  have n: "j < n" using 1(2) runs_end [of n j d] by (cases "j < n") simp_all
  consider "i = j" "k = run_len d n j" | "(i, k) \<in> set (runs d n (j + run_len d n j))"
    using 1(2) by (auto simp: runs_step [OF n])
  then show ?case
  proof cases
    case 1
    then show ?thesis by (simp only: run_len_pos n run_len_bound run_const simp_thms)
  qed (rule 1(1) [OF n])
qed

lemma dispatch_runs:
  assumes inv: "grp_inv (snd PD) (n - 1) (pnum, lp)" and n: "0 < n"
  shows "j < n \<Longrightarrow> is_start (snd PD) j \<Longrightarrow>
    dispatch E G PD pnum n j acc = Some (fold (send_run E G PD) (runs (snd PD) n j) acc)"
proof (induction "n - j" arbitrary: j acc rule: less_induct)
  case less
  have sn: "n = Suc (n - 1)" using n by simp
  note r = grp_inv_run_len [OF inv sn less.prems]
  have pos: "0 < run_len (snd PD) n j" by (rule run_len_pos) (rule less.prems)
  let ?j = "j + pnum j"
  have rs: "runs (snd PD) n j = (j, pnum j) # runs (snd PD) n ?j"
    using runs_step [OF less.prems(1)] r(1) by simp
  show ?case
  proof (cases "?j < n")
    case True
    have "dispatch E G PD pnum n ?j (send_run E G PD (j, pnum j) acc)
        = Some (fold (send_run E G PD) (runs (snd PD) n ?j) (send_run E G PD (j, pnum j) acc))"
      by (rule less.hyps) (use True r pos less.prems(1) in auto)
    then show ?thesis using less.prems(1) by (subst dispatch.simps) (simp add: rs)
  next
    case False
    then have "dispatch E G PD pnum n ?j a = Some a" for a by (subst dispatch.simps) simp
    then show ?thesis
      using less.prems(1) False by (subst dispatch.simps) (simp add: rs runs_end)
  qed
qed

section \<open>The groups are pushed to the transmit queues\<close>

text \<open>Packets marked bad are freed; the others go through \<open>send_packetsx4\<close>. \<open>BAD_PORT\<close> is not
  a port.\<close>

definition run_push :: "dpdk \<Rightarrow> glob \<Rightarrow> u16 \<Rightarrow> mbuf list \<Rightarrow> lcore \<Rightarrow> lcore" where
  "run_push E G p ms s = (if p = BAD_PORT then fold pktmbuf_free ms s else x4_push E G p ms s)"

definition port_or_bad :: "dpdk \<Rightarrow> u16 \<Rightarrow> bool" where
  "port_or_bad E p \<longleftrightarrow> (port_ok E p \<longleftrightarrow> p \<noteq> BAD_PORT)"

lemma free_all: "fold pktmbuf_free ms s = s\<lparr>freed := freed s @ ms\<rparr>"
  by (induction ms arbitrary: s) (simp_all add: pktmbuf_free_def)

lemma free_all_view:
  "tx_view (fold pktmbuf_free ms s) = (tx_view s)\<lparr>a_freed := freed s @ ms\<rparr>"
  by (simp add: free_all tx_view_def buffered_def fun_eq_iff)

interpretation run: tx_sink x4_good "\<lambda>_. MAX_PKT_BURST" port_or_bad run_push
proof
  fix E :: dpdk and G :: glob and ms :: "mbuf list" and s :: lcore and p q :: u16
  assume a: "tx_burst_ok E" "x4_good G (length ms)" "port_or_bad E p" "tx_inv MAX_PKT_BURST s"
  show "tx_inv MAX_PKT_BURST (run_push E G p ms s)"
    using a x4.push_inv [OF a(1,2)] by (auto simp: run_push_def port_or_bad_def free_all tx_inv_def)
  show "content (tx_view (run_push E G p ms s)) = content (tx_view s) + mset ms"
    using a x4.push_content [OF a(1,2)]
    by (auto simp: run_push_def port_or_bad_def free_all_view) (simp add: content_def)
  show "out_seq (tx_view (run_push E G p ms s)) q = out_seq (tx_view s) q" if "q \<noteq> p"
    using a x4.push_other [OF a(1,2)] that
    by (auto simp: run_push_def port_or_bad_def free_all_view) (simp add: out_seq_def)
  show "out_seq (tx_view (run_push E G p ms s)) p = out_seq (tx_view s) p @ ms"
    if "port_ok E p" "lossless E"
    using a x4.push_order [OF a(1,2)] that by (simp add: run_push_def port_or_bad_def)
qed

definition run_list :: "burst \<Rightarrow> (nat \<times> nat) list \<Rightarrow> (u16 \<times> mbuf list) list" where
  "run_list PD rs = map (\<lambda>(j, k). (snd PD j, map (fst PD) [j..<j + k])) rs"

lemma send_run_push:
  assumes "0 < k" and "k \<le> MAX_PKT_BURST" and "tx_inv MAX_PKT_BURST s"
  shows "snd (send_run E G PD (j, k) (st, s)) = run_push E G (snd PD j) (map (fst PD) [j..<j + k]) s"
proof -
  obtain P D where pd: "PD = (P, D)" by (cases PD)
  have e: "map P [j..<j + k] ! i = P (j + i)" if "i < k" for i using that by simp
  have "send_packetsx4 E G (D j) (\<lambda>i. P (j + i)) k s = send_packetsx4 E G (D j) ((!) (map P [j..<j + k])) k s"
    using assms by (intro send_packetsx4_cong) (simp_all add: e tx_inv_def)
  then show ?thesis
    by (simp add: send_run_def pd run_push_def x4_push_def case_prod_beta fold_map comp_def)
qed

lemma send_runs_push:
  assumes "tx_burst_ok E"
  shows "\<forall>(j, k) \<in> set rs. x4_good G k \<and> port_or_bad E (snd PD j) \<Longrightarrow> tx_inv MAX_PKT_BURST s \<Longrightarrow>
    snd (fold (send_run E G PD) rs (st, s)) = run.push_all E G (run_list PD rs) s"
proof (induction rs arbitrary: st s)
  case (Cons r rs)
  obtain j k where r: "r = (j, k)" by (cases r)
  have k: "x4_good G k" "port_or_bad E (snd PD j)" using Cons.prems(1) by (simp_all add: r)
  have e: "snd (send_run E G PD r (st, s)) = run_push E G (snd PD j) (map (fst PD) [j..<j + k]) s"
    unfolding r using k(1) Cons.prems(2) by (intro send_run_push) (simp_all add: x4_good_def)
  obtain st' s' where r': "send_run E G PD r (st, s) = (st', s')" by fastforce
  have "tx_inv MAX_PKT_BURST s'"
    using run.push_inv [OF assms, of G "map (fst PD) [j..<j + k]" "snd PD j" s] k Cons.prems(2) e
    by (simp add: r')
  then have "snd (fold (send_run E G PD) rs (st', s')) = run.push_all E G (run_list PD rs) s'"
    using Cons.prems(1) by (intro Cons.IH) simp_all
  moreover have "s' = run_push E G (snd PD j) (map (fst PD) [j..<j + k]) s" using e r' by simp
  ultimately show ?case using r' by (simp add: run_list_def r)
qed (simp add: run_list_def)

text \<open>A processed burst of \<open>n\<close> packets whose ports exist (or are bad), ready to be sent.\<close>

definition sendable :: "dpdk \<Rightarrow> burst \<Rightarrow> nat \<Rightarrow> bool" where
  "sendable E PD n \<longleftrightarrow> 0 < n \<and> n \<le> MAX_PKT_BURST \<and> (\<forall>i<n. port_or_bad E (snd PD i))"

lemma sendable_runs:
  assumes "sendable E PD n"
  shows "\<forall>(j, k) \<in> set (runs (snd PD) n 0). x4_good G k \<and> port_or_bad E (snd PD j)"
  using assms runs_props by (fastforce simp: sendable_def x4_good_def)

lemma run_list_concat: "concat (map snd (run_list PD (runs (snd PD) n 0))) = map (fst PD) [0..<n]"
proof -
  have "concat (map snd (run_list PD (runs (snd PD) n 0)))
      = map (fst PD) (concat (map (\<lambda>(i, k). [i..<i + k]) (runs (snd PD) n 0)))"
    by (simp add: run_list_def map_concat comp_def case_prod_beta)
  then show ?thesis by (simp only: runs_concat zero_le)
qed

text \<open>The groups of one port are that port's packets, in order.\<close>

lemma filter_run:
  assumes "const_on d i k"
  shows "filter (\<lambda>x. d x = q) [i..<i + k] = (if d i = q then [i..<i + k] else [])"
proof -
  have c: "(d x = q) = (d i = q)" if "x \<in> set [i..<i + k]" for x
    using that const_onD [OF assms, of x] by (simp only: set_upt atLeastLessThan_iff)
  show ?thesis
  proof (cases "d i = q")
    case True
    with c have "\<forall>x \<in> set [i..<i + k]. d x = q" by blast
    then show ?thesis unfolding if_P [OF True] by (rule filter_True)
  next
    case False
    with c have "\<forall>x \<in> set [i..<i + k]. \<not> d x = q" by blast
    then show ?thesis unfolding if_not_P [OF False] by (rule filter_False)
  qed
qed

lemma runs_filter:
  assumes "\<forall>(i, k) \<in> set rs. const_on d i k"
  shows "concat (map (\<lambda>(i, k). [i..<i + k]) (filter (\<lambda>(i, k). d i = q) rs))
    = filter (\<lambda>x. d x = q) (concat (map (\<lambda>(i, k). [i..<i + k]) rs))"
  using assms
proof (induction rs)
  case (Cons r rs)
  obtain i k where r: "r = (i, k)" by (cases r)
  have "filter (\<lambda>x. d x = q) [i..<i + k] = (if d i = q then [i..<i + k] else [])"
    using Cons.prems by (intro filter_run) (simp add: r)
  then show ?case using Cons by (simp only: r list.map concat.simps filter_append) simp
qed simp

lemma run_list_port:
  "concat (map snd (filter (\<lambda>x. fst x = q) (run_list PD (runs (snd PD) n 0))))
    = map (fst PD) (filter (\<lambda>i. snd PD i = q) [0..<n])"
proof -
  have c: "\<forall>(i, k) \<in> set (runs (snd PD) n 0). const_on (snd PD) i k"
    using runs_props by fastforce
  have "concat (map snd (filter (\<lambda>x. fst x = q) (run_list PD rs)))
      = map (fst PD) (concat (map (\<lambda>(i, k). [i..<i + k]) (filter (\<lambda>(i, k). snd PD i = q) rs)))" for rs
    by (induction rs) (auto simp: run_list_def)
  then show ?thesis by (simp only: runs_filter [OF c] runs_concat zero_le)
qed

section \<open>The whole routine\<close>

context simd_unit
begin

lemma send_multi_runs:
  assumes "ok G" and "0 < n" and "snd (processed E G PD 1) 0 \<noteq> BAD_PORT - 1"
  shows "send_multi U E G pnum0 PD n s
    = Some (fold (send_run E G (processed E G PD n)) (runs (snd (processed E G PD n)) n 0)
        (\<lparr>st_sent = 0, st_dropped = 0\<rparr>, s))"
proof -
  obtain PD' pnum lp where g: "multi_group U E G pnum0 PD n = (PD', pnum, lp)"
    by (metis prod_cases3)
  have p: "PD' = processed E G PD n" and i: "grp_inv (snd (processed E G PD n)) (n - 1) (pnum, lp)"
    using multi_group_inv [OF assms, of pnum0] by (simp_all add: g)
  show ?thesis
    using dispatch_runs [OF i assms(2,2)] by (simp add: send_multi_def g p is_start_def)
qed

end

text \<open>Ports are numbers below \<open>RTE_MAX_ETHPORTS\<close>, a build constant that leaves room for the two
  values no port has.\<close>

definition ports_16 :: "dpdk \<Rightarrow> bool" where
  "ports_16 E \<longleftrightarrow> max_ethports E \<le> 65534"

lemma port_ok_bound: "ports_16 E \<Longrightarrow> port_ok E p \<Longrightarrow> p \<noteq> BAD_PORT \<and> p \<noteq> BAD_PORT - 1"
  by (auto simp: ports_16_def port_ok_def BAD_PORT_def unsigned_minus_1_eq_mask mask_eq_exp_minus_1)

lemma bad_not_ok: "ports_16 E \<Longrightarrow> \<not> port_ok E BAD_PORT"
  using port_ok_bound by blast

lemma process_packet_port_cases:
  "snd (process_packet E G m dp) = dp \<or> snd (process_packet E G m dp) = BAD_PORT"
  by (simp add: process_packet_port rfc1812_process_def Let_def)

lemma sendable_processed:
  assumes "ports_16 E" and "0 < n" and "n \<le> MAX_PKT_BURST" and "\<forall>i<n. port_ok E (snd PD i)"
  shows "sendable E (processed E G PD n) n" and "snd (processed E G PD 1) 0 \<noteq> BAD_PORT - 1"
proof -
  have ne: "BAD_PORT \<noteq> BAD_PORT - 1" by (simp add: BAD_PORT_def)
  have "snd (processed E G PD n) i = snd PD i \<or> snd (processed E G PD n) i = BAD_PORT" if "i < n" for i n
    using processed_at [OF that, of E G PD] process_packet_port_cases [of E G "fst PD i" "snd PD i"] by simp
  note p = this
  show "sendable E (processed E G PD n) n"
    unfolding sendable_def port_or_bad_def
    using assms p port_ok_bound [OF assms(1)] bad_not_ok [OF assms(1)] by metis
  show "snd (processed E G PD 1) 0 \<noteq> BAD_PORT - 1"
    using p [of 0 1] assms(2,4) port_ok_bound [OF assms(1)] ne by auto
qed

section \<open>The statistics of a burst\<close>

definition waiting :: "lcore \<Rightarrow> nat" where
  "waiting s = (\<Sum>p\<in>UNIV. tb_len s p)"

lemma waiting_upd:
  "(\<And>q. q \<noteq> p \<Longrightarrow> tb_len s' q = tb_len s q) \<Longrightarrow> waiting s' + tb_len s p = waiting s + tb_len s' p"
proof -
  assume q: "\<And>q. q \<noteq> p \<Longrightarrow> tb_len s' q = tb_len s q"
  have "waiting t = tb_len t p + (\<Sum>q\<in>UNIV - {p}. tb_len t q)" for t
    unfolding waiting_def by (subst sum.remove [of _ p]) simp_all
  moreover have "(\<Sum>q\<in>UNIV - {p}. tb_len s' q) = (\<Sum>q\<in>UNIV - {p}. tb_len s q)"
    by (rule sum.cong) (simp_all add: q)
  ultimately show ?thesis by simp
qed

lemma x4_len_other:
  assumes "tx_burst_ok E" and "port_ok E p" and "0 < num" and "num \<le> MAX_PKT_BURST"
    and "tb_len s p < MAX_PKT_BURST" and "q \<noteq> p"
  shows "tb_len (snd (send_packetsx4 E G p m num s)) q = tb_len s q"
  unfolding view_lengths(3) send_packetsx4_view [OF assms(1-5)] using assms(6)
  by (simp add: abs_x4_def Let_def)

lemma send_run_counts:
  assumes "tx_burst_ok E" and "x4_good G k" and "port_or_bad E (snd PD j)" and "tx_inv MAX_PKT_BURST s"
    and r: "send_run E G PD (j, k) (st, s) = (st', s')"
  shows "st_sent st' + st_dropped st' + waiting s' = st_sent st + st_dropped st + k + waiting s"
proof (cases "snd PD j = BAD_PORT")
  case True
  obtain P D where pd: "PD = (P, D)" by (cases PD)
  have f: "fold (\<lambda>m. pktmbuf_free (P m)) xs s = s\<lparr>freed := freed s @ map P xs\<rparr>" for xs
    by (induction xs arbitrary: s) (simp_all add: pktmbuf_free_def)
  show ?thesis using r True by (auto simp: send_run_def pd f waiting_def)
next
  case False
  then have p: "port_ok E (snd PD j)" using assms(3) by (simp add: port_or_bad_def)
  have k: "0 < k" "k \<le> MAX_PKT_BURST" using assms(2) by (simp_all add: x4_good_def)
  have l: "tb_len s (snd PD j) < MAX_PKT_BURST" using assms(4) by (simp add: tx_inv_def)
  obtain P D where pd: "PD = (P, D)" by (cases PD)
  let ?r = "send_packetsx4 E G (D j) (\<lambda>i. P (j + i)) k s"
  have e: "st' = add_stats st (fst ?r)" "s' = snd ?r"
    using r False by (simp_all add: send_run_def pd case_prod_beta)
  have "accounts (D j) k s ?r"
    using send_packetsx4_accounts_ok [OF assms(1) p k l] by (simp add: pd)
  then have a: "st_sent (fst ?r) + st_dropped (fst ?r) + tb_len s' (D j) = k + tb_len s (D j)"
    by (simp add: accounts_def case_prod_beta e)
  have "waiting s' + tb_len s (D j) = waiting s + tb_len s' (D j)"
    unfolding e by (rule waiting_upd) (use x4_len_other [OF assms(1) p k l] in \<open>simp add: pd\<close>)
  with a show ?thesis by (simp add: e add_stats_def)
qed

lemma send_runs_counts:
  assumes "tx_burst_ok E"
  shows "\<forall>(j, k) \<in> set rs. x4_good G k \<and> port_or_bad E (snd PD j) \<Longrightarrow> tx_inv MAX_PKT_BURST s \<Longrightarrow>
    fold (send_run E G PD) rs (st, s) = (st', s') \<Longrightarrow>
    st_sent st' + st_dropped st' + waiting s'
      = st_sent st + st_dropped st + sum_list (map snd rs) + waiting s"
proof (induction rs arbitrary: st s)
  case (Cons r rs)
  obtain j k where r: "r = (j, k)" by (cases r)
  have k: "x4_good G k" "port_or_bad E (snd PD j)" using Cons.prems(1) by (simp_all add: r)
  obtain st1 s1 where s1: "send_run E G PD (j, k) (st, s) = (st1, s1)" by fastforce
  have "s1 = run_push E G (snd PD j) (map (fst PD) [j..<j + k]) s"
    using send_run_push [of k s E G PD j st] k(1) Cons.prems(2) by (simp add: s1 x4_good_def)
  then have "tx_inv MAX_PKT_BURST s1"
    using run.push_inv [OF assms, of G "map (fst PD) [j..<j + k]" "snd PD j" s] k Cons.prems(2) by simp
  then have "st_sent st' + st_dropped st' + waiting s'
      = st_sent st1 + st_dropped st1 + sum_list (map snd rs) + waiting s1"
    using Cons.prems(1,3) by (intro Cons.IH) (simp_all add: r s1)
  then show ?case
    using send_run_counts [OF assms k Cons.prems(2) s1] by (simp add: r)
qed simp

lemma runs_total: "sum_list (map snd (runs d n 0)) = n"
proof -
  have "length (concat (map (\<lambda>(i, k). [i..<i + k]) rs)) = sum_list (map snd rs)" for rs :: "(nat \<times> nat) list"
    by (induction rs) auto
  then have "sum_list (map snd (runs d n 0)) = length (concat (map (\<lambda>(i, k). [i..<i + k]) (runs d n 0)))"
    by simp
  also have "\<dots> = n" by (simp only: runs_concat zero_le) simp
  finally show ?thesis .
qed

lemma send_run_conf: "same_conf s (snd (send_run E G PD jk (st, s)))"
proof -
  have "same_conf s (fold (\<lambda>m. pktmbuf_free (fst PD m)) xs s)" for xs
    by (rule same_conf_fold) (simp add: pktmbuf_free_def)
  then show ?thesis
    by (cases PD; cases jk) (simp add: send_run_def case_prod_beta send_packetsx4_conf)
qed

lemma send_runs_conf: "same_conf s (snd (fold (send_run E G PD) rs (st, s)))"
proof (induction rs arbitrary: st s)
  case (Cons r rs)
  obtain st' s' where r: "send_run E G PD r (st, s) = (st', s')" by fastforce
  have "same_conf s s'" using send_run_conf [of s E G PD r st] by (simp add: r)
  then show ?case using Cons [of s' st'] by (auto simp: r intro: same_conf_trans)
qed simp

lemma multi_delivers:
  assumes "tx_burst_ok E" and "ports_16 E" and "tx_inv MAX_PKT_BURST s"
    and "0 < n" and "n \<le> MAX_PKT_BURST" and "\<forall>i<n. port_ok E (snd PD i)"
  shows "\<exists>stats s'. send_packets_multi E G pnum0 PD n s = Some (stats, s')
    \<and> tx_inv MAX_PKT_BURST s' \<and> same_conf s s'
    \<and> content (tx_view s') = content (tx_view s) + mset (map (fst (processed E G PD n)) [0..<n])
    \<and> (lossless E \<longrightarrow> (\<forall>q. port_ok E q \<longrightarrow> out_seq (tx_view s') q = out_seq (tx_view s) q
        @ map (fst (processed E G PD n)) (filter (\<lambda>i. snd (processed E G PD n) i = q) [0..<n])))
    \<and> st_sent stats + st_dropped stats + waiting s' = n + waiting s"
proof -
  let ?PD = "processed E G PD n" and ?z = "\<lparr>st_sent = 0, st_dropped = 0\<rparr>"
  let ?rs = "runs (snd ?PD) n 0"
  have sd: "sendable E ?PD n" and d0: "snd (processed E G PD 1) 0 \<noteq> BAD_PORT - 1"
    by (rule sendable_processed [OF assms(2,4,5,6)])+
  note rs = sendable_runs [OF sd, of G]
  have all: "snd (fold (send_run E G ?PD) ?rs (?z, s)) = run.push_all E G (run_list ?PD ?rs) s"
    by (rule send_runs_push [OF assms(1) rs assms(3)])
  have pa: "run.pushable E G (run_list ?PD ?rs)"
    using rs by (auto simp: run.pushable_def run_list_def)
  obtain st' s' where r: "fold (send_run E G ?PD) ?rs (?z, s) = (st', s')" by fastforce
  have s': "s' = run.push_all E G (run_list ?PD ?rs) s" using all by (simp add: r)
  have "send_packets_multi E G pnum0 PD n s = Some (st', s')"
    unfolding send_packets_multi_def
    by (subst sse_multi.send_multi_runs [OF TrueI assms(4) d0]) (simp add: r)
  moreover have "tx_inv MAX_PKT_BURST s'"
    unfolding s' by (rule run.push_all_inv [OF assms(1) pa assms(3)])
  moreover have "same_conf s s'"
    using send_runs_conf [of s E G ?PD ?rs ?z] by (simp add: r)
  moreover have "content (tx_view s') = content (tx_view s) + mset (map (fst ?PD) [0..<n])"
    unfolding s' run.push_all_content [OF assms(1) pa assms(3)] run_list_concat ..
  moreover have "out_seq (tx_view s') q = out_seq (tx_view s) q
      @ map (fst ?PD) (filter (\<lambda>i. snd ?PD i = q) [0..<n])" if "lossless E" "port_ok E q" for q
    unfolding s' run.push_all_order [OF assms(1) that pa assms(3)] run_list_port ..
  moreover have "st_sent st' + st_dropped st' + waiting s' = n + waiting s"
    using send_runs_counts [OF assms(1) rs assms(3) r] by (simp add: runs_total)
  ultimately show ?thesis by blast
qed

section \<open>Properties\<close>

definition burst_ex :: burst where
  "burst_ex = (mbuf_ex, (\<lambda>i. if i < 3 then 1 else 2))"

lemma ports_16_ex: "ports_16 dpdk_ex"
  by (simp add: ports_16_def dpdk_ex_def)

lemma burst_ex_ports: "\<forall>i<7. port_ok dpdk_ex (snd burst_ex i)"
  by (simp add: burst_ex_def port_ok_ex)

text \<open>C1. \<open>send_packets_multi\<close> returns, for every non-empty burst, every contents of the
  uninitialised counters and destination ports that exist, and it does exactly this: finish
  every packet with \<open>process_packet\<close>, split the burst into its maximal runs of equal ports, and
  send or free the runs one after the other. The four-lane routines, the table lookups, the
  repeated last port and the three-packet tail leave no other trace.\<close>

theorem send_packets_multi_runs:
  assumes "ports_16 E" and "0 < n" and "n \<le> MAX_PKT_BURST" and "\<forall>i<n. port_ok E (snd PD i)"
  shows "send_packets_multi E G pnum0 PD n s
    = Some (fold (send_run E G (processed E G PD n)) (runs (snd (processed E G PD n)) n 0)
        (\<lparr>st_sent = 0, st_dropped = 0\<rparr>, s))"
  unfolding send_packets_multi_def
  by (rule sse_multi.send_multi_runs) (use assms sendable_processed(2) [OF assms] in simp_all)

theorem send_packets_multi_runs_witness:
  "send_packets_multi dpdk_ex glob_ex (\<lambda>_. 9) burst_ex 7 lcore_ex
    = Some (fold (send_run dpdk_ex glob_ex (processed dpdk_ex glob_ex burst_ex 7))
        (runs (snd (processed dpdk_ex glob_ex burst_ex 7)) 7 0)
        (\<lparr>st_sent = 0, st_dropped = 0\<rparr>, lcore_ex))"
  by (rule send_packets_multi_runs [OF ports_16_ex])
     (use burst_ex_ports in \<open>simp_all add: MAX_PKT_BURST_def\<close>)

text \<open>C3. What \<open>send_packets_multi\<close> delivers: it returns with every transmit buffer below 512
  and no access out of range; every packet of the burst, rewritten, is with the driver, in a
  buffer or freed, once; when the driver takes everything, each port's output continues with
  exactly the packets bound for it, in the order of the burst; and the statistics with the
  change of the buffers account for the whole burst.\<close>

theorem send_packets_multi_delivers:
  assumes "tx_burst_ok E" and "ports_16 E" and "tx_inv MAX_PKT_BURST s"
    and "0 < n" and "n \<le> MAX_PKT_BURST" and "\<forall>i<n. port_ok E (snd PD i)"
  shows "\<exists>stats s'. send_packets_multi E G pnum0 PD n s = Some (stats, s')
    \<and> tx_inv MAX_PKT_BURST s'
    \<and> content (tx_view s') = content (tx_view s) + mset (map (fst (processed E G PD n)) [0..<n])
    \<and> (lossless E \<longrightarrow> (\<forall>q. port_ok E q \<longrightarrow> out_seq (tx_view s') q = out_seq (tx_view s) q
        @ map (fst (processed E G PD n)) (filter (\<lambda>i. snd (processed E G PD n) i = q) [0..<n])))
    \<and> st_sent stats + st_dropped stats + waiting s' = n + waiting s"
  using multi_delivers [OF assms] by blast

theorem send_packets_multi_delivers_witness:
  "\<exists>stats s'. send_packets_multi dpdk_all glob_ex (\<lambda>_. 9) burst_ex 7 lcore_ex = Some (stats, s')
    \<and> tx_inv MAX_PKT_BURST s'
    \<and> content (tx_view s') = content (tx_view lcore_ex)
        + mset (map (fst (processed dpdk_all glob_ex burst_ex 7)) [0..<7])
    \<and> out_seq (tx_view s') 2 = out_seq (tx_view lcore_ex) 2
        @ map (fst (processed dpdk_all glob_ex burst_ex 7))
            (filter (\<lambda>i. snd (processed dpdk_all glob_ex burst_ex 7) i = 2) [0..<7])
    \<and> st_sent stats + st_dropped stats + waiting s' = 7 + waiting lcore_ex"
proof -
  have "ports_16 dpdk_all" by (simp add: ports_16_def dpdk_all_def dpdk_ex_def)
  moreover have "7 \<le> MAX_PKT_BURST" "(0 :: nat) < 7" by (simp_all add: MAX_PKT_BURST_def)
  moreover have "\<forall>i<7. port_ok dpdk_all (snd burst_ex i)" by (simp add: burst_ex_def port_ok_all)
  ultimately show ?thesis
    using send_packets_multi_delivers [OF lossless_all(1) _ tx_inv_ex [OF MAX_PKT_BURST_pos], of 7 burst_ex glob_ex "\<lambda>_. 9"]
      lossless_all(2) port_ok_all [of 2]
    by auto
qed

text \<open>The NEON \<open>send_packets_multi\<close> does what the SSE one does, whatever the vector
  routines it is made of, on the same burst and lcore.\<close>

lemma send_packets_multi_neon_same:
  assumes "ports_16 E" and "val_eth_16 G" and "0 < n" and "n \<le> MAX_PKT_BURST"
    and "\<forall>i<n. port_ok E (snd PD i)"
  shows "send_packets_multi_neon E G pnum0 PD n s = send_packets_multi E G pnum1 PD n s"
proof -
  note d0 = sendable_processed(2) [OF assms(1,3-5), of G]
  show ?thesis
    unfolding send_packets_multi_def send_packets_multi_neon_def
    by (simp only: sse_multi.send_multi_runs [OF TrueI assms(3) d0]
        neon_multi.send_multi_runs [OF assms(2,3) d0])
qed

end
