(* ===== verification/Send_Altivec.thy ===== *)
theory Send_Altivec
  imports Send_Multi
begin

text \<open>
  \<open>send_packets_multi\<close> on POWER (\<open>l3fwd/l3fwd_altivec.h\<close>), on a little-endian host: the routine of
  \<open>Send_Multi\<close> over the AltiVec operations. The two permutations that prepare the next and the last
  window do not do what those of SSE and NEON do, so the laws of \<open>simd_unit\<close> do not hold. The
  weaker contract \<open>simd_tiles\<close> is what is left: every packet is still in one group, but not
  every group has one port.
\<close>

section \<open>The AltiVec operations\<close>

text \<open>The octets of a vector of eight 16-bit lanes in the order of memory, and back.\<close>

definition vec_octets :: "u16 list \<Rightarrow> u8 list" where
  "vec_octets a = concat (map (\<lambda>x. [ucast x, ucast (drop_bit 8 x)]) a)"

definition vec_lanes :: "u8 list \<Rightarrow> u16 list" where
  "vec_lanes b = map (\<lambda>i. ucast (b ! (2 * i)) OR push_bit 8 (ucast (b ! (2 * i + 1)))) [0..<8]"

text \<open>\<open>vec_perm(a, b, c)\<close>: octet \<open>i\<close> is the octet of \<open>a\<close> followed by \<open>b\<close> that the low five bits
  of octet \<open>i\<close> of \<open>c\<close> name. \<open>vec_sro(a, b)\<close>: shift right by the number of octets in bits 121
  to 124 of \<open>b\<close>, which are bits 6 to 3 of the least significant octet of the register: octet 0 in
  memory.\<close>

definition vec_perm :: "u8 list \<Rightarrow> u8 list \<Rightarrow> u8 list \<Rightarrow> u8 list" where
  "vec_perm a b c = map (\<lambda>i. (a @ b) ! (unat (c ! i) mod 32)) [0..<16]"

definition vec_sro :: "u8 list \<Rightarrow> u8 list \<Rightarrow> u8 list" where
  "vec_sro a b = (let n = unat (drop_bit 3 (b ! 0)) mod 16 in drop n a @ replicate n 0)"

text \<open>Elements of an initialiser that are not given are 0.\<close>

definition altivec_next :: "u16 list \<Rightarrow> u16 list" where
  "altivec_next dp2 = vec_lanes (vec_sro (vec_octets dp2)
     ([0, 0, 0, 0, 0, 0, 0, 0, 0, 0, 0, of_nat ((FWDSTEP - 1) * 2)] @ replicate 4 0))"

definition altivec_last :: "u16 list \<Rightarrow> u16 list" where
  "altivec_last dp1 = vec_lanes (vec_perm (vec_octets dp1) (vec_octets (replicate 8 0))
     (0xf9 # replicate 15 0))"

definition altivec_simd :: simd where
  "altivec_simd = \<lparr> sd_step3 = processx4_step3_altivec, sd_proc = process_packet_altivec,
     sd_group = port_groupx4_altivec,
     sd_next = (\<lambda>dp2 dp1. altivec_next dp2), sd_last = altivec_last \<rparr>"

definition send_packets_multi_altivec :: "dpdk \<Rightarrow> glob \<Rightarrow> (nat \<Rightarrow> nat) \<Rightarrow> burst \<Rightarrow> nat \<Rightarrow> lcore \<Rightarrow>
    (tx_stats \<times> lcore) option" where
  "send_packets_multi_altivec = send_multi altivec_simd"

section \<open>What the two permutations give\<close>

lemma list8_cases:
  assumes "length a = 8"
  obtains x0 x1 x2 x3 x4 x5 x6 x7 where "a = [x0, x1, x2, x3, x4, x5, x6, x7]"
  using assms by (auto simp: numeral_eq_Suc length_Suc_conv)

lemma octets_lane: "(ucast (ucast (x :: u16) :: u8) OR push_bit 8 (ucast (ucast (drop_bit 8 x) :: u8)) :: u16) = x"
  by (rule bit_word_eqI) (auto simp: bit_simps)

text \<open>The window for the next four packets is not advanced: the operand holds 6 where the
  instruction looks for 8 times a number of octets, and in another octet.\<close>

lemma altivec_next_same: "length a = 8 \<Longrightarrow> altivec_next a = a"
  by (erule list8_cases)
     (simp add: altivec_next_def vec_sro_def vec_lanes_def vec_octets_def upt_rec octets_lane)

text \<open>So from the second pass on the ports compared with the following ones are those three packets
  back, not those of the four packets to group.\<close>

lemma altivec_window_behind:
  "4 \<le> j \<Longrightarrow> snd (snd (multi_body altivec_simd E G j st))
    = load8 (snd (fst (multi_body altivec_simd E G j st))) (j - 3)"
proof -
  assume "4 \<le> j"
  then have "j - 4 + 1 = j - 3" by simp
  then show ?thesis
    by (cases st) (simp add: multi_body_def Let_def altivec_simd_def altivec_next_same load8_def FWDSTEP_def
      del: upt_rec_numeral)
qed

text \<open>The last window is made of the low octet of the first port alone.\<close>

lemma vec_perm_f9:
  "vec_perm a b (0xf9 # replicate 15 0) = (a @ b) ! 25 # replicate 15 ((a @ b) ! 0)"
proof (rule nth_equalityI)
  fix i assume "i < length (vec_perm a b (0xf9 # replicate 15 0))"
  then have "i < 16" by (simp add: vec_perm_def)
  then show "vec_perm a b (0xf9 # replicate 15 0) ! i = ((a @ b) ! 25 # replicate 15 ((a @ b) ! 0)) ! i"
    by (cases i) (simp_all add: vec_perm_def)
qed (simp add: vec_perm_def)

lemma vec_lanes_rep:
  "vec_lanes (x # replicate 15 y) = (ucast x OR push_bit 8 (ucast y)) # replicate 7 (ucast y OR push_bit 8 (ucast y))"
proof (rule nth_equalityI)
  fix i assume "i < length (vec_lanes (x # replicate 15 y))"
  then have "i < 8" by (simp add: vec_lanes_def)
  then show "vec_lanes (x # replicate 15 y) ! i
      = ((ucast x OR push_bit 8 (ucast y)) # replicate 7 (ucast y OR push_bit 8 (ucast y))) ! i"
    by (cases i) (simp_all add: vec_lanes_def)
qed (simp add: vec_lanes_def)

lemma vec_octets_props:
  assumes "length a = 8"
  shows "length (vec_octets a) = 16" and "vec_octets a ! 0 = ucast (a ! 0)"
proof -
  have "length (vec_octets a) = 2 * length a" by (induction a) (simp_all add: vec_octets_def)
  with assms show "length (vec_octets a) = 16" by simp
  show "vec_octets a ! 0 = ucast (a ! 0)" using assms by (cases a) (simp_all add: vec_octets_def)
qed

lemma altivec_last_octet:
  assumes "length a = 8"
  shows "altivec_last a = push_bit 8 (a ! 0 AND mask 8)
     # replicate 7 ((a ! 0 AND mask 8) OR push_bit 8 (a ! 0 AND mask 8))"
proof -
  have z: "vec_octets (replicate 8 0) = replicate 16 0"
    by (simp add: vec_octets_def eval_nat_numeral)
  have e: "(vec_octets a @ replicate 16 0) ! 25 = 0" "(vec_octets a @ replicate 16 0) ! 0 = ucast (a ! 0)"
    using vec_octets_props [OF assms] by (simp_all add: nth_append)
  have u: "(ucast (ucast (x :: u16) :: u8) :: u16) = x AND mask 8" for x
    by (rule bit_word_eqI) (auto simp: bit_simps)
  show ?thesis
    unfolding altivec_last_def z vec_perm_f9 e vec_lanes_rep u by simp
qed

lemma altivec_lengths [simp]: "length (altivec_next a) = 8" "length (altivec_last a) = 8"
  by (simp_all add: altivec_next_def altivec_last_def vec_lanes_def)

section \<open>Groups that cover a burst\<close>

text \<open>\<open>rs\<close> lists the groups the counters describe from packet \<open>j\<close> up to packet \<open>n\<close>.\<close>

fun tiles :: "(nat \<Rightarrow> nat) \<Rightarrow> nat \<Rightarrow> nat \<Rightarrow> (nat \<times> nat) list \<Rightarrow> bool" where
  "tiles f n j [] = (j = n)"
| "tiles f n j ((i, k) # rs) = (i = j \<and> k = f j \<and> 0 < k \<and> tiles f n (j + k) rs)"

lemma tiles_append: "tiles f m j rs \<Longrightarrow> tiles f n m rs' \<Longrightarrow> tiles f n j (rs @ rs')"
  by (induction f m j rs rule: tiles.induct) auto

lemma tiles_le: "tiles f n j rs \<Longrightarrow> j \<le> n"
  by (induction f n j rs rule: tiles.induct) auto

lemma tiles_bound: "tiles f n j rs \<Longrightarrow> \<forall>(i, k) \<in> set rs. 0 < k \<and> i + k \<le> n"
  by (induction f n j rs rule: tiles.induct) (auto dest: tiles_le)

lemma tiles_concat: "tiles f n j rs \<Longrightarrow> concat (map (\<lambda>(i, k). [i..<i + k]) rs) = [j..<n]"
proof (induction f n j rs rule: tiles.induct)
  case (2 f n j i k rs)
  then have "j + k \<le> n" by (auto dest: tiles_le)
  then have "[j..<n] = [j..<j + k] @ [j + k..<n]"
    by (metis le_add1 le_add_diff_inverse upt_add_eq_append)
  then show ?case using 2 by auto
qed simp

lemma tiles_total: "tiles f n j rs \<Longrightarrow> j + sum_list (map snd rs) = n"
  by (induction f n j rs rule: tiles.induct) auto

lemma dispatch_tiles:
  "tiles pnum n j rs \<Longrightarrow> dispatch E G PD pnum n j acc = Some (fold (send_run E G PD) rs acc)"
proof (induction pnum n j rs arbitrary: acc rule: tiles.induct)
  case (1 pnum n j)
  then show ?case by (subst dispatch.simps) simp
next
  case (2 pnum n j i k rs)
  have "i = j" "k = pnum j" "0 < k" and t: "tiles pnum n (j + k) rs" using 2(2) by auto
  moreover have "j < n" using tiles_le [OF t] \<open>0 < k\<close> by simp
  ultimately show ?case using 2(1) [OF t] by (subst dispatch.simps) simp
qed

text \<open>The counters of closed runs are groups up to the open one.\<close>

lemma grp_inv_tiles:
  assumes "grp_inv d J (pnum, lp)"
  shows "i \<le> lp \<Longrightarrow> is_start d i \<Longrightarrow> \<exists>rs. tiles pnum lp i rs"
proof (induction "lp - i" arbitrary: i rule: less_induct)
  case less
  show ?case
  proof (cases "i = lp")
    case True
    then have "tiles pnum lp i []" by simp
    then show ?thesis by blast
  next
    case False
    then have "closed_run d lp (pnum i) i"
      using assms less.prems by (simp add: grp_inv_def)
    then have c: "0 < pnum i" "i + pnum i \<le> lp" "is_start d (i + pnum i)"
      by (simp_all add: closed_run_def)
    have "lp - (i + pnum i) < lp - i" using c False less.prems by simp
    then obtain rs where "tiles pnum lp (i + pnum i) rs"
      using less.hyps c(2,3) by blast
    then have "tiles pnum lp i ((i, pnum i) # rs)" using c by simp
    then show ?thesis by blast
  qed
qed

section \<open>Counters of some grouping\<close>

text \<open>After \<open>j\<close> packets the counters are those of some ports, or of some ports with one more
  packet that has a group of its own and is not yet there.\<close>

definition partitioned :: "nat \<Rightarrow> grp \<Rightarrow> bool" where
  "partitioned j g = (\<exists>d. grp_inv d (j - 1) g \<or>
     (snd g = j \<and> fst g j = 0 \<and> grp_inv d j ((fst g)(j := 1), j)))"

lemma partitioned_tiles:
  assumes "partitioned n (pnum, lp)" and "0 < n"
  shows "\<exists>rs. tiles pnum n 0 rs"
proof -
  obtain d where "grp_inv d (n - 1) (pnum, lp) \<or> (lp = n \<and> grp_inv d n (pnum(n := 1), n))"
    using assms(1) by (auto simp: partitioned_def)
  then show ?thesis
  proof
    assume i: "grp_inv d (n - 1) (pnum, lp)"
    obtain rs where "tiles pnum lp 0 rs" using grp_inv_tiles [OF i, of 0] by (auto simp: is_start_def)
    moreover have "tiles pnum n lp [(lp, pnum lp)]" using i assms(2) by (auto simp: grp_inv_def)
    ultimately show ?thesis using tiles_append by blast
  next
    assume i: "lp = n \<and> grp_inv d n (pnum(n := 1), n)"
    then obtain rs where rs: "tiles (pnum(n := 1)) n 0 rs"
      using grp_inv_tiles [of d n "pnum(n := 1)" n 0] by (auto simp: is_start_def)
    have "tiles (pnum(n := 1)) n j rs \<Longrightarrow> tiles pnum n j rs" for j
      by (induction "pnum(n := 1)" n j rs rule: tiles.induct) (auto dest: tiles_le split: if_splits)
    with rs show ?thesis by blast
  qed
qed

lemma word_neq_Suc: "(x :: u16) \<noteq> x + 1"
  by simp

text \<open>Whatever four comparisons say, they group as some ports would.\<close>

lemma some_group:
  assumes "grp_inv d w (pnum, lp)"
  shows "\<exists>d'. grp_inv d' (w + 4) (group_update w (pair_mask b0 b1 b2 b3) (pnum, lp))"
proof -
  define nx where "nx b (x :: u16) = (if b then x else x + 1)" for b x
  define e1 where "e1 = nx b0 (d w)"
  define e2 where "e2 = nx b1 e1"
  define e3 where "e3 = nx b2 e2"
  define e4 where "e4 = nx b3 e3"
  define d' where "d' = d(w + 1 := e1, w + 2 := e2, w + 3 := e3, w + 4 := e4)"
  have "grp_inv d' w (pnum, lp)"
    by (rule grp_inv_ports [OF assms]) (simp add: d'_def)
  moreover have "pair_mask b0 b1 b2 b3 = pair_mask (d' w = d' (w + 1)) (d' (w + 1) = d' (w + 2))
      (d' (w + 2) = d' (w + 3)) (d' (w + 3) = d' (w + 4))"
    by (simp add: d'_def e1_def e2_def e3_def e4_def nx_def)
  ultimately show ?thesis using group_update_inv by blast
qed

lemma partitioned_dec:
  assumes "grp_inv d (Suc J) (pnum, lp)"
  shows "partitioned (Suc J) (pnum(lp := pnum lp - 1), lp)"
proof (cases "lp = Suc J")
  case True
  then have "pnum (Suc J) = 1" using assms by (simp add: grp_inv_def)
  then have "(pnum(lp := pnum lp - 1))(Suc J := 1) = pnum" using True by auto
  then show ?thesis using assms True \<open>pnum (Suc J) = 1\<close> unfolding partitioned_def by auto
next
  case False
  then have l: "lp \<le> J" and f: "flat d lp (Suc J)" using assms by (auto simp: grp_inv_def)
  then have "d (Suc J) = d J" using flatD [OF f, of J] flatD [OF f, of "Suc J"] by simp
  then have "grp_inv d J (pnum(lp := pnum lp - 1), lp)" using assms grp_inv_dec by blast
  then show ?thesis unfolding partitioned_def by auto
qed

lemma partitioned_step:
  assumes "partitioned (Suc J) (pnum, lp)"
  shows "partitioned (Suc (Suc J)) (snd (GROUP_PORT_STEP D (Suc J) (dlp, pnum, lp)))"
proof -
  obtain d where "grp_inv d J (pnum, lp) \<or> (lp = Suc J \<and> pnum (Suc J) = 0 \<and> grp_inv d (Suc J) (pnum(Suc J := 1), Suc J))"
    using assms by (auto simp: partitioned_def)
  then have "\<exists>d'. grp_inv d' (Suc J) (snd (GROUP_PORT_STEP D (Suc J) (dlp, pnum, lp)))"
  proof
    assume i: "grp_inv d J (pnum, lp)"
    define d' where "d' = d(Suc J := if dlp = D (Suc J) then d J else d J + 1)"
    have "grp_inv d' J (pnum, lp)" by (rule grp_inv_ports [OF i]) (simp add: d'_def)
    then have "grp_inv d' (Suc J) (snd (GROUP_PORT_STEP d' (Suc J) (d' J, pnum, lp)))"
      using GROUP_PORT_STEP_inv by blast
    moreover have "snd (GROUP_PORT_STEP d' (Suc J) (d' J, pnum, lp)) = snd (GROUP_PORT_STEP D (Suc J) (dlp, pnum, lp))"
      by (simp add: GROUP_PORT_STEP_def d'_def)
    ultimately show ?thesis by auto
  next
    assume "lp = Suc J \<and> pnum (Suc J) = 0 \<and> grp_inv d (Suc J) (pnum(Suc J := 1), Suc J)"
    then show ?thesis by (auto simp: GROUP_PORT_STEP_def)
  qed
  then show ?thesis by (auto simp: partitioned_def)
qed

section \<open>The weaker contract\<close>

locale simd_tiles =
  fixes U :: simd and ok :: "glob \<Rightarrow> bool"
  assumes step3: "ok G \<Longrightarrow> sd_step3 U E G j PD = (process_at E G (j + 3) \<circ> process_at E G (j + 2)
      \<circ> process_at E G (j + 1) \<circ> process_at E G j) PD"
    and proc: "ok G \<Longrightarrow> sd_proc U E G = process_packet E G"
    and group: "length a = 8 \<Longrightarrow> length b = 8 \<Longrightarrow> \<exists>b0 b1 b2 b3.
      sd_group U pn g a b = group_update pn (pair_mask b0 b1 b2 b3) g"
    and next_length: "length a = 8 \<Longrightarrow> length b = 8 \<Longrightarrow> length (sd_next U a b) = 8"
    and last_length: "length a = 8 \<Longrightarrow> length (sd_last U a) = 8"
begin

lemma step3_processed:
  "ok G \<Longrightarrow> sd_step3 U E G j (processed E G PD j) = processed E G PD (j + 4)"
  by (simp add: step3 processed_def eval_nat_numeral)

lemma group_some:
  assumes "grp_inv d w g" and "length a = 8" and "length b = 8"
  shows "\<exists>d'. grp_inv d' (w + 4) (sd_group U w g a b)"
proof -
  obtain b0 b1 b2 b3 where "sd_group U w g a b = group_update w (pair_mask b0 b1 b2 b3) g"
    using group [OF assms(2,3)] by blast
  then show ?thesis using some_group assms(1) by (cases g) simp
qed

definition loop_part :: "dpdk \<Rightarrow> glob \<Rightarrow> burst \<Rightarrow> nat \<Rightarrow> burst \<times> grp \<times> u16 list \<Rightarrow> bool" where
  "loop_part E G PD j st = (case st of (PD', g, dp1) \<Rightarrow>
     PD' = processed E G PD j \<and> 4 \<le> j \<and> (\<exists>d. grp_inv d (j - 4) g) \<and> length dp1 = 8)"

lemma multi_body_part:
  assumes "ok G" and "loop_part E G PD j st"
  shows "loop_part E G PD (j + 4) (multi_body U E G j st)"
proof -
  obtain PD' g dp1 where st: "st = (PD', g, dp1)" by (cases st)
  obtain d where i: "PD' = processed E G PD j" "4 \<le> j" "grp_inv d (j - 4) g" "length dp1 = 8"
    using assms(2) by (auto simp: st loop_part_def)
  let ?b = "load8 (snd (processed E G PD (j + 4))) (j - 4 + 1)"
  have l: "length ?b = 8" by (simp add: load8_def)
  have "\<exists>d'. grp_inv d' (j - 4 + 4) (sd_group U (j - 4) g dp1 ?b)"
    by (rule group_some [OF i(3,4) l])
  then show ?thesis
    using step3_processed [OF assms(1), of E j PD] i(1,2,4) next_length [OF l i(4)]
    by (simp add: multi_body_def st Let_def FWDSTEP_def loop_part_def)
qed

lemma multi_loop_part:
  assumes ok: "ok G"
  shows "loop_part E G PD j st \<Longrightarrow> (k - j) mod 4 = 0 \<Longrightarrow> j \<le> k \<Longrightarrow>
    loop_part E G PD k (multi_loop U E G k j st)"
proof (induction "k - j" arbitrary: j st rule: less_induct)
  case less
  show ?case
  proof (cases "j < k")
    case True
    then have "j + 4 \<le> k" "(k - (j + 4)) mod 4 = 0" "k - (j + 4) < k - j"
      using less.prems(2) by presburger+
    then have "loop_part E G PD k (multi_loop U E G k (j + 4) (multi_body U E G j st))"
      by (intro less.hyps multi_body_part [OF ok less.prems(1)])
    with True show ?thesis by (subst multi_loop.simps) (simp add: FWDSTEP_def)
  next
    case False
    with less.prems(1,3) show ?thesis by (subst multi_loop.simps) simp
  qed
qed

definition tail_part :: "dpdk \<Rightarrow> glob \<Rightarrow> burst \<Rightarrow> burst \<times> u16 \<times> grp \<times> nat \<Rightarrow> bool" where
  "tail_part E G PD st = (case st of (PD', dlp, g, j) \<Rightarrow> PD' = processed E G PD j
     \<and> (if j = 0 then dlp \<noteq> snd (processed E G PD 1) 0 else partitioned j g))"

lemma tail_step_part:
  assumes ok: "ok G" and inv: "tail_part E G PD (PD', dlp, g, j)"
  shows "tail_part E G PD (tail_step U E G (PD', dlp, g, j))
    \<and> snd (snd (snd (tail_step U E G (PD', dlp, g, j)))) = j + 1"
proof -
  obtain P D where pd: "PD' = (P, D)" by (cases PD')
  obtain pnum lp where g: "g = (pnum, lp)" by (cases g)
  let ?r = "process_packet E G (P j) (D j)"
  define d where "d = D(j := snd ?r)"
  have PD: "(P, D) = processed E G PD j" using inv pd by (simp add: tail_part_def)
  then have nxt: "processed E G PD (j + 1) = (P(j := fst ?r), d)"
    by (simp add: processed_Suc process_at_def Let_def d_def flip: PD)
  have e: "tail_step U E G (PD', dlp, g, j)
      = ((P(j := fst ?r), d), fst (GROUP_PORT_STEP d j (dlp, pnum, lp)),
         snd (GROUP_PORT_STEP d j (dlp, pnum, lp)), j + 1)"
    by (simp add: tail_step_def pd g proc [OF ok] Let_def case_prod_beta d_def)
  have "partitioned (j + 1) (snd (GROUP_PORT_STEP d j (dlp, pnum, lp)))"
  proof (cases j)
    case 0
    then have "dlp \<noteq> d 0" using inv nxt by (simp add: tail_part_def)
    then have "snd (GROUP_PORT_STEP d j (dlp, pnum, lp)) = (pnum(0 := 1), 0)"
      using 0 by (simp add: GROUP_PORT_STEP_def)
    then show ?thesis using grp_inv_init [of d pnum] 0 by (auto simp: partitioned_def)
  next
    case (Suc i)
    then show ?thesis using inv partitioned_step [of i pnum lp d dlp] by (simp add: tail_part_def g)
  qed
  then show ?thesis unfolding e tail_part_def prod.case using nxt by simp
qed

lemma multi_tail_part:
  assumes "ok G" and "tail_part E G PD st" and "snd (snd (snd st)) = n - n mod 4"
  shows "tail_part E G PD (multi_tail U E G n st) \<and> snd (snd (snd (multi_tail U E G n st))) = n"
proof -
  let ?t = "tail_step U E G"
  have step: "tail_part E G PD (?t x) \<and> snd (snd (snd (?t x))) = snd (snd (snd x)) + 1"
    if "tail_part E G PD x" for x
    using that tail_step_part [OF assms(1)] by (cases x) auto
  have 1: "tail_part E G PD (?t st)" "snd (snd (snd (?t st))) = n - n mod 4 + 1"
    using step [OF assms(2)] assms(3) by simp_all
  have 2: "tail_part E G PD (?t (?t st))" "snd (snd (snd (?t (?t st)))) = n - n mod 4 + 2"
    using step [OF 1(1)] 1(2) by simp_all
  have 3: "tail_part E G PD (?t (?t (?t st)))" "snd (snd (snd (?t (?t (?t st))))) = n - n mod 4 + 3"
    using step [OF 2(1)] 2(2) by simp_all
  have "n mod 4 \<le> n" by simp
  with mod4_cases [of n] show ?thesis
    by (elim disjE) (use 1 2 3 assms(2,3) in \<open>simp_all add: multi_tail_def FWDSTEP_def\<close>)
qed

lemma multi_group_part:
  assumes ok: "ok G" and n: "0 < n" and d0: "snd (processed E G PD 1) 0 \<noteq> BAD_PORT - 1"
  shows "fst (multi_group U E G pnum0 PD n) = processed E G PD n
    \<and> partitioned n (snd (multi_group U E G pnum0 PD n))"
proof -
  define k where "k = n - n mod 4"
  define st where "st = (if k \<noteq> 0 then
      let PD1 = sd_step3 U E G 0 PD;
          dp1 = load8 (snd PD1) 0;
          (PD2, g, dp1) = multi_loop U E G k 4 (PD1, (pnum0(0 := 1), 0), dp1);
          dp2 = sd_last U dp1;
          (pnum, lp) = sd_group U (k - 4) g dp1 dp2;
          pnum = pnum(lp := pnum lp - 1)
      in (PD2, snd PD2 (k - 1), (pnum, lp), k)
    else (PD, BAD_PORT - 1, (pnum0, MAX_PKT_BURST), 0))"
  have k4: "k mod 4 = 0" unfolding k_def by presburger
  have inv: "tail_part E G PD st \<and> snd (snd (snd st)) = k"
  proof (cases "k = 0")
    case True
    then show ?thesis using d0 by (simp add: st_def tail_part_def processed_def)
  next
    case False
    then have k: "4 \<le> k" "(k - 4) mod 4 = 0" using k4 by presburger+
    let ?s = "(sd_step3 U E G 0 PD, (pnum0(0 := 1), 0), load8 (snd (sd_step3 U E G 0 PD)) 0)"
    have "loop_part E G PD 4 ?s"
      using step3_processed [OF ok, of E 0 PD] grp_inv_init [of _ pnum0]
      by (auto simp: loop_part_def load8_def processed_def)
    then have l: "loop_part E G PD k (multi_loop U E G k 4 ?s)"
      by (rule multi_loop_part [OF ok _ k(2,1)])
    obtain PD2 g dp1 where m: "multi_loop U E G k 4 ?s = (PD2, g, dp1)" by (metis prod_cases3)
    have "\<exists>d. grp_inv d (k - 4) g" and i': "length dp1 = 8" "PD2 = processed E G PD k"
      using l unfolding m loop_part_def prod.case by blast+
    then obtain d where i: "grp_inv d (k - 4) g" "length dp1 = 8" "PD2 = processed E G PD k" by blast
    obtain pnum lp where r: "sd_group U (k - 4) g dp1 (sd_last U dp1) = (pnum, lp)" by fastforce
    obtain d' where "grp_inv d' (k - 4 + 4) (pnum, lp)"
      using group_some [OF i(1,2) last_length [OF i(2)]] r by auto
    then have "grp_inv d' (Suc (k - 1)) (pnum, lp)" using k(1) by simp
    from partitioned_dec [OF this] have "partitioned k (pnum(lp := pnum lp - 1), lp)"
      using k(1) by simp
    moreover have "st = (PD2, snd PD2 (k - 1), (pnum(lp := pnum lp - 1), lp), k)"
      using False by (simp add: st_def Let_def m [unfolded One_nat_def] r)
    ultimately show ?thesis using False i(3) by (simp add: tail_part_def)
  qed
  then have t: "tail_part E G PD (multi_tail U E G n st)" "snd (snd (snd (multi_tail U E G n st))) = n"
    using multi_tail_part [OF ok, of E PD st n] by (simp_all add: k_def)
  obtain PD' dlp g where m: "multi_tail U E G n st = (PD', dlp, g, n)"
    using t(2) by (cases "multi_tail U E G n st") auto
  have "multi_group U E G pnum0 PD n = (PD', g)"
    unfolding multi_group_def FWDSTEP_def k_def [symmetric] Let_def [of k]
    using m by (simp add: st_def Let_def)
  then show ?thesis using t(1) n unfolding m by (simp add: tail_part_def)
qed

lemma send_multi_tiles:
  assumes "ok G" and "0 < n" and "snd (processed E G PD 1) 0 \<noteq> BAD_PORT - 1"
  shows "\<exists>pnum rs. tiles pnum n 0 rs \<and> send_multi U E G pnum0 PD n s
    = Some (fold (send_run E G (processed E G PD n)) rs (\<lparr>st_sent = 0, st_dropped = 0\<rparr>, s))"
proof -
  obtain PD' pnum lp where g: "multi_group U E G pnum0 PD n = (PD', pnum, lp)"
    by (metis prod_cases3)
  have p: "PD' = processed E G PD n" and i: "partitioned n (pnum, lp)"
    using multi_group_part [OF assms, of pnum0] by (simp_all add: g)
  obtain rs where rs: "tiles pnum n 0 rs" using partitioned_tiles [OF i assms(2)] by blast
  then show ?thesis using dispatch_tiles [OF rs] by (auto simp: send_multi_def g p)
qed

end

interpretation altivec_multi: simd_tiles altivec_simd val_eth_16
proof
  fix a b :: "u16 list" and pn g
  assume "length a = 8" "length b = 8"
  then show "\<exists>b0 b1 b2 b3. sd_group altivec_simd pn g a b = group_update pn (pair_mask b0 b1 b2 b3) g"
    by (auto simp: altivec_simd_def port_groupx4_altivec_def altivec.cmp4_mask)
qed (simp_all add: altivec_simd_def processx4_step3_units_eq processx4_step3_process_at process_packet_units)

text \<open>The stronger contract gives this one.\<close>

sublocale simd_unit \<subseteq> weak: simd_tiles U ok
proof
  fix a b :: "u16 list" and pn g
  assume "length a = 8" "length b = 8"
  then show "\<exists>b0 b1 b2 b3. sd_group U pn g a b = group_update pn (pair_mask b0 b1 b2 b3) g"
    by (subst group) auto
qed (use step3 proc next_lanes last_lanes in simp_all)

section \<open>What is sent\<close>

lemma run_list_tiles:
  assumes "tiles f n 0 rs"
  shows "concat (map snd (run_list PD rs)) = map (fst PD) [0..<n]"
proof -
  have "concat (map snd (run_list PD rs)) = map (fst PD) (concat (map (\<lambda>(i, k). [i..<i + k]) rs))"
    by (simp add: run_list_def map_concat comp_def case_prod_beta)
  then show ?thesis by (simp only: tiles_concat [OF assms])
qed

lemma sendable_tiles:
  assumes "sendable E PD n" and "tiles f n 0 rs"
  shows "\<forall>(j, k) \<in> set rs. x4_good G k \<and> port_or_bad E (snd PD j)"
  using assms(1) tiles_bound [OF assms(2)] by (fastforce simp: sendable_def x4_good_def)

text \<open>In a burst of four whose first port is 0 the window to compare with holds only 0.\<close>

lemma altivec_first_zero:
  assumes "val_eth_16 G" and p: "snd (processed E G PD 4) 0 = 0"
    and "\<And>i. i \<in> {1, 2, 3} \<Longrightarrow> snd (processed E G PD 4) i \<noteq> 0"
  shows "send_packets_multi_altivec E G pnum0 PD 4 s
    = Some (fold (send_run E G (processed E G PD 4)) [(0, 2), (2, 1), (3, 1)]
        (\<lparr>st_sent = 0, st_dropped = 0\<rparr>, s))"
proof -
  let ?PD = "processed E G PD 4" and ?pn = "pnum0(0 := Suc 0)"
  let ?dp1 = "load8 (snd ?PD) 0"
  have s3: "sd_step3 altivec_simd E G 0 PD = ?PD"
    using altivec_multi.step3_processed [OF assms(1), of E 0 PD] by (simp add: processed_def)
  have l: "altivec_last ?dp1 = replicate 8 0"
    using p by (subst altivec_last_octet) (simp_all add: load8_def upt_rec, simp add: eval_nat_numeral)
  have d: "length ?dp1 = 8" "?dp1 ! 0 = 0" "?dp1 ! 1 \<noteq> 0" "?dp1 ! 2 \<noteq> 0" "?dp1 ! 3 \<noteq> 0"
    using p assms(3) by (simp_all add: load8_def)
  have "cmp4_altivec ?dp1 (replicate 8 0) = 1"
    by (subst altivec.cmp4_mask) (use d in \<open>simp_all add: pair_mask_def\<close>)
  then have g: "sd_group altivec_simd 0 (?pn, 0) ?dp1 (altivec_last ?dp1) = group_update 0 1 (?pn, 0)"
    by (simp add: l altivec_simd_def port_groupx4_altivec_def)
  have u: "group_update 0 1 (?pn, 0)
      = (?pn(0 := 2, Suc 0 := 1, 2 := 1, 3 := 1, 4 := 1), 4)"
    by (simp add: group_update_def gptbl_def GRPMSK_def u16_lane_def Let_def fun_eq_iff)
  have lst: "sd_last altivec_simd = altivec_last" by (simp add: altivec_simd_def)
  obtain pnum where m: "multi_group altivec_simd E G pnum0 PD 4 = (?PD, pnum, 4)"
    and pn: "pnum 0 = 2" "pnum 2 = 1" "pnum 3 = 1"
    by (auto simp: multi_group_def FWDSTEP_def s3 Let_def multi_loop.simps lst g [unfolded u] multi_tail_def)
  have t: "tiles pnum 4 0 [(0, 2), (2, 1), (3, 1)]" using pn by (simp add: eval_nat_numeral)
  show ?thesis
    unfolding send_packets_multi_altivec_def send_multi_def m by (simp add: dispatch_tiles [OF t])
qed

section \<open>Properties\<close>

text \<open>C4. \<open>send_packets_multi\<close> on POWER returns, for every non-empty burst of packets with existing
  destination ports and every contents of the uninitialised counters, and no packet is lost or sent
  twice: each is with the driver, in a transmit buffer or freed, the buffers stay within bounds and
  the statistics account for the whole burst, though the windows it compares are wrong.\<close>

theorem send_packets_multi_altivec_keeps:
  assumes "tx_burst_ok E" and "ports_16 E" and "val_eth_16 G" and "tx_inv MAX_PKT_BURST s"
    and "0 < n" and "n \<le> MAX_PKT_BURST" and "\<forall>i<n. port_ok E (snd PD i)"
  shows "\<exists>stats s'. send_packets_multi_altivec E G pnum0 PD n s = Some (stats, s')
    \<and> tx_inv MAX_PKT_BURST s'
    \<and> content (tx_view s') = content (tx_view s) + mset (map (fst (processed E G PD n)) [0..<n])
    \<and> st_sent stats + st_dropped stats + waiting s' = n + waiting s"
proof -
  let ?PD = "processed E G PD n" and ?z = "\<lparr>st_sent = 0, st_dropped = 0\<rparr>"
  have sd: "sendable E ?PD n" and d0: "snd (processed E G PD 1) 0 \<noteq> BAD_PORT - 1"
    by (rule sendable_processed [OF assms(2,5,6,7)])+
  obtain pnum rs where t: "tiles pnum n 0 rs"
    and m: "send_packets_multi_altivec E G pnum0 PD n s = Some (fold (send_run E G ?PD) rs (?z, s))"
    unfolding send_packets_multi_altivec_def
    using altivec_multi.send_multi_tiles [OF assms(3,5) d0] by blast
  note rs = sendable_tiles [OF sd t, of G]
  obtain st' s' where r: "fold (send_run E G ?PD) rs (?z, s) = (st', s')" by fastforce
  have s': "s' = run.push_all E G (run_list ?PD rs) s"
    using send_runs_push [OF assms(1) rs assms(4), of ?z] by (simp add: r)
  have pa: "run.pushable E G (run_list ?PD rs)"
    using rs by (auto simp: run.pushable_def run_list_def)
  have "tx_inv MAX_PKT_BURST s'"
    unfolding s' by (rule run.push_all_inv [OF assms(1) pa assms(4)])
  moreover have "content (tx_view s') = content (tx_view s) + mset (map (fst ?PD) [0..<n])"
    unfolding s' run.push_all_content [OF assms(1) pa assms(4)] run_list_tiles [OF t] ..
  moreover have "st_sent st' + st_dropped st' + waiting s' = n + waiting s"
    using send_runs_counts [OF assms(1) rs assms(4) r] tiles_total [OF t] by simp
  ultimately show ?thesis using m r by auto
qed

theorem send_packets_multi_altivec_keeps_witness:
  "\<exists>stats s'. send_packets_multi_altivec dpdk_all glob_ex (\<lambda>_. 9) burst_ex 7 lcore_ex = Some (stats, s')
    \<and> tx_inv MAX_PKT_BURST s'
    \<and> content (tx_view s') = content (tx_view lcore_ex)
        + mset (map (fst (processed dpdk_all glob_ex burst_ex 7)) [0..<7])
    \<and> st_sent stats + st_dropped stats + waiting s' = 7 + waiting lcore_ex"
proof (rule send_packets_multi_altivec_keeps [OF lossless_all(1) _ _ tx_inv_ex [OF MAX_PKT_BURST_pos]])
  show "ports_16 dpdk_all" by (simp add: ports_16_def dpdk_all_def dpdk_ex_def)
  show "val_eth_16 glob_ex" by (simp add: val_eth_16_def glob_ex_def)
  show "\<forall>i<7. port_ok dpdk_all (snd burst_ex i)" by (simp add: burst_ex_def port_ok_all)
qed (simp_all add: MAX_PKT_BURST_def)

definition zero_burst :: burst where
  "zero_burst = (\<lambda>i. (mbuf_ex i)\<lparr>packet_type := 0\<rparr>, \<lambda>i. if i = 0 then 0 else 1)"

text \<open>C5. On POWER a burst of four packets, the first for port 0 and the others for other ports, is
  sent wrong: with a driver that takes everything, port 0 gets the second packet as well. The SSE
  routine gives it the first packet only.\<close>

theorem send_packets_multi_altivec_misroutes:
  assumes "tx_burst_ok E" and "ports_16 E" and "lossless E" and "val_eth_16 G"
    and "tx_inv MAX_PKT_BURST s" and ports: "\<forall>i<4. port_ok E (snd PD i)"
    and p0: "snd (processed E G PD 4) 0 = 0" and other: "\<forall>i \<in> {1, 2, 3}. snd PD i \<noteq> 0"
  shows "\<exists>stats s' stats1 s1. send_packets_multi_altivec E G pnum0 PD 4 s = Some (stats, s')
    \<and> send_packets_multi E G pnum0 PD 4 s = Some (stats1, s1)
    \<and> out_seq (tx_view s') 0 = out_seq (tx_view s) 0 @ map (fst (processed E G PD 4)) [0, 1]
    \<and> out_seq (tx_view s1) 0 = out_seq (tx_view s) 0 @ map (fst (processed E G PD 4)) [0]"
proof -
  let ?PD = "processed E G PD 4" and ?z = "\<lparr>st_sent = 0, st_dropped = 0\<rparr>"
    and ?rs = "[(0, 2), (2, 1), (3, 1)] :: (nat \<times> nat) list"
  have 4: "0 < (4 :: nat)" "4 \<le> MAX_PKT_BURST" by (simp_all add: MAX_PKT_BURST_def)
  have ne: "snd ?PD i \<noteq> 0" if i: "i \<in> {1, 2, 3}" for i
  proof -
    have "i < 4" using i by auto
    then have "snd ?PD i = snd PD i \<or> snd ?PD i = BAD_PORT"
      using processed_at [of i 4 E G PD] process_packet_port_cases by metis
    moreover have "snd PD i \<noteq> 0" using i other by blast
    ultimately show ?thesis by (auto simp: BAD_PORT_def)
  qed
  have sd: "sendable E ?PD 4" by (rule sendable_processed [OF assms(2) 4 ports])
  have "port_or_bad E (snd ?PD 0)" using sd by (simp add: sendable_def)
  then have ok: "port_ok E 0" using p0 by (simp add: port_or_bad_def BAD_PORT_def)
  obtain st' s' where r: "fold (send_run E G ?PD) ?rs (?z, s) = (st', s')" by fastforce
  have t: "tiles (\<lambda>i. if i = 0 then 2 else 1) 4 0 ?rs" by simp
  note rs = sendable_tiles [OF sd t, of G]
  have s': "s' = run.push_all E G (run_list ?PD ?rs) s"
    using send_runs_push [OF assms(1) rs assms(5), of ?z] by (simp only: r snd_conv)
  have pa: "run.pushable E G (run_list ?PD ?rs)"
    using rs by (auto simp: run.pushable_def run_list_def)
  have "out_seq (tx_view s') 0 = out_seq (tx_view s) 0 @ map (fst ?PD) [0, 1]"
    unfolding s' run.push_all_order [OF assms(1,3) ok pa assms(5)]
    using p0 ne by (simp add: run_list_def upt_rec)
  moreover have "send_packets_multi_altivec E G pnum0 PD 4 s = Some (st', s')"
    using altivec_first_zero [OF assms(4) p0 ne] r by simp
  moreover have "filter (\<lambda>i. snd ?PD i = 0) [0..<4] = [0]" using p0 ne by (simp add: upt_rec)
  ultimately show ?thesis
    using multi_delivers [OF assms(1,2,5) 4 ports, of G pnum0] assms(3) ok by force
qed

theorem send_packets_multi_altivec_misroutes_witness:
  "\<exists>stats s' stats1 s1. send_packets_multi_altivec dpdk_all glob_ex (\<lambda>_. 9) zero_burst 4 lcore_ex = Some (stats, s')
    \<and> send_packets_multi dpdk_all glob_ex (\<lambda>_. 9) zero_burst 4 lcore_ex = Some (stats1, s1)
    \<and> out_seq (tx_view s') 0 = out_seq (tx_view lcore_ex) 0
        @ map (fst (processed dpdk_all glob_ex zero_burst 4)) [0, 1]
    \<and> out_seq (tx_view s1) 0 = out_seq (tx_view lcore_ex) 0
        @ map (fst (processed dpdk_all glob_ex zero_burst 4)) [0]"
proof (rule send_packets_multi_altivec_misroutes [OF lossless_all(1) _ lossless_all(2) _ tx_inv_ex [OF MAX_PKT_BURST_pos]])
  show "ports_16 dpdk_all" by (simp add: ports_16_def dpdk_all_def dpdk_ex_def)
  show "val_eth_16 glob_ex" by (simp add: val_eth_16_def glob_ex_def)
  show "\<forall>i<4. port_ok dpdk_all (snd zero_burst i)" by (simp add: zero_burst_def port_ok_all)
  show "snd (processed dpdk_all glob_ex zero_burst 4) 0 = 0"
    using processed_at [of 0 4 dpdk_all glob_ex zero_burst]
    by (simp add: process_packet_port rfc1812_process_def Let_def zero_burst_def dpdk_all_def dpdk_ex_def)
  show "\<forall>i\<in>{1, 2, 3}. snd zero_burst i \<noteq> 0" by (simp add: zero_burst_def)
qed

end
