(* ===== verification/Lpm_Forward.thy ===== *)
theory Lpm_Forward
  imports Send_Altivec Route_Parse
begin

text \<open>
  The longest-prefix-match forwarding path: \<open>l3fwd/l3fwd_lpm.c\<close>, \<open>l3fwd/l3fwd_lpm.h\<close> (one
  packet at a time) and the burst routines of \<open>l3fwd/l3fwd_lpm_sse.h\<close>,
  \<open>l3fwd/l3fwd_lpm_neon.h\<close> and \<open>l3fwd/l3fwd_lpm_altivec.h\<close>; the polling main loop with its
  statistics, the event worker's packet step, the set-up of the tables and the packet type
  callback. The lookups of the LPM library are the record \<open>lpm_tables\<close>.
\<close>

record lpm_tables =
  lpm4 :: "u32 \<Rightarrow> u32 option"
  lpm6 :: "u8 list \<Rightarrow> u32 option"
  lpm4_x4 :: "u32 list \<Rightarrow> u32 \<Rightarrow> u32 list"

text \<open>\<open>rte_lpm_lookupx4\<close>: the next hop of each of four addresses, or the given default.\<close>

definition lookupx4_ok :: "lpm_tables \<Rightarrow> bool" where
  "lookupx4_ok L \<longleftrightarrow> (\<forall>ips v. length ips = 4 \<longrightarrow>
     lpm4_x4 L ips v = map (\<lambda>a. case lpm4 L a of Some h \<Rightarrow> h | None \<Rightarrow> v) ips)"

definition IP6_DST :: nat where "IP6_DST = 38"

section \<open>One packet\<close>

definition lpm_get_ipv4_dst_port :: "lpm_tables \<Rightarrow> mem \<Rightarrow> u16 \<Rightarrow> u16" where
  "lpm_get_ipv4_dst_port L d portid =
     (let dst_ip = bswap32 (ld32 d IP_DST)
      in case lpm4 L dst_ip of Some next_hop \<Rightarrow> ucast next_hop | None \<Rightarrow> portid)"

definition lpm_get_ipv6_dst_port :: "lpm_tables \<Rightarrow> mem \<Rightarrow> u16 \<Rightarrow> u16" where
  "lpm_get_ipv6_dst_port L d portid =
     (case lpm6 L (ldn d IP6_DST 16) of Some next_hop \<Rightarrow> ucast next_hop | None \<Rightarrow> portid)"

definition lpm_get_dst_port :: "dpdk \<Rightarrow> lpm_tables \<Rightarrow> mbuf \<Rightarrow> u16 \<Rightarrow> u16" where
  "lpm_get_dst_port E L pkt portid =
     (if is_ipv4_hdr E (packet_type pkt) then lpm_get_ipv4_dst_port L (mb_data pkt) portid
      else if is_ipv6_hdr E (packet_type pkt) then lpm_get_ipv6_dst_port L (mb_data pkt) portid
      else portid)"

definition lpm_get_dst_port_with_ipv4 :: "dpdk \<Rightarrow> lpm_tables \<Rightarrow> mbuf \<Rightarrow> u32 \<Rightarrow> u16 \<Rightarrow> u16" where
  "lpm_get_dst_port_with_ipv4 E L pkt dst_ipv4 portid =
     (if is_ipv4_hdr E (packet_type pkt) then
        (case lpm4 L dst_ipv4 of Some next_hop \<Rightarrow> ucast next_hop | None \<Rightarrow> portid)
      else if is_ipv6_hdr E (packet_type pkt) then
        (case lpm6 L (ldn (mb_data pkt) IP6_DST 16) of Some next_hop \<Rightarrow> ucast next_hop | None \<Rightarrow> portid)
      else portid)"

section \<open>Four packets\<close>

definition processx4_step1 :: "dpdk \<Rightarrow> (nat \<Rightarrow> mbuf) \<Rightarrow> nat \<Rightarrow> u32 list \<times> u32" where
  "processx4_step1 E pkt j =
     (let x0 = ld32 (mb_data (pkt j)) IP_DST;
          f0 = packet_type (pkt j) AND ptype_l3_ipv4 E;
          x1 = ld32 (mb_data (pkt (j + 1))) IP_DST;
          f1 = f0 AND packet_type (pkt (j + 1));
          x2 = ld32 (mb_data (pkt (j + 2))) IP_DST;
          f2 = f1 AND packet_type (pkt (j + 2));
          x3 = ld32 (mb_data (pkt (j + 3))) IP_DST;
          f3 = f2 AND packet_type (pkt (j + 3))
      in ([x0, x1, x2, x3], f3))"

text \<open>\<open>_mm_packs_epi32\<close> (and \<open>vqmovn_s32\<close>, \<open>vec_packs\<close>): signed saturation to 16 bits.\<close>

definition packs16 :: "u32 \<Rightarrow> u16" where
  "packs16 x = (if 0x7fff < sint x then 0x7fff else if sint x < - 0x8000 then 0x8000 else ucast x)"

text \<open>\<open>defv\<close> is what the routine was given as \<open>portid\<close>.\<close>

definition processx4_step2 :: "dpdk \<Rightarrow> lpm_tables \<Rightarrow> u32 list \<times> u32 \<Rightarrow> u16 \<Rightarrow> (nat \<Rightarrow> mbuf) \<Rightarrow> nat \<Rightarrow>
    (nat \<Rightarrow> u16) \<Rightarrow> (nat \<Rightarrow> u16)" where
  "processx4_step2 E L df portid pkt j dprt =
     (let dip = map bswap32 (fst df)
      in if snd df \<noteq> 0 then
           let dst = map packs16 (lpm4_x4 L dip (ucast portid))
           in dprt(j := dst ! 0, j + 1 := dst ! 1, j + 2 := dst ! 2, j + 3 := dst ! 3)
         else
           dprt(j := lpm_get_dst_port_with_ipv4 E L (pkt j) (dip ! 0) portid,
                j + 1 := lpm_get_dst_port_with_ipv4 E L (pkt (j + 1)) (dip ! 1) portid,
                j + 2 := lpm_get_dst_port_with_ipv4 E L (pkt (j + 2)) (dip ! 2) portid,
                j + 3 := lpm_get_dst_port_with_ipv4 E L (pkt (j + 3)) (dip ! 3) portid))"

text \<open>The last up to three packets.\<close>

definition lpm_tail_step :: "simd \<Rightarrow> dpdk \<Rightarrow> glob \<Rightarrow> lpm_tables \<Rightarrow> u16 \<Rightarrow> bool \<Rightarrow> nat \<times> burst \<Rightarrow> nat \<times> burst" where
  "lpm_tail_step U E G L portid do_step3 st =
     (case st of (j, P, D) \<Rightarrow>
        let D1 = D(j := lpm_get_dst_port E L (P j) portid)
        in (j + 1, if do_step3 then let r = sd_proc U E G (P j) (D1 j) in (P(j := fst r), D1(j := snd r))
                   else (P, D1)))"

definition lpm_tail :: "simd \<Rightarrow> dpdk \<Rightarrow> glob \<Rightarrow> lpm_tables \<Rightarrow> u16 \<Rightarrow> bool \<Rightarrow> nat \<Rightarrow> nat \<times> burst \<Rightarrow> burst" where
  "lpm_tail U E G L portid do_step3 m st =
     (let t = lpm_tail_step U E G L portid do_step3
      in snd (if m = 3 then t (t (t st)) else if m = 2 then t (t st) else if m = 1 then t st else st))"

section \<open>Bursts\<close>

text \<open>SSE: a pass of step 1 over the groups of four, a pass of step 2, a pass of step 3. The
  arrays \<open>dip\<close> and \<open>ipv4_flag\<close> are indexed by the group; prefetches have no effect.\<close>

definition step1_pass :: "dpdk \<Rightarrow> (nat \<Rightarrow> mbuf) \<Rightarrow> nat \<Rightarrow> nat \<Rightarrow> u32 list \<times> u32" where
  "step1_pass E P g =
     fold (\<lambda>i df. df(i := processx4_step1 E P (FWDSTEP * i))) [0..<g] (\<lambda>_. ([], 0))"

definition lpm_process_packets :: "dpdk \<Rightarrow> glob \<Rightarrow> lpm_tables \<Rightarrow> nat \<Rightarrow> u16 \<Rightarrow> bool \<Rightarrow> burst \<Rightarrow> burst" where
  "lpm_process_packets E G L nb_rx portid do_step3 PD =
     (let k = nb_rx - nb_rx mod FWDSTEP;
          m = nb_rx mod FWDSTEP;
          (P, D) = PD;
          df = step1_pass E P (k div FWDSTEP);
          D1 = fold (\<lambda>i. processx4_step2 E L (df i) portid P (FWDSTEP * i)) [0..<k div FWDSTEP] D;
          PD2 = (if do_step3 then fold (\<lambda>i. processx4_step3 E G (FWDSTEP * i)) [0..<k div FWDSTEP] (P, D1)
                 else (P, D1))
      in lpm_tail sse_simd E G L portid do_step3 m (k, PD2))"

text \<open>NEON: the three steps of a group before the next group.\<close>

definition lpm_group_neon :: "dpdk \<Rightarrow> glob \<Rightarrow> lpm_tables \<Rightarrow> u16 \<Rightarrow> bool \<Rightarrow> nat \<Rightarrow> burst \<Rightarrow> burst" where
  "lpm_group_neon E G L portid do_step3 j PD =
     (let (P, D) = PD;
          df = processx4_step1 E P j;
          D1 = processx4_step2 E L df portid P j D
      in if do_step3 then processx4_step3_neon E G j (P, D1) else (P, D1))"

definition lpm_process_packets_neon :: "dpdk \<Rightarrow> glob \<Rightarrow> lpm_tables \<Rightarrow> nat \<Rightarrow> u16 \<Rightarrow> bool \<Rightarrow> burst \<Rightarrow> burst" where
  "lpm_process_packets_neon E G L nb_rx portid do_step3 PD =
     (let k = nb_rx - nb_rx mod FWDSTEP;
          m = nb_rx mod FWDSTEP;
          PD1 = fold (\<lambda>i. lpm_group_neon E G L portid do_step3 (FWDSTEP * i)) [0..<k div FWDSTEP] PD
      in lpm_tail neon_simd E G L portid do_step3 m (k, PD1))"

text \<open>AltiVec: as SSE, but \<open>portid\<close> is a \<open>uint8_t\<close> parameter.\<close>

definition lpm_process_packets_altivec ::
  "dpdk \<Rightarrow> glob \<Rightarrow> lpm_tables \<Rightarrow> nat \<Rightarrow> u8 \<Rightarrow> bool \<Rightarrow> burst \<Rightarrow> burst" where
  "lpm_process_packets_altivec E G L nb_rx portid do_step3 PD =
     (let k = nb_rx - nb_rx mod FWDSTEP;
          (P, D) = PD;
          df = step1_pass E P (k div FWDSTEP);
          D1 = fold (\<lambda>i. processx4_step2 E L (df i) (ucast portid) P (FWDSTEP * i)) [0..<k div FWDSTEP] D;
          PD2 = (if do_step3 then fold (\<lambda>i. processx4_step3_altivec E G (FWDSTEP * i)) [0..<k div FWDSTEP] (P, D1)
                 else (P, D1))
      in lpm_tail altivec_simd E G L (ucast portid) do_step3 (nb_rx mod FWDSTEP) (k, PD2))"

definition l3fwd_lpm_send_packets :: "dpdk \<Rightarrow> glob \<Rightarrow> lpm_tables \<Rightarrow> (nat \<Rightarrow> nat) \<Rightarrow> nat \<Rightarrow> burst \<Rightarrow> u16 \<Rightarrow>
    lcore \<Rightarrow> (tx_stats \<times> lcore) option" where
  "l3fwd_lpm_send_packets E G L pnum0 nb_rx PD portid s =
     (let PD' = lpm_process_packets E G L nb_rx portid False PD
      in send_packets_multi E G pnum0 PD' nb_rx s)"

definition l3fwd_lpm_send_packets_neon :: "dpdk \<Rightarrow> glob \<Rightarrow> lpm_tables \<Rightarrow> (nat \<Rightarrow> nat) \<Rightarrow> nat \<Rightarrow> burst \<Rightarrow> u16 \<Rightarrow>
    lcore \<Rightarrow> (tx_stats \<times> lcore) option" where
  "l3fwd_lpm_send_packets_neon E G L pnum0 nb_rx PD portid s =
     (let PD' = lpm_process_packets_neon E G L nb_rx portid False PD
      in send_packets_multi_neon E G pnum0 PD' nb_rx s)"

section \<open>The route without vector instructions\<close>

definition port_enabled :: "dpdk \<Rightarrow> glob \<Rightarrow> u16 \<Rightarrow> bool" where
  "port_enabled E G p \<longleftrightarrow> \<not> (max_ethports E \<le> unat p \<or> \<not> in_mask (enabled_port_mask G) (unat p))"

definition lpm_forward_to :: "dpdk \<Rightarrow> glob \<Rightarrow> u16 \<Rightarrow> mbuf \<Rightarrow> lcore \<Rightarrow> tx_stats \<times> lcore" where
  "lpm_forward_to E G dst_port m s =
     (let tx_len = tb_len s dst_port;
          (sent, s') = send_single_packet E G m dst_port s
      in (\<lparr>st_sent = sent,
           st_dropped = (if tx_len + 1 = rx_burst_size G then rx_burst_size G - sent else 0)\<rparr>, s'))"

definition l3fwd_lpm_simple_forward :: "dpdk \<Rightarrow> glob \<Rightarrow> lpm_tables \<Rightarrow> u16 \<Rightarrow> mbuf \<Rightarrow> lcore \<Rightarrow> tx_stats \<times> lcore" where
  "l3fwd_lpm_simple_forward E G L portid m s =
     (if is_ipv4_hdr E (packet_type m) then
        let (rc, d) = is_valid_ipv4_pkt E (mb_data m) (pkt_len m) (ol_flags m)
        in if rc < 0 then (\<lparr>st_sent = 0, st_dropped = 1\<rparr>, pktmbuf_free (m\<lparr>mb_data := d\<rparr>) s)
           else
             let p = lpm_get_ipv4_dst_port L d portid;
                 dst_port = (if port_enabled E G p then p else portid);
                 d' = set_mac G dst_port (ttl_dec d)
             in lpm_forward_to E G dst_port (m\<lparr>mb_data := d'\<rparr>) s
      else if is_ipv6_hdr E (packet_type m) then
        let p = lpm_get_ipv6_dst_port L (mb_data m) portid;
            dst_port = (if port_enabled E G p then p else portid);
            d' = set_mac G dst_port (mb_data m)
        in lpm_forward_to E G dst_port (m\<lparr>mb_data := d'\<rparr>) s
      else (\<lparr>st_sent = 0, st_dropped = 1\<rparr>, pktmbuf_free m s))"

definition no_opt_step :: "dpdk \<Rightarrow> glob \<Rightarrow> lpm_tables \<Rightarrow> u16 \<Rightarrow> mbuf \<Rightarrow> tx_stats \<times> lcore \<Rightarrow> tx_stats \<times> lcore" where
  "no_opt_step E G L portid m st =
     (let (ret, s') = l3fwd_lpm_simple_forward E G L portid m (snd st)
      in (add_stats (fst st) ret, s'))"

text \<open>Two loops: up to \<open>nb_rx - PREFETCH_OFFSET\<close> with prefetches, then the rest.\<close>

definition l3fwd_lpm_no_opt_send_packets ::
  "dpdk \<Rightarrow> glob \<Rightarrow> lpm_tables \<Rightarrow> nat \<Rightarrow> (nat \<Rightarrow> mbuf) \<Rightarrow> u16 \<Rightarrow> lcore \<Rightarrow> tx_stats \<times> lcore" where
  "l3fwd_lpm_no_opt_send_packets E G L nb_rx P portid s =
     (let st1 = fold (\<lambda>j. no_opt_step E G L portid (P j)) [0..<nb_rx - PREFETCH_OFFSET]
                  (\<lparr>st_sent = 0, st_dropped = 0\<rparr>, s)
      in fold (\<lambda>j. no_opt_step E G L portid (P j)) [nb_rx - PREFETCH_OFFSET..<nb_rx] st1)"

section \<open>The event worker's packet\<close>

definition lpm_process_event_pkt :: "dpdk \<Rightarrow> glob \<Rightarrow> lpm_tables \<Rightarrow> mbuf \<Rightarrow> mbuf \<times> u16" where
  "lpm_process_event_pkt E G L m =
     (let m1 = m\<lparr>mb_port := lpm_get_dst_port E L m (mb_port m)\<rparr>;
          (m2, dp) = process_packet E G m1 (mb_port m1)
      in (m2\<lparr>mb_port := dp\<rparr>, dp))"

section \<open>The burst routines against one packet at a time\<close>

text \<open>Next hops and the receiving port fit in 15 bits, so the saturation changes nothing.\<close>

definition hops_small :: "lpm_tables \<Rightarrow> u16 \<Rightarrow> bool" where
  "hops_small L portid \<longleftrightarrow> (\<forall>a h. lpm4 L a = Some h \<longrightarrow> unat h \<le> 0x7fff) \<and> unat portid \<le> 0x7fff"

lemma packs16_small: "unat x \<le> 0x7fff \<Longrightarrow> packs16 x = ucast x"
proof -
  assume "unat x \<le> 0x7fff"
  then have "int (unat x) \<le> 0x7fff" by linarith
  then have u: "uint x \<le> 0x7fff" by simp
  have "sint x = uint x"
    unfolding sint_uint by (rule signed_take_bit_int_eq_self) (simp, insert uint_ge_0 [of x], linarith, use u in simp)
  moreover have "\<not> uint x < - 0x8000" using uint_ge_0 [of x] by linarith
  ultimately show ?thesis using u by (simp add: packs16_def)
qed

lemma ucast_16_32 [simp]: "(ucast (ucast (p :: u16) :: u32) :: u16) = p"
  by (rule bit_word_eqI) (auto simp: bit_simps)

lemma with_ipv4:
  "lpm_get_dst_port_with_ipv4 E L p (bswap32 (ld32 (mb_data p) IP_DST)) portid
     = lpm_get_dst_port E L p portid"
  by (simp add: lpm_get_dst_port_with_ipv4_def lpm_get_dst_port_def lpm_get_ipv4_dst_port_def
      lpm_get_ipv6_dst_port_def Let_def)

lemma and_nonzero: "(a :: u32) AND b \<noteq> 0 \<Longrightarrow> a \<noteq> 0 \<and> b \<noteq> 0"
  by auto

lemma step1_flag:
  assumes "ptype_ok E" and "snd (processx4_step1 E P j) \<noteq> 0"
  shows "is_ipv4_hdr E (packet_type (P j)) \<and> is_ipv4_hdr E (packet_type (P (j + 1)))
    \<and> is_ipv4_hdr E (packet_type (P (j + 2))) \<and> is_ipv4_hdr E (packet_type (P (j + 3)))"
proof -
  obtain n where n: "bit (snd (processx4_step1 E P j)) n"
    using assms(2) by (metis bit_eqI bit_0_eq bot_apply bot_bool_def)
  have "t AND ptype_l3_ipv4 E \<noteq> 0" if "bit t n" "bit (ptype_l3_ipv4 E) n" for t
    using that by (metis bit_and_iff bit_0_eq bot_apply bot_bool_def)
  then show ?thesis
    using n assms(1) by (simp add: ptype_ok_def processx4_step1_def Let_def bit_and_iff)
qed

definition gets :: "dpdk \<Rightarrow> lpm_tables \<Rightarrow> u16 \<Rightarrow> (nat \<Rightarrow> mbuf) \<Rightarrow> nat \<Rightarrow> (nat \<Rightarrow> u16) \<Rightarrow> (nat \<Rightarrow> u16)" where
  "gets E L portid P j D = D(j := lpm_get_dst_port E L (P j) portid)"

lemma step2_gets:
  assumes "ptype_ok E" and "lookupx4_ok L" and "hops_small L portid"
  shows "processx4_step2 E L (processx4_step1 E P j) portid P j D
    = gets E L portid P (j + 3) (gets E L portid P (j + 2) (gets E L portid P (j + 1) (gets E L portid P j D)))"
proof (cases "snd (processx4_step1 E P j) = 0")
  case True
  then show ?thesis
    by (simp add: processx4_step2_def Let_def gets_def)
       (simp add: processx4_step1_def Let_def with_ipv4)
next
  case False
  note v4 = step1_flag [OF assms(1) False]
  let ?h = "\<lambda>i. case lpm4 L (bswap32 (ld32 (mb_data (P i)) IP_DST)) of Some h \<Rightarrow> h | None \<Rightarrow> ucast portid"
  have small: "unat (?h i) \<le> 0x7fff" for i
    using assms(3) by (auto simp: hops_small_def unsigned_ucast_eq take_bit_eq_mod split: option.split)
  have get: "packs16 (?h i) = lpm_get_dst_port E L (P i) portid"
    if "is_ipv4_hdr E (packet_type (P i))" for i
    using that packs16_small [OF small [of i]]
    by (simp add: lpm_get_dst_port_def lpm_get_ipv4_dst_port_def Let_def split: option.splits)
  have x4: "lpm4_x4 L (map bswap32 (fst (processx4_step1 E P j))) (ucast portid)
      = [?h j, ?h (j + 1), ?h (j + 2), ?h (j + 3)]"
    using assms(2) by (simp add: lookupx4_ok_def processx4_step1_def Let_def)
  show ?thesis
    using False v4 by (simp add: processx4_step2_def Let_def x4 get gets_def del: One_nat_def)
qed

text \<open>A loop over groups of four that does four steps is a loop over single steps.\<close>

lemma fold_groups:
  assumes "\<And>i s. F i s = h (4 * i + 3) (h (4 * i + 2) (h (4 * i + 1) (h (4 * i) s)))"
  shows "fold F [0..<g] s = fold h [0..<4 * g] s"
proof (induction g)
  case (Suc g)
  have "[0..<4 * Suc g] = [0..<4 * g] @ [4 * g, 4 * g + 1, 4 * g + 2, 4 * g + 3]"
    by (simp add: numeral_eq_Suc)
  then show ?case using Suc by (simp add: assms)
qed simp

definition lpm_step :: "dpdk \<Rightarrow> glob \<Rightarrow> lpm_tables \<Rightarrow> u16 \<Rightarrow> bool \<Rightarrow> nat \<Rightarrow> burst \<Rightarrow> burst" where
  "lpm_step E G L portid ds j PD =
     (let PD1 = (fst PD, gets E L portid (fst PD) j (snd PD))
      in if ds then process_at E G j PD1 else PD1)"

text \<open>What a burst looks like after the packets from \<open>a\<close> to \<open>b\<close>.\<close>

definition lpm_spec :: "dpdk \<Rightarrow> glob \<Rightarrow> lpm_tables \<Rightarrow> u16 \<Rightarrow> bool \<Rightarrow> nat \<Rightarrow> nat \<Rightarrow> burst \<Rightarrow> burst" where
  "lpm_spec E G L portid ds a b PD =
     (let r = (\<lambda>i. if ds then process_packet E G (fst PD i) (lpm_get_dst_port E L (fst PD i) portid)
                   else (fst PD i, lpm_get_dst_port E L (fst PD i) portid))
      in (\<lambda>i. if a \<le> i \<and> i < b then fst (r i) else fst PD i,
          \<lambda>i. if a \<le> i \<and> i < b then snd (r i) else snd PD i))"

lemma lpm_step_spec:
  "a \<le> b \<Longrightarrow> lpm_step E G L portid ds b (lpm_spec E G L portid ds a b PD)
     = lpm_spec E G L portid ds a (Suc b) PD"
  by (cases ds)
     (auto simp: lpm_step_def lpm_spec_def gets_def process_at_def Let_def fun_eq_iff less_Suc_eq)

lemma lpm_fold_spec:
  "fold (lpm_step E G L portid ds) [a..<a + n] PD = lpm_spec E G L portid ds a (a + n) PD"
proof (induction n)
  case 0
  show ?case by (cases PD) (auto simp: lpm_spec_def fun_eq_iff)
next
  case (Suc n)
  then show ?case by (simp add: lpm_step_spec)
qed

lemma lpm_spec_join:
  assumes "k \<le> n"
  shows "lpm_spec E G L portid ds k n (lpm_spec E G L portid ds 0 k PD) = lpm_spec E G L portid ds 0 n PD"
proof -
  have "lpm_spec E G L portid ds k (k + (n - k)) (lpm_spec E G L portid ds 0 (0 + k) PD)
      = fold (lpm_step E G L portid ds) ([0..<0 + k] @ [k..<k + (n - k)]) PD"
    by (simp only: fold_append comp_apply lpm_fold_spec)
  also have "[0..<0 + k] @ [k..<k + (n - k)] = [0..<0 + n]"
    using assms by (metis add_0 le_add_diff_inverse upt_add_eq_append zero_le)
  also have "fold (lpm_step E G L portid ds) [0..<0 + n] PD = lpm_spec E G L portid ds 0 (0 + n) PD"
    by (rule lpm_fold_spec)
  finally show ?thesis using assms by simp
qed

text \<open>The pass of step 2, then the pass of step 3.\<close>

lemma gets_pass: "fold (gets E L portid P) [0..<n] D = (\<lambda>i. if i < n then lpm_get_dst_port E L (P i) portid else D i)"
  by (induction n) (auto simp: gets_def fun_eq_iff less_Suc_eq)

lemma process_pass:
  "fold (process_at E G) [0..<n] (P, D)
    = (\<lambda>i. if i < n then fst (process_packet E G (P i) (D i)) else P i,
       \<lambda>i. if i < n then snd (process_packet E G (P i) (D i)) else D i)"
  by (induction n) (auto simp: process_at_def Let_def fun_eq_iff less_Suc_eq)

lemma passes_spec:
  "(if ds then fold (process_at E G) [0..<n] (P, fold (gets E L portid P) [0..<n] D)
    else (P, fold (gets E L portid P) [0..<n] D)) = lpm_spec E G L portid ds 0 n (P, D)"
  by (auto simp: gets_pass process_pass lpm_spec_def fun_eq_iff)

lemma step1_pass_eq: "i < g \<Longrightarrow> step1_pass E P g i = processx4_step1 E P (4 * i)"
  unfolding step1_pass_def FWDSTEP_def by (induction g) (auto simp: less_Suc_eq)

lemma step2_pass:
  assumes "ptype_ok E" and "lookupx4_ok L" and "hops_small L portid"
  shows "fold (\<lambda>i. processx4_step2 E L (step1_pass E P g i) portid P (FWDSTEP * i)) [0..<g] D
    = fold (gets E L portid P) [0..<4 * g] D"
proof -
  have "fold (\<lambda>i. processx4_step2 E L (step1_pass E P g i) portid P (FWDSTEP * i)) [0..<g] D
      = fold (\<lambda>i. processx4_step2 E L (processx4_step1 E P (4 * i)) portid P (4 * i)) [0..<g] D"
    by (rule fold_cong) (simp_all add: step1_pass_eq FWDSTEP_def)
  then show ?thesis
    by (simp only:) (rule fold_groups, rule step2_gets [OF assms])
qed

lemma step3_pass:
  assumes "\<And>j PD. S j PD = processx4_step3 E G j PD"
  shows "fold (\<lambda>i. S (FWDSTEP * i)) [0..<g] PD = fold (process_at E G) [0..<4 * g] PD"
  by (rule fold_groups) (simp add: assms processx4_step3_process_at FWDSTEP_def)

lemma neon_group_step:
  assumes "ptype_ok E" and "lookupx4_ok L" and "hops_small L portid" and "val_eth_16 G"
  shows "lpm_group_neon E G L portid ds j PD
    = lpm_step E G L portid ds (j + 3) (lpm_step E G L portid ds (j + 2)
       (lpm_step E G L portid ds (j + 1) (lpm_step E G L portid ds j PD)))"
  using assms
  by (cases PD; cases ds)
     (auto simp: lpm_group_neon_def step2_gets processx4_step3_units_eq processx4_step3_process_at
       lpm_step_def gets_def process_at_def Let_def fun_upd_twist)

text \<open>The tail does single steps.\<close>

lemma lpm_tail_step_eq:
  assumes "sd_proc U E G = process_packet E G"
  shows "lpm_tail_step U E G L portid ds (j, PD) = (Suc j, lpm_step E G L portid ds j PD)"
  using assms by (cases PD) (simp add: lpm_tail_step_def lpm_step_def gets_def process_at_def Let_def)

lemma lpm_tail_spec:
  assumes "sd_proc U E G = process_packet E G" and "m < 4"
  shows "lpm_tail U E G L portid ds m (j, PD) = lpm_spec E G L portid ds j (j + m) PD"
proof -
  note st = lpm_tail_step_eq [OF assms(1)]
  have "lpm_tail U E G L portid ds m (j, PD) = fold (lpm_step E G L portid ds) [j..<j + m] PD"
  proof -
    have "m = 0 \<or> m = 1 \<or> m = 2 \<or> m = 3" using assms(2) by auto
    then show ?thesis
      by (elim disjE) (simp_all add: lpm_tail_def st Let_def numeral_eq_Suc)
  qed
  then show ?thesis by (simp only: lpm_fold_spec)
qed

lemma div_mod_4: "4 * ((n - n mod 4) div 4) = n - n mod (4 :: nat)" "n - n mod 4 \<le> (n :: nat)"
  by (auto simp: minus_mod_eq_mult_div)

lemma lpm_process_packets_spec:
  assumes "ptype_ok E" and "lookupx4_ok L" and "hops_small L portid"
  shows "lpm_process_packets E G L n portid ds PD = lpm_spec E G L portid ds 0 n PD"
proof -
  obtain P D where pd: "PD = (P, D)" by (cases PD)
  let ?k = "n - n mod 4"
  have "lpm_process_packets E G L n portid ds PD
      = lpm_tail sse_simd E G L portid ds (n mod 4) (?k, lpm_spec E G L portid ds 0 ?k PD)"
    using step2_pass [OF assms, of P "?k div 4" D]
      step3_pass [of "\<lambda>j PD. processx4_step3 E G j PD" E G "?k div 4" "(P, fold (gets E L portid P) [0..<4 * (?k div 4)] D)"]
      passes_spec [where ds = ds and E = E and G = G and L = L and portid = portid and P = P and n = ?k and D = D]
    by (cases ds) (simp_all add: lpm_process_packets_def Let_def pd FWDSTEP_def div_mod_4)
  also have "\<dots> = lpm_spec E G L portid ds ?k (?k + n mod 4) (lpm_spec E G L portid ds 0 ?k PD)"
    by (rule lpm_tail_spec) (simp_all add: sse_simd_def)
  also have "\<dots> = lpm_spec E G L portid ds 0 n PD"
    by (simp add: lpm_spec_join)
  finally show ?thesis .
qed

lemma lpm_process_packets_neon_spec:
  assumes "ptype_ok E" and "lookupx4_ok L" and "hops_small L portid" and "val_eth_16 G"
  shows "lpm_process_packets_neon E G L n portid ds PD = lpm_spec E G L portid ds 0 n PD"
proof -
  let ?k = "n - n mod 4"
  have "fold (\<lambda>i. lpm_group_neon E G L portid ds (4 * i)) [0..<?k div 4] PD
      = fold (lpm_step E G L portid ds) [0..<4 * (?k div 4)] PD"
    by (rule fold_groups) (rule neon_group_step [OF assms])
  also have "\<dots> = lpm_spec E G L portid ds 0 ?k PD"
    using lpm_fold_spec [of E G L portid ds 0 ?k PD] by (simp add: div_mod_4)
  finally have "lpm_process_packets_neon E G L n portid ds PD
      = lpm_tail neon_simd E G L portid ds (n mod 4) (?k, lpm_spec E G L portid ds 0 ?k PD)"
    by (simp add: lpm_process_packets_neon_def Let_def FWDSTEP_def)
  also have "\<dots> = lpm_spec E G L portid ds ?k (?k + n mod 4) (lpm_spec E G L portid ds 0 ?k PD)"
    by (rule lpm_tail_spec) (simp_all add: neon_simd_def process_packet_units assms)
  also have "\<dots> = lpm_spec E G L portid ds 0 n PD"
    by (simp add: lpm_spec_join)
  finally show ?thesis .
qed

lemma lpm_process_packets_altivec_spec:
  assumes "ptype_ok E" and "lookupx4_ok L" and "hops_small L (ucast portid)" and "val_eth_16 G"
  shows "lpm_process_packets_altivec E G L n portid ds PD = lpm_spec E G L (ucast portid) ds 0 n PD"
proof -
  obtain P D where pd: "PD = (P, D)" by (cases PD)
  let ?k = "n - n mod 4" and ?p = "ucast portid :: u16"
  have "lpm_process_packets_altivec E G L n portid ds PD
      = lpm_tail altivec_simd E G L ?p ds (n mod 4) (?k, lpm_spec E G L ?p ds 0 ?k PD)"
    using step2_pass [OF assms(1-3), of P "?k div 4" D]
      step3_pass [of "\<lambda>j PD. processx4_step3_altivec E G j PD" E G "?k div 4"
        "(P, fold (gets E L ?p P) [0..<4 * (?k div 4)] D)", OF processx4_step3_units_eq(2) [OF assms(4)]]
      passes_spec [where ds = ds and E = E and G = G and L = L and portid = ?p and P = P and n = ?k and D = D]
    by (cases ds) (simp_all add: lpm_process_packets_altivec_def Let_def pd FWDSTEP_def div_mod_4)
  also have "\<dots> = lpm_spec E G L ?p ds ?k (?k + n mod 4) (lpm_spec E G L ?p ds 0 ?k PD)"
    by (rule lpm_tail_spec) (simp_all add: altivec_simd_def process_packet_units assms)
  also have "\<dots> = lpm_spec E G L ?p ds 0 n PD"
    by (simp add: lpm_spec_join)
  finally show ?thesis .
qed

section \<open>The main loop\<close>

text \<open>The loop's state: the lcore, its 64-bit counters and the two time stamps. One pass takes as
  input what \<open>rte_eth_rx_burst\<close> returns for each receive queue and the time read at its end. The
  uninitialised arrays \<open>pnum\<close> and \<open>dst_port\<close> hold anything.\<close>

record lpm_loop =
  lo_core :: lcore
  lo_rx :: u64
  lo_tx :: u64
  lo_dropped :: u64
  lo_prev :: u64
  lo_cur :: u64

record loop_in =
  in_rx :: "nat \<Rightarrow> mbuf list"
  in_tsc :: u64
  in_pnum :: "nat \<Rightarrow> nat"
  in_dst :: "nat \<Rightarrow> u16"

definition US_PER_S :: u64 where "US_PER_S = 1000000"
definition BURST_TX_DRAIN_US :: u64 where "BURST_TX_DRAIN_US = 100"

definition drain_tsc_of :: "u64 \<Rightarrow> u64" where
  "drain_tsc_of hz = (hz + US_PER_S - 1) div US_PER_S * BURST_TX_DRAIN_US"

definition lpm_drain_port :: "dpdk \<Rightarrow> u16 \<Rightarrow> lpm_loop \<Rightarrow> lpm_loop" where
  "lpm_drain_port E portid st =
     (let s = lo_core st
      in if tb_len s portid = 0 then st
         else let (sent_pkts, s') = send_burst E (tb_len s portid) portid s
              in st\<lparr>lo_tx := lo_tx st + of_nat sent_pkts,
                    lo_dropped := lo_dropped st + of_nat (tb_len s portid - sent_pkts),
                    lo_core := s'\<lparr>tb_len := (tb_len s')(portid := 0)\<rparr>\<rparr>)"

definition lpm_drain :: "dpdk \<Rightarrow> u64 \<Rightarrow> lpm_loop \<Rightarrow> lpm_loop" where
  "lpm_drain E drain_tsc st =
     (let diff_tsc = lo_cur st - lo_prev st
      in if drain_tsc < diff_tsc then
           (fold (lpm_drain_port E) (tx_port_id (lo_core st)) st)\<lparr>lo_prev := lo_cur st\<rparr>
         else st)"

definition lpm_rx_queue :: "dpdk \<Rightarrow> glob \<Rightarrow> lpm_tables \<Rightarrow> loop_in \<Rightarrow> nat \<times> u16 \<Rightarrow> lpm_loop \<Rightarrow> lpm_loop option" where
  "lpm_rx_queue E G L i qp st =
     (let pkts = in_rx i (fst qp); portid = snd qp; nb_rx = length pkts
      in if nb_rx = 0 then Some st
         else case l3fwd_lpm_send_packets E G L (in_pnum i) nb_rx ((!) pkts, in_dst i) portid (lo_core st) of
                None \<Rightarrow> None
              | Some (stats, s') \<Rightarrow>
                  Some (st\<lparr>lo_rx := lo_rx st + of_nat nb_rx, lo_core := s',
                          lo_tx := lo_tx st + of_nat (st_sent stats),
                          lo_dropped := lo_dropped st + of_nat (st_dropped stats)\<rparr>))"

fun lpm_rx_queues :: "dpdk \<Rightarrow> glob \<Rightarrow> lpm_tables \<Rightarrow> loop_in \<Rightarrow> (nat \<times> u16) list \<Rightarrow> lpm_loop \<Rightarrow> lpm_loop option" where
  "lpm_rx_queues E G L i [] st = Some st"
| "lpm_rx_queues E G L i (q # qs) st =
     (case lpm_rx_queue E G L i q st of None \<Rightarrow> None | Some st' \<Rightarrow> lpm_rx_queues E G L i qs st')"

definition lpm_loop_pass :: "dpdk \<Rightarrow> glob \<Rightarrow> lpm_tables \<Rightarrow> u64 \<Rightarrow> loop_in \<Rightarrow> lpm_loop \<Rightarrow> lpm_loop option" where
  "lpm_loop_pass E G L drain_tsc i st =
     (let st1 = lpm_drain E drain_tsc st;
          qs = map (\<lambda>(n, p, q). (n, p)) (enumerate 0 (rx_queue_list (lo_core st1)))
      in case lpm_rx_queues E G L i qs st1 of None \<Rightarrow> None
         | Some st2 \<Rightarrow> Some (st2\<lparr>lo_cur := in_tsc i\<rparr>))"

text \<open>\<open>while (!force_quit)\<close>: one pass for each input until the flag is set.\<close>

fun lpm_passes :: "dpdk \<Rightarrow> glob \<Rightarrow> lpm_tables \<Rightarrow> u64 \<Rightarrow> loop_in list \<Rightarrow> lpm_loop \<Rightarrow> lpm_loop option" where
  "lpm_passes E G L drain_tsc [] st = Some st"
| "lpm_passes E G L drain_tsc (i # ins) st =
     (case lpm_loop_pass E G L drain_tsc i st of None \<Rightarrow> None
      | Some st' \<Rightarrow> lpm_passes E G L drain_tsc ins st')"

definition lpm_main_loop :: "dpdk \<Rightarrow> glob \<Rightarrow> lpm_tables \<Rightarrow> u64 \<Rightarrow> u64 \<Rightarrow> loop_in list \<Rightarrow> lcore \<Rightarrow> lpm_loop option" where
  "lpm_main_loop E G L hz tsc ins s =
     (let st0 = \<lparr>lo_core = s, lo_rx = 0, lo_tx = 0, lo_dropped = 0, lo_prev = tsc, lo_cur = tsc\<rparr>
      in if rx_queue_list s = [] then Some st0
         else lpm_passes E G L (drain_tsc_of hz) ins st0)"

section \<open>Invariant of the main loop\<close>

definition loop_ok :: "dpdk \<Rightarrow> lpm_loop \<Rightarrow> bool" where
  "loop_ok E st \<longleftrightarrow> tx_inv MAX_PKT_BURST (lo_core st)
     \<and> lo_rx st = lo_tx st + lo_dropped st + of_nat (waiting (lo_core st))
     \<and> (\<forall>p \<in> set (tx_port_id (lo_core st)). port_ok E p)
     \<and> (\<forall>(p, q) \<in> set (rx_queue_list (lo_core st)). port_ok E p)"

lemma send_burst_le:
  "tx_burst_ok E \<Longrightarrow> port_ok E p \<Longrightarrow> n \<le> MAX_PKT_BURST \<Longrightarrow> fst (send_burst E n p s) \<le> n"
  using send_burst_eq by simp

lemma lpm_drain_port_core: "lo_core (lpm_drain_port E p st) = drain_port E p (lo_core st)"
  by (simp add: lpm_drain_port_def drain_port_def Let_def case_prod_beta)

lemma drain_port_conf: "same_conf s (drain_port E p s)"
  by (simp add: drain_port_def Let_def send_burst_conf)

lemma loop_ok_tx: "loop_ok E st \<Longrightarrow> tb_len (lo_core st) p < MAX_PKT_BURST"
  by (simp add: loop_ok_def tx_inv_def)

lemma lpm_drain_port_ok:
  assumes "tx_burst_ok E" and "port_ok E p" and ok: "loop_ok E st"
  shows "loop_ok E (lpm_drain_port E p st)"
    and "tx_port_id (lo_core (lpm_drain_port E p st)) = tx_port_id (lo_core st)"
    and "rx_queue_list (lo_core (lpm_drain_port E p st)) = rx_queue_list (lo_core st)"
proof -
  let ?s = "lo_core st"
  let ?n = "tb_len ?s p"
  have inv: "tx_inv MAX_PKT_BURST ?s" and n: "?n \<le> MAX_PKT_BURST"
    using ok loop_ok_tx [OF ok, of p] by (simp_all add: loop_ok_def)
  note d = drain_port_inv [OF assms(1,2) inv order.refl]
  have c: "same_conf ?s (lo_core (lpm_drain_port E p st))"
    by (simp only: lpm_drain_port_core drain_port_conf)
  show tp: "tx_port_id (lo_core (lpm_drain_port E p st)) = tx_port_id ?s"
    and rq: "rx_queue_list (lo_core (lpm_drain_port E p st)) = rx_queue_list ?s"
    using c by (simp_all add: same_conf_def)
  have "lo_rx (lpm_drain_port E p st) = lo_tx (lpm_drain_port E p st) + lo_dropped (lpm_drain_port E p st)
      + of_nat (waiting (lo_core (lpm_drain_port E p st)))"
  proof (cases "?n = 0")
    case True
    then show ?thesis using ok by (simp add: lpm_drain_port_def loop_ok_def Let_def)
  next
    case False
    let ?k = "fst (send_burst E ?n p ?s)"
    have k: "?k \<le> ?n" by (rule send_burst_le [OF assms(1,2) n])
    have "waiting (drain_port E p ?s) + ?n = waiting ?s + tb_len (drain_port E p ?s) p"
    proof (rule waiting_upd)
      fix q assume "q \<noteq> p"
      from arg_cong [OF d(3) [OF this], of length] show "tb_len (drain_port E p ?s) q = tb_len ?s q" by (simp only: length_buffered)
    qed
    moreover have "tb_len (drain_port E p ?s) p = 0"
      using arg_cong [OF d(2), of length] by (simp only: length_buffered list.size)
    ultimately have w: "waiting ?s = waiting (drain_port E p ?s) + (?n - ?k) + ?k" using k by simp
    have e: "lo_rx (lpm_drain_port E p st) = lo_rx st" "lo_tx (lpm_drain_port E p st) = lo_tx st + of_nat ?k"
      "lo_dropped (lpm_drain_port E p st) = lo_dropped st + of_nat (?n - ?k)"
      using False by (simp_all add: lpm_drain_port_def Let_def case_prod_beta)
    have "lo_rx st = lo_tx st + lo_dropped st + of_nat (waiting ?s)" using ok by (simp add: loop_ok_def)
    then show ?thesis
      unfolding e lpm_drain_port_core w of_nat_add by (simp only: add.assoc add.commute add.left_commute)
  qed
  then show "loop_ok E (lpm_drain_port E p st)"
    using ok d(1) tp rq by (simp add: loop_ok_def lpm_drain_port_core)
qed

lemma lpm_drain_fold_ok:
  assumes "tx_burst_ok E"
  shows "\<forall>p \<in> set ps. port_ok E p \<Longrightarrow> loop_ok E st \<Longrightarrow> loop_ok E (fold (lpm_drain_port E) ps st)
    \<and> rx_queue_list (lo_core (fold (lpm_drain_port E) ps st)) = rx_queue_list (lo_core st)"
proof (induction ps arbitrary: st)
  case (Cons p ps)
  then have p: "port_ok E p" by simp
  note d = lpm_drain_port_ok [OF assms p Cons.prems(2)]
  show ?case using Cons.IH [OF _ d(1)] Cons.prems(1) d(3) by simp
qed simp

lemma loop_ok_time [simp]:
  "loop_ok E (st\<lparr>lo_prev := t\<rparr>) = loop_ok E st" "loop_ok E (st\<lparr>lo_cur := t\<rparr>) = loop_ok E st"
  by (simp_all add: loop_ok_def)

lemma lpm_drain_ok:
  assumes "tx_burst_ok E" and "loop_ok E st"
  shows "loop_ok E (lpm_drain E dt st)"
    and "rx_queue_list (lo_core (lpm_drain E dt st)) = rx_queue_list (lo_core st)"
  using lpm_drain_fold_ok [OF assms(1) _ assms(2), of "tx_port_id (lo_core st)"] assms(2)
  by (simp_all add: lpm_drain_def Let_def loop_ok_def)

text \<open>What the loop relies on: the lookups give existing ports, the driver gives at most a burst
  of packets.\<close>

definition lpm_env_ok :: "dpdk \<Rightarrow> glob \<Rightarrow> lpm_tables \<Rightarrow> bool" where
  "lpm_env_ok E G L \<longleftrightarrow> tx_burst_ok E \<and> ptype_ok E \<and> ports_16 E \<and> lookupx4_ok L
     \<and> max_ethports E \<le> 0x8000 \<and> rx_burst_size G \<le> MAX_PKT_BURST
     \<and> (\<forall>a h. lpm4 L a = Some h \<longrightarrow> unat h < max_ethports E)
     \<and> (\<forall>a h. lpm6 L a = Some h \<longrightarrow> unat h < max_ethports E)"

definition rx_ok :: "glob \<Rightarrow> loop_in \<Rightarrow> bool" where
  "rx_ok G i \<longleftrightarrow> (\<forall>n. length (in_rx i n) \<le> rx_burst_size G)"

lemma ucast_port: "unat (h :: u32) < m \<Longrightarrow> m \<le> 0x8000 \<Longrightarrow> unat (ucast h :: u16) = unat h"
  by (simp add: unsigned_ucast_eq take_bit_eq_mod)

lemma lpm_get_dst_port_ok:
  assumes "lpm_env_ok E G L" and "port_ok E portid"
  shows "port_ok E (lpm_get_dst_port E L m portid)"
  using assms
  by (auto simp: lpm_get_dst_port_def lpm_get_ipv4_dst_port_def lpm_get_ipv6_dst_port_def Let_def
      lpm_env_ok_def port_ok_def split: option.split) (metis ucast_port)+

lemma lpm_env_small:
  assumes "lpm_env_ok E G L" and "port_ok E portid"
  shows "hops_small L portid"
  using assms by (fastforce simp: lpm_env_ok_def hops_small_def port_ok_def)

lemma lpm_send_ok:
  assumes env: "lpm_env_ok E G L" and p: "port_ok E portid" and inv: "tx_inv MAX_PKT_BURST s"
    and n: "0 < n" "n \<le> MAX_PKT_BURST"
  shows "\<exists>stats s'. l3fwd_lpm_send_packets E G L pnum0 n PD portid s = Some (stats, s')
    \<and> tx_inv MAX_PKT_BURST s' \<and> same_conf s s'
    \<and> st_sent stats + st_dropped stats + waiting s' = n + waiting s"
proof -
  let ?PD = "lpm_spec E G L portid False 0 n PD"
  have e: "tx_burst_ok E" "ptype_ok E" "ports_16 E" "lookupx4_ok L"
    using env by (simp_all add: lpm_env_ok_def)
  have "\<forall>i<n. port_ok E (snd ?PD i)"
    using lpm_get_dst_port_ok [OF env p] by (simp add: lpm_spec_def)
  from multi_delivers [OF e(1,3) inv n this, of G pnum0]
  show ?thesis
    unfolding l3fwd_lpm_send_packets_def Let_def
      lpm_process_packets_spec [OF e(2,4) lpm_env_small [OF env p]]
    by blast
qed

lemma lpm_rx_queue_ok:
  assumes env: "lpm_env_ok E G L" and rx: "rx_ok G i" and p: "port_ok E p" and ok: "loop_ok E st"
  shows "\<exists>st'. lpm_rx_queue E G L i (n, p) st = Some st' \<and> loop_ok E st'
    \<and> rx_queue_list (lo_core st') = rx_queue_list (lo_core st)"
proof (cases "length (in_rx i n) = 0")
  case True
  then show ?thesis using ok by (simp add: lpm_rx_queue_def)
next
  case False
  let ?k = "length (in_rx i n)"
  have k: "0 < ?k" "?k \<le> MAX_PKT_BURST"
    using False rx env by (auto simp: rx_ok_def lpm_env_ok_def intro: order_trans)
  have inv: "tx_inv MAX_PKT_BURST (lo_core st)" using ok by (simp add: loop_ok_def)
  obtain stats s' where r: "l3fwd_lpm_send_packets E G L (in_pnum i) ?k ((!) (in_rx i n), in_dst i) p (lo_core st)
      = Some (stats, s')" and s': "tx_inv MAX_PKT_BURST s'" "same_conf (lo_core st) s'"
    and c: "st_sent stats + st_dropped stats + waiting s' = ?k + waiting (lo_core st)"
    using lpm_send_ok [OF env p inv k] by blast
  have "(of_nat (st_sent stats + st_dropped stats + waiting s') :: u64) = of_nat (?k + waiting (lo_core st))"
    by (simp only: c)
  then have c': "(of_nat ?k :: u64) = of_nat (st_sent stats) + of_nat (st_dropped stats) + of_nat (waiting s')
      - of_nat (waiting (lo_core st))"
    by (simp add: algebra_simps)
  have "lo_rx st = lo_tx st + lo_dropped st + of_nat (waiting (lo_core st))" using ok by (simp add: loop_ok_def)
  then have "lo_rx st + of_nat ?k = lo_tx st + of_nat (st_sent stats)
      + (lo_dropped st + of_nat (st_dropped stats)) + of_nat (waiting s')"
    unfolding c' by (simp add: algebra_simps)
  then show ?thesis
    using False r s' ok by (simp add: lpm_rx_queue_def Let_def loop_ok_def same_conf_def)
qed

lemma lpm_rx_queues_ok:
  assumes env: "lpm_env_ok E G L" and rx: "rx_ok G i"
  shows "\<forall>(n, p) \<in> set qs. port_ok E p \<Longrightarrow> loop_ok E st \<Longrightarrow>
    \<exists>st'. lpm_rx_queues E G L i qs st = Some st' \<and> loop_ok E st'
      \<and> rx_queue_list (lo_core st') = rx_queue_list (lo_core st)"
proof (induction qs arbitrary: st)
  case (Cons q qs)
  obtain n p where q: "q = (n, p)" by (cases q)
  obtain st1 where 1: "lpm_rx_queue E G L i q st = Some st1" "loop_ok E st1"
    "rx_queue_list (lo_core st1) = rx_queue_list (lo_core st)"
    using lpm_rx_queue_ok [OF env rx _ Cons.prems(2), of p n] Cons.prems(1) by (auto simp: q)
  then show ?case using Cons.IH [OF _ 1(2)] Cons.prems(1) by simp
qed simp

lemma lpm_loop_pass_ok:
  assumes env: "lpm_env_ok E G L" and rx: "rx_ok G i" and ok: "loop_ok E st"
  shows "\<exists>st'. lpm_loop_pass E G L dt i st = Some st' \<and> loop_ok E st'"
proof -
  have t: "tx_burst_ok E" using env by (simp add: lpm_env_ok_def)
  note d = lpm_drain_ok [OF t ok, of dt]
  have "\<forall>(n, p) \<in> set (map (\<lambda>(n, p, q). (n, p)) (enumerate 0 (rx_queue_list (lo_core (lpm_drain E dt st))))). port_ok E p"
    using d(1) by (auto simp: loop_ok_def in_set_enumerate_eq dest!: nth_mem)
      (metis (mono_tags, lifting) case_prodD nth_mem)
  from lpm_rx_queues_ok [OF env rx this d(1)]
  show ?thesis by (auto simp: lpm_loop_pass_def Let_def)
qed

lemma lpm_passes_ok:
  assumes env: "lpm_env_ok E G L"
  shows "\<forall>i \<in> set ins. rx_ok G i \<Longrightarrow> loop_ok E st \<Longrightarrow>
    \<exists>st'. lpm_passes E G L dt ins st = Some st' \<and> loop_ok E st'"
proof (induction ins arbitrary: st)
  case (Cons i ins)
  obtain st1 where 1: "lpm_loop_pass E G L dt i st = Some st1" "loop_ok E st1"
    using lpm_loop_pass_ok [OF env _ Cons.prems(2), of i dt] Cons.prems(1) by auto
  then show ?case using Cons.IH [OF _ 1(2)] Cons.prems(1) by simp
qed simp

section \<open>One packet at a time, with statistics\<close>

text \<open>A result that accounts for \<open>k\<close> packets: sent, dropped or newly waiting.\<close>

definition accounts_for :: "nat \<Rightarrow> lcore \<Rightarrow> tx_stats \<times> lcore \<Rightarrow> bool" where
  "accounts_for k s r \<longleftrightarrow>
     st_sent (fst r) + st_dropped (fst r) + waiting (snd r) = k + waiting s"

lemma single_len:
  fixes m :: mbuf
  assumes "tx_burst_ok E" and "single_good G n" and "port_ok E p" and "tx_inv (rx_burst_size G) s"
  defines "r \<equiv> send_single_packet E G m p s"
  shows "q \<noteq> p \<Longrightarrow> tb_len (snd r) q = tb_len s q"
    and "tb_len s p + 1 = rx_burst_size G \<Longrightarrow> tb_len (snd r) p = 0 \<and> fst r \<le> rx_burst_size G"
    and "tb_len s p + 1 \<noteq> rx_burst_size G \<Longrightarrow> tb_len (snd r) p = tb_len s p + 1 \<and> fst r = 0"
proof -
  note v = single_step(1) [OF assms(1-4), of m, folded r_def]
  have l: "tb_len (snd r) q = length (a_buf (abs_single E G p m (tx_view s)) q)" for q
    unfolding view_lengths(3) v ..
  show "q \<noteq> p \<Longrightarrow> tb_len (snd r) q = tb_len s q"
    unfolding l by (simp add: abs_single_def Let_def)
  show "tb_len s p + 1 = rx_burst_size G \<Longrightarrow> tb_len (snd r) p = 0 \<and> fst r \<le> rx_burst_size G"
  proof
    assume e: "tb_len s p + 1 = rx_burst_size G"
    then show "tb_len (snd r) p = 0" unfolding l by (simp add: abs_single_def Let_def)
    have "rx_burst_size G \<le> MAX_PKT_BURST" using assms(2) by (simp add: single_good_def)
    then show "fst r \<le> rx_burst_size G"
      using send_burst_le [OF assms(1,3)] e
      by (simp add: r_def send_single_packet_def Let_def case_prod_beta bad_access_def)
  qed
  show "tb_len s p + 1 \<noteq> rx_burst_size G \<Longrightarrow> tb_len (snd r) p = tb_len s p + 1 \<and> fst r = 0"
    unfolding l by (simp add: abs_single_def Let_def)
      (simp add: r_def send_single_packet_def Let_def case_prod_beta bad_access_def)
qed

lemma lpm_forward_to_ok:
  assumes "tx_burst_ok E" and "single_good G n" and "port_ok E p" and "tx_inv (rx_burst_size G) s"
  shows "accounts_for 1 s (lpm_forward_to E G p m s)"
    and "tx_inv (rx_burst_size G) (snd (lpm_forward_to E G p m s))"
proof -
  note l = single_len [where m = m, OF assms]
  let ?r = "send_single_packet E G m p s"
  have w: "waiting (snd ?r) + tb_len s p = waiting s + tb_len (snd ?r) p"
    by (rule waiting_upd) (rule l(1))
  show "accounts_for 1 s (lpm_forward_to E G p m s)"
  proof (cases "tb_len s p + 1 = rx_burst_size G")
    case True
    then show ?thesis using l(2) [OF True] w
      by (simp add: accounts_for_def lpm_forward_to_def Let_def case_prod_beta)
  next
    case False
    then show ?thesis using l(3) [OF False] w
      by (simp add: accounts_for_def lpm_forward_to_def Let_def case_prod_beta)
  qed
  show "tx_inv (rx_burst_size G) (snd (lpm_forward_to E G p m s))"
    using single_step(2) [OF assms] by (simp add: lpm_forward_to_def Let_def case_prod_beta)
qed

lemma free_one: "accounts_for 1 s (\<lparr>st_sent = 0, st_dropped = 1\<rparr>, pktmbuf_free m s)"
  "tx_inv lim (pktmbuf_free m s) = tx_inv lim s"
  by (simp_all add: accounts_for_def pktmbuf_free_def waiting_def tx_inv_def)

lemma enabled_or_own: "port_ok E portid \<Longrightarrow> port_ok E (if port_enabled E G p then p else portid)"
  by (simp add: port_enabled_def port_ok_def)

lemma simple_forward_ok:
  assumes "tx_burst_ok E" and "single_good G n" and "port_ok E portid" and "tx_inv (rx_burst_size G) s"
  shows "accounts_for 1 s (l3fwd_lpm_simple_forward E G L portid m s)
    \<and> tx_inv (rx_burst_size G) (snd (l3fwd_lpm_simple_forward E G L portid m s))"
proof -
  note f = lpm_forward_to_ok [OF assms(1,2) enabled_or_own [OF assms(3)] assms(4), of G]
  consider "is_ipv4_hdr E (packet_type m)" | "\<not> is_ipv4_hdr E (packet_type m)" "is_ipv6_hdr E (packet_type m)"
    | "\<not> is_ipv4_hdr E (packet_type m)" "\<not> is_ipv6_hdr E (packet_type m)" by blast
  then show ?thesis
  proof cases
    case 1
    then show ?thesis
      using f free_one assms(4)
      by (cases "fst (is_valid_ipv4_pkt E (mb_data m) (pkt_len m) (ol_flags m)) < 0")
         (simp_all add: l3fwd_lpm_simple_forward_def Let_def case_prod_beta)
  next
    case 2
    then show ?thesis using f by (simp add: l3fwd_lpm_simple_forward_def Let_def)
  next
    case 3
    then show ?thesis using free_one assms(4) by (simp add: l3fwd_lpm_simple_forward_def)
  qed
qed

lemma no_opt_fold_ok:
  assumes "tx_burst_ok E" and "single_good G n" and "port_ok E portid"
  shows "tx_inv (rx_burst_size G) s \<Longrightarrow>
    (let r = fold (\<lambda>j. no_opt_step E G L portid (P j)) js (st, s)
     in tx_inv (rx_burst_size G) (snd r) \<and>
        st_sent (fst r) + st_dropped (fst r) + waiting (snd r)
          = st_sent st + st_dropped st + length js + waiting s)"
proof (induction js arbitrary: st s)
  case (Cons j js)
  obtain ret s1 where 1: "l3fwd_lpm_simple_forward E G L portid (P j) s = (ret, s1)" by fastforce
  have ok: "accounts_for 1 s (ret, s1)" "tx_inv (rx_burst_size G) s1"
    using simple_forward_ok [OF assms Cons.prems, of L "P j"] by (simp_all add: 1)
  have "no_opt_step E G L portid (P j) (st, s) = (add_stats st ret, s1)"
    by (simp add: no_opt_step_def 1)
  then show ?case
    using Cons.IH [OF ok(2), of "add_stats st ret"] ok(1)
    by (simp add: Let_def accounts_for_def add_stats_def)
qed simp

section \<open>Filling the tables\<close>

text \<open>The library calls of the set-up: whether a table can be created, whether a port has device
  information, whether a rule can be added to a table with the given rules. An exit carries its
  reason and whether the routes were freed first.\<close>

record 'a lpm_api =
  api_create :: bool
  api_dev_info :: "u8 \<Rightarrow> bool"
  api_add :: "'a route list \<Rightarrow> 'a route \<Rightarrow> bool"

datatype setup_exit = Exit_create | Exit_dev_info u8 | Exit_add nat

fun lpm_populate :: "u32 \<Rightarrow> 'a lpm_api \<Rightarrow> nat \<Rightarrow> 'a route list \<Rightarrow> 'a route list \<Rightarrow>
    (setup_exit \<times> bool) + 'a route list" where
  "lpm_populate em A i [] tbl = Inr tbl"
| "lpm_populate em A i (r # rs) tbl =
     (if \<not> in_mask em (unat (rt_out r)) then lpm_populate em A (i + 1) rs tbl
      else if \<not> api_dev_info A (rt_out r) then Inl (Exit_dev_info (rt_out r), False)
      else if \<not> api_add A tbl r then Inl (Exit_add i, True)
      else lpm_populate em A (i + 1) rs (tbl @ [r]))"

definition setup_lpm :: "u32 \<Rightarrow> u32 lpm_api \<Rightarrow> u8 list lpm_api \<Rightarrow> u32 route list \<Rightarrow> u8 list route list \<Rightarrow>
    (setup_exit \<times> bool) + u32 route list \<times> u8 list route list" where
  "setup_lpm em A4 A6 routes4 routes6 =
     (if \<not> api_create A4 then Inl (Exit_create, False)
      else case lpm_populate em A4 0 routes4 [] of Inl e \<Rightarrow> Inl e
      | Inr t4 \<Rightarrow>
          if \<not> api_create A6 then Inl (Exit_create, True)
          else case lpm_populate em A6 0 routes6 [] of Inl e \<Rightarrow> Inl e
               | Inr t6 \<Rightarrow> Inr (t4, t6))"

definition route_used :: "u32 \<Rightarrow> 'a route \<Rightarrow> bool" where
  "route_used em r \<longleftrightarrow> in_mask em (unat (rt_out r))"

lemma lpm_populate_table:
  "lpm_populate em A i rs tbl = Inr tbl' \<Longrightarrow>
    tbl' = tbl @ filter (route_used em) rs \<and> (\<forall>r \<in> set (filter (route_used em) rs). api_dev_info A (rt_out r))"
proof (induction rs arbitrary: i tbl)
  case (Cons r rs)
  show ?case
  proof (cases "route_used em r")
    case True
    then have "lpm_populate em A (i + 1) rs (tbl @ [r]) = Inr tbl'" and "api_dev_info A (rt_out r)"
      using Cons.prems by (simp_all add: route_used_def split: if_splits)
    with True show ?thesis using Cons.IH by fastforce
  next
    case False
    then show ?thesis using Cons by (simp add: route_used_def)
  qed
qed simp

lemma lpm_populate_total:
  assumes "\<And>t r. api_add A t r"
  shows "(\<forall>r \<in> set (filter (route_used em) rs). api_dev_info A (rt_out r)) \<Longrightarrow>
    lpm_populate em A i rs tbl = Inr (tbl @ filter (route_used em) rs)"
  by (induction rs arbitrary: i tbl) (auto simp: route_used_def assms)

section \<open>The packet type callback\<close>

definition ETHER_TYPE_IPV4 :: u16 where "ETHER_TYPE_IPV4 = 0x0800"
definition ETHER_TYPE_IPV6 :: u16 where "ETHER_TYPE_IPV6 = 0x86dd"

definition lpm_parse_ptype :: "dpdk \<Rightarrow> mbuf \<Rightarrow> mbuf" where
  "lpm_parse_ptype E m =
     (let ether_type = ld16 (mb_data m) 12;
          t = (if ether_type = bswap16 ETHER_TYPE_IPV4 then 0 OR ptype_l3_ipv4_ext E
               else if ether_type = bswap16 ETHER_TYPE_IPV6 then 0 OR ptype_l3_ipv6_ext E
               else 0)
      in m\<lparr>packet_type := t\<rparr>)"

text \<open>All but the last packet in the loop, then the last one.\<close>

definition lpm_cb_parse_ptype :: "dpdk \<Rightarrow> nat \<Rightarrow> (nat \<Rightarrow> mbuf) \<Rightarrow> nat \<times> (nat \<Rightarrow> mbuf)" where
  "lpm_cb_parse_ptype E nb_pkts P =
     (if nb_pkts = 0 then (0, P)
      else let P1 = fold (\<lambda>i P. P(i := lpm_parse_ptype E (P i))) [0..<nb_pkts - 1] P;
               i = nb_pkts - 1
           in (nb_pkts, P1(i := lpm_parse_ptype E (P1 i))))"

definition lpm_check_ptype :: "dpdk \<Rightarrow> bool \<Rightarrow> u32 list \<Rightarrow> bool" where
  "lpm_check_ptype E ipv6 ptypes =
     (if ptypes = [] then False
      else let v4 = fold (\<lambda>t f. if t AND ptype_l3_ipv4 E \<noteq> 0 then True else f) ptypes False;
               v6 = fold (\<lambda>t f. if t AND ptype_l3_ipv6 E \<noteq> 0 then True else f) ptypes False
           in if \<not> ipv6 \<and> \<not> v4 then False else if ipv6 \<and> \<not> v6 then False else True)"

lemma map_pass: "fold (\<lambda>i P. P(i := f (P i))) [0..<n] P = (\<lambda>i. if i < n then f (P i) else P i)"
  by (induction n) (auto simp: fun_eq_iff less_Suc_eq)

lemma lpm_cb_all:
  "lpm_cb_parse_ptype E n P = (n, \<lambda>i. if i < n then lpm_parse_ptype E (P i) else P i)"
  by (cases n) (auto simp: lpm_cb_parse_ptype_def map_pass Let_def fun_eq_iff less_Suc_eq)

lemma fold_any: "fold (\<lambda>t f. if p t then True else f) ts b = (b \<or> (\<exists>t \<in> set ts. p t))"
  by (induction ts arbitrary: b) auto

section \<open>Properties\<close>

text \<open>Tables for the concrete instances: one IPv4 and one IPv6 destination are routed.\<close>

definition lpm_ex :: lpm_tables where
  "lpm_ex = \<lparr>lpm4 = (\<lambda>a. if a = 0 then Some 2 else None), lpm6 = (\<lambda>a. if a = replicate 16 0 then Some 3 else None),
     lpm4_x4 = (\<lambda>ips v. map (\<lambda>a. if a = 0 then 2 else v) ips)\<rparr>"

lemma lookupx4_ok_ex: "lookupx4_ok lpm_ex"
  by (auto simp: lookupx4_ok_def lpm_ex_def fun_eq_iff)

lemma hops_small_ex: "unat portid \<le> 0x7fff \<Longrightarrow> hops_small lpm_ex portid"
  by (auto simp: hops_small_def lpm_ex_def split: if_splits)

lemma lpm_env_ok_ex: "lpm_env_ok dpdk_ex glob_ex lpm_ex"
  using tx_burst_ok_ex ptype_ok_ex ports_16_ex lookupx4_ok_ex
  by (auto simp: lpm_env_ok_def) (auto simp: dpdk_ex_def glob_ex_def MAX_PKT_BURST_def lpm_ex_def split: if_splits)

lemma val_eth_16_ex: "val_eth_16 glob_ex"
  by (simp add: val_eth_16_def glob_ex_def)

text \<open>C8. The burst routine of the LPM path, in its SSE and its NEON version, gives every
  packet the destination port the one-packet routine \<open>lpm_get_dst_port\<close> gives it, for any number
  of packets, and with \<open>do_step3\<close> also the rewritten packet and the port of \<open>process_packet\<close>. The
  four-address lookup, the saturation to 16 bits, the test that all four packets are IPv4 and
  the tail change nothing when next hops and the receiving port are below 32768.\<close>

theorem lpm_process_packets_correct:
  assumes "ptype_ok E" and "lookupx4_ok L" and "hops_small L portid" and "val_eth_16 G"
  shows "lpm_process_packets E G L n portid do_step3 (P, D)
    = (\<lambda>i. if i < n \<and> do_step3 then fst (process_packet E G (P i) (lpm_get_dst_port E L (P i) portid)) else P i,
       \<lambda>i. if i < n then (if do_step3 then snd (process_packet E G (P i) (lpm_get_dst_port E L (P i) portid))
                          else lpm_get_dst_port E L (P i) portid) else D i)
    \<and> lpm_process_packets_neon E G L n portid do_step3 (P, D) = lpm_process_packets E G L n portid do_step3 (P, D)"
  unfolding lpm_process_packets_spec [OF assms(1-3)] lpm_process_packets_neon_spec [OF assms]
  by (auto simp: lpm_spec_def fun_eq_iff)

theorem lpm_process_packets_correct_witness:
  "lpm_process_packets dpdk_ex glob_ex lpm_ex 7 1 True (mbuf_ex, \<lambda>_. 0)
    = (\<lambda>i. if i < 7 \<and> True then fst (process_packet dpdk_ex glob_ex (mbuf_ex i)
              (lpm_get_dst_port dpdk_ex lpm_ex (mbuf_ex i) 1)) else mbuf_ex i,
       \<lambda>i. if i < 7 then (if True then snd (process_packet dpdk_ex glob_ex (mbuf_ex i)
              (lpm_get_dst_port dpdk_ex lpm_ex (mbuf_ex i) 1))
                          else lpm_get_dst_port dpdk_ex lpm_ex (mbuf_ex i) 1) else 0)
    \<and> lpm_process_packets_neon dpdk_ex glob_ex lpm_ex 7 1 True (mbuf_ex, \<lambda>_. 0)
      = lpm_process_packets dpdk_ex glob_ex lpm_ex 7 1 True (mbuf_ex, \<lambda>_. 0)"
  by (rule lpm_process_packets_correct [OF ptype_ok_ex lookupx4_ok_ex hops_small_ex val_eth_16_ex]) simp

text \<open>The AltiVec version takes the receiving port as a \<open>uint8_t\<close>: it does what the SSE
  version does for the port's low eight bits, so a packet without a route received on a port
  above 255 goes to another port than the one it came from.\<close>

lemma lpm_process_packets_altivec_truncates:
  assumes "ptype_ok E" and "lookupx4_ok L" and "hops_small L portid" and "val_eth_16 G"
    and "i < n" and "is_ipv4_hdr E (packet_type (P i))"
    and "lpm4 L (bswap32 (ld32 (mb_data (P i)) IP_DST)) = None" and "256 \<le> unat portid"
  shows "snd (lpm_process_packets E G L n portid False (P, D)) i = portid
    \<and> snd (lpm_process_packets_altivec E G L n (ucast portid) False (P, D)) i = ucast (ucast portid :: u8)
    \<and> ucast (ucast portid :: u8) \<noteq> portid"
proof -
  have u: "unat (ucast x :: u16) < 256" for x :: u8
  proof -
    have "unat x < 2 ^ LENGTH(8)" by (rule unsigned_less)
    then show ?thesis by (simp add: unsigned_ucast_eq take_bit_eq_mod)
  qed
  then have b: "unat (ucast (ucast portid :: u8) :: u16) < 256" .
  have s: "hops_small L (ucast (ucast portid :: u8))"
    using assms(3) b by (simp add: hops_small_def)
  have "(ucast (ucast portid :: u8) :: u16) \<noteq> portid" using b assms(8) by auto
  then show ?thesis
    using assms(5-7)
    by (simp add: lpm_process_packets_spec [OF assms(1-3)] lpm_process_packets_altivec_spec [OF assms(1,2) s assms(4)]
        lpm_spec_def lpm_get_dst_port_def lpm_get_ipv4_dst_port_def)
qed

text \<open>C7. The polling main loop never fails and keeps its books: from empty buffers, after any
  number of passes with any arrivals of at most \<open>rx_burst_size\<close> packets per queue and any clock,
  the transmit buffers are in range and the 64-bit counters satisfy \<open>rx = tx + dropped +
  waiting\<close>, whether packets left directly, from full buffers or by the drain.\<close>

theorem lpm_main_loop_accounts:
  assumes "lpm_env_ok E G L" and "tx_inv MAX_PKT_BURST s" and "waiting s = 0"
    and "\<forall>p \<in> set (tx_port_id s). port_ok E p" and "\<forall>(p, q) \<in> set (rx_queue_list s). port_ok E p"
    and "\<forall>i \<in> set ins. rx_ok G i"
  shows "\<exists>st. lpm_main_loop E G L hz tsc ins s = Some st
    \<and> lo_rx st = lo_tx st + lo_dropped st + of_nat (waiting (lo_core st))
    \<and> tx_inv MAX_PKT_BURST (lo_core st)"
proof -
  let ?st = "\<lparr>lo_core = s, lo_rx = 0, lo_tx = 0, lo_dropped = 0, lo_prev = tsc, lo_cur = tsc\<rparr>"
  have "loop_ok E ?st" using assms(2-5) by (simp add: loop_ok_def)
  then show ?thesis
    using lpm_passes_ok [OF assms(1,6), of ?st "drain_tsc_of hz"] assms(2,3)
    by (auto simp: lpm_main_loop_def Let_def loop_ok_def)
qed

theorem lpm_main_loop_accounts_witness:
  "let i = \<lparr>in_rx = (\<lambda>_. map mbuf_ex [0..<20]), in_tsc = 5, in_pnum = (\<lambda>_. 7), in_dst = (\<lambda>_. 0)\<rparr> in
   \<exists>st. lpm_main_loop dpdk_ex glob_ex lpm_ex 1000 0 [i, i] lcore_ex = Some st
    \<and> lo_rx st = lo_tx st + lo_dropped st + of_nat (waiting (lo_core st))
    \<and> tx_inv MAX_PKT_BURST (lo_core st)"
  unfolding Let_def
  by (rule lpm_main_loop_accounts [OF lpm_env_ok_ex])
     (simp_all add: tx_inv_ex [of 512, simplified] MAX_PKT_BURST_def rx_ok_def glob_ex_def waiting_def port_ok_ex,
      simp_all add: lcore_ex_def port_ok_ex)

text \<open>The route without vector instructions accounts for every packet of a burst in the
  same way, one \<open>l3fwd_lpm_simple_forward\<close> at a time, and keeps every buffer below
  \<open>rx_burst_size\<close>: invalid packets and packets that are not IP count as dropped, the others as
  sent, dropped or waiting.\<close>

lemma lpm_no_opt_accounts:
  assumes "tx_burst_ok E" and "single_good G 1" and "port_ok E portid" and "tx_inv (rx_burst_size G) s"
  shows "let (stats, s') = l3fwd_lpm_no_opt_send_packets E G L n P portid s
    in tx_inv (rx_burst_size G) s' \<and> st_sent stats + st_dropped stats + waiting s' = n + waiting s"
proof -
  let ?z = "\<lparr>st_sent = 0, st_dropped = 0\<rparr>"
  have "[0..<n] = [0..<n - PREFETCH_OFFSET] @ [n - PREFETCH_OFFSET..<n]"
    by (metis diff_le_self le_add_diff_inverse upt_add_eq_append zero_le)
  then have "l3fwd_lpm_no_opt_send_packets E G L n P portid s
      = fold (\<lambda>j. no_opt_step E G L portid (P j)) [0..<n] (?z, s)"
    unfolding l3fwd_lpm_no_opt_send_packets_def Let_def by (simp only: fold_append comp_apply)
  then show ?thesis
    using no_opt_fold_ok [OF assms(1-4), of L P "[0..<n]" ?z] by (simp add: Let_def case_prod_beta)
qed

text \<open>C33. \<open>setup_lpm\<close> fills the tables with exactly the configured routes whose output port is
  enabled, in their order, when it returns; and it does return when both tables can be created,
  the library takes every rule and the enabled ports have device information.\<close>

theorem setup_lpm_tables:
  "(\<forall>t4 t6. setup_lpm em A4 A6 rs4 rs6 = Inr (t4, t6) \<longrightarrow>
      t4 = filter (route_used em) rs4 \<and> t6 = filter (route_used em) rs6)
    \<and> (api_create A4 \<and> api_create A6 \<and> (\<forall>t r. api_add A4 t r) \<and> (\<forall>t r. api_add A6 t r)
        \<and> (\<forall>r \<in> set rs4. route_used em r \<longrightarrow> api_dev_info A4 (rt_out r))
        \<and> (\<forall>r \<in> set rs6. route_used em r \<longrightarrow> api_dev_info A6 (rt_out r))
      \<longrightarrow> setup_lpm em A4 A6 rs4 rs6 = Inr (filter (route_used em) rs4, filter (route_used em) rs6))"
proof (intro conjI allI impI)
  fix t4 t6 assume s: "setup_lpm em A4 A6 rs4 rs6 = Inr (t4, t6)"
  then obtain u4 u6 where "lpm_populate em A4 0 rs4 [] = Inr u4" "lpm_populate em A6 0 rs6 [] = Inr u6"
    by (auto simp: setup_lpm_def split: if_splits sum.splits)
  with s show "t4 = filter (route_used em) rs4" and "t6 = filter (route_used em) rs6"
    using lpm_populate_table [of em A4 0 rs4 "[]"] lpm_populate_table [of em A6 0 rs6 "[]"]
    by (auto simp: setup_lpm_def split: if_splits)
next
  assume a: "api_create A4 \<and> api_create A6 \<and> (\<forall>t r. api_add A4 t r) \<and> (\<forall>t r. api_add A6 t r)
        \<and> (\<forall>r \<in> set rs4. route_used em r \<longrightarrow> api_dev_info A4 (rt_out r))
        \<and> (\<forall>r \<in> set rs6. route_used em r \<longrightarrow> api_dev_info A6 (rt_out r))"
  then have "lpm_populate em A4 0 rs4 [] = Inr ([] @ filter (route_used em) rs4)"
    and "lpm_populate em A6 0 rs6 [] = Inr ([] @ filter (route_used em) rs6)"
    by (intro lpm_populate_total; simp)+
  with a show "setup_lpm em A4 A6 rs4 rs6 = Inr (filter (route_used em) rs4, filter (route_used em) rs6)"
    by (simp add: setup_lpm_def)
qed

theorem setup_lpm_tables_witness:
  "let A = \<lparr>api_create = True, api_dev_info = (\<lambda>p. p < 4), api_add = (\<lambda>t r. True)\<rparr>;
       A6 = \<lparr>api_create = True, api_dev_info = (\<lambda>p. p < 4), api_add = (\<lambda>t r. True)\<rparr>;
       rs = [\<lparr>rt_ip = 0x0a000000, rt_depth = 8, rt_out = 1\<rparr>, \<lparr>rt_ip = 0x0b000000, rt_depth = 8, rt_out = 9\<rparr>]
   in setup_lpm 0xf A A6 rs [] = Inr (filter (route_used 0xf) rs, filter (route_used 0xf) [])"
  unfolding Let_def
  by (rule setup_lpm_tables [THEN conjunct2, rule_format])
     (simp add: route_used_def in_mask_def shl1_def)

text \<open>The callback \<open>lpm_cb_parse_ptype\<close> types every packet of the burst from its
  Ethernet type alone: after it, the forwarding code sees an IPv4 packet exactly when the type is
  0x0800 and an IPv6 packet exactly when it is 0x86dd; the packets past the burst are untouched.\<close>

lemma lpm_cb_parse_ptype_types:
  assumes "ptype_ok E"
  shows "snd (lpm_cb_parse_ptype E n P) i =
      (if i < n then lpm_parse_ptype E (P i) else P i)
    \<and> (is_ipv4_hdr E (packet_type (lpm_parse_ptype E m)) \<longleftrightarrow> bswap16 (ld16 (mb_data m) 12) = ETHER_TYPE_IPV4)
    \<and> (is_ipv6_hdr E (packet_type (lpm_parse_ptype E m)) \<longleftrightarrow> bswap16 (ld16 (mb_data m) 12) = ETHER_TYPE_IPV6)"
proof -
  have sw: "a = bswap16 b \<longleftrightarrow> bswap16 a = b" for a b by (metis bswap16_bswap16)
  have ne: "ETHER_TYPE_IPV4 \<noteq> ETHER_TYPE_IPV6"
    by (simp add: ETHER_TYPE_IPV4_def ETHER_TYPE_IPV6_def)
  show ?thesis
    using assms ne by (auto simp: lpm_cb_all lpm_parse_ptype_def Let_def sw ptype_ok_def)
qed

end
