(* ===== verification/Setup.thy ===== *)
theory Setup
  imports Config Lpm_Forward
begin

text \<open>
  Setting up ports, queues and lcores in polling mode: \<open>check_lcore_params\<close>,
  \<open>check_port_config\<close>, \<open>get_port_n_rx_queues\<close>, \<open>init_lcore_rx_queues\<close>, \<open>init_mem\<close>,
  \<open>config_port_max_pkt_len\<close> and \<open>l3fwd_poll_resource_setup\<close> of \<open>l3fwd/main.c\<close>, with the
  wait for the links. The devices are the record \<open>setup_env\<close>: what the library reports and
  whether a call succeeds; the calls that configure a device are kept in a trace. An exit of the
  program is \<open>Inl\<close> with its reason.
\<close>

section \<open>Devices and state\<close>

record dev_info =
  di_max_rx_pktlen :: u32
  di_max_mtu :: u16
  di_tx_capa :: u64
  di_rx_capa :: u64
  di_rss :: u64
  di_max_rx_queues :: u16

record port_conf =
  pc_mtu :: u32
  pc_rx_off :: u64
  pc_tx_off :: u64
  pc_rss_hf :: u64
  pc_mq_rss :: bool

record setup_env =
  se_max_lcore :: nat
  se_lcore_enabled :: "nat \<Rightarrow> bool"
  se_lcore_count :: nat
  se_socket :: "nat \<Rightarrow> nat"
  se_ports :: "nat list"
  se_valid_port :: "nat \<Rightarrow> bool"
  se_dev_info :: "nat \<Rightarrow> dev_info option"
  se_configure :: "nat \<Rightarrow> nat \<Rightarrow> nat \<Rightarrow> port_conf \<Rightarrow> bool"
  se_adjust :: "nat \<Rightarrow> u16 \<Rightarrow> u16 \<Rightarrow> (u16 \<times> u16) option"
  se_mac :: "nat \<Rightarrow> u8 list option"
  se_pool_create :: "nat \<Rightarrow> nat \<Rightarrow> u32 \<Rightarrow> bool"
  se_vec_create :: "nat \<Rightarrow> nat \<Rightarrow> u32 \<Rightarrow> bool"
  se_txq :: "nat \<Rightarrow> nat \<Rightarrow> u16 \<Rightarrow> nat \<Rightarrow> u64 \<Rightarrow> bool"
  se_rxq :: "nat \<Rightarrow> nat \<Rightarrow> u16 \<Rightarrow> nat \<Rightarrow> u64 \<Rightarrow> nat \<times> nat \<Rightarrow> bool"
  se_rx_offloads :: "nat \<Rightarrow> u64 option"
  se_ether_min_len :: u32
  se_ether_hdr_crc :: u32
  se_ether_mtu :: u32
  se_rx_checksum :: u64
  se_cache_size :: u32
  se_multi_segs :: u64
  se_fast_free :: u64

definition MAX_RX_QUEUE_PER_PORT :: nat where "MAX_RX_QUEUE_PER_PORT = 128"
definition MAX_RX_QUEUE_PER_LCORE :: nat where "MAX_RX_QUEUE_PER_LCORE = 16"
definition MAX_JUMBO_PKT_LEN :: u32 where "MAX_JUMBO_PKT_LEN = 9600"
definition NB_SOCKETS :: nat where "NB_SOCKETS = 8"

text \<open>The fields of \<open>struct lcore_conf\<close> the set-up fills; \<open>lc_lookup\<close> is the socket whose
  lookup tables the lcore uses.\<close>

record lconf =
  lc_rx :: "(u16 \<times> u16) list"
  lc_tx_ports :: "u16 list"
  lc_tx_queue :: "nat \<Rightarrow> u16"
  lc_lookup :: "nat option"

definition lconf0 :: lconf where
  "lconf0 = \<lparr>lc_rx = [], lc_tx_ports = [], lc_tx_queue = (\<lambda>_. 0), lc_lookup = None\<rparr>"

datatype dev_call =
    Configure nat nat nat port_conf
  | Tx_queue nat nat nat
  | Rx_queue nat nat nat "nat \<times> nat"
  | Pool nat nat
  | Lookup_setup nat

record sstate =
  ss_lcores :: "nat \<Rightarrow> lconf"
  ss_rxd :: u16
  ss_txd :: u16
  ss_macs :: "nat \<Rightarrow> u8 list"
  ss_val_eth :: "nat \<Rightarrow> u8 list"
  ss_pools :: "nat \<Rightarrow> nat \<Rightarrow> bool"
  ss_vec_pools :: "nat \<Rightarrow> bool"
  ss_lkp :: "nat \<Rightarrow> bool"
  ss_trace :: "dev_call list"

section \<open>Checks of the configuration\<close>

fun check_lcore_params :: "setup_env \<Rightarrow> lcore_params list \<Rightarrow> int" where
  "check_lcore_params E [] = 0"
| "check_lcore_params E (p # ps) =
     (if MAX_RX_QUEUE_PER_PORT \<le> unat (lp_queue p) then - 1
      else if \<not> se_lcore_enabled E (unat (lp_lcore p)) then - 1
      else check_lcore_params E ps)"

fun check_port_config :: "setup_env \<Rightarrow> u32 \<Rightarrow> lcore_params list \<Rightarrow> int" where
  "check_port_config E m [] = 0"
| "check_port_config E m (p # ps) =
     (if \<not> in_mask m (unat (lp_port p)) then - 1
      else if \<not> se_valid_port E (unat (lp_port p)) then - 1
      else check_port_config E m ps)"

text \<open>\<open>None\<close> is the exit because the queue ids of the port are not in sequence.\<close>

fun rx_queues_loop :: "nat \<Rightarrow> lcore_params list \<Rightarrow> int \<Rightarrow> int option" where
  "rx_queues_loop port [] queue = Some queue"
| "rx_queues_loop port (p # ps) queue =
     (if unat (lp_port p) = port then
        (if uint (lp_queue p) = queue + 1 then rx_queues_loop port ps (uint (lp_queue p)) else None)
      else rx_queues_loop port ps queue)"

definition get_port_n_rx_queues :: "nat \<Rightarrow> lcore_params list \<Rightarrow> nat option" where
  "get_port_n_rx_queues port ps = map_option (\<lambda>q. nat ((q + 1) mod 2 ^ 16)) (rx_queues_loop port ps (- 1))"

fun init_lcore_rx_queues :: "lcore_params list \<Rightarrow> (nat \<Rightarrow> lconf) \<Rightarrow> int \<times> (nat \<Rightarrow> lconf)" where
  "init_lcore_rx_queues [] lc = (0, lc)"
| "init_lcore_rx_queues (p # ps) lc =
     (let lcore = unat (lp_lcore p); nb_rx_queue = length (lc_rx (lc lcore))
      in if MAX_RX_QUEUE_PER_LCORE \<le> nb_rx_queue then (- 1, lc)
         else init_lcore_rx_queues ps
                (lc(lcore := (lc lcore)\<lparr>lc_rx := lc_rx (lc lcore) @ [(lp_port p, lp_queue p)]\<rparr>)))"

section \<open>Frame sizes\<close>

definition eth_dev_get_overhead_len :: "setup_env \<Rightarrow> u32 \<Rightarrow> u16 \<Rightarrow> u32" where
  "eth_dev_get_overhead_len E max_rx_pktlen max_mtu =
     (if max_mtu \<noteq> - 1 \<and> ucast max_mtu < max_rx_pktlen then max_rx_pktlen - ucast max_mtu
      else se_ether_hdr_crc E)"

definition config_port_max_pkt_len :: "setup_env \<Rightarrow> u32 \<Rightarrow> port_conf \<Rightarrow> dev_info \<Rightarrow> int \<times> port_conf" where
  "config_port_max_pkt_len E max_pkt_len conf di =
     (if max_pkt_len = 0 then (0, conf)
      else if max_pkt_len < se_ether_min_len E \<or> MAX_JUMBO_PKT_LEN < max_pkt_len then (- 1, conf)
      else let overhead_len = eth_dev_get_overhead_len E (di_max_rx_pktlen di) (di_max_mtu di);
               conf1 = conf\<lparr>pc_mtu := max_pkt_len - overhead_len\<rparr>
           in (0, if se_ether_mtu E < pc_mtu conf1
                  then conf1\<lparr>pc_tx_off := pc_tx_off conf1 OR se_multi_segs E\<rparr> else conf1))"

section \<open>Memory and lookup tables\<close>

definition socket_of :: "setup_env \<Rightarrow> cfg \<Rightarrow> nat \<Rightarrow> nat" where
  "socket_of E c lcore = (if c_numa c then se_socket E lcore else 0)"

definition init_pool :: "setup_env \<Rightarrow> nat \<Rightarrow> u32 \<Rightarrow> nat \<Rightarrow> sstate \<Rightarrow> string + sstate" where
  "init_pool E portid nb_mbuf socketid s =
     (if ss_pools s portid socketid then Inr s
      else if \<not> se_pool_create E portid socketid nb_mbuf then Inl ''Cannot init mbuf pool''
      else let s1 = s\<lparr>ss_pools := (ss_pools s)(portid := (ss_pools s portid)(socketid := True)),
                      ss_trace := ss_trace s @ [Pool portid socketid]\<rparr>
           in Inr (if ss_lkp s1 socketid then s1
                   else s1\<lparr>ss_trace := ss_trace s1 @ [Lookup_setup socketid],
                           ss_lkp := (ss_lkp s1)(socketid := True)\<rparr>))"

definition init_vec_pool :: "setup_env \<Rightarrow> cfg \<Rightarrow> nat \<Rightarrow> u32 \<Rightarrow> nat \<Rightarrow> sstate \<Rightarrow> string + sstate" where
  "init_vec_pool E c portid nb_mbuf socketid s =
     (if ev_vector_enabled (c_evt c) \<and> \<not> ss_vec_pools s portid then
        let vs = ucast (ev_vector_size (c_evt c)) :: u32;
            nb_vec = max 512 ((nb_mbuf + vs - 1) div vs) + of_nat (se_lcore_count E) * 32
        in if \<not> se_vec_create E portid socketid nb_vec then Inl ''Failed to create vector pool''
           else Inr (s\<lparr>ss_vec_pools := (ss_vec_pools s)(portid := True)\<rparr>)
      else Inr s)"

definition init_mem_lcore :: "setup_env \<Rightarrow> cfg \<Rightarrow> nat \<Rightarrow> u32 \<Rightarrow> nat \<Rightarrow> sstate \<Rightarrow> string + sstate" where
  "init_mem_lcore E c portid nb_mbuf lcore s =
     (if \<not> se_lcore_enabled E lcore then Inr s
      else let socketid = socket_of E c lcore
           in if NB_SOCKETS \<le> socketid then Inl ''Socket out of range''
              else case init_pool E portid nb_mbuf socketid s of
                     Inl e \<Rightarrow> Inl e
                   | Inr s1 \<Rightarrow>
                       (case init_vec_pool E c portid nb_mbuf socketid s1 of
                          Inl e \<Rightarrow> Inl e
                        | Inr s2 \<Rightarrow> Inr (s2\<lparr>ss_lcores := (ss_lcores s2)(lcore :=
                              (ss_lcores s2 lcore)\<lparr>lc_lookup := Some socketid\<rparr>)\<rparr>)))"

definition init_mem :: "setup_env \<Rightarrow> cfg \<Rightarrow> nat \<Rightarrow> u32 \<Rightarrow> sstate \<Rightarrow> string + sstate" where
  "init_mem E c portid nb_mbuf s = foldM (init_mem_lcore E c portid nb_mbuf) [0..<se_max_lcore E] s"

section \<open>One port\<close>

definition NB_MBUF :: "setup_env \<Rightarrow> u32 \<Rightarrow> nat \<Rightarrow> nat \<Rightarrow> u16 \<Rightarrow> u16 \<Rightarrow> u32" where
  "NB_MBUF E nports nb_rx_queue n_tx_queue rxd txd =
     max (nports * of_nat nb_rx_queue * ucast rxd
          + nports * of_nat (se_lcore_count E) * of_nat MAX_PKT_BURST
          + nports * of_nat n_tx_queue * ucast txd
          + of_nat (se_lcore_count E) * se_cache_size E) 8192"

definition port_conf_of :: "setup_env \<Rightarrow> cfg \<Rightarrow> port_conf" where
  "port_conf_of E c = \<lparr>pc_mtu = 0, pc_rx_off = se_rx_checksum E, pc_tx_off = 0, pc_rss_hf = c_rss_hf c, pc_mq_rss = True\<rparr>"

text \<open>The configuration of a port from what its device can do.\<close>

definition local_conf :: "setup_env \<Rightarrow> cfg \<Rightarrow> dev_info \<Rightarrow> port_conf \<Rightarrow> port_conf" where
  "local_conf E c di conf =
     (let c1 = (if di_tx_capa di AND se_fast_free E \<noteq> 0
                then conf\<lparr>pc_tx_off := pc_tx_off conf OR se_fast_free E\<rparr> else conf);
          c2 = c1\<lparr>pc_rss_hf := pc_rss_hf c1 AND di_rss di\<rparr>;
          c3 = (if c_disable_rss c \<or> di_max_rx_queues di = 1 then c2\<lparr>pc_mq_rss := False\<rparr> else c2)
      in if pc_rx_off c3 AND di_rx_capa di \<noteq> pc_rx_off c3 \<and> c_relax c
         then c3\<lparr>pc_rx_off := pc_rx_off c3 AND di_rx_capa di\<rparr> else c3)"

text \<open>One transmit queue for every lcore; the first component is \<open>queueid\<close>.\<close>

definition tx_queue_step :: "setup_env \<Rightarrow> cfg \<Rightarrow> nat \<Rightarrow> u64 \<Rightarrow> nat \<Rightarrow> nat \<times> sstate \<Rightarrow> string + nat \<times> sstate" where
  "tx_queue_step E c portid offloads lcore st =
     (let (queueid, s) = st
      in if \<not> se_lcore_enabled E lcore then Inr st
         else let socketid = socket_of E c lcore mod 256
              in if \<not> se_txq E portid queueid (ss_txd s) socketid offloads then Inl ''rte_eth_tx_queue_setup''
                 else let q = ss_lcores s lcore;
                          q1 = q\<lparr>lc_tx_queue := (lc_tx_queue q)(portid := of_nat queueid),
                                 lc_tx_ports := lc_tx_ports q @ [of_nat portid]\<rparr>
                      in Inr (queueid + 1, s\<lparr>ss_lcores := (ss_lcores s)(lcore := q1),
                                ss_trace := ss_trace s @ [Tx_queue portid queueid socketid]\<rparr>))"

definition tx_queues :: "setup_env \<Rightarrow> cfg \<Rightarrow> nat \<Rightarrow> u64 \<Rightarrow> sstate \<Rightarrow> string + sstate" where
  "tx_queues E c portid offloads s =
     (case foldM (tx_queue_step E c portid offloads) [0..<se_max_lcore E] (0, s) of
        Inl e \<Rightarrow> Inl e | Inr (_, s1) \<Rightarrow> Inr s1)"

text \<open>Configuring the device: the first half of the body of the port loop, up to the source
  address in \<open>val_eth\<close>. The result carries \<open>nb_rx_queue\<close>, \<open>n_tx_queue\<close> and the transmit
  offloads for the second half.\<close>

definition configure_port :: "setup_env \<Rightarrow> cfg \<Rightarrow> nat \<Rightarrow> sstate \<Rightarrow> string + nat \<times> nat \<times> u64 \<times> sstate" where
  "configure_port E c portid s =
     (case get_port_n_rx_queues portid (active_params c) of
        None \<Rightarrow> Inl ''queue ids of the port must be in sequence''
      | Some nb_rx_queue \<Rightarrow>
     (case se_dev_info E portid of
        None \<Rightarrow> Inl ''Error during getting device info''
      | Some di \<Rightarrow>
        let n_tx_queue = min (se_lcore_count E) (se_max_lcore E);
            (ret, conf) = config_port_max_pkt_len E (c_max_pkt_len c) (port_conf_of E c) di;
            conf1 = local_conf E c di conf
        in if ret \<noteq> 0 then Inl ''Invalid max packet length''
           else if \<not> se_configure E portid nb_rx_queue n_tx_queue conf1 then Inl ''Cannot configure device''
           else case se_adjust E portid (ss_rxd s) (ss_txd s) of
                  None \<Rightarrow> Inl ''Cannot adjust number of descriptors''
                | Some (rxd, txd) \<Rightarrow>
                    (case se_mac E portid of
                       None \<Rightarrow> Inl ''Cannot get MAC address''
                     | Some mac \<Rightarrow>
                         Inr (nb_rx_queue, n_tx_queue, pc_tx_off conf1,
                              s\<lparr>ss_rxd := rxd, ss_txd := txd, ss_macs := (ss_macs s)(portid := mac),
                                ss_val_eth := (ss_val_eth s)(portid := take 6 (ss_val_eth s portid) @ mac
                                                               @ drop 12 (ss_val_eth s portid)),
                                ss_trace := ss_trace s @ [Configure portid nb_rx_queue n_tx_queue conf1]\<rparr>))))"

definition setup_port :: "setup_env \<Rightarrow> cfg \<Rightarrow> nat \<Rightarrow> sstate \<Rightarrow> string + sstate" where
  "setup_port E c portid s =
     (if \<not> in_mask (c_port_mask c) portid then Inr s
      else case configure_port E c portid s of
             Inl e \<Rightarrow> Inl e
           | Inr (nb_rx_queue, n_tx_queue, offloads, s1) \<Rightarrow>
               (case (if \<not> c_per_port_pool c
                      then init_mem E c 0 (NB_MBUF E (of_nat (length (se_ports E))) nb_rx_queue n_tx_queue
                                             (ss_rxd s1) (ss_txd s1)) s1
                      else init_mem E c portid (NB_MBUF E 1 nb_rx_queue n_tx_queue (ss_rxd s1) (ss_txd s1)) s1) of
                  Inl e \<Rightarrow> Inl e
                | Inr s2 \<Rightarrow> tx_queues E c portid offloads s2))"

section \<open>Receive queues and the whole set-up\<close>

definition rx_queue_step :: "setup_env \<Rightarrow> cfg \<Rightarrow> nat \<Rightarrow> u16 \<times> u16 \<Rightarrow> sstate \<Rightarrow> string + sstate" where
  "rx_queue_step E c lcore pq s =
     (let portid = unat (fst pq); queueid = unat (snd pq);
          socketid = socket_of E c lcore mod 256;
          pool = (if \<not> c_per_port_pool c then (0, socketid) else (portid, socketid))
      in case se_dev_info E portid of
           None \<Rightarrow> Inl ''Error during getting device info''
         | Some _ \<Rightarrow>
             (case se_rx_offloads E portid of
                None \<Rightarrow> Inl ''Error during getting device configuration''
              | Some offloads \<Rightarrow>
                  if \<not> se_rxq E portid queueid (ss_rxd s) socketid offloads pool then Inl ''rte_eth_rx_queue_setup''
                  else Inr (s\<lparr>ss_trace := ss_trace s @ [Rx_queue portid queueid socketid pool]\<rparr>)))"

definition rx_queues_lcore :: "setup_env \<Rightarrow> cfg \<Rightarrow> nat \<Rightarrow> sstate \<Rightarrow> string + sstate" where
  "rx_queues_lcore E c lcore s =
     (if \<not> se_lcore_enabled E lcore then Inr s
      else foldM (rx_queue_step E c lcore) (lc_rx (ss_lcores s lcore)) s)"

definition init_sstate :: "cfg \<Rightarrow> sstate" where
  "init_sstate c = \<lparr>ss_lcores = (\<lambda>_. lconf0), ss_rxd = c_rxd c, ss_txd = c_txd c, ss_macs = (\<lambda>_. replicate 6 0),
     ss_val_eth = c_val_eth c, ss_pools = (\<lambda>_ _. False), ss_vec_pools = (\<lambda>_. False), ss_lkp = (\<lambda>_. False), ss_trace = []\<rparr>"

definition l3fwd_poll_resource_setup :: "setup_env \<Rightarrow> cfg \<Rightarrow> sstate \<Rightarrow> string + sstate" where
  "l3fwd_poll_resource_setup E c s =
     (let ps = active_params c
      in if check_lcore_params E ps < 0 then Inl ''check_lcore_params failed''
         else let (ret, lc) = init_lcore_rx_queues ps (ss_lcores s)
              in if ret < 0 then Inl ''init_lcore_rx_queues failed''
                 else if check_port_config E (c_port_mask c) ps < 0 then Inl ''check_port_config failed''
                 else case foldM (setup_port E c) (se_ports E) (s\<lparr>ss_lcores := lc\<rparr>) of
                        Inl e \<Rightarrow> Inl e
                      | Inr s1 \<Rightarrow> foldM (rx_queues_lcore E c) [0..<se_max_lcore E] s1)"

section \<open>Receive queues of the lcores\<close>

abbreviation queue_of :: "lcore_params \<Rightarrow> u16 \<times> u16" where
  "queue_of p \<equiv> (lp_port p, lp_queue p)"

definition queues_of :: "lcore_params list \<Rightarrow> nat \<Rightarrow> (u16 \<times> u16) list" where
  "queues_of ps l = map queue_of (filter (\<lambda>p. unat (lp_lcore p) = l) ps)"

lemma init_lcore_rx_queues_ok:
  assumes "init_lcore_rx_queues ps lc = (ret, lc')" and "\<not> ret < 0"
    and "\<And>l. length (lc_rx (lc l)) \<le> MAX_RX_QUEUE_PER_LCORE"
  shows "lc' l = (lc l)\<lparr>lc_rx := lc_rx (lc l) @ queues_of ps l\<rparr> \<and> length (lc_rx (lc' l)) \<le> MAX_RX_QUEUE_PER_LCORE"
  using assms
proof (induction ps arbitrary: lc)
  case Nil
  then show ?case by (simp add: queues_of_def)
next
  case (Cons p ps)
  let ?l = "unat (lp_lcore p)"
  let ?lc = "lc(?l := (lc ?l)\<lparr>lc_rx := lc_rx (lc ?l) @ [queue_of p]\<rparr>)"
  have n: "length (lc_rx (lc ?l)) < MAX_RX_QUEUE_PER_LCORE" and i: "init_lcore_rx_queues ps ?lc = (ret, lc')"
    using Cons.prems(1,2) by (auto simp: Let_def split: if_splits)
  have "length (lc_rx (?lc k)) \<le> MAX_RX_QUEUE_PER_LCORE" for k
    using Cons.prems(3) n by simp
  from Cons.IH [OF i Cons.prems(2) this] show ?case
    by (cases "l = ?l") (auto simp: queues_of_def)
qed

lemma rx_queues_loop_seq:
  "rx_queues_loop port ps q = Some r \<Longrightarrow>
    map (\<lambda>p. uint (lp_queue p)) (filter (\<lambda>p. unat (lp_port p) = port) ps) = [q + 1..r] \<and> q \<le> r"
proof (induction ps arbitrary: q)
  case (Cons p ps)
  show ?case
  proof (cases "unat (lp_port p) = port")
    case True
    then have q: "uint (lp_queue p) = q + 1" and r: "rx_queues_loop port ps (q + 1) = Some r"
      using Cons.prems by (auto split: if_splits)
    have "[q + 1..r] = (q + 1) # [q + 1 + 1..r]" using Cons.IH [OF r] by (simp add: upto_rec1)
    then show ?thesis using Cons.IH [OF r] True q by simp
  next
    case False
    then show ?thesis using Cons by simp
  qed
qed simp

lemma port_queues_distinct:
  assumes "get_port_n_rx_queues (unat k) ps = Some n"
  shows "distinct (map snd (filter (\<lambda>x. fst x = k) (map queue_of ps)))"
proof -
  obtain r where r: "rx_queues_loop (unat k) ps (- 1) = Some r"
    using assms by (auto simp: get_port_n_rx_queues_def)
  have f: "filter (\<lambda>x. fst x = k) (map queue_of ps) = map queue_of (filter (\<lambda>p. unat (lp_port p) = unat k) ps)"
    by (simp add: filter_map comp_def word_unat_eq_iff)
  have "distinct (map uint (map snd (filter (\<lambda>x. fst x = k) (map queue_of ps))))"
    unfolding f using rx_queues_loop_seq [OF r] by (simp add: comp_def)
  then show ?thesis by (rule distinct_map [THEN iffD1, THEN conjunct1])
qed

lemma queues_distinct:
  assumes "\<And>p. p \<in> set ps \<Longrightarrow> \<exists>n. get_port_n_rx_queues (unat (lp_port p)) ps = Some n"
  shows "distinct (map queue_of ps)"
proof (rule distinct_by_key)
  fix k
  show "distinct (map snd (filter (\<lambda>x. fst x = k) (map queue_of ps)))"
  proof (cases "\<exists>p \<in> set ps. lp_port p = k")
    case True
    then show ?thesis using assms port_queues_distinct by blast
  next
    case False
    then have "filter (\<lambda>x. fst x = k) (map queue_of ps) = []" by (auto simp: filter_empty_conv)
    then show ?thesis by simp
  qed
qed

lemma queues_of_disjoint:
  assumes "distinct (map queue_of ps)" and "l \<noteq> l'"
  shows "set (queues_of ps l) \<inter> set (queues_of ps l') = {}" and "distinct (queues_of ps l)"
proof -
  have "inj_on queue_of (set ps)" using assms(1) by (simp only: distinct_map)
  then show "set (queues_of ps l) \<inter> set (queues_of ps l') = {}"
    using assms(2) by (auto simp: queues_of_def dest: inj_onD)
  show "distinct (queues_of ps l)"
    using assms(1) by (simp add: queues_of_def distinct_map_filter)
qed

lemma check_lcore_params_ok:
  "\<not> check_lcore_params E ps < 0 \<longleftrightarrow>
    (\<forall>p \<in> set ps. unat (lp_queue p) < MAX_RX_QUEUE_PER_PORT \<and> se_lcore_enabled E (unat (lp_lcore p)))"
  by (induction ps) auto

lemma check_port_config_ok:
  "\<not> check_port_config E m ps < 0 \<longleftrightarrow>
    (\<forall>p \<in> set ps. in_mask m (unat (lp_port p)) \<and> se_valid_port E (unat (lp_port p)))"
  by (induction ps) auto

section \<open>Lookup tables, once for every socket\<close>

definition lookup_setups :: "dev_call list \<Rightarrow> nat list" where
  "lookup_setups tr = List.map_filter (\<lambda>x. case x of Lookup_setup k \<Rightarrow> Some k | _ \<Rightarrow> None) tr"

lemma lookup_setups_app [simp]: "lookup_setups (a @ b) = lookup_setups a @ lookup_setups b"
  by (simp add: lookup_setups_def map_filter_def)

lemma lookup_setups_Cons [simp]:
  "lookup_setups [] = []"
  "lookup_setups (Lookup_setup k # tr) = k # lookup_setups tr"
  "lookup_setups (Pool p q # tr) = lookup_setups tr"
  "lookup_setups (Tx_queue p q r # tr) = lookup_setups tr"
  "lookup_setups (Rx_queue p q r x # tr) = lookup_setups tr"
  "lookup_setups (Configure p q r cf # tr) = lookup_setups tr"
  by (simp_all add: lookup_setups_def map_filter_def)

definition mem_inv :: "sstate \<Rightarrow> bool" where
  "mem_inv s \<longleftrightarrow> distinct (lookup_setups (ss_trace s))
     \<and> (\<forall>k. k \<in> set (lookup_setups (ss_trace s)) \<longleftrightarrow> ss_lkp s k)
     \<and> (\<forall>p k. ss_pools s p k \<longrightarrow> ss_lkp s k)
     \<and> (\<forall>l k. lc_lookup (ss_lcores s l) = Some k \<longrightarrow> ss_lkp s k)"

definition same_macs :: "sstate \<Rightarrow> sstate \<Rightarrow> bool" where
  "same_macs s s' \<longleftrightarrow> ss_macs s' = ss_macs s \<and> ss_val_eth s' = ss_val_eth s"

definition set_lookup :: "setup_env \<Rightarrow> cfg \<Rightarrow> nat \<Rightarrow> lconf \<Rightarrow> lconf" where
  "set_lookup E c l q = q\<lparr>lc_lookup := Some (socket_of E c l)\<rparr>"

lemma init_pool_effect:
  assumes "init_pool E p n k s = Inr s'" and "mem_inv s"
  shows "mem_inv s' \<and> ss_lcores s' = ss_lcores s \<and> same_macs s s' \<and> ss_lkp s' k"
  using assms by (auto simp: init_pool_def mem_inv_def same_macs_def Let_def split: if_splits)

lemma init_vec_pool_effect:
  assumes "init_vec_pool E c p n k s = Inr s'" and "mem_inv s"
  shows "mem_inv s' \<and> ss_lcores s' = ss_lcores s \<and> same_macs s s' \<and> ss_lkp s' = ss_lkp s"
  using assms by (auto simp: init_vec_pool_def mem_inv_def same_macs_def Let_def split: if_splits)

lemma init_mem_lcore_effect:
  assumes "init_mem_lcore E c p n l s = Inr s'" and "mem_inv s"
  shows "mem_inv s' \<and> same_macs s s'
    \<and> ss_lcores s' = (if se_lcore_enabled E l then (ss_lcores s)(l := set_lookup E c l (ss_lcores s l)) else ss_lcores s)"
proof (cases "se_lcore_enabled E l")
  case False
  then show ?thesis using assms by (auto simp: init_mem_lcore_def same_macs_def)
next
  case True
  let ?k = "socket_of E c l"
  obtain s1 s2 where 1: "init_pool E p n ?k s = Inr s1" and 2: "init_vec_pool E c p n ?k s1 = Inr s2"
    and s': "s' = s2\<lparr>ss_lcores := (ss_lcores s2)(l := (ss_lcores s2 l)\<lparr>lc_lookup := Some ?k\<rparr>)\<rparr>"
    using assms(1) True by (auto simp: init_mem_lcore_def Let_def split: if_splits sum.splits)
  from init_pool_effect [OF 1 assms(2)] init_vec_pool_effect [OF 2] True show ?thesis
    by (auto simp: s' mem_inv_def same_macs_def set_lookup_def)
qed

lemma init_mem_effect:
  assumes "init_mem E c p n s = Inr s'" and "mem_inv s"
  shows "mem_inv s' \<and> same_macs s s' \<and> (\<forall>l. ss_lcores s' l =
    (if l < se_max_lcore E \<and> se_lcore_enabled E l then set_lookup E c l (ss_lcores s l) else ss_lcores s l))"
proof -
  let ?P = "\<lambda>ys t. mem_inv t \<and> same_macs s t \<and> (\<forall>l. ss_lcores t l =
    (if l \<in> set ys \<and> se_lcore_enabled E l then set_lookup E c l (ss_lcores s l) else ss_lcores s l))"
  have "?P [0..<se_max_lcore E] s'"
  proof (rule foldM_passes [where P = ?P and f = "init_mem_lcore E c p n" and s = s])
    show "foldM (init_mem_lcore E c p n) [0..<se_max_lcore E] s = Inr s'"
      using assms(1) by (simp add: init_mem_def)
    show "?P [] s" using assms(2) by (simp add: same_macs_def)
  next
    fix ys y zs s1 s2
    assume e: "[0..<se_max_lcore E] = ys @ y # zs" and P: "?P ys s1" and f: "init_mem_lcore E c p n y s1 = Inr s2"
    have y: "y \<notin> set ys" using upt_split [OF e] by auto
    show "?P (ys @ [y]) s2"
      using init_mem_lcore_effect [OF f] P y by (auto simp: same_macs_def)
  qed
  then show ?thesis by simp
qed

section \<open>Transmit queues\<close>

text \<open>The number of enabled lcores below \<open>l\<close>: the transmit queue \<open>l\<close> gets on every port.\<close>

definition rank :: "setup_env \<Rightarrow> nat \<Rightarrow> nat" where
  "rank E l = length (filter (se_lcore_enabled E) [0..<l])"

definition add_tx :: "setup_env \<Rightarrow> nat \<Rightarrow> nat \<Rightarrow> lconf \<Rightarrow> lconf" where
  "add_tx E p l q = q\<lparr>lc_tx_queue := (lc_tx_queue q)(p := of_nat (rank E l)), lc_tx_ports := lc_tx_ports q @ [of_nat p]\<rparr>"

lemma rank_less:
  assumes "l < l'" and "se_lcore_enabled E l" shows "rank E l < rank E l'"
proof -
  have "[0..<l'] = [0..<l] @ l # [Suc l..<l']" using assms(1)
    by (metis append_Cons append_Nil le_add1 less_imp_add_positive upt_add_eq_append upt_conv_Cons less_or_eq_imp_le le0)
  then show ?thesis using assms(2) by (simp add: rank_def)
qed

lemma rank_le: "rank E l \<le> l"
  using length_filter_le [of "se_lcore_enabled E" "[0..<l]"] by (simp add: rank_def)

lemma tx_queues_effect:
  assumes "tx_queues E c p off s = Inr s'" and "mem_inv s"
  shows "mem_inv s' \<and> same_macs s s' \<and> (\<forall>l. ss_lcores s' l =
    (if l < se_max_lcore E \<and> se_lcore_enabled E l then add_tx E p l (ss_lcores s l) else ss_lcores s l))"
proof -
  let ?P = "\<lambda>ys (q, t). q = length (filter (se_lcore_enabled E) ys) \<and> mem_inv t \<and> same_macs s t \<and> (\<forall>l. ss_lcores t l =
    (if l \<in> set ys \<and> se_lcore_enabled E l then add_tx E p l (ss_lcores s l) else ss_lcores s l))"
  obtain q where f: "foldM (tx_queue_step E c p off) [0..<se_max_lcore E] (0, s) = Inr (q, s')"
    using assms(1) by (auto simp: tx_queues_def split: sum.splits)
  have "?P [0..<se_max_lcore E] (q, s')"
  proof (rule foldM_passes [where P = ?P, OF f])
    show "?P [] (0, s)" using assms(2) by (simp add: same_macs_def)
  next
    fix ys y zs st1 st2
    assume e: "[0..<se_max_lcore E] = ys @ y # zs" and P: "?P ys st1" and st: "tx_queue_step E c p off y st1 = Inr st2"
    obtain q1 s1 where 1: "st1 = (q1, s1)" by fastforce
    have y: "y \<notin> set ys" and q1: "q1 = rank E y" using upt_split [OF e] P by (auto simp: 1 rank_def)
    show "?P (ys @ [y]) st2"
    proof (cases "se_lcore_enabled E y")
      case False
      then have "st2 = st1" using st by (simp add: tx_queue_step_def 1)
      then show ?thesis using P y False by (auto simp: 1)
    next
      case True
      obtain k where 2: "st2 = (q1 + 1, s1\<lparr>ss_lcores := (ss_lcores s1)(y := add_tx E p y (ss_lcores s1 y)),
                                ss_trace := ss_trace s1 @ [Tx_queue p q1 k]\<rparr>)"
        using st True by (auto simp: tx_queue_step_def 1 Let_def q1 add_tx_def split: if_splits)
      have "mem_inv (s1\<lparr>ss_lcores := (ss_lcores s1)(y := add_tx E p y (ss_lcores s1 y)),
          ss_trace := ss_trace s1 @ [Tx_queue p q1 k]\<rparr>)" if "mem_inv s1"
        using that by (auto simp: mem_inv_def add_tx_def)
      then show ?thesis using P y True
        by (auto simp: 1 2 same_macs_def)
    qed
  qed
  then show ?thesis by simp
qed

section \<open>The port loop\<close>

definition set_src :: "u8 list \<Rightarrow> u8 list \<Rightarrow> u8 list" where
  "set_src ve mac = take 6 ve @ mac @ drop 12 ve"

text \<open>What the set-up of port \<open>p\<close> does to an lcore.\<close>

definition port_lcore :: "setup_env \<Rightarrow> cfg \<Rightarrow> nat \<Rightarrow> nat \<Rightarrow> lconf \<Rightarrow> lconf" where
  "port_lcore E c p l q =
     (if l < se_max_lcore E \<and> se_lcore_enabled E l then add_tx E p l (set_lookup E c l q) else q)"

lemma configure_port_effect:
  assumes "configure_port E c p s = Inr (nrx, ntx, off, s')" and "mem_inv s"
  shows "\<exists>mac. get_port_n_rx_queues p (active_params c) = Some nrx \<and> se_mac E p = Some mac \<and> mem_inv s'
    \<and> ss_lcores s' = ss_lcores s \<and> ss_macs s' = (ss_macs s)(p := mac)
    \<and> ss_val_eth s' = (ss_val_eth s)(p := set_src (ss_val_eth s p) mac)"
proof -
  from assms(1) obtain di mac where n: "get_port_n_rx_queues p (active_params c) = Some nrx"
    and d: "se_dev_info E p = Some di" and m: "se_mac E p = Some mac"
    by (auto simp: configure_port_def Let_def split: option.splits prod.splits if_splits)
  from assms show ?thesis
    by (auto simp: configure_port_def n d m Let_def mem_inv_def set_src_def split: option.splits prod.splits if_splits)
qed

lemma setup_port_effect:
  assumes "setup_port E c p s = Inr s'" and "in_mask (c_port_mask c) p" and "mem_inv s"
  shows "\<exists>n mac. get_port_n_rx_queues p (active_params c) = Some n \<and> se_mac E p = Some mac \<and> mem_inv s'
    \<and> (\<forall>l. ss_lcores s' l = port_lcore E c p l (ss_lcores s l)) \<and> ss_macs s' = (ss_macs s)(p := mac)
    \<and> ss_val_eth s' = (ss_val_eth s)(p := set_src (ss_val_eth s p) mac)"
proof -
  from assms(1,2) obtain nrx ntx off s1 s2 pp n where
      1: "configure_port E c p s = Inr (nrx, ntx, off, s1)"
    and 2: "init_mem E c pp n s1 = Inr s2" and 3: "tx_queues E c p off s2 = Inr s'"
    by (auto simp: setup_port_def split: sum.splits if_splits)
  from configure_port_effect [OF 1 assms(3)] obtain mac where
    c: "get_port_n_rx_queues p (active_params c) = Some nrx" "se_mac E p = Some mac" "mem_inv s1"
       "ss_lcores s1 = ss_lcores s" "ss_macs s1 = (ss_macs s)(p := mac)"
       "ss_val_eth s1 = (ss_val_eth s)(p := set_src (ss_val_eth s p) mac)" by blast
  note i = init_mem_effect [OF 2 c(3)]
  note t = tx_queues_effect [OF 3 i [THEN conjunct1]]
  from c i t show ?thesis by (auto simp: same_macs_def port_lcore_def)
qed

text \<open>The state after the ports \<open>ys\<close>.\<close>

definition ports_done :: "setup_env \<Rightarrow> cfg \<Rightarrow> (nat \<Rightarrow> lconf) \<Rightarrow> (nat \<Rightarrow> u8 list) \<Rightarrow> nat list \<Rightarrow> sstate \<Rightarrow> bool" where
  "ports_done E c lc0 ve0 ys s \<longleftrightarrow> mem_inv s
     \<and> (\<forall>l. ss_lcores s l = fold (\<lambda>p. port_lcore E c p l) (filter (in_mask (c_port_mask c)) ys) (lc0 l))
     \<and> (\<forall>p. ss_val_eth s p = (if p \<in> set ys \<and> in_mask (c_port_mask c) p then set_src (ve0 p) (ss_macs s p) else ve0 p))
     \<and> (\<forall>p \<in> set ys. in_mask (c_port_mask c) p \<longrightarrow>
          se_mac E p = Some (ss_macs s p) \<and> (\<exists>n. get_port_n_rx_queues p (active_params c) = Some n))"

lemma ports_loop:
  assumes f: "foldM (setup_port E c) ps s = Inr s'" and "distinct ps" and "mem_inv s"
  shows "ports_done E c (ss_lcores s) (ss_val_eth s) ps s'"
proof (rule foldM_passes [where P = "ports_done E c (ss_lcores s) (ss_val_eth s)", OF f])
  show "ports_done E c (ss_lcores s) (ss_val_eth s) [] s"
    using assms(3) by (simp add: ports_done_def)
next
  fix ys y zs s1 s2
  assume e: "ps = ys @ y # zs" and P: "ports_done E c (ss_lcores s) (ss_val_eth s) ys s1"
    and st: "setup_port E c y s1 = Inr s2"
  have y: "y \<notin> set ys" using assms(2) e by simp
  show "ports_done E c (ss_lcores s) (ss_val_eth s) (ys @ [y]) s2"
  proof (cases "in_mask (c_port_mask c) y")
    case False
    then have "s2 = s1" using st by (simp add: setup_port_def)
    then show ?thesis using P False by (auto simp: ports_done_def)
  next
    case True
    have "mem_inv s1" using P by (simp add: ports_done_def)
    from setup_port_effect [OF st True this] obtain n mac where
      q: "get_port_n_rx_queues y (active_params c) = Some n" "se_mac E y = Some mac" "mem_inv s2"
         "\<forall>l. ss_lcores s2 l = port_lcore E c y l (ss_lcores s1 l)" "ss_macs s2 = (ss_macs s1)(y := mac)"
         "ss_val_eth s2 = (ss_val_eth s1)(y := set_src (ss_val_eth s1 y) mac)" by blast
    then show ?thesis using P y True by (auto simp: ports_done_def)
  qed
qed

lemma fold_port_lcore:
  "l < se_max_lcore E \<Longrightarrow> se_lcore_enabled E l \<Longrightarrow>
    lc_rx (fold (\<lambda>p. port_lcore E c p l) ps q) = lc_rx q
    \<and> lc_tx_ports (fold (\<lambda>p. port_lcore E c p l) ps q) = lc_tx_ports q @ map of_nat ps
    \<and> (\<forall>p. lc_tx_queue (fold (\<lambda>p. port_lcore E c p l) ps q) p
          = (if p \<in> set ps then of_nat (rank E l) else lc_tx_queue q p))
    \<and> lc_lookup (fold (\<lambda>p. port_lcore E c p l) ps q) = (if ps = [] then lc_lookup q else Some (socket_of E c l))"
  by (induction ps arbitrary: q) (auto simp: port_lcore_def add_tx_def set_lookup_def)

lemma fold_port_lcore_off:
  "\<not> (l < se_max_lcore E \<and> se_lcore_enabled E l) \<Longrightarrow> fold (\<lambda>p. port_lcore E c p l) ps q = q"
  by (induction ps arbitrary: q) (auto simp: port_lcore_def)

lemma rx_queues_effect:
  assumes "foldM (rx_queues_lcore E c) ls s = Inr s'" and "mem_inv s"
  shows "mem_inv s' \<and> ss_lcores s' = ss_lcores s \<and> same_macs s s'"
proof (rule foldM_inv [where I = "\<lambda>t. mem_inv t \<and> ss_lcores t = ss_lcores s \<and> same_macs s t", OF assms(1)])
  show "mem_inv s \<and> ss_lcores s = ss_lcores s \<and> same_macs s s" using assms(2) by (simp add: same_macs_def)
next
  fix l s1 s2
  assume I: "mem_inv s1 \<and> ss_lcores s1 = ss_lcores s \<and> same_macs s s1" and f: "rx_queues_lcore E c l s1 = Inr s2"
  show "mem_inv s2 \<and> ss_lcores s2 = ss_lcores s \<and> same_macs s s2"
  proof (cases "se_lcore_enabled E l")
    case False
    then show ?thesis using f I by (simp add: rx_queues_lcore_def)
  next
    case True
    then have "foldM (rx_queue_step E c l) (lc_rx (ss_lcores s1 l)) s1 = Inr s2"
      using f by (simp add: rx_queues_lcore_def)
    then show ?thesis
      by (rule foldM_inv [where I = "\<lambda>t. mem_inv t \<and> ss_lcores t = ss_lcores s \<and> same_macs s t"])
         (use I in \<open>auto simp: rx_queue_step_def Let_def mem_inv_def same_macs_def split: option.splits if_splits\<close>)
  qed
qed


section \<open>The whole set-up\<close>

text \<open>What the libraries promise: the ports are different and valid, the enabled lcores exist and
  are counted, and an Ethernet address has six bytes.\<close>

definition setup_env_ok :: "setup_env \<Rightarrow> bool" where
  "setup_env_ok E \<longleftrightarrow> distinct (se_ports E) \<and> se_max_lcore E \<le> 2 ^ 16
     \<and> se_lcore_count E = rank E (se_max_lcore E)
     \<and> (\<forall>p \<in> set (se_ports E). p < 2 ^ 16)
     \<and> (\<forall>p. se_valid_port E p \<longleftrightarrow> p \<in> set (se_ports E))
     \<and> (\<forall>l. se_lcore_enabled E l \<longrightarrow> l < se_max_lcore E)
     \<and> (\<forall>p mac. se_mac E p = Some mac \<longrightarrow> length mac = 6)"

abbreviation enabled_ports :: "setup_env \<Rightarrow> cfg \<Rightarrow> nat list" where
  "enabled_ports E c \<equiv> filter (in_mask (c_port_mask c)) (se_ports E)"

lemma poll_setup_steps:
  assumes "l3fwd_poll_resource_setup E c (init_sstate c) = Inr s" and "setup_env_ok E"
  obtains lc s1 where "\<not> check_lcore_params E (active_params c) < 0"
    and "\<not> check_port_config E (c_port_mask c) (active_params c) < 0"
    and "\<And>l. lc l = lconf0\<lparr>lc_rx := queues_of (active_params c) l\<rparr> \<and> length (lc_rx (lc l)) \<le> MAX_RX_QUEUE_PER_LCORE"
    and "ports_done E c lc (c_val_eth c) (se_ports E) s1"
    and "mem_inv s" and "ss_lcores s = ss_lcores s1" and "same_macs s1 s"
proof -
  let ?s = "init_sstate c"
  obtain ret lc where i: "init_lcore_rx_queues (active_params c) (ss_lcores ?s) = (ret, lc)" by fastforce
  obtain s1 where a: "\<not> check_lcore_params E (active_params c) < 0" "\<not> ret < 0"
      "\<not> check_port_config E (c_port_mask c) (active_params c) < 0"
    and 1: "foldM (setup_port E c) (se_ports E) (?s\<lparr>ss_lcores := lc\<rparr>) = Inr s1"
    and 2: "foldM (rx_queues_lcore E c) [0..<se_max_lcore E] s1 = Inr s"
    using assms(1) by (auto simp: l3fwd_poll_resource_setup_def i Let_def split: if_splits sum.splits)
  have q: "lc l = lconf0\<lparr>lc_rx := queues_of (active_params c) l\<rparr> \<and> length (lc_rx (lc l)) \<le> MAX_RX_QUEUE_PER_LCORE" for l
  proof -
    have r: "lc_rx lconf0 = []" by (simp add: lconf0_def)
    have "length (lc_rx (ss_lcores ?s k)) \<le> MAX_RX_QUEUE_PER_LCORE" for k by (simp add: init_sstate_def r)
    from init_lcore_rx_queues_ok [OF i a(2) this, of l] show ?thesis by (auto simp: init_sstate_def r)
  qed
  have "lc_lookup (lc l) = None" for l using q [of l] by (simp add: lconf0_def)
  then have m: "mem_inv (?s\<lparr>ss_lcores := lc\<rparr>)" by (simp add: mem_inv_def init_sstate_def)
  have "distinct (se_ports E)" using assms(2) by (simp add: setup_env_ok_def)
  from ports_loop [OF 1 this m] have d: "ports_done E c lc (c_val_eth c) (se_ports E) s1"
    by (simp add: init_sstate_def)
  then have "mem_inv s1" by (simp add: ports_done_def)
  from rx_queues_effect [OF 2 this] show ?thesis using that [OF a(1,3) q d] by blast
qed

lemma active_ports_valid:
  assumes "\<not> check_port_config E (c_port_mask c) ps < 0" and "setup_env_ok E" and "p \<in> set ps"
  shows "unat (lp_port p) \<in> set (enabled_ports E c)"
  using assms by (auto simp: check_port_config_ok setup_env_ok_def)

lemma poll_setup_rx:
  assumes "l3fwd_poll_resource_setup E c (init_sstate c) = Inr s" and "setup_env_ok E"
  shows "lc_rx (ss_lcores s l) = queues_of (active_params c) l
    \<and> length (lc_rx (ss_lcores s l)) \<le> MAX_RX_QUEUE_PER_LCORE \<and> distinct (map queue_of (active_params c))"
proof -
  obtain lc s1 where a: "\<not> check_port_config E (c_port_mask c) (active_params c) < 0"
    and q: "\<And>l. lc l = lconf0\<lparr>lc_rx := queues_of (active_params c) l\<rparr> \<and> length (lc_rx (lc l)) \<le> MAX_RX_QUEUE_PER_LCORE"
    and d: "ports_done E c lc (c_val_eth c) (se_ports E) s1" and e: "ss_lcores s = ss_lcores s1"
    using poll_setup_steps [OF assms] by metis
  have l: "ss_lcores s l = fold (\<lambda>p. port_lcore E c p l) (enabled_ports E c) (lc l)"
    using d by (simp add: e ports_done_def)
  have "lc_rx (ss_lcores s l) = lc_rx (lc l)"
    unfolding l by (cases "l < se_max_lcore E \<and> se_lcore_enabled E l") (simp_all add: fold_port_lcore fold_port_lcore_off)
  moreover have "distinct (map queue_of (active_params c))"
  proof (rule queues_distinct)
    fix p assume "p \<in> set (active_params c)"
    then have "unat (lp_port p) \<in> set (enabled_ports E c)" by (rule active_ports_valid [OF a assms(2)])
    then show "\<exists>n. get_port_n_rx_queues (unat (lp_port p)) (active_params c) = Some n"
      using d by (simp add: ports_done_def)
  qed
  moreover have "lc_rx (lc l) = queues_of (active_params c) l" "length (lc_rx (lc l)) \<le> MAX_RX_QUEUE_PER_LCORE"
    using q [of l] by auto
  ultimately show ?thesis by (simp del: distinct_map)
qed

lemma poll_setup_tx:
  assumes "l3fwd_poll_resource_setup E c (init_sstate c) = Inr s" and "setup_env_ok E"
  shows "if se_lcore_enabled E l
    then lc_tx_ports (ss_lcores s l) = map of_nat (enabled_ports E c)
      \<and> (\<forall>p \<in> set (enabled_ports E c). lc_tx_queue (ss_lcores s l) p = of_nat (rank E l))
      \<and> lc_lookup (ss_lcores s l) = (if enabled_ports E c = [] then None else Some (socket_of E c l))
    else lc_tx_ports (ss_lcores s l) = [] \<and> lc_lookup (ss_lcores s l) = None"
proof -
  obtain lc s1 where 
    q: "\<And>l. lc l = lconf0\<lparr>lc_rx := queues_of (active_params c) l\<rparr> \<and> length (lc_rx (lc l)) \<le> MAX_RX_QUEUE_PER_LCORE"
    and d: "ports_done E c lc (c_val_eth c) (se_ports E) s1" and e: "ss_lcores s = ss_lcores s1"
    using poll_setup_steps [OF assms] by metis
  have l: "ss_lcores s l = fold (\<lambda>p. port_lcore E c p l) (enabled_ports E c) (lc l)"
    using d by (simp add: e ports_done_def)
  have en: "se_lcore_enabled E l \<Longrightarrow> l < se_max_lcore E" using assms(2) by (simp add: setup_env_ok_def)
  have lc: "lc l = lconf0\<lparr>lc_rx := queues_of (active_params c) l\<rparr>" using q by blast
  show ?thesis
  proof (cases "se_lcore_enabled E l")
    case True
    note f = fold_port_lcore [OF en [OF True] True, of c "enabled_ports E c" "lc l"]
    show ?thesis using f True by (simp add: l lc lconf0_def)
  next
    case False
    then show ?thesis using fold_port_lcore_off [of l E c "enabled_ports E c" "lc l"] by (simp add: l lc lconf0_def)
  qed
qed

lemma rank_inj:
  assumes "se_lcore_enabled E l" and "se_lcore_enabled E l'" shows "rank E l = rank E l' \<longleftrightarrow> l = l'"
  using rank_less assms by (metis linorder_neqE_nat nat_neq_iff)

lemma poll_setup_mac:
  assumes "l3fwd_poll_resource_setup E c (init_sstate c) = Inr s" and "setup_env_ok E"
  shows "mem_inv s \<and> (\<forall>p. ss_val_eth s p =
    (if p \<in> set (enabled_ports E c) then set_src (c_val_eth c p) (the (se_mac E p)) else c_val_eth c p))
    \<and> (\<forall>p \<in> set (enabled_ports E c). \<exists>mac. se_mac E p = Some mac)"
proof -
  obtain lc s1 where d: "ports_done E c lc (c_val_eth c) (se_ports E) s1" and e: "mem_inv s" "same_macs s1 s"
    using poll_setup_steps [OF assms] by metis
  then show ?thesis by (auto simp: ports_done_def same_macs_def)
qed

section \<open>What the lcores start from\<close>

text \<open>The globals of \<open>l3fwd.h\<close> after the set-up, and the lcore with its empty transmit buffers: the
  array \<open>m_table\<close> holds anything.\<close>

definition glob_of :: "cfg \<Rightarrow> sstate \<Rightarrow> glob" where
  "glob_of c s = \<lparr>rx_burst_size = c_rx_burst c, tx_burst_size = c_tx_burst c, enabled_port_mask = c_port_mask c,
     dest_eth_addr = (\<lambda>p. c_dest_eth c (unat p)), ports_eth_addr = (\<lambda>p. ss_macs s (unat p)),
     val_eth = (\<lambda>p. ss_val_eth s (unat p))\<rparr>"

definition lcore_of :: "lconf \<Rightarrow> (u16 \<Rightarrow> nat \<Rightarrow> mbuf) \<Rightarrow> lcore" where
  "lcore_of q tab = \<lparr>rx_queue_list = lc_rx q, tx_port_id = lc_tx_ports q,
     tx_queue_id = (\<lambda>p. lc_tx_queue q (unat p)), tb_len = (\<lambda>_. 0), tb_tab = tab,
     wire = [], freed = [], calls = 0, out_of_range = False\<rparr>"

lemma lcore_of_empty: "tx_inv MAX_PKT_BURST (lcore_of q tab) \<and> waiting (lcore_of q tab) = 0"
  by (simp add: lcore_of_def tx_inv_def waiting_def MAX_PKT_BURST_def)

section \<open>A concrete instance\<close>

definition setup_ex :: setup_env where
  "setup_ex = \<lparr> se_max_lcore = 8, se_lcore_enabled = (\<lambda>l. l < 4), se_lcore_count = 4, se_socket = (\<lambda>l. l mod 2),
     se_ports = [0, 1, 2, 3], se_valid_port = (\<lambda>p. p < 4),
     se_dev_info = (\<lambda>_. Some \<lparr>di_max_rx_pktlen = 9728, di_max_mtu = 9710, di_tx_capa = 0, di_rx_capa = 0xe, di_rss = 0x10,
        di_max_rx_queues = 64\<rparr>),
     se_configure = (\<lambda>_ _ _ _. True), se_adjust = (\<lambda>_ a b. Some (a, b)),
     se_mac = (\<lambda>p. Some [0x6c, 0x92, 0xbf, 0x68, 0xe1, of_nat p]),
     se_pool_create = (\<lambda>_ _ _. True), se_vec_create = (\<lambda>_ _ _. True), se_txq = (\<lambda>_ _ _ _ _. True),
     se_rxq = (\<lambda>_ _ _ _ _ _. True), se_rx_offloads = (\<lambda>_. Some 0), se_ether_min_len = 64, se_ether_hdr_crc = 18,
     se_ether_mtu = 1500, se_rx_checksum = 0xe, se_cache_size = 256, se_multi_segs = 0x8000, se_fast_free = 0x10000 \<rparr>"

definition cfg_ex :: cfg where
  "cfg_ex = (init_cfg env_ex 2 0x10)\<lparr>c_port_mask := 0xf, c_lookup := Lookup_lpm\<rparr>"

lemma setup_env_ok_ex: "setup_env_ok setup_ex"
  by (auto simp: setup_env_ok_def setup_ex_def rank_def upt_rec)

lemma parse_portmask_ex: "parse_portmask ''f'' = 0xf"
proof -
  have "dropWhile isspace ''f'' = ''f''" "num_prefix 16 ''f'' = (16, ''f'')" "takeWhile (is_digit 16) ''f'' = ''f''"
    "num_of 16 ''f'' = 15" "code_of CHR ''f'' = 102" by code_simp+
  then show ?thesis by (simp add: parse_portmask_def strtoul_def bad_number_def ULONG_MAX_def)
qed

lemma parse_args_ex: "parse_args env_ex (init_cfg env_ex 2 0x10) [Opt_p ''f'', Opt_lookup ''lpm''] = Goes cfg_ex"
  by (simp add: parse_args_def init_cfg_def parse_lookup_def finish_args_def cfg_ex_def parse_portmask_ex Let_def)

lemma active_params_ex: "active_params cfg_ex = lcore_params_array_default"
  by (simp add: active_params_def cfg_ex_def init_cfg_def)

lemma init_mem_ex: "\<exists>s'. init_mem setup_ex cfg_ex p n s = Inr s'"
  unfolding init_mem_def
proof (rule foldM_total)
  fix l s
  have "l mod 2 < NB_SOCKETS" by (rule order.strict_trans2 [of _ 2]) (simp_all add: NB_SOCKETS_def)
  then show "\<exists>s'. init_mem_lcore setup_ex cfg_ex p n l s = Inr s'"
    by (auto simp: init_mem_lcore_def init_pool_def init_vec_pool_def setup_ex_def cfg_ex_def init_cfg_def
        socket_of_def Let_def)
qed

lemma tx_queues_ex: "\<exists>s'. tx_queues setup_ex cfg_ex p off s = Inr s'"
proof -
  have "\<exists>t. foldM (tx_queue_step setup_ex cfg_ex p off) [0..<se_max_lcore setup_ex] (0, s) = Inr t"
    by (rule foldM_total) (auto simp: tx_queue_step_def setup_ex_def Let_def)
  then show ?thesis by (auto simp: tx_queues_def)
qed

lemma setup_port_ex:
  assumes "p \<in> set (se_ports setup_ex)" shows "\<exists>s'. setup_port setup_ex cfg_ex p s = Inr s'"
proof -
  have "\<exists>n. get_port_n_rx_queues p (active_params cfg_ex) = Some n"
    using assms unfolding active_params_ex
    by (auto simp: setup_ex_def lcore_params_array_default_def get_port_n_rx_queues_def)
  then obtain r where "configure_port setup_ex cfg_ex p s = Inr r"
    by (auto simp: configure_port_def setup_ex_def cfg_ex_def init_cfg_def config_port_max_pkt_len_def Let_def)
  then show ?thesis using init_mem_ex tx_queues_ex
    by (auto simp: setup_port_def split: sum.splits prod.splits) (metis sum.distinct(1))+
qed

lemma setup_ex_runs:
  obtains s where "l3fwd_poll_resource_setup setup_ex cfg_ex (init_sstate cfg_ex) = Inr s"
proof -
  let ?ps = "lcore_params_array_default"
  obtain ret lc where i: "init_lcore_rx_queues ?ps (ss_lcores (init_sstate cfg_ex)) = (ret, lc)" by fastforce
  have r: "\<not> ret < 0" using i
    by (auto simp: lcore_params_array_default_def init_sstate_def lconf0_def Let_def MAX_RX_QUEUE_PER_LCORE_def)
  have c: "\<not> check_lcore_params setup_ex ?ps < 0" "\<not> check_port_config setup_ex (c_port_mask cfg_ex) ?ps < 0"
    by (simp_all add: lcore_params_array_default_def setup_ex_def MAX_RX_QUEUE_PER_PORT_def cfg_ex_def init_cfg_def
        in_mask_def shl1_def)
  obtain s1 where 1: "foldM (setup_port setup_ex cfg_ex) (se_ports setup_ex) (init_sstate cfg_ex\<lparr>ss_lcores := lc\<rparr>) = Inr s1"
    using foldM_total [of "se_ports setup_ex" "setup_port setup_ex cfg_ex"] setup_port_ex by blast
  have "\<exists>t. foldM (rx_queues_lcore setup_ex cfg_ex) [0..<se_max_lcore setup_ex] s1 = Inr t"
  proof (rule foldM_total)
    fix l s
    have "\<exists>t. foldM (rx_queue_step setup_ex cfg_ex l) qs s = Inr t" for qs
      by (rule foldM_total) (simp add: rx_queue_step_def setup_ex_def Let_def)
    then show "\<exists>t. rx_queues_lcore setup_ex cfg_ex l s = Inr t" by (simp add: rx_queues_lcore_def)
  qed
  then show ?thesis using that r c i 1
    by (auto simp: l3fwd_poll_resource_setup_def active_params_ex Let_def)
qed

section \<open>Properties\<close>

text \<open>C39. When the set-up succeeds, every lcore polls exactly the receive queues the
  configuration names for it, in that order and at most 16 of them; no queue is polled twice,
  neither by one lcore nor by two (the queues of a port must be numbered in sequence); every
  queue is one of an existing enabled port, and only enabled lcores have queues.\<close>

theorem poll_setup_rx_queues:
  assumes "l3fwd_poll_resource_setup E c (init_sstate c) = Inr s" and "setup_env_ok E"
  shows "lc_rx (ss_lcores s l) = queues_of (active_params c) l
    \<and> length (lc_rx (ss_lcores s l)) \<le> MAX_RX_QUEUE_PER_LCORE
    \<and> distinct (lc_rx (ss_lcores s l))
    \<and> \<not> (l \<noteq> l' \<and> x \<in> set (lc_rx (ss_lcores s l)) \<and> x \<in> set (lc_rx (ss_lcores s l')))
    \<and> (\<forall>(p, q) \<in> set (lc_rx (ss_lcores s l)). unat p \<in> set (enabled_ports E c)
          \<and> unat q < MAX_RX_QUEUE_PER_PORT \<and> se_lcore_enabled E l)"
proof -
  note r = poll_setup_rx [OF assms]
  obtain a: "\<not> check_lcore_params E (active_params c) < 0"
      and b: "\<not> check_port_config E (c_port_mask c) (active_params c) < 0"
    using poll_setup_steps [OF assms] by metis
  have q: "lc_rx (ss_lcores s l) = queues_of (active_params c) l"
    and n: "length (lc_rx (ss_lcores s l)) \<le> MAX_RX_QUEUE_PER_LCORE" using r [of l] by blast+
  have d: "distinct (map queue_of (active_params c))" using r [of l] by blast
  have "\<forall>(p, q) \<in> set (queues_of (active_params c) l). unat p \<in> set (enabled_ports E c)
      \<and> unat q < MAX_RX_QUEUE_PER_PORT \<and> se_lcore_enabled E l"
    using a active_ports_valid [OF b assms(2)] by (auto simp: queues_of_def check_lcore_params_ok)
  moreover have "\<not> (l \<noteq> l' \<and> x \<in> set (lc_rx (ss_lcores s l)) \<and> x \<in> set (lc_rx (ss_lcores s l')))"
    using queues_of_disjoint(1) [OF d, of l l'] r [of l] r [of l'] by auto
  moreover have "distinct (queues_of (active_params c) l)"
    by (rule queues_of_disjoint(2) [OF d, of l "Suc l"]) simp
  ultimately show ?thesis using n unfolding q by blast
qed

theorem poll_setup_rx_queues_witness:
  "\<exists>s. l3fwd_poll_resource_setup setup_ex cfg_ex (init_sstate cfg_ex) = Inr s
    \<and> lc_rx (ss_lcores s 3) = [(3, 0), (3, 1)]"
proof -
  obtain s where s: "l3fwd_poll_resource_setup setup_ex cfg_ex (init_sstate cfg_ex) = Inr s"
    by (rule setup_ex_runs)
  have "queues_of (active_params cfg_ex) 3 = [(3, 0), (3, 1)]"
    by (simp add: active_params_ex queues_of_def lcore_params_array_default_def)
  then show ?thesis using poll_setup_rx_queues [OF s setup_env_ok_ex, of 3 0 "(3, 0)", THEN conjunct1] s by simp
qed

text \<open>C40. Transmit queues after the set-up: every enabled lcore can send on every enabled port
  and on no other, a disabled one on none; on each port two lcores never share a queue, and
  the queue of an lcore is below \<open>n_tx_queue\<close>, the number the port was configured with. So an
  lcore needs no lock to send.\<close>

theorem poll_setup_tx_queues:
  assumes "l3fwd_poll_resource_setup E c (init_sstate c) = Inr s" and "setup_env_ok E"
  shows "lc_tx_ports (ss_lcores s l) = (if se_lcore_enabled E l then map of_nat (enabled_ports E c) else [])
    \<and> (if se_lcore_enabled E l \<and> se_lcore_enabled E l' \<and> p \<in> set (enabled_ports E c)
       then (lc_tx_queue (ss_lcores s l) p = lc_tx_queue (ss_lcores s l') p) = (l = l')
         \<and> unat (lc_tx_queue (ss_lcores s l) p) < min (se_lcore_count E) (se_max_lcore E)
       else True)"
proof -
  have lt: "rank E k < se_lcore_count E \<and> rank E k < se_max_lcore E \<and> rank E k < 2 ^ 16" if "se_lcore_enabled E k" for k
  proof -
    have k: "k < se_max_lcore E" "se_max_lcore E \<le> 2 ^ 16" "se_lcore_count E = rank E (se_max_lcore E)"
      using that assms(2) by (simp_all add: setup_env_ok_def)
    show ?thesis using rank_less [OF k(1) that] k rank_le [of E "se_max_lcore E"] by simp
  qed
  have q: "lc_tx_queue (ss_lcores s k) p = of_nat (rank E k)" if "se_lcore_enabled E k" "p \<in> set (enabled_ports E c)" for k
    using poll_setup_tx [OF assms, of k] that by simp
  have "(of_nat (rank E l) :: u16) = of_nat (rank E l') \<longleftrightarrow> l = l'"
    if "se_lcore_enabled E l" "se_lcore_enabled E l'"
    using that lt [of l] lt [of l'] rank_inj [OF that] by (simp add: word_unat_eq_iff unat_of_nat)
  moreover have "unat (of_nat (rank E l) :: u16) < min (se_lcore_count E) (se_max_lcore E)" if "se_lcore_enabled E l"
    using lt [OF that] by (simp add: unat_of_nat)
  ultimately show ?thesis using poll_setup_tx [OF assms, of l] q by simp
qed

theorem poll_setup_tx_queues_witness:
  "\<exists>s. l3fwd_poll_resource_setup setup_ex cfg_ex (init_sstate cfg_ex) = Inr s
    \<and> lc_tx_ports (ss_lcores s 2) = [0, 1, 2, 3] \<and> lc_tx_queue (ss_lcores s 2) 3 \<noteq> lc_tx_queue (ss_lcores s 3) 3"
proof -
  obtain s where s: "l3fwd_poll_resource_setup setup_ex cfg_ex (init_sstate cfg_ex) = Inr s"
    by (rule setup_ex_runs)
  have e: "enabled_ports setup_ex cfg_ex = [0, 1, 2, 3]"
    by (simp add: setup_ex_def cfg_ex_def init_cfg_def in_mask_def shl1_def)
  have l: "se_lcore_enabled setup_ex 2" "se_lcore_enabled setup_ex 3" by (simp_all add: setup_ex_def)
  show ?thesis using poll_setup_tx_queues [OF s setup_env_ok_ex, of 2 3 3] s unfolding e by (simp add: l)
qed

text \<open>From the command line to the wire: when the options were accepted and the set-up succeeded,
  the rewriting of a packet for an enabled port writes the destination address configured for the port
  and then the address its device reported. The lookup tables of a socket are set up exactly once, and
  an lcore that can send has a table, the one of its own socket (socket 0 with \<open>--no-numa\<close>).\<close>

lemma poll_setup_headers:
  assumes "cfg_env_ok C" and "parse_args C (init_cfg C a h) opts = Goes c"
    and "l3fwd_poll_resource_setup E c (init_sstate c) = Inr s" and "setup_env_ok E"
    and "p \<in> set (enabled_ports E c)" and "p < ce_max_ethports C"
  shows "(\<exists>mac. se_mac E p = Some mac \<and>
      map (mb_data (fst (process_packet D (glob_of c s) m (of_nat p)))) [0..<12] = take 6 (le64 (c_dest_eth c p)) @ mac)
    \<and> distinct (lookup_setups (ss_trace s))
    \<and> (if se_lcore_enabled E l then lc_lookup (ss_lcores s l) = Some (socket_of E c l)
         \<and> socket_of E c l \<in> set (lookup_setups (ss_trace s)) else lc_lookup (ss_lcores s l) = None)"
proof -
  have "macs_ok C c" using parse_args_cfg_inv [OF assms(1,2)] by (simp add: cfg_inv_def)
  then have v: "length (c_val_eth c p) = 16" "take 8 (c_val_eth c p) = le64 (c_dest_eth c p)"
    using assms(6) by (simp_all add: macs_ok_def)
  have v6: "take 6 (c_val_eth c p) = take 6 (le64 (c_dest_eth c p))"
    using arg_cong [OF v(2), of "take 6"] by simp
  have p: "unat (of_nat p :: u16) = p" using assms(4,5) by (auto simp: setup_env_ok_def unat_of_nat)
  note s = poll_setup_mac [OF assms(3,4)]
  obtain mac where mac: "se_mac E p = Some mac" using s assms(5) by blast
  then have len: "length mac = 6" using assms(4) by (simp add: setup_env_ok_def)
  have "val_eth (glob_of c s) (of_nat p) = take 6 (le64 (c_dest_eth c p)) @ mac @ drop 12 (c_val_eth c p)"
    using s assms(5) mac by (simp add: glob_of_def p set_src_def v6)
  then have "map (mb_data (fst (process_packet D (glob_of c s) m (of_nat p)))) [0..<12]
      = map ((!) (take 6 (le64 (c_dest_eth c p)) @ mac @ drop 12 (c_val_eth c p))) [0..<12]"
    by (simp add: process_packet_mac)
  also have "\<dots> = take 12 (take 6 (le64 (c_dest_eth c p)) @ mac @ drop 12 (c_val_eth c p))"
    by (rule map_nth_take) (simp add: len v)
  finally have "map (mb_data (fst (process_packet D (glob_of c s) m (of_nat p)))) [0..<12]
      = take 6 (le64 (c_dest_eth c p)) @ mac" using len by simp
  moreover have "enabled_ports E c \<noteq> []" using assms(5) by (auto simp: filter_empty_conv)
  ultimately show ?thesis using mac s poll_setup_tx [OF assms(3,4), of l] by (auto simp: mem_inv_def)
qed

end
