(* ===== verification/Poll_Loop.thy ===== *)
theory Poll_Loop
  imports Lpm_Forward
begin

text \<open>
  The polling loop that \<open>em_main_loop\<close>, \<open>fib_main_loop\<close> and, with the clock read at another place,
  \<open>acl_main_loop\<close> write out: drain the transmit buffers after the timeout, then receive a burst from each
  queue and forward it. These loops keep no statistics, so what is shown is that no packet is lost:
  every packet that was received is on the wire, in a transmit buffer or freed, exactly once.
\<close>

section \<open>The loop\<close>

record poll =
  pl_core :: lcore
  pl_prev :: u64
  pl_cur :: u64

text \<open>Forwarding a burst: the input of the pass (for the uninitialised arrays), the number of
  packets, the packets and the receiving port.\<close>

type_synonym forward = "loop_in \<Rightarrow> nat \<Rightarrow> (nat \<Rightarrow> mbuf) \<Rightarrow> u16 \<Rightarrow> lcore \<Rightarrow> lcore option"

definition poll_drain :: "dpdk \<Rightarrow> u64 \<Rightarrow> poll \<Rightarrow> poll" where
  "poll_drain E drain_tsc st =
     (let diff_tsc = pl_cur st - pl_prev st
      in if drain_tsc < diff_tsc
         then st\<lparr>pl_core := fold (drain_port E) (tx_port_id (pl_core st)) (pl_core st), pl_prev := pl_cur st\<rparr>
         else st)"

fun poll_queues :: "forward \<Rightarrow> loop_in \<Rightarrow> (nat \<times> u16) list \<Rightarrow> lcore \<Rightarrow> lcore option" where
  "poll_queues send i [] s = Some s"
| "poll_queues send i ((k, portid) # qs) s =
     (let pkts = in_rx i k; nb_rx = length pkts
      in if nb_rx = 0 then poll_queues send i qs s
         else case send i nb_rx ((!) pkts) portid s of None \<Rightarrow> None | Some s' \<Rightarrow> poll_queues send i qs s')"

abbreviation queue_ports :: "lcore \<Rightarrow> (nat \<times> u16) list" where
  "queue_ports s \<equiv> map (\<lambda>(k, p, q). (k, p)) (enumerate 0 (rx_queue_list s))"

definition poll_pass :: "dpdk \<Rightarrow> forward \<Rightarrow> u64 \<Rightarrow> loop_in \<Rightarrow> poll \<Rightarrow> poll option" where
  "poll_pass E send drain_tsc i st =
     (let st1 = poll_drain E drain_tsc st
      in case poll_queues send i (queue_ports (pl_core st1)) (pl_core st1) of
           None \<Rightarrow> None
         | Some s \<Rightarrow> Some (st1\<lparr>pl_core := s, pl_cur := in_tsc i\<rparr>))"

fun poll_passes :: "dpdk \<Rightarrow> forward \<Rightarrow> u64 \<Rightarrow> loop_in list \<Rightarrow> poll \<Rightarrow> poll option" where
  "poll_passes E send drain_tsc [] st = Some st"
| "poll_passes E send drain_tsc (i # ins) st =
     (case poll_pass E send drain_tsc i st of None \<Rightarrow> None | Some st' \<Rightarrow> poll_passes E send drain_tsc ins st')"

definition poll_main_loop :: "dpdk \<Rightarrow> forward \<Rightarrow> u64 \<Rightarrow> u64 \<Rightarrow> loop_in list \<Rightarrow> lcore \<Rightarrow> poll option" where
  "poll_main_loop E send hz tsc ins s =
     (let st0 = \<lparr>pl_core = s, pl_prev = tsc, pl_cur = tsc\<rparr>
      in if rx_queue_list s = [] then Some st0 else poll_passes E send (drain_tsc_of hz) ins st0)"

section \<open>No packet is lost\<close>

text \<open>The buffers of an lcore, by identity, wherever they are.\<close>

definition held :: "lcore \<Rightarrow> nat multiset" where
  "held s = image_mset mb_id (content (tx_view s))"

definition arrived :: "loop_in \<Rightarrow> nat list \<Rightarrow> nat list" where
  "arrived i ks = concat (map (\<lambda>k. map mb_id (in_rx i k)) ks)"

definition received :: "loop_in list \<Rightarrow> lcore \<Rightarrow> nat list" where
  "received ins s = concat (map (\<lambda>i. arrived i [0..<length (rx_queue_list s)]) ins)"

definition poll_ok :: "dpdk \<Rightarrow> lcore \<Rightarrow> bool" where
  "poll_ok E s \<longleftrightarrow> tx_inv MAX_PKT_BURST s \<and> (\<forall>p \<in> set (tx_port_id s). port_ok E p)
     \<and> (\<forall>(p, q) \<in> set (rx_queue_list s). port_ok E p)"

definition bursts_fit :: "loop_in \<Rightarrow> bool" where
  "bursts_fit i \<longleftrightarrow> (\<forall>n. length (in_rx i n) \<le> MAX_PKT_BURST)"

lemma poll_ok_conf: "poll_ok E s \<Longrightarrow> same_conf s s' \<Longrightarrow> tx_inv MAX_PKT_BURST s' \<Longrightarrow> poll_ok E s'"
  by (simp add: poll_ok_def same_conf_def)

text \<open>What a forwarding routine promises: with what its parameters \<open>c\<close> must satisfy, a burst for
  existing ports is forwarded without failing, and each of its packets is then held once more.\<close>

locale burst_sender =
  fixes good :: "'c \<Rightarrow> bool" and lib :: "'c \<Rightarrow> dpdk" and send :: "'c \<Rightarrow> forward"
  assumes good_driver: "good c \<Longrightarrow> tx_burst_ok (lib c)"
    and send_ok: "good c \<Longrightarrow> port_ok (lib c) p \<Longrightarrow> tx_inv MAX_PKT_BURST s \<Longrightarrow> 0 < n \<Longrightarrow> n \<le> MAX_PKT_BURST \<Longrightarrow>
      \<exists>s'. send c i n P p s = Some s' \<and> tx_inv MAX_PKT_BURST s' \<and> same_conf s s'
        \<and> held s' = held s + mset (map (\<lambda>k. mb_id (P k)) [0..<n])"
begin

lemma queues_hold:
  assumes "good c" and "bursts_fit i"
  shows "\<forall>(k, p) \<in> set qs. port_ok (lib c) p \<Longrightarrow> poll_ok (lib c) s \<Longrightarrow>
    \<exists>s'. poll_queues (send c) i qs s = Some s' \<and> poll_ok (lib c) s' \<and> same_conf s s'
      \<and> held s' = held s + mset (arrived i (map fst qs))"
proof (induction qs arbitrary: s)
  case Nil
  then show ?case by (simp add: arrived_def)
next
  case (Cons q qs)
  obtain k p where q: "q = (k, p)" by fastforce
  let ?ms = "in_rx i k"
  show ?case
  proof (cases "?ms = []")
    case True
    then show ?thesis using Cons by (simp add: q arrived_def)
  next
    case False
    have p: "port_ok (lib c) p" and inv: "tx_inv MAX_PKT_BURST s" and qs: "\<forall>(k, p) \<in> set qs. port_ok (lib c) p"
      using Cons.prems by (simp_all add: q poll_ok_def)
    have n: "0 < length ?ms" "length ?ms \<le> MAX_PKT_BURST"
      using False assms(2) by (simp_all add: bursts_fit_def)
    obtain s1 where 1: "send c i (length ?ms) ((!) ?ms) p s = Some s1" "tx_inv MAX_PKT_BURST s1" "same_conf s s1"
        "held s1 = held s + mset (map (\<lambda>k. mb_id (?ms ! k)) [0..<length ?ms])"
      using send_ok [OF assms(1) p inv n] by blast
    have ids: "map (\<lambda>k. mb_id (?ms ! k)) [0..<length ?ms] = map mb_id ?ms"
      by (rule nth_equalityI) simp_all
    obtain s2 where 2: "poll_queues (send c) i qs s1 = Some s2" "poll_ok (lib c) s2" "same_conf s1 s2"
        "held s2 = held s1 + mset (arrived i (map fst qs))"
      using Cons.IH [OF qs poll_ok_conf [OF Cons.prems(2) 1(3,2)]] by blast
    have "same_conf s s2" using 1(3) 2(3) by (simp add: same_conf_def)
    then show ?thesis using 1 2 False by (simp add: q arrived_def ids Let_def)
  qed
qed

lemma drain_holds:
  assumes "good c" and "poll_ok (lib c) (pl_core st)"
  shows "poll_ok (lib c) (pl_core (poll_drain (lib c) dt st)) \<and> same_conf (pl_core st) (pl_core (poll_drain (lib c) dt st))
    \<and> held (pl_core (poll_drain (lib c) dt st)) = held (pl_core st)"
proof -
  let ?s = "pl_core st"
  have p: "\<forall>p \<in> set (tx_port_id ?s). port_ok (lib c) p" and inv: "tx_inv MAX_PKT_BURST ?s"
    using assms(2) by (simp_all add: poll_ok_def)
  note d = drain_list [OF good_driver [OF assms(1)] order_refl p inv]
  have "same_conf s (fold (drain_port (lib c)) ps s)" for ps s
    by (induction ps arbitrary: s) (use drain_port_conf in \<open>fastforce simp: same_conf_def\<close>)+
  then have "same_conf ?s (fold (drain_port (lib c)) (tx_port_id ?s) ?s)" .
  then show ?thesis
    using d poll_ok_conf [OF assms(2)] assms(2) by (simp add: poll_drain_def Let_def held_def)
qed

lemma pass_holds:
  assumes "good c" and "bursts_fit i" and "poll_ok (lib c) (pl_core st)"
  shows "\<exists>st'. poll_pass (lib c) (send c) dt i st = Some st' \<and> poll_ok (lib c) (pl_core st')
    \<and> same_conf (pl_core st) (pl_core st')
    \<and> held (pl_core st') = held (pl_core st) + mset (arrived i [0..<length (rx_queue_list (pl_core st))])"
proof -
  let ?s1 = "pl_core (poll_drain (lib c) dt st)"
  have d: "poll_ok (lib c) ?s1" "same_conf (pl_core st) ?s1" "held ?s1 = held (pl_core st)"
    using drain_holds [OF assms(1,3)] by simp_all
  have "port_ok (lib c) (fst (rx_queue_list ?s1 ! k))" if "k < length (rx_queue_list ?s1)" for k
    using d(1) nth_mem [OF that] by (auto simp: poll_ok_def case_prod_beta)
  then have q: "\<forall>(k, p) \<in> set (queue_ports ?s1). port_ok (lib c) p"
    by (auto simp: in_set_enumerate_eq) (metis fst_conv)
  have k: "map fst (queue_ports ?s1) = [0..<length (rx_queue_list (pl_core st))]"
    using d(2) by (simp add: comp_def case_prod_beta same_conf_def)
  obtain s' where "poll_queues (send c) i (queue_ports ?s1) ?s1 = Some s'" "poll_ok (lib c) s'" "same_conf ?s1 s'"
      "held s' = held ?s1 + mset (arrived i [0..<length (rx_queue_list (pl_core st))])"
    using queues_hold [OF assms(1,2) q d(1)] unfolding k by blast
  then show ?thesis using d by (simp add: poll_pass_def Let_def same_conf_def)
qed

lemma passes_hold:
  assumes "good c"
  shows "\<forall>i \<in> set ins. bursts_fit i \<Longrightarrow> poll_ok (lib c) (pl_core st) \<Longrightarrow>
    \<exists>st'. poll_passes (lib c) (send c) dt ins st = Some st' \<and> poll_ok (lib c) (pl_core st')
      \<and> held (pl_core st') = held (pl_core st) + mset (received ins (pl_core st))"
proof (induction ins arbitrary: st)
  case (Cons i ins)
  have f: "bursts_fit i" "\<forall>i \<in> set ins. bursts_fit i" using Cons.prems(1) by simp_all
  obtain st1 where 1: "poll_pass (lib c) (send c) dt i st = Some st1" "poll_ok (lib c) (pl_core st1)"
      "same_conf (pl_core st) (pl_core st1)"
      "held (pl_core st1) = held (pl_core st) + mset (arrived i [0..<length (rx_queue_list (pl_core st))])"
    using pass_holds [OF assms f(1) Cons.prems(2)] by blast
  have "received ins (pl_core st1) = received ins (pl_core st)"
    using 1(3) by (simp add: received_def same_conf_def)
  then show ?case using Cons.IH [OF f(2) 1(2)] 1 by (auto simp: received_def)
qed (simp add: received_def)

lemma main_loop_holds:
  assumes "good c" and "poll_ok (lib c) s" and "\<forall>i \<in> set ins. bursts_fit i"
  shows "\<exists>st. poll_main_loop (lib c) (send c) hz tsc ins s = Some st \<and> tx_inv MAX_PKT_BURST (pl_core st)
    \<and> held (pl_core st) = held s + mset (received ins s)"
proof (cases "rx_queue_list s = []")
  case True
  have "received ins s = []" unfolding received_def arrived_def by (simp add: True)
  then show ?thesis using True assms(2) by (simp add: poll_main_loop_def poll_ok_def)
next
  case False
  let ?st = "\<lparr>pl_core = s, pl_prev = tsc, pl_cur = tsc\<rparr>"
  have "poll_ok (lib c) (pl_core ?st)" using assms(2) by simp
  then obtain st where "poll_passes (lib c) (send c) (drain_tsc_of hz) ins ?st = Some st" "poll_ok (lib c) (pl_core st)"
      "held (pl_core st) = held s + mset (received ins s)"
    using passes_hold [OF assms(1,3), of ?st "drain_tsc_of hz"] by auto
  then show ?thesis using False by (simp add: poll_main_loop_def Let_def poll_ok_def)
qed

end

text \<open>A burst through \<open>send_packets_multi\<close>.\<close>

lemma processed_id: "mb_id (fst (processed E G PD n) i) = mb_id (fst PD i)"
  by (induction n) (auto simp: processed_def process_at_def Let_def case_prod_beta)

lemma multi_holds:
  assumes "tx_burst_ok E" and "ports_16 E" and "tx_inv MAX_PKT_BURST s"
    and "0 < n" and "n \<le> MAX_PKT_BURST" and "\<forall>i<n. port_ok E (snd PD i)"
  shows "\<exists>stats s'. send_packets_multi E G pnum0 PD n s = Some (stats, s')
    \<and> tx_inv MAX_PKT_BURST s' \<and> same_conf s s' \<and> held s' = held s + mset (map (\<lambda>k. mb_id (fst PD k)) [0..<n])"
proof -
  obtain stats s' where m: "send_packets_multi E G pnum0 PD n s = Some (stats, s')" "tx_inv MAX_PKT_BURST s'" "same_conf s s'"
    "content (tx_view s') = content (tx_view s) + mset (map (fst (processed E G PD n)) [0..<n])"
    using multi_delivers [OF assms, of G pnum0] by blast
  have "image_mset mb_id (mset (map (fst (processed E G PD n)) [0..<n])) = mset (map (\<lambda>k. mb_id (fst PD k)) [0..<n])"
    by (simp add: processed_id comp_def flip: mset_map)
  then show ?thesis using m by (simp add: held_def)
qed

end
