(* ===== verification/Event_Vec.thy ===== *)
theory Event_Vec
  imports Lpm_Forward
begin

text \<open>
  Vectors of packets in event mode (\<open>l3fwd_event.h\<close>): \<open>filter_bad_packets\<close>, which compacts the two
  arrays in place and frees what it drops, and \<open>process_event_vector\<close>, which then gives the vector a
  common port or every packet its own.
\<close>

section \<open>Filtering\<close>

text \<open>The state of the loop: the arrays, \<open>free\<close>, the index both \<open>pos\<close> and \<open>des_pos\<close> point to, and the
  packets gone.\<close>

record filt =
  fi_mbufs :: "nat \<Rightarrow> mbuf"
  fi_dst :: "nat \<Rightarrow> u16"
  fi_free :: u16
  fi_pos :: nat
  fi_freed :: "mbuf list"

definition filter_step :: "nat \<Rightarrow> filt \<Rightarrow> filt" where
  "filter_step i st =
     (if fi_dst st i = BAD_PORT then
        st\<lparr>fi_freed := fi_freed st @ [fi_mbufs st i],
           fi_pos := (if fi_free st = 0 then i else fi_pos st),
           fi_free := fi_free st + 1\<rparr>
      else if fi_free st \<noteq> 0 then
        st\<lparr>fi_mbufs := (fi_mbufs st)(fi_pos st := fi_mbufs st i),
           fi_dst := (fi_dst st)(fi_pos st := fi_dst st i),
           fi_pos := fi_pos st + 1\<rparr>
      else st)"

definition filter_bad_packets :: "(nat \<Rightarrow> mbuf) \<Rightarrow> (nat \<Rightarrow> u16) \<Rightarrow> u16 \<Rightarrow>
    u16 \<times> (nat \<Rightarrow> mbuf) \<times> (nat \<Rightarrow> u16) \<times> mbuf list" where
  "filter_bad_packets mbufs dst_port nb_pkts =
     (let st = fold filter_step [0..<unat nb_pkts]
                 \<lparr>fi_mbufs = mbufs, fi_dst = dst_port, fi_free = 0, fi_pos = 0, fi_freed = []\<rparr>
      in (nb_pkts - fi_free st, fi_mbufs st, fi_dst st, fi_freed st))"

section \<open>Vectors\<close>

record event_vector =
  vec_nb :: u16
  vec_mbufs :: "nat \<Rightarrow> mbuf"
  vec_attr_valid :: bool
  vec_port :: u16
  vec_queue :: u16

text \<open>The packets freed come second. \<open>rte_event_eth_tx_adapter_txq_set\<close> notes queue 0 in each
  mbuf, which the program never reads.\<close>

definition process_event_vector :: "event_vector \<Rightarrow> (nat \<Rightarrow> u16) \<Rightarrow> event_vector \<times> mbuf list" where
  "process_event_vector vec dst_port =
     (let (nb, P, D, gone) = filter_bad_packets (vec_mbufs vec) dst_port (vec_nb vec);
          vec1 = vec\<lparr>vec_nb := nb, vec_mbufs := P\<rparr>;
          port = process_dst_port D (unat nb)
      in (if port = BAD_PORT
          then vec1\<lparr>vec_attr_valid := False,
                    vec_mbufs := fold (\<lambda>i P. P(i := (P i)\<lparr>mb_port := D i\<rparr>)) [0..<unat nb] P\<rparr>
          else vec1\<lparr>vec_attr_valid := True, vec_port := port, vec_queue := 0\<rparr>, gone))"

section \<open>What the filter leaves\<close>

definition kept :: "(nat \<Rightarrow> u16) \<Rightarrow> nat \<Rightarrow> nat list" where
  "kept D n = filter (\<lambda>i. D i \<noteq> BAD_PORT) [0..<n]"

definition dropped :: "(nat \<Rightarrow> u16) \<Rightarrow> nat \<Rightarrow> nat list" where
  "dropped D n = filter (\<lambda>i. D i = BAD_PORT) [0..<n]"

lemma kept_good: "i \<in> set (kept D n) \<Longrightarrow> D i \<noteq> BAD_PORT"
  by (simp add: kept_def)

lemma kept_dropped: "length (kept D n) + length (dropped D n) = n"
  using sum_length_filter_compl [of "\<lambda>i. D i \<noteq> BAD_PORT" "[0..<n]"] by (simp add: kept_def dropped_def)

definition filt_ok :: "(nat \<Rightarrow> mbuf) \<Rightarrow> (nat \<Rightarrow> u16) \<Rightarrow> nat \<Rightarrow> filt \<Rightarrow> bool" where
  "filt_ok P D i st \<longleftrightarrow> fi_free st = of_nat (length (dropped D i))
     \<and> (dropped D i \<noteq> [] \<longrightarrow> fi_pos st = length (kept D i))
     \<and> fi_freed st = map P (dropped D i)
     \<and> (\<forall>k < length (kept D i). fi_mbufs st k = P (kept D i ! k) \<and> fi_dst st k = D (kept D i ! k))
     \<and> (\<forall>k \<ge> i. fi_mbufs st k = P k \<and> fi_dst st k = D k)"

lemma kept_le: "length (kept D i) \<le> i"
  using kept_dropped [of D i] by simp

lemma vec_len: "unat (n :: u16) < 2 ^ 16"
proof -
  have "unat n < 2 ^ LENGTH(16)" by (rule unsigned_less)
  then show ?thesis by simp
qed

lemma no_drop: "dropped D i = [] \<Longrightarrow> kept D i = [0..<i]"
  by (auto simp: dropped_def kept_def filter_empty_conv filter_id_conv)

lemma filter_step_ok:
  assumes "filt_ok P D i st" and "i < 2 ^ 16"
  shows "filt_ok P D (Suc i) (filter_step i st)"
proof -
  have free: "fi_free st = 0 \<longleftrightarrow> dropped D i = []"
  proof -
    have "length (dropped D i) < 2 ^ 16" using kept_dropped [of D i] assms(2) by simp
    then show ?thesis using assms(1) by (auto simp: filt_ok_def word_unat_eq_iff unat_of_nat)
  qed
  have here: "fi_mbufs st i = P i" "fi_dst st i = D i" using assms(1) by (simp_all add: filt_ok_def)
  show ?thesis
  proof (cases "D i = BAD_PORT")
    case True
    then have s: "dropped D (Suc i) = dropped D i @ [i]" "kept D (Suc i) = kept D i"
      by (simp_all add: dropped_def kept_def)
    have "fi_pos (filter_step i st) = length (kept D i)"
      using True assms(1) free no_drop [of D i] by (auto simp: filter_step_def here filt_ok_def)
    then show ?thesis using assms(1) True
      by (simp add: filt_ok_def s) (simp add: filter_step_def here)
  next
    case False
    then have s: "dropped D (Suc i) = dropped D i" "kept D (Suc i) = kept D i @ [i]"
      by (simp_all add: dropped_def kept_def)
    show ?thesis
    proof (cases "dropped D i = []")
      case True
      then show ?thesis using assms(1) False free no_drop [OF True]
        by (auto simp: filt_ok_def s filter_step_def here nth_append less_Suc_eq)
    next
      case no: False
      then have p: "fi_pos st = length (kept D i)" using assms(1) by (simp add: filt_ok_def)
      show ?thesis using assms(1) False free no kept_le [of D i]
        by (auto simp: filt_ok_def s filter_step_def here p nth_append less_Suc_eq)
    qed
  qed
qed

lemma filter_bad_packets_kept:
  assumes "filter_bad_packets P D n = (nb, P', D', gone)"
  shows "unat nb = length (kept D (unat n))" and "gone = map P (dropped D (unat n))"
    and "map P' [0..<unat nb] = map P (kept D (unat n))" and "map D' [0..<unat nb] = map D (kept D (unat n))"
proof -
  let ?st = "fold filter_step [0..<unat n] \<lparr>fi_mbufs = P, fi_dst = D, fi_free = 0, fi_pos = 0, fi_freed = []\<rparr>"
  have "i \<le> unat n \<Longrightarrow> filt_ok P D i (fold filter_step [0..<i] \<lparr>fi_mbufs = P, fi_dst = D, fi_free = 0, fi_pos = 0, fi_freed = []\<rparr>)" for i
  proof (induction i)
    case 0
    show ?case by (simp add: filt_ok_def dropped_def kept_def)
  next
    case (Suc i)
    have "i < 2 ^ 16" using Suc.prems vec_len [of n] by simp
    then show ?case using filter_step_ok Suc by simp
  qed
  then have ok: "filt_ok P D (unat n) ?st" by simp
  have r: "nb = n - fi_free ?st" "P' = fi_mbufs ?st" "D' = fi_dst ?st" "gone = fi_freed ?st"
    using assms by (simp_all add: filter_bad_packets_def Let_def)
  have "nb = of_nat (unat n) - of_nat (length (dropped D (unat n)))"
    using ok r(1) by (simp add: filt_ok_def)
  also have "\<dots> = of_nat (length (kept D (unat n)))"
    using kept_dropped [of D "unat n"] by (metis add_diff_cancel_right' of_nat_add)
  finally have "nb = of_nat (length (kept D (unat n)))" .
  moreover have "length (kept D (unat n)) < 2 ^ 16"
    using kept_le [of D "unat n"] vec_len [of n] by simp
  ultimately show nb: "unat nb = length (kept D (unat n))" by (simp add: unat_of_nat)
  show "gone = map P (dropped D (unat n))" using ok r(4) by (simp add: filt_ok_def)
  show "map P' [0..<unat nb] = map P (kept D (unat n))"
    by (rule nth_equalityI) (use ok r(2) nb in \<open>simp_all add: filt_ok_def\<close>)
  show "map D' [0..<unat nb] = map D (kept D (unat n))"
    by (rule nth_equalityI) (use ok r(3) nb in \<open>simp_all add: filt_ok_def\<close>)
qed

text \<open>The port a packet of a vector goes to.\<close>

definition vec_dst :: "event_vector \<Rightarrow> nat \<Rightarrow> u16" where
  "vec_dst v i = (if vec_attr_valid v then vec_port v else mb_port (vec_mbufs v i))"

lemma set_ports_pass:
  "fold (\<lambda>i P. P(i := (P i)\<lparr>mb_port := D i\<rparr>)) [0..<n] P = (\<lambda>i. if i < n then (P i)\<lparr>mb_port := D i\<rparr> else P i)"
  by (induction n) (auto simp: fun_eq_iff less_Suc_eq)

lemma process_event_vector_ok:
  assumes "process_event_vector vec D = (v, gone)"
  shows "gone = map (vec_mbufs vec) (dropped D (unat (vec_nb vec)))"
    and "unat (vec_nb v) = length (kept D (unat (vec_nb vec)))"
    and "map (\<lambda>i. (mb_data (vec_mbufs v i), mb_id (vec_mbufs v i), vec_dst v i)) [0..<unat (vec_nb v)]
      = map (\<lambda>i. (mb_data (vec_mbufs vec i), mb_id (vec_mbufs vec i), D i)) (kept D (unat (vec_nb vec)))"
proof -
  let ?n = "unat (vec_nb vec)" and ?P = "vec_mbufs vec"
  obtain nb P' D' g where f: "filter_bad_packets ?P D (vec_nb vec) = (nb, P', D', g)"
    by (metis prod_cases4)
  note k = filter_bad_packets_kept [OF f]
  have D': "D' i = D (kept D ?n ! i)" if "i < unat nb" for i
    using arg_cong [OF k(4), of "\<lambda>xs. xs ! i"] that k(1) by simp
  have P': "P' i = ?P (kept D ?n ! i)" if "i < unat nb" for i
    using arg_cong [OF k(3), of "\<lambda>xs. xs ! i"] that k(1) by simp
  have good: "D' i \<noteq> BAD_PORT" if "i < unat nb" for i
    using kept_good [OF nth_mem [of i "kept D ?n"]] D' [OF that] that k(1) by simp
  let ?v = "vec\<lparr>vec_nb := nb, vec_mbufs := P'\<rparr>"
  have pe: "process_event_vector vec D = (if process_dst_port D' (unat nb) = BAD_PORT
      then ?v\<lparr>vec_attr_valid := False, vec_mbufs := \<lambda>i. if i < unat nb then (P' i)\<lparr>mb_port := D' i\<rparr> else P' i\<rparr>
      else ?v\<lparr>vec_attr_valid := True, vec_port := process_dst_port D' (unat nb), vec_queue := 0\<rparr>, g)"
    by (simp only: process_event_vector_def f Let_def prod.case set_ports_pass)
  have e: "v = (if process_dst_port D' (unat nb) = BAD_PORT
      then ?v\<lparr>vec_attr_valid := False, vec_mbufs := \<lambda>i. if i < unat nb then (P' i)\<lparr>mb_port := D' i\<rparr> else P' i\<rparr>
      else ?v\<lparr>vec_attr_valid := True, vec_port := process_dst_port D' (unat nb), vec_queue := 0\<rparr>)"
    using arg_cong [OF pe, of fst] unfolding assms fst_conv .
  have g: "gone = g" using arg_cong [OF pe, of snd] unfolding assms snd_conv .
  show "gone = map (vec_mbufs vec) (dropped D ?n)" unfolding g by (rule k(2))
  have nb: "vec_nb v = nb" by (simp add: e)
  have v: "mb_data (vec_mbufs v i) = mb_data (P' i) \<and> mb_id (vec_mbufs v i) = mb_id (P' i) \<and> vec_dst v i = D' i"
    if i: "i < unat nb" for i
  proof (cases "all_eq D' 0 (unat nb)")
    case True
    then have "D' i = D' 0" using i unfolding all_eq_def by blast
    then have "process_dst_port D' (unat nb) = D' i" "D' i \<noteq> BAD_PORT"
      using True good [OF i] by (simp_all add: process_dst_port_all_eq)
    then show ?thesis by (simp add: e vec_dst_def)
  next
    case False
    then have "process_dst_port D' (unat nb) = BAD_PORT" by (simp add: process_dst_port_all_eq)
    then show ?thesis using i by (simp add: e vec_dst_def)
  qed
  show "unat (vec_nb v) = length (kept D ?n)" using k(1) nb by simp
  show "map (\<lambda>i. (mb_data (vec_mbufs v i), mb_id (vec_mbufs v i), vec_dst v i)) [0..<unat (vec_nb v)]
      = map (\<lambda>i. (mb_data (?P i), mb_id (?P i), D i)) (kept D ?n)"
  proof (rule nth_equalityI)
    fix i assume "i < length (map (\<lambda>i. (mb_data (vec_mbufs v i), mb_id (vec_mbufs v i), vec_dst v i)) [0..<unat (vec_nb v)])"
    then have i: "i < unat nb" by (simp add: nb)
    show "map (\<lambda>i. (mb_data (vec_mbufs v i), mb_id (vec_mbufs v i), vec_dst v i)) [0..<unat (vec_nb v)] ! i
        = map (\<lambda>i. (mb_data (?P i), mb_id (?P i), D i)) (kept D ?n) ! i"
      using v [OF i] P' [OF i] D' [OF i] i k(1) by (simp add: nb)
  qed (simp add: nb k(1))
qed

lemma kept_cong: "(\<And>i. i < n \<Longrightarrow> D i = D' i) \<Longrightarrow> kept D n = kept D' n \<and> dropped D n = dropped D' n"
  unfolding kept_def dropped_def by (intro conjI filter_cong) simp_all

text \<open>A vector whose packets were rewritten one by one, by \<open>r\<close>.\<close>

lemma process_event_vector_rewritten:
  assumes "process_event_vector (vec\<lparr>vec_mbufs := \<lambda>k. if k < unat (vec_nb vec) then fst (r k) else vec_mbufs vec k\<rparr>)
      (\<lambda>k. if k < unat (vec_nb vec) then snd (r k) else D k) = (v, gone)"
  shows "gone = map (\<lambda>i. fst (r i)) (dropped (\<lambda>i. snd (r i)) (unat (vec_nb vec)))"
    and "map (\<lambda>i. (mb_data (vec_mbufs v i), mb_id (vec_mbufs v i), vec_dst v i)) [0..<unat (vec_nb v)]
      = map (\<lambda>i. (mb_data (fst (r i)), mb_id (fst (r i)), snd (r i))) (kept (\<lambda>i. snd (r i)) (unat (vec_nb vec)))"
proof -
  let ?n = "unat (vec_nb vec)" and ?P = "vec_mbufs vec"
  let ?vec = "vec\<lparr>vec_mbufs := \<lambda>k. if k < ?n then fst (r k) else ?P k\<rparr>"
  let ?D = "\<lambda>k. if k < ?n then snd (r k) else D k"
  have k: "kept ?D ?n = kept (\<lambda>i. snd (r i)) ?n" "dropped ?D ?n = dropped (\<lambda>i. snd (r i)) ?n"
    using kept_cong [of ?n ?D "\<lambda>i. snd (r i)"] by simp_all
  have lt: "i < ?n" if "i \<in> set (kept f ?n) \<union> set (dropped f ?n)" for f i
    using that by (auto simp: kept_def dropped_def)
  have nb: "vec_nb ?vec = vec_nb vec" "vec_mbufs ?vec = (\<lambda>k. if k < ?n then fst (r k) else ?P k)" by simp_all
  note q = process_event_vector_ok [OF assms, unfolded nb k]
  show "gone = map (\<lambda>i. fst (r i)) (dropped (\<lambda>i. snd (r i)) ?n)"
    unfolding q(1) by (rule map_cong) (use lt in auto)
  show "map (\<lambda>i. (mb_data (vec_mbufs v i), mb_id (vec_mbufs v i), vec_dst v i)) [0..<unat (vec_nb v)]
      = map (\<lambda>i. (mb_data (fst (r i)), mb_id (fst (r i)), snd (r i))) (kept (\<lambda>i. snd (r i)) ?n)"
    unfolding q(3) by (rule map_cong) (use lt in auto)
qed

section \<open>Properties\<close>

text \<open>A vector after forwarding: the packets marked bad are freed and no others, the others stay
  in the vector in their order with their data, and the port the vector gives each of them, by its common
  port or by the mbuf, is the one that was computed for it. This holds for any length, also when every packet was bad.\<close>

lemma process_event_vector_keeps:
  "let (v, gone) = process_event_vector vec D; n = unat (vec_nb vec)
   in gone = map (vec_mbufs vec) (dropped D n)
    \<and> map (\<lambda>i. (mb_data (vec_mbufs v i), mb_id (vec_mbufs v i), vec_dst v i)) [0..<unat (vec_nb v)]
      = map (\<lambda>i. (mb_data (vec_mbufs vec i), mb_id (vec_mbufs vec i), D i)) (kept D n)"
proof -
  obtain v gone where r: "process_event_vector vec D = (v, gone)" by fastforce
  show ?thesis using process_event_vector_ok [OF r] by (simp add: r)
qed

end
