(* ===== verification/Em_Forward.thy ===== *)
theory Em_Forward
  imports Poll_Loop Event_Vec Route_Parse
begin

text \<open>
  Forwarding by exact match: \<open>l3fwd/l3fwd_em.c\<close>, \<open>l3fwd_em_hlm.h\<close> (lookups in bulk),
  \<open>l3fwd_em_sequential.h\<close> and \<open>l3fwd_em.h\<close> (no vector instructions). The hash tables of the library
  are the record \<open>hash_api\<close>; a key is the bytes of \<open>union ipv4_5tuple_host\<close> or
  \<open>union ipv6_5tuple_host\<close>. The two arrays of output ports, the masks and the tables of a socket are
  the record \<open>em_state\<close>. The host is little endian.
\<close>

section \<open>Keys\<close>

definition le16 :: "u16 \<Rightarrow> u8 list" where
  "le16 v = [ucast v, ucast (drop_bit 8 v)]"

definition le32 :: "u32 \<Rightarrow> u8 list" where
  "le32 v = [ucast v, ucast (drop_bit 8 v), ucast (drop_bit 16 v), ucast (drop_bit 24 v)]"

text \<open>The fields of the unions, in the order of the declaration; \<open>kh_pad1\<close> of the IPv6 union
  is one byte, its \<open>pad0\<close> two.\<close>

record ipv4_5tuple_host =
  k4_pad0 :: u8
  k4_proto :: u8
  k4_pad1 :: u16
  k4_src :: u32
  k4_dst :: u32
  k4_sport :: u16
  k4_dport :: u16

record ipv6_5tuple_host =
  k6_pad0 :: u16
  k6_proto :: u8
  k6_pad1 :: u8
  k6_src :: "u8 list"
  k6_dst :: "u8 list"
  k6_sport :: u16
  k6_dport :: u16
  k6_reserve :: u64

definition xmm4 :: "ipv4_5tuple_host \<Rightarrow> u8 list" where
  "xmm4 k = [k4_pad0 k, k4_proto k] @ le16 (k4_pad1 k) @ le32 (k4_src k) @ le32 (k4_dst k)
     @ le16 (k4_sport k) @ le16 (k4_dport k)"

definition xmm6 :: "ipv6_5tuple_host \<Rightarrow> u8 list" where
  "xmm6 k = le16 (k6_pad0 k) @ [k6_proto k, k6_pad1 k] @ k6_src k @ k6_dst k
     @ le16 (k6_sport k) @ le16 (k6_dport k) @ le64 (k6_reserve k)"

definition convert_ipv4_5tuple :: "u32 five_tuple \<Rightarrow> ipv4_5tuple_host" where
  "convert_ipv4_5tuple key1 =
     \<lparr> k4_pad0 = 0, k4_proto = proto key1, k4_pad1 = 0, k4_src = bswap32 (ip_src key1), k4_dst = bswap32 (ip_dst key1),
       k4_sport = bswap16 (port_src key1), k4_dport = bswap16 (port_dst key1) \<rparr>"

definition convert_ipv6_5tuple :: "u8 list five_tuple \<Rightarrow> ipv6_5tuple_host" where
  "convert_ipv6_5tuple key1 =
     \<lparr> k6_pad0 = 0, k6_proto = proto key1, k6_pad1 = 0, k6_src = map (\<lambda>i. ip_src key1 ! i) [0..<16],
       k6_dst = map (\<lambda>i. ip_dst key1 ! i) [0..<16], k6_sport = bswap16 (port_src key1),
       k6_dport = bswap16 (port_dst key1), k6_reserve = 0 \<rparr>"

text \<open>\<open>em_mask_key\<close> loads sixteen bytes and masks them; the masks are the arrays of 32-bit words the
  set-up stores.\<close>

definition em_mask_key :: "mem \<Rightarrow> nat \<Rightarrow> u8 list \<Rightarrow> u8 list" where
  "em_mask_key m a msk = map2 (AND) (ldn m a 16) msk"

definition ALL_32_BITS :: u32 where "ALL_32_BITS = 0xffffffff"
definition BIT_8_TO_15 :: u32 where "BIT_8_TO_15 = 0x0000ff00"
definition BIT_16_TO_23 :: u32 where "BIT_16_TO_23 = 0x00ff0000"

definition xmm_u32 :: "u32 list \<Rightarrow> u8 list" where
  "xmm_u32 ws = concat (map le32 ws)"

section \<open>Tables\<close>

text \<open>\<open>rte_hash_create\<close> gets the length of a key. \<open>rte_hash_add_key\<close> gives the position of the key, \<open>rte_hash_lookup\<close> its position or a
  negative number, \<open>rte_hash_lookup_bulk\<close> the results for an array of keys.\<close>

record 'h hash_api =
  h_create :: "nat \<Rightarrow> 'h option"
  h_add :: "'h \<Rightarrow> u8 list \<Rightarrow> int \<times> 'h"
  h_lookup :: "'h \<Rightarrow> u8 list \<Rightarrow> int"
  h_bulk :: "'h \<Rightarrow> u8 list list \<Rightarrow> int list"

definition hash_ok :: "'h hash_api \<Rightarrow> bool" where
  "hash_ok A \<longleftrightarrow>
     (\<forall>len h0 k. h_create A len = Some h0 \<longrightarrow> h_lookup A h0 k < 0) \<and>
     (\<forall>h k r h'. h_add A h k = (r, h') \<longrightarrow> 0 \<le> r \<longrightarrow>
        h_lookup A h' k = r \<and> (0 \<le> h_lookup A h k \<longrightarrow> r = h_lookup A h k) \<and>
        (\<forall>k'. k' \<noteq> k \<longrightarrow> h_lookup A h' k' = h_lookup A h k' \<and> h_lookup A h k' \<noteq> r)) \<and>
     (\<forall>h ks. h_bulk A h ks = map (h_lookup A h) ks)"

record 'h em_state =
  em_h4 :: 'h
  em_h6 :: 'h
  em_out4 :: "nat \<Rightarrow> u8"
  em_out6 :: "nat \<Rightarrow> u8"
  em_mask0 :: "u8 list"
  em_mask1 :: "u8 list"
  em_mask2 :: "u8 list"

definition IP4_TTL :: nat where "IP4_TTL = ETH_LEN + 8"
definition IP6_PAYLOAD_LEN :: nat where "IP6_PAYLOAD_LEN = ETH_LEN + 4"

definition get_ipv4_5tuple :: "'h em_state \<Rightarrow> mem \<Rightarrow> u8 list" where
  "get_ipv4_5tuple T m = em_mask_key m IP4_TTL (em_mask0 T)"

definition get_ipv6_5tuple :: "'h em_state \<Rightarrow> mem \<Rightarrow> u8 list" where
  "get_ipv6_5tuple T m =
     em_mask_key m IP6_PAYLOAD_LEN (em_mask1 T) @ ldn m (IP6_PAYLOAD_LEN + 16) 16
     @ em_mask_key m (IP6_PAYLOAD_LEN + 32) (em_mask2 T)"

text \<open>The key of an IPv6 packet in \<open>l3fwd_em_hlm_neon.h\<close>, where the second and third load are 8 and 16 bytes on and not 16 and
  32; that of an IPv4 packet is the same. Which one the bulk lookups use is their parameter \<open>K\<close>.\<close>

definition get_ipv6_5tuple_neon :: "'h em_state \<Rightarrow> mem \<Rightarrow> u8 list" where
  "get_ipv6_5tuple_neon T m =
     em_mask_key m IP6_PAYLOAD_LEN (em_mask1 T) @ ldn m (IP6_PAYLOAD_LEN + 8) 16
     @ em_mask_key m (IP6_PAYLOAD_LEN + 16) (em_mask2 T)"

type_synonym 'h key6 = "'h em_state \<Rightarrow> mem \<Rightarrow> u8 list"

definition em_get_ipv4_dst_port :: "'h hash_api \<Rightarrow> 'h em_state \<Rightarrow> mem \<Rightarrow> u16 \<Rightarrow> u16" where
  "em_get_ipv4_dst_port A T m portid =
     (let ret = h_lookup A (em_h4 T) (em_mask_key m IP4_TTL (em_mask0 T))
      in if ret < 0 then portid else ucast (em_out4 T (nat ret)))"

definition em_get_ipv6_dst_port :: "'h hash_api \<Rightarrow> 'h em_state \<Rightarrow> mem \<Rightarrow> u16 \<Rightarrow> u16" where
  "em_get_ipv6_dst_port A T m portid =
     (let key = em_mask_key m IP6_PAYLOAD_LEN (em_mask1 T) @ ldn m (IP6_PAYLOAD_LEN + 16) 16
                @ em_mask_key m (IP6_PAYLOAD_LEN + 32) (em_mask2 T);
          ret = h_lookup A (em_h6 T) key
      in if ret < 0 then portid else ucast (em_out6 T (nat ret)))"

section \<open>Filling the tables\<close>

text \<open>The loop over the rules, for either family: \<open>key\<close> is the conversion. A rule whose
  port is disabled is left out.\<close>

fun em_populate :: "u32 \<Rightarrow> 'h hash_api \<Rightarrow> (u8 \<Rightarrow> bool) \<Rightarrow> ('a five_tuple \<Rightarrow> u8 list) \<Rightarrow> nat \<Rightarrow> 'a em_rule list \<Rightarrow>
    'h \<Rightarrow> (nat \<Rightarrow> u8) \<Rightarrow> setup_exit + 'h \<times> (nat \<Rightarrow> u8)" where
  "em_populate msk A dev key i [] h out = Inr (h, out)"
| "em_populate msk A dev key i (r # rs) h out =
     (if \<not> in_mask msk (unat (em_out r)) then em_populate msk A dev key (i + 1) rs h out
      else let (ret, h') = h_add A h (key (em_key r))
           in if ret < 0 then Inl (Exit_add i)
              else let out' = out(nat ret := em_out r)
                   in if \<not> dev (em_out r) then Inl (Exit_dev_info (em_out r))
                      else em_populate msk A dev key (i + 1) rs h' out')"

definition populate_ipv4_flow_into_table ::
    "u32 \<Rightarrow> 'h hash_api \<Rightarrow> (u8 \<Rightarrow> bool) \<Rightarrow> u32 em_rule list \<Rightarrow> 'h em_state \<Rightarrow> setup_exit + 'h em_state" where
  "populate_ipv4_flow_into_table msk A dev rs T =
     (let T0 = T\<lparr>em_mask0 := xmm_u32 [BIT_8_TO_15, ALL_32_BITS, ALL_32_BITS, ALL_32_BITS]\<rparr>
      in case em_populate msk A dev (\<lambda>k. xmm4 (convert_ipv4_5tuple k)) 0 rs (em_h4 T0) (em_out4 T0) of
           Inl e \<Rightarrow> Inl e
         | Inr (h, out) \<Rightarrow> Inr (T0\<lparr>em_h4 := h, em_out4 := out\<rparr>))"

definition populate_ipv6_flow_into_table ::
    "u32 \<Rightarrow> 'h hash_api \<Rightarrow> (u8 \<Rightarrow> bool) \<Rightarrow> u8 list em_rule list \<Rightarrow> 'h em_state \<Rightarrow> setup_exit + 'h em_state" where
  "populate_ipv6_flow_into_table msk A dev rs T =
     (let T0 = T\<lparr>em_mask1 := xmm_u32 [BIT_16_TO_23, ALL_32_BITS, ALL_32_BITS, ALL_32_BITS],
                 em_mask2 := xmm_u32 [ALL_32_BITS, ALL_32_BITS, 0, 0]\<rparr>
      in case em_populate msk A dev (\<lambda>k. xmm6 (convert_ipv6_5tuple k)) 0 rs (em_h6 T0) (em_out6 T0) of
           Inl e \<Rightarrow> Inl e
         | Inr (h, out) \<Rightarrow> Inr (T0\<lparr>em_h6 := h, em_out6 := out\<rparr>))"

text \<open>\<open>out4\<close> and \<open>out6\<close> are what the arrays hold before, the masks are zero.\<close>

definition setup_hash :: "u32 \<Rightarrow> 'h hash_api \<Rightarrow> (u8 \<Rightarrow> bool) \<Rightarrow> bool \<Rightarrow>
    u32 em_rule list \<Rightarrow> u8 list em_rule list \<Rightarrow> (nat \<Rightarrow> u8) \<Rightarrow> (nat \<Rightarrow> u8) \<Rightarrow> setup_exit + 'h em_state" where
  "setup_hash msk A dev ipv6 rs4 rs6 out4 out6 =
     (case h_create A 16 of None \<Rightarrow> Inl Exit_create
      | Some h4 \<Rightarrow>
          (case h_create A 48 of None \<Rightarrow> Inl Exit_create
           | Some h6 \<Rightarrow>
               let T = \<lparr>em_h4 = h4, em_h6 = h6, em_out4 = out4, em_out6 = out6,
                        em_mask0 = replicate 16 0, em_mask1 = replicate 16 0, em_mask2 = replicate 16 0\<rparr>
               in if \<not> ipv6 then populate_ipv4_flow_into_table msk A dev rs4 T
                  else populate_ipv6_flow_into_table msk A dev rs6 T))"

section \<open>The five tuple of a packet\<close>

definition five_tuple4 :: "mem \<Rightarrow> u32 five_tuple" where
  "five_tuple4 m = \<lparr>ip_dst = bswap32 (ld32 m (ETH_LEN + 16)), ip_src = bswap32 (ld32 m (ETH_LEN + 12)),
     port_dst = bswap16 (ld16 m (ETH_LEN + 22)), port_src = bswap16 (ld16 m (ETH_LEN + 20)), proto = m (ETH_LEN + 9)\<rparr>"

definition five_tuple6 :: "mem \<Rightarrow> u8 list five_tuple" where
  "five_tuple6 m = \<lparr>ip_dst = ldn m (ETH_LEN + 24) 16, ip_src = ldn m (ETH_LEN + 8) 16,
     port_dst = bswap16 (ld16 m (ETH_LEN + 42)), port_src = bswap16 (ld16 m (ETH_LEN + 40)), proto = m (ETH_LEN + 6)\<rparr>"

lemma no_bit8: "8 \<le> k \<Longrightarrow> \<not> bit (x :: u8) k"
  by (auto dest: bit_imp_le_length)

lemma le16_ld16: "le16 (ld16 m a) = [m a, m (a + 1)]"
  unfolding le16_def by (auto simp: ld16_def bit_simps no_bit8 intro!: bit_word_eqI)

lemma le32_ld32: "le32 (ld32 m a) = [m a, m (a + 1), m (a + 2), m (a + 3)]"
  unfolding le32_def by (auto simp: ld32_def bit_simps no_bit8 intro!: bit_word_eqI)

lemma le16_0: "le16 0 = [0, 0]"
  by (simp add: le16_def)

lemma le16_inject [simp]: "le16 v = le16 w \<longleftrightarrow> v = w"
proof
  assume "le16 v = le16 w"
  then have "ucast v = (ucast w :: u8)" "ucast (drop_bit 8 v) = (ucast (drop_bit 8 w) :: u8)"
    by (simp_all add: le16_def)
  then have "ld16 (\<lambda>i. le16 v ! i) 0 = ld16 (\<lambda>i. le16 w ! i) 0" by (simp add: le16_def)
  moreover have "ld16 (\<lambda>i. le16 u ! i) 0 = u" for u
    by (rule bit_word_eqI) (auto simp: ld16_def le16_def bit_simps)
  ultimately show "v = w" by simp
qed simp

lemma le32_inject [simp]: "le32 v = le32 w \<longleftrightarrow> v = w"
proof
  have "ld32 (\<lambda>i. le32 u ! i) 0 = u" for u
  proof (rule bit_word_eqI)
    fix n assume n: "n < LENGTH(32)"
    consider "n < 8" | "8 \<le> n" "n < 16" | "16 \<le> n" "n < 24" | "24 \<le> n" by linarith
    then show "bit (ld32 (\<lambda>i. le32 u ! i) 0) n = bit u n"
      by cases (use n in \<open>auto simp: ld32_def le32_def bit_simps\<close>)
  qed
  moreover assume "le32 v = le32 w"
  ultimately show "v = w" by metis
qed simp

lemma bswap_inject [simp]: "bswap16 v = bswap16 w \<longleftrightarrow> v = w" "bswap32 a = bswap32 b \<longleftrightarrow> a = b"
  by (metis bswap16_bswap16, metis bswap32_bswap32)

lemma key4_inj: "xmm4 (convert_ipv4_5tuple k) = xmm4 (convert_ipv4_5tuple k') \<longleftrightarrow> k = k'"
proof -
  have l: "length (le16 v) = 2" "length (le32 w) = 4" for v w by (simp_all add: le16_def le32_def)
  show ?thesis by (auto simp: xmm4_def convert_ipv4_5tuple_def l)
qed

definition addr16 :: "u8 list five_tuple \<Rightarrow> bool" where
  "addr16 k \<longleftrightarrow> length (ip_src k) = 16 \<and> length (ip_dst k) = 16"

lemma map_nth16: "length xs = 16 \<Longrightarrow> map ((!) xs) [0..<16] = xs"
  using map_nth [of xs] by simp

lemma key6_inj:
  assumes "addr16 k" and "addr16 k'"
  shows "xmm6 (convert_ipv6_5tuple k) = xmm6 (convert_ipv6_5tuple k') \<longleftrightarrow> k = k'"
proof -
  have l: "length (le16 v) = 2" for v by (simp add: le16_def)
  show ?thesis using assms
    by (auto simp: xmm6_def convert_ipv6_5tuple_def l addr16_def map_nth16)
qed

lemma le32_masks:
  "le32 BIT_8_TO_15 = [0, 0xff, 0, 0]" "le32 BIT_16_TO_23 = [0, 0, 0xff, 0]"
  "le32 ALL_32_BITS = [0xff, 0xff, 0xff, 0xff]" "le32 0 = [0, 0, 0, 0]"
  by (simp_all add: le32_def BIT_8_TO_15_def BIT_16_TO_23_def ALL_32_BITS_def)

lemma and_ff: "x AND 0xff = (x :: u8)"
proof -
  have "(0xff :: u8) = - 1" by simp
  then show ?thesis by (metis and.right_neutral)
qed

lemma key4_of_packet:
  assumes "em_mask0 T = xmm_u32 [BIT_8_TO_15, ALL_32_BITS, ALL_32_BITS, ALL_32_BITS]"
  shows "em_mask_key m IP4_TTL (em_mask0 T) = xmm4 (convert_ipv4_5tuple (five_tuple4 m))"
proof -
  have l: "ldn m IP4_TTL 16 = map m [22, 23, 24, 25, 26, 27, 28, 29, 30, 31, 32, 33, 34, 35, 36, 37]"
    by (simp add: ldn_def IP4_TTL_def ETH_LEN_def upt_rec)
  note a = and_ff
  show ?thesis
    unfolding em_mask_key_def l assms
    by (simp add: xmm_u32_def le32_masks xmm4_def convert_ipv4_5tuple_def five_tuple4_def
        le32_ld32 le16_ld16 le16_0 ETH_LEN_def a)
qed

lemma key6_of_packet:
  assumes "em_mask1 T = xmm_u32 [BIT_16_TO_23, ALL_32_BITS, ALL_32_BITS, ALL_32_BITS]"
    and "em_mask2 T = xmm_u32 [ALL_32_BITS, ALL_32_BITS, 0, 0]"
  shows "em_mask_key m IP6_PAYLOAD_LEN (em_mask1 T) @ ldn m (IP6_PAYLOAD_LEN + 16) 16
      @ em_mask_key m (IP6_PAYLOAD_LEN + 32) (em_mask2 T) = xmm6 (convert_ipv6_5tuple (five_tuple6 m))"
proof -
  have l: "ldn m a 16 = map (\<lambda>k. m (a + k)) [0, 1, 2, 3, 4, 5, 6, 7, 8, 9, 10, 11, 12, 13, 14, 15]" for a
    by (simp add: ldn_def upt_rec numeral_eq_Suc)
  note a = and_ff
  have z: "le64 0 = [0, 0, 0, 0, 0, 0, 0, 0]" by (simp add: le64_def upt_8)
  have n: "map ((!) (ldn m a 16)) [0..<16] = ldn m a 16" for a by (simp add: map_nth16)
  show ?thesis
    unfolding em_mask_key_def assms xmm6_def convert_ipv6_5tuple_def five_tuple6_def
      ipv6_5tuple_host.simps five_tuple.simps n
    by (simp add: l xmm_u32_def le32_masks le16_ld16 le16_0 ETH_LEN_def IP6_PAYLOAD_LEN_def z a)
qed

section \<open>What a filled table says\<close>

text \<open>The abstract table: the port stored for a key.\<close>

definition em_view :: "'h hash_api \<Rightarrow> 'h \<Rightarrow> (nat \<Rightarrow> u8) \<Rightarrow> u8 list \<Rightarrow> u8 option" where
  "em_view A h out k = (if h_lookup A h k < 0 then None else Some (out (nat (h_lookup A h k))))"

definition em_rules :: "u32 \<Rightarrow> 'a em_rule list \<Rightarrow> ('a five_tuple \<times> u8) list" where
  "em_rules msk rs = rev (map (\<lambda>r. (em_key r, em_out r)) (filter (\<lambda>r. in_mask msk (unat (em_out r))) rs))"

lemma em_view_add:
  assumes "hash_ok A" and "h_add A h k = (r, h')" and "0 \<le> r"
  shows "em_view A h' (out(nat r := p)) = (em_view A h out)(k \<mapsto> p)"
proof
  fix k'
  have a: "h_lookup A h' k = r" "\<And>k'. k' \<noteq> k \<Longrightarrow> h_lookup A h' k' = h_lookup A h k' \<and> h_lookup A h k' \<noteq> r"
    using assms by (auto simp: hash_ok_def)
  show "em_view A h' (out(nat r := p)) k' = ((em_view A h out)(k \<mapsto> p)) k'"
    using a(1) a(2) [of k'] assms(3) by (cases "k' = k") (auto simp: em_view_def nat_eq_iff)
qed

lemma em_populate_view:
  assumes "hash_ok A"
  shows "em_populate msk A dev key i rs h out = Inr (h', out') \<Longrightarrow>
    em_view A h' out' = em_view A h out ++ map_of (map (\<lambda>(k, p). (key k, p)) (em_rules msk rs))"
proof (induction rs arbitrary: i h out)
  case (Cons r rs)
  show ?case
  proof (cases "in_mask msk (unat (em_out r))")
    case False
    then show ?thesis using Cons by (simp add: em_rules_def)
  next
    case True
    obtain q h1 where a: "h_add A h (key (em_key r)) = (q, h1)" by fastforce
    then have q: "\<not> q < 0" and p: "em_populate msk A dev key (i + 1) rs h1 (out(nat q := em_out r)) = Inr (h', out')"
      using Cons.prems True by (auto simp: Let_def split: if_splits)
    have "em_view A h1 (out(nat q := em_out r)) = (em_view A h out)(key (em_key r) \<mapsto> em_out r)"
      using em_view_add [OF assms a] q by simp
    then show ?thesis unfolding Cons.IH [OF p]
      using True by (simp add: em_rules_def rev_map map_add_upd_left map_of_append map_add_assoc)
  qed
qed (simp add: em_rules_def)

lemma map_of_inj_key:
  "(\<And>k'. k' \<in> fst ` set xs \<Longrightarrow> key k = key k' \<Longrightarrow> k = k') \<Longrightarrow>
    map_of (map (\<lambda>(k, p). (key k, p)) xs) (key k) = map_of xs k"
  by (induction xs) (auto split: if_splits)

text \<open>The table of a socket holds the rules.\<close>

definition em_table4 :: "'h hash_api \<Rightarrow> 'h em_state \<Rightarrow> (u32 five_tuple \<times> u8) list \<Rightarrow> bool" where
  "em_table4 A T rs \<longleftrightarrow> em_mask0 T = xmm_u32 [BIT_8_TO_15, ALL_32_BITS, ALL_32_BITS, ALL_32_BITS]
     \<and> (\<forall>k. em_view A (em_h4 T) (em_out4 T) (xmm4 (convert_ipv4_5tuple k)) = map_of rs k)"

definition em_table6 :: "'h hash_api \<Rightarrow> 'h em_state \<Rightarrow> (u8 list five_tuple \<times> u8) list \<Rightarrow> bool" where
  "em_table6 A T rs \<longleftrightarrow> em_mask1 T = xmm_u32 [BIT_16_TO_23, ALL_32_BITS, ALL_32_BITS, ALL_32_BITS]
     \<and> em_mask2 T = xmm_u32 [ALL_32_BITS, ALL_32_BITS, 0, 0]
     \<and> (\<forall>k. addr16 k \<longrightarrow> em_view A (em_h6 T) (em_out6 T) (xmm6 (convert_ipv6_5tuple k)) = map_of rs k)"

lemma em_view_empty: "hash_ok A \<Longrightarrow> h_create A len = Some h \<Longrightarrow> em_view A h out = Map.empty"
  by (auto simp: hash_ok_def em_view_def fun_eq_iff)

lemma setup_hash_table4:
  assumes "hash_ok A" and "setup_hash msk A dev False rs4 rs6 o4 o6 = Inr T"
  shows "em_table4 A T (em_rules msk rs4)"
proof -
  let ?key = "\<lambda>k. xmm4 (convert_ipv4_5tuple k)"
  obtain h4 h out where c: "h_create A 16 = Some h4"
    and p: "em_populate msk A dev ?key 0 rs4 h4 o4 = Inr (h, out)"
    and T: "em_h4 T = h" "em_out4 T = out" "em_mask0 T = xmm_u32 [BIT_8_TO_15, ALL_32_BITS, ALL_32_BITS, ALL_32_BITS]"
    using assms(2) by (auto simp: setup_hash_def populate_ipv4_flow_into_table_def Let_def split: option.splits sum.splits)
  have "em_view A h out (?key k) = map_of (em_rules msk rs4) k" for k
    unfolding em_populate_view [OF assms(1) p] em_view_empty [OF assms(1) c] empty_map_add
    by (rule map_of_inj_key [where key = ?key]) (simp add: key4_inj)
  then show ?thesis using T by (simp add: em_table4_def)
qed

lemma setup_hash_table6:
  assumes "hash_ok A" and "setup_hash msk A dev True rs4 rs6 o4 o6 = Inr T" and "\<forall>r \<in> set rs6. addr16 (em_key r)"
  shows "em_table6 A T (em_rules msk rs6)"
proof -
  let ?key = "\<lambda>k. xmm6 (convert_ipv6_5tuple k)"
  obtain h6 h out where c: "h_create A 48 = Some h6"
    and p: "em_populate msk A dev ?key 0 rs6 h6 o6 = Inr (h, out)"
    and T: "em_h6 T = h" "em_out6 T = out" "em_mask1 T = xmm_u32 [BIT_16_TO_23, ALL_32_BITS, ALL_32_BITS, ALL_32_BITS]"
      "em_mask2 T = xmm_u32 [ALL_32_BITS, ALL_32_BITS, 0, 0]"
    using assms(2) by (auto simp: setup_hash_def populate_ipv6_flow_into_table_def Let_def split: option.splits sum.splits)
  have "em_view A h out (?key k) = map_of (em_rules msk rs6) k" if "addr16 k" for k
    unfolding em_populate_view [OF assms(1) p] em_view_empty [OF assms(1) c] empty_map_add
    by (rule map_of_inj_key [where key = ?key]) (use that assms(3) in \<open>auto simp: em_rules_def key6_inj\<close>)
  then show ?thesis using T by (simp add: em_table6_def)
qed

lemma em_get_ipv4:
  assumes "em_table4 A T rs"
  shows "em_get_ipv4_dst_port A T m portid = (case map_of rs (five_tuple4 m) of None \<Rightarrow> portid | Some p \<Rightarrow> ucast p)"
proof -
  have "em_view A (em_h4 T) (em_out4 T) (em_mask_key m IP4_TTL (em_mask0 T)) = map_of rs (five_tuple4 m)"
    using assms key4_of_packet [of T m] by (simp add: em_table4_def)
  then show ?thesis by (auto simp: em_get_ipv4_dst_port_def em_view_def Let_def split: if_splits option.splits)
qed

lemma em_get_ipv6:
  assumes "em_table6 A T rs"
  shows "em_get_ipv6_dst_port A T m portid = (case map_of rs (five_tuple6 m) of None \<Rightarrow> portid | Some p \<Rightarrow> ucast p)"
proof -
  have "addr16 (five_tuple6 m)" by (simp add: addr16_def five_tuple6_def)
  then have "em_view A (em_h6 T) (em_out6 T) (em_mask_key m IP6_PAYLOAD_LEN (em_mask1 T) @ ldn m (IP6_PAYLOAD_LEN + 16) 16
      @ em_mask_key m (IP6_PAYLOAD_LEN + 32) (em_mask2 T)) = map_of rs (five_tuple6 m)"
    using assms key6_of_packet [of T m] by (simp add: em_table6_def)
  then show ?thesis by (auto simp: em_get_ipv6_dst_port_def em_view_def Let_def split: if_splits option.splits)
qed

section \<open>The destination port of a packet\<close>

definition em_l3_type :: "dpdk \<Rightarrow> mbuf \<Rightarrow> u32" where
  "em_l3_type E m = packet_type m AND ptype_l3_mask E"

definition em_l4_type :: "dpdk \<Rightarrow> mbuf \<Rightarrow> u32" where
  "em_l4_type E m = packet_type m AND l4_types E"

definition em_get_dst_port :: "dpdk \<Rightarrow> glob \<Rightarrow> 'h hash_api \<Rightarrow> 'h em_state \<Rightarrow> mbuf \<Rightarrow> u16 \<Rightarrow> u16" where
  "em_get_dst_port E G A T pkt portid =
     (let tcp_or_udp = packet_type pkt AND (ptype_l4_tcp E OR ptype_l4_udp E);
          l3_ptypes = packet_type pkt AND ptype_l3_mask E
      in if tcp_or_udp \<noteq> 0 \<and> l3_ptypes = ptype_l3_ipv4 E then
           let next_hop = em_get_ipv4_dst_port A T (mb_data pkt) portid
           in if \<not> port_enabled E G next_hop then portid else next_hop
         else if tcp_or_udp \<noteq> 0 \<and> l3_ptypes = ptype_l3_ipv6 E then
           let next_hop = em_get_ipv6_dst_port A T (mb_data pkt) portid
           in if \<not> port_enabled E G next_hop then portid else next_hop
         else portid)"

text \<open>In \<open>l3fwd_em_sequential.h\<close> the variable \<open>next_hop\<close> is a \<open>uint8_t\<close>.\<close>

definition em_get_dst_port_sequential :: "dpdk \<Rightarrow> glob \<Rightarrow> 'h hash_api \<Rightarrow> 'h em_state \<Rightarrow> mbuf \<Rightarrow> u16 \<Rightarrow> u16" where
  "em_get_dst_port_sequential E G A T pkt portid =
     (let tcp_or_udp = packet_type pkt AND (ptype_l4_tcp E OR ptype_l4_udp E);
          l3_ptypes = packet_type pkt AND ptype_l3_mask E
      in if tcp_or_udp \<noteq> 0 \<and> l3_ptypes = ptype_l3_ipv4 E then
           let next_hop = ucast (em_get_ipv4_dst_port A T (mb_data pkt) portid) :: u8
           in ucast (if \<not> port_enabled E G (ucast next_hop) then ucast portid else next_hop)
         else if tcp_or_udp \<noteq> 0 \<and> l3_ptypes = ptype_l3_ipv6 E then
           let next_hop = ucast (em_get_ipv6_dst_port A T (mb_data pkt) portid) :: u8
           in ucast (if \<not> port_enabled E G (ucast next_hop) then ucast portid else next_hop)
         else portid)"

section \<open>Lookups in bulk\<close>

text \<open>\<open>EM_HASH_LOOKUP_COUNT\<close>, here \<open>N\<close>, is 16 on ARM64 and 8 elsewhere. The two routines
  look up the keys of \<open>N\<close> packets with one call; in the variants for events the receiving port of a packet is in the mbuf.\<close>

definition em_dst_xN :: "dpdk \<Rightarrow> glob \<Rightarrow> (nat \<Rightarrow> u8) \<Rightarrow> (nat \<Rightarrow> u16) \<Rightarrow> nat \<Rightarrow> int list \<Rightarrow> nat \<Rightarrow> (nat \<Rightarrow> u16) \<Rightarrow> (nat \<Rightarrow> u16)" where
  "em_dst_xN E G out own j ret N dst_port =
     fold (\<lambda>i D. let d = (if ret ! i < 0 then own (j + i) else ucast (out (nat (ret ! i))))
                 in D(j + i := if \<not> port_enabled E G d then own (j + i) else d)) [0..<N] dst_port"

definition em_get_dst_port_ipv4xN :: "dpdk \<Rightarrow> glob \<Rightarrow> 'h hash_api \<Rightarrow> 'h em_state \<Rightarrow> nat \<Rightarrow> (nat \<Rightarrow> mbuf) \<Rightarrow> nat \<Rightarrow>
    u16 \<Rightarrow> (nat \<Rightarrow> u16) \<Rightarrow> (nat \<Rightarrow> u16)" where
  "em_get_dst_port_ipv4xN E G A T N m j portid dst_port =
     (let ret = h_bulk A (em_h4 T) (map (\<lambda>i. get_ipv4_5tuple T (mb_data (m (j + i)))) [0..<N])
      in em_dst_xN E G (em_out4 T) (\<lambda>_. portid) j ret N dst_port)"

definition em_get_dst_port_ipv6xN :: "dpdk \<Rightarrow> glob \<Rightarrow> 'h hash_api \<Rightarrow> 'h em_state \<Rightarrow> 'h key6 \<Rightarrow> nat \<Rightarrow> (nat \<Rightarrow> mbuf) \<Rightarrow> nat \<Rightarrow>
    u16 \<Rightarrow> (nat \<Rightarrow> u16) \<Rightarrow> (nat \<Rightarrow> u16)" where
  "em_get_dst_port_ipv6xN E G A T K N m j portid dst_port =
     (let ret = h_bulk A (em_h6 T) (map (\<lambda>i. K T (mb_data (m (j + i)))) [0..<N])
      in em_dst_xN E G (em_out6 T) (\<lambda>_. portid) j ret N dst_port)"

definition em_get_dst_port_ipv4xN_events :: "dpdk \<Rightarrow> glob \<Rightarrow> 'h hash_api \<Rightarrow> 'h em_state \<Rightarrow> nat \<Rightarrow> (nat \<Rightarrow> mbuf) \<Rightarrow> nat \<Rightarrow>
    (nat \<Rightarrow> u16) \<Rightarrow> (nat \<Rightarrow> u16)" where
  "em_get_dst_port_ipv4xN_events E G A T N m j dst_port =
     (let ret = h_bulk A (em_h4 T) (map (\<lambda>i. get_ipv4_5tuple T (mb_data (m (j + i)))) [0..<N])
      in em_dst_xN E G (em_out4 T) (\<lambda>i. mb_port (m i)) j ret N dst_port)"

definition em_get_dst_port_ipv6xN_events :: "dpdk \<Rightarrow> glob \<Rightarrow> 'h hash_api \<Rightarrow> 'h em_state \<Rightarrow> 'h key6 \<Rightarrow> nat \<Rightarrow> (nat \<Rightarrow> mbuf) \<Rightarrow> nat \<Rightarrow>
    (nat \<Rightarrow> u16) \<Rightarrow> (nat \<Rightarrow> u16)" where
  "em_get_dst_port_ipv6xN_events E G A T K N m j dst_port =
     (let ret = h_bulk A (em_h6 T) (map (\<lambda>i. K T (mb_data (m (j + i)))) [0..<N])
      in em_dst_xN E G (em_out6 T) (\<lambda>i. mb_port (m i)) j ret N dst_port)"

text \<open>The bits of \<open>pkt_type\<close> after the loop over a group.\<close>

definition em_group_type :: "dpdk \<Rightarrow> nat \<Rightarrow> (nat \<Rightarrow> mbuf) \<Rightarrow> nat \<Rightarrow> u32" where
  "em_group_type E N P j =
     fold (\<lambda>i t. t AND packet_type (P (j + i))) [0..<N] (ptype_l3_mask E OR ptype_l4_tcp E OR ptype_l4_udp E)"

section \<open>Bursts\<close>

definition em_group_ports :: "dpdk \<Rightarrow> glob \<Rightarrow> 'h hash_api \<Rightarrow> 'h em_state \<Rightarrow> 'h key6 \<Rightarrow> nat \<Rightarrow> u16 \<Rightarrow> (nat \<Rightarrow> mbuf) \<Rightarrow> nat \<Rightarrow>
    (nat \<Rightarrow> u16) \<Rightarrow> (nat \<Rightarrow> u16)" where
  "em_group_ports E G A T K N portid P j D =
     (let pkt_type = em_group_type E N P j;
          l3_type = pkt_type AND ptype_l3_mask E;
          tcp_or_udp = pkt_type AND (ptype_l4_tcp E OR ptype_l4_udp E)
      in if tcp_or_udp \<noteq> 0 \<and> l3_type = ptype_l3_ipv4 E then em_get_dst_port_ipv4xN E G A T N P j portid D
         else if tcp_or_udp \<noteq> 0 \<and> l3_type = ptype_l3_ipv6 E then em_get_dst_port_ipv6xN E G A T K N P j portid D
         else fold (\<lambda>i D. D(j + i := em_get_dst_port E G A T (P (j + i)) portid)) [0..<N] D)"

definition em_group :: "simd \<Rightarrow> dpdk \<Rightarrow> glob \<Rightarrow> 'h hash_api \<Rightarrow> 'h em_state \<Rightarrow> 'h key6 \<Rightarrow> nat \<Rightarrow> u16 \<Rightarrow> bool \<Rightarrow> nat \<Rightarrow> burst \<Rightarrow> burst" where
  "em_group U E G A T K N portid do_step3 j PD =
     (let (P, D) = PD; D1 = em_group_ports E G A T K N portid P j D
      in if do_step3 then fold (\<lambda>i. sd_step3 U E G (j + FWDSTEP * i)) [0..<N div FWDSTEP] (P, D1) else (P, D1))"

text \<open>In the loop over the last packets the rewriting gets \<open>&pkts_burst[j]->port\<close>, the receiving
  port in the mbuf, and not \<open>&dst_port[j]\<close>.\<close>

definition em_tail_step :: "simd \<Rightarrow> dpdk \<Rightarrow> glob \<Rightarrow> 'h hash_api \<Rightarrow> 'h em_state \<Rightarrow> u16 \<Rightarrow> bool \<Rightarrow> nat \<Rightarrow> burst \<Rightarrow> burst" where
  "em_tail_step U E G A T portid do_step3 j PD =
     (let (P, D) = PD; D1 = D(j := em_get_dst_port E G A T (P j) portid)
      in if do_step3 then let (m, p) = sd_proc U E G (P j) (mb_port (P j)) in (P(j := m\<lparr>mb_port := p\<rparr>), D1)
         else (P, D1))"

definition l3fwd_em_process_packets :: "simd \<Rightarrow> nat \<Rightarrow> dpdk \<Rightarrow> glob \<Rightarrow> 'h hash_api \<Rightarrow> 'h em_state \<Rightarrow> 'h key6 \<Rightarrow> nat \<Rightarrow> u16 \<Rightarrow> bool \<Rightarrow>
    burst \<Rightarrow> burst" where
  "l3fwd_em_process_packets U N E G A T K nb_rx portid do_step3 PD =
     (let n = nb_rx - nb_rx mod N;
          PD1 = fold (\<lambda>i. em_group U E G A T K N portid do_step3 (N * i)) [0..<n div N] PD
      in fold (em_tail_step U E G A T portid do_step3) [n..<nb_rx] PD1)"

definition l3fwd_em_send_packets :: "dpdk \<Rightarrow> glob \<Rightarrow> 'h hash_api \<Rightarrow> 'h em_state \<Rightarrow> (nat \<Rightarrow> nat) \<Rightarrow> nat \<Rightarrow> burst \<Rightarrow> u16 \<Rightarrow>
    lcore \<Rightarrow> (tx_stats \<times> lcore) option" where
  "l3fwd_em_send_packets E G A T pnum0 nb_rx PD portid s =
     (let PD' = l3fwd_em_process_packets sse_simd 8 E G A T get_ipv6_5tuple nb_rx portid False PD
      in send_packets_multi E G pnum0 PD' nb_rx s)"

definition l3fwd_em_send_packets_neon :: "dpdk \<Rightarrow> glob \<Rightarrow> 'h hash_api \<Rightarrow> 'h em_state \<Rightarrow> (nat \<Rightarrow> nat) \<Rightarrow> nat \<Rightarrow> burst \<Rightarrow> u16 \<Rightarrow>
    lcore \<Rightarrow> (tx_stats \<times> lcore) option" where
  "l3fwd_em_send_packets_neon E G A T pnum0 nb_rx PD portid s =
     (let PD' = l3fwd_em_process_packets neon_simd 16 E G A T get_ipv6_5tuple_neon nb_rx portid False PD
      in send_packets_multi_neon E G pnum0 PD' nb_rx s)"

text \<open>\<open>l3fwd_em_sequential.h\<close>.\<close>

definition l3fwd_em_send_packets_sequential :: "dpdk \<Rightarrow> glob \<Rightarrow> 'h hash_api \<Rightarrow> 'h em_state \<Rightarrow> (nat \<Rightarrow> nat) \<Rightarrow> nat \<Rightarrow>
    burst \<Rightarrow> u16 \<Rightarrow> lcore \<Rightarrow> (tx_stats \<times> lcore) option" where
  "l3fwd_em_send_packets_sequential E G A T pnum0 nb_rx PD portid s =
     (let (P, D) = PD;
          D1 = fold (\<lambda>j D. D(j := em_get_dst_port_sequential E G A T (P j) portid)) [0..<nb_rx] D
      in send_packets_multi E G pnum0 (P, D1) nb_rx s)"

section \<open>The burst routine gives the ports of the scalar one\<close>

text \<open>A packet with a type of TCP or UDP has no extension headers.\<close>

definition em_typed :: "dpdk \<Rightarrow> mbuf \<Rightarrow> bool" where
  "em_typed E m \<longleftrightarrow> em_l4_type E m = 0 \<or> em_l3_type E m \<in> {0, ptype_l3_ipv4 E, ptype_l3_ipv6 E}"

text \<open>A packet whose bulk key is the one of the scalar lookup.\<close>

definition em_keyed :: "dpdk \<Rightarrow> 'h em_state \<Rightarrow> 'h key6 \<Rightarrow> mbuf \<Rightarrow> bool" where
  "em_keyed E T K m \<longleftrightarrow> em_typed E m \<and> (em_l3_type E m = ptype_l3_ipv6 E \<longrightarrow> K T (mb_data m) = get_ipv6_5tuple T (mb_data m))"

lemma em_keyed_sse: "em_keyed E T get_ipv6_5tuple m = em_typed E m"
  by (simp add: em_keyed_def)

lemma bit_fold_and: "bit (fold (\<lambda>i w. w AND f i) is (a :: u32)) n \<longleftrightarrow> bit a n \<and> (\<forall>i \<in> set is. bit (f i) n)"
  by (induction "is" arbitrary: a) (auto simp: bit_simps)

lemma nonzero_bit: "(v :: u32) \<noteq> 0 \<Longrightarrow> \<exists>n. bit v n"
  by (metis bit_0_eq bot_apply bot_bool_def bit_eq_iff)

lemma em_group_bits:
  assumes "i < N"
  shows "bit (em_group_type E N P j AND ptype_l3_mask E) n \<Longrightarrow> bit (em_l3_type E (P (j + i))) n"
    and "bit (em_group_type E N P j AND l4_types E) n \<Longrightarrow> bit (em_l4_type E (P (j + i))) n"
  using assms by (auto simp: em_group_type_def bit_fold_and em_l3_type_def em_l4_type_def bit_simps)

lemma em_group_l4: "em_group_type E N P j AND l4_types E \<noteq> 0 \<Longrightarrow> i < N \<Longrightarrow> em_l4_type E (P (j + i)) \<noteq> 0"
  using nonzero_bit em_group_bits(2) by fastforce

lemma em_group_l3:
  assumes "em_ptype_ok E" and "em_group_type E N P j AND ptype_l3_mask E = t" and "t \<in> {ptype_l3_ipv4 E, ptype_l3_ipv6 E}"
    and "em_group_type E N P j AND l4_types E \<noteq> 0" and "i < N" and "em_typed E (P (j + i))"
  shows "em_l3_type E (P (j + i)) = t"
proof -
  let ?l3 = "em_l3_type E (P (j + i))"
  have "t \<noteq> 0" using assms(1,3) by (auto simp: em_ptype_ok_def)
  then obtain n where n: "bit t n" using nonzero_bit by blast
  then have b: "bit ?l3 n" using em_group_bits(1) [OF assms(5), of E P j n] by (simp add: assms(2))
  have "?l3 \<in> {0, ptype_l3_ipv4 E, ptype_l3_ipv6 E}"
    using assms(6) em_group_l4 [OF assms(4,5)] by (simp add: em_typed_def)
  moreover have "\<not> (bit (ptype_l3_ipv4 E) n \<and> bit (ptype_l3_ipv6 E) n)"
  proof -
    have "bit (ptype_l3_ipv4 E AND ptype_l3_ipv6 E) n = False" using assms(1) by (simp add: em_ptype_ok_def)
    then show ?thesis by (simp add: bit_simps)
  qed
  ultimately show ?thesis using b n assms(3) by auto
qed

lemma em_dst_xN_eq:
  "em_dst_xN E G out own j ret N D = (\<lambda>k. if j \<le> k \<and> k < j + N then
     (let d = (if ret ! (k - j) < 0 then own k else ucast (out (nat (ret ! (k - j)))))
      in if \<not> port_enabled E G d then own k else d) else D k)"
  by (induction N) (auto simp: em_dst_xN_def Let_def fun_eq_iff less_Suc_eq)

lemma fold_upd_range:
  "fold (\<lambda>i D. D(j + i := f (j + i))) [0..<N] D = (\<lambda>k. if j \<le> k \<and> k < j + (N :: nat) then f k else D k)"
  by (induction N) (auto simp: fun_eq_iff less_Suc_eq)

definition all_of_type :: "dpdk \<Rightarrow> u32 \<Rightarrow> (nat \<Rightarrow> mbuf) \<Rightarrow> nat \<Rightarrow> nat \<Rightarrow> bool" where
  "all_of_type E t P j N \<longleftrightarrow> (\<forall>k. j \<le> k \<and> k < j + N \<longrightarrow> em_l3_type E (P k) = t \<and> em_l4_type E (P k) \<noteq> 0)"

text \<open>The lookup of \<open>N\<close> packets of one family, with any default for each packet.\<close>

lemma em_dst4:
  assumes "hash_ok A" and "all_of_type E (ptype_l3_ipv4 E) P j N"
  shows "em_dst_xN E G (em_out4 T) own j
      (h_bulk A (em_h4 T) (map (\<lambda>i. get_ipv4_5tuple T (mb_data (P (j + i)))) [0..<N])) N D
    = (\<lambda>k. if j \<le> k \<and> k < j + N then em_get_dst_port E G A T (P k) (own k) else D k)"
proof -
  have bulk: "h_bulk A h ks = map (h_lookup A h) ks" for h ks using assms(1) by (simp add: hash_ok_def)
  show ?thesis using assms(2)
    by (auto simp: all_of_type_def em_dst_xN_eq bulk fun_eq_iff Let_def em_get_dst_port_def
          em_get_ipv4_dst_port_def get_ipv4_5tuple_def em_l3_type_def em_l4_type_def l4_types_def)
qed

lemma em_dst6:
  assumes "hash_ok A" and "em_ptype_ok E"
    and "all_of_type E (ptype_l3_ipv6 E) P j N" and "\<forall>i < N. em_keyed E T K (P (j + i))"
  shows "em_dst_xN E G (em_out6 T) own j
      (h_bulk A (em_h6 T) (map (\<lambda>i. K T (mb_data (P (j + i)))) [0..<N])) N D
    = (\<lambda>k. if j \<le> k \<and> k < j + N then em_get_dst_port E G A T (P k) (own k) else D k)"
proof -
  have bulk: "h_bulk A h ks = map (h_lookup A h) ks" for h ks using assms(1) by (simp add: hash_ok_def)
  have "map (\<lambda>i. K T (mb_data (P (j + i)))) [0..<N] = map (\<lambda>i. get_ipv6_5tuple T (mb_data (P (j + i)))) [0..<N]"
    using assms(3,4) by (auto simp: all_of_type_def em_keyed_def)
  note k = this
  have "ptype_l3_ipv4 E \<noteq> ptype_l3_ipv6 E" using assms(2) by (auto simp: em_ptype_ok_def)
  then show ?thesis unfolding k using assms(3)
    by (auto simp: all_of_type_def em_dst_xN_eq bulk fun_eq_iff Let_def em_get_dst_port_def
          em_get_ipv6_dst_port_def get_ipv6_5tuple_def em_l3_type_def em_l4_type_def l4_types_def)
qed

text \<open>What the bits common to a group say of its packets.\<close>

lemma em_group_cases:
  assumes "em_ptype_ok E" and "\<forall>i < N. em_typed E (P (j + i))"
  obtains (v4) "em_group_type E N P j AND l4_types E \<noteq> 0" "em_group_type E N P j AND ptype_l3_mask E = ptype_l3_ipv4 E"
      "all_of_type E (ptype_l3_ipv4 E) P j N"
    | (v6) "em_group_type E N P j AND l4_types E \<noteq> 0" "em_group_type E N P j AND ptype_l3_mask E = ptype_l3_ipv6 E"
      "ptype_l3_ipv4 E \<noteq> ptype_l3_ipv6 E"
      "all_of_type E (ptype_l3_ipv6 E) P j N"
    | (mix) "\<not> (em_group_type E N P j AND l4_types E \<noteq> 0 \<and> em_group_type E N P j AND ptype_l3_mask E = ptype_l3_ipv4 E)"
      "\<not> (em_group_type E N P j AND l4_types E \<noteq> 0 \<and> em_group_type E N P j AND ptype_l3_mask E = ptype_l3_ipv6 E)"
proof -
  let ?t = "em_group_type E N P j"
  have ne: "ptype_l3_ipv4 E \<noteq> ptype_l3_ipv6 E" using assms(1) by (auto simp: em_ptype_ok_def)
  have all: "em_l3_type E (P k) = t \<and> em_l4_type E (P k) \<noteq> 0"
    if "?t AND l4_types E \<noteq> 0" "?t AND ptype_l3_mask E = t" "t \<in> {ptype_l3_ipv4 E, ptype_l3_ipv6 E}" "j \<le> k" "k < j + N" for k t
  proof -
    have k: "k - j < N" "j + (k - j) = k" using that(4,5) by auto
    show ?thesis
      using em_group_l3 [OF assms(1) that(2,3,1) k(1)] em_group_l4 [OF that(1) k(1)] assms(2) k by auto
  qed
  have "all_of_type E t P j N"
    if "?t AND l4_types E \<noteq> 0" "?t AND ptype_l3_mask E = t" "t \<in> {ptype_l3_ipv4 E, ptype_l3_ipv6 E}" for t
    using all [OF that] by (simp add: all_of_type_def)
  then show ?thesis
    by (cases "?t AND l4_types E \<noteq> 0 \<and> ?t AND ptype_l3_mask E = ptype_l3_ipv4 E";
        cases "?t AND l4_types E \<noteq> 0 \<and> ?t AND ptype_l3_mask E = ptype_l3_ipv6 E")
       (use v4 v6 mix ne in blast)+
qed

lemma em_group_ports_eq:
  assumes "em_ptype_ok E" and "hash_ok A" and "\<forall>i < N. em_keyed E T K (P (j + i))"
  shows "em_group_ports E G A T K N portid P j D
    = (\<lambda>k. if j \<le> k \<and> k < j + N then em_get_dst_port E G A T (P k) portid else D k)"
proof -
  have t: "\<forall>i < N. em_typed E (P (j + i))" using assms(3) by (simp add: em_keyed_def)
  show ?thesis using assms(1) t
  proof (cases rule: em_group_cases)
    case v4
    then show ?thesis
      using em_dst4 [OF assms(2) v4(3), where G = G and T = T and own = "\<lambda>_. portid" and D = D]
      by (simp add: em_group_ports_def Let_def l4_types_def em_get_dst_port_ipv4xN_def)
  next
    case v6
    then show ?thesis
      using em_dst6 [OF assms(2,1) v6(4) assms(3), where G = G and own = "\<lambda>_. portid" and D = D]
      by (auto simp: em_group_ports_def Let_def l4_types_def em_get_dst_port_ipv6xN_def)
  next
    case mix
    then have "em_group_ports E G A T K N portid P j D
        = fold (\<lambda>i D. D(j + i := em_get_dst_port E G A T (P (j + i)) portid)) [0..<N] D"
      by (auto simp: em_group_ports_def Let_def l4_types_def)
    then show ?thesis
      using fold_upd_range [of j "\<lambda>k. em_get_dst_port E G A T (P k) portid"] by simp
  qed
qed

text \<open>Without the rewriting.\<close>

lemma em_groups_eq:
  assumes "em_ptype_ok E" and "hash_ok A" and "\<forall>i < N * g. em_keyed E T K (P i)"
  shows "fold (\<lambda>i. em_group U E G A T K N portid False (N * i)) [0..<g] (P, D)
    = (P, \<lambda>k. if k < N * g then em_get_dst_port E G A T (P k) portid else D k)"
  using assms(3)
proof (induction g)
  case (Suc g)
  have "\<forall>i < N. em_keyed E T K (P (N * g + i))" using Suc.prems by auto
  note e = em_group_ports_eq [OF assms(1,2) this, of G portid]
  have "\<forall>i < N * g. em_keyed E T K (P i)" using Suc.prems by auto
  then show ?case using Suc.IH by (auto simp: em_group_def Let_def e fun_eq_iff)
qed simp

lemma em_tail_eq:
  "fold (em_tail_step U E G A T portid False) [a..<b] (P, D)
    = (P, \<lambda>k. if a \<le> k \<and> k < b then em_get_dst_port E G A T (P k) portid else D k)"
  by (induction b) (auto simp: em_tail_step_def Let_def fun_eq_iff less_Suc_eq)

lemma em_process_packets_eq:
  assumes "em_ptype_ok E" and "hash_ok A" and "\<forall>i < n. em_keyed E T K (P i)"
  shows "l3fwd_em_process_packets U N E G A T K n portid False (P, D)
    = (P, \<lambda>k. if k < n then em_get_dst_port E G A T (P k) portid else D k)"
proof -
  let ?n = "n - n mod N"
  have m: "N * (?n div N) = ?n" by (simp add: minus_mod_eq_mult_div)
  have "\<forall>i < N * (?n div N). em_keyed E T K (P i)" using assms(3) by (simp add: m)
  note g = em_groups_eq [OF assms(1,2) this, of U G portid D]
  show ?thesis unfolding l3fwd_em_process_packets_def Let_def g m em_tail_eq by (auto simp: fun_eq_iff)
qed

section \<open>The main loop\<close>

definition em_forward :: "dpdk \<Rightarrow> glob \<Rightarrow> 'h hash_api \<Rightarrow> 'h em_state \<Rightarrow> forward" where
  "em_forward E G A T i nb_rx P portid s =
     map_option snd (l3fwd_em_send_packets E G A T (in_pnum i) nb_rx (P, in_dst i) portid s)"

definition em_main_loop :: "dpdk \<Rightarrow> glob \<Rightarrow> 'h hash_api \<Rightarrow> 'h em_state \<Rightarrow> u64 \<Rightarrow> u64 \<Rightarrow> loop_in list \<Rightarrow> lcore \<Rightarrow> poll option" where
  "em_main_loop E G A T hz tsc ins s = poll_main_loop E (em_forward E G A T) hz tsc ins s"

text \<open>Whatever the tables hold, the ports of a burst exist.\<close>

lemma em_port_ok: "port_ok E portid \<Longrightarrow> port_ok E (em_get_dst_port E G A T m portid)"
  by (simp add: em_get_dst_port_def Let_def port_enabled_def port_ok_def)

lemma em_group_ports_ok:
  assumes "port_ok E portid"
  shows "j \<le> k \<Longrightarrow> k < j + N \<Longrightarrow> port_ok E (em_group_ports E G A T K N portid P j D k)"
    and "\<not> (j \<le> k \<and> k < j + N) \<Longrightarrow> em_group_ports E G A T K N portid P j D k = D k"
proof -
  note f = fold_upd_range [of j "\<lambda>k. em_get_dst_port E G A T (P k) portid"]
  show "port_ok E (em_group_ports E G A T K N portid P j D k)" if "j \<le> k" "k < j + N"
    using that assms em_port_ok [OF assms]
    by (auto simp: em_group_ports_def em_get_dst_port_ipv4xN_def em_get_dst_port_ipv6xN_def em_dst_xN_eq Let_def f
        enabled_or_own port_enabled_def port_ok_def)
  show "em_group_ports E G A T K N portid P j D k = D k" if "\<not> (j \<le> k \<and> k < j + N)"
    using that
    by (auto simp: em_group_ports_def em_get_dst_port_ipv4xN_def em_get_dst_port_ipv6xN_def em_dst_xN_eq Let_def f)
qed

lemma em_groups_ok:
  fixes A :: "'h hash_api" and T :: "'h em_state" and K :: "'h key6" and U :: simd and G :: glob and N :: nat
  assumes "port_ok E portid"
  defines "r \<equiv> \<lambda>g PD. fold (\<lambda>i. em_group U E G A T K N portid False (N * i)) [0..<g] PD"
  shows "fst (r g PD) = fst PD \<and> (\<forall>k < N * g. port_ok E (snd (r g PD) k))"
proof (induction g)
  case (Suc g)
  let ?D = "em_group_ports E G A T K N portid (fst (r g PD)) (N * g) (snd (r g PD))"
  have r: "r (Suc g) PD = (fst (r g PD), ?D)"
    by (simp add: r_def em_group_def Let_def case_prod_beta)
  have "port_ok E (?D k)" if "k < N * Suc g" for k
  proof (cases "N * g \<le> k")
    case True
    show ?thesis by (rule em_group_ports_ok(1) [OF assms(1) True]) (use that in simp)
  next
    case False
    then have "?D k = snd (r g PD) k" by (intro em_group_ports_ok(2) [OF assms(1)]) simp
    then show ?thesis using Suc False by simp
  qed
  then show ?case using Suc by (simp add: r)
qed (simp add: r_def)

lemma em_process_packets_ok:
  assumes "port_ok E portid"
  shows "fst (l3fwd_em_process_packets U N E G A T K n portid False PD) = fst PD"
    and "k < n \<Longrightarrow> port_ok E (snd (l3fwd_em_process_packets U N E G A T K n portid False PD) k)"
proof -
  let ?n = "n - n mod N"
  let ?PD = "fold (\<lambda>i. em_group U E G A T K N portid False (N * i)) [0..<?n div N] PD"
  have m: "N * (?n div N) = ?n" by (simp add: minus_mod_eq_mult_div)
  have g: "fst ?PD = fst PD" "\<forall>k < ?n. port_ok E (snd ?PD k)"
    using em_groups_ok [OF assms, where U = U and N = N and K = K and g = "?n div N" and G = G and A = A and T = T and PD = PD]
    by (simp_all add: m)
  have t: "fold (em_tail_step U E G A T portid False) [a..<b] PD1
      = (fst PD1, \<lambda>k. if a \<le> k \<and> k < b then em_get_dst_port E G A T (fst PD1 k) portid else snd PD1 k)" for a b PD1
    using em_tail_eq [of U E G A T portid a b "fst PD1" "snd PD1"] by simp
  show "fst (l3fwd_em_process_packets U N E G A T K n portid False PD) = fst PD"
    using g by (simp add: l3fwd_em_process_packets_def Let_def t)
  show "port_ok E (snd (l3fwd_em_process_packets U N E G A T K n portid False PD) k)" if "k < n"
    using that g em_port_ok [OF assms] by (auto simp: l3fwd_em_process_packets_def Let_def t)
qed

definition em_good :: "dpdk \<times> glob \<times> 'h hash_api \<times> 'h em_state \<Rightarrow> bool" where
  "em_good c \<longleftrightarrow> tx_burst_ok (fst c) \<and> ports_16 (fst c)"

interpretation em: burst_sender em_good fst "\<lambda>(E, G, A, T). em_forward E G A T"
proof
  fix c :: "dpdk \<times> glob \<times> 'h hash_api \<times> 'h em_state" and p s n P and i :: loop_in
  assume good: "em_good c"
  then show "tx_burst_ok (fst c)" by (simp add: em_good_def)
  assume p: "port_ok (fst c) p" and inv: "tx_inv MAX_PKT_BURST s" and n: "0 < n" "n \<le> MAX_PKT_BURST"
  obtain E G A T where c: "c = (E, G, A, T)" by (metis prod_cases4)
  let ?PD = "l3fwd_em_process_packets sse_simd 8 E G A T get_ipv6_5tuple n p False (P, in_dst i)"
  have p: "port_ok E p" using p by (simp add: c)
  note ok = em_process_packets_ok [OF p, where U = sse_simd and N = 8 and K = get_ipv6_5tuple and G = G and A = A and T = T and n = n and PD = "(P, in_dst i)"]
  have "\<forall>k < n. port_ok E (snd ?PD k)" using ok(2) by blast
  from multi_holds [OF _ _ inv n this, of G "in_pnum i"] good
  show "\<exists>s'. (case c of (E, G, A, T) \<Rightarrow> em_forward E G A T) i n P p s = Some s' \<and> tx_inv MAX_PKT_BURST s' \<and> same_conf s s'
      \<and> held s' = held s + mset (map (\<lambda>k. mb_id (P k)) [0..<n])"
    by (auto simp: c em_good_def em_forward_def l3fwd_em_send_packets_def Let_def ok(1))
qed

section \<open>Packet types\<close>

definition IPPROTO_TCP :: u8 where "IPPROTO_TCP = 6"
definition IPPROTO_UDP :: u8 where "IPPROTO_UDP = 17"

definition em_parse_ptype :: "dpdk \<Rightarrow> mbuf \<Rightarrow> mbuf" where
  "em_parse_ptype E m =
     (let d = mb_data m; ether_type = ld16 d 12;
          t = (if ether_type = bswap16 ETHER_TYPE_IPV4 then
                 if 4 * unat (d ETH_LEN AND 0x0f) = 20 then
                   (0 OR ptype_l3_ipv4 E) OR
                   (if d (ETH_LEN + 9) = IPPROTO_TCP then ptype_l4_tcp E
                    else if d (ETH_LEN + 9) = IPPROTO_UDP then ptype_l4_udp E else 0)
                 else 0 OR ptype_l3_ipv4_options E
               else if ether_type = bswap16 ETHER_TYPE_IPV6 then
                 if d (ETH_LEN + 6) = IPPROTO_TCP then 0 OR ptype_l3_ipv6 E OR ptype_l4_tcp E
                 else if d (ETH_LEN + 6) = IPPROTO_UDP then 0 OR ptype_l3_ipv6 E OR ptype_l4_udp E
                 else 0 OR ptype_l3_ipv6_ext E
               else 0)
      in m\<lparr>packet_type := t\<rparr>)"

definition em_cb_parse_ptype :: "dpdk \<Rightarrow> nat \<Rightarrow> (nat \<Rightarrow> mbuf) \<Rightarrow> nat \<times> (nat \<Rightarrow> mbuf)" where
  "em_cb_parse_ptype E nb_pkts P = (nb_pkts, fold (\<lambda>i P. P(i := em_parse_ptype E (P i))) [0..<nb_pkts] P)"

definition em_check_ptype :: "dpdk \<Rightarrow> bool \<Rightarrow> u32 list \<Rightarrow> bool" where
  "em_check_ptype E ipv6 ptypes =
     (if ptypes = [] then False
      else let v4 = fold (\<lambda>t f. if t = ptype_l3_ipv4_options E then True else f) ptypes False;
               v6 = fold (\<lambda>t f. if t = ptype_l3_ipv6_headers E then True else f) ptypes False;
               tcp = fold (\<lambda>t f. if t = ptype_l4_tcp E then True else f) ptypes False;
               udp = fold (\<lambda>t f. if t = ptype_l4_udp E then True else f) ptypes False
           in if \<not> ipv6 \<and> \<not> v4 then False
              else if ipv6 \<and> \<not> v6 then False
              else if tcp \<and> udp then True else False)"

lemma em_parse_ptype_typed:
  assumes "em_ptype_ok E"
  shows "em_typed E (em_parse_ptype E m)"
proof -
  have l4: "ptype_l4_tcp E AND ptype_l3_mask E = 0" "ptype_l4_udp E AND ptype_l3_mask E = 0"
    using assms by (auto simp: em_ptype_ok_def l4_types_def and.assoc bit_eq_iff bit_simps)
  have l3: "t AND ptype_l3_mask E = t \<and> t AND l4_types E = 0"
    if "t \<in> {ptype_l3_ipv4 E, ptype_l3_ipv6 E, ptype_l3_ipv4_options E, ptype_l3_ipv6_ext E}" for t
    using assms that by (auto simp: em_ptype_ok_def)
  show ?thesis
    using l3 l4
    by (auto simp: em_parse_ptype_def em_typed_def Let_def em_l3_type_def em_l4_type_def and.commute bit.conj_disj_distrib2
        bit.conj_disj_distrib)
qed

section \<open>One packet at a time, without vector instructions\<close>

text \<open>The port, the packet after the call and the lcore. A packet that is not valid is freed here
  and the port is \<open>BAD_PORT\<close>.\<close>

definition l3fwd_em_handle_ipv4 :: "dpdk \<Rightarrow> glob \<Rightarrow> 'h hash_api \<Rightarrow> 'h em_state \<Rightarrow> mbuf \<Rightarrow> u16 \<Rightarrow> lcore \<Rightarrow> u16 \<times> mbuf \<times> lcore" where
  "l3fwd_em_handle_ipv4 E G A T m portid s =
     (let (rc, d) = is_valid_ipv4_pkt E (mb_data m) (pkt_len m) (ol_flags m)
      in if rc < 0 then (BAD_PORT, m\<lparr>mb_data := d\<rparr>, pktmbuf_free (m\<lparr>mb_data := d\<rparr>) s)
         else let p = em_get_ipv4_dst_port A T d portid;
                  dst_port = (if \<not> port_enabled E G p then portid else p)
              in (dst_port, m\<lparr>mb_data := set_mac G dst_port (ttl_dec d)\<rparr>, s))"

definition l3fwd_em_handle_ipv6 :: "dpdk \<Rightarrow> glob \<Rightarrow> 'h hash_api \<Rightarrow> 'h em_state \<Rightarrow> mbuf \<Rightarrow> u16 \<Rightarrow> u16 \<times> mbuf" where
  "l3fwd_em_handle_ipv6 E G A T m portid =
     (let p = em_get_ipv6_dst_port A T (mb_data m) portid;
          dst_port = (if \<not> port_enabled E G p then portid else p)
      in (dst_port, m\<lparr>mb_data := set_mac G dst_port (mb_data m)\<rparr>))"

definition l3fwd_em_simple_forward :: "dpdk \<Rightarrow> glob \<Rightarrow> 'h hash_api \<Rightarrow> 'h em_state \<Rightarrow> u16 \<Rightarrow> mbuf \<Rightarrow> lcore \<Rightarrow> lcore" where
  "l3fwd_em_simple_forward E G A T portid m s =
     (let tcp_or_udp = packet_type m AND (ptype_l4_tcp E OR ptype_l4_udp E);
          l3_ptypes = packet_type m AND ptype_l3_mask E
      in if tcp_or_udp \<noteq> 0 \<and> l3_ptypes = ptype_l3_ipv4 E then
           let (dst_port, m', s') = l3fwd_em_handle_ipv4 E G A T m portid s
           in snd (send_single_packet E G m' dst_port s')
         else if tcp_or_udp \<noteq> 0 \<and> l3_ptypes = ptype_l3_ipv6 E then
           let (dst_port, m') = l3fwd_em_handle_ipv6 E G A T m portid
           in snd (send_single_packet E G m' dst_port s)
         else pktmbuf_free m s)"

definition l3fwd_em_no_opt_send_packets :: "dpdk \<Rightarrow> glob \<Rightarrow> 'h hash_api \<Rightarrow> 'h em_state \<Rightarrow> nat \<Rightarrow> (nat \<Rightarrow> mbuf) \<Rightarrow> u16 \<Rightarrow>
    lcore \<Rightarrow> lcore" where
  "l3fwd_em_no_opt_send_packets E G A T nb_rx P portid s =
     (let s1 = fold (\<lambda>j. l3fwd_em_simple_forward E G A T portid (P j)) [0..<nb_rx - PREFETCH_OFFSET] s
      in fold (\<lambda>j. l3fwd_em_simple_forward E G A T portid (P j)) [nb_rx - PREFETCH_OFFSET..<nb_rx] s1)"

text \<open>The event worker: the packets it frees are kept in the lcore.\<close>

definition l3fwd_em_simple_process :: "dpdk \<Rightarrow> glob \<Rightarrow> 'h hash_api \<Rightarrow> 'h em_state \<Rightarrow> mbuf \<Rightarrow> lcore \<Rightarrow> mbuf \<times> lcore" where
  "l3fwd_em_simple_process E G A T m s =
     (let tcp_or_udp = packet_type m AND (ptype_l4_tcp E OR ptype_l4_udp E);
          l3_ptypes = packet_type m AND ptype_l3_mask E
      in if tcp_or_udp \<noteq> 0 \<and> l3_ptypes = ptype_l3_ipv4 E then
           let (p, m', s') = l3fwd_em_handle_ipv4 E G A T m (mb_port m) s in (m'\<lparr>mb_port := p\<rparr>, s')
         else if tcp_or_udp \<noteq> 0 \<and> l3_ptypes = ptype_l3_ipv6 E then
           let (p, m') = l3fwd_em_handle_ipv6 E G A T m (mb_port m) in (m'\<lparr>mb_port := p\<rparr>, s)
         else (m\<lparr>mb_port := BAD_PORT\<rparr>, s))"

section \<open>Events\<close>

text \<open>What the worker for single events does with its packet.\<close>

definition em_process_event_pkt :: "dpdk \<Rightarrow> glob \<Rightarrow> 'h hash_api \<Rightarrow> 'h em_state \<Rightarrow> mbuf \<Rightarrow> mbuf" where
  "em_process_event_pkt E G A T m =
     (let m1 = m\<lparr>mb_port := em_get_dst_port E G A T m (mb_port m)\<rparr>;
          (m2, p) = process_packet E G m1 (mb_port m1)
      in m2\<lparr>mb_port := p\<rparr>)"

definition em_group_events :: "simd \<Rightarrow> nat \<Rightarrow> dpdk \<Rightarrow> glob \<Rightarrow> 'h hash_api \<Rightarrow> 'h em_state \<Rightarrow> 'h key6 \<Rightarrow> nat \<Rightarrow> burst \<Rightarrow> burst" where
  "em_group_events U N E G A T K j PD =
     (let (P, D) = PD;
          pkt_type = em_group_type E N P j;
          l3_type = pkt_type AND ptype_l3_mask E;
          tcp_or_udp = pkt_type AND (ptype_l4_tcp E OR ptype_l4_udp E);
          rest = (\<lambda>D1. let (P2, D2) = fold (\<lambda>i. sd_step3 U E G (j + FWDSTEP * i)) [0..<N div FWDSTEP] (P, D1)
                       in (fold (\<lambda>i P. P(j + i := (P (j + i))\<lparr>mb_port := D2 (j + i)\<rparr>)) [0..<N] P2, D2))
      in if tcp_or_udp \<noteq> 0 \<and> l3_type = ptype_l3_ipv4 E then rest (em_get_dst_port_ipv4xN_events E G A T N P j D)
         else if tcp_or_udp \<noteq> 0 \<and> l3_type = ptype_l3_ipv6 E then rest (em_get_dst_port_ipv6xN_events E G A T K N P j D)
         else (fold (\<lambda>i P. let m1 = (P (j + i))\<lparr>mb_port := em_get_dst_port E G A T (P (j + i)) (mb_port (P (j + i)))\<rparr>;
                               (m2, p) = sd_proc U E G m1 (mb_port m1)
                           in P(j + i := m2\<lparr>mb_port := p\<rparr>)) [0..<N] P, D))"

definition em_tail_event :: "simd \<Rightarrow> dpdk \<Rightarrow> glob \<Rightarrow> 'h hash_api \<Rightarrow> 'h em_state \<Rightarrow> nat \<Rightarrow> burst \<Rightarrow> burst" where
  "em_tail_event U E G A T j PD =
     (let (P, D) = PD;
          m1 = (P j)\<lparr>mb_port := em_get_dst_port E G A T (P j) (mb_port (P j))\<rparr>;
          (m2, p) = sd_proc U E G m1 (mb_port m1)
      in (P(j := m2\<lparr>mb_port := p\<rparr>), D))"

text \<open>The mbufs of the events and the local array of ports.\<close>

definition l3fwd_em_process_events :: "simd \<Rightarrow> nat \<Rightarrow> dpdk \<Rightarrow> glob \<Rightarrow> 'h hash_api \<Rightarrow> 'h em_state \<Rightarrow> 'h key6 \<Rightarrow> nat \<Rightarrow> burst \<Rightarrow> burst" where
  "l3fwd_em_process_events U N E G A T K nb_rx PD =
     (let n = nb_rx - nb_rx mod N;
          PD1 = fold (\<lambda>i. em_group_events U N E G A T K (N * i)) [0..<n div N] PD
      in fold (em_tail_event U E G A T) [n..<nb_rx] PD1)"

text \<open>One packet of a vector whose packets come from different ports.\<close>

definition em_vector_step :: "simd \<Rightarrow> nat \<Rightarrow> dpdk \<Rightarrow> glob \<Rightarrow> 'h hash_api \<Rightarrow> 'h em_state \<Rightarrow> 'h key6 \<Rightarrow> nat \<Rightarrow> burst \<Rightarrow> burst" where
  "em_vector_step U N E G A T K i PD =
     (let (P, D) = PD;
          (P1, D1) = l3fwd_em_process_packets U N E G A T K 1 (mb_port (P i)) True (\<lambda>k. P (i + k), \<lambda>k. D (i + k))
      in (P(i := P1 0), D(i := D1 0)))"

definition l3fwd_em_process_event_vector :: "simd \<Rightarrow> nat \<Rightarrow> dpdk \<Rightarrow> glob \<Rightarrow> 'h hash_api \<Rightarrow> 'h em_state \<Rightarrow> 'h key6 \<Rightarrow> event_vector \<Rightarrow>
    (nat \<Rightarrow> u16) \<Rightarrow> event_vector \<times> mbuf list" where
  "l3fwd_em_process_event_vector U N E G A T K vec dst_port =
     (let (P, D) =
        (if vec_attr_valid vec
         then l3fwd_em_process_packets U N E G A T K (unat (vec_nb vec)) (vec_port vec) True (vec_mbufs vec, dst_port)
         else fold (em_vector_step U N E G A T K) [0..<unat (vec_nb vec)] (vec_mbufs vec, dst_port))
      in process_event_vector (vec\<lparr>vec_mbufs := P\<rparr>) D)"

lemma process_packet_any_port:
  "process_packet E G (m\<lparr>mb_port := x\<rparr>) dp
    = ((fst (process_packet E G m dp))\<lparr>mb_port := x\<rparr>, snd (process_packet E G m dp))"
  by (simp add: process_packet_def Let_def case_prod_beta)

lemma em_process_event_pkt_eq:
  "em_process_event_pkt E G A T m =
    (let r = process_packet E G m (em_get_dst_port E G A T m (mb_port m)) in (fst r)\<lparr>mb_port := snd r\<rparr>)"
  by (simp add: em_process_event_pkt_def process_packet_any_port Let_def case_prod_beta)

lemma em_get_dst_port_any_port [simp]:
  "em_get_dst_port E G A T (m\<lparr>mb_port := x\<rparr>) portid = em_get_dst_port E G A T m portid"
  by (simp add: em_get_dst_port_def Let_def)

lemma process_range:
  "fold (\<lambda>i. process_at E G (j + i)) [0..<n] (P, D)
    = (\<lambda>k. if j \<le> k \<and> k < j + n then fst (process_packet E G (P k) (D k)) else P k,
       \<lambda>k. if j \<le> k \<and> k < j + n then snd (process_packet E G (P k) (D k)) else D k)"
  by (induction n) (auto simp: process_at_def Let_def fun_eq_iff less_Suc_eq)

lemma step3_range:
  assumes "\<And>j PD. S j PD = processx4_step3 E G j PD"
  shows "fold (\<lambda>i. S (j + FWDSTEP * i)) [0..<g] PD = fold (\<lambda>i. process_at E G (j + i)) [0..<4 * g] PD"
  by (rule fold_groups) (simp add: assms processx4_step3_process_at FWDSTEP_def add.assoc)

lemma map_range:
  "fold (\<lambda>i P. P(j + i := f (j + i) (P (j + i)))) [0..<n] P = (\<lambda>k. if j \<le> k \<and> k < j + (n :: nat) then f k (P k) else P k)"
  by (induction n) (auto simp: fun_eq_iff less_Suc_eq)

text \<open>A vector unit that rewrites as the reference does.\<close>

definition rewrites_as_ref :: "simd \<Rightarrow> dpdk \<Rightarrow> glob \<Rightarrow> bool" where
  "rewrites_as_ref U E G \<longleftrightarrow> (\<forall>j PD. sd_step3 U E G j PD = processx4_step3 E G j PD)
     \<and> (\<forall>m p. sd_proc U E G m p = process_packet E G m p)"

lemma rewrites_sse: "rewrites_as_ref sse_simd E G"
  by (simp add: rewrites_as_ref_def sse_simd_def)

lemma rewrites_neon: "val_eth_16 G \<Longrightarrow> rewrites_as_ref neon_simd E G"
  by (simp add: rewrites_as_ref_def neon_simd_def processx4_step3_units_eq process_packet_units)

lemma em_group_events_eq:
  assumes "em_ptype_ok E" and "hash_ok A" and "rewrites_as_ref U E G" and "N mod 4 = 0" and "\<forall>i < N. em_keyed E T K (P (j + i))"
  shows "fst (em_group_events U N E G A T K j (P, D))
    = (\<lambda>k. if j \<le> k \<and> k < j + N then em_process_event_pkt E G A T (P k) else P k)"
proof -
  have U: "\<And>j PD. sd_step3 U E G j PD = processx4_step3 E G j PD" "\<And>m p. sd_proc U E G m p = process_packet E G m p"
    using assms(3) unfolding rewrites_as_ref_def by blast+
  have N: "4 * (N div FWDSTEP) = N" using assms(4) unfolding FWDSTEP_def by presburger
  note st = step3_range [of "sd_step3 U E G", OF U(1), of j "N div FWDSTEP", unfolded N process_range]
  have t: "\<forall>i < N. em_typed E (P (j + i))" using assms(5) by (simp add: em_keyed_def)
  show ?thesis using assms(1) t
  proof (cases rule: em_group_cases)
    case v4
    have "fst (em_group_events U N E G A T K j (P, D)) = (\<lambda>k. if j \<le> k \<and> k < j + N
        then (fst (process_packet E G (P k) (em_get_dst_port E G A T (P k) (mb_port (P k)))))
          \<lparr>mb_port := snd (process_packet E G (P k) (em_get_dst_port E G A T (P k) (mb_port (P k))))\<rparr> else P k)"
      using v4 by (auto simp: em_group_events_def Let_def l4_types_def em_get_dst_port_ipv4xN_events_def
          em_dst4 [OF assms(2) v4(3)] st process_range map_range [where f = "\<lambda>k m. m\<lparr>mb_port := D' k\<rparr>" for D'] fun_eq_iff)
    then show ?thesis unfolding em_process_event_pkt_eq Let_def .
  next
    case v6
    have "fst (em_group_events U N E G A T K j (P, D)) = (\<lambda>k. if j \<le> k \<and> k < j + N
        then (fst (process_packet E G (P k) (em_get_dst_port E G A T (P k) (mb_port (P k)))))
          \<lparr>mb_port := snd (process_packet E G (P k) (em_get_dst_port E G A T (P k) (mb_port (P k))))\<rparr> else P k)"
      using v6 by (auto simp: em_group_events_def Let_def l4_types_def em_get_dst_port_ipv6xN_events_def
          em_dst6 [OF assms(2,1) v6(4) assms(5)] st process_range map_range [where f = "\<lambda>k m. m\<lparr>mb_port := D' k\<rparr>" for D'] fun_eq_iff)
    then show ?thesis unfolding em_process_event_pkt_eq Let_def .
  next
    case mix
    then have "fst (em_group_events U N E G A T K j (P, D))
        = fold (\<lambda>i P. P(j + i := em_process_event_pkt E G A T (P (j + i)))) [0..<N] P"
      by (auto simp: em_group_events_def Let_def l4_types_def U em_process_event_pkt_def case_prod_beta)
    then show ?thesis using map_range [of j "\<lambda>_. em_process_event_pkt E G A T" N P] by simp
  qed
qed

lemma em_events_eq:
  assumes "em_ptype_ok E" and "hash_ok A" and "rewrites_as_ref U E G" and "N mod 4 = 0" and "\<forall>i < n. em_keyed E T K (P i)"
  shows "fst (l3fwd_em_process_events U N E G A T K n (P, D)) = (\<lambda>k. if k < n then em_process_event_pkt E G A T (P k) else P k)"
proof -
  let ?f = "em_process_event_pkt E G A T" and ?n = "n - n mod N"
  have m: "N * (?n div N) = ?n" "?n \<le> n" by (simp_all add: minus_mod_eq_mult_div)
  have g: "N * g \<le> n \<Longrightarrow> fst (fold (\<lambda>i. em_group_events U N E G A T K (N * i)) [0..<g] (P, D))
      = (\<lambda>k. if k < N * g then ?f (P k) else P k)" for g
  proof (induction g)
    case (Suc g)
    obtain P1 D1 where 1: "fold (\<lambda>i. em_group_events U N E G A T K (N * i)) [0..<g] (P, D) = (P1, D1)" by fastforce
    then have P1: "P1 = (\<lambda>k. if k < N * g then ?f (P k) else P k)" using Suc by simp
    have "\<forall>i < N. em_keyed E T K (P1 (N * g + i))" using assms(5) Suc.prems by (simp add: P1)
    from em_group_events_eq [OF assms(1-4) this, of D1] show ?case
      by (auto simp: 1 P1 fun_eq_iff)
  qed simp
  have p: "sd_proc U E G m p = process_packet E G m p" for m p
    using assms(3) unfolding rewrites_as_ref_def by blast
  have s: "em_tail_event U E G A T j (P1, D1) = (P1(j := ?f (P1 j)), D1)" for j P1 D1
    by (simp add: em_tail_event_def em_process_event_pkt_def p Let_def case_prod_beta)
  have t: "fst (fold (em_tail_event U E G A T) [a..<b] (P1, D1)) = (\<lambda>k. if a \<le> k \<and> k < b then ?f (P1 k) else P1 k)" for a b P1 D1
  proof -
    have "fold (em_tail_event U E G A T) [a..<b] (P1, D1) = ((\<lambda>k. if a \<le> k \<and> k < b then ?f (P1 k) else P1 k), D1)"
      by (induction b) (auto simp: s fun_eq_iff less_Suc_eq)
    then show ?thesis by simp
  qed
  obtain P1 D1 where 1: "fold (\<lambda>i. em_group_events U N E G A T K (N * i)) [0..<?n div N] (P, D) = (P1, D1)" by fastforce
  have "P1 = (\<lambda>k. if k < ?n then ?f (P k) else P k)" using g [of "?n div N"] by (simp add: 1 m)
  then show ?thesis by (auto simp: l3fwd_em_process_events_def Let_def 1 t fun_eq_iff)
qed

text \<open>One packet at a time from a vector: the rewriting gets the receiving port.\<close>

lemma em_one_packet:
  assumes "1 < N" and "rewrites_as_ref U E G"
  shows "l3fwd_em_process_packets U N E G A T K 1 portid True (P, D) =
    (let r = process_packet E G (P 0) (mb_port (P 0))
     in (P(0 := (fst r)\<lparr>mb_port := snd r\<rparr>), D(0 := em_get_dst_port E G A T (P 0) portid)))"
proof -
  have p: "sd_proc U E G m p = process_packet E G m p" for m p
    using assms(2) unfolding rewrites_as_ref_def by blast
  show ?thesis using assms(1)
    by (simp add: l3fwd_em_process_packets_def Let_def em_tail_step_def p case_prod_beta)
qed

lemma em_vector_no_attr:
  assumes "1 < N" and "rewrites_as_ref U E G" and "\<not> vec_attr_valid vec"
  defines "P0 \<equiv> vec_mbufs vec" and "n \<equiv> unat (vec_nb vec)"
  shows "l3fwd_em_process_event_vector U N E G A T K vec D =
    process_event_vector (vec\<lparr>vec_mbufs := \<lambda>k. if k < n then
        (let r = process_packet E G (P0 k) (mb_port (P0 k)) in (fst r)\<lparr>mb_port := snd r\<rparr>) else P0 k\<rparr>)
      (\<lambda>k. if k < n then em_get_dst_port E G A T (P0 k) (mb_port (P0 k)) else D k)"
proof -
  let ?f = "\<lambda>m. let r = process_packet E G m (mb_port m) in (fst r)\<lparr>mb_port := snd r\<rparr>"
  have s: "em_vector_step U N E G A T K i (P, D) = (P(i := ?f (P i)), D(i := em_get_dst_port E G A T (P i) (mb_port (P i))))" for i P D
    unfolding em_vector_step_def by (simp add: em_one_packet [OF assms(1,2), simplified] Let_def)
  have "fold (em_vector_step U N E G A T K) [0..<m] (P0, D) = (\<lambda>k. if k < m then ?f (P0 k) else P0 k,
      \<lambda>k. if k < m then em_get_dst_port E G A T (P0 k) (mb_port (P0 k)) else D k)" for m
    by (induction m) (auto simp: s fun_eq_iff less_Suc_eq)
  then show ?thesis using assms(3) by (simp add: l3fwd_em_process_event_vector_def n_def P0_def)
qed

lemma setup_hash_other:
  assumes "hash_ok A" and "setup_hash msk A dev ipv6 rs4 rs6 o4 o6 = Inr T"
  shows "if ipv6 then em_get_ipv4_dst_port A T m portid = portid else em_get_ipv6_dst_port A T m portid = portid"
proof -
  have e: "h_create A len = Some h \<Longrightarrow> h_lookup A h k < 0" for len h k using assms(1) unfolding hash_ok_def by blast
  show ?thesis
  proof (cases ipv6)
    case True
    then have "\<exists>len. h_create A len = Some (em_h4 T)" using assms(2)
      by (auto simp: setup_hash_def populate_ipv6_flow_into_table_def Let_def split: option.splits sum.splits)
    then show ?thesis using e True by (auto simp: em_get_ipv4_dst_port_def Let_def)
  next
    case False
    then have "\<exists>len. h_create A len = Some (em_h6 T)" using assms(2)
      by (auto simp: setup_hash_def populate_ipv4_flow_into_table_def Let_def split: option.splits sum.splits)
    then show ?thesis using e False by (auto simp: em_get_ipv6_dst_port_def Let_def)
  qed
qed

section \<open>A concrete instance\<close>

text \<open>A table that keeps its keys in a list; the position of a key is its index.\<close>

definition key_pos :: "u8 list \<Rightarrow> u8 list list \<Rightarrow> nat" where
  "key_pos k h = length (takeWhile (\<lambda>x. x \<noteq> k) h)"

definition hash_ex :: "u8 list list hash_api" where
  "hash_ex = \<lparr> h_create = (\<lambda>_. Some []),
     h_add = (\<lambda>h k. if k \<in> set h then (int (key_pos k h), h) else (int (length h), h @ [k])),
     h_lookup = (\<lambda>h k. if k \<in> set h then int (key_pos k h) else - 2),
     h_bulk = (\<lambda>h ks. map (\<lambda>k. if k \<in> set h then int (key_pos k h) else - 2) ks) \<rparr>"

lemma key_pos_nth: "k \<in> set h \<Longrightarrow> key_pos k h < length h \<and> h ! key_pos k h = k"
proof (induction h)
  case (Cons x h)
  then show ?case by (auto simp: key_pos_def)
qed simp

lemma key_pos_inj: "k \<in> set h \<Longrightarrow> k' \<in> set h \<Longrightarrow> key_pos k h = key_pos k' h \<longleftrightarrow> k = k'"
  using key_pos_nth by metis

lemma key_pos_app: "k \<in> set h \<Longrightarrow> key_pos k (h @ h') = key_pos k h"
  by (induction h) (auto simp: key_pos_def)

lemma key_pos_new: "k \<notin> set h \<Longrightarrow> key_pos k (h @ [k]) = length h"
  by (induction h) (auto simp: key_pos_def)

lemma hash_ex_simps:
  "h_lookup hash_ex h k = (if k \<in> set h then int (key_pos k h) else - 2)"
  "h_add hash_ex h k = (if k \<in> set h then (int (key_pos k h), h) else (int (length h), h @ [k]))"
  "h_create hash_ex len = Some []" "h_bulk hash_ex h ks = map (h_lookup hash_ex h) ks"
  by (simp_all add: hash_ex_def)

lemma hash_ex_add:
  assumes "h_add hash_ex h k = (r, h')"
  shows "h_lookup hash_ex h' k = r \<and> (0 \<le> h_lookup hash_ex h k \<longrightarrow> r = h_lookup hash_ex h k)
    \<and> (\<forall>k'. k' \<noteq> k \<longrightarrow> h_lookup hash_ex h' k' = h_lookup hash_ex h k' \<and> h_lookup hash_ex h k' \<noteq> r)"
proof (cases "k \<in> set h")
  case True
  then have "r = int (key_pos k h)" "h' = h" using assms by (auto simp: hash_ex_simps)
  then show ?thesis using True key_pos_inj [of _ h k] by (auto simp: hash_ex_simps)
next
  case False
  then have r: "r = int (length h)" "h' = h @ [k]" using assms by (auto simp: hash_ex_simps)
  have "h_lookup hash_ex h' k' = h_lookup hash_ex h k' \<and> h_lookup hash_ex h k' \<noteq> r" if "k' \<noteq> k" for k'
    using key_pos_nth [of k' h] that by (auto simp: r hash_ex_simps key_pos_app)
  then show ?thesis using False by (simp add: r hash_ex_simps key_pos_new)
qed

lemma hash_ok_ex: "hash_ok hash_ex"
proof -
  have "\<forall>len h0 k. h_create hash_ex len = Some h0 \<longrightarrow> h_lookup hash_ex h0 k < 0" by (simp add: hash_ex_simps)
  moreover have "\<forall>h ks. h_bulk hash_ex h ks = map (h_lookup hash_ex h) ks" by (simp add: hash_ex_simps(4))
  moreover have "\<forall>h k r h'. h_add hash_ex h k = (r, h') \<longrightarrow> 0 \<le> r \<longrightarrow>
      h_lookup hash_ex h' k = r \<and> (0 \<le> h_lookup hash_ex h k \<longrightarrow> r = h_lookup hash_ex h k) \<and>
      (\<forall>k'. k' \<noteq> k \<longrightarrow> h_lookup hash_ex h' k' = h_lookup hash_ex h k' \<and> h_lookup hash_ex h k' \<noteq> r)"
    by (intro allI impI) (rule hash_ex_add)
  ultimately show ?thesis unfolding hash_ok_def by (intro conjI)
qed

text \<open>The default rules, of which those of ports 0 to 3 are enabled. The address functions make the
  addresses of four bytes.\<close>

definition em_rules_ex :: "u32 em_rule list" where
  "em_rules_ex = [\<lparr>em_key = \<lparr>ip_dst = 0xc6120000, ip_src = 0xc6120001, port_dst = 9, port_src = 9, proto = 17\<rparr>, em_out = 2\<rparr>,
     \<lparr>em_key = \<lparr>ip_dst = 0, ip_src = 0, port_dst = 0, port_src = 0, proto = 0\<rparr>, em_out = 3\<rparr>,
     \<lparr>em_key = \<lparr>ip_dst = 0, ip_src = 0, port_dst = 0, port_src = 0, proto = 0\<rparr>, em_out = 9\<rparr>]"

lemma setup_hash_ex_runs:
  obtains T where "setup_hash 0xf hash_ex (\<lambda>_. True) False em_rules_ex [] (\<lambda>_. 0) (\<lambda>_. 0) = Inr T"
proof -
  have p: "\<exists>h' out'. em_populate 0xf hash_ex (\<lambda>_. True) key i rs h out = Inr (h', out')"
    for key i and rs :: "u32 em_rule list" and h out
  proof (induction rs arbitrary: i h out)
    case (Cons r rs)
    have "\<not> fst (h_add hash_ex h k) < 0" for k by (simp add: hash_ex_simps)
    then show ?case using Cons by (simp add: Let_def case_prod_beta)
  qed simp
  let ?T = "\<lparr>em_h4 = [], em_h6 = [], em_out4 = (\<lambda>_. 0), em_out6 = (\<lambda>_. 0), em_mask0 = replicate 16 0,
      em_mask1 = replicate 16 0, em_mask2 = replicate 16 0\<rparr> :: u8 list list em_state"
  obtain h out where "em_populate 0xf hash_ex (\<lambda>_. True) (\<lambda>k. xmm4 (convert_ipv4_5tuple k)) 0 em_rules_ex [] (\<lambda>_. 0) = Inr (h, out)"
    using p by blast
  then have "\<exists>T. populate_ipv4_flow_into_table 0xf hash_ex (\<lambda>_. True) em_rules_ex ?T = Inr T"
    by (simp add: populate_ipv4_flow_into_table_def Let_def)
  then have "\<exists>T. setup_hash 0xf hash_ex (\<lambda>_. True) False em_rules_ex [] (\<lambda>_. 0) (\<lambda>_. 0) = Inr T"
    by (simp add: setup_hash_def hash_ex_simps Let_def)
  then show ?thesis using that by blast
qed

definition em_state_ex :: "u8 list list em_state" where
  "em_state_ex = \<lparr>em_h4 = [replicate 16 0], em_h6 = [], em_out4 = (\<lambda>_. 2), em_out6 = (\<lambda>_. 0), em_mask0 = replicate 16 0xff,
     em_mask1 = replicate 16 0xff, em_mask2 = replicate 16 0xff\<rparr>"

definition em_udp_ex :: "nat \<Rightarrow> mbuf" where
  "em_udp_ex i = (mbuf_ex i)\<lparr>packet_type := 0x210\<rparr>"

section \<open>Properties\<close>

text \<open>C13. Forwarding by exact match: after the tables of a socket were filled, a packet of the family in
  use goes to the port of the last rule of an enabled port whose five tuple (addresses, ports, protocol, in
  host order) is the packet's, and stays on the receiving port when there is none; the masks and the
  byte order of the keys neither merge two tuples nor separate equal ones. Packets of the other family stay.\<close>

theorem em_forwards_by_rules:
  assumes "hash_ok A" and "setup_hash msk A dev ipv6 rs4 rs6 o4 o6 = Inr T" and "\<forall>r \<in> set rs6. addr16 (em_key r)"
  shows "if ipv6
    then em_get_ipv6_dst_port A T m portid
          = (case map_of (em_rules msk rs6) (five_tuple6 m) of None \<Rightarrow> portid | Some p \<Rightarrow> ucast p)
      \<and> em_get_ipv4_dst_port A T m portid = portid
    else em_get_ipv4_dst_port A T m portid
          = (case map_of (em_rules msk rs4) (five_tuple4 m) of None \<Rightarrow> portid | Some p \<Rightarrow> ucast p)
      \<and> em_get_ipv6_dst_port A T m portid = portid"
proof (cases ipv6)
  case True
  have "em_table6 A T (em_rules msk rs6)" by (rule setup_hash_table6 [OF assms(1) _ assms(3)]) (use assms(2) True in simp)
  then show ?thesis using em_get_ipv6 setup_hash_other [OF assms(1,2)] True by auto
next
  case False
  have "em_table4 A T (em_rules msk rs4)" by (rule setup_hash_table4 [OF assms(1)]) (use assms(2) False in simp)
  then show ?thesis using em_get_ipv4 setup_hash_other [OF assms(1,2)] False by auto
qed

theorem em_forwards_by_rules_witness:
  "\<exists>T. setup_hash 0xf hash_ex (\<lambda>_. True) False em_rules_ex [] (\<lambda>_. 0) (\<lambda>_. 0) = Inr T
    \<and> em_get_ipv4_dst_port hash_ex T (\<lambda>_. 0) 1 = 3"
proof -
  obtain T where T: "setup_hash 0xf hash_ex (\<lambda>_. True) False em_rules_ex [] (\<lambda>_. 0) (\<lambda>_. 0) = Inr T"
    by (rule setup_hash_ex_runs)
  have "five_tuple4 (\<lambda>_. 0) = \<lparr>ip_dst = 0, ip_src = 0, port_dst = 0, port_src = 0, proto = 0\<rparr>"
    by (simp add: five_tuple4_def ld32_def ld16_def bswap32_def bswap16_def)
  then have "map_of (em_rules 0xf em_rules_ex) (five_tuple4 (\<lambda>_. 0)) = Some 3"
    by (simp add: em_rules_def em_rules_ex_def in_mask_def shl1_def)
  then show ?thesis using em_forwards_by_rules [OF hash_ok_ex T, of "\<lambda>_. 0" 1] T by simp
qed

text \<open>C14. The bulk lookups change nothing: on packets typed by the receive callback, of any kind and in
  any order, the burst routine gives every packet the port the one-packet routine gives it, and the
  routine for events leaves every mbuf as the worker for single events does, with eight packets to a
  lookup (SSE) and, when there are no IPv6 packets among them, with sixteen (ARM64). Packets that share no type go
  through the one-packet routine; a group whose types agree holds packets of one family only.\<close>

theorem em_bursts_correct:
  assumes "em_ptype_ok E" and "hash_ok A" and "val_eth_16 G"
  shows "let P' = snd (em_cb_parse_ptype E n P);
      D' = (\<lambda>k. if k < n then em_get_dst_port E G A T (P' k) portid else D k);
      Q = (\<lambda>k. if k < n then em_process_event_pkt E G A T (P' k) else P' k)
    in l3fwd_em_process_packets sse_simd 8 E G A T get_ipv6_5tuple n portid False (P', D) = (P', D')
     \<and> fst (l3fwd_em_process_events sse_simd 8 E G A T get_ipv6_5tuple n (P', D)) = Q
     \<and> (if \<forall>k < n. em_l3_type E (P' k) \<noteq> ptype_l3_ipv6 E
        then l3fwd_em_process_packets neon_simd 16 E G A T get_ipv6_5tuple_neon n portid False (P', D) = (P', D')
          \<and> fst (l3fwd_em_process_events neon_simd 16 E G A T get_ipv6_5tuple_neon n (P', D)) = Q
        else True)"
proof -
  let ?P = "snd (em_cb_parse_ptype E n P)"
  have "?P = (\<lambda>i. if i < n then em_parse_ptype E (P i) else P i)"
    by (simp add: em_cb_parse_ptype_def map_pass)
  then have t: "\<forall>i < n. em_typed E (?P i)" using em_parse_ptype_typed [OF assms(1)] by simp
  then have sse: "\<forall>i < n. em_keyed E T get_ipv6_5tuple (?P i)" by (simp add: em_keyed_sse)
  have neon: "\<forall>i < n. em_keyed E T get_ipv6_5tuple_neon (?P i)" if "\<forall>k < n. em_l3_type E (?P k) \<noteq> ptype_l3_ipv6 E"
    using that t by (simp add: em_keyed_def)
  note p = em_process_packets_eq [OF assms(1,2) sse] em_process_packets_eq [OF assms(1,2) neon]
  note e = em_events_eq [OF assms(1,2) rewrites_sse _ sse] em_events_eq [OF assms(1,2) rewrites_neon [OF assms(3)] _ neon]
  have "if \<forall>k < n. em_l3_type E (?P k) \<noteq> ptype_l3_ipv6 E
      then l3fwd_em_process_packets neon_simd 16 E G A T get_ipv6_5tuple_neon n portid False (?P, D)
          = (?P, \<lambda>k. if k < n then em_get_dst_port E G A T (?P k) portid else D k)
        \<and> fst (l3fwd_em_process_events neon_simd 16 E G A T get_ipv6_5tuple_neon n (?P, D))
          = (\<lambda>k. if k < n then em_process_event_pkt E G A T (?P k) else ?P k)
      else True"
    using p(2) e(2) by simp
  then show ?thesis unfolding Let_def by (intro conjI p(1) e(1)) simp_all
qed

theorem em_bursts_correct_witness:
  "let P' = snd (em_cb_parse_ptype dpdk_ex 9 mbuf_ex);
      D' = (\<lambda>k. if k < 9 then em_get_dst_port dpdk_ex glob_ex hash_ex em_state_ex (P' k) 1 else 0);
      Q = (\<lambda>k. if k < 9 then em_process_event_pkt dpdk_ex glob_ex hash_ex em_state_ex (P' k) else P' k)
    in l3fwd_em_process_packets sse_simd 8 dpdk_ex glob_ex hash_ex em_state_ex get_ipv6_5tuple 9 1 False (P', \<lambda>_. 0) = (P', D')
     \<and> fst (l3fwd_em_process_events sse_simd 8 dpdk_ex glob_ex hash_ex em_state_ex get_ipv6_5tuple 9 (P', \<lambda>_. 0)) = Q
     \<and> l3fwd_em_process_packets neon_simd 16 dpdk_ex glob_ex hash_ex em_state_ex get_ipv6_5tuple_neon 9 1 False (P', \<lambda>_. 0) = (P', D')
     \<and> fst (l3fwd_em_process_events neon_simd 16 dpdk_ex glob_ex hash_ex em_state_ex get_ipv6_5tuple_neon 9 (P', \<lambda>_. 0)) = Q"
proof -
  let ?P = "snd (em_cb_parse_ptype dpdk_ex 9 mbuf_ex)"
  have "packet_type (em_parse_ptype dpdk_ex (mbuf_ex k)) = 0" for k
    by (simp add: em_parse_ptype_def mbuf_ex_def ld16_def bswap16_def ETHER_TYPE_IPV4_def ETHER_TYPE_IPV6_def Let_def)
  moreover have "?P = (\<lambda>i. if i < 9 then em_parse_ptype dpdk_ex (mbuf_ex i) else mbuf_ex i)"
    by (simp add: em_cb_parse_ptype_def map_pass)
  ultimately have "\<forall>k < 9. em_l3_type dpdk_ex (?P k) \<noteq> ptype_l3_ipv6 dpdk_ex" by (simp add: em_l3_type_def dpdk_ex_def)
  then show ?thesis
    using em_bursts_correct [OF em_ptype_ok_ex hash_ok_ex val_eth_16_ex, of 9 mbuf_ex em_state_ex 1 "\<lambda>_. 0"] unfolding Let_def by simp
qed

text \<open>The loop of an lcore that forwards by exact match never fails and loses no packet, whatever the
  tables hold: after any number of passes the packets on the wire, in the transmit buffers and freed
  are those from before and those received, each once, and the buffers are in range.\<close>

lemma em_main_loop_keeps:
  assumes "tx_burst_ok E" and "ports_16 E" and "poll_ok E s" and "\<forall>i \<in> set ins. bursts_fit i"
  shows "\<exists>st. em_main_loop E G A T hz tsc ins s = Some st \<and> tx_inv MAX_PKT_BURST (pl_core st)
    \<and> held (pl_core st) = held s + mset (received ins s)"
  using em.main_loop_holds [of "(E, G, A, T)", OF _ _ assms(4)] assms(1-3)
  by (simp add: em_good_def em_main_loop_def)

text \<open>Event vectors whose packets come from different ports are forwarded with the wrong Ethernet
  header: the routine rewrites each packet for the port in its mbuf, the receiving port, and
  not for the port it looked up, yet sends it to the latter; a packet the checks reject is sent as
  well. On such a vector every packet stays, goes to the port of its lookup and carries the
  two addresses prepared for the port it came from.\<close>

lemma em_event_vector_wrong_header:
  assumes "ports_16 E" and "\<not> vec_attr_valid vec" and "\<forall>i < unat (vec_nb vec). port_ok E (mb_port (vec_mbufs vec i))"
  shows "let (v, gone) = l3fwd_em_process_event_vector sse_simd 8 E G A T K vec D
    in gone = [] \<and> vec_nb v = vec_nb vec
     \<and> map (\<lambda>i. (vec_dst v i, map (mb_data (vec_mbufs v i)) [0..<12])) [0..<unat (vec_nb vec)]
       = map (\<lambda>i. let m = vec_mbufs vec i in (em_get_dst_port E G A T m (mb_port m), map ((!) (val_eth G (mb_port m))) [0..<12]))
           [0..<unat (vec_nb vec)]"
proof -
  let ?n = "unat (vec_nb vec)" and ?P = "vec_mbufs vec"
  let ?f = "\<lambda>m. let r = process_packet E G m (mb_port m) in (fst r)\<lparr>mb_port := snd r\<rparr>"
  let ?vec = "vec\<lparr>vec_mbufs := \<lambda>k. if k < ?n then ?f (?P k) else ?P k\<rparr>"
  let ?D = "\<lambda>k. if k < ?n then em_get_dst_port E G A T (?P k) (mb_port (?P k)) else D k"
  obtain v gone where r: "process_event_vector ?vec ?D = (v, gone)" by fastforce
  have e: "l3fwd_em_process_event_vector sse_simd 8 E G A T K vec D = (v, gone)"
    using em_vector_no_attr [OF _ rewrites_sse assms(2), of 8 E G A T K D] by (simp add: r)
  have "?D i \<noteq> BAD_PORT" if "i < ?n" for i
  proof -
    have "port_ok E (mb_port (?P i))" using assms(3) that by blast
    from port_ok_bound [OF assms(1) em_port_ok [OF this, of G A T "?P i"]] show ?thesis using that by simp
  qed
  then have k: "kept ?D ?n = [0..<?n]" "dropped ?D ?n = []"
    by (auto simp: kept_def dropped_def filter_id_conv filter_empty_conv)
  have nbv: "vec_nb ?vec = vec_nb vec" "vec_mbufs ?vec = (\<lambda>k. if k < ?n then ?f (?P k) else ?P k)" by simp_all
  note p = process_event_vector_ok [OF r, unfolded nbv k]
  have nb: "vec_nb v = vec_nb vec" using p(2) by (simp add: word_unat_eq_iff)
  have "(vec_dst v i, map (mb_data (vec_mbufs v i)) [0..<12])
      = (let m = ?P i in (em_get_dst_port E G A T m (mb_port m), map ((!) (val_eth G (mb_port m))) [0..<12]))"
    if i: "i < ?n" for i
  proof -
    have "mb_data (vec_mbufs v i) = mb_data (?f (?P i)) \<and> vec_dst v i = em_get_dst_port E G A T (?P i) (mb_port (?P i))"
      using arg_cong [OF p(3), of "\<lambda>xs. xs ! i"] i by (simp add: nb)
    then show ?thesis by (simp add: Let_def process_packet_mac)
  qed
  then show ?thesis using p(1) by (simp add: e nb)
qed

lemma free_tail_keeps:
  "out_of_range (free_tail m r n s) = out_of_range s \<and> tb_tab (free_tail m r n s) = tb_tab s
    \<and> set (freed s) \<subseteq> set (freed (free_tail m r n s))"
proof (induction m r n s rule: free_tail.induct)
  case (1 m r n s)
  show ?case
  proof (cases "Suc r < n")
    case True
    then show ?thesis using 1 [OF refl True] by (subst (1 2 3) free_tail.simps) (auto simp: pktmbuf_free_def Let_def)
  next
    case False
    then show ?thesis by (subst (1 2 3) free_tail.simps) (auto simp: pktmbuf_free_def Let_def)
  qed
qed

lemma free_tail_sub: "x \<in> set (freed s) \<Longrightarrow> x \<in> set (freed (free_tail m r n s))"
  using free_tail_keeps by blast

lemma send_burst_keeps:
  "(out_of_range s \<longrightarrow> out_of_range (snd (send_burst E n p s))) \<and> tb_tab (snd (send_burst E n p s)) = tb_tab s
    \<and> set (freed s) \<subseteq> set (freed (snd (send_burst E n p s)))"
proof -
  have e: "out_of_range (snd (eth_tx_burst E p q ms t)) = out_of_range t" "tb_tab (snd (eth_tx_burst E p q ms t)) = tb_tab t"
    "freed (snd (eth_tx_burst E p q ms t)) = freed t" for q ms t
    by (simp_all add: eth_tx_burst_def Let_def)
  show ?thesis
    by (auto simp: send_burst_def Let_def case_prod_beta e bad_access_def free_tail_keeps intro!: free_tail_sub)
qed

lemma single_bad_port:
  assumes "max_ethports E \<le> 65535"
  shows "out_of_range (snd (send_single_packet E G m BAD_PORT s))
    \<and> tb_tab (snd (send_single_packet E G m BAD_PORT s)) BAD_PORT (tb_len s BAD_PORT) = m
    \<and> set (freed s) \<subseteq> set (freed (snd (send_single_packet E G m BAD_PORT s)))"
proof -
  have b: "port_index_bad E BAD_PORT"
    using assms by (simp add: port_index_bad_def BAD_PORT_def unsigned_minus_1_eq_mask mask_eq_exp_minus_1)
  let ?s1 = "store_tx BAD_PORT (tb_len s BAD_PORT) m (bad_access True s)"
  have 1: "out_of_range ?s1" "tb_tab ?s1 BAD_PORT (tb_len s BAD_PORT) = m" "freed ?s1 = freed s"
    by (simp_all add: store_tx_def bad_access_def)
  have l: "tb_len (bad_access c s) = tb_len s" for c by (simp add: bad_access_def)
  show ?thesis using 1 send_burst_keeps [of ?s1 E "rx_burst_size G" BAD_PORT]
    by (simp add: send_single_packet_def b Let_def case_prod_beta l)
qed

text \<open>Without vector instructions, an IPv4 packet the RFC 1812 checks reject is not dropped: it is
  freed, its port becomes \<open>BAD_PORT\<close>, and the caller passes both on, so the freed buffer is stored in
  an entry of \<open>tx_mbufs\<close> far outside the array.\<close>

lemma em_simple_forward_sends_freed:
  assumes "max_ethports E \<le> 65535" and "em_l4_type E m \<noteq> 0" and "em_l3_type E m = ptype_l3_ipv4 E"
    and "fst (is_valid_ipv4_pkt E (mb_data m) (pkt_len m) (ol_flags m)) < 0"
  shows "out_of_range (l3fwd_em_simple_forward E G A T portid m s)
    \<and> (\<exists>m'. mb_id m' = mb_id m \<and> m' \<in> set (freed (l3fwd_em_simple_forward E G A T portid m s))
        \<and> tb_tab (l3fwd_em_simple_forward E G A T portid m s) BAD_PORT (tb_len s BAD_PORT) = m')"
proof -
  obtain rc d where v: "is_valid_ipv4_pkt E (mb_data m) (pkt_len m) (ol_flags m) = (rc, d)" "rc < 0"
    using assms(4) by (metis fst_conv surj_pair)
  let ?m = "m\<lparr>mb_data := d\<rparr>" and ?s = "pktmbuf_free (m\<lparr>mb_data := d\<rparr>) s"
  have f: "l3fwd_em_simple_forward E G A T portid m s = snd (send_single_packet E G ?m BAD_PORT ?s)"
    using assms(2,3) v
    by (simp add: l3fwd_em_simple_forward_def em_l4_type_def em_l3_type_def l4_types_def l3fwd_em_handle_ipv4_def)
  have "?m \<in> set (freed ?s)" "tb_len ?s = tb_len s" by (simp_all add: pktmbuf_free_def)
  then show ?thesis using single_bad_port [OF assms(1), of G ?m ?s] unfolding f by (intro conjI exI [of _ ?m]) auto
qed

text \<open>The bulk lookup does misread packets when the port itself reports packet types: eight packets
  of which the first has IPv4 options and the others have none share the bits of an IPv4 packet without
  options, so the first is looked up with the bytes that follow its header at a fixed offset, while the
  one-packet routine leaves it on the receiving port. What it does to one packet depends on its neighbours.\<close>

lemma em_group_misreads_options:
  assumes "em_ptype_ok E" and "hash_ok A" and "ptype_l4_tcp E \<noteq> 0"
    and "ptype_l3_ipv4_options E AND ptype_l3_ipv4 E = ptype_l3_ipv4 E" and "ptype_l3_ipv4_options E \<noteq> ptype_l3_ipv4 E"
    and "ptype_l3_ipv4_options E \<noteq> ptype_l3_ipv6 E"
    and "packet_type (P 0) = ptype_l3_ipv4_options E OR ptype_l4_tcp E"
    and "\<forall>i \<in> {1..<8}. packet_type (P i) = ptype_l3_ipv4 E OR ptype_l4_tcp E"
  shows "snd (l3fwd_em_process_packets sse_simd 8 E G A T K 8 portid False (P, D)) 0
      = (let p = em_get_ipv4_dst_port A T (mb_data (P 0)) portid in if \<not> port_enabled E G p then portid else p)
    \<and> em_get_dst_port E G A T (P 0) portid = portid"
proof -
  have b: "t \<in> {ptype_l3_ipv4 E, ptype_l3_ipv4_options E} \<Longrightarrow> bit t n \<Longrightarrow> bit (ptype_l3_mask E) n \<and> \<not> bit (l4_types E) n" for t n
  proof -
    assume "t \<in> {ptype_l3_ipv4 E, ptype_l3_ipv4_options E}" and n: "bit t n"
    then have "bit (t AND ptype_l3_mask E) n" "\<not> bit (t AND l4_types E) n"
      using assms(1) n by (auto simp: em_ptype_ok_def)
    then show ?thesis using n by (simp add: bit_simps)
  qed
  have m: "\<not> (bit (ptype_l3_mask E) n \<and> bit (l4_types E) n)" for n
  proof -
    have "bit (ptype_l3_mask E AND l4_types E) n = False" using assms(1) by (simp add: em_ptype_ok_def)
    then show ?thesis by (simp add: bit_simps)
  qed
  have tcp: "bit (ptype_l4_tcp E) n \<Longrightarrow> bit (l4_types E) n" for n by (simp add: l4_types_def bit_simps)
  have v4: "bit (ptype_l3_ipv4 E) n \<Longrightarrow> bit (ptype_l3_ipv4_options E) n" for n
    using arg_cong [OF assms(4), of "\<lambda>t. bit t n"] by (simp add: bit_simps)
  have g: "bit (em_group_type E 8 P 0) n \<longleftrightarrow> (bit (ptype_l3_mask E) n \<or> bit (l4_types E) n)
      \<and> (bit (ptype_l3_ipv4_options E) n \<or> bit (ptype_l4_tcp E) n) \<and> (bit (ptype_l3_ipv4 E) n \<or> bit (ptype_l4_tcp E) n)" for n
  proof -
    have s: "set [0..<8] = insert 0 {1..<8 :: nat}" by auto
    have "(\<forall>i \<in> {1..<8}. bit (packet_type (P (0 + i))) n) \<longleftrightarrow> bit (ptype_l3_ipv4 E OR ptype_l4_tcp E) n"
      using assms(8) by auto
    then show ?thesis
      unfolding em_group_type_def bit_fold_and s by (auto simp: assms(7) l4_types_def bit_simps)
  qed
  have l3: "em_group_type E 8 P 0 AND ptype_l3_mask E = ptype_l3_ipv4 E"
  proof (rule bit_word_eqI)
    fix n
    show "bit (em_group_type E 8 P 0 AND ptype_l3_mask E) n = bit (ptype_l3_ipv4 E) n"
      using g [of n] b [of "ptype_l3_ipv4 E" n] m [of n] tcp [of n] v4 [of n] by (auto simp: bit_simps)
  qed
  obtain n where "bit (ptype_l4_tcp E) n" using nonzero_bit [OF assms(3)] by blast
  then have "bit (em_group_type E 8 P 0 AND l4_types E) n" using g tcp by (simp add: bit_simps)
  then have l4: "em_group_type E 8 P 0 AND l4_types E \<noteq> 0" by (metis bit_0_eq bot_apply bot_bool_def)
  have bulk: "h_bulk A h ks = map (h_lookup A h) ks" for h ks using assms(2) by (simp add: hash_ok_def)
  have "l3fwd_em_process_packets sse_simd 8 E G A T K 8 portid False (P, D)
      = (P, em_get_dst_port_ipv4xN E G A T 8 P 0 portid D)"
    using l3 l4 by (simp add: l3fwd_em_process_packets_def em_group_def em_group_ports_def Let_def l4_types_def)
  moreover have "em_l3_type E (P 0) = ptype_l3_ipv4_options E"
  proof (rule bit_word_eqI)
    fix n
    show "bit (em_l3_type E (P 0)) n = bit (ptype_l3_ipv4_options E) n"
      using b [of "ptype_l3_ipv4_options E" n] m [of n] tcp [of n] by (auto simp: em_l3_type_def assms(7) bit_simps)
  qed
  ultimately show ?thesis using assms(5,6)
    by (simp add: em_get_dst_port_ipv4xN_def em_dst_xN_eq bulk Let_def em_get_dst_port_def em_l3_type_def
        em_get_ipv4_dst_port_def get_ipv4_5tuple_def)
qed

end
