(* ===== verification/Fib_Forward.thy ===== *)
theory Fib_Forward
  imports Em_Forward
begin

text \<open>
  Forwarding with the forwarding information base, \<open>l3fwd/l3fwd_fib.c\<close>: the destinations of a burst are
  split into an IPv4 and an IPv6 array, looked up in bulk, and the two arrays of hops are put together
  again in the order of the packets. The tables of the library answer through \<open>fib_tables\<close>,
  and are filled through \<open>fib_api\<close>. Prefetching and output are left out.
\<close>

section \<open>Lookups in bulk\<close>

definition FIB_PREFETCH_OFFSET :: nat where "FIB_PREFETCH_OFFSET = 4"
definition FIB_DEFAULT_HOP :: u16 where "FIB_DEFAULT_HOP = 999"

record fib_tables =
  ft_bulk4 :: "u32 list \<Rightarrow> u64 list"
  ft_bulk6 :: "u8 list list \<Rightarrow> u64 list"

text \<open>The arrays of a caller with their counters; \<open>fa_type\<close> is 1 for IPv4 and 0 for the rest.\<close>

record fib_arrays =
  fa_ipv4 :: "nat \<Rightarrow> u32"
  fa_cnt4 :: nat
  fa_ipv6 :: "nat \<Rightarrow> u8 list"
  fa_cnt6 :: nat
  fa_type :: "nat \<Rightarrow> u8"

definition fib_parse_packet :: "dpdk \<Rightarrow> mbuf \<Rightarrow> nat \<Rightarrow> fib_arrays \<Rightarrow> fib_arrays" where
  "fib_parse_packet E m i a =
     (if packet_type m AND ptype_l3_ipv4 E \<noteq> 0
      then a\<lparr>fa_ipv4 := (fa_ipv4 a)(fa_cnt4 a := bswap32 (ld32 (mb_data m) IP_DST)),
             fa_type := (fa_type a)(i := 1), fa_cnt4 := fa_cnt4 a + 1\<rparr>
      else a\<lparr>fa_ipv6 := (fa_ipv6 a)(fa_cnt6 a := ldn (mb_data m) IP6_DST 16),
             fa_type := (fa_type a)(i := 0), fa_cnt6 := fa_cnt6 a + 1\<rparr>)"

text \<open>The two parsing loops, with and without prefetches, then the lookups; the array of
  a family without packets stays as it was and is not read.\<close>

definition fib_parse :: "dpdk \<Rightarrow> (nat \<Rightarrow> mbuf) \<Rightarrow> nat \<Rightarrow> fib_arrays \<Rightarrow> fib_arrays" where
  "fib_parse E P n a =
     (let a0 = a\<lparr>fa_cnt4 := 0, fa_cnt6 := 0\<rparr>;
          a1 = fold (\<lambda>i. fib_parse_packet E (P i) i) [0..<n - FIB_PREFETCH_OFFSET] a0
      in fold (\<lambda>i. fib_parse_packet E (P i) i) [n - FIB_PREFETCH_OFFSET..<n] a1)"

definition fib_lookup :: "fib_tables \<Rightarrow> fib_arrays \<Rightarrow> u64 list \<times> u64 list" where
  "fib_lookup F a =
     (if 0 < fa_cnt4 a then ft_bulk4 F (map (fa_ipv4 a) [0..<fa_cnt4 a]) else [],
      if 0 < fa_cnt6 a then ft_bulk6 F (map (fa_ipv6 a) [0..<fa_cnt6 a]) else [])"

text \<open>The next hop of packet \<open>i\<close>; the indices \<open>ipv4_arr_assem\<close> and \<open>ipv6_arr_assem\<close> move on.\<close>

definition fib_next :: "fib_arrays \<Rightarrow> u64 list \<times> u64 list \<Rightarrow> nat \<Rightarrow> nat \<times> nat \<Rightarrow> u16 \<times> nat \<times> nat" where
  "fib_next a hv i ix =
     (if fa_type a i \<noteq> 0 then (ucast (fst hv ! fst ix), fst ix + 1, snd ix)
      else (ucast (snd hv ! snd ix), fst ix, snd ix + 1))"

definition fib_assemble :: "fib_arrays \<Rightarrow> u64 list \<times> u64 list \<Rightarrow> (nat \<Rightarrow> u16) \<Rightarrow> nat \<Rightarrow>
    (nat \<Rightarrow> u16) \<times> nat \<times> nat \<Rightarrow> (nat \<Rightarrow> u16) \<times> nat \<times> nat" where
  "fib_assemble a hv own i st =
     (let (D, ix) = st; (nh, ix') = fib_next a hv i ix
      in (D(i := if nh \<noteq> FIB_DEFAULT_HOP then nh else own i), ix'))"

text \<open>Parsing, lookup and assembly of \<open>n\<close> packets; a packet without a route goes to \<open>own\<close>.\<close>

definition fib_hops :: "dpdk \<Rightarrow> fib_tables \<Rightarrow> fib_arrays \<Rightarrow> (nat \<Rightarrow> u16) \<Rightarrow> (nat \<Rightarrow> mbuf) \<Rightarrow> nat \<Rightarrow>
    (nat \<Rightarrow> u16) \<Rightarrow> (nat \<Rightarrow> u16)" where
  "fib_hops E F a own P n D =
     (let a1 = fib_parse E P n a; hv = fib_lookup F a1
      in fst (fold (fib_assemble a1 hv own) [0..<n] (D, 0, 0)))"

section \<open>Bursts\<close>

definition fib_send_packets :: "dpdk \<Rightarrow> glob \<Rightarrow> fib_tables \<Rightarrow> fib_arrays \<Rightarrow> (nat \<Rightarrow> nat) \<Rightarrow> nat \<Rightarrow> burst \<Rightarrow> u16 \<Rightarrow>
    lcore \<Rightarrow> (tx_stats \<times> lcore) option" where
  "fib_send_packets E G F a pnum0 nb_rx PD portid s =
     (let hops = fib_hops E F a (\<lambda>_. portid) (fst PD) nb_rx (snd PD)
      in send_packets_multi E G pnum0 (fst PD, hops) nb_rx s)"

text \<open>Without vector instructions. The addresses are taken from the arrays \<open>dest_eth_addr\<close> and
  \<open>ports_eth_addr\<close> at the port the checks left; \<open>None\<close> is a read outside them.\<close>

definition fib_process_packet :: "dpdk \<Rightarrow> glob \<Rightarrow> mbuf \<Rightarrow> u16 \<Rightarrow> (mbuf \<times> u16) option" where
  "fib_process_packet E G pkt hop =
     (let (d, hop') = rfc1812_process E (mb_data pkt) hop (packet_type pkt)
      in if port_index_bad E hop' then None else Some (pkt\<lparr>mb_data := set_mac G hop' d\<rparr>, hop'))"

fun fib_send_loop :: "dpdk \<Rightarrow> glob \<Rightarrow> (nat \<Rightarrow> mbuf) \<Rightarrow> (nat \<Rightarrow> u16) \<Rightarrow> nat list \<Rightarrow> lcore \<Rightarrow> lcore option" where
  "fib_send_loop E G P hops [] s = Some s"
| "fib_send_loop E G P hops (j # js) s =
     (case fib_process_packet E G (P j) (hops j) of None \<Rightarrow> None
      | Some (m, hop) \<Rightarrow>
          fib_send_loop E G P hops js
            (if hop = BAD_PORT then pktmbuf_free m s else snd (send_single_packet E G m hop s)))"

definition fib_send_single :: "dpdk \<Rightarrow> glob \<Rightarrow> nat \<Rightarrow> (nat \<Rightarrow> mbuf) \<Rightarrow> (nat \<Rightarrow> u16) \<Rightarrow> lcore \<Rightarrow> lcore option" where
  "fib_send_single E G nb_tx P hops s = fib_send_loop E G P hops [0..<nb_tx] s"

definition fib_send_packets_single :: "dpdk \<Rightarrow> glob \<Rightarrow> fib_tables \<Rightarrow> fib_arrays \<Rightarrow> nat \<Rightarrow> burst \<Rightarrow> u16 \<Rightarrow>
    lcore \<Rightarrow> lcore option" where
  "fib_send_packets_single E G F a nb_rx PD portid s =
     fib_send_single E G nb_rx (fst PD) (fib_hops E F a (\<lambda>_. portid) (fst PD) nb_rx (snd PD)) s"

section \<open>Events\<close>

text \<open>The loop over the events of a pass that assigns the ports.\<close>

definition fib_event_step :: "simd \<Rightarrow> dpdk \<Rightarrow> glob \<Rightarrow> fib_arrays \<Rightarrow> u64 list \<times> u64 list \<Rightarrow> nat \<Rightarrow>
    burst \<times> nat \<times> nat \<Rightarrow> burst \<times> nat \<times> nat" where
  "fib_event_step U E G a hv i st =
     (let ((P, D), ix) = st;
          (nh, ix') = fib_next a hv i ix;
          (m, hop) = sd_proc U E G (P i) (if nh \<noteq> FIB_DEFAULT_HOP then nh else mb_port (P i))
      in ((P(i := m\<lparr>mb_port := if hop \<noteq> BAD_PORT then hop else mb_port m\<rparr>), D(i := hop)), ix'))"

definition fib_process_events :: "simd \<Rightarrow> dpdk \<Rightarrow> glob \<Rightarrow> fib_tables \<Rightarrow> fib_arrays \<Rightarrow> nat \<Rightarrow> burst \<Rightarrow> burst" where
  "fib_process_events U E G F a nb_deq PD =
     (let a1 = fib_parse E (fst PD) nb_deq a; hv = fib_lookup F a1
      in fst (fold (fib_event_step U E G a1 hv) [0..<nb_deq] (PD, 0, 0)))"

definition fib_process_event_vector :: "simd \<Rightarrow> dpdk \<Rightarrow> glob \<Rightarrow> fib_tables \<Rightarrow> fib_arrays \<Rightarrow> event_vector \<Rightarrow>
    (nat \<Rightarrow> u16) \<Rightarrow> event_vector \<times> mbuf list" where
  "fib_process_event_vector U E G F a vec hops =
     (let P = vec_mbufs vec; n = unat (vec_nb vec);
          own = (\<lambda>i. if vec_attr_valid vec then vec_port vec else mb_port (P i));
          D1 = fib_hops E F a own P n hops;
          k = n - n mod FWDSTEP;
          PD2 = fold (\<lambda>i. sd_step3 U E G (FWDSTEP * i)) [0..<k div FWDSTEP] (P, D1);
          (P3, D3) = fold (\<lambda>i PD. ((fst PD)(i := fst (sd_proc U E G (fst PD i) (snd PD i))),
                                  (snd PD)(i := snd (sd_proc U E G (fst PD i) (snd PD i))))) [k..<n] PD2
      in process_event_vector (vec\<lparr>vec_mbufs := P3\<rparr>) D3)"

section \<open>One packet at a time\<close>

text \<open>The bulk lookups give for each address what they give for it alone.\<close>

definition fib_bulk_ok :: "fib_tables \<Rightarrow> bool" where
  "fib_bulk_ok F \<longleftrightarrow> (\<forall>as. ft_bulk4 F as = map (\<lambda>a. hd (ft_bulk4 F [a])) as)
     \<and> (\<forall>as. ft_bulk6 F as = map (\<lambda>a. hd (ft_bulk6 F [a])) as)"

definition fib_is4 :: "dpdk \<Rightarrow> mbuf \<Rightarrow> bool" where
  "fib_is4 E m \<longleftrightarrow> packet_type m AND ptype_l3_ipv4 E \<noteq> 0"

definition fib_dst4 :: "mbuf \<Rightarrow> u32" where
  "fib_dst4 m = bswap32 (ld32 (mb_data m) IP_DST)"

definition fib_dst6 :: "mbuf \<Rightarrow> u8 list" where
  "fib_dst6 m = ldn (mb_data m) IP6_DST 16"

definition fib_hop :: "dpdk \<Rightarrow> fib_tables \<Rightarrow> mbuf \<Rightarrow> u16" where
  "fib_hop E F m = (if fib_is4 E m then ucast (hd (ft_bulk4 F [fib_dst4 m])) else ucast (hd (ft_bulk6 F [fib_dst6 m])))"

definition fib_port :: "dpdk \<Rightarrow> fib_tables \<Rightarrow> mbuf \<Rightarrow> u16 \<Rightarrow> u16" where
  "fib_port E F m own = (if fib_hop E F m \<noteq> FIB_DEFAULT_HOP then fib_hop E F m else own)"

lemma upt_join: "k \<le> n \<Longrightarrow> [0..<k] @ [k..<n] = [0..<n]"
  using map_upt_split [of k n id] by simp

lemma fold_join: "k \<le> n \<Longrightarrow> fold f [k..<n] (fold f [0..<k] s) = fold f [0..<n] s"
  unfolding upt_join [symmetric] fold_append comp_apply ..

text \<open>The packets of one family among the first \<open>i\<close>.\<close>

definition fam :: "bool \<Rightarrow> dpdk \<Rightarrow> (nat \<Rightarrow> mbuf) \<Rightarrow> nat \<Rightarrow> nat list" where
  "fam b E P i = filter (\<lambda>k. fib_is4 E (P k) = b) [0..<i]"

lemma fam_Suc: "fam b E P (Suc i) = fam b E P i @ (if fib_is4 E (P i) = b then [i] else [])"
  by (simp add: fam_def)

lemma fam_nth: "i < n \<Longrightarrow> fib_is4 E (P i) = b \<Longrightarrow>
    length (fam b E P i) < length (fam b E P n) \<and> fam b E P n ! length (fam b E P i) = i"
proof (induction n)
  case (Suc n)
  then show ?case by (cases "i = n") (auto simp: fam_Suc nth_append)
qed simp

definition parsed :: "dpdk \<Rightarrow> (nat \<Rightarrow> mbuf) \<Rightarrow> nat \<Rightarrow> fib_arrays \<Rightarrow> bool" where
  "parsed E P i a \<longleftrightarrow> map (fa_ipv4 a) [0..<fa_cnt4 a] = map (\<lambda>k. fib_dst4 (P k)) (fam True E P i)
     \<and> map (fa_ipv6 a) [0..<fa_cnt6 a] = map (\<lambda>k. fib_dst6 (P k)) (fam False E P i)
     \<and> (\<forall>k < i. fa_type a k \<noteq> 0 \<longleftrightarrow> fib_is4 E (P k))"

lemma parsed_step: "parsed E P i a \<Longrightarrow> parsed E P (Suc i) (fib_parse_packet E (P i) i a)"
  unfolding parsed_def fib_parse_packet_def
  by (auto simp: fam_Suc fib_is4_def fib_dst4_def fib_dst6_def less_Suc_eq)

lemma fib_parse_parsed: "parsed E P n (fib_parse E P n a)"
proof -
  have "parsed E P i (fold (\<lambda>i. fib_parse_packet E (P i) i) [0..<i] (a\<lparr>fa_cnt4 := 0, fa_cnt6 := 0\<rparr>))" for i
  proof (induction i)
    case 0
    show ?case by (simp add: parsed_def fam_def)
  next
    case (Suc i)
    then show ?case using parsed_step by simp
  qed
  moreover have "fib_parse E P n a = fold (\<lambda>i. fib_parse_packet E (P i) i) [0..<n] (a\<lparr>fa_cnt4 := 0, fa_cnt6 := 0\<rparr>)"
    by (simp add: fib_parse_def Let_def fold_join)
  ultimately show ?thesis by simp
qed

lemma parsed_count:
  assumes "parsed E P n a"
  shows "fa_cnt4 a = length (fam True E P n)" and "fa_cnt6 a = length (fam False E P n)"
  using assms map_eq_imp_length_eq unfolding parsed_def by force+

lemma fib_lookup_parsed:
  assumes "fib_bulk_ok F" and "parsed E P n a"
  shows "fst (fib_lookup F a) = map (\<lambda>k. hd (ft_bulk4 F [fib_dst4 (P k)])) (fam True E P n)"
    and "snd (fib_lookup F a) = map (\<lambda>k. hd (ft_bulk6 F [fib_dst6 (P k)])) (fam False E P n)"
proof -
  note c = parsed_count [OF assms(2)]
  have b: "ft_bulk4 F as = map (\<lambda>a. hd (ft_bulk4 F [a])) as" "ft_bulk6 F bs = map (\<lambda>a. hd (ft_bulk6 F [a])) bs" for as bs
    using assms(1) unfolding fib_bulk_ok_def by blast+
  have "ft_bulk4 F (map (fa_ipv4 a) [0..<fa_cnt4 a]) = map (\<lambda>k. hd (ft_bulk4 F [fib_dst4 (P k)])) (fam True E P n)"
    using assms(2) unfolding parsed_def by (subst b(1)) simp
  then show "fst (fib_lookup F a) = map (\<lambda>k. hd (ft_bulk4 F [fib_dst4 (P k)])) (fam True E P n)"
    by (auto simp: fib_lookup_def c)
  have "ft_bulk6 F (map (fa_ipv6 a) [0..<fa_cnt6 a]) = map (\<lambda>k. hd (ft_bulk6 F [fib_dst6 (P k)])) (fam False E P n)"
    using assms(2) unfolding parsed_def by (subst b(2)) simp
  then show "snd (fib_lookup F a) = map (\<lambda>k. hd (ft_bulk6 F [fib_dst6 (P k)])) (fam False E P n)"
    by (auto simp: fib_lookup_def c)
qed

text \<open>At packet \<open>i\<close> the two indices count the packets of each family before it.\<close>

abbreviation fib_ix :: "dpdk \<Rightarrow> (nat \<Rightarrow> mbuf) \<Rightarrow> nat \<Rightarrow> nat \<times> nat" where
  "fib_ix E P i \<equiv> (length (fam True E P i), length (fam False E P i))"

lemma fib_next_hop:
  assumes "fib_bulk_ok F" and "parsed E P n a" and "i < n"
  shows "fib_next a (fib_lookup F a) i (fib_ix E P i) = (fib_hop E F (P i), fib_ix E P (Suc i))"
proof -
  have t: "fa_type a i \<noteq> 0 \<longleftrightarrow> fib_is4 E (P i)" using assms(2,3) by (simp add: parsed_def)
  show ?thesis
  proof (cases "fib_is4 E (P i)")
    case True
    then show ?thesis using t fam_nth [where P = P and b = True, OF assms(3)] True
      by (simp add: fib_next_def fib_lookup_parsed [OF assms(1,2)] fam_Suc fib_hop_def)
  next
    case False
    then have f: "fib_is4 E (P i) = False" by simp
    show ?thesis using t f fam_nth [where P = P and b = False, OF assms(3)]
      by (simp add: fib_next_def fib_lookup_parsed [OF assms(1,2)] fam_Suc fib_hop_def)
  qed
qed

lemma fib_hops_eq:
  assumes "fib_bulk_ok F"
  shows "fib_hops E F a own P n D = (\<lambda>k. if k < n then fib_port E F (P k) (own k) else D k)"
proof -
  let ?a = "fib_parse E P n a"
  have p: "parsed E P n ?a" by (rule fib_parse_parsed)
  have "i \<le> n \<Longrightarrow> fold (fib_assemble ?a (fib_lookup F ?a) own) [0..<i] (D, 0, 0)
      = (\<lambda>k. if k < i then fib_port E F (P k) (own k) else D k, fib_ix E P i)" for i
  proof (induction i)
    case 0
    show ?case by (simp add: fam_def)
  next
    case (Suc i)
    then have "i < n" by simp
    from fib_next_hop [OF assms p this] show ?case
      using Suc by (auto simp: fib_assemble_def Let_def fib_port_def fun_eq_iff less_Suc_eq)
  qed
  from this [of n] show ?thesis by (simp add: fib_hops_def Let_def)
qed

definition fib_event_pkt :: "dpdk \<Rightarrow> glob \<Rightarrow> fib_tables \<Rightarrow> mbuf \<Rightarrow> mbuf" where
  "fib_event_pkt E G F m =
     (let (m', hop) = process_packet E G m (fib_port E F m (mb_port m))
      in m'\<lparr>mb_port := if hop \<noteq> BAD_PORT then hop else mb_port m\<rparr>)"

lemma process_packet_mb_port: "mb_port (fst (process_packet E G m p)) = mb_port m"
  by (simp add: process_packet_def Let_def case_prod_beta)

lemma fib_process_events_eq:
  assumes "fib_bulk_ok F" and "rewrites_as_ref U E G"
  shows "fst (fib_process_events U E G F a n (P, D)) = (\<lambda>k. if k < n then fib_event_pkt E G F (P k) else P k)"
proof -
  let ?a = "fib_parse E P n a"
  have p: "parsed E P n ?a" by (rule fib_parse_parsed)
  have U: "sd_proc U E G m q = process_packet E G m q" for m q
    using assms(2) unfolding rewrites_as_ref_def by blast
  have "i \<le> n \<Longrightarrow> \<exists>D'. fold (fib_event_step U E G ?a (fib_lookup F ?a)) [0..<i] ((P, D), 0, 0)
      = ((\<lambda>k. if k < i then fib_event_pkt E G F (P k) else P k, D'), fib_ix E P i)" for i
  proof (induction i)
    case 0
    show ?case by (simp add: fam_def)
  next
    case (Suc i)
    then obtain D' where D: "fold (fib_event_step U E G ?a (fib_lookup F ?a)) [0..<i] ((P, D), 0, 0)
      = ((\<lambda>k. if k < i then fib_event_pkt E G F (P k) else P k, D'), fib_ix E P i)" by auto
    have "i < n" using Suc.prems by simp
    have "fib_event_step U E G ?a (fib_lookup F ?a) i
        ((\<lambda>k. if k < i then fib_event_pkt E G F (P k) else P k, D'), fib_ix E P i)
      = ((\<lambda>k. if k < Suc i then fib_event_pkt E G F (P k) else P k, D'(i := snd (process_packet E G (P i) (fib_port E F (P i) (mb_port (P i)))))),
         fib_ix E P (Suc i))"
      unfolding fib_event_step_def Let_def prod.case fib_next_hop [OF assms(1) p \<open>i < n\<close>] U
      by (simp add: fib_event_pkt_def fib_port_def case_prod_beta process_packet_mb_port fun_eq_iff less_Suc_eq)
    then show ?case by (simp add: D)
  qed
  from this [of n] show ?thesis by (auto simp: fib_process_events_def Let_def)
qed

lemma fib_process_event_vector_eq:
  assumes "fib_bulk_ok F" and "rewrites_as_ref U E G"
  defines "own \<equiv> \<lambda>vec i. if vec_attr_valid vec then vec_port vec else mb_port (vec_mbufs vec i)"
  defines "r \<equiv> \<lambda>vec i. process_packet E G (vec_mbufs vec i) (fib_port E F (vec_mbufs vec i) (own vec i))"
  shows "fib_process_event_vector U E G F a vec D =
    process_event_vector (vec\<lparr>vec_mbufs := \<lambda>k. if k < unat (vec_nb vec) then fst (r vec k) else vec_mbufs vec k\<rparr>)
      (\<lambda>k. if k < unat (vec_nb vec) then snd (r vec k) else D k)"
proof -
  let ?P = "vec_mbufs vec" and ?n = "unat (vec_nb vec)"
  let ?k = "?n - ?n mod FWDSTEP"
  let ?D = "fib_hops E F a (own vec) ?P ?n D"
  have U: "sd_step3 U E G j PD = processx4_step3 E G j PD" "sd_proc U E G m q = process_packet E G m q" for j PD m q
    using assms(2) unfolding rewrites_as_ref_def by blast+
  have k: "4 * (?k div FWDSTEP) = ?k" "?k \<le> ?n" using div_mod_4 [of ?n] by (simp_all add: FWDSTEP_def)
  have t: "(\<lambda>i PD. ((fst PD)(i := fst (sd_proc U E G (fst PD i) (snd PD i))),
      (snd PD)(i := snd (sd_proc U E G (fst PD i) (snd PD i))))) = process_at E G"
    by (auto simp: fun_eq_iff process_at_def U Let_def case_prod_beta)
  have s: "fold (\<lambda>i. sd_step3 U E G (FWDSTEP * i)) [0..<?k div FWDSTEP] (?P, ?D) = fold (process_at E G) [0..<?k] (?P, ?D)"
    using step3_range [of "sd_step3 U E G" E G 0 "?k div FWDSTEP" "(?P, ?D)", OF U(1)] by (simp add: k)
  have "fold (process_at E G) [?k..<?n] (fold (process_at E G) [0..<?k] (?P, ?D)) = fold (process_at E G) [0..<?n] (?P, ?D)"
    by (rule fold_join [OF k(2)])
  also have "\<dots> = (\<lambda>k. if k < ?n then fst (r vec k) else ?P k, \<lambda>k. if k < ?n then snd (r vec k) else D k)"
    using process_range [of E G 0 ?n ?P ?D] by (auto simp: fib_hops_eq [OF assms(1)] r_def fun_eq_iff)
  finally have f: "fold (process_at E G) [?k..<?n] (fold (process_at E G) [0..<?k] (?P, ?D))
    = (\<lambda>k. if k < ?n then fst (r vec k) else ?P k, \<lambda>k. if k < ?n then snd (r vec k) else D k)" .
  have o: "(\<lambda>i. if vec_attr_valid vec then vec_port vec else mb_port (?P i)) = own vec" by (simp add: own_def)
  show ?thesis
    unfolding fib_process_event_vector_def Let_def t o s f by simp
qed

section \<open>Filling the tables\<close>

text \<open>\<open>rte_fib_create\<close> gets the configuration, without the choice of the algorithm; \<open>rte_fib_add\<close>
  the table, an address, a depth and a next hop; \<open>rte_fib_lookup_bulk\<close> answers for an array. Two
  fields describe a table: its routes in the order they were added and the hop of an address without one.\<close>

record fib_conf =
  fc_max_routes :: nat
  fc_rib_ext_sz :: nat
  fc_default_nh :: u64
  fc_num_tbl8 :: nat

record ('a, 'h) fib_api =
  f_create :: "fib_conf \<Rightarrow> 'h option"
  f_add :: "'h \<Rightarrow> 'a \<Rightarrow> u8 \<Rightarrow> u64 \<Rightarrow> int \<times> 'h"
  f_bulk :: "'h \<Rightarrow> 'a list \<Rightarrow> u64 list"
  f_routes :: "'h \<Rightarrow> ('a \<times> nat \<times> u64) list"
  f_default :: "'h \<Rightarrow> u64"

text \<open>The exits carry whether \<open>route_base_v4\<close> and \<open>route_base_v6\<close> were freed first.\<close>

fun fib_populate :: "u32 \<Rightarrow> ('a, 'h) fib_api \<Rightarrow> (u8 \<Rightarrow> bool) \<Rightarrow> bool \<times> bool \<Rightarrow> nat \<Rightarrow> 'a route list \<Rightarrow> 'h \<Rightarrow>
    (setup_exit \<times> bool \<times> bool) + 'h" where
  "fib_populate em A dev fr i [] h = Inr h"
| "fib_populate em A dev fr i (r # rs) h =
     (if \<not> in_mask em (unat (rt_out r)) then fib_populate em A dev fr (i + 1) rs h
      else if \<not> dev (rt_out r) then Inl (Exit_dev_info (rt_out r), False, False)
      else let (ret, h') = f_add A h (rt_ip r) (rt_depth r) (ucast (rt_out r))
           in if ret < 0 then Inl (Exit_add i, fr) else fib_populate em A dev fr (i + 1) rs h')"

definition fib_config4 :: fib_conf where
  "fib_config4 = \<lparr>fc_max_routes = 2 ^ 16, fc_rib_ext_sz = 0, fc_default_nh = ucast FIB_DEFAULT_HOP, fc_num_tbl8 = 2 ^ 15\<rparr>"

definition fib_config6 :: fib_conf where
  "fib_config6 = \<lparr>fc_max_routes = 2 ^ 16 - 1, fc_rib_ext_sz = 0, fc_default_nh = ucast FIB_DEFAULT_HOP, fc_num_tbl8 = 2 ^ 15\<rparr>"

definition setup_fib :: "u32 \<Rightarrow> (u32, 'g) fib_api \<Rightarrow> (u8 list, 'h) fib_api \<Rightarrow> (u8 \<Rightarrow> bool) \<Rightarrow> u32 route list \<Rightarrow>
    u8 list route list \<Rightarrow> (setup_exit \<times> bool \<times> bool) + 'g \<times> 'h" where
  "setup_fib em A4 A6 dev rs4 rs6 =
     (case f_create A4 fib_config4 of None \<Rightarrow> Inl (Exit_create, False, False)
      | Some h4 \<Rightarrow>
          (case fib_populate em A4 dev (True, False) 0 rs4 h4 of Inl e \<Rightarrow> Inl e
           | Inr h4' \<Rightarrow>
               (case f_create A6 fib_config6 of None \<Rightarrow> Inl (Exit_create, True, False)
                | Some h6 \<Rightarrow>
                    (case fib_populate em A6 dev (True, True) 0 rs6 h6 of Inl e \<Rightarrow> Inl e
                     | Inr h6' \<Rightarrow> Inr (h4', h6')))))"

text \<open>The tables an lcore gets from \<open>fib_get_ipv4_l3fwd_lookup_struct\<close> and
  \<open>fib_get_ipv6_l3fwd_lookup_struct\<close>.\<close>

definition fib_tables_of :: "(u32, 'g) fib_api \<Rightarrow> (u8 list, 'h) fib_api \<Rightarrow> 'g \<times> 'h \<Rightarrow> fib_tables" where
  "fib_tables_of A4 A6 hs = \<lparr>ft_bulk4 = f_bulk A4 (fst hs), ft_bulk6 = f_bulk A6 (snd hs)\<rparr>"

section \<open>Longest prefixes\<close>

definition covers4 :: "u32 \<Rightarrow> nat \<Rightarrow> u32 \<Rightarrow> bool" where
  "covers4 a d b \<longleftrightarrow> drop_bit (32 - d) a = drop_bit (32 - d) b"

definition covers6 :: "u8 list \<Rightarrow> nat \<Rightarrow> u8 list \<Rightarrow> bool" where
  "covers6 a d b \<longleftrightarrow> list_all (\<lambda>i. bit (a ! (i div 8)) (7 - i mod 8) = bit (b ! (i div 8)) (7 - i mod 8)) [0..<d]"

text \<open>The route of greatest depth that covers an address; of equal ones the last.\<close>

fun fib_best :: "('a \<Rightarrow> nat \<Rightarrow> 'a \<Rightarrow> bool) \<Rightarrow> ('a \<times> nat \<times> u64) list \<Rightarrow> 'a \<Rightarrow> (nat \<times> u64) option" where
  "fib_best cov [] b = None"
| "fib_best cov ((a, d, nh) # rs) b =
     (case fib_best cov rs b of
        None \<Rightarrow> if cov a d b then Some (d, nh) else None
      | Some (d', nh') \<Rightarrow> if cov a d b \<and> d' < d then Some (d, nh) else Some (d', nh'))"

definition fib_api_ok :: "('a \<Rightarrow> nat \<Rightarrow> 'a \<Rightarrow> bool) \<Rightarrow> ('a, 'h) fib_api \<Rightarrow> bool" where
  "fib_api_ok cov A \<longleftrightarrow>
     (\<forall>c h. f_create A c = Some h \<longrightarrow> f_routes A h = [] \<and> f_default A h = fc_default_nh c) \<and>
     (\<forall>h a d nh r h'. f_add A h a d nh = (r, h') \<longrightarrow> 0 \<le> r \<longrightarrow>
        f_routes A h' = f_routes A h @ [(a, unat d, nh)] \<and> f_default A h' = f_default A h) \<and>
     (\<forall>h as. f_bulk A h as = map (\<lambda>a. case fib_best cov (f_routes A h) a of None \<Rightarrow> f_default A h | Some (d, nh) \<Rightarrow> nh) as)"

lemma fib_best_None: "fib_best cov rs b = None \<longleftrightarrow> (\<forall>(a, d, nh) \<in> set rs. \<not> cov a d b)"
  by (induction rs) (auto split: option.splits if_splits)

lemma fib_best_Some:
  "fib_best cov rs b = Some (d, nh) \<Longrightarrow>
    (\<exists>a. (a, d, nh) \<in> set rs \<and> cov a d b) \<and> (\<forall>(a', d', nh') \<in> set rs. cov a' d' b \<longrightarrow> d' \<le> d)"
proof (induction rs arbitrary: d nh)
  case (Cons r rs)
  obtain a1 d1 nh1 where r: "r = (a1, d1, nh1)" by (metis prod_cases3)
  show ?case
  proof (cases "fib_best cov rs b")
    case None
    then show ?thesis using Cons.prems fib_best_None [of cov rs b] by (fastforce simp: r split: if_splits)
  next
    case (Some x)
    obtain d2 nh2 where x: "x = (d2, nh2)" by fastforce
    have ih: "(\<exists>a. (a, d2, nh2) \<in> set rs \<and> cov a d2 b) \<and> (\<forall>(a', d', nh') \<in> set rs. cov a' d' b \<longrightarrow> d' \<le> d2)"
      by (rule Cons.IH) (simp add: Some x)
    show ?thesis
    proof (cases "cov a1 d1 b \<and> d2 < d1")
      case True
      then have "d = d1" "nh = nh1" using Cons.prems Some by (simp_all add: r x)
      then show ?thesis using True ih by (force simp: r)
    next
      case False
      then have "d = d2" "nh = nh2" using Cons.prems Some by (auto simp: r x split: if_splits)
      then show ?thesis using False ih by (fastforce simp: r)
    qed
  qed
qed simp

definition route_entry :: "'a route \<Rightarrow> 'a \<times> nat \<times> u64" where
  "route_entry r = (rt_ip r, unat (rt_depth r), ucast (rt_out r))"

lemma fib_populate_routes:
  assumes "fib_api_ok cov A"
  shows "fib_populate em A dev fr i rs h = Inr h' \<Longrightarrow>
    f_routes A h' = f_routes A h @ map route_entry (filter (route_used em) rs) \<and> f_default A h' = f_default A h
    \<and> (\<forall>r \<in> set (filter (route_used em) rs). dev (rt_out r))"
proof (induction rs arbitrary: i h)
  case (Cons r rs)
  show ?case
  proof (cases "route_used em r")
    case True
    obtain ret h1 where a: "f_add A h (rt_ip r) (rt_depth r) (ucast (rt_out r)) = (ret, h1)" by fastforce
    have 1: "dev (rt_out r)" "0 \<le> ret" "fib_populate em A dev fr (i + 1) rs h1 = Inr h'"
      using Cons.prems True a by (auto simp: route_used_def split: if_splits)
    have "f_routes A h1 = f_routes A h @ [route_entry r]" "f_default A h1 = f_default A h"
      using assms a 1(2) unfolding fib_api_ok_def route_entry_def by blast+
    then show ?thesis using Cons.IH [OF 1(3)] 1(1) True by simp
  next
    case False
    then have "fib_populate em A dev fr (i + 1) rs h = Inr h'" using Cons.prems by (simp add: route_used_def)
    from Cons.IH [OF this] False show ?thesis by simp
  qed
qed simp

text \<open>Where a packet for \<open>dst\<close> must go.\<close>

definition fib_routed :: "('a \<Rightarrow> nat \<Rightarrow> 'a \<Rightarrow> bool) \<Rightarrow> 'a route list \<Rightarrow> 'a \<Rightarrow> u16 \<Rightarrow> u16 \<Rightarrow> bool" where
  "fib_routed cov rs dst own p \<longleftrightarrow>
     (if \<exists>r \<in> set rs. cov (rt_ip r) (unat (rt_depth r)) dst
      then \<exists>r \<in> set rs. cov (rt_ip r) (unat (rt_depth r)) dst \<and> p = ucast (rt_out r)
             \<and> (\<forall>r' \<in> set rs. cov (rt_ip r') (unat (rt_depth r')) dst \<longrightarrow> rt_depth r' \<le> rt_depth r)
      else p = own)"

lemma hop_of_port: "(ucast (ucast (p :: u8) :: u64) :: u16) = ucast p" "(ucast p :: u16) \<noteq> FIB_DEFAULT_HOP"
proof -
  show "(ucast (ucast p :: u64) :: u16) = ucast p" by (rule bit_word_eqI) (auto simp: bit_simps)
  have "unat p < 2 ^ LENGTH(8)" by (rule unsigned_less)
  moreover from this have "unat (ucast p :: u16) = unat p" by (simp add: unsigned_ucast_eq take_bit_nat_eq_self)
  ultimately show "(ucast p :: u16) \<noteq> FIB_DEFAULT_HOP" by (auto simp: FIB_DEFAULT_HOP_def)
qed

lemma hop_default: "(ucast (ucast FIB_DEFAULT_HOP :: u64) :: u16) = FIB_DEFAULT_HOP"
  by (simp add: FIB_DEFAULT_HOP_def)

text \<open>The hop a filled table gives, and the port that follows.\<close>

lemma fib_table_hop:
  fixes cov :: "'a \<Rightarrow> nat \<Rightarrow> 'a \<Rightarrow> bool" and dst :: 'a
  assumes "fib_api_ok cov A" and "f_create A c = Some h0" and "fc_default_nh c = ucast FIB_DEFAULT_HOP"
    and "fib_populate em A dev fr 0 rs h0 = Inr h"
  defines "nh \<equiv> (ucast (hd (f_bulk A h [dst])) :: u16)"
  shows "fib_routed cov (filter (route_used em) rs) dst own (if nh \<noteq> FIB_DEFAULT_HOP then nh else own)"
    and "nh = FIB_DEFAULT_HOP \<or> (\<exists>p. dev p \<and> nh = ucast p)"
proof -
  let ?rs = "filter (route_used em) rs"
  have d: "f_default A h = ucast FIB_DEFAULT_HOP" and r: "f_routes A h = map route_entry ?rs"
    and dev: "\<forall>r \<in> set ?rs. dev (rt_out r)"
    using fib_populate_routes [OF assms(1,4)] assms(1,2,3) unfolding fib_api_ok_def by auto
  have "f_bulk A h [dst] = map (\<lambda>a. case fib_best cov (f_routes A h) a of None \<Rightarrow> f_default A h | Some (d, nh) \<Rightarrow> nh) [dst]"
    using assms(1) unfolding fib_api_ok_def by blast
  from this [unfolded d r] have nh: "nh = ucast (case fib_best cov (map route_entry ?rs) dst of None \<Rightarrow> ucast FIB_DEFAULT_HOP | Some (d, nh) \<Rightarrow> nh)"
    by (simp add: nh_def d r)
  show "fib_routed cov ?rs dst own (if nh \<noteq> FIB_DEFAULT_HOP then nh else own)"
    and "nh = FIB_DEFAULT_HOP \<or> (\<exists>p. dev p \<and> nh = ucast p)"
  proof (atomize (full), cases "fib_best cov (map route_entry ?rs) dst")
    case None
    then have "nh = FIB_DEFAULT_HOP" by (simp add: nh hop_default)
    moreover have "\<not> (\<exists>r \<in> set ?rs. cov (rt_ip r) (unat (rt_depth r)) dst)"
      using None by (auto simp: fib_best_None route_entry_def)
    ultimately show "fib_routed cov ?rs dst own (if nh \<noteq> FIB_DEFAULT_HOP then nh else own)
      \<and> (nh = FIB_DEFAULT_HOP \<or> (\<exists>p. dev p \<and> nh = ucast p))" by (simp add: fib_routed_def)
  next
    case (Some x)
    obtain d0 n0 where x: "x = (d0, n0)" by fastforce
    from fib_best_Some [OF Some [unfolded x]]
    obtain r where r: "r \<in> set ?rs" "cov (rt_ip r) (unat (rt_depth r)) dst" "d0 = unat (rt_depth r)" "n0 = ucast (rt_out r)"
      and m: "\<forall>r' \<in> set ?rs. cov (rt_ip r') (unat (rt_depth r')) dst \<longrightarrow> unat (rt_depth r') \<le> d0"
      by (fastforce simp: route_entry_def)
    have n: "nh = ucast (rt_out r)" by (simp add: nh Some x r(4) hop_of_port(1))
    have le: "\<forall>r' \<in> set ?rs. cov (rt_ip r') (unat (rt_depth r')) dst \<longrightarrow> rt_depth r' \<le> rt_depth r"
      using m by (simp add: r(3) word_le_nat_alt)
    have "fib_routed cov ?rs dst own nh" unfolding fib_routed_def using r(1,2) n le by auto
    then show "fib_routed cov ?rs dst own (if nh \<noteq> FIB_DEFAULT_HOP then nh else own)
      \<and> (nh = FIB_DEFAULT_HOP \<or> (\<exists>p. dev p \<and> nh = ucast p))"
      using hop_of_port(2) [of "rt_out r"] dev r(1) by (auto simp: n)
  qed
qed

lemma setup_fib_steps:
  assumes "setup_fib em A4 A6 dev rs4 rs6 = Inr hs"
  obtains h4 h6 where "f_create A4 fib_config4 = Some h4" "fib_populate em A4 dev (True, False) 0 rs4 h4 = Inr (fst hs)"
    "f_create A6 fib_config6 = Some h6" "fib_populate em A6 dev (True, True) 0 rs6 h6 = Inr (snd hs)"
  using assms by (auto simp: setup_fib_def split: option.splits sum.splits)

definition fib_libs_ok :: "(u32, 'g) fib_api \<Rightarrow> (u8 list, 'h) fib_api \<Rightarrow> bool" where
  "fib_libs_ok A4 A6 \<longleftrightarrow> fib_api_ok covers4 A4 \<and> fib_api_ok covers6 A6"

lemma fib_api_bulk: "fib_api_ok cov A \<Longrightarrow> f_bulk A h as = map (\<lambda>a. hd (f_bulk A h [a])) as"
  unfolding fib_api_ok_def by (elim conjE) (simp only: list.map list.sel)

lemma fib_tables_bulk_ok: "fib_libs_ok A4 A6 \<Longrightarrow> fib_bulk_ok (fib_tables_of A4 A6 hs)"
  unfolding fib_libs_ok_def fib_bulk_ok_def fib_tables_of_def fib_tables.simps
  by (intro conjI allI) (blast intro: fib_api_bulk)+

lemma fib_setup_routed:
  assumes "fib_libs_ok A4 A6" and "setup_fib em A4 A6 dev rs4 rs6 = Inr hs"
  defines "F \<equiv> fib_tables_of A4 A6 hs"
  shows "if fib_is4 E m then fib_routed covers4 (filter (route_used em) rs4) (fib_dst4 m) own (fib_port E F m own)
         else fib_routed covers6 (filter (route_used em) rs6) (fib_dst6 m) own (fib_port E F m own)"
    and "fib_hop E F m = FIB_DEFAULT_HOP \<or> (\<exists>p. dev p \<and> fib_hop E F m = ucast p)"
proof -
  obtain h4 h6 where s: "f_create A4 fib_config4 = Some h4" "fib_populate em A4 dev (True, False) 0 rs4 h4 = Inr (fst hs)"
    "f_create A6 fib_config6 = Some h6" "fib_populate em A6 dev (True, True) 0 rs6 h6 = Inr (snd hs)"
    using setup_fib_steps [OF assms(2)] by metis
  have c: "fc_default_nh fib_config4 = ucast FIB_DEFAULT_HOP" "fc_default_nh fib_config6 = ucast FIB_DEFAULT_HOP"
    by (simp_all add: fib_config4_def fib_config6_def)
  have ok: "fib_api_ok covers4 A4" "fib_api_ok covers6 A6" using assms(1) by (simp_all add: fib_libs_ok_def)
  note t4 = fib_table_hop [OF ok(1) s(1) c(1) s(2)] and t6 = fib_table_hop [OF ok(2) s(3) c(2) s(4)]
  show "if fib_is4 E m then fib_routed covers4 (filter (route_used em) rs4) (fib_dst4 m) own (fib_port E F m own)
         else fib_routed covers6 (filter (route_used em) rs6) (fib_dst6 m) own (fib_port E F m own)"
    using t4(1) [of "fib_dst4 m" own] t6(1) [of "fib_dst6 m" own]
    by (cases "fib_is4 E m") (auto simp: fib_port_def fib_hop_def F_def fib_tables_of_def split: if_splits)
  show "fib_hop E F m = FIB_DEFAULT_HOP \<or> (\<exists>p. dev p \<and> fib_hop E F m = ucast p)"
    using t4(2) t6(2) by (simp add: fib_hop_def F_def fib_tables_of_def)
qed

section \<open>The main loop\<close>

text \<open>\<open>u\<close> is what the arrays of the stack hold when a burst arrives.\<close>

definition fib_forward :: "dpdk \<Rightarrow> glob \<Rightarrow> fib_tables \<Rightarrow> (loop_in \<Rightarrow> fib_arrays) \<Rightarrow> forward" where
  "fib_forward E G F u i nb_rx P portid s =
     map_option snd (fib_send_packets E G F (u i) (in_pnum i) nb_rx (P, in_dst i) portid s)"

definition fib_main_loop :: "dpdk \<Rightarrow> glob \<Rightarrow> fib_tables \<Rightarrow> (loop_in \<Rightarrow> fib_arrays) \<Rightarrow> u64 \<Rightarrow> u64 \<Rightarrow> loop_in list \<Rightarrow>
    lcore \<Rightarrow> poll option" where
  "fib_main_loop E G F u hz tsc ins s = poll_main_loop E (fib_forward E G F u) hz tsc ins s"

definition fib_good :: "dpdk \<times> glob \<times> fib_tables \<times> (loop_in \<Rightarrow> fib_arrays) \<Rightarrow> bool" where
  "fib_good c \<longleftrightarrow> (case c of (E, G, F, u) \<Rightarrow> tx_burst_ok E \<and> ports_16 E \<and> fib_bulk_ok F
     \<and> (\<forall>m. fib_hop E F m = FIB_DEFAULT_HOP \<or> port_ok E (fib_hop E F m)))"

interpretation fib: burst_sender fib_good fst "\<lambda>(E, G, F, u). fib_forward E G F u"
proof
  fix c :: "dpdk \<times> glob \<times> fib_tables \<times> (loop_in \<Rightarrow> fib_arrays)" and p s n P and i :: loop_in
  obtain E G F u where c: "c = (E, G, F, u)" by (metis prod_cases4)
  assume good: "fib_good c"
  then have g: "tx_burst_ok E" "ports_16 E" "fib_bulk_ok F" "\<forall>m. fib_hop E F m = FIB_DEFAULT_HOP \<or> port_ok E (fib_hop E F m)"
    by (simp_all add: fib_good_def c)
  then show "tx_burst_ok (fst c)" by (simp add: c)
  assume p: "port_ok (fst c) p" and inv: "tx_inv MAX_PKT_BURST s" and n: "0 < n" "n \<le> MAX_PKT_BURST"
  let ?D = "fib_hops E F (u i) (\<lambda>_. p) P n (in_dst i)"
  have "port_ok E (?D k)" if "k < n" for k
    using that p g(4) by (auto simp: fib_hops_eq [OF g(3)] fib_port_def c)
  then have "\<forall>k < n. port_ok E (snd (P, ?D) k)" by simp
  from multi_holds [OF g(1,2) inv n this, of G "in_pnum i"]
  show "\<exists>s'. (case c of (E, G, F, u) \<Rightarrow> fib_forward E G F u) i n P p s = Some s' \<and> tx_inv MAX_PKT_BURST s' \<and> same_conf s s'
      \<and> held s' = held s + mset (map (\<lambda>k. mb_id (P k)) [0..<n])"
    by (auto simp: c fib_forward_def fib_send_packets_def Let_def)
qed

lemma fib_setup_good:
  assumes "fib_libs_ok A4 A6" and "setup_fib em A4 A6 dev rs4 rs6 = Inr hs"
    and "tx_burst_ok E" and "ports_16 E" and "\<forall>p. dev p \<longrightarrow> unat p < max_ethports E"
  shows "fib_good (E, G, fib_tables_of A4 A6 hs, u)"
proof -
  have "unat (ucast p :: u16) = unat p" for p :: u8
  proof -
    have "unat p < 2 ^ LENGTH(8)" by (rule unsigned_less)
    then show ?thesis by (simp add: unsigned_ucast_eq take_bit_nat_eq_self)
  qed
  then have "port_ok E (ucast p)" if "dev p" for p using assms(5) that by (simp add: port_ok_def)
  then have "fib_hop E (fib_tables_of A4 A6 hs) m = FIB_DEFAULT_HOP \<or> port_ok E (fib_hop E (fib_tables_of A4 A6 hs) m)" for m
    using fib_setup_routed(2) [OF assms(1,2), of E m] by metis
  then show ?thesis using assms(3,4) fib_tables_bulk_ok [OF assms(1)] by (simp add: fib_good_def)
qed

section \<open>A concrete library\<close>

text \<open>A table is the list of its routes and its default.\<close>

definition fib_list :: "('a \<Rightarrow> nat \<Rightarrow> 'a \<Rightarrow> bool) \<Rightarrow> ('a, ('a \<times> nat \<times> u64) list \<times> u64) fib_api" where
  "fib_list cov = \<lparr>f_create = (\<lambda>c. Some ([], fc_default_nh c)), f_add = (\<lambda>h a d nh. (0, (fst h @ [(a, unat d, nh)], snd h))),
     f_bulk = (\<lambda>h as. map (\<lambda>a. case fib_best cov (fst h) a of None \<Rightarrow> snd h | Some (d, nh) \<Rightarrow> nh) as),
     f_routes = fst, f_default = snd\<rparr>"

lemma fib_list_ok: "fib_api_ok cov (fib_list cov)"
  by (auto simp: fib_api_ok_def fib_list_def split: option.split)

lemma fib_libs_ok_ex: "fib_libs_ok (fib_list covers4) (fib_list covers6)"
  by (simp add: fib_libs_ok_def fib_list_ok)

definition fib_rules4_ex :: "u32 route list" where
  "fib_rules4_ex = [\<lparr>rt_ip = 0, rt_depth = 8, rt_out = 1\<rparr>, \<lparr>rt_ip = 0, rt_depth = 16, rt_out = 2\<rparr>, \<lparr>rt_ip = 0, rt_depth = 24, rt_out = 9\<rparr>]"

definition fib_rules6_ex :: "u8 list route list" where
  "fib_rules6_ex = [\<lparr>rt_ip = replicate 16 0, rt_depth = 4, rt_out = 3\<rparr>]"

definition fib_handles_ex :: "((u32 \<times> nat \<times> u64) list \<times> u64) \<times> ((u8 list \<times> nat \<times> u64) list \<times> u64)" where
  "fib_handles_ex = (([(0, 8, 1), (0, 16, 2)], 999), ([(replicate 16 0, 4, 3)], 999))"

lemma setup_fib_ex:
  "setup_fib 0xf (fib_list covers4) (fib_list covers6) (\<lambda>p. p < 32) fib_rules4_ex fib_rules6_ex = Inr fib_handles_ex"
  by (simp add: setup_fib_def fib_list_def fib_rules4_ex_def fib_rules6_ex_def fib_handles_ex_def in_mask_def shl1_def
      fib_config4_def fib_config6_def FIB_DEFAULT_HOP_def)

definition fib_arrays_ex :: fib_arrays where
  "fib_arrays_ex = \<lparr>fa_ipv4 = (\<lambda>_. 7), fa_cnt4 = 3, fa_ipv6 = (\<lambda>_. []), fa_cnt6 = 5, fa_type = (\<lambda>_. 2)\<rparr>"

abbreviation fib_tables_ex :: fib_tables where
  "fib_tables_ex \<equiv> fib_tables_of (fib_list covers4) (fib_list covers6) fib_handles_ex"

section \<open>Properties\<close>

text \<open>C16. Forwarding with the FIB is longest prefix match: after \<open>setup_fib\<close>, whatever mix of packets a
  burst has, in whatever order, the hop computed for each of them through the bulk lookups is the port
  of a configured route of an enabled port that covers its own destination, of the greatest depth there is,
  and the packet's own port when no such route covers it. What the arrays held before does not matter.\<close>

theorem fib_hops_by_routes:
  assumes "fib_libs_ok A4 A6" and "setup_fib em A4 A6 dev rs4 rs6 = Inr hs" and "i < n"
  shows "let p = fib_hops E (fib_tables_of A4 A6 hs) a own P n D i
    in if fib_is4 E (P i) then fib_routed covers4 (filter (route_used em) rs4) (fib_dst4 (P i)) (own i) p
       else fib_routed covers6 (filter (route_used em) rs6) (fib_dst6 (P i)) (own i) p"
  using fib_setup_routed(1) [OF assms(1,2), of E "P i" "own i"] assms(3)
  by (simp add: fib_hops_eq [OF fib_tables_bulk_ok [OF assms(1)]])

theorem fib_hops_by_routes_witness:
  "let P = (\<lambda>i. (mbuf_ex i)\<lparr>packet_type := if i = 1 then 0x40 else 0x10\<rparr>);
      D = fib_hops dpdk_ex fib_tables_ex fib_arrays_ex (\<lambda>_. 0) P 3 (\<lambda>_. 0)
   in D 1 = 3 \<and> D 2 = 2"
proof -
  let ?P = "\<lambda>i. (mbuf_ex i)\<lparr>packet_type := if i = 1 then 0x40 else 0x10\<rparr>"
  let ?D = "fib_hops dpdk_ex fib_tables_ex fib_arrays_ex (\<lambda>_. 0) ?P 3 (\<lambda>_. 0)"
  have u4: "filter (route_used 0xf) fib_rules4_ex = [\<lparr>rt_ip = 0, rt_depth = 8, rt_out = 1\<rparr>, \<lparr>rt_ip = 0, rt_depth = 16, rt_out = 2\<rparr>]"
    and u6: "filter (route_used 0xf) fib_rules6_ex = fib_rules6_ex"
    by (simp_all add: fib_rules4_ex_def fib_rules6_ex_def route_used_def in_mask_def shl1_def)
  have d4: "fib_dst4 (?P 2) = 0" by (simp add: fib_dst4_def mbuf_ex_def ld32_def bswap32_def)
  have d6: "fib_dst6 (?P 1) = replicate 16 0" by (simp add: fib_dst6_def mbuf_ex_def ldn_def map_replicate_const)
  have i: "fib_is4 dpdk_ex (?P 2)" "\<not> fib_is4 dpdk_ex (?P 1)" by (simp_all add: fib_is4_def dpdk_ex_def)
  note th = fib_hops_by_routes [OF fib_libs_ok_ex setup_fib_ex, of _ 3 dpdk_ex fib_arrays_ex "\<lambda>_. 0" ?P "\<lambda>_. 0", unfolded Let_def]
  have "fib_routed covers4 (filter (route_used 0xf) fib_rules4_ex) 0 0 (?D 2)"
    using th [of 2] i(1) d4 by simp
  then have 2: "?D 2 = 2" by (auto simp: u4 fib_routed_def covers4_def)
  have "fib_routed covers6 (filter (route_used 0xf) fib_rules6_ex) (replicate 16 0) 0 (?D 1)"
    using th [of 1] i(2) d6 by simp
  from this [unfolded u6] have "?D 1 = 3"
    by (simp add: fib_rules6_ex_def fib_routed_def covers6_def list_all_iff)
  with 2 show ?thesis by simp
qed

text \<open>C25. The FIB loop after its set-up: when \<open>setup_fib\<close> returned and the ports it asked about exist, the loop
  of an lcore never fails and loses no packet: after any number of passes the packets on the wire, in the
  transmit buffers and freed are those from before and those received, each once.\<close>

theorem fib_main_loop_keeps:
  assumes "fib_libs_ok A4 A6" and "setup_fib em A4 A6 dev rs4 rs6 = Inr hs"
    and "tx_burst_ok E" and "ports_16 E" and "\<forall>p. dev p \<longrightarrow> unat p < max_ethports E"
    and "poll_ok E s" and "\<forall>i \<in> set ins. bursts_fit i"
  shows "\<exists>st. fib_main_loop E G (fib_tables_of A4 A6 hs) u hz tsc ins s = Some st \<and> tx_inv MAX_PKT_BURST (pl_core st)
    \<and> held (pl_core st) = held s + mset (received ins s)"
  using fib.main_loop_holds [OF fib_setup_good [OF assms(1-5)] _ assms(7)] assms(6)
  by (simp add: fib_main_loop_def)

theorem fib_main_loop_keeps_witness:
  "let i = \<lparr>in_rx = (\<lambda>_. map mbuf_ex [0..<20]), in_tsc = 5, in_pnum = (\<lambda>_. 7), in_dst = (\<lambda>_. 0)\<rparr> in
   \<exists>st. fib_main_loop dpdk_ex glob_ex fib_tables_ex (\<lambda>_. fib_arrays_ex) 1000 0 [i, i] lcore_ex = Some st
    \<and> tx_inv MAX_PKT_BURST (pl_core st)
    \<and> held (pl_core st) = held lcore_ex + mset (received [i, i] lcore_ex)"
proof -
  have "\<forall>p :: u8. p < 32 \<longrightarrow> unat p < max_ethports dpdk_ex" by (simp add: dpdk_ex_def word_less_nat_alt)
  then show ?thesis unfolding Let_def
    by (rule fib_main_loop_keeps [OF fib_libs_ok_ex setup_fib_ex tx_burst_ok_ex ports_16_ex])
       (simp_all add: poll_ok_def bursts_fit_def tx_inv_ex [of 512, simplified] MAX_PKT_BURST_def,
        simp_all add: lcore_ex_def port_ok_ex)
qed

text \<open>An event vector forwarded with the FIB, with the vector units of SSE or NEON: every packet is
  rewritten for the port of its own lookup, where a packet without a route stays on the port of the
  vector or its own; the rejected packets are freed and no others, and each of the others stays
  in order and leaves to the port it was rewritten for.\<close>

lemma fib_event_vector_forwards:
  assumes "fib_bulk_ok F" and "val_eth_16 G" and "U \<in> {sse_simd, neon_simd}"
  shows "let (v, gone) = fib_process_event_vector U E G F a vec D; n = unat (vec_nb vec); P = vec_mbufs vec;
      r = (\<lambda>i. process_packet E G (P i) (fib_port E F (P i) (if vec_attr_valid vec then vec_port vec else mb_port (P i))))
    in gone = map (\<lambda>i. fst (r i)) (dropped (\<lambda>i. snd (r i)) n)
     \<and> map (\<lambda>i. (mb_data (vec_mbufs v i), mb_id (vec_mbufs v i), vec_dst v i)) [0..<unat (vec_nb v)]
       = map (\<lambda>i. (mb_data (fst (r i)), mb_id (P i), snd (r i))) (kept (\<lambda>i. snd (r i)) n)"
proof -
  let ?n = "unat (vec_nb vec)" and ?P = "vec_mbufs vec"
  let ?r = "\<lambda>i. process_packet E G (?P i) (fib_port E F (?P i) (if vec_attr_valid vec then vec_port vec else mb_port (?P i)))"
  let ?vec = "vec\<lparr>vec_mbufs := \<lambda>k. if k < ?n then fst (?r k) else ?P k\<rparr>"
  let ?D = "\<lambda>k. if k < ?n then snd (?r k) else D k"
  obtain v gone where p: "process_event_vector ?vec ?D = (v, gone)" by fastforce
  have "rewrites_as_ref U E G" using assms(2,3) rewrites_sse rewrites_neon by blast
  from fib_process_event_vector_eq [OF assms(1) this, of a vec D]
  have e: "fib_process_event_vector U E G F a vec D = (v, gone)" by (simp add: p)
  note q = process_event_vector_rewritten [where r = ?r, OF p]
  show ?thesis using q by (simp add: e)
qed

lemma fib_bulk_ok_ex: "fib_bulk_ok fib_tables_ex"
  by (rule fib_tables_bulk_ok [OF fib_libs_ok_ex])

text \<open>In event mode with single packets the FIB does not drop what the RFC 1812 checks reject: the
  packet keeps the port it was received on in its mbuf, is passed on with the others and so goes
  back where it came from, with the two addresses prepared for the port it would have left by.\<close>

lemma fib_events_bounce_rejected:
  assumes "fib_bulk_ok F" and "val_eth_16 G" and "U \<in> {sse_simd, neon_simd}" and "i < n"
    and "snd (process_packet E G (P i) (fib_port E F (P i) (mb_port (P i)))) = BAD_PORT"
  shows "let m = fst (fib_process_events U E G F a n (P, D)) i
    in mb_port m = mb_port (P i) \<and> mb_id m = mb_id (P i)
     \<and> map (mb_data m) [0..<12] = map ((!) (val_eth G (fib_port E F (P i) (mb_port (P i))))) [0..<12]"
proof -
  have "rewrites_as_ref U E G" using assms(2,3) rewrites_sse rewrites_neon by blast
  from fib_process_events_eq [OF assms(1) this, of a n P D] assms(4,5)
  show ?thesis by (simp add: fib_event_pkt_def case_prod_beta Let_def process_packet_mac)
qed

lemma fib_send_loop_bad:
  "j \<in> set js \<Longrightarrow> fib_process_packet E G (P j) (hops j) = None \<Longrightarrow> fib_send_loop E G P hops js s = None"
  by (induction js arbitrary: s) (auto split: option.splits)

text \<open>Without vector instructions a rejected packet makes the FIB code read outside its arrays: the
  checks replace its hop by \<open>BAD_PORT\<close>, and the two arrays of addresses are indexed with it before the
  caller tests for it, so that test never sees a rejected packet. A burst that has one does not get through.\<close>

lemma fib_send_single_reads_outside:
  assumes "max_ethports E \<le> 65535" and "j < n"
    and "snd (rfc1812_process E (mb_data (P j)) (fib_hops E F a (\<lambda>_. portid) P n D j) (packet_type (P j))) = BAD_PORT"
  shows "fib_send_packets_single E G F a n (P, D) portid s = None"
proof -
  have b: "port_index_bad E BAD_PORT"
    using assms(1) by (simp add: port_index_bad_def BAD_PORT_def unsigned_minus_1_eq_mask mask_eq_exp_minus_1)
  have "fib_process_packet E G (P j) (fib_hops E F a (\<lambda>_. portid) P n D j) = None"
    using assms(3) b by (simp add: fib_process_packet_def case_prod_beta)
  then show ?thesis using fib_send_loop_bad [of j "[0..<n]"] assms(2)
    by (simp add: fib_send_packets_single_def fib_send_single_def)
qed

end
