(* ===== verification/Event_Loop.thy ===== *)
theory Event_Loop
  imports Fib_Forward
begin

text \<open>
  The workers of event mode (\<open>lpm_event_loop_*\<close>, \<open>em_event_loop_*\<close>, \<open>fib_event_loop*\<close>) with the two
  functions of \<open>l3fwd_event.c\<close> they call. A worker takes events, forwards their packets, and hands the
  events to the next queue or to the transmit adapter, trying again while these are full, until
  \<open>force_quit\<close>; then it frees what it could not hand on. The library is the record \<open>evdev\<close>: its answers
  depend on the time, which counts the calls and the reads of \<open>force_quit\<close>. A loop that would not end is
  \<open>None\<close>. A vector's packets start at offset 0 of its array, as the forwarding routines take it.
\<close>

section \<open>Events and the event device\<close>

datatype event_op = Op_new | Op_forward | Op_release

record 'p event =
  ev_pay :: 'p
  ev_queue_id :: u8
  ev_op :: event_op

definition L3FWD_EVENT_SINGLE :: u8 where "L3FWD_EVENT_SINGLE = 0x1"
definition L3FWD_EVENT_BURST :: u8 where "L3FWD_EVENT_BURST = 0x2"
definition L3FWD_EVENT_TX_DIRECT :: u8 where "L3FWD_EVENT_TX_DIRECT = 0x4"
definition L3FWD_EVENT_TX_ENQ :: u8 where "L3FWD_EVENT_TX_ENQ = 0x8"

lemmas event_flags = L3FWD_EVENT_SINGLE_def L3FWD_EVENT_BURST_def L3FWD_EVENT_TX_DIRECT_def L3FWD_EVENT_TX_ENQ_def

text \<open>\<open>ed_enq\<close> answers both \<open>rte_event_enqueue_burst\<close> (\<open>False\<close>) and
  \<open>rte_event_eth_tx_adapter_enqueue\<close> (\<open>True\<close>); \<open>ed_held\<close> are the events \<open>rte_event_port_quiesce\<close>
  finds in the port.\<close>

record 'p evdev =
  ed_quit :: "nat \<Rightarrow> bool"
  ed_deq :: "nat \<Rightarrow> nat \<Rightarrow> 'p event list"
  ed_enq :: "nat \<Rightarrow> bool \<Rightarrow> 'p event list \<Rightarrow> nat"
  ed_held :: "'p event list"

text \<open>A worker: the array \<open>events\<close>, \<open>nb_deq\<close> and \<open>nb_enq\<close>, and what happened so far.\<close>

record 'p worker =
  wk_time :: nat
  wk_events :: "'p event list"
  wk_deq :: nat
  wk_enq :: nat
  wk_taken :: "'p event list"
  wk_out :: "(bool \<times> 'p event) list"
  wk_freed :: "mbuf list"
  wk_released :: "'p event list"

definition init_worker :: "'p worker" where
  "init_worker = \<lparr>wk_time = 0, wk_events = [], wk_deq = 0, wk_enq = 0, wk_taken = [], wk_out = [], wk_freed = [],
     wk_released = []\<rparr>"

definition read_quit :: "'p evdev \<Rightarrow> 'p worker \<Rightarrow> bool \<times> 'p worker" where
  "read_quit dev w = (ed_quit dev (wk_time w), w\<lparr>wk_time := Suc (wk_time w)\<rparr>)"

definition ev_dequeue :: "'p evdev \<Rightarrow> nat \<Rightarrow> 'p worker \<Rightarrow> 'p worker" where
  "ev_dequeue dev len w =
     (let evs = ed_deq dev (wk_time w) len
      in w\<lparr>wk_time := Suc (wk_time w), wk_events := evs, wk_deq := length evs, wk_taken := wk_taken w @ evs\<rparr>)"

definition ev_enqueue :: "'p evdev \<Rightarrow> bool \<Rightarrow> 'p event list \<Rightarrow> 'p worker \<Rightarrow> nat \<times> 'p worker" where
  "ev_enqueue dev ad evs w =
     (let n = ed_enq dev (wk_time w) ad evs
      in (n, w\<lparr>wk_time := Suc (wk_time w), wk_out := wk_out w @ map (Pair ad) (take n evs)\<rparr>))"

section \<open>Handing on a burst\<close>

text \<open>\<open>while (nb_enq < nb_deq && !force_quit) nb_enq += \<dots>\<close>\<close>

partial_function (option) enq_rest :: "'p evdev \<Rightarrow> bool \<Rightarrow> 'p worker \<Rightarrow> 'p worker option" where
  "enq_rest dev ad w =
     (if wk_enq w < wk_deq w then
        (let (q, w1) = read_quit dev w
         in if q then Some w1
            else let (n, w2) = ev_enqueue dev ad (drop (wk_enq w) (wk_events w)) w1
                 in enq_rest dev ad (w2\<lparr>wk_enq := wk_enq w + n\<rparr>))
      else Some w)"

definition enq_all :: "'p evdev \<Rightarrow> bool \<Rightarrow> 'p worker \<Rightarrow> 'p worker option" where
  "enq_all dev ad w = (let (n, w1) = ev_enqueue dev ad (wk_events w) w in enq_rest dev ad (w1\<lparr>wk_enq := n\<rparr>))"

text \<open>A pass of a loop over bursts: \<open>body\<close> forwards the packets of the events, and may free some.\<close>

type_synonym 'p event_fwd = "nat \<Rightarrow> 'p event list \<Rightarrow> 'p event list \<times> mbuf list"

definition ev_pass :: "'p evdev \<Rightarrow> nat \<Rightarrow> u8 \<Rightarrow> 'p event_fwd \<Rightarrow> 'p worker \<Rightarrow> 'p worker option" where
  "ev_pass dev deq_len flags body w =
     (let w1 = ev_dequeue dev deq_len w
      in if wk_deq w1 = 0 then Some w1
         else let (evs, gone) = body (wk_time w1) (wk_events w1);
                  w2 = w1\<lparr>wk_events := evs, wk_freed := wk_freed w1 @ gone\<rparr>
              in Option.bind (if flags AND L3FWD_EVENT_TX_ENQ \<noteq> 0 then enq_all dev False w2 else Some w2)
                   (\<lambda>w3. if flags AND L3FWD_EVENT_TX_DIRECT \<noteq> 0 then enq_all dev True w3 else Some w3))"

partial_function (option) ev_loop :: "'p evdev \<Rightarrow> nat \<Rightarrow> u8 \<Rightarrow> 'p event_fwd \<Rightarrow> 'p worker \<Rightarrow> 'p worker option" where
  "ev_loop dev deq_len flags body w =
     (let (q, w1) = read_quit dev w
      in if q then Some w1 else Option.bind (ev_pass dev deq_len flags body w1) (ev_loop dev deq_len flags body))"

section \<open>One event at a time\<close>

text \<open>\<open>do enq = \<dots> while (!enq && !force_quit)\<close>\<close>

partial_function (option) enq_one :: "'p evdev \<Rightarrow> bool \<Rightarrow> 'p worker \<Rightarrow> 'p worker option" where
  "enq_one dev ad w =
     (let (n, w1) = ev_enqueue dev ad (wk_events w) w; w2 = w1\<lparr>wk_enq := n\<rparr>
      in if n = 0 then (let (q, w3) = read_quit dev w2 in if q then Some w3 else enq_one dev ad w3)
         else Some w2)"

definition ev_pass_single :: "mbuf evdev \<Rightarrow> u8 \<Rightarrow> u8 \<Rightarrow> (mbuf \<Rightarrow> mbuf) \<Rightarrow> mbuf worker \<Rightarrow> mbuf worker option" where
  "ev_pass_single dev tx_q_id flags pkt w =
     (let w1 = ev_dequeue dev 1 w
      in if wk_deq w1 = 0 then Some w1
         else let ev = hd (wk_events w1); ev1 = ev\<lparr>ev_pay := pkt (ev_pay ev)\<rparr>; w2 = w1\<lparr>wk_events := [ev1]\<rparr>
              in if mb_port (ev_pay ev1) = BAD_PORT then Some (w2\<lparr>wk_freed := wk_freed w2 @ [ev_pay ev1]\<rparr>)
                 else Option.bind
                   (if flags AND L3FWD_EVENT_TX_ENQ \<noteq> 0
                    then enq_one dev False (w2\<lparr>wk_events := [ev1\<lparr>ev_queue_id := tx_q_id, ev_op := Op_forward\<rparr>]\<rparr>) else Some w2)
                   (\<lambda>w3. if flags AND L3FWD_EVENT_TX_DIRECT \<noteq> 0 then enq_one dev True w3 else Some w3))"

partial_function (option) ev_loop_single ::
    "mbuf evdev \<Rightarrow> u8 \<Rightarrow> u8 \<Rightarrow> (mbuf \<Rightarrow> mbuf) \<Rightarrow> mbuf worker \<Rightarrow> mbuf worker option" where
  "ev_loop_single dev tx_q_id flags pkt w =
     (let (q, w1) = read_quit dev w
      in if q then Some w1
         else Option.bind (ev_pass_single dev tx_q_id flags pkt w1) (ev_loop_single dev tx_q_id flags pkt))"

section \<open>Cleaning up\<close>

text \<open>\<open>mbufs_of\<close> gives the packets of an event: its mbuf, or those of its vector, whose own
  object then goes back to its pool.\<close>

definition l3fwd_event_worker_cleanup :: "'p evdev \<Rightarrow> ('p \<Rightarrow> mbuf list) \<Rightarrow> 'p worker \<Rightarrow> 'p worker" where
  "l3fwd_event_worker_cleanup dev mbufs_of w =
     (let w1 = (if wk_deq w \<noteq> 0 then
                  let rest = drop (wk_enq w) (take (wk_deq w) (wk_events w));
                      evs = map (\<lambda>e. e\<lparr>ev_op := Op_release\<rparr>) (wk_events w)
                  in w\<lparr>wk_freed := wk_freed w @ concat (map (\<lambda>e. mbufs_of (ev_pay e)) rest), wk_events := evs,
                       wk_released := wk_released w @ take (wk_deq w) evs\<rparr>
                else w)
      in w1\<lparr>wk_freed := wk_freed w1 @ concat (map (\<lambda>e. mbufs_of (ev_pay e)) (ed_held dev))\<rparr>)"

text \<open>The functions around the loops: without an event port the worker returns at once.\<close>

definition event_worker :: "'p evdev \<Rightarrow> int \<Rightarrow> nat \<Rightarrow> u8 \<Rightarrow> ('p \<Rightarrow> mbuf list) \<Rightarrow> 'p event_fwd \<Rightarrow> 'p worker option" where
  "event_worker dev event_p_id deq_len flags mbufs_of body =
     (if event_p_id < 0 then Some init_worker
      else map_option (l3fwd_event_worker_cleanup dev mbufs_of) (ev_loop dev deq_len flags body init_worker))"

definition event_worker_single :: "mbuf evdev \<Rightarrow> int \<Rightarrow> u8 \<Rightarrow> u8 \<Rightarrow> (mbuf \<Rightarrow> mbuf) \<Rightarrow> mbuf worker option" where
  "event_worker_single dev event_p_id tx_q_id flags pkt =
     (if event_p_id < 0 then Some init_worker
      else map_option (l3fwd_event_worker_cleanup dev (\<lambda>m. [m])) (ev_loop_single dev tx_q_id flags pkt init_worker))"

section \<open>Event ports\<close>

text \<open>\<open>l3fwd_get_free_event_port\<close> on its static index and the lock; \<open>None\<close> is waiting for a lock that
  nobody will give back.\<close>

record evport_state =
  ep_index :: nat
  ep_locked :: bool

definition l3fwd_get_free_event_port :: "u8 list \<Rightarrow> evport_state \<Rightarrow> (int \<times> evport_state) option" where
  "l3fwd_get_free_event_port event_p_id s =
     (if ep_locked s then None
      else if length event_p_id \<le> ep_index s then Some (- 1, s\<lparr>ep_locked := True\<rparr>)
      else Some (uint (event_p_id ! ep_index s), s\<lparr>ep_index := Suc (ep_index s)\<rparr>))"

text \<open>The calls of \<open>n\<close> workers one after the other; the first wait that never ends stops it.\<close>

fun event_ports_of :: "u8 list \<Rightarrow> nat \<Rightarrow> evport_state \<Rightarrow> int list \<times> bool" where
  "event_ports_of ids 0 s = ([], True)"
| "event_ports_of ids (Suc n) s =
     (case l3fwd_get_free_event_port ids s of None \<Rightarrow> ([], False)
      | Some (p, s') \<Rightarrow> let (ps, ok) = event_ports_of ids n s' in (p # ps, ok))"

section \<open>What a worker does with its events\<close>

text \<open>\<open>force_quit\<close> is set once, at time \<open>T\<close>, and the library takes and gives at most what it is asked.\<close>

definition evdev_ok :: "'p evdev \<Rightarrow> nat \<Rightarrow> bool" where
  "evdev_ok dev T \<longleftrightarrow> (\<forall>t. ed_quit dev t \<longleftrightarrow> T \<le> t) \<and> (\<forall>t ad evs. ed_enq dev t ad evs \<le> length evs)
     \<and> (\<forall>t n. length (ed_deq dev t n) \<le> n)"

definition one_tx :: "u8 \<Rightarrow> bool" where
  "one_tx flags \<longleftrightarrow> (flags AND L3FWD_EVENT_TX_ENQ \<noteq> 0) \<noteq> (flags AND L3FWD_EVENT_TX_DIRECT \<noteq> 0)"

definition ev_ids :: "('p \<Rightarrow> mbuf list) \<Rightarrow> 'p event list \<Rightarrow> nat multiset" where
  "ev_ids pk evs = mset (concat (map (\<lambda>e. map mb_id (pk (ev_pay e))) evs))"

lemma ev_ids_simps [simp]:
  "ev_ids pk [] = {#}" "ev_ids pk (e # evs) = mset (map mb_id (pk (ev_pay e))) + ev_ids pk evs"
  "ev_ids pk (evs @ evs') = ev_ids pk evs + ev_ids pk evs'"
  by (simp_all add: ev_ids_def)

lemma ev_ids_split: "ev_ids pk (take n evs) + ev_ids pk (drop n evs) = ev_ids pk evs"
  by (metis append_take_drop_id ev_ids_simps(3))

lemma ev_ids_freed: "mset (map mb_id (concat (map (\<lambda>e. pk (ev_pay e)) evs))) = ev_ids pk evs"
  by (induction evs) simp_all

definition out_ids :: "('p \<Rightarrow> mbuf list) \<Rightarrow> 'p worker \<Rightarrow> nat multiset" where
  "out_ids pk w = ev_ids pk (map snd (wk_out w))"

definition freed_ids :: "'p worker \<Rightarrow> nat multiset" where
  "freed_ids w = mset (map mb_id (wk_freed w))"

text \<open>The events of the array not handed on, and the balance of the worker.\<close>

definition waiting_events :: "'p worker \<Rightarrow> 'p event list" where
  "waiting_events w = drop (wk_enq w) (take (wk_deq w) (wk_events w))"

definition balanced :: "('p \<Rightarrow> mbuf list) \<Rightarrow> 'p worker \<Rightarrow> bool" where
  "balanced pk w \<longleftrightarrow> out_ids pk w + freed_ids w + ev_ids pk (waiting_events w) = ev_ids pk (wk_taken w)"

lemma evdev_quit: "evdev_ok dev T \<Longrightarrow> ed_quit dev t \<longleftrightarrow> T \<le> t"
  by (simp add: evdev_ok_def)

lemma evdev_enq: "evdev_ok dev T \<Longrightarrow> ed_enq dev t ad evs \<le> length evs"
  by (simp add: evdev_ok_def)

text \<open>Trying again ends, at the latest when \<open>force_quit\<close> is set.\<close>

lemma enq_rest_ends:
  assumes "evdev_ok dev T" and "length (wk_events w) = wk_deq w" and "wk_enq w \<le> wk_deq w" and "balanced pk w"
  shows "\<exists>w'. enq_rest dev ad w = Some w' \<and> balanced pk w' \<and> wk_events w' = wk_events w \<and> wk_deq w' = wk_deq w
    \<and> wk_time w \<le> wk_time w' \<and> wk_enq w' \<le> wk_deq w' \<and> (wk_enq w' < wk_deq w' \<longrightarrow> T \<le> wk_time w')"
  using assms(2-4)
proof (induction "T - wk_time w" arbitrary: w rule: less_induct)
  case (less w)
  show ?case
  proof (cases "wk_enq w < wk_deq w \<and> \<not> T \<le> wk_time w")
    case False
    show ?thesis
    proof (cases "wk_enq w < wk_deq w")
      case lt: True
      then have t: "T \<le> wk_time w" using False by simp
      have "enq_rest dev ad w = Some (w\<lparr>wk_time := Suc (wk_time w)\<rparr>)"
        using lt t evdev_quit [OF assms(1)] by (subst enq_rest.simps) (simp add: read_quit_def)
      moreover have "balanced pk (w\<lparr>wk_time := Suc (wk_time w)\<rparr>)"
        using less.prems(3) by (simp add: balanced_def out_ids_def freed_ids_def waiting_events_def)
      ultimately show ?thesis using t lt by (intro exI [of _ "w\<lparr>wk_time := Suc (wk_time w)\<rparr>"]) simp
    next
      case no: False
      then have "enq_rest dev ad w = Some w" by (subst enq_rest.simps) simp
      then show ?thesis using less.prems no by (intro exI [of _ w]) simp
    qed
  next
    case True
    let ?rest = "drop (wk_enq w) (wk_events w)" and ?t = "Suc (wk_time w)"
    let ?n = "ed_enq dev ?t ad ?rest"
    let ?w = "w\<lparr>wk_time := Suc ?t, wk_out := wk_out w @ map (Pair ad) (take ?n ?rest), wk_enq := wk_enq w + ?n\<rparr>"
    have n: "?n \<le> wk_deq w - wk_enq w" using less.prems(1) using evdev_enq [OF assms(1), of ?t ad ?rest] by simp
    have d: "drop (wk_enq w + ?n) (wk_events w) = drop ?n ?rest" by (simp add: add.commute)
    have sp: "ev_ids pk ?rest = ev_ids pk (take ?n ?rest) + ev_ids pk (drop ?n ?rest)"
      using ev_ids_split [of pk ?n ?rest] by simp
    have o: "out_ids pk ?w = out_ids pk w + ev_ids pk (take ?n ?rest)" "freed_ids ?w = freed_ids w"
      "waiting_events ?w = drop ?n ?rest" "waiting_events w = ?rest"
      by (simp_all add: out_ids_def freed_ids_def waiting_events_def less.prems(1) d comp_def)
    have b: "balanced pk ?w"
      using less.prems(3) unfolding balanced_def o sp by (simp add: add.assoc add.left_commute)
    have lt: "T - wk_time ?w < T - wk_time w" using conjunct2 [OF True] by (simp add: diff_less_mono2)
    have le: "wk_enq ?w \<le> wk_deq ?w" and len: "length (wk_events ?w) = wk_deq ?w"
      using n conjunct1 [OF True] less.prems(1) by simp_all
    have u: "enq_rest dev ad w = enq_rest dev ad ?w"
      using True evdev_quit [OF assms(1)] by (subst enq_rest.simps) (simp add: read_quit_def ev_enqueue_def Let_def)
    obtain w' where w': "enq_rest dev ad ?w = Some w'" "balanced pk w'" "wk_events w' = wk_events ?w" "wk_deq w' = wk_deq ?w"
      "wk_time ?w \<le> wk_time w'" "wk_enq w' \<le> wk_deq w'" "wk_enq w' < wk_deq w' \<longrightarrow> T \<le> wk_time w'"
      using less.hyps [OF lt len le b] by blast
    then show ?thesis unfolding u by (intro exI [of _ w']) simp
  qed
qed

lemma enq_all_ends:
  assumes "evdev_ok dev T" and "length (wk_events w) = wk_deq w" and "wk_enq w = 0" and "balanced pk w"
  shows "\<exists>w'. enq_all dev ad w = Some w' \<and> balanced pk w' \<and> wk_events w' = wk_events w \<and> wk_deq w' = wk_deq w
    \<and> wk_time w < wk_time w' \<and> (wk_enq w' < wk_deq w' \<longrightarrow> T \<le> wk_time w')"
proof -
  let ?n = "ed_enq dev (wk_time w) ad (wk_events w)"
  let ?w = "w\<lparr>wk_time := Suc (wk_time w), wk_out := wk_out w @ map (Pair ad) (take ?n (wk_events w)), wk_enq := ?n\<rparr>"
  have n: "?n \<le> wk_deq w" using evdev_enq [OF assms(1), of "wk_time w" ad "wk_events w"] assms(2) by simp
  have b: "balanced pk ?w"
    using assms(4) ev_ids_split [of pk ?n "wk_events w"] unfolding balanced_def out_ids_def freed_ids_def waiting_events_def
    by (simp add: assms(2,3) comp_def ac_simps)
  have "enq_all dev ad w = enq_rest dev ad ?w" by (simp add: enq_all_def ev_enqueue_def Let_def)
  moreover obtain w' where w': "enq_rest dev ad ?w = Some w'" "balanced pk w'" "wk_events w' = wk_events ?w"
    "wk_deq w' = wk_deq ?w" "wk_time ?w \<le> wk_time w'" "wk_enq w' < wk_deq w' \<longrightarrow> T \<le> wk_time w'"
    using enq_rest_ends [OF assms(1) _ _ b, of ad] n assms(2) by auto
  ultimately show ?thesis by (intro exI [of _ w']) simp
qed

lemma cleanup_ids:
  "out_ids pk (l3fwd_event_worker_cleanup dev pk w) = out_ids pk w"
  "wk_taken (l3fwd_event_worker_cleanup dev pk w) = wk_taken w"
  "freed_ids (l3fwd_event_worker_cleanup dev pk w) = freed_ids w + ev_ids pk (waiting_events w) + ev_ids pk (ed_held dev)"
  using ev_ids_freed [of pk "waiting_events w"] ev_ids_freed [of pk "ed_held dev"]
  by (simp_all add: l3fwd_event_worker_cleanup_def Let_def out_ids_def freed_ids_def waiting_events_def)

text \<open>A forwarding routine that keeps its packets: what its events held, they hold afterwards or it
  has freed. With it the worker loses no packet and frees none twice.\<close>

locale event_forwarder =
  fixes pk :: "'p \<Rightarrow> mbuf list" and body :: "'c \<Rightarrow> 'p event_fwd"
  assumes body_length: "length (fst (body c t evs)) = length evs"
    and body_keeps: "ev_ids pk (fst (body c t evs)) + mset (map mb_id (snd (body c t evs))) = ev_ids pk evs"
begin

lemma pass_ends:
  assumes "evdev_ok dev T" and "one_tx flags" and "balanced pk w" and "waiting_events w = []"
  shows "\<exists>w'. ev_pass dev len flags (body c) w = Some w' \<and> balanced pk w' \<and> wk_time w < wk_time w'
    \<and> (waiting_events w' \<noteq> [] \<longrightarrow> T \<le> wk_time w')"
proof -
  let ?w1 = "ev_dequeue dev len w"
  have bal0: "out_ids pk w + freed_ids w = ev_ids pk (wk_taken w)" using assms(3,4) by (simp add: balanced_def)
  have w1: "wk_events ?w1 = ed_deq dev (wk_time w) len" "wk_deq ?w1 = length (wk_events ?w1)" "wk_enq ?w1 = wk_enq w"
    "wk_time ?w1 = Suc (wk_time w)" "out_ids pk ?w1 = out_ids pk w" "freed_ids ?w1 = freed_ids w"
    "ev_ids pk (wk_taken ?w1) = ev_ids pk (wk_taken w) + ev_ids pk (wk_events ?w1)"
    by (simp_all add: ev_dequeue_def Let_def out_ids_def freed_ids_def)
  show ?thesis
  proof (cases "wk_deq ?w1 = 0")
    case True
    then show ?thesis using w1 bal0 by (simp add: ev_pass_def Let_def balanced_def waiting_events_def)
  next
    case False
    obtain evs gone where r: "body c (wk_time ?w1) (wk_events ?w1) = (evs, gone)" by fastforce
    have len: "length evs = wk_deq ?w1" using body_length [of c "wk_time ?w1" "wk_events ?w1"] by (simp add: r w1(2))
    have keep: "ev_ids pk evs + mset (map mb_id gone) = ev_ids pk (wk_events ?w1)"
      using body_keeps [of c "wk_time ?w1" "wk_events ?w1"] by (simp add: r)
    let ?w2 = "?w1\<lparr>wk_events := evs, wk_freed := wk_freed ?w1 @ gone\<rparr>"
    have f2: "freed_ids ?w2 = freed_ids w + mset (map mb_id gone)" using w1(6) by (simp add: freed_ids_def)
    have o2: "out_ids pk ?w2 = out_ids pk w" using w1(5) by (simp add: out_ids_def)
    let ?w3 = "?w2\<lparr>wk_enq := 0\<rparr>"
    have b3: "balanced pk ?w3"
      using bal0 f2 o2 keep w1(7) len
      by (simp add: balanced_def waiting_events_def out_ids_def freed_ids_def ac_simps)
    have en: "enq_all dev ad (x\<lparr>wk_enq := k\<rparr>) = enq_all dev ad x" for ad k and x :: "'p worker"
      by (simp add: enq_all_def ev_enqueue_def Let_def)
    have l3: "length (wk_events ?w3) = wk_deq ?w3" "wk_enq ?w3 = 0" using len by simp_all
    have "\<exists>w'. enq_all dev ad ?w2 = Some w' \<and> balanced pk w' \<and> wk_time w < wk_time w'
        \<and> (waiting_events w' \<noteq> [] \<longrightarrow> T \<le> wk_time w')" for ad
    proof -
      obtain w' where e: "enq_all dev ad ?w3 = Some w'" "balanced pk w'" "wk_deq w' = wk_deq ?w3" "wk_time ?w3 < wk_time w'"
          "wk_enq w' < wk_deq w' \<longrightarrow> T \<le> wk_time w'"
        using enq_all_ends [OF assms(1) l3 b3, of ad] by blast
      have "waiting_events w' \<noteq> [] \<Longrightarrow> wk_enq w' < wk_deq w'" by (auto simp: waiting_events_def)
      then show ?thesis using e w1(4) en [where x = ?w2 and k = 0 and ad = ad] by auto
    qed
    then show ?thesis using False assms(2) r
      by (cases "flags AND L3FWD_EVENT_TX_ENQ \<noteq> 0") (auto simp: ev_pass_def Let_def one_tx_def)
  qed
qed

lemma loop_ends:
  assumes "evdev_ok dev T" and "one_tx flags" and "balanced pk w" and "waiting_events w \<noteq> [] \<longrightarrow> T \<le> wk_time w"
  shows "\<exists>w'. ev_loop dev len flags (body c) w = Some w' \<and> balanced pk w'"
  using assms(3,4)
proof (induction "T - wk_time w" arbitrary: w rule: less_induct)
  case (less w)
  let ?w1 = "w\<lparr>wk_time := Suc (wk_time w)\<rparr>"
  have b1: "balanced pk ?w1" "waiting_events ?w1 = waiting_events w"
    using less.prems(1) by (simp_all add: balanced_def out_ids_def freed_ids_def waiting_events_def)
  have q: "ed_quit dev (wk_time w) \<longleftrightarrow> T \<le> wk_time w" using assms(1) by (simp add: evdev_ok_def)
  show ?case
  proof (cases "T \<le> wk_time w")
    case True
    then show ?thesis using b1 q by (subst ev_loop.simps) (simp add: read_quit_def)
  next
    case False
    then have "waiting_events ?w1 = []" using less.prems(2) b1(2) by simp
    from pass_ends [OF assms(1,2) b1(1) this, of len c]
    obtain w' where p: "ev_pass dev len flags (body c) ?w1 = Some w'" "balanced pk w'" "wk_time ?w1 < wk_time w'"
      "waiting_events w' \<noteq> [] \<longrightarrow> T \<le> wk_time w'" by blast
    have lt: "T - wk_time w' < T - wk_time w" using False p(3) by simp
    have "ev_loop dev len flags (body c) w = ev_loop dev len flags (body c) w'"
      using False q p(1) by (subst ev_loop.simps) (simp add: read_quit_def)
    then show ?thesis using less.hyps [OF lt p(2,4)] by simp
  qed
qed

lemma worker_keeps:
  assumes "evdev_ok dev T" and "one_tx flags" and "0 \<le> port"
  shows "\<exists>w. event_worker dev port len flags pk (body c) = Some w
    \<and> out_ids pk w + freed_ids w = ev_ids pk (wk_taken w) + ev_ids pk (ed_held dev)"
proof -
  have i: "balanced pk init_worker" "waiting_events init_worker = []"
    by (simp_all add: balanced_def init_worker_def out_ids_def freed_ids_def waiting_events_def)
  obtain w where w: "ev_loop dev len flags (body c) init_worker = Some w" "balanced pk w"
    using loop_ends [OF assms(1,2) i(1)] i(2) by blast
  show ?thesis using w assms(3) cleanup_ids [where pk = pk and dev = dev and w = w] by (simp add: event_worker_def balanced_def ac_simps)
qed

end

section \<open>The worker that takes one event at a time\<close>

lemma enq_one_ends:
  assumes "evdev_ok dev T" and "wk_events w = [ev]" and "wk_deq w = 1"
  shows "\<exists>w'. enq_one dev ad w = Some w' \<and> wk_events w' = [ev] \<and> wk_deq w' = 1 \<and> wk_freed w' = wk_freed w
    \<and> wk_taken w' = wk_taken w \<and> wk_time w < wk_time w'
    \<and> (wk_enq w' = 1 \<and> wk_out w' = wk_out w @ [(ad, ev)] \<or> wk_enq w' = 0 \<and> wk_out w' = wk_out w \<and> T \<le> wk_time w')"
  using assms(2,3)
proof (induction "T - wk_time w" arbitrary: w rule: less_induct)
  case (less w)
  let ?n = "ed_enq dev (wk_time w) ad [ev]" and ?t = "Suc (wk_time w)"
  have n: "?n \<le> 1" using evdev_enq [OF assms(1), of "wk_time w" ad "[ev]"] by simp
  show ?case
  proof (cases "?n = 0")
    case False
    then have 1: "?n = 1" using n by simp
    let ?w = "w\<lparr>wk_time := ?t, wk_out := wk_out w @ [(ad, ev)], wk_enq := 1\<rparr>"
    have "enq_one dev ad w = Some ?w"
      using 1 by (subst enq_one.simps) (simp add: ev_enqueue_def Let_def less.prems(1))
    then show ?thesis using less.prems by (intro exI [of _ ?w]) simp
  next
    case True
    let ?w = "w\<lparr>wk_enq := 0, wk_time := Suc ?t\<rparr>"
    have u: "enq_one dev ad w = (if T \<le> ?t then Some ?w else enq_one dev ad ?w)"
      using True evdev_quit [OF assms(1)]
      by (subst enq_one.simps) (simp add: ev_enqueue_def read_quit_def Let_def less.prems(1))
    show ?thesis
    proof (cases "T \<le> ?t")
      case True
      then show ?thesis unfolding u using less.prems by (intro exI [of _ ?w]) simp
    next
      case False
      have lt: "T - wk_time ?w < T - wk_time w" using False by (simp add: diff_less_mono2)
      have p: "wk_events ?w = [ev]" "wk_deq ?w = 1" using less.prems by simp_all
      obtain w' where w': "enq_one dev ad ?w = Some w'" "wk_events w' = [ev]" "wk_deq w' = 1" "wk_freed w' = wk_freed ?w"
        "wk_taken w' = wk_taken ?w" "wk_time ?w < wk_time w'"
        "wk_enq w' = 1 \<and> wk_out w' = wk_out ?w @ [(ad, ev)] \<or> wk_enq w' = 0 \<and> wk_out w' = wk_out ?w \<and> T \<le> wk_time w'"
        using less.hyps [OF lt p] by blast
      then show ?thesis unfolding u using False by (intro exI [of _ w']) simp
    qed
  qed
qed

abbreviation one_mbuf :: "mbuf \<Rightarrow> mbuf list" where
  "one_mbuf m \<equiv> [m]"

text \<open>The last event taken was rejected by the checks that \<open>f\<close> makes, and nothing was ever handed on.\<close>

definition rejected_last :: "(mbuf \<Rightarrow> mbuf) \<Rightarrow> mbuf worker \<Rightarrow> bool" where
  "rejected_last f w \<longleftrightarrow> wk_taken w \<noteq> [] \<and> wk_out w = [] \<and> mb_port (f (ev_pay (last (wk_taken w)))) = BAD_PORT"

text \<open>What is asked of a run of such a worker: it ends, and each packet is handed on or freed once, but
  for the last one, which is freed twice when it was rejected with nothing handed on before it.\<close>

definition single_kept :: "(mbuf \<Rightarrow> mbuf) \<Rightarrow> mbuf evdev \<Rightarrow> mbuf worker option \<Rightarrow> bool" where
  "single_kept f dev r \<longleftrightarrow> (\<exists>w x. r = Some w
     \<and> out_ids one_mbuf w + freed_ids w = ev_ids one_mbuf (wk_taken w) + ev_ids one_mbuf (ed_held dev) + x
     \<and> (x = {#} \<or> (rejected_last f w \<and> x = {#mb_id (ev_pay (last (wk_taken w)))#})))"

text \<open>Between two passes nothing is owed, except that the array may still hold a rejected event; or
  the last event could not be handed on before \<open>force_quit\<close>.\<close>

definition single_ok :: "(mbuf \<Rightarrow> mbuf) \<Rightarrow> nat \<Rightarrow> mbuf worker \<Rightarrow> bool" where
  "single_ok f T w \<longleftrightarrow>
     (out_ids one_mbuf w + freed_ids w = ev_ids one_mbuf (wk_taken w) \<and> (wk_enq w = 0 \<longrightarrow> wk_out w = [])
        \<and> (waiting_events w = [] \<or> (rejected_last f w
              \<and> ev_ids one_mbuf (waiting_events w) = {#mb_id (ev_pay (last (wk_taken w)))#})))
     \<or> (balanced one_mbuf w \<and> T \<le> wk_time w)"

locale packet_forwarder =
  fixes pkt :: "'c \<Rightarrow> mbuf \<Rightarrow> mbuf"
  assumes pkt_id: "mb_id (pkt c m) = mb_id m"
begin

lemma pass_single_ends:
  assumes "evdev_ok dev T" and "one_tx flags" and "out_ids one_mbuf w + freed_ids w = ev_ids one_mbuf (wk_taken w)"
    and "wk_enq w = 0 \<longrightarrow> wk_out w = []"
  shows "\<exists>w'. ev_pass_single dev q flags (pkt c) w = Some w' \<and> single_ok (pkt c) T w' \<and> wk_time w < wk_time w'"
proof -
  let ?evs = "ed_deq dev (wk_time w) 1" and ?w1 = "ev_dequeue dev 1 w"
  have l: "length ?evs \<le> 1" using assms(1) by (simp add: evdev_ok_def)
  show ?thesis
  proof (cases "?evs = []")
    case True
    then have "ev_pass_single dev q flags (pkt c) w = Some ?w1" by (simp add: ev_pass_single_def ev_dequeue_def Let_def)
    moreover have "single_ok (pkt c) T ?w1"
      using assms(3,4) True by (simp add: single_ok_def ev_dequeue_def Let_def out_ids_def freed_ids_def waiting_events_def)
    ultimately show ?thesis by (intro exI [of _ ?w1]) (simp add: ev_dequeue_def Let_def)
  next
    case False
    then obtain ev where "?evs = [ev]" using l by (cases ?evs) auto
    then have e: "ed_deq dev (wk_time w) (Suc 0) = [ev]" by simp
    let ?ev = "ev\<lparr>ev_pay := pkt c (ev_pay ev)\<rparr>"
    let ?w2 = "?w1\<lparr>wk_events := [?ev]\<rparr>"
    have w2: "wk_deq ?w2 = 1" "wk_time ?w2 = Suc (wk_time w)" "out_ids one_mbuf ?w2 = out_ids one_mbuf w" "freed_ids ?w2 = freed_ids w"
      "ev_ids one_mbuf (wk_taken ?w2) = ev_ids one_mbuf (wk_taken w) + {#mb_id (ev_pay ev)#}"
      by (simp_all add: ev_dequeue_def Let_def e out_ids_def freed_ids_def)
    show ?thesis
    proof (cases "mb_port (ev_pay ?ev) = BAD_PORT")
      case True
      let ?w3 = "?w2\<lparr>wk_freed := wk_freed ?w2 @ [ev_pay ?ev]\<rparr>"
      have "ev_pass_single dev q flags (pkt c) w = Some ?w3"
        using True by (simp add: ev_pass_single_def Let_def ev_dequeue_def e)
      moreover have f: "freed_ids ?w3 = freed_ids w + {#mb_id (ev_pay ev)#}" "out_ids one_mbuf ?w3 = out_ids one_mbuf w"
        "wk_taken ?w3 = wk_taken ?w2"
        using w2(3,4) by (simp_all add: freed_ids_def out_ids_def pkt_id)
      have t: "wk_taken ?w3 = wk_taken w @ [ev]" "wk_enq ?w3 = wk_enq w" "wk_out ?w3 = wk_out w"
        "waiting_events ?w3 = (if wk_enq w = 0 then [?ev] else [])"
        by (simp_all add: ev_dequeue_def Let_def e waiting_events_def)
      have "single_ok (pkt c) T ?w3" using assms(3,4) w2(5) True f t
        by (auto simp: single_ok_def rejected_last_def pkt_id)
      ultimately show ?thesis using w2(2) by (intro exI [of _ ?w3]) simp
    next
      case False
      have step: "\<exists>w'. enq_one dev ad (?w2\<lparr>wk_events := [x]\<rparr>) = Some w' \<and> single_ok (pkt c) T w' \<and> wk_time w < wk_time w'"
        if x: "ev_pay x = pkt c (ev_pay ev)" for ad x
      proof -
        obtain w' where w': "enq_one dev ad (?w2\<lparr>wk_events := [x]\<rparr>) = Some w'" "wk_events w' = [x]" "wk_deq w' = 1"
          "wk_freed w' = wk_freed ?w2" "wk_taken w' = wk_taken ?w2" "wk_time ?w2 < wk_time w'"
          "wk_enq w' = 1 \<and> wk_out w' = wk_out ?w2 @ [(ad, x)] \<or> wk_enq w' = 0 \<and> wk_out w' = wk_out ?w2 \<and> T \<le> wk_time w'"
          using enq_one_ends [OF assms(1), of "?w2\<lparr>wk_events := [x]\<rparr>" x ad] w2(1) by auto
        have f: "freed_ids w' = freed_ids w" using w'(4) w2(4) by (simp add: freed_ids_def)
        have b: "out_ids one_mbuf w' + freed_ids w' + ev_ids one_mbuf (waiting_events w') = ev_ids one_mbuf (wk_taken w')
          \<and> (waiting_events w' \<noteq> [] \<longrightarrow> T \<le> wk_time w')"
          using w'(7)
        proof
          assume a: "wk_enq w' = 1 \<and> wk_out w' = wk_out ?w2 @ [(ad, x)]"
          then have "out_ids one_mbuf w' = out_ids one_mbuf ?w2 + {#mb_id (ev_pay ev)#}" by (simp add: out_ids_def x pkt_id)
          then show ?thesis using a w2(3,5) w'(2,3,5) f assms(3) by (simp add: waiting_events_def)
        next
          assume a: "wk_enq w' = 0 \<and> wk_out w' = wk_out ?w2 \<and> T \<le> wk_time w'"
          then have "out_ids one_mbuf w' = out_ids one_mbuf w" using w2(3) by (simp add: out_ids_def)
          then show ?thesis using a w2(5) w'(2,3,5) f assms(3) by (simp add: waiting_events_def x pkt_id)
        qed
        have "single_ok (pkt c) T w'"
        proof (cases "waiting_events w' = []")
          case True
          then have "wk_enq w' \<noteq> 0" using w'(2,3) by (auto simp: waiting_events_def)
          then show ?thesis using b True by (simp add: single_ok_def)
        next
          case False
          then show ?thesis using b by (simp add: single_ok_def balanced_def)
        qed
        then show ?thesis using w'(1,6) w2(2) by (intro exI [of _ w']) simp
      qed
      have h: "hd (wk_events ?w1) = ev" "wk_deq ?w1 \<noteq> 0" by (simp_all add: ev_dequeue_def Let_def e)
      have u: "ev_pass_single dev q flags (pkt c) w =
          (if flags AND L3FWD_EVENT_TX_ENQ \<noteq> 0 then enq_one dev False (?w2\<lparr>wk_events := [?ev\<lparr>ev_queue_id := q, ev_op := Op_forward\<rparr>]\<rparr>)
           else enq_one dev True (?w2\<lparr>wk_events := [?ev]\<rparr>))"
        using False h assms(2) unfolding ev_pass_single_def Let_def one_tx_def
        by (cases "flags AND L3FWD_EVENT_TX_ENQ \<noteq> 0") (simp_all split: Option.bind_splits)
      show ?thesis unfolding u using step by simp
    qed
  qed
qed

lemma loop_single_ends:
  assumes "evdev_ok dev T" and "one_tx flags" and "single_ok (pkt c) T w"
  shows "\<exists>w'. ev_loop_single dev q flags (pkt c) w = Some w' \<and> single_ok (pkt c) T w'"
  using assms(3)
proof (induction "T - wk_time w" arbitrary: w rule: less_induct)
  case (less w)
  let ?w1 = "w\<lparr>wk_time := Suc (wk_time w)\<rparr>"
  have e: "out_ids one_mbuf ?w1 = out_ids one_mbuf w" "freed_ids ?w1 = freed_ids w" "waiting_events ?w1 = waiting_events w"
    "rejected_last (pkt c) ?w1 = rejected_last (pkt c) w"
    by (simp_all add: out_ids_def freed_ids_def waiting_events_def rejected_last_def)
  have q: "ed_quit dev (wk_time w) \<longleftrightarrow> T \<le> wk_time w" by (rule evdev_quit [OF assms(1)])
  show ?case
  proof (cases "T \<le> wk_time w")
    case True
    then have "ev_loop_single dev q flags (pkt c) w = Some ?w1"
      using q by (subst ev_loop_single.simps) (simp add: read_quit_def)
    moreover have "single_ok (pkt c) T ?w1" using less.prems e True by (auto simp: single_ok_def balanced_def)
    ultimately show ?thesis by blast
  next
    case False
    then have "out_ids one_mbuf ?w1 + freed_ids ?w1 = ev_ids one_mbuf (wk_taken ?w1)" "wk_enq ?w1 = 0 \<longrightarrow> wk_out ?w1 = []"
      using less.prems e by (simp_all add: single_ok_def)
    from pass_single_ends [OF assms(1,2) this, of q c]
    obtain w' where p: "ev_pass_single dev q flags (pkt c) ?w1 = Some w'" "single_ok (pkt c) T w'" "wk_time ?w1 < wk_time w'" by blast
    have lt: "T - wk_time w' < T - wk_time w" using False p(3) by (simp add: diff_less_mono2)
    have "ev_loop_single dev q flags (pkt c) w = ev_loop_single dev q flags (pkt c) w'"
      using False q p(1) by (subst ev_loop_single.simps) (simp add: read_quit_def)
    then show ?thesis using less.hyps [OF lt p(2)] by simp
  qed
qed

lemma worker_single_keeps:
  assumes "evdev_ok dev T" and "one_tx flags" and "0 \<le> port"
  shows "single_kept (pkt c) dev (event_worker_single dev port q flags (pkt c))"
proof -
  have "single_ok (pkt c) T init_worker"
    by (simp add: single_ok_def init_worker_def out_ids_def freed_ids_def waiting_events_def)
  from loop_single_ends [OF assms(1,2) this]
  obtain w where w: "ev_loop_single dev q flags (pkt c) init_worker = Some w" "single_ok (pkt c) T w" by blast
  let ?w = "l3fwd_event_worker_cleanup dev one_mbuf w"
  let ?x = "\<lambda>x. out_ids one_mbuf ?w + freed_ids ?w = ev_ids one_mbuf (wk_taken ?w) + ev_ids one_mbuf (ed_held dev) + x
      \<and> (x = {#} \<or> (rejected_last (pkt c) ?w \<and> x = {#mb_id (ev_pay (last (wk_taken ?w)))#}))"
  note c = cleanup_ids [where pk = one_mbuf and dev = dev and w = w]
  have same: "wk_taken ?w = wk_taken w" "wk_out ?w = wk_out w"
    by (simp_all add: l3fwd_event_worker_cleanup_def Let_def)
  have "\<exists>x. ?x x"
    using w(2) unfolding single_ok_def
  proof (elim disjE conjE)
    assume "out_ids one_mbuf w + freed_ids w = ev_ids one_mbuf (wk_taken w)" "waiting_events w = []"
    then show ?thesis using c by (intro exI [of _ "{#}"]) (simp add: ac_simps)
  next
    assume "out_ids one_mbuf w + freed_ids w = ev_ids one_mbuf (wk_taken w)" "rejected_last (pkt c) w"
      "ev_ids one_mbuf (waiting_events w) = {#mb_id (ev_pay (last (wk_taken w)))#}"
    then show ?thesis using c same
      by (intro exI [of _ "{#mb_id (ev_pay (last (wk_taken w)))#}"]) (simp add: rejected_last_def ac_simps)
  next
    assume "balanced one_mbuf w"
    then show ?thesis using c by (intro exI [of _ "{#}"]) (simp add: balanced_def ac_simps)
  qed
  then show ?thesis using w(1) assms(3) by (simp add: event_worker_single_def single_kept_def)
qed

end

lemma event_ports_from:
  "i \<le> length ids \<Longrightarrow> event_ports_of ids n \<lparr>ep_index = i, ep_locked = False\<rparr> =
    (if n \<le> length ids - i then (map uint (take n (drop i ids)), True)
     else (map uint (drop i ids) @ [- 1], n = Suc (length ids - i)))"
proof (induction n arbitrary: i)
  case (Suc n)
  show ?case
  proof (cases "i < length ids")
    case True
    then have "drop i ids = ids ! i # drop (Suc i) ids" by (rule Cons_nth_drop_Suc [symmetric])
    then show ?thesis using Suc.IH [of "Suc i"] True by (auto simp: l3fwd_get_free_event_port_def)
  next
    case False
    then show ?thesis by (cases n) (simp_all add: l3fwd_get_free_event_port_def)
  qed
qed simp

section \<open>Properties\<close>

definition evdev_ex :: "mbuf evdev" where
  "evdev_ex = \<lparr>ed_quit = (\<lambda>t. 9 \<le> t),
     ed_deq = (\<lambda>t n. if t = 1 then take n (map (\<lambda>i. \<lparr>ev_pay = mbuf_ex i, ev_queue_id = 0, ev_op = Op_new\<rparr>) [0..<3]) else []),
     ed_enq = (\<lambda>t ad evs. min 1 (length evs)), ed_held = []\<rparr>"

lemma evdev_ok_ex: "evdev_ok evdev_ex 9"
  by (simp add: evdev_ok_def evdev_ex_def)

text \<open>The loops that take one event at a time can free a packet twice. They free a packet the checks
  reject and go on without resetting \<open>deq\<close>, so when \<open>force_quit\<close> is set before the next event arrives
  and nothing was handed on before, the clean-up after the loop frees the same packet again.\<close>

lemma event_single_frees_twice:
  assumes "0 \<le> port" and "\<not> ed_quit dev 0" and "ed_deq dev 1 1 = [ev]" and "ed_quit dev 2"
    and "mb_port (pkt (ev_pay ev)) = BAD_PORT"
  shows "map_option wk_freed (event_worker_single dev port q flags pkt)
    = Some ([pkt (ev_pay ev), pkt (ev_pay ev)] @ map ev_pay (ed_held dev))"
proof -
  have e: "ed_deq dev (Suc 0) (Suc 0) = [ev]" "ed_quit dev (Suc (Suc 0))" using assms(3,4) by (simp_all add: numeral_2_eq_2)
  let ?w = "\<lparr>wk_time = Suc (Suc 0), wk_events = [ev\<lparr>ev_pay := pkt (ev_pay ev)\<rparr>], wk_deq = 1, wk_enq = 0, wk_taken = [ev], wk_out = [],
     wk_freed = [pkt (ev_pay ev)], wk_released = []\<rparr> :: mbuf worker"
  have "ev_loop_single dev q flags pkt init_worker = ev_loop_single dev q flags pkt ?w"
    using assms(2,5) e
    by (subst ev_loop_single.simps) (simp add: init_worker_def read_quit_def ev_pass_single_def Let_def ev_dequeue_def)
  also have "\<dots> = Some (?w\<lparr>wk_time := Suc (wk_time ?w)\<rparr>)"
    using e by (subst ev_loop_single.simps) (simp add: read_quit_def)
  finally show ?thesis using assms(1)
    by (simp add: event_worker_single_def l3fwd_event_worker_cleanup_def Let_def concat_map_singleton)
qed

text \<open>Event ports are given out one by one, each once, and a worker too many is told so, but the
  lock is then kept: the next worker that asks waits forever.\<close>

lemma event_ports_dealt:
  "event_ports_of ids n \<lparr>ep_index = 0, ep_locked = False\<rparr> =
    (if n \<le> length ids then (map uint (take n ids), True) else (map uint ids @ [- 1], n = Suc (length ids)))"
  using event_ports_from [of 0 ids n] by simp

end
