(* ===== verification/Event_Modes.thy ===== *)
theory Event_Modes
  imports Event_Loop
begin

text \<open>
  The workers of event mode for each way of forwarding: what \<open>l3fwd_lpm.c\<close>, \<open>l3fwd_em.c\<close> and
  \<open>l3fwd_fib.c\<close> do with the events of a pass, their \<open>*_event_main_loop_*\<close> functions, and the
  selection of one of these by \<open>l3fwd_event_resource_setup\<close>. The burst worker of the exact-match mode is left out:
  it casts its array of events to an array of pointers, so what it reads is not events.
\<close>

section \<open>Events and vectors of packets\<close>

text \<open>The tables of the library have a \<open>uint8_t\<close> for each of these; only those the workers read.\<close>

record event_resources =
  er_event_q_id :: "u8 list"
  er_nb_queues :: u8
  er_deq_depth :: u8

definition tx_q_id_of :: "event_resources \<Rightarrow> u8" where
  "tx_q_id_of rs = er_event_q_id rs ! (unat (er_nb_queues rs) - 1)"

text \<open>What the worker's lcore has: its event port, its event device seen as one that gives packets or
  vectors, and whether its array of ports could be allocated. \<open>rte_event_eth_tx_adapter_txq_set\<close> writes a field
  the program never reads.\<close>

record event_lcore =
  el_port :: int
  el_pkts :: "mbuf evdev"
  el_vecs :: "event_vector evdev"
  el_alloc :: bool

definition set_tx :: "event_resources \<Rightarrow> u8 \<Rightarrow> 'p event \<Rightarrow> 'p event" where
  "set_tx rs flags e =
     (if flags AND L3FWD_EVENT_TX_ENQ \<noteq> 0 then e\<lparr>ev_queue_id := tx_q_id_of rs, ev_op := Op_forward\<rparr> else e)"

text \<open>A pass over vectors: \<open>f\<close> forwards the one at index \<open>i\<close> and frees packets.\<close>

definition vector_pass :: "event_resources \<Rightarrow> u8 \<Rightarrow> (nat \<Rightarrow> nat \<Rightarrow> event_vector \<Rightarrow> event_vector \<times> mbuf list) \<Rightarrow> event_vector event_fwd" where
  "vector_pass rs flags f t evs =
     (map (\<lambda>(i, e). (set_tx rs flags e)\<lparr>ev_pay := fst (f t i (ev_pay e))\<rparr>) (enumerate 0 evs),
      concat (map (\<lambda>(i, e). snd (f t i (ev_pay e))) (enumerate 0 evs)))"

definition vec_pkts :: "event_vector \<Rightarrow> mbuf list" where
  "vec_pkts v = map (vec_mbufs v) [0..<unat (vec_nb v)]"

section \<open>LPM\<close>

definition lpm_event_pass :: "dpdk \<Rightarrow> glob \<Rightarrow> lpm_tables \<Rightarrow> event_resources \<Rightarrow> u8 \<Rightarrow> mbuf event_fwd" where
  "lpm_event_pass E G L rs flags t evs =
     (map (\<lambda>e. let e1 = set_tx rs flags e in e1\<lparr>ev_pay := fst (lpm_process_event_pkt E G L (ev_pay e1))\<rparr>) evs, [])"

definition lpm_vector_step :: "dpdk \<Rightarrow> glob \<Rightarrow> lpm_tables \<Rightarrow> nat \<Rightarrow> burst \<Rightarrow> burst" where
  "lpm_vector_step E G L i PD =
     (let (P, D) = PD;
          (P1, D1) = lpm_process_packets E G L 1 (mb_port (P i)) True (\<lambda>k. P (i + k), \<lambda>k. D (i + k))
      in (P(i := P1 0), D(i := D1 0)))"

definition lpm_process_event_vector :: "dpdk \<Rightarrow> glob \<Rightarrow> lpm_tables \<Rightarrow> event_vector \<Rightarrow> (nat \<Rightarrow> u16) \<Rightarrow> event_vector \<times> mbuf list" where
  "lpm_process_event_vector E G L vec dst_port =
     (let (P, D) =
        (if vec_attr_valid vec
         then lpm_process_packets E G L (unat (vec_nb vec)) (vec_port vec) True (vec_mbufs vec, dst_port)
         else fold (lpm_vector_step E G L) [0..<unat (vec_nb vec)] (vec_mbufs vec, dst_port))
      in process_event_vector (vec\<lparr>vec_mbufs := P\<rparr>) D)"

text \<open>\<open>u\<close> is what the array of ports holds when a vector comes up.\<close>

definition lpm_event_loop_single :: "dpdk \<Rightarrow> glob \<Rightarrow> lpm_tables \<Rightarrow> event_resources \<Rightarrow> u8 \<Rightarrow> event_lcore \<Rightarrow> mbuf worker option" where
  "lpm_event_loop_single E G L rs flags lc =
     event_worker_single (el_pkts lc) (el_port lc) (tx_q_id_of rs) flags (\<lambda>m. fst (lpm_process_event_pkt E G L m))"

definition lpm_event_loop_burst :: "dpdk \<Rightarrow> glob \<Rightarrow> lpm_tables \<Rightarrow> event_resources \<Rightarrow> u8 \<Rightarrow> event_lcore \<Rightarrow> mbuf worker option" where
  "lpm_event_loop_burst E G L rs flags lc =
     event_worker (el_pkts lc) (el_port lc) (unat (er_deq_depth rs)) flags one_mbuf (lpm_event_pass E G L rs flags)"

definition lpm_event_loop_vector :: "dpdk \<Rightarrow> glob \<Rightarrow> lpm_tables \<Rightarrow> event_resources \<Rightarrow> (nat \<Rightarrow> nat \<Rightarrow> nat \<Rightarrow> u16) \<Rightarrow> u8 \<Rightarrow>
    event_lcore \<Rightarrow> event_vector worker option" where
  "lpm_event_loop_vector E G L rs u flags lc =
     (if el_port lc < 0 \<or> \<not> el_alloc lc then Some init_worker
      else event_worker (el_vecs lc) (el_port lc) (unat (er_deq_depth rs)) flags vec_pkts
             (vector_pass rs flags (\<lambda>t i v. lpm_process_event_vector E G L v (u t i))))"

text \<open>What a worker function ran: loops over packets, or a loop over vectors.\<close>

datatype event_run = Ran_packets "mbuf worker option list" | Ran_vectors "event_vector worker option"

definition lpm_event_loop :: "dpdk \<Rightarrow> glob \<Rightarrow> lpm_tables \<Rightarrow> event_resources \<Rightarrow> u8 \<Rightarrow> event_lcore \<Rightarrow> event_run" where
  "lpm_event_loop E G L rs flags lc =
     Ran_packets ((if flags AND L3FWD_EVENT_SINGLE \<noteq> 0 then [lpm_event_loop_single E G L rs flags lc] else [])
       @ (if flags AND L3FWD_EVENT_BURST \<noteq> 0 then [lpm_event_loop_burst E G L rs flags lc] else []))"

definition lpm_event_main_loop_tx_d where
  "lpm_event_main_loop_tx_d E G L rs = lpm_event_loop E G L rs (L3FWD_EVENT_TX_DIRECT OR L3FWD_EVENT_SINGLE)"

definition lpm_event_main_loop_tx_d_burst where
  "lpm_event_main_loop_tx_d_burst E G L rs = lpm_event_loop E G L rs (L3FWD_EVENT_TX_DIRECT OR L3FWD_EVENT_BURST)"

definition lpm_event_main_loop_tx_q where
  "lpm_event_main_loop_tx_q E G L rs = lpm_event_loop E G L rs (L3FWD_EVENT_TX_ENQ OR L3FWD_EVENT_SINGLE)"

definition lpm_event_main_loop_tx_q_burst where
  "lpm_event_main_loop_tx_q_burst E G L rs = lpm_event_loop E G L rs (L3FWD_EVENT_TX_ENQ OR L3FWD_EVENT_BURST)"

definition lpm_event_main_loop_tx_d_vector where
  "lpm_event_main_loop_tx_d_vector E G L rs u lc = Ran_vectors (lpm_event_loop_vector E G L rs u L3FWD_EVENT_TX_DIRECT lc)"

definition lpm_event_main_loop_tx_d_burst_vector where
  "lpm_event_main_loop_tx_d_burst_vector E G L rs u lc = Ran_vectors (lpm_event_loop_vector E G L rs u L3FWD_EVENT_TX_DIRECT lc)"

definition lpm_event_main_loop_tx_q_vector where
  "lpm_event_main_loop_tx_q_vector E G L rs u lc = Ran_vectors (lpm_event_loop_vector E G L rs u L3FWD_EVENT_TX_ENQ lc)"

definition lpm_event_main_loop_tx_q_burst_vector where
  "lpm_event_main_loop_tx_q_burst_vector E G L rs u lc = Ran_vectors (lpm_event_loop_vector E G L rs u L3FWD_EVENT_TX_ENQ lc)"

section \<open>Exact match\<close>

definition em_event_loop_single :: "dpdk \<Rightarrow> glob \<Rightarrow> 'h hash_api \<Rightarrow> 'h em_state \<Rightarrow> event_resources \<Rightarrow> u8 \<Rightarrow> event_lcore \<Rightarrow>
    mbuf worker option" where
  "em_event_loop_single E G A T rs flags lc =
     event_worker_single (el_pkts lc) (el_port lc) (tx_q_id_of rs) flags (em_process_event_pkt E G A T)"

definition em_event_loop_vector :: "dpdk \<Rightarrow> glob \<Rightarrow> 'h hash_api \<Rightarrow> 'h em_state \<Rightarrow> event_resources \<Rightarrow> (nat \<Rightarrow> nat \<Rightarrow> nat \<Rightarrow> u16) \<Rightarrow>
    u8 \<Rightarrow> event_lcore \<Rightarrow> event_vector worker option" where
  "em_event_loop_vector E G A T rs u flags lc =
     (if el_port lc < 0 \<or> \<not> el_alloc lc then Some init_worker
      else event_worker (el_vecs lc) (el_port lc) (unat (er_deq_depth rs)) flags vec_pkts
             (vector_pass rs flags (\<lambda>t i v. l3fwd_em_process_event_vector sse_simd 8 E G A T get_ipv6_5tuple v (u t i))))"

text \<open>The workers for single events: without the burst loop \<open>em_event_loop\<close> is one run.\<close>

definition em_event_main_loop_tx_d where
  "em_event_main_loop_tx_d E G A T rs lc =
     Ran_packets [em_event_loop_single E G A T rs (L3FWD_EVENT_TX_DIRECT OR L3FWD_EVENT_SINGLE) lc]"

definition em_event_main_loop_tx_q where
  "em_event_main_loop_tx_q E G A T rs lc =
     Ran_packets [em_event_loop_single E G A T rs (L3FWD_EVENT_TX_ENQ OR L3FWD_EVENT_SINGLE) lc]"

definition em_event_main_loop_tx_d_vector where
  "em_event_main_loop_tx_d_vector E G A T rs u lc = Ran_vectors (em_event_loop_vector E G A T rs u L3FWD_EVENT_TX_DIRECT lc)"

definition em_event_main_loop_tx_d_burst_vector where
  "em_event_main_loop_tx_d_burst_vector E G A T rs u lc = Ran_vectors (em_event_loop_vector E G A T rs u L3FWD_EVENT_TX_DIRECT lc)"

definition em_event_main_loop_tx_q_vector where
  "em_event_main_loop_tx_q_vector E G A T rs u lc = Ran_vectors (em_event_loop_vector E G A T rs u L3FWD_EVENT_TX_ENQ lc)"

definition em_event_main_loop_tx_q_burst_vector where
  "em_event_main_loop_tx_q_burst_vector E G A T rs u lc = Ran_vectors (em_event_loop_vector E G A T rs u L3FWD_EVENT_TX_ENQ lc)"

section \<open>FIB\<close>

text \<open>\<open>u\<close> is what the arrays hold when a pass begins.\<close>

definition fib_event_pass :: "dpdk \<Rightarrow> glob \<Rightarrow> fib_tables \<Rightarrow> event_resources \<Rightarrow> (nat \<Rightarrow> fib_arrays) \<Rightarrow> u8 \<Rightarrow> mbuf event_fwd" where
  "fib_event_pass E G F rs u flags t evs =
     (let evs1 = map (set_tx rs flags) evs;
          P = fst (fib_process_events sse_simd E G F (u t) (length evs) (\<lambda>i. ev_pay (evs1 ! i), \<lambda>_. 0))
      in (map (\<lambda>i. (evs1 ! i)\<lparr>ev_pay := P i\<rparr>) [0..<length evs], []))"

definition fib_event_loop :: "dpdk \<Rightarrow> glob \<Rightarrow> fib_tables \<Rightarrow> event_resources \<Rightarrow> (nat \<Rightarrow> fib_arrays) \<Rightarrow> u8 \<Rightarrow> event_lcore \<Rightarrow>
    mbuf worker option" where
  "fib_event_loop E G F rs u flags lc =
     event_worker (el_pkts lc) (el_port lc) (unat (er_deq_depth rs)) flags one_mbuf (fib_event_pass E G F rs u flags)"

text \<open>The arrays of the vector loop are parts of one zeroed allocation.\<close>

definition fib_event_loop_vector :: "dpdk \<Rightarrow> glob \<Rightarrow> fib_tables \<Rightarrow> event_resources \<Rightarrow> (nat \<Rightarrow> nat \<Rightarrow> fib_arrays \<times> (nat \<Rightarrow> u16)) \<Rightarrow>
    u8 \<Rightarrow> event_lcore \<Rightarrow> event_vector worker option" where
  "fib_event_loop_vector E G F rs u flags lc =
     (if \<not> el_alloc lc \<or> el_port lc < 0 then Some init_worker
      else event_worker (el_vecs lc) (el_port lc) (unat (er_deq_depth rs)) flags vec_pkts
             (vector_pass rs flags (\<lambda>t i v. fib_process_event_vector sse_simd E G F (fst (u t i)) v (snd (u t i)))))"

definition fib_event_main_loop_tx_d where
  "fib_event_main_loop_tx_d E G F rs u lc = Ran_packets [fib_event_loop E G F rs u L3FWD_EVENT_TX_DIRECT lc]"

definition fib_event_main_loop_tx_d_burst where
  "fib_event_main_loop_tx_d_burst E G F rs u lc = Ran_packets [fib_event_loop E G F rs u L3FWD_EVENT_TX_DIRECT lc]"

definition fib_event_main_loop_tx_q where
  "fib_event_main_loop_tx_q E G F rs u lc = Ran_packets [fib_event_loop E G F rs u L3FWD_EVENT_TX_ENQ lc]"

definition fib_event_main_loop_tx_q_burst where
  "fib_event_main_loop_tx_q_burst E G F rs u lc = Ran_packets [fib_event_loop E G F rs u L3FWD_EVENT_TX_ENQ lc]"

definition fib_event_main_loop_tx_d_vector where
  "fib_event_main_loop_tx_d_vector E G F rs u lc = Ran_vectors (fib_event_loop_vector E G F rs u L3FWD_EVENT_TX_DIRECT lc)"

definition fib_event_main_loop_tx_d_burst_vector where
  "fib_event_main_loop_tx_d_burst_vector E G F rs u lc = Ran_vectors (fib_event_loop_vector E G F rs u L3FWD_EVENT_TX_DIRECT lc)"

definition fib_event_main_loop_tx_q_vector where
  "fib_event_main_loop_tx_q_vector E G F rs u lc = Ran_vectors (fib_event_loop_vector E G F rs u L3FWD_EVENT_TX_ENQ lc)"

definition fib_event_main_loop_tx_q_burst_vector where
  "fib_event_main_loop_tx_q_burst_vector E G F rs u lc = Ran_vectors (fib_event_loop_vector E G F rs u L3FWD_EVENT_TX_ENQ lc)"

section \<open>The choice of the worker\<close>

text \<open>The three-dimensional tables of \<open>l3fwd_event_resource_setup\<close>, indexed by \<open>vector_enabled\<close>, \<open>tx_mode_q\<close>
  and \<open>has_burst\<close>; an index past a table is outside it.\<close>

definition pick3 :: "'x list list list \<Rightarrow> u8 \<Rightarrow> u8 \<Rightarrow> u8 \<Rightarrow> 'x option" where
  "pick3 tbl i j k =
     (if unat i < 2 \<and> unat j < 2 \<and> unat k < 2 then Some (tbl ! unat i ! unat j ! unat k) else None)"

definition lpm_event_loop_table where
  "lpm_event_loop_table E G L rs u =
     [[[lpm_event_main_loop_tx_d E G L rs, lpm_event_main_loop_tx_d_burst E G L rs],
       [lpm_event_main_loop_tx_q E G L rs, lpm_event_main_loop_tx_q_burst E G L rs]],
      [[lpm_event_main_loop_tx_d_vector E G L rs u, lpm_event_main_loop_tx_d_burst_vector E G L rs u],
       [lpm_event_main_loop_tx_q_vector E G L rs u, lpm_event_main_loop_tx_q_burst_vector E G L rs u]]]"

text \<open>The two burst workers of exact match are not modelled: they are the arguments \<open>bd\<close> and \<open>bq\<close>.\<close>

definition em_event_loop_table where
  "em_event_loop_table E G A T rs u bd bq =
     [[[em_event_main_loop_tx_d E G A T rs, bd],
       [em_event_main_loop_tx_q E G A T rs, bq]],
      [[em_event_main_loop_tx_d_vector E G A T rs u, em_event_main_loop_tx_d_burst_vector E G A T rs u],
       [em_event_main_loop_tx_q_vector E G A T rs u, em_event_main_loop_tx_q_burst_vector E G A T rs u]]]"

definition fib_event_loop_table where
  "fib_event_loop_table E G F rs u uv =
     [[[fib_event_main_loop_tx_d E G F rs u, fib_event_main_loop_tx_d_burst E G F rs u],
       [fib_event_main_loop_tx_q E G F rs u, fib_event_main_loop_tx_q_burst E G F rs u]],
      [[fib_event_main_loop_tx_d_vector E G F rs uv, fib_event_main_loop_tx_d_burst_vector E G F rs uv],
       [fib_event_main_loop_tx_q_vector E G F rs uv, fib_event_main_loop_tx_q_burst_vector E G F rs uv]]]"

section \<open>No forwarding routine loses a packet\<close>

lemma fold_keeps: "(\<And>x s. h (f x s) = h s) \<Longrightarrow> h (fold f xs s) = h s"
  by (induction xs arbitrary: s) simp_all

abbreviation ids_of :: "burst \<Rightarrow> nat \<Rightarrow> nat" where
  "ids_of PD \<equiv> (\<lambda>i. mb_id (fst PD i))"

lemma process_at_ids: "ids_of (process_at E G j PD) = ids_of PD"
  by (auto simp: process_at_def Let_def case_prod_beta fun_eq_iff)

lemma step3_ids: "ids_of (processx4_step3 E G j PD) = ids_of PD"
  by (simp only: processx4_step3_process_at comp_apply process_at_ids)

lemma lpm_process_packets_ids: "ids_of (lpm_process_packets E G L n p ds PD) = ids_of PD"
proof -
  have t: "ids_of (snd (lpm_tail_step sse_simd E G L p ds st)) = ids_of (snd st)" for st
    by (auto simp: lpm_tail_step_def Let_def case_prod_beta sse_simd_def fun_eq_iff)
  have tail: "ids_of (lpm_tail sse_simd E G L p ds m st) = ids_of (snd st)" for m st
    unfolding lpm_tail_def Let_def by (simp add: t)
  have f: "ids_of (fold (\<lambda>i. processx4_step3 E G (FWDSTEP * i)) is QD) = ids_of QD" for "is" QD
    by (rule fold_keeps [where h = ids_of]) (rule step3_ids)
  show ?thesis unfolding lpm_process_packets_def Let_def case_prod_beta tail snd_conv by (simp add: f)
qed

lemma lpm_process_event_pkt_id: "mb_id (fst (lpm_process_event_pkt E G L m)) = mb_id m"
  by (simp add: lpm_process_event_pkt_def Let_def case_prod_beta)

lemma em_process_event_pkt_id: "mb_id (em_process_event_pkt E G A T m) = mb_id m"
  by (simp add: em_process_event_pkt_def Let_def case_prod_beta)

lemma em_process_packets_ids: "ids_of (l3fwd_em_process_packets sse_simd N E G A T K n p ds PD) = ids_of PD"
proof -
  have f: "ids_of (fold (\<lambda>i. processx4_step3 E G (j + FWDSTEP * i)) is QD) = ids_of QD" for j "is" QD
    by (rule fold_keeps [where h = ids_of]) (rule step3_ids)
  have g: "ids_of (em_group sse_simd E G A T K N p ds j QD) = ids_of QD" for j QD
    by (simp add: em_group_def Let_def case_prod_beta f sse_simd_def)
  have t: "ids_of (em_tail_step sse_simd E G A T p ds j QD) = ids_of QD" for j QD
    by (auto simp: em_tail_step_def Let_def case_prod_beta sse_simd_def fun_eq_iff)
  show ?thesis unfolding l3fwd_em_process_packets_def Let_def
    by (rule trans [OF fold_keeps [where h = ids_of, OF t] fold_keeps [where h = ids_of, OF g]])
qed

lemma fib_process_events_ids: "ids_of (fib_process_events sse_simd E G F a n PD) = ids_of PD"
  unfolding fib_process_events_def Let_def
  by (rule trans [OF fold_keeps [where h = "\<lambda>st. ids_of (fst st)"]])
     (auto simp: fib_event_step_def Let_def case_prod_beta sse_simd_def fun_eq_iff)

text \<open>A vector: what stays and what is freed are its packets.\<close>

abbreviation vec_ids :: "event_vector \<Rightarrow> nat multiset" where
  "vec_ids v \<equiv> mset (map mb_id (vec_pkts v))"

lemma process_event_vector_ids:
  "vec_ids (fst (process_event_vector vec D)) + mset (map mb_id (snd (process_event_vector vec D))) = vec_ids vec"
proof -
  obtain v gone where r: "process_event_vector vec D = (v, gone)" by fastforce
  let ?n = "unat (vec_nb vec)" and ?P = "vec_mbufs vec"
  note p = process_event_vector_ok [OF r]
  have "map (fst \<circ> snd) (map (\<lambda>i. (mb_data (vec_mbufs v i), mb_id (vec_mbufs v i), vec_dst v i)) [0..<unat (vec_nb v)])
      = map (fst \<circ> snd) (map (\<lambda>i. (mb_data (?P i), mb_id (?P i), D i)) (kept D ?n))"
    unfolding p(3) ..
  then have k: "map mb_id (vec_pkts v) = map (\<lambda>i. mb_id (?P i)) (kept D ?n)" by (simp add: vec_pkts_def comp_def)
  have "mset (kept D ?n) + mset (dropped D ?n) = mset [0..<?n]"
    using mset_filter [of "\<lambda>i. D i \<noteq> BAD_PORT" "[0..<?n]"] mset_filter [of "\<lambda>i. D i = BAD_PORT" "[0..<?n]"]
      multiset_partition [of "mset [0..<?n]" "\<lambda>i. D i \<noteq> BAD_PORT"]
    by (simp add: kept_def dropped_def)
  from arg_cong [OF this, of "image_mset (\<lambda>i. mb_id (?P i))"] show ?thesis
    by (simp only: r fst_conv snd_conv k p(1)) (simp add: vec_pkts_def comp_def multiset.map_comp)
qed

lemma vec_ids_cong: "ids_of (P, D) = ids_of (vec_mbufs vec, D) \<Longrightarrow> vec_ids (vec\<lparr>vec_mbufs := P\<rparr>) = vec_ids vec"
  by (simp add: vec_pkts_def comp_def)

lemma vector_ids:
  assumes "ids_of PD = ids_of (vec_mbufs vec, snd PD)"
  shows "vec_ids (fst (process_event_vector (vec\<lparr>vec_mbufs := fst PD\<rparr>) (snd PD)))
      + mset (map mb_id (snd (process_event_vector (vec\<lparr>vec_mbufs := fst PD\<rparr>) (snd PD)))) = vec_ids vec"
  unfolding process_event_vector_ids by (rule vec_ids_cong [where D = "snd PD"]) (use assms in simp)

lemma lpm_vector_ids:
  "vec_ids (fst (lpm_process_event_vector E G L vec D)) + mset (map mb_id (snd (lpm_process_event_vector E G L vec D))) = vec_ids vec"
proof -
  have s: "ids_of (lpm_vector_step E G L i PD) = ids_of PD" for i PD
  proof -
    have "mb_id (fst (lpm_process_packets E G L 1 (mb_port (fst PD i)) True (\<lambda>k. fst PD (i + k), \<lambda>k. snd PD (i + k))) 0)
        = mb_id (fst PD i)"
      using fun_cong [OF lpm_process_packets_ids, of E G L 1 "mb_port (fst PD i)" True "(\<lambda>k. fst PD (i + k), \<lambda>k. snd PD (i + k))" 0] by simp
    then show ?thesis by (auto simp: lpm_vector_step_def Let_def case_prod_beta fun_eq_iff)
  qed
  have f: "ids_of (fold (lpm_vector_step E G L) is PD) = ids_of PD" for "is" PD
    by (rule fold_keeps [where h = ids_of]) (rule s)
  let ?PD = "if vec_attr_valid vec then lpm_process_packets E G L (unat (vec_nb vec)) (vec_port vec) True (vec_mbufs vec, D)
     else fold (lpm_vector_step E G L) [0..<unat (vec_nb vec)] (vec_mbufs vec, D)"
  have "ids_of ?PD = ids_of (vec_mbufs vec, snd ?PD)"
    by (cases "vec_attr_valid vec") (simp_all add: f lpm_process_packets_ids)
  from vector_ids [OF this] show ?thesis unfolding lpm_process_event_vector_def Let_def case_prod_beta .
qed

lemma em_vector_ids:
  "vec_ids (fst (l3fwd_em_process_event_vector sse_simd N E G A T K vec D))
    + mset (map mb_id (snd (l3fwd_em_process_event_vector sse_simd N E G A T K vec D))) = vec_ids vec"
proof -
  have s: "ids_of (em_vector_step sse_simd N E G A T K i PD) = ids_of PD" for i PD
  proof -
    have "mb_id (fst (l3fwd_em_process_packets sse_simd N E G A T K 1 (mb_port (fst PD i)) True (\<lambda>k. fst PD (i + k), \<lambda>k. snd PD (i + k))) 0)
        = mb_id (fst PD i)"
      using fun_cong [OF em_process_packets_ids, of N E G A T K 1 "mb_port (fst PD i)" True "(\<lambda>k. fst PD (i + k), \<lambda>k. snd PD (i + k))" 0] by simp
    then show ?thesis by (auto simp: em_vector_step_def Let_def case_prod_beta fun_eq_iff)
  qed
  have f: "ids_of (fold (em_vector_step sse_simd N E G A T K) is PD) = ids_of PD" for "is" PD
    by (rule fold_keeps [where h = ids_of]) (rule s)
  let ?PD = "if vec_attr_valid vec then l3fwd_em_process_packets sse_simd N E G A T K (unat (vec_nb vec)) (vec_port vec) True (vec_mbufs vec, D)
     else fold (em_vector_step sse_simd N E G A T K) [0..<unat (vec_nb vec)] (vec_mbufs vec, D)"
  have "ids_of ?PD = ids_of (vec_mbufs vec, snd ?PD)"
    by (cases "vec_attr_valid vec") (simp_all add: f em_process_packets_ids)
  from vector_ids [OF this] show ?thesis unfolding l3fwd_em_process_event_vector_def Let_def case_prod_beta .
qed

lemma fib_vector_ids:
  "vec_ids (fst (fib_process_event_vector sse_simd E G F a vec D))
    + mset (map mb_id (snd (fib_process_event_vector sse_simd E G F a vec D))) = vec_ids vec"
proof -
  let ?n = "unat (vec_nb vec)" and ?own = "\<lambda>i. if vec_attr_valid vec then vec_port vec else mb_port (vec_mbufs vec i)"
  let ?k = "?n - ?n mod FWDSTEP" and ?step = "\<lambda>i PD. ((fst PD)(i := fst (sd_proc sse_simd E G (fst PD i) (snd PD i))),
      (snd PD)(i := snd (sd_proc sse_simd E G (fst PD i) (snd PD i))))"
  let ?PD2 = "fold (\<lambda>i. sd_step3 sse_simd E G (FWDSTEP * i)) [0..<?k div FWDSTEP]
      (vec_mbufs vec, fib_hops E F a ?own (vec_mbufs vec) ?n D)"
  have f: "ids_of (fold (\<lambda>i. sd_step3 sse_simd E G (FWDSTEP * i)) is QD) = ids_of QD" for "is" QD
    by (rule fold_keeps [where h = ids_of]) (simp add: sse_simd_def step3_ids)
  have t: "ids_of (fold ?step is QD) = ids_of QD" for "is" QD
    by (rule fold_keeps [where h = ids_of]) (auto simp: sse_simd_def fun_eq_iff)
  have "ids_of (fold ?step [?k..<?n] ?PD2) = ids_of (vec_mbufs vec, snd (fold ?step [?k..<?n] ?PD2))"
    unfolding t f by simp
  from vector_ids [OF this] show ?thesis unfolding fib_process_event_vector_def Let_def case_prod_beta .
qed

section \<open>The workers keep their packets\<close>

lemma ev_ids_one: "ev_ids one_mbuf evs = mset (map (\<lambda>e. mb_id (ev_pay e)) evs)"
  by (induction evs) simp_all

lemma set_tx_pay [simp]: "ev_pay (set_tx rs flags e) = ev_pay e"
  by (simp add: set_tx_def)

interpretation lpm_burst: event_forwarder one_mbuf "\<lambda>(E, G, L, rs, flags). lpm_event_pass E G L rs flags"
  by unfold_locales
     (auto simp: lpm_event_pass_def ev_ids_one Let_def lpm_process_event_pkt_id comp_def multiset.map_comp)

interpretation fib_burst: event_forwarder one_mbuf "\<lambda>(E, G, F, rs, u, flags). fib_event_pass E G F rs u flags"
proof
  fix c :: "dpdk \<times> glob \<times> fib_tables \<times> event_resources \<times> (nat \<Rightarrow> fib_arrays) \<times> u8" and t and evs :: "mbuf event list"
  obtain E G F rs u flags where c: "c = (E, G, F, rs, u, flags)" by (metis prod_cases6)
  let ?P = "\<lambda>i. ev_pay (map (set_tx rs flags) evs ! i)"
  have "mb_id (fst (fib_process_events sse_simd E G F (u t) (length evs) (?P, \<lambda>_. 0)) i) = mb_id (?P i)" for i
    using fun_cong [OF fib_process_events_ids, of E G F "u t" "length evs" "(?P, \<lambda>_. 0)" i] by simp
  then have "map (\<lambda>i. mb_id (fst (fib_process_events sse_simd E G F (u t) (length evs) (?P, \<lambda>_. 0)) i)) [0..<length evs]
      = map (\<lambda>i. mb_id (?P i)) [0..<length evs]" by simp
  also have "\<dots> = map (\<lambda>e. mb_id (ev_pay e)) evs" by (rule nth_equalityI) simp_all
  finally show "ev_ids one_mbuf (fst ((case c of (E, G, F, rs, u, flags) \<Rightarrow> fib_event_pass E G F rs u flags) t evs))
      + mset (map mb_id (snd ((case c of (E, G, F, rs, u, flags) \<Rightarrow> fib_event_pass E G F rs u flags) t evs))) = ev_ids one_mbuf evs"
    unfolding ev_ids_one c fib_event_pass_def Let_def prod.case fst_conv snd_conv by (simp only: map_map comp_def event.simps) simp
  show "length (fst ((case c of (E, G, F, rs, u, flags) \<Rightarrow> fib_event_pass E G F rs u flags) t evs)) = length evs"
    by (simp add: c fib_event_pass_def Let_def)
qed

text \<open>Vectors, whatever forwards them.\<close>

definition vector_fwd_ok :: "(nat \<Rightarrow> nat \<Rightarrow> event_vector \<Rightarrow> event_vector \<times> mbuf list) \<Rightarrow> bool" where
  "vector_fwd_ok f \<longleftrightarrow> (\<forall>t i v. vec_ids (fst (f t i v)) + mset (map mb_id (snd (f t i v))) = vec_ids v)"

lemma vector_pass_keeps:
  assumes "vector_fwd_ok f"
  shows "ev_ids vec_pkts (fst (vector_pass rs flags f t evs)) + mset (map mb_id (snd (vector_pass rs flags f t evs))) = ev_ids vec_pkts evs"
proof -
  have "ev_ids vec_pkts (map (\<lambda>(i, e). (set_tx rs flags e)\<lparr>ev_pay := fst (f t i (ev_pay e))\<rparr>) (enumerate n evs))
      + mset (map mb_id (concat (map (\<lambda>(i, e). snd (f t i (ev_pay e))) (enumerate n evs)))) = ev_ids vec_pkts evs" for n
  proof (induction evs arbitrary: n)
    case (Cons e evs)
    have "vec_ids (fst (f t n (ev_pay e))) + mset (map mb_id (snd (f t n (ev_pay e)))) = vec_ids (ev_pay e)"
      using assms unfolding vector_fwd_ok_def by blast
    from arg_cong2 [OF this Cons.IH [of "Suc n"], of "(+)"] show ?case by (simp add: ac_simps)
  qed simp
  from this [of 0] show ?thesis by (simp add: vector_pass_def)
qed

lemma vector_fwds_ok:
  "vector_fwd_ok (\<lambda>t i v. lpm_process_event_vector E G L v (u t i))"
  "vector_fwd_ok (\<lambda>t i v. l3fwd_em_process_event_vector sse_simd 8 E G A T get_ipv6_5tuple v (u t i))"
  "vector_fwd_ok (\<lambda>t i v. fib_process_event_vector sse_simd E G F (fst (w t i)) v (snd (w t i)))"
  unfolding vector_fwd_ok_def using lpm_vector_ids em_vector_ids fib_vector_ids by blast+

lemma vector_pass_length: "length (fst (vector_pass rs flags f t evs)) = length evs"
  by (simp add: vector_pass_def)

interpretation lpm_vectors: event_forwarder vec_pkts
  "\<lambda>(E, G, L, rs, flags, u). vector_pass rs flags (\<lambda>t i v. lpm_process_event_vector E G L v (u t i))"
  by unfold_locales (auto simp: vector_pass_length vector_pass_keeps [OF vector_fwds_ok(1)] simp del: mset_map)

interpretation em_vectors: event_forwarder vec_pkts
  "\<lambda>(E, G, A, T, rs, flags, u). vector_pass rs flags (\<lambda>t i v. l3fwd_em_process_event_vector sse_simd 8 E G A T get_ipv6_5tuple v (u t i))"
  by unfold_locales (auto simp: vector_pass_length vector_pass_keeps [OF vector_fwds_ok(2)] simp del: mset_map)

interpretation fib_vectors: event_forwarder vec_pkts
  "\<lambda>(E, G, F, rs, flags, w). vector_pass rs flags (\<lambda>t i v. fib_process_event_vector sse_simd E G F (fst (w t i)) v (snd (w t i)))"
  by unfold_locales (auto simp: vector_pass_length vector_pass_keeps [OF vector_fwds_ok(3)] simp del: mset_map)

interpretation lpm_one: packet_forwarder "\<lambda>(E, G, L) m. fst (lpm_process_event_pkt E G L m)"
  by unfold_locales (auto simp: lpm_process_event_pkt_id)

interpretation em_one: packet_forwarder "\<lambda>(E, G, A, T). em_process_event_pkt E G A T"
  by unfold_locales (auto simp: em_process_event_pkt_id)

text \<open>What is asked of a run: it ends, and what the worker took or found in its port it handed on
  or freed, each packet once. The workers for single events keep only \<open>single_kept\<close> for the checks \<open>f\<close>
  of their forwarding.\<close>

definition worker_kept :: "('p \<Rightarrow> mbuf list) \<Rightarrow> 'p evdev \<Rightarrow> 'p worker option \<Rightarrow> bool" where
  "worker_kept pk dev r \<longleftrightarrow> (\<exists>w. r = Some w
     \<and> out_ids pk w + freed_ids w = ev_ids pk (wk_taken w) + ev_ids pk (ed_held dev))"

fun run_kept :: "event_lcore \<Rightarrow> event_run \<Rightarrow> bool" where
  "run_kept lc (Ran_packets rs) \<longleftrightarrow> rs \<noteq> [] \<and> list_all (worker_kept one_mbuf (el_pkts lc)) rs"
| "run_kept lc (Ran_vectors r) \<longleftrightarrow> worker_kept vec_pkts (el_vecs lc) r"

fun run_single_kept :: "(mbuf \<Rightarrow> mbuf) \<Rightarrow> event_lcore \<Rightarrow> event_run \<Rightarrow> bool" where
  "run_single_kept f lc (Ran_packets rs) \<longleftrightarrow> rs \<noteq> [] \<and> list_all (single_kept f (el_pkts lc)) rs"
| "run_single_kept f lc (Ran_vectors r) \<longleftrightarrow> False"

definition event_lcore_ok :: "event_lcore \<Rightarrow> bool" where
  "event_lcore_ok lc \<longleftrightarrow> (\<exists>T. evdev_ok (el_pkts lc) T) \<and> (\<exists>T. evdev_ok (el_vecs lc) T) \<and> 0 \<le> el_port lc \<and> el_alloc lc"

lemma flags_one_tx:
  "one_tx L3FWD_EVENT_TX_DIRECT" "one_tx L3FWD_EVENT_TX_ENQ"
  "one_tx (L3FWD_EVENT_TX_DIRECT OR L3FWD_EVENT_SINGLE)" "one_tx (L3FWD_EVENT_TX_DIRECT OR L3FWD_EVENT_BURST)"
  "one_tx (L3FWD_EVENT_TX_ENQ OR L3FWD_EVENT_SINGLE)" "one_tx (L3FWD_EVENT_TX_ENQ OR L3FWD_EVENT_BURST)"
  by (simp_all add: one_tx_def event_flags)

lemma loops_kept:
  assumes "event_lcore_ok lc" and "one_tx flags"
  shows "single_kept (\<lambda>m. fst (lpm_process_event_pkt E G L m)) (el_pkts lc) (lpm_event_loop_single E G L rs flags lc)"
    and "worker_kept one_mbuf (el_pkts lc) (lpm_event_loop_burst E G L rs flags lc)"
    and "worker_kept vec_pkts (el_vecs lc) (lpm_event_loop_vector E G L rs u flags lc)"
    and "single_kept (em_process_event_pkt E G A T) (el_pkts lc) (em_event_loop_single E G A T rs flags lc)"
    and "worker_kept vec_pkts (el_vecs lc) (em_event_loop_vector E G A T rs u flags lc)"
    and "worker_kept one_mbuf (el_pkts lc) (fib_event_loop E G F rs ua flags lc)"
    and "worker_kept vec_pkts (el_vecs lc) (fib_event_loop_vector E G F rs uv flags lc)"
proof -
  obtain T1 T2 where d: "evdev_ok (el_pkts lc) T1" "evdev_ok (el_vecs lc) T2" and p: "0 \<le> el_port lc" "el_alloc lc"
    using assms(1) by (auto simp: event_lcore_ok_def)
  show "single_kept (\<lambda>m. fst (lpm_process_event_pkt E G L m)) (el_pkts lc) (lpm_event_loop_single E G L rs flags lc)"
    using lpm_one.worker_single_keeps [OF d(1) assms(2) p(1), of "(E, G, L)" "tx_q_id_of rs"]
    by (simp add: lpm_event_loop_single_def)
  show "single_kept (em_process_event_pkt E G A T) (el_pkts lc) (em_event_loop_single E G A T rs flags lc)"
    using em_one.worker_single_keeps [OF d(1) assms(2) p(1), of "(E, G, A, T)" "tx_q_id_of rs"]
    by (simp add: em_event_loop_single_def)
  show "worker_kept one_mbuf (el_pkts lc) (lpm_event_loop_burst E G L rs flags lc)"
    using lpm_burst.worker_keeps [OF d(1) assms(2) p(1), of "unat (er_deq_depth rs)" "(E, G, L, rs, flags)"]
    by (simp add: worker_kept_def lpm_event_loop_burst_def)
  show "worker_kept one_mbuf (el_pkts lc) (fib_event_loop E G F rs ua flags lc)"
    using fib_burst.worker_keeps [OF d(1) assms(2) p(1), of "unat (er_deq_depth rs)" "(E, G, F, rs, ua, flags)"]
    by (simp add: worker_kept_def fib_event_loop_def)
  show "worker_kept vec_pkts (el_vecs lc) (lpm_event_loop_vector E G L rs u flags lc)"
    using lpm_vectors.worker_keeps [OF d(2) assms(2) p(1), of "unat (er_deq_depth rs)" "(E, G, L, rs, flags, u)"] p
    by (simp add: worker_kept_def lpm_event_loop_vector_def)
  show "worker_kept vec_pkts (el_vecs lc) (em_event_loop_vector E G A T rs u flags lc)"
    using em_vectors.worker_keeps [OF d(2) assms(2) p(1), of "unat (er_deq_depth rs)" "(E, G, A, T, rs, flags, u)"] p
    by (simp add: worker_kept_def em_event_loop_vector_def)
  show "worker_kept vec_pkts (el_vecs lc) (fib_event_loop_vector E G F rs uv flags lc)"
    using fib_vectors.worker_keeps [OF d(2) assms(2) p(1), of "unat (er_deq_depth rs)" "(E, G, F, rs, flags, uv)"] p
    by (simp add: worker_kept_def fib_event_loop_vector_def)
qed

lemma lpm_vector_steps:
  fixes G :: glob
  assumes "ptype_ok E" and "lookupx4_ok L" and "\<forall>i < n. hops_small L (mb_port (P i))"
  defines "r \<equiv> \<lambda>i. process_packet E G (P i) (lpm_get_dst_port E L (P i) (mb_port (P i)))"
  shows "fold (lpm_vector_step E G L) [0..<n] (P, D)
    = (\<lambda>k. if k < n then fst (r k) else P k, \<lambda>k. if k < n then snd (r k) else D k)"
proof -
  have s: "lpm_vector_step E G L i (P', D') = (P'(i := fst q), D'(i := snd q))"
    if "hops_small L (mb_port (P' i))" "q = process_packet E G (P' i) (lpm_get_dst_port E L (P' i) (mb_port (P' i)))" for i P' D' q
    using that(2) by (simp add: lpm_vector_step_def Let_def lpm_process_packets_spec [OF assms(1,2) that(1)] lpm_spec_def)
  have "m \<le> n \<Longrightarrow> fold (lpm_vector_step E G L) [0..<m] (P, D)
    = (\<lambda>k. if k < m then fst (r k) else P k, \<lambda>k. if k < m then snd (r k) else D k)" for m
  proof (induction m)
    case (Suc m)
    let ?P = "\<lambda>k. if k < m then fst (r k) else P k"
    have "hops_small L (mb_port (?P m))" using assms(3) Suc.prems by simp
    from s [where P' = ?P and i = m, OF this refl] show ?case using Suc by (simp add: r_def fun_eq_iff less_Suc_eq)
  qed simp
  then show ?thesis by simp
qed

lemma lpm_process_event_vector_eq:
  fixes G :: glob
  assumes "ptype_ok E" and "lookupx4_ok L"
    and "\<forall>i < unat (vec_nb vec). hops_small L (if vec_attr_valid vec then vec_port vec else mb_port (vec_mbufs vec i))"
  defines "r \<equiv> \<lambda>i. process_packet E G (vec_mbufs vec i)
      (lpm_get_dst_port E L (vec_mbufs vec i) (if vec_attr_valid vec then vec_port vec else mb_port (vec_mbufs vec i)))"
  shows "lpm_process_event_vector E G L vec D =
    process_event_vector (vec\<lparr>vec_mbufs := \<lambda>k. if k < unat (vec_nb vec) then fst (r k) else vec_mbufs vec k\<rparr>)
      (\<lambda>k. if k < unat (vec_nb vec) then snd (r k) else D k)"
proof (cases "vec_attr_valid vec")
  case True
  let ?n = "unat (vec_nb vec)"
  show ?thesis
  proof (cases "?n = 0")
    case True
    then show ?thesis using \<open>vec_attr_valid vec\<close>
      by (simp add: lpm_process_event_vector_def Let_def lpm_process_packets_def step1_pass_def lpm_tail_def FWDSTEP_def)
  next
    case False
    then have "hops_small L (vec_port vec)" using assms(3) True by auto
    from lpm_process_packets_spec [OF assms(1,2) this, of G ?n True "(vec_mbufs vec, D)"] show ?thesis
      using True by (simp add: lpm_process_event_vector_def Let_def lpm_spec_def r_def cong: if_cong)
  qed
next
  case False
  then have h: "\<forall>i < unat (vec_nb vec). hops_small L (mb_port (vec_mbufs vec i))" using assms(3) by simp
  show ?thesis using False lpm_vector_steps [OF assms(1,2) h, of G D]
    by (simp add: lpm_process_event_vector_def Let_def r_def cong: if_cong)
qed

lemmas event_tables = lpm_event_loop_table_def em_event_loop_table_def fib_event_loop_table_def
  lpm_event_main_loop_tx_d_def lpm_event_main_loop_tx_d_burst_def lpm_event_main_loop_tx_q_def
  lpm_event_main_loop_tx_q_burst_def lpm_event_main_loop_tx_d_vector_def lpm_event_main_loop_tx_d_burst_vector_def
  lpm_event_main_loop_tx_q_vector_def lpm_event_main_loop_tx_q_burst_vector_def
  em_event_main_loop_tx_d_def em_event_main_loop_tx_q_def em_event_main_loop_tx_d_vector_def
  em_event_main_loop_tx_d_burst_vector_def em_event_main_loop_tx_q_vector_def em_event_main_loop_tx_q_burst_vector_def
  fib_event_main_loop_tx_d_def fib_event_main_loop_tx_d_burst_def fib_event_main_loop_tx_q_def
  fib_event_main_loop_tx_q_burst_def fib_event_main_loop_tx_d_vector_def fib_event_main_loop_tx_d_burst_vector_def
  fib_event_main_loop_tx_q_vector_def fib_event_main_loop_tx_q_burst_vector_def

section \<open>Properties\<close>

definition event_lcore_ex :: event_lcore where
  "event_lcore_ex = \<lparr>el_port = 0, el_pkts = evdev_ex,
     el_vecs = \<lparr>ed_quit = (\<lambda>t. 9 \<le> t), ed_deq = (\<lambda>_ _. []), ed_enq = (\<lambda>_ _ _. 0), ed_held = []\<rparr>, el_alloc = True\<rparr>"

definition event_resources_ex :: event_resources where
  "event_resources_ex = \<lparr>er_event_q_id = [0, 1], er_nb_queues = 2, er_deq_depth = 32\<rparr>"

lemma event_lcore_ok_ex: "event_lcore_ok event_lcore_ex"
  using evdev_ok_ex by (auto simp: event_lcore_ok_def event_lcore_ex_def evdev_ok_def)

text \<open>C23. Whichever worker \<open>l3fwd_event_resource_setup\<close> selects, for LPM, for the FIB and for exact match but for
  the exact-match bursts, on whatever the event device delivers and however often it refuses events: the
  worker ends once \<open>force_quit\<close> is set. The workers for bursts and for vectors, and all of the FIB, handed on or freed
  each packet they took or found in their port exactly once. Those of LPM and exact match for single events did so too, but
  for the last packet they took: when it was rejected and none was handed on before, they may have freed it twice.\<close>

theorem event_loops_keep:
  assumes "event_lcore_ok lc" and "v \<le> 1" and "q \<le> 1" and "b \<le> 1"
  shows "\<exists>l e f. pick3 (lpm_event_loop_table E G L rs u) v q b = Some l
    \<and> (if v = 0 \<and> b = 0 then run_single_kept (\<lambda>m. fst (lpm_process_event_pkt E G L m)) lc (l lc) else run_kept lc (l lc))
    \<and> pick3 (em_event_loop_table E G A T rs ue bd bq) v q b = Some e
    \<and> (if v = 0 then if b = 0 then run_single_kept (em_process_event_pkt E G A T) lc (e lc) else e = (if q = 0 then bd else bq)
       else run_kept lc (e lc))
    \<and> pick3 (fib_event_loop_table E G F rs w x) v q b = Some f \<and> run_kept lc (f lc)"
proof -
  have u8: "i = 0 \<or> i = 1" if "i \<le> 1" for i :: u8
  proof -
    have "unat i \<le> 1" using that by (simp add: word_le_nat_alt)
    then have "unat i = 0 \<or> unat i = 1" by linarith
    then show ?thesis by (auto simp: word_unat_eq_iff)
  qed
  let ?c = "\<lambda>m. fst (lpm_process_event_pkt E G L m)"
  have lpm: "one_tx fl \<Longrightarrow> fl AND L3FWD_EVENT_SINGLE \<noteq> 0 \<Longrightarrow> fl AND L3FWD_EVENT_BURST = 0 \<Longrightarrow> run_single_kept ?c lc (lpm_event_loop E G L rs fl lc)"
    "one_tx fl \<Longrightarrow> fl AND L3FWD_EVENT_SINGLE = 0 \<Longrightarrow> fl AND L3FWD_EVENT_BURST \<noteq> 0 \<Longrightarrow> run_kept lc (lpm_event_loop E G L rs fl lc)" for fl
    using loops_kept(1,2) [OF assms(1)] by (simp_all add: lpm_event_loop_def)
  have fl: "(L3FWD_EVENT_TX_DIRECT OR L3FWD_EVENT_SINGLE) AND L3FWD_EVENT_SINGLE \<noteq> 0"
    "(L3FWD_EVENT_TX_DIRECT OR L3FWD_EVENT_SINGLE) AND L3FWD_EVENT_BURST = 0"
    "(L3FWD_EVENT_TX_DIRECT OR L3FWD_EVENT_BURST) AND L3FWD_EVENT_SINGLE = 0"
    "(L3FWD_EVENT_TX_DIRECT OR L3FWD_EVENT_BURST) AND L3FWD_EVENT_BURST \<noteq> 0"
    "(L3FWD_EVENT_TX_ENQ OR L3FWD_EVENT_SINGLE) AND L3FWD_EVENT_SINGLE \<noteq> 0"
    "(L3FWD_EVENT_TX_ENQ OR L3FWD_EVENT_SINGLE) AND L3FWD_EVENT_BURST = 0"
    "(L3FWD_EVENT_TX_ENQ OR L3FWD_EVENT_BURST) AND L3FWD_EVENT_SINGLE = 0"
    "(L3FWD_EVENT_TX_ENQ OR L3FWD_EVENT_BURST) AND L3FWD_EVENT_BURST \<noteq> 0"
    by (simp_all add: event_flags)
  note single = lpm(1) [OF flags_one_tx(3) fl(1,2)] lpm(1) [OF flags_one_tx(5) fl(5,6)]
    loops_kept(4) [OF assms(1) flags_one_tx(3)] loops_kept(4) [OF assms(1) flags_one_tx(5)]
  note burst = lpm(2) [OF flags_one_tx(4) fl(3,4)] lpm(2) [OF flags_one_tx(6) fl(7,8)]
  note other = loops_kept(3,5,6,7) [OF assms(1)] flags_one_tx(1,2)
  show ?thesis
    using u8 [OF assms(2)] u8 [OF assms(3)] u8 [OF assms(4)]
    by (elim disjE; hypsubst) (simp_all add: pick3_def event_tables single single [unfolded One_nat_def] burst other)
qed

theorem event_loops_keep_witness:
  "\<exists>w. lpm_event_loop_burst dpdk_ex glob_ex lpm_ex event_resources_ex (L3FWD_EVENT_TX_DIRECT OR L3FWD_EVENT_BURST)
      event_lcore_ex = Some w
    \<and> out_ids one_mbuf w + freed_ids w = ev_ids one_mbuf (wk_taken w) + ev_ids one_mbuf (ed_held evdev_ex)"
proof -
  fix A :: "nat hash_api" and T ue bd bq F w x
  have "\<exists>l. pick3 (lpm_event_loop_table dpdk_ex glob_ex lpm_ex event_resources_ex (\<lambda>_ _ _. 0)) 0 0 1 = Some l
      \<and> run_kept event_lcore_ex (l event_lcore_ex)"
    using event_loops_keep [OF event_lcore_ok_ex, of 0 0 1 dpdk_ex glob_ex lpm_ex event_resources_ex "\<lambda>_ _ _. 0" A T ue bd bq F w x] by auto
  then have "run_kept event_lcore_ex (lpm_event_main_loop_tx_d_burst dpdk_ex glob_ex lpm_ex event_resources_ex event_lcore_ex)"
    by (simp add: pick3_def lpm_event_loop_table_def)
  then show ?thesis
    by (simp add: lpm_event_main_loop_tx_d_burst_def lpm_event_loop_def event_flags worker_kept_def)
       (simp add: event_lcore_ex_def)
qed

text \<open>C24. An event vector forwarded with LPM: every packet is rewritten for the port of its own lookup, where
  a packet without a route stays on the port of the vector or its own; the rejected packets are freed and
  no others, and each of the others stays in order and leaves to the port it was rewritten for.\<close>

theorem lpm_event_vector_forwards:
  assumes "ptype_ok E" and "lookupx4_ok L"
    and "\<forall>i < unat (vec_nb vec). hops_small L (if vec_attr_valid vec then vec_port vec else mb_port (vec_mbufs vec i))"
  shows "let (v, gone) = lpm_process_event_vector E G L vec D; n = unat (vec_nb vec); P = vec_mbufs vec;
      r = (\<lambda>i. process_packet E G (P i) (lpm_get_dst_port E L (P i) (if vec_attr_valid vec then vec_port vec else mb_port (P i))))
    in gone = map (\<lambda>i. fst (r i)) (dropped (\<lambda>i. snd (r i)) n)
     \<and> map (\<lambda>i. (mb_data (vec_mbufs v i), mb_id (vec_mbufs v i), vec_dst v i)) [0..<unat (vec_nb v)]
       = map (\<lambda>i. (mb_data (fst (r i)), mb_id (P i), snd (r i))) (kept (\<lambda>i. snd (r i)) n)"
proof -
  let ?n = "unat (vec_nb vec)" and ?P = "vec_mbufs vec"
  let ?r = "\<lambda>i. process_packet E G (?P i) (lpm_get_dst_port E L (?P i) (if vec_attr_valid vec then vec_port vec else mb_port (?P i)))"
  obtain v gone where p: "process_event_vector (vec\<lparr>vec_mbufs := \<lambda>k. if k < ?n then fst (?r k) else ?P k\<rparr>)
      (\<lambda>k. if k < ?n then snd (?r k) else D k) = (v, gone)" by fastforce
  have e: "lpm_process_event_vector E G L vec D = (v, gone)"
    using lpm_process_event_vector_eq [OF assms, of G D] by (simp add: p)
  note q = process_event_vector_rewritten [where r = ?r, OF p]
  show ?thesis using q by (simp add: e)
qed

theorem lpm_event_vector_forwards_witness:
  "let vec = \<lparr>vec_nb = 2, vec_mbufs = mbuf_ex, vec_attr_valid = False, vec_port = 0, vec_queue = 0\<rparr>;
      (v, gone) = lpm_process_event_vector dpdk_ex glob_ex lpm_ex vec (\<lambda>_. 0)
    in map mb_id gone = [0, 1]"
proof -
  let ?vec = "\<lparr>vec_nb = 2, vec_mbufs = mbuf_ex, vec_attr_valid = False, vec_port = 0, vec_queue = 0\<rparr>"
  obtain v gone where r: "lpm_process_event_vector dpdk_ex glob_ex lpm_ex ?vec (\<lambda>_. 0) = (v, gone)" by fastforce
  have "snd (process_packet dpdk_ex glob_ex (mbuf_ex i) p) = BAD_PORT" for i p
    by (simp add: process_packet_def rfc1812_process_def Let_def dpdk_ex_def mbuf_ex_def
        IPV4_MIN_VER_IHL_def IPV4_MAX_VER_IHL_DIFF_def IPV4_MAX_VER_IHL_def)
  moreover have "mb_port (mbuf_ex i) = 0" for i by (simp add: mbuf_ex_def)
  ultimately show ?thesis
    using lpm_event_vector_forwards [OF ptype_ok_ex lookupx4_ok_ex, of ?vec glob_ex "\<lambda>_. 0"] hops_small_ex [of 0]
    by (simp add: r dropped_def) (simp add: mbuf_ex_def numeral_2_eq_2)
qed

text \<open>The LPM worker for bursts of events does not look for rejected packets, unlike the one for single
  events: a packet the checks reject is handed on like any other, with \<open>BAD_PORT\<close>, which is no port, as the
  port the transmit adapter is to send it to, and it is not freed.\<close>

lemma lpm_event_burst_sends_rejected:
  assumes "0 \<le> el_port lc" and "\<not> ed_quit (el_pkts lc) 0" and "ed_deq (el_pkts lc) 1 (unat (er_deq_depth rs)) = [ev]"
    and "ed_quit (el_pkts lc) 3" and "\<forall>evs. ed_enq (el_pkts lc) 2 True evs = 1"
    and "snd (lpm_process_event_pkt E G L (ev_pay ev)) = BAD_PORT"
  shows "map_option (\<lambda>w. (map (\<lambda>(ad, e). (ad, mb_id (ev_pay e), mb_port (ev_pay e))) (wk_out w), wk_freed w))
      (lpm_event_loop_burst E G L rs (L3FWD_EVENT_TX_DIRECT OR L3FWD_EVENT_BURST) lc)
    = Some ([(True, mb_id (ev_pay ev), BAD_PORT)], map ev_pay (ed_held (el_pkts lc)))"
proof -
  let ?dev = "el_pkts lc" and ?len = "unat (er_deq_depth rs)" and ?fl = "L3FWD_EVENT_TX_DIRECT OR L3FWD_EVENT_BURST"
  let ?body = "lpm_event_pass E G L rs ?fl"
  let ?ev = "(set_tx rs ?fl ev)\<lparr>ev_pay := fst (lpm_process_event_pkt E G L (ev_pay ev))\<rparr>"
  have fl: "?fl AND L3FWD_EVENT_TX_ENQ = 0" "?fl AND L3FWD_EVENT_TX_DIRECT \<noteq> 0" "L3FWD_EVENT_TX_DIRECT \<noteq> 0"
    by (simp_all add: event_flags)
  have port: "mb_port (ev_pay ?ev) = BAD_PORT"
    using assms(6) by (simp add: lpm_process_event_pkt_def Let_def case_prod_beta)
  have t: "ed_deq ?dev (Suc 0) ?len = [ev]" "ed_quit ?dev (Suc (Suc (Suc 0)))" "\<And>evs. ed_enq ?dev (Suc (Suc 0)) True evs = Suc 0"
    using assms(3-5) by (simp_all add: numeral_2_eq_2 numeral_3_eq_3)
  have b: "?body t' [ev] = ([?ev], [])" for t' by (simp add: lpm_event_pass_def Let_def)
  let ?w = "\<lparr>wk_time = Suc (Suc (Suc 0)), wk_events = [?ev], wk_deq = 1, wk_enq = 1, wk_taken = [ev], wk_out = [(True, ?ev)],
     wk_freed = [], wk_released = []\<rparr> :: mbuf worker"
  have "ev_pass ?dev ?len ?fl ?body (init_worker\<lparr>wk_time := Suc 0\<rparr>) = Some ?w"
    using t by (simp add: ev_pass_def Let_def ev_dequeue_def b fl enq_all_def ev_enqueue_def init_worker_def enq_rest.simps)
  then have "ev_loop ?dev ?len ?fl ?body init_worker = ev_loop ?dev ?len ?fl ?body ?w"
    using assms(2) by (subst ev_loop.simps) (simp add: read_quit_def init_worker_def)
  also have "\<dots> = Some (?w\<lparr>wk_time := Suc (wk_time ?w)\<rparr>)"
    using t by (subst ev_loop.simps) (simp add: read_quit_def)
  finally show ?thesis using assms(1) port
    by (simp add: lpm_event_loop_burst_def event_worker_def l3fwd_event_worker_cleanup_def Let_def concat_map_singleton
        lpm_process_event_pkt_id)
qed

end
