(* ===== verification/Link_Wait.thy ===== *)
theory Link_Wait
  imports Prelude
begin

text \<open>
  \<open>check_all_ports_link_status\<close>, which \<open>l3fwd/main.c\<close> and \<open>l2fwd/main.c\<close> write out with the same
  text: ask for the links until all are up or 9 seconds have passed, then print them. The devices
  answer differently from call to call, and \<open>force_quit\<close> may be set at any time by the signal
  handler: a run is given the answers of \<open>rte_eth_link_get_nowait\<close> by the number of the call and the
  values of \<open>force_quit\<close> by the number of the read.
\<close>

definition MAX_CHECK_TIME :: nat where "MAX_CHECK_TIME = 90"
definition CHECK_INTERVAL :: nat where "CHECK_INTERVAL = 100"

datatype link = Link_up | Link_down

text \<open>\<open>None\<close> is an answer below 0.\<close>

record link_world =
  lw_quit :: "nat \<Rightarrow> bool"
  lw_link :: "nat \<Rightarrow> nat \<Rightarrow> link option"

record link_state =
  ls_reads :: nat
  ls_calls :: nat
  ls_delay_ms :: nat
  ls_printed :: "(nat \<times> link option) list"

definition link_init :: link_state where
  "link_init = \<lparr>ls_reads = 0, ls_calls = 0, ls_delay_ms = 0, ls_printed = []\<rparr>"

text \<open>The loop over the ports; \<open>Inl\<close> is the return because of \<open>force_quit\<close>, else the result has
  \<open>all_ports_up\<close>.\<close>

fun link_ports :: "link_world \<Rightarrow> u32 \<Rightarrow> bool \<Rightarrow> nat list \<Rightarrow> bool \<Rightarrow> link_state \<Rightarrow> link_state + bool \<times> link_state" where
  "link_ports W port_mask print_flag [] all_ports_up s = Inr (all_ports_up, s)"
| "link_ports W port_mask print_flag (portid # ps) all_ports_up s =
     (let quit = lw_quit W (ls_reads s); s1 = s\<lparr>ls_reads := ls_reads s + 1\<rparr>
      in if quit then Inl s1
         else if \<not> in_mask port_mask portid then link_ports W port_mask print_flag ps all_ports_up s1
         else let a = lw_link W (ls_calls s1) portid;
                  s2 = s1\<lparr>ls_calls := ls_calls s1 + 1,
                          ls_printed := (if print_flag then ls_printed s1 @ [(portid, a)] else ls_printed s1)\<rparr>
              in case a of
                   None \<Rightarrow> link_ports W port_mask print_flag ps False s2
                 | Some l \<Rightarrow>
                     if print_flag then link_ports W port_mask print_flag ps all_ports_up s2
                     else if l = Link_down then Inr (False, s2)
                     else link_ports W port_mask print_flag ps all_ports_up s2)"

text \<open>The rounds from \<open>count\<close> (\<open>cnt\<close> here) on. The result tells whether the last round, which prints, was reached.\<close>

function link_rounds :: "link_world \<Rightarrow> u32 \<Rightarrow> nat list \<Rightarrow> nat \<Rightarrow> bool \<Rightarrow> link_state \<Rightarrow> bool \<times> link_state" where
  "link_rounds W port_mask ports cnt print_flag s =
     (if MAX_CHECK_TIME < cnt then (False, s)
      else let quit = lw_quit W (ls_reads s); s1 = s\<lparr>ls_reads := ls_reads s + 1\<rparr>
           in if quit then (False, s1)
              else case link_ports W port_mask print_flag ports True s1 of
                     Inl s2 \<Rightarrow> (False, s2)
                   | Inr (all_ports_up, s2) \<Rightarrow>
                       if print_flag then (True, s2)
                       else let s3 = (if all_ports_up then s2 else s2\<lparr>ls_delay_ms := ls_delay_ms s2 + CHECK_INTERVAL\<rparr>);
                                pf = (all_ports_up \<or> cnt = MAX_CHECK_TIME - 1)
                            in link_rounds W port_mask ports (cnt + 1) pf s3)"
  by pat_completeness auto
termination by (relation "measure (\<lambda>(W, m, ps, c, p, s). Suc MAX_CHECK_TIME - c)") auto

declare link_rounds.simps [simp del]

definition check_all_ports_link_status :: "link_world \<Rightarrow> u32 \<Rightarrow> nat list \<Rightarrow> bool \<times> link_state" where
  "check_all_ports_link_status W port_mask ports = link_rounds W port_mask ports 0 False link_init"

section \<open>The wait is bounded and ends with the report\<close>

text \<open>What a loop over the ports does to the state: it asks for at most each enabled port once, waits
  for nothing and, when printing and not interrupted, reports every enabled port.\<close>

definition end_of :: "link_state + bool \<times> link_state \<Rightarrow> link_state" where
  "end_of r = (case r of Inl s \<Rightarrow> s | Inr (_, s) \<Rightarrow> s)"

lemma link_ports_bound:
  "ls_delay_ms (end_of (link_ports W m pf ps up s)) = ls_delay_ms s
   \<and> ls_calls (end_of (link_ports W m pf ps up s)) \<le> ls_calls s + length (filter (in_mask m) ps)"
proof (induction ps arbitrary: up s)
  case Nil
  then show ?case by (simp add: end_of_def)
next
  case (Cons p ps)
  let ?s1 = "s\<lparr>ls_reads := ls_reads s + 1\<rparr>"
  let ?s2 = "?s1\<lparr>ls_calls := ls_calls s + 1, ls_printed :=
    (if pf then ls_printed s @ [(p, lw_link W (ls_calls s) p)] else ls_printed s)\<rparr>"
  show ?case
    using Cons.IH [of up ?s1] Cons.IH [of up ?s2] Cons.IH [of False ?s2]
    by (auto simp: Let_def end_of_def split: option.splits)
qed

lemma link_ports_prints:
  "link_ports W m True ps up s = Inr (u, t) \<Longrightarrow>
     map fst (ls_printed t) = map fst (ls_printed s) @ filter (in_mask m) ps"
proof (induction ps arbitrary: up s)
  case (Cons p ps)
  let ?s1 = "s\<lparr>ls_reads := ls_reads s + 1\<rparr>"
  let ?s2 = "?s1\<lparr>ls_calls := ls_calls s + 1, ls_printed := ls_printed s @ [(p, lw_link W (ls_calls s) p)]\<rparr>"
  have q: "\<not> lw_quit W (ls_reads s)" using Cons.prems by (simp add: Let_def split: if_splits)
  show ?case
  proof (cases "in_mask m p")
    case True
    have "\<exists>up'. link_ports W m True ps up' ?s2 = Inr (u, t)"
      using Cons.prems q True by (cases "lw_link W (ls_calls s) p") (auto simp: Let_def)
    then show ?thesis using Cons.IH [of _ ?s2] True by auto
  next
    case False
    then show ?thesis using Cons.prems q Cons.IH [of up ?s1] by (simp add: Let_def)
  qed
qed simp

lemma link_ports_silent:
  "link_ports W m False ps up s = r \<Longrightarrow> ls_printed (end_of r) = ls_printed s"
proof (induction ps arbitrary: up s r)
  case Nil
  then show ?case by (auto simp: end_of_def)
next
  case (Cons p ps)
  show ?case
    unfolding Cons.prems [symmetric]
    by (simp add: Let_def Cons.IH [OF refl] split: option.split) (simp add: end_of_def)
qed

text \<open>The rounds: at most one delay for every round before the last, and unless \<open>force_quit\<close> was seen
  the ports are printed.\<close>

lemma link_rounds_bound:
  assumes "cnt \<le> MAX_CHECK_TIME" and "cnt = MAX_CHECK_TIME \<Longrightarrow> pf"
    and "link_rounds W m ps cnt pf s = (d, t)"
  shows "ls_delay_ms t \<le> ls_delay_ms s + CHECK_INTERVAL * (MAX_CHECK_TIME - cnt)
    \<and> ls_calls t \<le> ls_calls s + (Suc MAX_CHECK_TIME - cnt) * length (filter (in_mask m) ps)
    \<and> (d \<longrightarrow> map fst (ls_printed t) = map fst (ls_printed s) @ filter (in_mask m) ps)
    \<and> (\<not> d \<longrightarrow> (\<exists>k. lw_quit W k))"
  using assms
proof (induction W m ps cnt pf s arbitrary: d t rule: link_rounds.induct)
  case (1 W m ps cnt pf s)
  let ?s1 = "s\<lparr>ls_reads := ls_reads s + 1\<rparr>"
  let ?n = "length (filter (in_mask m) ps)"
  let ?r = "link_ports W m pf ps True ?s1"
  note b = link_ports_bound [of W m pf ps True ?s1]
  have c: "\<not> MAX_CHECK_TIME < cnt" using 1(2) by simp
  have "1 \<le> Suc MAX_CHECK_TIME - cnt" using c by arith
  then have n: "?n \<le> (Suc MAX_CHECK_TIME - cnt) * ?n" using mult_le_mono1 [of 1] by fastforce
  show ?case
  proof (cases "lw_quit W (ls_reads s)")
    case True
    then have "d = False" "t = ?s1" using 1(4) c by (simp_all add: link_rounds.simps [of W m ps cnt])
    then show ?thesis using True by auto
  next
    case q: False
    have u: "(case ?r of Inl s2 \<Rightarrow> (False, s2)
        | Inr (up, s2) \<Rightarrow> if pf then (True, s2)
            else link_rounds W m ps (cnt + 1) (up \<or> cnt = MAX_CHECK_TIME - 1)
                   (if up then s2 else s2\<lparr>ls_delay_ms := ls_delay_ms s2 + CHECK_INTERVAL\<rparr>)) = (d, t)"
      using 1(4) c q by (simp only: link_rounds.simps [of W m ps cnt] Let_def if_False)
    show ?thesis
    proof (cases ?r)
      case (Inl s2)
      have "\<exists>k. lw_quit W k" if "link_ports W m pf ps up s0 = Inl s2" for up s0
        using that by (induction ps arbitrary: up s0) (auto simp: Let_def split: if_splits option.splits)
      moreover have "d = False" "t = s2"
        using u unfolding Inl by simp_all
      moreover have "ls_delay_ms s2 = ls_delay_ms s" "ls_calls s2 \<le> ls_calls s + ?n"
        using b unfolding Inl end_of_def by simp_all
      ultimately show ?thesis using Inl le_trans [OF _ add_left_mono [OF n]] by fastforce
    next
      case (Inr us)
      obtain up s2 where us: "us = (up, s2)" by fastforce
      have s2: "ls_delay_ms s2 = ls_delay_ms s" "ls_calls s2 \<le> ls_calls s + ?n"
        using b unfolding Inr us end_of_def by simp_all
      show ?thesis
      proof (cases pf)
        case True
        have "d = True" "t = s2" using u unfolding Inr us by (simp_all add: True)
        moreover have "map fst (ls_printed s2) = map fst (ls_printed s) @ filter (in_mask m) ps"
          using link_ports_prints [of W m ps True ?s1 up s2] Inr True by (simp only: us) simp
        moreover note le_trans [OF s2(2) add_left_mono [OF n]]
        ultimately show ?thesis using s2(1) by simp
      next
        case False
        let ?s3 = "if up then s2 else s2\<lparr>ls_delay_ms := ls_delay_ms s2 + CHECK_INTERVAL\<rparr>"
        let ?pf = "up \<or> cnt = MAX_CHECK_TIME - 1"
        have lt: "cnt < MAX_CHECK_TIME" using 1(2,3) False by fastforce
        have e: "link_rounds W m ps (cnt + 1) ?pf ?s3 = (d, t)"
          using u unfolding Inr us by (simp add: False)
        have p2: "ls_printed s2 = ls_printed s"
          using link_ports_silent [of W m ps True ?s1 ?r] Inr False by (simp only: us) (simp add: end_of_def)
        have s3: "ls_calls ?s3 = ls_calls s2" "ls_printed ?s3 = ls_printed s"
            "ls_delay_ms ?s3 \<le> ls_delay_ms s + CHECK_INTERVAL"
          using s2 p2 by simp_all
        have m: "CHECK_INTERVAL + CHECK_INTERVAL * (MAX_CHECK_TIME - (cnt + 1)) = CHECK_INTERVAL * (MAX_CHECK_TIME - cnt)"
            "?n + (Suc MAX_CHECK_TIME - (cnt + 1)) * ?n = (Suc MAX_CHECK_TIME - cnt) * ?n"
          using lt by (simp_all add: Suc_diff_Suc [symmetric] Suc_diff_le)
        have ih: "ls_delay_ms t \<le> ls_delay_ms ?s3 + CHECK_INTERVAL * (MAX_CHECK_TIME - (cnt + 1))
            \<and> ls_calls t \<le> ls_calls ?s3 + (Suc MAX_CHECK_TIME - (cnt + 1)) * ?n
            \<and> (d \<longrightarrow> map fst (ls_printed t) = map fst (ls_printed ?s3) @ filter (in_mask m) ps)
            \<and> (\<not> d \<longrightarrow> (\<exists>k. lw_quit W k))"
          by (rule 1(1) [OF c refl refl q Inr us [symmetric] False refl refl _ _ e]) (use lt in auto)
        show ?thesis using ih s3 s2(2) m by simp
      qed
    qed
  qed
qed

text \<open>C22. Waiting for the links takes at most nine seconds, whatever the devices answer: at most 90
  delays of 100 ms and at most 91 questions for each enabled port. Unless \<open>force_quit\<close> is set meanwhile, it ends
  with the state of every enabled port printed, once and in the order of the ports.\<close>

theorem link_wait_bounded:
  "case check_all_ports_link_status W port_mask ports of (reported, s) \<Rightarrow>
     ls_delay_ms s \<le> 9000
     \<and> ls_calls s \<le> 91 * length (filter (in_mask port_mask) ports)
     \<and> (if reported then map fst (ls_printed s) = filter (in_mask port_mask) ports else \<exists>k. lw_quit W k)"
proof -
  obtain d t where "link_rounds W port_mask ports 0 False link_init = (d, t)" by fastforce
  from link_rounds_bound [OF _ _ this] this show ?thesis
    by (auto simp: check_all_ports_link_status_def MAX_CHECK_TIME_def CHECK_INTERVAL_def link_init_def)
qed

end
