(* ===== verification/L2_Setup.thy ===== *)
theory L2_Setup
  imports Setup Link_Wait
begin

text \<open>
  The start of the L2 forwarder \<open>l2fwd/main.c\<close>: its command line, the pairing of the ports
  (given with \<open>--portmap\<close> or by default), the lcore that polls each port, the memory pool and
  the initialisation of the devices. The libraries are the record \<open>l2_env\<close>, which extends that of
  \<open>Setup\<close>. What is shown: the destination ports pair the enabled ports, so that no two
  lcores ever write to the same transmit buffer, and every buffer that is written to exists.
\<close>

section \<open>Parameters and state\<close>

record l2_env = setup_env +
  l2e_max_ethports :: nat
  l2e_strsplit :: "string \<Rightarrow> nat \<Rightarrow> char \<Rightarrow> string list"
  l2e_hz :: u64
  l2e_dev_socket :: "nat \<Rightarrow> nat"
  l2e_pool :: "u32 \<Rightarrow> bool"
  l2e_buffer :: "nat \<Rightarrow> bool"
  l2e_callback :: "nat \<Rightarrow> bool"
  l2e_start :: "nat \<Rightarrow> bool"
  l2e_promiscuous :: "nat \<Rightarrow> bool"

definition L2_MAX_PKT_BURST :: nat where "L2_MAX_PKT_BURST = 32"
definition L2_MAX_RX_QUEUE_PER_LCORE :: nat where "L2_MAX_RX_QUEUE_PER_LCORE = 16"
definition MEMPOOL_CACHE_SIZE :: nat where "MEMPOOL_CACHE_SIZE = 256"
definition MAX_TIMER_PERIOD :: int where "MAX_TIMER_PERIOD = 86400"
definition L2_DESC_DEFAULT :: u16 where "L2_DESC_DEFAULT = 1024"

text \<open>The globals the options set. \<open>l2_pairs\<close> are the entries of \<open>port_pair_params_array\<close> that are in
  use, of which there are \<open>nb_port_pair_params\<close>; \<open>l2_portmap\<close> tells that the pointer
  \<open>port_pair_params\<close> is set.\<close>

record l2_cfg =
  l2_mac_updating :: bool
  l2_promiscuous_on :: bool
  l2_port_mask :: u32
  l2_queue_per_lcore :: nat
  l2_timer_period :: u64
  l2_pairs :: "(u16 \<times> u16) list"
  l2_portmap :: bool

definition l2_init_cfg :: l2_cfg where
  "l2_init_cfg = \<lparr>l2_mac_updating = True, l2_promiscuous_on = False, l2_port_mask = 0, l2_queue_per_lcore = 1,
     l2_timer_period = 10, l2_pairs = [], l2_portmap = False\<rparr>"

section \<open>The command line\<close>

definition l2fwd_parse_portmask :: "string \<Rightarrow> u32" where
  "l2fwd_parse_portmask portmask =
     (let pm = strtoul portmask 16 in if bad_number portmask pm then 0 else of_nat (su_val pm))"

definition l2fwd_parse_nqueue :: "string \<Rightarrow> nat" where
  "l2fwd_parse_nqueue q_arg =
     (let r = strtoul q_arg 10; n = su_val r
      in if bad_number q_arg r then 0
         else if n = 0 then 0
         else if L2_MAX_RX_QUEUE_PER_LCORE \<le> n then 0
         else n)"

text \<open>\<open>strtol\<close> and \<open>strtoul\<close> stop at the same character; the \<open>int\<close> keeps the low 32 bits.\<close>

definition l2fwd_parse_timer_period :: "string \<Rightarrow> int" where
  "l2fwd_parse_timer_period q_arg =
     (let n = sint (word_of_int (strtol q_arg 10) :: u32)
      in if bad_number q_arg (strtoul q_arg 10) then - 1
         else if MAX_TIMER_PERIOD \<le> n then - 1
         else n)"

text \<open>The two numbers of a pair; \<open>None\<close> is the return of \<open>-1\<close>.\<close>

fun l2_int_fld :: "nat \<Rightarrow> string list \<Rightarrow> nat list option" where
  "l2_int_fld max_ports [] = Some []"
| "l2_int_fld max_ports (str # strs) =
     (let r = strtoul str 0
      in if su_erange r \<or> su_end r = str \<or> max_ports \<le> su_val r then None
         else case l2_int_fld max_ports strs of None \<Rightarrow> None | Some vs \<Rightarrow> Some (su_val r # vs))"

text \<open>One \<open>(port,port)\<close> group, as \<open>config_entry\<close>: \<open>None\<close> when no parenthesis opens, \<open>Some None\<close> for an
  error.\<close>

definition l2_pair_entry :: "l2_env \<Rightarrow> string \<Rightarrow> ((u16 \<times> u16) \<times> string) option option" where
  "l2_pair_entry E p0 =
     (case strchr CHR 0x28 p0 of
        None \<Rightarrow> None
      | Some q \<Rightarrow>
          (case strchr CHR 0x29 (tl q) of
             None \<Rightarrow> Some None
           | Some p1 \<Rightarrow>
               let size = length (tl q) - length p1;
                   str_fld = l2e_strsplit E (take size (tl q)) 2 CHR 0x2C
               in if 256 \<le> size then Some None
                  else if length str_fld \<noteq> 2 then Some None
                  else case l2_int_fld (l2e_max_ethports E) str_fld of
                         None \<Rightarrow> Some None
                       | Some int_fld \<Rightarrow> Some (Some ((of_nat (int_fld ! 0), of_nat (int_fld ! 1)), p1))))"

lemma l2_pair_entry_shorter:
  assumes "l2_pair_entry E p0 = Some (Some (p, p1))" shows "length p1 < length p0"
proof -
  from assms obtain q where q: "strchr CHR 0x28 p0 = Some q" "strchr CHR 0x29 (tl q) = Some p1"
    by (auto simp: l2_pair_entry_def Let_def split: option.splits if_splits)
  obtain r where "q = CHR 0x28 # r" using strchr_hd [OF q(1)] by blast
  then show ?thesis using strchr_shorter [OF q(1)] strchr_shorter [OF q(2)] by simp
qed

function l2_pair_loop :: "l2_env \<Rightarrow> (u16 \<times> u16) list \<Rightarrow> string \<Rightarrow> int \<times> (u16 \<times> u16) list" where
  "l2_pair_loop E arr p0 =
     (case l2_pair_entry E p0 of
        None \<Rightarrow> (0, arr)
      | Some None \<Rightarrow> (- 1, arr)
      | Some (Some (p, p1)) \<Rightarrow>
          if l2e_max_ethports E div 2 \<le> length arr then (- 1, arr) else l2_pair_loop E (arr @ [p]) p1)"
  by pat_completeness auto
termination
  by (relation "measure (\<lambda>(E, arr, p0). length p0)") (auto dest: l2_pair_entry_shorter)

declare l2_pair_loop.simps [simp del]

definition l2fwd_parse_port_pair_config :: "l2_env \<Rightarrow> string \<Rightarrow> l2_cfg \<Rightarrow> int \<times> l2_cfg" where
  "l2fwd_parse_port_pair_config E q_arg c =
     (let (ret, arr) = l2_pair_loop E [] q_arg
      in if ret \<noteq> 0 then (ret, c\<lparr>l2_pairs := arr\<rparr>) else (0, c\<lparr>l2_pairs := arr, l2_portmap := True\<rparr>))"

text \<open>What \<open>getopt_long\<close> returns, with \<open>optarg\<close>.\<close>

datatype l2_opt =
  L2_p string | L2_P | L2_q string | L2_T string | L2_portmap string | L2_no_mac_updating | L2_other

fun l2_parse_opt :: "l2_env \<Rightarrow> l2_opt \<Rightarrow> l2_cfg \<Rightarrow> int + l2_cfg" where
  "l2_parse_opt E (L2_p optarg) c =
     (let m = l2fwd_parse_portmask optarg in if m = 0 then Inl (- 1) else Inr (c\<lparr>l2_port_mask := m\<rparr>))"
| "l2_parse_opt E L2_P c = Inr (c\<lparr>l2_promiscuous_on := True\<rparr>)"
| "l2_parse_opt E (L2_q optarg) c =
     (let n = l2fwd_parse_nqueue optarg in if n = 0 then Inl (- 1) else Inr (c\<lparr>l2_queue_per_lcore := n\<rparr>))"
| "l2_parse_opt E (L2_T optarg) c =
     (let timer_secs = l2fwd_parse_timer_period optarg
      in if timer_secs < 0 then Inl (- 1) else Inr (c\<lparr>l2_timer_period := of_int timer_secs\<rparr>))"
| "l2_parse_opt E (L2_portmap optarg) c =
     (let (ret, c1) = l2fwd_parse_port_pair_config E optarg c in if ret \<noteq> 0 then Inl (- 1) else Inr c1)"
| "l2_parse_opt E L2_no_mac_updating c = Inr (c\<lparr>l2_mac_updating := False\<rparr>)"
| "l2_parse_opt E L2_other c = Inl (- 1)"

definition l2fwd_parse_args :: "l2_env \<Rightarrow> l2_opt list \<Rightarrow> l2_cfg \<Rightarrow> int + l2_cfg" where
  "l2fwd_parse_args E opts c = foldM (l2_parse_opt E) opts (c\<lparr>l2_portmap := False\<rparr>)"

section \<open>Pairs of ports\<close>

definition l2_pair_port :: "l2_env \<Rightarrow> u32 \<Rightarrow> nat \<Rightarrow> u32 \<Rightarrow> int + u32" where
  "l2_pair_port E port_mask portid port_pair_mask =
     (if \<not> in_mask port_mask portid then Inl (- 1)
      else if \<not> se_valid_port E portid then Inl (- 1)
      else Inr (port_pair_mask OR shl1 portid))"

definition l2_check_pair :: "l2_env \<Rightarrow> u32 \<Rightarrow> u16 \<times> u16 \<Rightarrow> u32 \<Rightarrow> int + u32" where
  "l2_check_pair E port_mask pr port_pair_config_mask =
     (case foldM (l2_pair_port E port_mask) [unat (fst pr), unat (snd pr)] 0 of
        Inl e \<Rightarrow> Inl e
      | Inr port_pair_mask \<Rightarrow>
          if port_pair_config_mask AND port_pair_mask \<noteq> 0 then Inl (- 1)
          else Inr (port_pair_config_mask OR port_pair_mask))"

definition check_port_pair_config :: "l2_env \<Rightarrow> l2_cfg \<Rightarrow> int + l2_cfg" where
  "check_port_pair_config E c =
     (case foldM (l2_check_pair E (l2_port_mask c)) (l2_pairs c) 0 of
        Inl e \<Rightarrow> Inl e
      | Inr port_pair_config_mask \<Rightarrow> Inr (c\<lparr>l2_port_mask := l2_port_mask c AND port_pair_config_mask\<rparr>))"

text \<open>\<open>l2fwd_dst_ports\<close> from the pairs: \<open>idx\<close> runs over both ends of each pair.\<close>

definition l2_pair_end :: "(u16 \<times> u16) list \<Rightarrow> nat \<Rightarrow> nat \<Rightarrow> u16" where
  "l2_pair_end prs i p = (if p = 0 then fst (prs ! i) else snd (prs ! i))"

definition l2_dst_step :: "(u16 \<times> u16) list \<Rightarrow> nat \<Rightarrow> (nat \<Rightarrow> u32) \<Rightarrow> (nat \<Rightarrow> u32)" where
  "l2_dst_step prs idx d =
     (let p = idx mod 2; portid = l2_pair_end prs (idx div 2) p
      in d(unat portid := ucast (l2_pair_end prs (idx div 2) (1 - p))))"

definition l2_dst_of_pairs :: "(u16 \<times> u16) list \<Rightarrow> (nat \<Rightarrow> u32) \<Rightarrow> (nat \<Rightarrow> u32)" where
  "l2_dst_of_pairs prs d = fold (l2_dst_step prs) [0..<2 * length prs] d"

text \<open>\<open>l2fwd_dst_ports\<close> by default: the enabled ports in twos. The state is the array, \<open>last_port\<close> and
  \<open>nb_ports_in_mask\<close>.\<close>

definition l2_default_step :: "u32 \<Rightarrow> nat \<Rightarrow> (nat \<Rightarrow> u32) \<times> nat \<times> nat \<Rightarrow> (nat \<Rightarrow> u32) \<times> nat \<times> nat" where
  "l2_default_step port_mask portid st =
     (let (d, last_port, nb_ports_in_mask) = st
      in if \<not> in_mask port_mask portid then st
         else if nb_ports_in_mask mod 2 \<noteq> 0
              then (d(portid := of_nat last_port, last_port := of_nat portid), last_port, nb_ports_in_mask + 1)
              else (d, portid, nb_ports_in_mask + 1))"

definition l2_dst_default :: "u32 \<Rightarrow> nat list \<Rightarrow> (nat \<Rightarrow> u32) \<Rightarrow> (nat \<Rightarrow> u32)" where
  "l2_dst_default port_mask ports d0 =
     (let (d, last_port, nb_ports_in_mask) = fold (l2_default_step port_mask) ports (d0, 0, 0)
      in if nb_ports_in_mask mod 2 \<noteq> 0 then d(last_port := of_nat last_port) else d)"

text \<open>The checks of \<open>main\<close> before the array is filled, and the filling.\<close>

definition l2_dst_setup :: "l2_env \<Rightarrow> l2_cfg \<Rightarrow> string + (l2_cfg \<times> (nat \<Rightarrow> u32))" where
  "l2_dst_setup E c =
     (let nb_ports = length (se_ports E)
      in if nb_ports = 0 then Inl ''No Ethernet ports - bye''
         else case (if l2_portmap c then check_port_pair_config E c else Inr c) of
                Inl _ \<Rightarrow> Inl ''Invalid port pair config''
              | Inr c1 \<Rightarrow>
                  if l2_port_mask c1 AND NOT (shl1 nb_ports - 1) \<noteq> 0 then Inl ''Invalid portmask''
                  else Inr (c1, if l2_portmap c1 then l2_dst_of_pairs (l2_pairs c1) (\<lambda>_. 0)
                                else l2_dst_default (l2_port_mask c1) (se_ports E) (\<lambda>_. 0)))"

section \<open>Lcores and ports\<close>

text \<open>The next lcore that is enabled and has room; \<open>None\<close> is the exit for want of lcores.\<close>

function l2_next_lcore :: "l2_env \<Rightarrow> nat \<Rightarrow> (nat \<Rightarrow> nat list) \<Rightarrow> nat \<Rightarrow> nat option" where
  "l2_next_lcore E n conf rx_lcore_id =
     (if \<not> se_lcore_enabled E rx_lcore_id \<or> length (conf rx_lcore_id) = n then
        if se_max_lcore E \<le> rx_lcore_id + 1 then None else l2_next_lcore E n conf (rx_lcore_id + 1)
      else Some rx_lcore_id)"
  by pat_completeness auto
termination by (relation "measure (\<lambda>(E, n, conf, l). se_max_lcore E - l)") auto

declare l2_next_lcore.simps [simp del]

text \<open>\<open>l2a_conf\<close> are the port lists of the lcores, \<open>l2a_qconf\<close> the lcore \<open>qconf\<close> points to.\<close>

record l2_assign =
  l2a_conf :: "nat \<Rightarrow> nat list"
  l2a_lcore :: nat
  l2a_qconf :: "nat option"
  l2a_nb_lcores :: nat

definition l2_assign_port :: "l2_env \<Rightarrow> l2_cfg \<Rightarrow> nat \<Rightarrow> l2_assign \<Rightarrow> string + l2_assign" where
  "l2_assign_port E c portid s =
     (if \<not> in_mask (l2_port_mask c) portid then Inr s
      else case l2_next_lcore E (l2_queue_per_lcore c) (l2a_conf s) (l2a_lcore s) of
             None \<Rightarrow> Inl ''Not enough cores''
           | Some l \<Rightarrow>
               let nb = (if l2a_qconf s \<noteq> Some l then l2a_nb_lcores s + 1 else l2a_nb_lcores s)
               in Inr \<lparr>l2a_conf = (l2a_conf s)(l := l2a_conf s l @ [portid]), l2a_lcore = l,
                       l2a_qconf = Some l, l2a_nb_lcores = nb\<rparr>)"

definition l2_assign_ports :: "l2_env \<Rightarrow> l2_cfg \<Rightarrow> string + l2_assign" where
  "l2_assign_ports E c = foldM (l2_assign_port E c) (se_ports E)
     \<lparr>l2a_conf = (\<lambda>_. []), l2a_lcore = 0, l2a_qconf = None, l2a_nb_lcores = 0\<rparr>"

section \<open>Devices\<close>

text \<open>\<open>l2s_buffers\<close>: the transmit buffers that are allocated and initialised, \<open>l2s_started\<close>: the
  devices that run.\<close>

record l2_state =
  l2s_rxd :: u16
  l2s_txd :: u16
  l2s_macs :: "nat \<Rightarrow> u8 list"
  l2s_buffers :: "nat set"
  l2s_started :: "nat set"
  l2s_trace :: "dev_call list"
  l2s_available :: nat

definition l2_nb_mbufs :: "l2_env \<Rightarrow> nat \<Rightarrow> u32" where
  "l2_nb_mbufs E nb_lcores =
     max (of_nat (length (se_ports E)) *
           (ucast L2_DESC_DEFAULT + ucast L2_DESC_DEFAULT + of_nat L2_MAX_PKT_BURST
            + of_nat nb_lcores * of_nat MEMPOOL_CACHE_SIZE)) 8192"

definition l2_port_conf :: "l2_env \<Rightarrow> dev_info \<Rightarrow> port_conf" where
  "l2_port_conf E di =
     (let conf = \<lparr>pc_mtu = 0, pc_rx_off = 0, pc_tx_off = 0, pc_rss_hf = 0, pc_mq_rss = False\<rparr>
      in if di_tx_capa di AND se_fast_free E \<noteq> 0 then conf\<lparr>pc_tx_off := pc_tx_off conf OR se_fast_free E\<rparr> else conf)"

text \<open>Configuring the device, up to its address.\<close>

definition l2_configure :: "l2_env \<Rightarrow> nat \<Rightarrow> l2_state \<Rightarrow> string + port_conf \<times> l2_state" where
  "l2_configure E portid s =
     (case se_dev_info E portid of
        None \<Rightarrow> Inl ''Error during getting device info''
      | Some di \<Rightarrow>
          let conf = l2_port_conf E di
          in if \<not> se_configure E portid 1 1 conf then Inl ''Cannot configure device''
             else case se_adjust E portid (l2s_rxd s) (l2s_txd s) of
                    None \<Rightarrow> Inl ''Cannot adjust number of descriptors''
                  | Some (rxd, txd) \<Rightarrow>
                      (case se_mac E portid of
                         None \<Rightarrow> Inl ''Cannot get MAC address''
                       | Some mac \<Rightarrow>
                           Inr (conf, s\<lparr>l2s_rxd := rxd, l2s_txd := txd, l2s_macs := (l2s_macs s)(portid := mac),
                                        l2s_trace := l2s_trace s @ [Configure portid 1 1 conf]\<rparr>)))"

text \<open>The queues, the transmit buffer and the start of the device.\<close>

definition l2_start_port :: "l2_env \<Rightarrow> l2_cfg \<Rightarrow> nat \<Rightarrow> port_conf \<Rightarrow> l2_state \<Rightarrow> string + l2_state" where
  "l2_start_port E c portid conf s =
     (let socket = l2e_dev_socket E portid;
          s1 = s\<lparr>l2s_trace := l2s_trace s @ [Rx_queue portid 0 socket (0, 0), Tx_queue portid 0 socket]\<rparr>;
          s2 = s1\<lparr>l2s_buffers := insert portid (l2s_buffers s1)\<rparr>;
          s3 = s2\<lparr>l2s_started := insert portid (l2s_started s2)\<rparr>
      in if \<not> se_rxq E portid 0 (l2s_rxd s) socket (pc_rx_off conf) (0, 0) then Inl ''rte_eth_rx_queue_setup''
         else if \<not> se_txq E portid 0 (l2s_txd s) socket (pc_tx_off conf) then Inl ''rte_eth_tx_queue_setup''
         else if \<not> l2e_buffer E portid then Inl ''Cannot allocate buffer for tx''
         else if \<not> l2e_callback E portid then Inl ''Cannot set error callback for tx buffer''
         else if \<not> l2e_start E portid then Inl ''rte_eth_dev_start''
         else if l2_promiscuous_on c \<and> \<not> l2e_promiscuous E portid then Inl ''rte_eth_promiscuous_enable''
         else Inr s3)"

definition l2_init_port :: "l2_env \<Rightarrow> l2_cfg \<Rightarrow> nat \<Rightarrow> l2_state \<Rightarrow> string + l2_state" where
  "l2_init_port E c portid s =
     (if \<not> in_mask (l2_port_mask c) portid then Inr s
      else case l2_configure E portid (s\<lparr>l2s_available := l2s_available s + 1\<rparr>) of
             Inl e \<Rightarrow> Inl e
           | Inr (conf, s1) \<Rightarrow> l2_start_port E c portid conf s1)"

definition l2_init_ports :: "l2_env \<Rightarrow> l2_cfg \<Rightarrow> string + l2_state" where
  "l2_init_ports E c =
     (case foldM (l2_init_port E c) (se_ports E)
             \<lparr>l2s_rxd = L2_DESC_DEFAULT, l2s_txd = L2_DESC_DEFAULT, l2s_macs = (\<lambda>_. replicate 6 0), l2s_buffers = {},
              l2s_started = {}, l2s_trace = [], l2s_available = 0\<rparr> of
        Inl e \<Rightarrow> Inl e
      | Inr s \<Rightarrow> if l2s_available s = 0 then Inl ''All available ports are disabled. Please set portmask.'' else Inr s)"

text \<open>\<open>main\<close> up to the launch of the lcores: the configuration, with the timer in cycles, the
  destination ports, the ports of each lcore and the devices.\<close>

definition l2_main_setup :: "l2_env \<Rightarrow> l2_opt list
    \<Rightarrow> string + l2_cfg \<times> (nat \<Rightarrow> u32) \<times> (nat \<Rightarrow> nat list) \<times> l2_state" where
  "l2_main_setup E opts =
     (case l2fwd_parse_args E opts l2_init_cfg of
        Inl _ \<Rightarrow> Inl ''Invalid L2FWD arguments''
      | Inr c0 \<Rightarrow>
     (case l2_dst_setup E (c0\<lparr>l2_timer_period := l2_timer_period c0 * l2e_hz E\<rparr>) of
        Inl e \<Rightarrow> Inl e
      | Inr (c, dst) \<Rightarrow>
     (case l2_assign_ports E c of
        Inl e \<Rightarrow> Inl e
      | Inr a \<Rightarrow>
          if \<not> l2e_pool E (l2_nb_mbufs E (l2a_nb_lcores a)) then Inl ''Cannot init mbuf pool''
          else case l2_init_ports E c of
                 Inl e \<Rightarrow> Inl e
               | Inr s \<Rightarrow> Inr (c, dst, l2a_conf a, s))))"

text \<open>The wait for the links.\<close>

definition l2_check_all_ports_link_status :: "link_world \<Rightarrow> l2_env \<Rightarrow> l2_cfg \<Rightarrow> bool \<times> link_state" where
  "l2_check_all_ports_link_status W E c = check_all_ports_link_status W (l2_port_mask c) (se_ports E)"

section \<open>What the library promises\<close>

text \<open>The ports of \<open>RTE_ETH_FOREACH_DEV\<close> are the valid ones, each once and below
  \<open>RTE_MAX_ETHPORTS\<close>, which is at most 32 in a program that keeps a port mask in 32 bits; an enabled
  lcore is below \<open>RTE_MAX_LCORE\<close>; an Ethernet address has six bytes.\<close>

definition l2_env_ok :: "l2_env \<Rightarrow> bool" where
  "l2_env_ok E \<longleftrightarrow> distinct (se_ports E) \<and> l2e_max_ethports E \<le> 32
     \<and> (\<forall>p \<in> set (se_ports E). p < l2e_max_ethports E)
     \<and> (\<forall>p. se_valid_port E p \<longleftrightarrow> p \<in> set (se_ports E))
     \<and> (\<forall>l. se_lcore_enabled E l \<longrightarrow> l < se_max_lcore E)
     \<and> (\<forall>p mac. se_mac E p = Some mac \<longrightarrow> length mac = 6)"

section \<open>What the options can be\<close>

lemma l2_int_fld_bound: "l2_int_fld M ss = Some vs \<Longrightarrow> length vs = length ss \<and> (\<forall>v \<in> set vs. v < M)"
  by (induction ss arbitrary: vs) (auto simp: Let_def split: if_splits option.splits)

lemma l2_pair_entry_bound:
  assumes "l2_pair_entry E p0 = Some (Some ((a, b), p1))"
  shows "unat a < l2e_max_ethports E \<and> unat b < l2e_max_ethports E"
proof -
  from assms obtain ss vs where s: "length ss = 2" "l2_int_fld (l2e_max_ethports E) ss = Some vs"
      and ab: "a = of_nat (vs ! 0)" "b = of_nat (vs ! 1)"
    by (auto simp: l2_pair_entry_def Let_def split: option.splits if_splits)
  have "vs ! 0 \<in> set vs" "vs ! 1 \<in> set vs" using l2_int_fld_bound [OF s(2)] s(1) by simp_all
  then show ?thesis using l2_int_fld_bound [OF s(2)] of_nat_le(1) le_less_trans unfolding ab by blast
qed

definition l2_pairs_ok :: "l2_env \<Rightarrow> (u16 \<times> u16) list \<Rightarrow> bool" where
  "l2_pairs_ok E prs \<longleftrightarrow> length prs \<le> l2e_max_ethports E div 2
     \<and> (\<forall>(a, b) \<in> set prs. unat a < l2e_max_ethports E \<and> unat b < l2e_max_ethports E)"

lemma l2_pair_loop_ok: "l2_pairs_ok E arr \<Longrightarrow> l2_pairs_ok E (snd (l2_pair_loop E arr p0))"
proof (induction E arr p0 rule: l2_pair_loop.induct)
  case (1 E arr p0)
  show ?case
  proof (cases "l2_pair_entry E p0")
    case None
    then show ?thesis using 1(2) by (simp add: l2_pair_loop.simps [of E arr p0])
  next
    case (Some r)
    show ?thesis
    proof (cases r)
      case None
      then show ?thesis using 1(2) Some by (simp add: l2_pair_loop.simps [of E arr p0])
    next
      case s: (Some ab)
      obtain a b p1 where ab: "ab = ((a, b), p1)" by (metis prod.exhaust)
      show ?thesis
      proof (cases "l2e_max_ethports E div 2 \<le> length arr")
        case True
        then show ?thesis using 1(2) Some s by (simp add: l2_pair_loop.simps [of E arr p0] ab)
      next
        case False
        have "l2_pairs_ok E (arr @ [(a, b)])"
          using 1(2) False l2_pair_entry_bound [of E p0 a b p1] Some s by (auto simp: l2_pairs_ok_def ab)
        then show ?thesis
          using 1(1) [OF Some s ab [symmetric] False] Some s False by (simp add: l2_pair_loop.simps [of E arr p0] ab)
      qed
    qed
  qed
qed

definition l2_cfg_ok :: "l2_env \<Rightarrow> l2_cfg \<Rightarrow> bool" where
  "l2_cfg_ok E c \<longleftrightarrow> 1 \<le> l2_queue_per_lcore c \<and> l2_queue_per_lcore c < L2_MAX_RX_QUEUE_PER_LCORE \<and> l2_pairs_ok E (l2_pairs c)"

lemma l2_parse_opt_ok:
  assumes "l2_parse_opt E x c = Inr c'" and "l2_cfg_ok E c"
  shows "l2_cfg_ok E c'"
proof (cases x)
  case (L2_q arg)
  have "l2fwd_parse_nqueue arg < L2_MAX_RX_QUEUE_PER_LCORE"
    by (simp add: l2fwd_parse_nqueue_def Let_def L2_MAX_RX_QUEUE_PER_LCORE_def)
  then show ?thesis using assms L2_q by (auto simp: l2_cfg_ok_def Let_def split: if_splits)
next
  case (L2_portmap arg)
  have "l2_pairs_ok E (snd (l2_pair_loop E [] arg))"
    by (rule l2_pair_loop_ok) (simp add: l2_pairs_ok_def)
  then show ?thesis using assms L2_portmap
    by (auto simp: l2_cfg_ok_def l2fwd_parse_port_pair_config_def case_prod_beta Let_def split: if_splits)
qed (use assms in \<open>auto simp: l2_cfg_ok_def Let_def split: if_splits\<close>)

lemma l2_parse_args_ok:
  assumes "l2fwd_parse_args E opts l2_init_cfg = Inr c"
  shows "l2_cfg_ok E c"
  using assms unfolding l2fwd_parse_args_def
proof (rule foldM_inv [where I = "l2_cfg_ok E"])
  show "l2_cfg_ok E (l2_init_cfg\<lparr>l2_portmap := False\<rparr>)"
    by (simp add: l2_cfg_ok_def l2_init_cfg_def L2_MAX_RX_QUEUE_PER_LCORE_def l2_pairs_ok_def)
qed (rule l2_parse_opt_ok)

section \<open>The destination ports pair the enabled ports\<close>

lemma bit_shl1: "n < 32 \<Longrightarrow> bit (shl1 p) n \<longleftrightarrow> n = p mod 32"
  by (auto simp: shl1_def bit_simps)

definition pair_ports :: "u16 \<times> u16 \<Rightarrow> nat set" where
  "pair_ports pr = {unat (fst pr), unat (snd pr)}"

lemma l2_check_pair_ok:
  "l2_check_pair E m pr cm = Inr cm' \<longleftrightarrow>
     (\<forall>p \<in> pair_ports pr. in_mask m p \<and> se_valid_port E p)
     \<and> cm AND (shl1 (unat (fst pr)) OR shl1 (unat (snd pr))) = 0
     \<and> cm' = cm OR (shl1 (unat (fst pr)) OR shl1 (unat (snd pr)))"
  by (auto simp: l2_check_pair_def l2_pair_port_def pair_ports_def)

lemma pair_mask_zero:
  assumes "unat (fst pr) < 32" "unat (snd pr) < 32"
  shows "cm AND (shl1 (unat (fst pr)) OR shl1 (unat (snd pr))) = 0 \<longleftrightarrow> (\<forall>p \<in> pair_ports pr. \<not> bit cm p)"
proof
  assume z: "cm AND (shl1 (unat (fst pr)) OR shl1 (unat (snd pr))) = 0"
  have "bit cm p = False" if p: "p \<in> pair_ports pr" for p
  proof -
    have "\<not> bit (cm AND (shl1 (unat (fst pr)) OR shl1 (unat (snd pr)))) p" by (simp add: z)
    moreover have "p < 32" using p assms by (auto simp: pair_ports_def)
    ultimately show ?thesis using p assms by (auto simp: bit_simps bit_shl1 pair_ports_def)
  qed
  then show "\<forall>p \<in> pair_ports pr. \<not> bit cm p" by simp
next
  assume "\<forall>p \<in> pair_ports pr. \<not> bit cm p"
  then show "cm AND (shl1 (unat (fst pr)) OR shl1 (unat (snd pr))) = 0"
    using assms by (intro bit_word_eqI) (auto simp: bit_simps bit_shl1 pair_ports_def)
qed

lemma l2_check_pairs_ok:
  assumes "foldM (l2_check_pair E m) prs cm = Inr cm'"
    and "\<forall>pr \<in> set prs. unat (fst pr) < 32 \<and> unat (snd pr) < 32"
  shows "(\<forall>pr \<in> set prs. \<forall>p \<in> pair_ports pr. in_mask m p \<and> se_valid_port E p \<and> \<not> bit cm p)
    \<and> sorted_wrt (\<lambda>x y. pair_ports x \<inter> pair_ports y = {}) prs
    \<and> (\<forall>n < 32. bit cm' n \<longleftrightarrow> bit cm n \<or> (\<exists>pr \<in> set prs. n \<in> pair_ports pr))"
  using assms
proof (induction prs arbitrary: cm)
  case Nil
  then show ?case by simp
next
  case (Cons pr prs)
  obtain c1 where c1: "l2_check_pair E m pr cm = Inr c1" and r: "foldM (l2_check_pair E m) prs c1 = Inr cm'"
    using Cons.prems(1) unfolding foldM_Cons_Inr by blast
  have lt: "unat (fst pr) < 32" "unat (snd pr) < 32" using Cons.prems(2) by simp_all
  have e: "\<forall>p \<in> pair_ports pr. in_mask m p \<and> se_valid_port E p" "\<forall>p \<in> pair_ports pr. \<not> bit cm p"
      "c1 = cm OR (shl1 (unat (fst pr)) OR shl1 (unat (snd pr)))"
    using c1 unfolding l2_check_pair_ok pair_mask_zero [OF lt] by simp_all
  have b: "bit c1 n \<longleftrightarrow> bit cm n \<or> n \<in> pair_ports pr" if "n < 32" for n
    using lt that by (auto simp: e(3) bit_simps bit_shl1 pair_ports_def)
  have ih: "\<forall>pr \<in> set prs. \<forall>p \<in> pair_ports pr. in_mask m p \<and> se_valid_port E p \<and> \<not> bit c1 p"
      "sorted_wrt (\<lambda>x y. pair_ports x \<inter> pair_ports y = {}) prs"
      "\<forall>n < 32. bit cm' n \<longleftrightarrow> bit c1 n \<or> (\<exists>pr \<in> set prs. n \<in> pair_ports pr)"
    using Cons.IH [OF r] Cons.prems(2) by simp_all
  have "p < 32" if "q \<in> set prs" "p \<in> pair_ports q" for p q
    using Cons.prems(2) that by (auto simp: pair_ports_def)
  then show ?case using ih e(1,2) b by auto
qed

text \<open>The two ends of every pair point to each other.\<close>

lemma l2_dst_of_pairs_ends:
  assumes "sorted_wrt (\<lambda>x y. pair_ports x \<inter> pair_ports y = {}) prs" and "i < length prs"
  shows "l2_dst_of_pairs prs d (unat (fst (prs ! i))) = ucast (snd (prs ! i))
    \<and> l2_dst_of_pairs prs d (unat (snd (prs ! i))) = ucast (fst (prs ! i))"
proof -
  have "\<forall>j < n. fold (l2_dst_step prs) [0..<2 * n] d (unat (fst (prs ! j))) = ucast (snd (prs ! j))
      \<and> fold (l2_dst_step prs) [0..<2 * n] d (unat (snd (prs ! j))) = ucast (fst (prs ! j))"
    if "n \<le> length prs" for n
    using that
  proof (induction n)
    case (Suc n)
    let ?d = "fold (l2_dst_step prs) [0..<2 * n] d"
    let ?a = "fst (prs ! n)" and ?b = "snd (prs ! n)"
    have u: "[0..<2 * Suc n] = [0..<2 * n] @ [2 * n, 2 * n + 1]" by simp
    have s: "fold (l2_dst_step prs) [0..<2 * Suc n] d = ?d(unat ?a := ucast ?b, unat ?b := ucast ?a)"
      unfolding u by (simp add: l2_dst_step_def l2_pair_end_def)
    have "pair_ports (prs ! j) \<inter> pair_ports (prs ! n) = {}" if "j < n" for j
      using assms(1) that Suc.prems by (simp add: sorted_wrt_iff_nth_less)
    then have ne: "unat (fst (prs ! j)) \<noteq> unat ?a" "unat (fst (prs ! j)) \<noteq> unat ?b"
        "unat (snd (prs ! j)) \<noteq> unat ?a" "unat (snd (prs ! j)) \<noteq> unat ?b" if "j < n" for j
      using that unfolding pair_ports_def by fastforce+
    show ?case
    proof (intro allI impI)
      fix j assume "j < Suc n"
      show "fold (l2_dst_step prs) [0..<2 * Suc n] d (unat (fst (prs ! j))) = ucast (snd (prs ! j))
          \<and> fold (l2_dst_step prs) [0..<2 * Suc n] d (unat (snd (prs ! j))) = ucast (fst (prs ! j))"
      proof (cases "j = n")
        case True
        then show ?thesis unfolding s by (auto dest: word_unat_eq_iff [THEN iffD2])
      next
        case False
        then have "j < n" using \<open>j < Suc n\<close> by simp
        then show ?thesis using ne [of j] Suc unfolding s by simp
      qed
    qed
  qed simp
  from this [OF order_refl] assms(2) show ?thesis by (simp add: l2_dst_of_pairs_def)
qed

text \<open>By default the enabled ports are paired in their order, a last one without a partner with itself.\<close>

definition l2_default_end :: "(nat \<Rightarrow> u32) \<times> nat \<times> nat \<Rightarrow> (nat \<Rightarrow> u32)" where
  "l2_default_end st = (if snd (snd st) mod 2 \<noteq> 0 then (fst st)(fst (snd st) := of_nat (fst (snd st))) else fst st)"

lemma l2_default_filter:
  "fold (l2_default_step m) ps st = fold (l2_default_step m) (filter (in_mask m) ps) st"
  by (induction ps arbitrary: st) (simp_all add: l2_default_step_def case_prod_beta Let_def)

lemma l2_default_pairs:
  "distinct ps \<Longrightarrow> \<forall>p \<in> set ps. in_mask m p \<Longrightarrow> n mod 2 = 0 \<Longrightarrow>
   (\<forall>p \<in> set ps. \<exists>q \<in> set ps. l2_default_end (fold (l2_default_step m) ps (d, l, n)) p = of_nat q
      \<and> l2_default_end (fold (l2_default_step m) ps (d, l, n)) q = of_nat p)
   \<and> (\<forall>p. p \<notin> set ps \<longrightarrow> l2_default_end (fold (l2_default_step m) ps (d, l, n)) p = d p)"
proof (induction ps arbitrary: d l n rule: induct_list012)
  case 1
  then show ?case by (simp add: l2_default_end_def)
next
  case (2 x)
  have "Suc n mod 2 = 1" using 2(3) by presburger
  then show ?case using 2 by (simp add: l2_default_end_def l2_default_step_def)
next
  case (3 x y zs)
  have n: "Suc n mod 2 = 1" "Suc (Suc n) mod 2 = 0" using 3(5) by presburger+
  let ?d = "d(y := of_nat x, x := of_nat y)"
  have e: "fold (l2_default_step m) (x # y # zs) (d, l, n) = fold (l2_default_step m) zs (?d, x, Suc (Suc n))"
    using 3(4,5) n by (simp add: l2_default_step_def)
  have ih: "(\<forall>p \<in> set zs. \<exists>q \<in> set zs. l2_default_end (fold (l2_default_step m) zs (?d, x, Suc (Suc n))) p = of_nat q
        \<and> l2_default_end (fold (l2_default_step m) zs (?d, x, Suc (Suc n))) q = of_nat p)
      \<and> (\<forall>p. p \<notin> set zs \<longrightarrow> l2_default_end (fold (l2_default_step m) zs (?d, x, Suc (Suc n))) p = ?d p)"
    by (rule 3(1)) (use 3(3,4) n in auto)
  have "x \<notin> set zs" "y \<notin> set zs" "x \<noteq> y" using 3(3) by auto
  then show ?case unfolding e using ih by auto
qed

lemma l2_dst_default_pairs:
  assumes "distinct ports" and "p \<in> set ports" and "in_mask m p"
  shows "\<exists>q \<in> set ports. in_mask m q \<and> l2_dst_default m ports d p = of_nat q \<and> l2_dst_default m ports d q = of_nat p"
proof -
  have "l2_dst_default m ports d = l2_default_end (fold (l2_default_step m) (filter (in_mask m) ports) (d, 0, 0))"
    by (simp add: l2_dst_default_def l2_default_end_def case_prod_beta Let_def
          flip: l2_default_filter [of m ports "(d, 0, 0)"])
  moreover have "distinct (filter (in_mask m) ports)" "p \<in> set (filter (in_mask m) ports)"
      "\<forall>p \<in> set (filter (in_mask m) ports). in_mask m p"
    using assms by simp_all
  ultimately obtain q where "q \<in> set (filter (in_mask m) ports)"
      "l2_dst_default m ports d p = of_nat q" "l2_dst_default m ports d q = of_nat p"
    using conjunct1 [OF l2_default_pairs [of "filter (in_mask m) ports" m 0 d 0]] by (metis mod_0)
  then show ?thesis by (simp only: set_filter mem_Collect_eq) blast
qed

text \<open>The ports the forwarder uses.\<close>

abbreviation l2_enabled :: "l2_env \<Rightarrow> l2_cfg \<Rightarrow> nat list" where
  "l2_enabled E c \<equiv> filter (in_mask (l2_port_mask c)) (se_ports E)"

lemma l2_dst_setup_pairs:
  assumes "l2_env_ok E" and "l2_cfg_ok E c0" and "l2_dst_setup E c0 = Inr (c, dst)" and "p \<in> set (l2_enabled E c)"
  shows "\<exists>q \<in> set (l2_enabled E c). dst p = of_nat q \<and> dst q = of_nat p"
proof (cases "l2_portmap c0")
  case False
  then have c: "c0 = c" and d: "dst = l2_dst_default (l2_port_mask c) (se_ports E) (\<lambda>_. 0)"
    using assms(3) by (auto simp: l2_dst_setup_def Let_def split: if_splits)
  obtain q where "q \<in> set (se_ports E)" "in_mask (l2_port_mask c) q" "dst p = of_nat q" "dst q = of_nat p"
    using l2_dst_default_pairs [of "se_ports E" p "l2_port_mask c" "\<lambda>_. 0"] assms(1,4) unfolding d
    by (auto simp: l2_env_ok_def)
  then show ?thesis by auto
next
  case True
  let ?prs = "l2_pairs c0"
  obtain cm where f: "foldM (l2_check_pair E (l2_port_mask c0)) ?prs 0 = Inr cm"
      and c: "c = c0\<lparr>l2_port_mask := l2_port_mask c0 AND cm\<rparr>" and d: "dst = l2_dst_of_pairs ?prs (\<lambda>_. 0)"
    using assms(3) True
    by (auto simp: l2_dst_setup_def check_port_pair_config_def Let_def split: if_splits sum.splits)
  have "unat (fst pr) < 32 \<and> unat (snd pr) < 32" if "pr \<in> set ?prs" for pr
  proof -
    have "unat (fst pr) < l2e_max_ethports E \<and> unat (snd pr) < l2e_max_ethports E"
      using assms(2) that by (cases pr) (auto simp: l2_cfg_ok_def l2_pairs_ok_def)
    then show ?thesis using assms(1) by (simp add: l2_env_ok_def)
  qed
  then have lt: "\<forall>pr \<in> set ?prs. unat (fst pr) < 32 \<and> unat (snd pr) < 32" by blast
  have ok: "\<forall>pr \<in> set ?prs. \<forall>p \<in> pair_ports pr. in_mask (l2_port_mask c0) p \<and> se_valid_port E p"
      "sorted_wrt (\<lambda>x y. pair_ports x \<inter> pair_ports y = {}) ?prs"
      "\<forall>n < 32. bit cm n \<longleftrightarrow> (\<exists>pr \<in> set ?prs. n \<in> pair_ports pr)"
    using l2_check_pairs_ok [OF f lt] by simp_all
  have mask: "in_mask (l2_port_mask c) q \<longleftrightarrow> (\<exists>pr \<in> set ?prs. q \<in> pair_ports pr)" if "q < 32" for q
  proof -
    have "in_mask (l2_port_mask c) q \<longleftrightarrow> in_mask (l2_port_mask c0) q \<and> bit cm q"
      using that by (simp add: in_mask_bit c bit_simps)
    then show ?thesis using ok(1,3) that by blast
  qed
  have p: "p < 32" "in_mask (l2_port_mask c) p" using assms(1,4) by (auto simp: l2_env_ok_def)
  obtain i where i: "i < length ?prs" "p \<in> pair_ports (?prs ! i)"
    using mask [OF p(1)] p(2) by (auto simp: in_set_conv_nth)
  let ?a = "unat (fst (?prs ! i))" and ?b = "unat (snd (?prs ! i))"
  have e: "dst ?a = of_nat ?b \<and> dst ?b = of_nat ?a"
    using l2_dst_of_pairs_ends [OF ok(2) i(1), of "\<lambda>_. 0"] unfolding d by simp
  have "q \<in> set (l2_enabled E c)" if "q \<in> pair_ports (?prs ! i)" for q
  proof -
    have "q < 32" using lt nth_mem [OF i(1)] that by (auto simp: pair_ports_def)
    moreover have "se_valid_port E q" using ok(1) nth_mem [OF i(1)] that by blast
    ultimately show ?thesis using mask [of q] nth_mem [OF i(1)] that assms(1) by (auto simp: l2_env_ok_def)
  qed
  then have "?a \<in> set (l2_enabled E c)" "?b \<in> set (l2_enabled E c)" by (auto simp: pair_ports_def)
  moreover have "p = ?a \<or> p = ?b" using i(2) by (auto simp: pair_ports_def)
  ultimately show ?thesis using e by blast
qed

section \<open>Every enabled port has one lcore\<close>

lemma l2_next_lcore_ok:
  "l2_next_lcore E n conf r = Some l \<Longrightarrow> r \<le> l \<and> se_lcore_enabled E l \<and> length (conf l) \<noteq> n"
proof (induction E n conf r rule: l2_next_lcore.induct)
  case (1 E n conf r)
  show ?case
  proof (cases "\<not> se_lcore_enabled E r \<or> length (conf r) = n")
    case True
    then have "\<not> se_max_lcore E \<le> r + 1" "l2_next_lcore E n conf (r + 1) = Some l"
      using 1(2) by (auto simp: l2_next_lcore.simps [of E n conf r] split: if_splits)
    then show ?thesis using 1(1) [OF True] by auto
  next
    case False
    then show ?thesis using 1(2) by (simp add: l2_next_lcore.simps [of E n conf r])
  qed
qed

lemma concat_map_upd:
  assumes "l < n" and "\<And>k. l < k \<Longrightarrow> f k = []"
  shows "concat (map (f(l := f l @ [x])) [0..<n]) = concat (map f [0..<n]) @ [x]"
proof -
  have u: "[0..<n] = [0..<l] @ l # [Suc l..<n]"
    using assms(1) upt_add_eq_append [of 0 l "n - l"] upt_conv_Cons [of l n] by simp
  have z: "concat (map f [Suc l..<n]) = []" using assms(2) by simp
  show ?thesis unfolding u by (simp add: z)
qed

text \<open>After the ports \<open>ys\<close>: they are shared out to the lcores up to \<open>l2a_lcore\<close>.\<close>

definition l2_assigned :: "l2_env \<Rightarrow> l2_cfg \<Rightarrow> nat list \<Rightarrow> l2_assign \<Rightarrow> bool" where
  "l2_assigned E c ys s \<longleftrightarrow> concat (map (l2a_conf s) [0..<se_max_lcore E]) = filter (in_mask (l2_port_mask c)) ys
     \<and> (\<forall>k. l2a_lcore s < k \<longrightarrow> l2a_conf s k = [])
     \<and> (\<forall>k. length (l2a_conf s k) \<le> l2_queue_per_lcore c \<and> (l2a_conf s k \<noteq> [] \<longrightarrow> se_lcore_enabled E k))"

lemma l2_assign_port_ok:
  assumes "l2_assigned E c ys s" and "l2_assign_port E c p s = Inr t" and "\<And>l. se_lcore_enabled E l \<Longrightarrow> l < se_max_lcore E"
  shows "l2_assigned E c (ys @ [p]) t"
proof (cases "in_mask (l2_port_mask c) p")
  case False
  then show ?thesis using assms(1,2) by (simp add: l2_assign_port_def l2_assigned_def)
next
  case True
  then obtain l where l: "l2_next_lcore E (l2_queue_per_lcore c) (l2a_conf s) (l2a_lcore s) = Some l"
      and t: "l2a_conf t = (l2a_conf s)(l := l2a_conf s l @ [p])" "l2a_lcore t = l"
    using assms(2) by (auto simp: l2_assign_port_def Let_def split: option.splits)
  note ok = l2_next_lcore_ok [OF l]
  have e: "l2a_conf s k = []" if "l < k" for k using that ok assms(1) by (simp add: l2_assigned_def)
  have lt: "l < se_max_lcore E" using ok assms(3) by blast
  have "length (l2a_conf s l) < l2_queue_per_lcore c" using ok assms(1) by (simp add: l2_assigned_def nat_less_le)
  moreover have "concat (map ((l2a_conf s)(l := l2a_conf s l @ [p])) [0..<se_max_lcore E])
      = concat (map (l2a_conf s) [0..<se_max_lcore E]) @ [p]"
    by (rule concat_map_upd [OF lt e])
  ultimately show ?thesis using assms(1) True ok e by (simp add: l2_assigned_def t del: map_fun_upd)
qed

lemma l2_assign_ports_ok:
  assumes "l2_assign_ports E c = Inr a" and "l2_env_ok E"
  shows "l2_assigned E c (se_ports E) a"
  using assms(1) unfolding l2_assign_ports_def
proof (rule foldM_passes [where P = "l2_assigned E c"])
  fix ys y zs s t
  assume "l2_assigned E c ys s" and "l2_assign_port E c y s = Inr t"
  then show "l2_assigned E c (ys @ [y]) t"
    using l2_assign_port_ok assms(2) unfolding l2_env_ok_def by blast
qed (simp add: l2_assigned_def)

lemma distinct_concat_lists:
  assumes "distinct (concat (map f [0..<n]))" and "x \<in> set (f i)" "x \<in> set (f j)" and "i < n" "j < n"
  shows "i = j"
proof (rule ccontr)
  assume "i \<noteq> j"
  moreover have False if "i' < j'" "j' < n" "x \<in> set (f i')" "x \<in> set (f j')" for i' j'
  proof -
    have u: "[0..<n] = [0..<j'] @ j' # [Suc j'..<n]"
      using that(2) upt_add_eq_append [of 0 j' "n - j'"] upt_conv_Cons [of j' n] by simp
    have "set (concat (map f [0..<j'])) \<inter> set (f j') = {}" using assms(1) unfolding u by auto
    moreover have "x \<in> set (concat (map f [0..<j']))" using that(1,3) by auto
    ultimately show False using that(4) by blast
  qed
  ultimately show False using assms(2-5) by (metis nat_neq_iff)
qed

section \<open>Every buffer that is used exists\<close>

definition l2_inited :: "l2_env \<Rightarrow> l2_cfg \<Rightarrow> nat list \<Rightarrow> l2_state \<Rightarrow> bool" where
  "l2_inited E c ys s \<longleftrightarrow> l2s_buffers s = {p \<in> set ys. in_mask (l2_port_mask c) p} \<and> l2s_started s = l2s_buffers s
     \<and> (\<forall>p \<in> l2s_buffers s. length (l2s_macs s p) = 6 \<and> Some (l2s_macs s p) = se_mac E p)
     \<and> l2s_available s = length (filter (in_mask (l2_port_mask c)) ys)"

lemma l2_configure_effect:
  assumes "l2_configure E p s = Inr (conf, t)"
  obtains mac where "se_mac E p = Some mac" and "l2s_macs t = (l2s_macs s)(p := mac)"
    and "l2s_buffers t = l2s_buffers s" and "l2s_started t = l2s_started s" and "l2s_available t = l2s_available s"
  using assms that by (auto simp: l2_configure_def Let_def split: option.splits if_splits prod.splits)

lemma l2_start_port_effect:
  assumes "l2_start_port E c p conf s = Inr t"
  shows "l2s_macs t = l2s_macs s \<and> l2s_buffers t = insert p (l2s_buffers s)
    \<and> l2s_started t = insert p (l2s_started s) \<and> l2s_available t = l2s_available s"
  using assms by (auto simp: l2_start_port_def Let_def split: if_splits)

lemma l2_init_port_ok:
  assumes "l2_inited E c ys s" and "l2_init_port E c p s = Inr t" and "\<And>p mac. se_mac E p = Some mac \<Longrightarrow> length mac = 6"
  shows "l2_inited E c (ys @ [p]) t"
proof (cases "in_mask (l2_port_mask c) p")
  case False
  then show ?thesis using assms(1,2) by (auto simp: l2_init_port_def l2_inited_def)
next
  case True
  then obtain conf s1 where 1: "l2_configure E p (s\<lparr>l2s_available := l2s_available s + 1\<rparr>) = Inr (conf, s1)"
      and t: "l2_start_port E c p conf s1 = Inr t"
    using assms(2) by (auto simp: l2_init_port_def split: sum.splits prod.splits)
  obtain mac where "se_mac E p = Some mac" "l2s_macs s1 = (l2s_macs s)(p := mac)" "l2s_buffers s1 = l2s_buffers s"
      "l2s_started s1 = l2s_started s" "l2s_available s1 = l2s_available s + 1"
    using l2_configure_effect [OF 1] by auto
  then show ?thesis using l2_start_port_effect [OF t] assms(1) assms(3) True by (auto simp: l2_inited_def)
qed

lemma l2_init_ports_ok:
  assumes "l2_init_ports E c = Inr s" and "l2_env_ok E"
  shows "l2_inited E c (se_ports E) s \<and> 0 < l2s_available s"
proof -
  let ?s0 = "\<lparr>l2s_rxd = L2_DESC_DEFAULT, l2s_txd = L2_DESC_DEFAULT, l2s_macs = (\<lambda>_. replicate 6 0), l2s_buffers = {},
              l2s_started = {}, l2s_trace = [], l2s_available = 0\<rparr>"
  have f: "foldM (l2_init_port E c) (se_ports E) ?s0 = Inr s" and "0 < l2s_available s"
    using assms(1) by (auto simp: l2_init_ports_def split: sum.splits if_splits)
  moreover have "l2_inited E c (se_ports E) s"
    using f
  proof (rule foldM_passes [where P = "l2_inited E c"])
    fix ys y zs s t
    assume "l2_inited E c ys s" and "l2_init_port E c y s = Inr t"
    then show "l2_inited E c (ys @ [y]) t"
      using l2_init_port_ok assms(2) unfolding l2_env_ok_def by blast
  qed (simp add: l2_inited_def)
  ultimately show ?thesis by simp
qed

section \<open>One writer for every transmit buffer\<close>

lemma l2_setup_steps:
  assumes "l2_main_setup E opts = Inr (c, dst, conf, s)" and "l2_env_ok E"
  obtains c0 a where "l2_cfg_ok E c0" and "l2_dst_setup E c0 = Inr (c, dst)" and "l2_assigned E c (se_ports E) a"
    and "conf = l2a_conf a" and "l2_inited E c (se_ports E) s"
proof -
  obtain c1 a where 1: "l2fwd_parse_args E opts l2_init_cfg = Inr c1"
      and 2: "l2_dst_setup E (c1\<lparr>l2_timer_period := l2_timer_period c1 * l2e_hz E\<rparr>) = Inr (c, dst)"
      and 3: "l2_assign_ports E c = Inr a" and 4: "conf = l2a_conf a" and 5: "l2_init_ports E c = Inr s"
    using assms(1) by (auto simp: l2_main_setup_def split: sum.splits if_splits prod.splits)
  have "l2_cfg_ok E (c1\<lparr>l2_timer_period := l2_timer_period c1 * l2e_hz E\<rparr>)"
    using l2_parse_args_ok [OF 1] by (simp add: l2_cfg_ok_def)
  from that [OF this 2 l2_assign_ports_ok [OF 3 assms(2)] 4] show thesis
    using l2_init_ports_ok [OF 5 assms(2)] by blast
qed

lemma l2_dst_setup_keeps:
  "l2_dst_setup E c0 = Inr (c, dst) \<Longrightarrow> l2_queue_per_lcore c = l2_queue_per_lcore c0"
  by (auto simp: l2_dst_setup_def check_port_pair_config_def Let_def split: if_splits sum.splits)

lemma l2_setup_facts:
  assumes "l2_main_setup E opts = Inr (c, dst, conf, s)" and "l2_env_ok E"
  shows "\<forall>p \<in> set (l2_enabled E c). \<exists>q \<in> set (l2_enabled E c). dst p = of_nat q \<and> dst q = of_nat p"
    and "concat (map conf [0..<se_max_lcore E]) = l2_enabled E c"
    and "\<And>l. length (conf l) < L2_MAX_RX_QUEUE_PER_LCORE"
    and "\<And>l l' p p'. p \<in> set (conf l) \<Longrightarrow> p' \<in> set (conf l') \<Longrightarrow> dst p = dst p' \<Longrightarrow> l = l' \<and> p = p'"
    and "\<And>p. p \<in> set (l2_enabled E c) \<Longrightarrow> unat (dst p) \<in> set (l2_enabled E c) \<and> dst (unat (dst p)) = of_nat p"
    and "\<And>l p. p \<in> set (conf l) \<Longrightarrow> l < se_max_lcore E \<and> p \<in> set (l2_enabled E c)"
    and "\<And>p. p \<in> set (l2_enabled E c) \<Longrightarrow> p \<in> l2s_buffers s \<inter> l2s_started s \<and> se_mac E p = Some (l2s_macs s p)"
proof -
  obtain c0 a where c0: "l2_cfg_ok E c0" and d: "l2_dst_setup E c0 = Inr (c, dst)"
      and a: "l2_assigned E c (se_ports E) a" and conf: "conf = l2a_conf a" and s: "l2_inited E c (se_ports E) s"
    using l2_setup_steps [OF assms] .
  let ?ps = "l2_enabled E c"
  have pair: "\<exists>q \<in> set ?ps. dst p = of_nat q \<and> dst q = of_nat p" if "p \<in> set ?ps" for p
    using l2_dst_setup_pairs [OF assms(2) c0 d that] .
  have all: "concat (map conf [0..<se_max_lcore E]) = ?ps" using a by (simp add: l2_assigned_def conf)
  have small: "p < 2 ^ 32" if "p \<in> set ?ps" for p
    using assms(2) that by (fastforce simp: l2_env_ok_def)
  have len: "length (conf l) < L2_MAX_RX_QUEUE_PER_LCORE" for l
  proof -
    have "length (conf l) \<le> l2_queue_per_lcore c" using a by (simp add: l2_assigned_def conf)
    then show ?thesis using c0 l2_dst_setup_keeps [OF d] by (simp add: l2_cfg_ok_def)
  qed
  have on: "l < se_max_lcore E \<and> p \<in> set ?ps" if "p \<in> set (conf l)" for l p
  proof -
    have "conf l \<noteq> []" using that by auto
    then have "se_lcore_enabled E l" using a by (simp add: l2_assigned_def conf)
    then have "l < se_max_lcore E" using assms(2) by (simp add: l2_env_ok_def)
    then show ?thesis using that unfolding all [symmetric] by auto
  qed
  have un: "unat (dst p) \<in> set ?ps \<and> dst (unat (dst p)) = of_nat p" if "p \<in> set ?ps" for p
    using pair [OF that] small by (auto simp: unat_of_nat)
  have one: "l = l' \<and> p = p'" if "p \<in> set (conf l)" "p' \<in> set (conf l')" "dst p = dst p'" for l l' p p'
  proof -
    have p: "p \<in> set ?ps" "p' \<in> set ?ps" using on that by blast+
    have "(of_nat p :: u32) = of_nat p'" using un [OF p(1)] un [OF p(2)] that(3) by simp
    then have "unat (of_nat p :: u32) = unat (of_nat p' :: u32)" by simp
    then have "p = p'" using small [OF p(1)] small [OF p(2)] by (simp add: unat_of_nat)
    moreover have "distinct (concat (map conf [0..<se_max_lcore E]))"
      unfolding all using assms(2) by (simp add: l2_env_ok_def)
    ultimately show ?thesis using distinct_concat_lists [of conf "se_max_lcore E" p l l'] that on by blast
  qed
  show "\<forall>p \<in> set ?ps. \<exists>q \<in> set ?ps. dst p = of_nat q \<and> dst q = of_nat p"
    and "concat (map conf [0..<se_max_lcore E]) = ?ps"
    and "\<And>l. length (conf l) < L2_MAX_RX_QUEUE_PER_LCORE"
    using pair all len by blast+
  show "\<And>l l' p p'. p \<in> set (conf l) \<Longrightarrow> p' \<in> set (conf l') \<Longrightarrow> dst p = dst p' \<Longrightarrow> l = l' \<and> p = p'"
    by (rule one)
  show "\<And>p. p \<in> set ?ps \<Longrightarrow> unat (dst p) \<in> set ?ps \<and> dst (unat (dst p)) = of_nat p" by (rule un)
  show "\<And>l p. p \<in> set (conf l) \<Longrightarrow> l < se_max_lcore E \<and> p \<in> set ?ps" by (rule on)
  show "\<And>p. p \<in> set ?ps \<Longrightarrow> p \<in> l2s_buffers s \<inter> l2s_started s \<and> se_mac E p = Some (l2s_macs s p)"
    using s by (auto simp: l2_inited_def)
qed

text \<open>C18. After a successful start of the L2 forwarder the destination ports pair the enabled ports (with
  \<open>--portmap\<close> and without): the port that packets of \<open>p\<close> leave through is an enabled port \<open>q\<close>, and those of
  \<open>q\<close> leave through \<open>p\<close>. Every enabled port is polled by exactly one lcore, which has at most 15 ports. So no two lcores,
  and no two ports of one lcore, send through the same transmit buffer, and each buffer that is used
  belongs to a device that has been started and whose address is known.\<close>

theorem l2_setup_one_writer:
  assumes "l2_main_setup E opts = Inr (c, dst, conf, s)" and "l2_env_ok E"
  shows "(\<forall>p \<in> set (l2_enabled E c). \<exists>q \<in> set (l2_enabled E c). dst p = of_nat q \<and> dst q = of_nat p)
    \<and> concat (map conf [0..<se_max_lcore E]) = l2_enabled E c
    \<and> (\<forall>l. length (conf l) < L2_MAX_RX_QUEUE_PER_LCORE)
    \<and> (\<forall>l l' p p'. p \<in> set (conf l) \<and> p' \<in> set (conf l') \<and> dst p = dst p' \<longrightarrow> l = l' \<and> p = p')
    \<and> (\<forall>l. \<forall>p \<in> set (conf l). unat (dst p) \<in> l2s_buffers s \<inter> l2s_started s
         \<and> se_mac E (unat (dst p)) = Some (l2s_macs s (unat (dst p))))"
proof -
  note f = l2_setup_facts [OF assms]
  have "unat (dst p) \<in> l2s_buffers s \<inter> l2s_started s
      \<and> se_mac E (unat (dst p)) = Some (l2s_macs s (unat (dst p)))" if "p \<in> set (conf l)" for l p
    by (rule f(7) [OF conjunct1 [OF f(5) [OF conjunct2 [OF f(6) [OF that]]]]])
  then show ?thesis using f(1-3) f(4) by blast
qed

text \<open>A machine with four ports and four lcores, started with \<open>-p f\<close>.\<close>

definition l2_ex :: l2_env where
  "l2_ex = setup_env.extend setup_ex
     \<lparr>l2e_max_ethports = 32, l2e_strsplit = (\<lambda>s n c. []), l2e_hz = 2000000000, l2e_dev_socket = (\<lambda>_. 0),
      l2e_pool = (\<lambda>_. True), l2e_buffer = (\<lambda>_. True), l2e_callback = (\<lambda>_. True), l2e_start = (\<lambda>_. True),
      l2e_promiscuous = (\<lambda>_. True)\<rparr>"

definition l2_cfg_ex :: l2_cfg where
  "l2_cfg_ex = l2_init_cfg\<lparr>l2_port_mask := 0xf, l2_timer_period := 20000000000\<rparr>"

lemma l2_env_ok_ex: "l2_env_ok l2_ex"
  by (auto simp: l2_env_ok_def l2_ex_def setup_ex_def setup_env.defs)

lemma l2_parse_args_ex:
  "l2fwd_parse_args l2_ex [L2_p ''f''] l2_init_cfg = Inr (l2_init_cfg\<lparr>l2_port_mask := 0xf\<rparr>)"
  using parse_portmask_ex
  by (simp add: l2fwd_parse_args_def l2fwd_parse_portmask_def parse_portmask_def Let_def l2_init_cfg_def split: if_splits)

lemma l2_setup_ex_runs:
  "case l2_dst_setup l2_ex l2_cfg_ex of Inl e \<Rightarrow> False
   | Inr (c, dst) \<Rightarrow> (case l2_assign_ports l2_ex c of Inl e \<Rightarrow> False
     | Inr a \<Rightarrow> (case l2_init_ports l2_ex c of Inl e \<Rightarrow> False | Inr s \<Rightarrow> l2_enabled l2_ex c = [0, 1, 2, 3] \<and> dst 0 = 1))"
  by code_simp

lemma l2_setup_ex_result:
  obtains c dst conf s where "l2_main_setup l2_ex [L2_p ''f''] = Inr (c, dst, conf, s)"
    and "l2_enabled l2_ex c = [0, 1, 2, 3]" and "dst 0 = 1"
proof -
  have t: "l2_init_cfg\<lparr>l2_port_mask := 0xf, l2_timer_period := l2_timer_period l2_init_cfg * l2e_hz l2_ex\<rparr>
      = l2_cfg_ex"
    by (simp add: l2_cfg_ex_def l2_init_cfg_def l2_ex_def setup_env.defs)
  have pool: "l2e_pool l2_ex n" for n by (simp add: l2_ex_def setup_env.defs)
  obtain c dst where 1: "l2_dst_setup l2_ex l2_cfg_ex = Inr (c, dst)"
    using l2_setup_ex_runs by (cases "l2_dst_setup l2_ex l2_cfg_ex") auto
  note r = l2_setup_ex_runs [unfolded 1, simplified]
  obtain a where 2: "l2_assign_ports l2_ex c = Inr a" using r by (cases "l2_assign_ports l2_ex c") auto
  obtain s where 3: "l2_init_ports l2_ex c = Inr s" using r [unfolded 2] by (cases "l2_init_ports l2_ex c") auto
  have "l2_enabled l2_ex c = [0, 1, 2, 3]" "dst 0 = 1" using r [unfolded 2 3] by auto
  with that [of c dst "l2a_conf a" s] 1 2 3 show thesis
    by (simp add: l2_main_setup_def l2_parse_args_ex t pool)
qed

text \<open>Applied to that machine: the four ports go to the lcores in their order.\<close>

theorem l2_setup_one_writer_witness:
  "\<exists>c dst conf s. l2_main_setup l2_ex [L2_p ''f''] = Inr (c, dst, conf, s)
    \<and> concat (map conf [0..<8]) = [0, 1, 2, 3] \<and> length (conf 0) < 16"
proof -
  obtain c dst conf s where 1: "l2_main_setup l2_ex [L2_p ''f''] = Inr (c, dst, conf, s)"
      and 2: "l2_enabled l2_ex c = [0, 1, 2, 3]"
    by (rule l2_setup_ex_result)
  have m: "se_max_lcore l2_ex = 8" by (simp add: l2_ex_def setup_ex_def setup_env.defs)
  note t = l2_setup_one_writer [OF 1 l2_env_ok_ex, THEN conjunct2]
  have "concat (map conf [0..<8]) = [0, 1, 2, 3]" using t [THEN conjunct1] unfolding m 2 .
  moreover have "length (conf 0) < 16"
    using t [THEN conjunct2, THEN conjunct1, THEN spec, of 0] by (simp only: L2_MAX_RX_QUEUE_PER_LCORE_def)
  ultimately show ?thesis using 1 by (intro exI conjI)
qed

end
