(* ===== verification/L2_Forward.thy ===== *)
theory L2_Forward
  imports L2_Setup "HOL-Library.Sublist"
begin

text \<open>
  The loop of the L2 forwarder \<open>l2fwd/main.c\<close>: \<open>l2fwd_mac_updating\<close>, \<open>l2fwd_simple_forward\<close>,
  \<open>print_stats\<close> and \<open>l2fwd_main_loop\<close>. The transmit buffers are those of the library
  (\<open>rte_eth_tx_buffer\<close>), given by their documented effect. The lcores run at the same time, so the theorem is
  about any interleaving of the passes of all lcores over the shared buffers and
  statistics.
\<close>

section \<open>Transmit buffers of the library\<close>

text \<open>
  \<open>rte_eth_tx_buffer\<close> and \<open>rte_eth_tx_buffer_flush\<close> on queue 0 of a port, and what can be observed of
  a state \<open>'w\<close>: the packets of a port that wait in its buffer, that were sent, and that were given to the error
  callback, which frees and counts them.
\<close>

record 'w tx_api =
  ta_buffer :: "u32 \<Rightarrow> mbuf \<Rightarrow> 'w \<Rightarrow> nat \<times> 'w"
  ta_flush :: "u32 \<Rightarrow> 'w \<Rightarrow> nat \<times> 'w"
  ta_waiting :: "'w \<Rightarrow> nat \<Rightarrow> mbuf list"
  ta_wire :: "'w \<Rightarrow> nat \<Rightarrow> mbuf list"
  ta_lost :: "'w \<Rightarrow> nat \<Rightarrow> mbuf list"

text \<open>Sending \<open>ms\<close> takes the first \<open>k\<close> and gives the others to the callback.\<close>

definition ta_sends :: "'w tx_api \<Rightarrow> nat \<Rightarrow> mbuf list \<Rightarrow> 'w \<Rightarrow> nat \<Rightarrow> 'w \<Rightarrow> bool" where
  "ta_sends A p ms w k w' \<longleftrightarrow> k \<le> length ms \<and> ta_waiting A w' = (ta_waiting A w)(p := [])
     \<and> ta_wire A w' = (ta_wire A w)(p := ta_wire A w p @ take k ms)
     \<and> ta_lost A w' = (ta_lost A w)(p := ta_lost A w p @ drop k ms)"

text \<open>Documented: a packet is added to the buffer, and when the buffer is then full, all its packets are sent; a
  flush sends the packets there are.\<close>

definition tx_api_ok :: "nat \<Rightarrow> 'w tx_api \<Rightarrow> bool" where
  "tx_api_ok n A \<longleftrightarrow>
     (\<forall>p m w. if length (ta_waiting A w (unat p)) + 1 < n
        then fst (ta_buffer A p m w) = 0
          \<and> ta_waiting A (snd (ta_buffer A p m w)) = (ta_waiting A w)(unat p := ta_waiting A w (unat p) @ [m])
          \<and> ta_wire A (snd (ta_buffer A p m w)) = ta_wire A w \<and> ta_lost A (snd (ta_buffer A p m w)) = ta_lost A w
        else ta_sends A (unat p) (ta_waiting A w (unat p) @ [m]) w (fst (ta_buffer A p m w)) (snd (ta_buffer A p m w)))
     \<and> (\<forall>p w. ta_sends A (unat p) (ta_waiting A w (unat p)) w (fst (ta_flush A p w)) (snd (ta_flush A p w)))"

section \<open>One packet\<close>

definition l2fwd_mac_updating :: "(nat \<Rightarrow> u8 list) \<Rightarrow> mbuf \<Rightarrow> u32 \<Rightarrow> mbuf" where
  "l2fwd_mac_updating macs m dest_portid =
     (let d1 = stn (mb_data m) 0 (le64 (0x000000000002 + push_bit 40 (ucast dest_portid)));
          d2 = stn d1 6 (macs (unat dest_portid))
      in m\<lparr>mb_data := d2\<rparr>)"

text \<open>The state the lcores share: the buffers, the statistics of the ports and those of the last printing; and, for
  each lcore, \<open>prev_tsc\<close> and \<open>timer_tsc\<close>.\<close>

record 'w l2_run =
  l2r_world :: 'w
  l2r_tx :: "nat \<Rightarrow> u64"
  l2r_rx :: "nat \<Rightarrow> u64"
  l2r_last_tx :: u64
  l2r_last_rx :: u64
  l2r_printed :: "(u64 \<times> u64 \<times> u64) list"
  l2r_prev :: "nat \<Rightarrow> u64"
  l2r_timer :: "nat \<Rightarrow> u64"

text \<open>What an lcore uses: the configuration, \<open>l2fwd_dst_ports\<close>, \<open>l2fwd_ports_eth_addr\<close>, the ports of the lcores and
  the lcore that prints.\<close>

record l2_prog =
  l2p_cfg :: l2_cfg
  l2p_dst :: "nat \<Rightarrow> u32"
  l2p_macs :: "nat \<Rightarrow> u8 list"
  l2p_conf :: "nat \<Rightarrow> nat list"
  l2p_max_ethports :: nat
  l2p_main_lcore :: nat
  l2p_hz :: u64

definition l2_count_tx :: "u32 \<Rightarrow> nat \<Rightarrow> 'w l2_run \<Rightarrow> 'w l2_run" where
  "l2_count_tx port sent s =
     (if sent \<noteq> 0 then s\<lparr>l2r_tx := (l2r_tx s)(unat port := l2r_tx s (unat port) + of_nat sent)\<rparr> else s)"

definition l2fwd_simple_forward :: "'w tx_api \<Rightarrow> l2_prog \<Rightarrow> mbuf \<Rightarrow> nat \<Rightarrow> 'w l2_run \<Rightarrow> 'w l2_run" where
  "l2fwd_simple_forward A G m portid s =
     (let dst_port = l2p_dst G portid;
          m1 = (if l2_mac_updating (l2p_cfg G) then l2fwd_mac_updating (l2p_macs G) m dst_port else m);
          (sent, w) = ta_buffer A dst_port m1 (l2r_world s)
      in l2_count_tx dst_port sent (s\<lparr>l2r_world := w\<rparr>))"

section \<open>Statistics\<close>

text \<open>The totals over the enabled ports; the dropped packets are those the callback has counted. The rates
  printed are the differences to the last totals, divided by the elapsed time.\<close>

definition l2_total :: "l2_prog \<Rightarrow> (nat \<Rightarrow> u64) \<Rightarrow> u64" where
  "l2_total G f =
     fold (\<lambda>portid t. if in_mask (l2_port_mask (l2p_cfg G)) portid then t + f portid else t) [0..<l2p_max_ethports G] 0"

definition print_stats :: "'w tx_api \<Rightarrow> l2_prog \<Rightarrow> 'w l2_run \<Rightarrow> 'w l2_run" where
  "print_stats A G s =
     (let dropped = l2_total G (\<lambda>p. of_nat (length (ta_lost A (l2r_world s) p)));
          tx = l2_total G (l2r_tx s); rx = l2_total G (l2r_rx s)
      in s\<lparr>l2r_printed := l2r_printed s @ [(tx, rx, dropped)], l2r_last_tx := tx, l2r_last_rx := rx\<rparr>)"

section \<open>The loop\<close>

definition BURST_TX_DRAIN_CYCLES :: "u64 \<Rightarrow> u64" where
  "BURST_TX_DRAIN_CYCLES hz = (hz + US_PER_S - 1) div US_PER_S * 100"

definition l2_flush_port :: "'w tx_api \<Rightarrow> l2_prog \<Rightarrow> nat \<Rightarrow> 'w l2_run \<Rightarrow> 'w l2_run" where
  "l2_flush_port A G rx_port s =
     (let portid = l2p_dst G rx_port; (sent, w) = ta_flush A portid (l2r_world s)
      in l2_count_tx portid sent (s\<lparr>l2r_world := w\<rparr>))"

definition l2_timer_step :: "'w tx_api \<Rightarrow> l2_prog \<Rightarrow> nat \<Rightarrow> u64 \<Rightarrow> 'w l2_run \<Rightarrow> 'w l2_run" where
  "l2_timer_step A G lcore diff_tsc s =
     (let period = l2_timer_period (l2p_cfg G); timer = l2r_timer s lcore + diff_tsc;
          s1 = s\<lparr>l2r_timer := (l2r_timer s)(lcore := timer)\<rparr>
      in if 0 < period then
           if period \<le> timer \<and> lcore = l2p_main_lcore G
           then (print_stats A G s1)\<lparr>l2r_timer := (l2r_timer s1)(lcore := 0)\<rparr>
           else s1
         else s)"

definition l2_drain :: "'w tx_api \<Rightarrow> l2_prog \<Rightarrow> nat \<Rightarrow> u64 \<Rightarrow> 'w l2_run \<Rightarrow> 'w l2_run" where
  "l2_drain A G lcore cur_tsc s =
     (let diff_tsc = cur_tsc - l2r_prev s lcore
      in if BURST_TX_DRAIN_CYCLES (l2p_hz G) < diff_tsc then
           let s1 = fold (l2_flush_port A G) (l2p_conf G lcore) s; s2 = l2_timer_step A G lcore diff_tsc s1
           in s2\<lparr>l2r_prev := (l2r_prev s2)(lcore := cur_tsc)\<rparr>
         else s)"

definition l2_receive :: "'w tx_api \<Rightarrow> l2_prog \<Rightarrow> loop_in \<Rightarrow> nat \<times> nat \<Rightarrow> 'w l2_run \<Rightarrow> 'w l2_run" where
  "l2_receive A G i kp s =
     (let (k, portid) = kp; pkts_burst = in_rx i k; nb_rx = length pkts_burst
      in if nb_rx = 0 then s
         else fold (\<lambda>m. l2fwd_simple_forward A G m portid) pkts_burst
                (s\<lparr>l2r_rx := (l2r_rx s)(portid := l2r_rx s portid + of_nat nb_rx)\<rparr>))"

definition l2_pass :: "'w tx_api \<Rightarrow> l2_prog \<Rightarrow> nat \<Rightarrow> loop_in \<Rightarrow> 'w l2_run \<Rightarrow> 'w l2_run" where
  "l2_pass A G lcore i s =
     fold (l2_receive A G i) (enumerate 0 (l2p_conf G lcore)) (l2_drain A G lcore (in_tsc i) s)"

text \<open>The loop of one lcore until \<open>force_quit\<close>.\<close>

definition l2fwd_main_loop :: "'w tx_api \<Rightarrow> l2_prog \<Rightarrow> nat \<Rightarrow> loop_in list \<Rightarrow> 'w l2_run \<Rightarrow> 'w l2_run" where
  "l2fwd_main_loop A G lcore ins s =
     (if l2p_conf G lcore = [] then s else fold (l2_pass A G lcore) ins s)"

text \<open>All lcores: passes in any order, each by an lcore. An lcore without ports has left its loop.\<close>

definition l2_lcores_run :: "'w tx_api \<Rightarrow> l2_prog \<Rightarrow> (nat \<times> loop_in) list \<Rightarrow> 'w l2_run \<Rightarrow> 'w l2_run" where
  "l2_lcores_run A G sched s = fold (\<lambda>(lcore, i). l2fwd_main_loop A G lcore [i]) sched s"

text \<open>The state after \<open>main\<close> has cleared the statistics.\<close>

definition l2_run_init :: "'w \<Rightarrow> 'w l2_run" where
  "l2_run_init w = \<lparr>l2r_world = w, l2r_tx = (\<lambda>_. 0), l2r_rx = (\<lambda>_. 0), l2r_last_tx = 0, l2r_last_rx = 0,
     l2r_printed = [], l2r_prev = (\<lambda>_. 0), l2r_timer = (\<lambda>_. 0)\<rparr>"

definition l2_prog_of :: "l2_env \<Rightarrow> nat \<Rightarrow> l2_cfg \<times> (nat \<Rightarrow> u32) \<times> (nat \<Rightarrow> nat list) \<times> l2_state \<Rightarrow> l2_prog" where
  "l2_prog_of E main_lcore r =
     (let (c, dst, conf, s) = r
      in \<lparr>l2p_cfg = c, l2p_dst = dst, l2p_macs = l2s_macs s, l2p_conf = conf, l2p_max_ethports = l2e_max_ethports E,
          l2p_main_lcore = main_lcore, l2p_hz = l2e_hz E\<rparr>)"

section \<open>What a forwarded packet is\<close>

text \<open>The packet that leaves port \<open>q\<close>: from its address to 02:00:00:00:00:xx, the rest untouched.\<close>

definition l2_out :: "l2_prog \<Rightarrow> nat \<Rightarrow> mbuf \<Rightarrow> mbuf" where
  "l2_out G q m =
     (if l2_mac_updating (l2p_cfg G)
      then m\<lparr>mb_data := (\<lambda>i. if i = 0 then 2 else if i < 5 then 0 else if i = 5 then of_nat q
                              else if i < 12 then l2p_macs G q ! (i - 6) else mb_data m i)\<rparr>
      else m)"

lemma less_6: "i < 6 \<longleftrightarrow> i = 0 \<or> i = 1 \<or> i = 2 \<or> i = 3 \<or> i = 4 \<or> i = (5 :: nat)"
  by arith

lemma le64_dest:
  assumes "i < 6"
  shows "le64 (0x000000000002 + push_bit 40 (ucast (d :: u32))) ! i = (if i = 0 then 2 else if i < 5 then 0 else ucast d)"
proof -
  have v: "(0x000000000002 :: u64) + push_bit 40 (ucast d) = 2 OR push_bit 40 (ucast d)"
  proof (rule disjunctive_add)
    fix n show "\<not> bit (2 :: u64) n \<or> \<not> bit (push_bit 40 (ucast d) :: u64) n"
      by (cases n) (auto simp: bit_simps bit_numeral_rec split: nat.splits)
  qed
  have b: "le64 x ! i = ucast (drop_bit (8 * i) x)" for x using assms by (simp add: le64_def)
  show ?thesis
    unfolding v b using assms unfolding less_6
    by (elim disjE; intro bit_word_eqI) (auto simp: bit_simps bit_numeral_rec dest: bit_imp_le_length)
qed

lemma l2fwd_mac_updating_out:
  assumes "length (macs (unat d)) = 6"
  shows "mb_data (l2fwd_mac_updating macs m d) i =
    (if i = 0 then 2 else if i < 5 then 0 else if i = 5 then of_nat (unat d)
     else if i < 12 then macs (unat d) ! (i - 6) else mb_data m i)"
proof -
  have "mb_data (l2fwd_mac_updating macs m d) i =
      (if 6 \<le> i \<and> i < 12 then macs (unat d) ! (i - 6)
       else if i < 8 then le64 (0x000000000002 + push_bit 40 (ucast d)) ! i else mb_data m i)"
    using assms by (auto simp: l2fwd_mac_updating_def Let_def stn_def)
  then show ?thesis using le64_dest [of i d] by (auto simp: of_nat_unat not_le)
qed

section \<open>One flow of packets\<close>

text \<open>All packets for port \<open>q\<close> so far, in order: what the buffer no longer holds was sent in that order or lost, the rest
  waits in the buffer.\<close>

definition l2_flow :: "'w tx_api \<Rightarrow> nat \<Rightarrow> mbuf list \<Rightarrow> 'w l2_run \<Rightarrow> bool" where
  "l2_flow A q ms s \<longleftrightarrow> (\<exists>gone. ms = gone @ ta_waiting A (l2r_world s) q
     \<and> subseq (ta_wire A (l2r_world s) q) gone
     \<and> mset gone = mset (ta_wire A (l2r_world s) q) + mset (ta_lost A (l2r_world s) q)
     \<and> l2r_tx s q = of_nat (length (ta_wire A (l2r_world s) q))
     \<and> length (ta_waiting A (l2r_world s) q) < L2_MAX_PKT_BURST)"

lemma l2_count_tx_fields [simp]:
  "l2r_world (l2_count_tx p k s) = l2r_world s" "l2r_rx (l2_count_tx p k s) = l2r_rx s"
  "l2r_tx (l2_count_tx p k s) = (l2r_tx s)(unat p := l2r_tx s (unat p) + of_nat k)"
  by (simp_all add: l2_count_tx_def)

lemma l2_sends_flow:
  assumes "ta_sends A (unat p) ws (l2r_world s) k w" and "l2_flow A (unat p) ms s"
    and "ws = ta_waiting A (l2r_world s) (unat p) @ new"
  shows "l2_flow A (unat p) (ms @ new) (l2_count_tx p k (s\<lparr>l2r_world := w\<rparr>))"
proof -
  let ?q = "unat p" and ?w = "l2r_world s"
  obtain gone where g: "ms = gone @ ta_waiting A ?w ?q" "subseq (ta_wire A ?w ?q) gone"
      "mset gone = mset (ta_wire A ?w ?q) + mset (ta_lost A ?w ?q)" "l2r_tx s ?q = of_nat (length (ta_wire A ?w ?q))"
    using assms(2) by (auto simp: l2_flow_def)
  have k: "k \<le> length ws" and w: "ta_waiting A w ?q = []" "ta_wire A w ?q = ta_wire A ?w ?q @ take k ws"
      "ta_lost A w ?q = ta_lost A ?w ?q @ drop k ws"
    using assms(1) by (simp_all add: ta_sends_def)
  have "subseq (take k ws) ws" using list_emb_append2 [of "(=)" "take k ws" "[]"] by (metis append_take_drop_id subseq_order.order_refl subseq_rev_drop_many)
  then have "subseq (ta_wire A ?w ?q @ take k ws) (gone @ ws)" using g(2) by (rule list_emb_append_mono [rotated])
  moreover have "mset ws = mset (take k ws) + mset (drop k ws)" by (metis append_take_drop_id mset_append)
  ultimately have "\<exists>gone. ms @ new = gone @ ta_waiting A w ?q \<and> subseq (ta_wire A w ?q) gone
      \<and> mset gone = mset (ta_wire A w ?q) + mset (ta_lost A w ?q)"
    using g(1,3) by (intro exI [of _ "gone @ ws"]) (simp add: w assms(3))
  then show ?thesis using g(4) k by (auto simp: l2_flow_def w L2_MAX_PKT_BURST_def min_absorb2)
qed

lemma l2_flush_flow:
  assumes "tx_api_ok L2_MAX_PKT_BURST A" and "l2_flow A q ms s"
  shows "l2_flow A q ms (l2_flush_port A G p s)"
proof -
  let ?p = "l2p_dst G p" and ?w = "l2r_world s"
  have f: "ta_sends A (unat ?p) (ta_waiting A ?w (unat ?p)) ?w (fst (ta_flush A ?p ?w)) (snd (ta_flush A ?p ?w))"
    using assms(1) by (simp add: tx_api_ok_def)
  have e: "l2_flush_port A G p s = l2_count_tx ?p (fst (ta_flush A ?p ?w)) (s\<lparr>l2r_world := snd (ta_flush A ?p ?w)\<rparr>)"
    by (simp add: l2_flush_port_def case_prod_beta Let_def)
  show ?thesis
  proof (cases "q = unat ?p")
    case True
    show ?thesis using l2_sends_flow [OF f, of ms "[]"] assms(2) unfolding e True by simp
  next
    case False
    then show ?thesis using assms(2) f unfolding e l2_flow_def ta_sends_def by simp
  qed
qed

lemma l2_forward_flow:
  assumes "tx_api_ok L2_MAX_PKT_BURST A" and "length (l2p_macs G (unat (l2p_dst G p))) = 6" and "l2_flow A q ms s"
  shows "l2_flow A q (if q = unat (l2p_dst G p) then ms @ [l2_out G q m] else ms) (l2fwd_simple_forward A G m p s)"
proof -
  let ?p = "l2p_dst G p" and ?w = "l2r_world s"
  let ?m = "l2_out G (unat ?p) m"
  let ?r = "ta_buffer A ?p ?m ?w"
  have "l2fwd_mac_updating (l2p_macs G) m ?p = m\<lparr>mb_data := mb_data (l2fwd_mac_updating (l2p_macs G) m ?p)\<rparr>"
    by (simp add: l2fwd_mac_updating_def Let_def)
  also have "mb_data (l2fwd_mac_updating (l2p_macs G) m ?p) = (\<lambda>i. if i = 0 then 2 else if i < 5 then 0
      else if i = 5 then of_nat (unat ?p) else if i < 12 then l2p_macs G (unat ?p) ! (i - 6) else mb_data m i)"
    by (rule ext) (rule l2fwd_mac_updating_out [where macs = "l2p_macs G" and d = "?p", OF assms(2)])
  finally have e: "l2fwd_simple_forward A G m p s = l2_count_tx ?p (fst ?r) (s\<lparr>l2r_world := snd ?r\<rparr>)"
    by (simp add: l2fwd_simple_forward_def l2_out_def case_prod_beta Let_def)
  show ?thesis
  proof (cases "length (ta_waiting A ?w (unat ?p)) + 1 < L2_MAX_PKT_BURST")
    case True
    then have b: "fst ?r = 0" "ta_waiting A (snd ?r) = (ta_waiting A ?w)(unat ?p := ta_waiting A ?w (unat ?p) @ [?m])"
        "ta_wire A (snd ?r) = ta_wire A ?w" "ta_lost A (snd ?r) = ta_lost A ?w"
      using assms(1) by (simp_all add: tx_api_ok_def)
    show ?thesis using assms(3) True unfolding e l2_flow_def by (auto simp: b)
  next
    case False
    then have f: "ta_sends A (unat ?p) (ta_waiting A ?w (unat ?p) @ [?m]) ?w (fst ?r) (snd ?r)"
      using assms(1) by (simp add: tx_api_ok_def)
    show ?thesis
    proof (cases "q = unat ?p")
      case True
      show ?thesis using l2_sends_flow [OF f, of ms "[?m]"] assms(3) unfolding e True by simp
    next
      case False
      then show ?thesis using assms(3) f unfolding e l2_flow_def ta_sends_def by simp
    qed
  qed
qed

section \<open>All flows\<close>

text \<open>No two ports send to the same port, the lcores poll only the given ports, and the addresses have six bytes.\<close>

definition l2_prog_ok :: "nat list \<Rightarrow> l2_prog \<Rightarrow> bool" where
  "l2_prog_ok ports G \<longleftrightarrow> inj_on (\<lambda>p. unat (l2p_dst G p)) (set ports) \<and> (\<forall>l. set (l2p_conf G l) \<subseteq> set ports)
     \<and> (\<forall>p \<in> set ports. length (l2p_macs G (unat (l2p_dst G p))) = 6)"

definition l2_flows :: "'w tx_api \<Rightarrow> nat list \<Rightarrow> l2_prog \<Rightarrow> (nat \<Rightarrow> mbuf list) \<Rightarrow> 'w l2_run \<Rightarrow> bool" where
  "l2_flows A ports G r s \<longleftrightarrow>
     (\<forall>p \<in> set ports. l2_flow A (unat (l2p_dst G p)) (map (l2_out G (unat (l2p_dst G p))) (r p)) s)"

definition l2_inv :: "'w tx_api \<Rightarrow> nat list \<Rightarrow> l2_prog \<Rightarrow> (nat \<Rightarrow> mbuf list) \<Rightarrow> 'w l2_run \<Rightarrow> bool" where
  "l2_inv A ports G r s \<longleftrightarrow> l2_flows A ports G r s \<and> (\<forall>p. l2r_rx s p = of_nat (length (r p)))"

text \<open>The packets an lcore receives from a port in a pass, and all lcores in a run.\<close>

definition l2_arrivals :: "loop_in \<Rightarrow> (nat \<times> nat) list \<Rightarrow> nat \<Rightarrow> mbuf list" where
  "l2_arrivals i kps p = concat (map (\<lambda>(k, p'). if p' = p then in_rx i k else []) kps)"

definition l2_received :: "(nat \<Rightarrow> nat list) \<Rightarrow> (nat \<times> loop_in) list \<Rightarrow> nat \<Rightarrow> mbuf list" where
  "l2_received conf sched p = concat (map (\<lambda>(l, i). l2_arrivals i (enumerate 0 (conf l)) p) sched)"

lemma l2_flow_cong:
  "l2r_world s = l2r_world s' \<Longrightarrow> l2r_tx s = l2r_tx s' \<Longrightarrow> l2_flow A q ms s = l2_flow A q ms s'"
  by (simp add: l2_flow_def)

lemma l2_forward_flows:
  assumes "tx_api_ok L2_MAX_PKT_BURST A" and "l2_prog_ok ports G" and "p \<in> set ports" and "l2_flows A ports G r s"
  shows "l2_flows A ports G (r(p := r p @ [m])) (l2fwd_simple_forward A G m p s)"
  unfolding l2_flows_def
proof
  fix p' assume p': "p' \<in> set ports"
  let ?q = "unat (l2p_dst G p')"
  have "?q = unat (l2p_dst G p) \<longleftrightarrow> p' = p"
    using assms(2,3) p' unfolding l2_prog_ok_def inj_on_def by blast
  moreover have "length (l2p_macs G (unat (l2p_dst G p))) = 6" using assms(2,3) by (simp add: l2_prog_ok_def)
  moreover have "l2_flow A ?q (map (l2_out G ?q) (r p')) s" using assms(4) p' by (simp add: l2_flows_def)
  ultimately show "l2_flow A ?q (map (l2_out G ?q) ((r(p := r p @ [m])) p')) (l2fwd_simple_forward A G m p s)"
    using l2_forward_flow [OF assms(1), of G p ?q "map (l2_out G ?q) (r p')" s m] by (auto split: if_splits)
qed

lemma l2_burst_flows:
  assumes "tx_api_ok L2_MAX_PKT_BURST A" and "l2_prog_ok ports G" and "p \<in> set ports"
  shows "l2_flows A ports G r s \<Longrightarrow>
    l2_flows A ports G (r(p := r p @ ms)) (fold (\<lambda>m. l2fwd_simple_forward A G m p) ms s)"
proof (induction ms arbitrary: r s)
  case (Cons m ms)
  have "(r(p := r p @ [m]))(p := (r(p := r p @ [m])) p @ ms) = r(p := r p @ m # ms)" by simp
  then show ?case using Cons.IH [OF l2_forward_flows [OF assms Cons.prems, of m]] by (simp only: fold_Cons comp_apply)
qed simp

lemma l2_forward_rx: "l2r_rx (l2fwd_simple_forward A G m p s) = l2r_rx s"
  by (simp add: l2fwd_simple_forward_def case_prod_beta Let_def)

lemma l2_burst_rx: "l2r_rx (fold (\<lambda>m. l2fwd_simple_forward A G m p) ms s) = l2r_rx s"
  by (induction ms arbitrary: s) (simp_all add: l2_forward_rx)

lemma l2_receive_inv:
  assumes "tx_api_ok L2_MAX_PKT_BURST A" and "l2_prog_ok ports G" and "p \<in> set ports" and "l2_inv A ports G r s"
  shows "l2_inv A ports G (r(p := r p @ in_rx i k)) (l2_receive A G i (k, p) s)"
proof (cases "in_rx i k = []")
  case True
  then show ?thesis using assms(4) by (simp add: l2_receive_def)
next
  case False
  let ?s = "s\<lparr>l2r_rx := (l2r_rx s)(p := l2r_rx s p + of_nat (length (in_rx i k)))\<rparr>"
  have e: "l2_receive A G i (k, p) s = fold (\<lambda>m. l2fwd_simple_forward A G m p) (in_rx i k) ?s"
    using False by (simp add: l2_receive_def Let_def)
  have "l2_flows A ports G r ?s"
    using assms(4) unfolding l2_inv_def l2_flows_def by (simp add: l2_flow_def)
  then show ?thesis
    using assms(4) l2_burst_flows [OF assms(1-3)] unfolding l2_inv_def e l2_burst_rx by simp
qed

lemma l2_receives_inv:
  assumes "tx_api_ok L2_MAX_PKT_BURST A" and "l2_prog_ok ports G"
  shows "snd ` set kps \<subseteq> set ports \<Longrightarrow> l2_inv A ports G r s \<Longrightarrow>
    l2_inv A ports G (\<lambda>p. r p @ l2_arrivals i kps p) (fold (l2_receive A G i) kps s)"
proof (induction kps arbitrary: r s)
  case Nil
  then show ?case by (simp add: l2_arrivals_def)
next
  case (Cons kp kps)
  obtain k p where kp: "kp = (k, p)" by fastforce
  have p: "p \<in> set ports" using Cons.prems(1) by (simp add: kp)
  have "(\<lambda>p'. (r(p := r p @ in_rx i k)) p' @ l2_arrivals i kps p') = (\<lambda>p'. r p' @ l2_arrivals i (kp # kps) p')"
    by (auto simp: l2_arrivals_def kp)
  then show ?case
    using Cons.IH [OF _ l2_receive_inv [OF assms p Cons.prems(2), of i k]] Cons.prems(1) by (simp add: kp)
qed

lemma l2_flush_inv:
  assumes "tx_api_ok L2_MAX_PKT_BURST A" and "l2_inv A ports G r s"
  shows "l2_inv A ports G r (fold (l2_flush_port A G) ps s)"
  using assms(2)
proof (induction ps arbitrary: s)
  case (Cons p ps)
  have "l2_inv A ports G r (l2_flush_port A G p s)"
    using Cons.prems l2_flush_flow [OF assms(1)] unfolding l2_inv_def l2_flows_def
    by (simp add: l2_flush_port_def case_prod_beta Let_def)
  then show ?case using Cons.IH by simp
qed simp

lemma l2_drain_inv:
  assumes "tx_api_ok L2_MAX_PKT_BURST A" and "l2_inv A ports G r s"
  shows "l2_inv A ports G r (l2_drain A G l t s)"
proof -
  have c: "l2_inv A ports G r s1 = l2_inv A ports G r s2"
    if "l2r_world s1 = l2r_world s2" "l2r_tx s1 = l2r_tx s2" "l2r_rx s1 = l2r_rx s2" for s1 s2
    unfolding l2_inv_def l2_flows_def l2_flow_cong [OF that(1,2)] that(3) by (rule refl)
  have "l2r_world (l2_timer_step A G l d s1) = l2r_world s1" "l2r_tx (l2_timer_step A G l d s1) = l2r_tx s1"
      "l2r_rx (l2_timer_step A G l d s1) = l2r_rx s1" for d s1
    by (simp_all add: l2_timer_step_def print_stats_def Let_def)
  then have t: "l2_inv A ports G r ((l2_timer_step A G l d s1)\<lparr>l2r_prev := f\<rparr>) = l2_inv A ports G r s1" for d s1 f
    by (intro c) simp_all
  show ?thesis using assms(2) l2_flush_inv [OF assms] by (simp only: l2_drain_def Let_def t split: if_split) blast
qed

lemma l2_run_inv:
  assumes "tx_api_ok L2_MAX_PKT_BURST A" and "l2_prog_ok ports G"
  shows "l2_inv A ports G r s \<Longrightarrow>
    l2_inv A ports G (\<lambda>p. r p @ l2_received (l2p_conf G) sched p) (l2_lcores_run A G sched s)"
proof (induction sched arbitrary: r s)
  case Nil
  then show ?case by (simp add: l2_received_def l2_lcores_run_def)
next
  case (Cons li sched)
  obtain l i where li: "li = (l, i)" by fastforce
  let ?r = "\<lambda>p. r p @ l2_arrivals i (enumerate 0 (l2p_conf G l)) p"
  have "snd ` set (enumerate 0 (l2p_conf G l)) \<subseteq> set ports"
    using assms(2) by (auto simp: l2_prog_ok_def in_set_enumerate_eq image_iff) (metis nth_mem subset_iff)
  then have "l2_inv A ports G ?r (l2_pass A G l i s)"
    unfolding l2_pass_def by (rule l2_receives_inv [OF assms _ l2_drain_inv [OF assms(1) Cons.prems]])
  then have "l2_inv A ports G ?r (l2fwd_main_loop A G l [i] s)"
    using Cons.prems by (simp add: l2fwd_main_loop_def l2_arrivals_def)
  from Cons.IH [OF this] show ?case
    by (simp add: l2_lcores_run_def li l2_received_def)
qed

section \<open>The forwarder\<close>

lemma l2_setup_prog_ok:
  assumes "l2_main_setup E opts = Inr (c, dst, conf, s)" and "l2_env_ok E"
  shows "l2_prog_ok (l2_enabled E c) (l2_prog_of E ml (c, dst, conf, s))"
proof -
  note f = l2_setup_facts [OF assms]
  have small: "p < 2 ^ 32" if "p \<in> set (l2_enabled E c)" for p
    using assms(2) that by (fastforce simp: l2_env_ok_def)
  have "p = p'" if p: "p \<in> set (l2_enabled E c)" "p' \<in> set (l2_enabled E c)" "unat (dst p) = unat (dst p')" for p p'
  proof -
    have "(of_nat p :: u32) = of_nat p'" using f(5) [OF p(1)] f(5) [OF p(2)] p(3) by simp
    then have "unat (of_nat p :: u32) = unat (of_nat p' :: u32)" by simp
    then show ?thesis using small [OF p(1)] small [OF p(2)] by (simp add: unat_of_nat)
  qed
  then have "inj_on (\<lambda>p. unat (dst p)) (set (l2_enabled E c))" unfolding inj_on_def by blast
  moreover have "length (l2s_macs s (unat (dst p))) = 6" if "p \<in> set (l2_enabled E c)" for p
  proof -
    have "se_mac E (unat (dst p)) = Some (l2s_macs s (unat (dst p)))" using f(7) [OF conjunct1 [OF f(5) [OF that]]] by blast
    then show ?thesis using assms(2) unfolding l2_env_ok_def by blast
  qed
  ultimately show ?thesis using f(6) by (auto simp: l2_prog_ok_def l2_prog_of_def)
qed

definition l2_clean :: "'w tx_api \<Rightarrow> 'w \<Rightarrow> bool" where
  "l2_clean A w \<longleftrightarrow> (\<forall>p. ta_waiting A w p = [] \<and> ta_wire A w p = [] \<and> ta_lost A w p = [])"

lemma l2_init_inv: "l2_clean A w \<Longrightarrow> l2_inv A ports G (\<lambda>_. []) (l2_run_init w)"
  by (simp add: l2_inv_def l2_flows_def l2_flow_def l2_clean_def l2_run_init_def L2_MAX_PKT_BURST_def)

text \<open>C17. After a successful start of the L2 forwarder, whatever the order in which the lcores make their passes, and
  whatever the device takes: the packets received on an enabled port \<open>p\<close> leave through its partner, with the
  partner's address as the source and 02:00:00:00:00:xx as the destination, in the order they arrived. None is lost without being
  counted and none is sent twice: each was sent, is counted as dropped or waits in the buffer, which holds fewer than 32.
  The counters of the received and of the sent packets are exact (modulo \<open>2 ^ 64\<close>).\<close>

theorem l2_forwards_in_order:
  assumes "l2_main_setup E opts = Inr (c, dst, conf, st)" and "l2_env_ok E"
    and "tx_api_ok L2_MAX_PKT_BURST A" and "l2_clean A w" and "p \<in> set (l2_enabled E c)"
    and "G = l2_prog_of E main_lcore (c, dst, conf, st)" and "q = unat (dst p)"
  shows "let s = l2_lcores_run A G sched (l2_run_init w);
             wire = ta_wire A (l2r_world s) q; lost = ta_lost A (l2r_world s) q; waiting = ta_waiting A (l2r_world s) q;
             out = map (l2_out G q) (l2_received conf sched p)
         in mset out = mset wire + mset lost + mset waiting \<and> subseq (wire @ waiting) out
            \<and> length waiting < L2_MAX_PKT_BURST
            \<and> l2r_rx s p = of_nat (length out) \<and> l2r_tx s q = of_nat (length wire)"
proof -
  let ?s = "l2_lcores_run A G sched (l2_run_init w)"
  have G: "l2p_dst G = dst" "l2p_conf G = conf" by (simp_all add: assms(6) l2_prog_of_def)
  have "l2_prog_ok (l2_enabled E c) G" unfolding assms(6) by (rule l2_setup_prog_ok [OF assms(1,2)])
  from l2_run_inv [OF assms(3) this l2_init_inv [OF assms(4)], of sched]
  have i: "l2_inv A (l2_enabled E c) G (l2_received conf sched) ?s" by (simp add: G)
  have r: "l2r_rx ?s p = of_nat (length (map (l2_out G q) (l2_received conf sched p)))"
    using i by (simp add: l2_inv_def)
  have "l2_flow A q (map (l2_out G q) (l2_received conf sched p)) ?s"
    using i assms(5) unfolding l2_inv_def l2_flows_def G assms(7) by blast
  then obtain gone where gone: "map (l2_out G q) (l2_received conf sched p) = gone @ ta_waiting A (l2r_world ?s) q"
      "subseq (ta_wire A (l2r_world ?s) q) gone"
      "mset gone = mset (ta_wire A (l2r_world ?s) q) + mset (ta_lost A (l2r_world ?s) q)"
      "l2r_tx ?s q = of_nat (length (ta_wire A (l2r_world ?s) q))"
      "length (ta_waiting A (l2r_world ?s) q) < L2_MAX_PKT_BURST"
    unfolding l2_flow_def by blast
  show ?thesis using gone(2-5) r unfolding Let_def gone(1) by simp
qed

text \<open>A driver that takes at most 24 packets of a burst, with the waiting, sent and lost packets as its state.\<close>

type_synonym l2_ports = "nat \<Rightarrow> mbuf list"

definition l2_send_ex :: "nat \<Rightarrow> mbuf list \<Rightarrow> l2_ports \<times> l2_ports \<times> l2_ports \<Rightarrow> nat \<times> l2_ports \<times> l2_ports \<times> l2_ports" where
  "l2_send_ex p ms w =
     (let (buf, out, lost) = w; k = min 24 (length ms)
      in (k, buf(p := []), out(p := out p @ take k ms), lost(p := lost p @ drop k ms)))"

definition l2_tx_ex :: "(l2_ports \<times> l2_ports \<times> l2_ports) tx_api" where
  "l2_tx_ex = \<lparr>ta_buffer = (\<lambda>p m w. let (buf, out, lost) = w; ms = buf (unat p) @ [m]
        in if length ms < 32 then (0, buf(unat p := ms), out, lost) else l2_send_ex (unat p) ms w),
      ta_flush = (\<lambda>p w. l2_send_ex (unat p) (fst w (unat p)) w),
      ta_waiting = fst, ta_wire = (\<lambda>w. fst (snd w)), ta_lost = (\<lambda>w. snd (snd w))\<rparr>"

definition l2_clean_ex :: "l2_ports \<times> l2_ports \<times> l2_ports" where
  "l2_clean_ex = (\<lambda>_. [], \<lambda>_. [], \<lambda>_. [])"

definition l2_in_ex :: loop_in where
  "l2_in_ex = \<lparr>in_rx = (\<lambda>k. map mbuf_ex [0..<3]), in_tsc = 1000000, in_pnum = (\<lambda>_. 0), in_dst = (\<lambda>_. 0)\<rparr>"

lemma l2_tx_ok_ex: "tx_api_ok L2_MAX_PKT_BURST l2_tx_ex"
  by (auto simp: tx_api_ok_def l2_tx_ex_def l2_send_ex_def ta_sends_def L2_MAX_PKT_BURST_def case_prod_beta Let_def)

lemma l2_clean_ok_ex: "l2_clean l2_tx_ex l2_clean_ex"
  by (simp add: l2_clean_def l2_tx_ex_def l2_clean_ex_def)

text \<open>Applied to the machine with four ports: packets of port 0 go to port 1.\<close>

theorem l2_forwards_in_order_witness:
  "\<exists>c dst conf st G. l2_main_setup l2_ex [L2_p ''f''] = Inr (c, dst, conf, st) \<and> unat (dst 0) = 1
     \<and> (let s = l2_lcores_run l2_tx_ex G [(0, l2_in_ex), (1, l2_in_ex)] (l2_run_init l2_clean_ex);
            out = map (l2_out G 1) (l2_received conf [(0, l2_in_ex), (1, l2_in_ex)] 0)
        in subseq (ta_wire l2_tx_ex (l2r_world s) 1 @ ta_waiting l2_tx_ex (l2r_world s) 1) out
           \<and> l2r_rx s 0 = of_nat (length out))"
proof -
  obtain c dst conf st where 1: "l2_main_setup l2_ex [L2_p ''f''] = Inr (c, dst, conf, st)"
      and 2: "l2_enabled l2_ex c = [0, 1, 2, 3]" and 3: "dst 0 = 1"
    by (rule l2_setup_ex_result)
  have p: "0 \<in> set (l2_enabled l2_ex c)" unfolding 2 by simp
  have q: "1 = unat (dst 0)" by (simp add: 3)
  note t = l2_forwards_in_order [OF 1 l2_env_ok_ex l2_tx_ok_ex l2_clean_ok_ex p refl q, unfolded Let_def,
      of 0 "[(0, l2_in_ex), (1, l2_in_ex)]"]
  show ?thesis
    unfolding Let_def by (intro exI conjI, rule 1, rule q [symmetric])
      (rule t [THEN conjunct2, THEN conjunct1], rule t [THEN conjunct2, THEN conjunct2, THEN conjunct2, THEN conjunct1])
qed

end
