(* ===== verification/Acl_Rules.thy ===== *)
theory Acl_Rules
  imports Setup "HOL-Library.Monad_Syntax"
begin

text \<open>
  The rules of the access control lists (\<open>l3fwd/l3fwd_acl.c\<close>): the field layouts \<open>ipv4_defs\<close> and
  \<open>ipv6_defs\<close>, the ClassBench parsers, \<open>acl_add_rules\<close>, \<open>read_config_files_acl\<close>, \<open>app_acl_init\<close> and
  \<open>setup_acl\<close>. The ACL library is a parameter with its documented law: a classification returns the user
  data of a matching rule of the highest priority, or 0. What is shown: the first line of a file that
  matches a packet decides, and the four masks of an IPv6 net together are its prefix.
\<close>

section \<open>Fields\<close>

datatype acl_type = Field_bitmask | Field_mask | Field_range

record acl_field_def =
  fd_type :: acl_type
  fd_size :: nat
  fd_field_index :: nat
  fd_input_index :: nat
  fd_offset :: nat

text \<open>\<open>sizeof\<close> and \<open>offsetof\<close> of the IPv4 and IPv6 headers.\<close>

definition IPV4_NEXT_PROTO :: nat where "IPV4_NEXT_PROTO = 9"
definition IPV4_SRC_ADDR :: nat where "IPV4_SRC_ADDR = 12"
definition IPV4_DST_ADDR :: nat where "IPV4_DST_ADDR = 16"
definition IPV4_HDR_SIZE :: nat where "IPV4_HDR_SIZE = 20"
definition IPV6_PROTO :: nat where "IPV6_PROTO = 6"
definition IPV6_SRC_ADDR :: nat where "IPV6_SRC_ADDR = 8"
definition IPV6_DST_ADDR :: nat where "IPV6_DST_ADDR = 24"
definition IPV6_HDR_SIZE :: nat where "IPV6_HDR_SIZE = 40"

text \<open>The field indices: \<open>PROTO\<close> is 0, then the addresses and the ports.\<close>

definition SRC_FIELD_IPV4 :: nat where "SRC_FIELD_IPV4 = 1"
definition DST_FIELD_IPV4 :: nat where "DST_FIELD_IPV4 = 2"
definition SRCP_FIELD_IPV4 :: nat where "SRCP_FIELD_IPV4 = 3"
definition DSTP_FIELD_IPV4 :: nat where "DSTP_FIELD_IPV4 = 4"
definition SRC1_FIELD_IPV6 :: nat where "SRC1_FIELD_IPV6 = 1"
definition DST1_FIELD_IPV6 :: nat where "DST1_FIELD_IPV6 = 5"
definition SRCP_FIELD_IPV6 :: nat where "SRCP_FIELD_IPV6 = 9"
definition DSTP_FIELD_IPV6 :: nat where "DSTP_FIELD_IPV6 = 10"

definition ipv4_defs :: "acl_field_def list" where
  "ipv4_defs =
     [\<lparr>fd_type = Field_bitmask, fd_size = 1, fd_field_index = 0, fd_input_index = 0, fd_offset = 0\<rparr>,
      \<lparr>fd_type = Field_mask, fd_size = 4, fd_field_index = SRC_FIELD_IPV4, fd_input_index = 2,
       fd_offset = IPV4_SRC_ADDR - IPV4_NEXT_PROTO\<rparr>,
      \<lparr>fd_type = Field_mask, fd_size = 4, fd_field_index = DST_FIELD_IPV4, fd_input_index = 3,
       fd_offset = IPV4_DST_ADDR - IPV4_NEXT_PROTO\<rparr>,
      \<lparr>fd_type = Field_range, fd_size = 2, fd_field_index = SRCP_FIELD_IPV4, fd_input_index = 4,
       fd_offset = IPV4_HDR_SIZE - IPV4_NEXT_PROTO\<rparr>,
      \<lparr>fd_type = Field_range, fd_size = 2, fd_field_index = DSTP_FIELD_IPV4, fd_input_index = 4,
       fd_offset = IPV4_HDR_SIZE - IPV4_NEXT_PROTO + 2\<rparr>]"

definition ipv6_defs :: "acl_field_def list" where
  "ipv6_defs =
     \<lparr>fd_type = Field_bitmask, fd_size = 1, fd_field_index = 0, fd_input_index = 0, fd_offset = 0\<rparr>
     # map (\<lambda>k. \<lparr>fd_type = Field_mask, fd_size = 4, fd_field_index = SRC1_FIELD_IPV6 + k,
                 fd_input_index = SRC1_FIELD_IPV6 + k, fd_offset = IPV6_SRC_ADDR - IPV6_PROTO + k * 4\<rparr>) [0..<4]
     @ map (\<lambda>k. \<lparr>fd_type = Field_mask, fd_size = 4, fd_field_index = DST1_FIELD_IPV6 + k,
                 fd_input_index = DST1_FIELD_IPV6 + k, fd_offset = IPV6_DST_ADDR - IPV6_PROTO + k * 4\<rparr>) [0..<4]
     @ [\<lparr>fd_type = Field_range, fd_size = 2, fd_field_index = SRCP_FIELD_IPV6, fd_input_index = SRCP_FIELD_IPV6,
         fd_offset = IPV6_HDR_SIZE - IPV6_PROTO\<rparr>,
        \<lparr>fd_type = Field_range, fd_size = 2, fd_field_index = DSTP_FIELD_IPV6, fd_input_index = SRCP_FIELD_IPV6,
         fd_offset = IPV6_HDR_SIZE - IPV6_PROTO + 2\<rparr>]"

text \<open>A field of a rule: the member of each union that the size of the field selects.\<close>

record acl_field =
  af_value :: u32
  af_mask :: u32

record acl_rule =
  ar_category_mask :: u32
  ar_priority :: int
  ar_userdata :: u32
  ar_field :: "acl_field list"

definition zero_acl_rule :: "nat \<Rightarrow> acl_rule" where
  "zero_acl_rule dim = \<lparr>ar_category_mask = 0, ar_priority = 0, ar_userdata = 0,
     ar_field = replicate dim \<lparr>af_value = 0, af_mask = 0\<rparr>\<rparr>"

definition set_value :: "nat \<Rightarrow> u32 \<Rightarrow> acl_rule \<Rightarrow> acl_rule" where
  "set_value i x v = v\<lparr>ar_field := (ar_field v)[i := (ar_field v ! i)\<lparr>af_value := x\<rparr>]\<rparr>"

definition set_mask :: "nat \<Rightarrow> u32 \<Rightarrow> acl_rule \<Rightarrow> acl_rule" where
  "set_mask i x v = v\<lparr>ar_field := (ar_field v)[i := (ar_field v ! i)\<lparr>af_mask := x\<rparr>]\<rparr>"

section \<open>The parsers\<close>

text \<open>A parser that returns an error makes \<open>acl_add_rules\<close> end the program, so an error is
  \<open>None\<close> and the half-filled rule is dropped.\<close>

definition CB_FLD_USERDATA :: nat where "CB_FLD_USERDATA = 9"
definition CB_FLD_NUM :: nat where "CB_FLD_NUM = 10"
definition cb_port_delim :: string where "cb_port_delim = '':''"

text \<open>Addresses and masks. An IPv6 address is eight groups of hexadecimal digits.\<close>

fun acl_groups :: "string \<Rightarrow> char option list \<Rightarrow> (u32 list \<times> string) option" where
  "acl_groups inp [] = Some ([], inp)"
| "acl_groups inp (dlm # dlms) = do {
     (a, rest) \<leftarrow> get_cb_field inp 16 65535 dlm;
     (as, rest') \<leftarrow> acl_groups rest dlms;
     Some (of_nat a # as, rest')
   }"

definition acl_parse_ipv6_addr :: "string \<Rightarrow> char option \<Rightarrow> (u32 list \<times> string) option" where
  "acl_parse_ipv6_addr inp dlm = do {
     (addr, rest) \<leftarrow> acl_groups inp (replicate 7 (Some CHR '':'') @ [dlm]);
     Some ([push_bit 16 (addr ! 0) + addr ! 1, push_bit 16 (addr ! 2) + addr ! 3,
            push_bit 16 (addr ! 4) + addr ! 5, push_bit 16 (addr ! 6) + addr ! 7], rest)
   }"

definition acl_mask32 :: "nat \<Rightarrow> nat \<Rightarrow> nat" where
  "acl_mask32 m i = (if (i + 1) * 32 \<le> m then 32 else if i * 32 < m then m - i * 32 else 0)"

text \<open>The four fields from index \<open>f\<close> on.\<close>

definition acl_parse_ipv6_net :: "string \<Rightarrow> nat \<Rightarrow> acl_rule \<Rightarrow> acl_rule option" where
  "acl_parse_ipv6_net inp f v0 = do {
     (v, mp) \<leftarrow> acl_parse_ipv6_addr inp (Some CHR ''/'');
     (m, _) \<leftarrow> get_cb_field mp 0 128 None;
     Some (fold (\<lambda>i r. set_value (f + i) (v ! i) (set_mask (f + i) (of_nat (acl_mask32 m i)) r)) [0..<4] v0)
   }"

definition acl_parse_ipv4_net :: "inet \<Rightarrow> string \<Rightarrow> (u32 \<times> u32) option" where
  "acl_parse_ipv4_net N inp = do {
     (sa, sv) \<leftarrow> strtok_r ''/'' inp;
     (sm, _) \<leftarrow> strtok_r ''/'' sv;
     addr \<leftarrow> inet_pton4 N sa;
     (mask_len, _) \<leftarrow> get_cb_field sm 0 32 None;
     Some (bswap32 addr, of_nat mask_len)
   }"

text \<open>The ports, the protocol and the user data, the same for both families up to the field indices.\<close>

definition acl_parse_ports :: "string list \<Rightarrow> nat \<Rightarrow> nat \<Rightarrow> acl_rule \<Rightarrow> acl_rule option" where
  "acl_parse_ports inp srcp dstp v = do {
     (sl, _) \<leftarrow> get_cb_field (inp ! 2) 0 65535 None;
     (sh, _) \<leftarrow> get_cb_field (inp ! 4) 0 65535 None;
     let v1 = set_mask srcp (of_nat sh) (set_value srcp (of_nat sl) v);
     if inp ! 3 \<noteq> cb_port_delim then None else do {
       (dl, _) \<leftarrow> get_cb_field (inp ! 5) 0 65535 None;
       (dh, _) \<leftarrow> get_cb_field (inp ! 7) 0 65535 None;
       let v2 = set_mask dstp (of_nat dh) (set_value dstp (of_nat dl) v1);
       if inp ! 6 \<noteq> cb_port_delim then None
       else if af_mask (ar_field v2 ! srcp) < af_value (ar_field v2 ! srcp)
               \<or> af_mask (ar_field v2 ! dstp) < af_value (ar_field v2 ! dstp) then None
       else Some v2
     }
   }"

definition acl_parse_proto :: "string list \<Rightarrow> bool \<Rightarrow> acl_rule \<Rightarrow> acl_rule option" where
  "acl_parse_proto inp has_userdata v = do {
     (p, rest) \<leftarrow> get_cb_field (inp ! 8) 0 255 (Some CHR ''/'');
     (m, _) \<leftarrow> get_cb_field rest 0 255 None;
     let v1 = set_mask 0 (of_nat m) (set_value 0 (of_nat p) v);
     if has_userdata then do {
       (u, _) \<leftarrow> get_cb_field (inp ! CB_FLD_USERDATA) 0 (2 ^ 32 - 1) None;
       Some (v1\<lparr>ar_userdata := of_nat u\<rparr>)
     } else Some v1
   }"

definition parse_cb_ipv6_rule :: "string \<Rightarrow> acl_rule \<Rightarrow> bool \<Rightarrow> acl_rule option" where
  "parse_cb_ipv6_rule str v has_userdata = do {
     inp \<leftarrow> strtoks rule_dlm (if has_userdata then CB_FLD_NUM else CB_FLD_USERDATA) str;
     v1 \<leftarrow> acl_parse_ipv6_net (inp ! 0) SRC1_FIELD_IPV6 v;
     v2 \<leftarrow> acl_parse_ipv6_net (inp ! 1) DST1_FIELD_IPV6 v1;
     v3 \<leftarrow> acl_parse_ports inp SRCP_FIELD_IPV6 DSTP_FIELD_IPV6 v2;
     acl_parse_proto inp has_userdata v3
   }"

definition parse_cb_ipv4vlan_rule :: "inet \<Rightarrow> string \<Rightarrow> acl_rule \<Rightarrow> bool \<Rightarrow> acl_rule option" where
  "parse_cb_ipv4vlan_rule N str v has_userdata = do {
     inp \<leftarrow> strtoks rule_dlm (if has_userdata then CB_FLD_NUM else CB_FLD_USERDATA) str;
     (sa, sm) \<leftarrow> acl_parse_ipv4_net N (inp ! 0);
     let v1 = set_mask SRC_FIELD_IPV4 sm (set_value SRC_FIELD_IPV4 sa v);
     (da, dm) \<leftarrow> acl_parse_ipv4_net N (inp ! 1);
     let v2 = set_mask DST_FIELD_IPV4 dm (set_value DST_FIELD_IPV4 da v1);
     v3 \<leftarrow> acl_parse_ports inp SRCP_FIELD_IPV4 DSTP_FIELD_IPV4 v2;
     acl_parse_proto inp has_userdata v3
   }"

section \<open>Reading a rule file\<close>

definition ACL_LEAD_CHAR :: char where "ACL_LEAD_CHAR = CHR ''@''"
definition ACL_DENY_SIGNATURE :: u32 where "ACL_DENY_SIGNATURE = 0xf0000000"
definition FWD_PORT_SHIFT :: u32 where "FWD_PORT_SHIFT = 1"
definition MAX_ACL_RULE_NUM :: nat where "MAX_ACL_RULE_NUM = 100000"

record acl_read =
  rd_route_rules :: "acl_rule list"
  rd_acl_rules :: "acl_rule list"
  rd_route_cnt :: nat
  rd_acl_cnt :: nat
  rd_total_num :: nat

type_synonym acl_parser = "string \<Rightarrow> acl_rule \<Rightarrow> bool \<Rightarrow> acl_rule option"

text \<open>One line: the rule is written in place, at the next free element of its array. An exit of the
  program and a write past an array are \<open>Inl\<close>.\<close>

definition acl_line :: "u32 \<Rightarrow> int \<Rightarrow> acl_parser \<Rightarrow> string \<Rightarrow> acl_read \<Rightarrow> string + acl_read" where
  "acl_line port_mask max_priority parser buff s =
     (if is_bypass_line buff then Inr s
      else let is_route = (first_char buff = Some ROUTE_LEAD_CHAR);
               arr = (if is_route then rd_route_rules s else rd_acl_rules s);
               cnt = (if is_route then rd_route_cnt s else rd_acl_cnt s)
           in if \<not> is_route \<and> first_char buff \<noteq> Some ACL_LEAD_CHAR then Inl ''should start with leading char''
              else if length arr \<le> cnt then Inl ''write past the array''
              else case parser (tl buff) (arr ! cnt) is_route of
                     None \<Rightarrow> Inl ''parse rules error''
                   | Some next \<Rightarrow>
                       if is_route \<and> \<not> in_mask port_mask (unat (ar_userdata next)) then Inl ''fwd number illegal''
                       else let next1 = next\<lparr>ar_userdata := (if is_route then ar_userdata next + FWD_PORT_SHIFT
                                                             else ACL_DENY_SIGNATURE + of_nat cnt),
                                             ar_priority := max_priority - int (rd_total_num s),
                                             ar_category_mask := - 1\<rparr>
                            in Inr (if is_route
                                    then s\<lparr>rd_route_rules := arr[cnt := next1], rd_route_cnt := cnt + 1,
                                           rd_total_num := rd_total_num s + 1\<rparr>
                                    else s\<lparr>rd_acl_rules := arr[cnt := next1], rd_acl_cnt := cnt + 1,
                                           rd_total_num := rd_total_num s + 1\<rparr>))"

text \<open>The result: the routes with their number, the ACL entries with theirs.\<close>

definition acl_add_rules :: "stdio \<Rightarrow> u32 \<Rightarrow> int \<Rightarrow> nat \<Rightarrow> acl_parser \<Rightarrow> string
    \<Rightarrow> string + (acl_rule list \<times> nat) \<times> (acl_rule list \<times> nat)" where
  "acl_add_rules S port_mask max_priority dim parser rule_path =
     (case fopen S rule_path of
        None \<Rightarrow> Inl ''Open failed''
      | Some fh \<Rightarrow>
          let ls = file_lines fh;
              route_num = length (filter (\<lambda>buff. first_char buff = Some ROUTE_LEAD_CHAR) ls);
              acl_num = length (filter (\<lambda>buff. first_char buff = Some ACL_LEAD_CHAR) ls)
          in if route_num = 0 then Inl ''Not find any route entries''
             else if \<not> fseek_ok S then Inl ''File seek operation failed''
             else if \<not> calloc_ok S acl_num \<or> \<not> calloc_ok S route_num then Inl ''failed to malloc memory''
             else case foldM (acl_line port_mask max_priority parser) ls
                         \<lparr>rd_route_rules = replicate route_num (zero_acl_rule dim),
                          rd_acl_rules = replicate acl_num (zero_acl_rule dim),
                          rd_route_cnt = 0, rd_acl_cnt = 0, rd_total_num = 0\<rparr> of
                    Inl e \<Rightarrow> Inl e
                  | Inr s \<Rightarrow> Inr ((rd_route_rules s, rd_route_cnt s), (rd_acl_rules s, acl_num)))"

section \<open>The library\<close>

text \<open>A context is the fields and the rules it was built from. \<open>al_add\<close> takes the number of rules already
  in the context and those to add.\<close>

record acl_ctx =
  ac_defs :: "acl_field_def list"
  ac_rules :: "acl_rule list"

record acl_lib =
  al_max_priority :: int
  al_create :: "bool \<Rightarrow> nat \<Rightarrow> bool"
  al_set_alg :: "nat \<Rightarrow> bool"
  al_default_alg :: nat
  al_add :: "nat \<Rightarrow> acl_rule list \<Rightarrow> bool"
  al_build :: "acl_ctx \<Rightarrow> bool"
  al_classify :: "acl_ctx \<Rightarrow> mem \<Rightarrow> u32"

definition app_acl_init :: "acl_lib \<Rightarrow> nat \<Rightarrow> acl_rule list \<Rightarrow> acl_rule list \<Rightarrow> nat \<Rightarrow> nat \<Rightarrow> bool \<Rightarrow> nat
    \<Rightarrow> string + acl_ctx" where
  "app_acl_init L alg route_base acl_base route_num acl_num ipv6 socketid =
     (let rs = take route_num route_base; as = take acl_num acl_base;
          context = \<lparr>ac_defs = (if ipv6 then ipv6_defs else ipv4_defs), ac_rules = rs @ as\<rparr>
      in if \<not> al_create L ipv6 socketid then Inl ''Failed to create ACL context''
         else if alg \<noteq> al_default_alg L \<and> \<not> al_set_alg L alg then Inl ''Failed to setup classify method''
         else if \<not> al_add L 0 rs then Inl ''add rules failed''
         else if \<not> al_add L (length rs) as then Inl ''add rules failed''
         else if \<not> al_build L context then Inl ''Failed to build ACL trie''
         else Inr context)"

text \<open>The globals: the four arrays with their numbers, and the contexts of each socket.\<close>

record acl_state =
  as_route4 :: "(acl_rule list \<times> nat) option"
  as_acl4 :: "(acl_rule list \<times> nat) option"
  as_route6 :: "(acl_rule list \<times> nat) option"
  as_acl6 :: "(acl_rule list \<times> nat) option"
  as_ctx4 :: "nat \<Rightarrow> acl_ctx option"
  as_ctx6 :: "nat \<Rightarrow> acl_ctx option"

definition acl_free_routes :: "acl_state \<Rightarrow> acl_state" where
  "acl_free_routes s = s\<lparr>as_route4 := None, as_route6 := None, as_acl4 := None, as_acl6 := None\<rparr>"

definition read_config_files_acl :: "stdio \<Rightarrow> inet \<Rightarrow> u32 \<Rightarrow> int \<Rightarrow> parm_cfg \<Rightarrow> acl_state \<Rightarrow> string + acl_state" where
  "read_config_files_acl S N port_mask max_priority cfg s =
     (case rule_ipv4_name cfg of
        None \<Rightarrow> Inl ''Failed to get valid route options''
      | Some f4 \<Rightarrow>
     (case acl_add_rules S port_mask max_priority (length ipv4_defs) (parse_cb_ipv4vlan_rule N) f4 of
        Inl e \<Rightarrow> Inl e
      | Inr (r4, a4) \<Rightarrow>
          let s1 = s\<lparr>as_route4 := Some r4, as_acl4 := Some a4\<rparr>
          in (case rule_ipv6_name cfg of
                None \<Rightarrow> Inl ''Failed to get valid route options''
              | Some f6 \<Rightarrow>
             (case acl_add_rules S port_mask max_priority (length ipv6_defs) parse_cb_ipv6_rule f6 of
                Inl e \<Rightarrow> Inl e
              | Inr (r6, a6) \<Rightarrow> Inr (s1\<lparr>as_route6 := Some r6, as_acl6 := Some a6\<rparr>)))))"

definition check_acl_config :: "parm_cfg \<Rightarrow> int" where
  "check_acl_config cfg =
     (if rule_ipv4_name cfg = None then - 1 else if rule_ipv6_name cfg = None then - 1 else 0)"

text \<open>An array whose pointer is null comes with the number 0.\<close>

definition rules_in :: "(acl_rule list \<times> nat) option \<Rightarrow> acl_rule list \<times> nat" where
  "rules_in x = (case x of None \<Rightarrow> ([], 0) | Some r \<Rightarrow> r)"

definition setup_acl :: "acl_lib \<Rightarrow> parm_cfg \<Rightarrow> nat \<Rightarrow> nat \<Rightarrow> acl_state \<Rightarrow> string + acl_state" where
  "setup_acl L cfg alg socket_id s =
     (if check_acl_config cfg \<noteq> 0 then Inl ''Failed to get valid ACL options''
      else if NB_SOCKETS \<le> socket_id then Inr (acl_free_routes s)
      else let (r4, n4) = rules_in (as_route4 s); (a4, k4) = rules_in (as_acl4 s);
               (r6, n6) = rules_in (as_route6 s); (a6, k6) = rules_in (as_acl6 s)
           in case app_acl_init L alg r4 a4 n4 k4 False socket_id of
                Inl e \<Rightarrow> Inl e
              | Inr c4 \<Rightarrow>
                  (case app_acl_init L alg r6 a6 n6 k6 True socket_id of
                     Inl e \<Rightarrow> Inl e
                   | Inr c6 \<Rightarrow> Inr (s\<lparr>as_ctx4 := (as_ctx4 s)(socket_id := Some c4),
                                      as_ctx6 := (as_ctx6 s)(socket_id := Some c6)\<rparr>)))"

text \<open>The names of the algorithms on the command line.\<close>

definition acl_alg_names :: "string list" where
  "acl_alg_names = [''scalar'', ''sse'', ''avx2'', ''neon'', ''altivec'', ''avx512x16'', ''avx512x32'']"

definition parse_acl_alg :: "(string \<Rightarrow> nat) \<Rightarrow> nat \<Rightarrow> string \<Rightarrow> nat" where
  "parse_acl_alg code dflt alg = (case find (\<lambda>n. n = alg) acl_alg_names of Some n \<Rightarrow> code n | None \<Rightarrow> dflt)"

definition str_acl_alg :: "(string \<Rightarrow> nat) \<Rightarrow> nat \<Rightarrow> string" where
  "str_acl_alg code alg = (case find (\<lambda>n. alg = code n) acl_alg_names of Some n \<Rightarrow> n | None \<Rightarrow> ''default'')"

section \<open>What the library promises\<close>

text \<open>The value of a field in the input buffer: \<open>size\<close> bytes in network order.\<close>

definition be_val :: "mem \<Rightarrow> nat \<Rightarrow> nat \<Rightarrow> nat" where
  "be_val d off n = foldl (\<lambda>v k. v * 256 + unat (d (off + k))) 0 [0..<n]"

text \<open>The three types of field: a bit mask, a prefix of the given length, a range.\<close>

definition acl_field_match :: "acl_field_def \<Rightarrow> acl_field \<Rightarrow> nat \<Rightarrow> bool" where
  "acl_field_match d f x =
     (case fd_type d of
        Field_bitmask \<Rightarrow> of_nat x AND af_mask f = af_value f AND af_mask f
      | Field_mask \<Rightarrow> drop_bit (8 * fd_size d - unat (af_mask f)) x = drop_bit (8 * fd_size d - unat (af_mask f)) (unat (af_value f))
      | Field_range \<Rightarrow> unat (af_value f) \<le> x \<and> x \<le> unat (af_mask f))"

definition acl_matches :: "acl_field_def list \<Rightarrow> mem \<Rightarrow> acl_rule \<Rightarrow> bool" where
  "acl_matches defs data r \<longleftrightarrow>
     list_all (\<lambda>d. acl_field_match d (ar_field r ! fd_field_index d) (be_val data (fd_offset d) (fd_size d))) defs"

text \<open>Documented: the result is the user data of a matching rule with the highest priority, and 0 when none
  matches; a context has room for \<open>MAX_ACL_RULE_NUM\<close> rules.\<close>

definition acl_lib_ok :: "acl_lib \<Rightarrow> bool" where
  "acl_lib_ok L \<longleftrightarrow>
     (\<forall>c data. (\<forall>r \<in> set (ac_rules c). \<not> acl_matches (ac_defs c) data r) \<longrightarrow> al_classify L c data = 0)
     \<and> (\<forall>c data r. r \<in> set (ac_rules c) \<and> acl_matches (ac_defs c) data r \<longrightarrow>
          (\<exists>r' \<in> set (ac_rules c). acl_matches (ac_defs c) data r' \<and> al_classify L c data = ar_userdata r'
             \<and> (\<forall>r'' \<in> set (ac_rules c). acl_matches (ac_defs c) data r'' \<longrightarrow> ar_priority r'' \<le> ar_priority r')))
     \<and> (\<forall>k rs. al_add L k rs \<longrightarrow> k + length rs \<le> MAX_ACL_RULE_NUM)"

section \<open>What a file means\<close>

text \<open>The entries of a file: for each line that is neither blank nor a comment, whether it is a route, and
  the rule it is read as.\<close>

definition acl_entry :: "acl_parser \<Rightarrow> nat \<Rightarrow> string \<Rightarrow> bool \<times> acl_rule" where
  "acl_entry parser dim l =
     (let is_route = (first_char l = Some ROUTE_LEAD_CHAR)
      in (is_route, the (parser (tl l) (zero_acl_rule dim) is_route)))"

definition acl_entries :: "acl_parser \<Rightarrow> nat \<Rightarrow> string list \<Rightarrow> (bool \<times> acl_rule) list" where
  "acl_entries parser dim ls = map (acl_entry parser dim) (filter (\<lambda>l. \<not> is_bypass_line l) ls)"

text \<open>The first entry that matches decides: a route gives its port, an ACL entry denies.\<close>

definition acl_verdict :: "acl_field_def list \<Rightarrow> (bool \<times> acl_rule) list \<Rightarrow> mem \<Rightarrow> u16" where
  "acl_verdict defs es data =
     (case find (\<lambda>e. acl_matches defs data (snd e)) es of
        None \<Rightarrow> BAD_PORT
      | Some (is_route, r) \<Rightarrow> if is_route then ucast (ar_userdata r) else BAD_PORT)"

text \<open>Entry \<open>j\<close> as it is stored.\<close>

definition acl_stored :: "int \<Rightarrow> (bool \<times> acl_rule) list \<Rightarrow> nat \<Rightarrow> acl_rule" where
  "acl_stored max_priority es j =
     (snd (es ! j))\<lparr>ar_userdata := (if fst (es ! j) then ar_userdata (snd (es ! j)) + FWD_PORT_SHIFT
          else ACL_DENY_SIGNATURE + of_nat (length (filter (\<lambda>e. \<not> fst e) (take j es)))),
       ar_priority := max_priority - int j, ar_category_mask := - 1\<rparr>"

lemma acl_stored_app: "j < length es \<Longrightarrow> acl_stored mp (es @ es') j = acl_stored mp es j"
  by (simp add: acl_stored_def nth_append)

lemma acl_stored_matches: "acl_matches defs data (acl_stored mp es j) = acl_matches defs data (snd (es ! j))"
  by (simp add: acl_matches_def acl_stored_def)

definition acl_read_inv :: "u32 \<Rightarrow> int \<Rightarrow> nat \<Rightarrow> acl_parser \<Rightarrow> string list \<Rightarrow> acl_read \<Rightarrow> bool" where
  "acl_read_inv m mp dim parser ls s \<longleftrightarrow>
     (let es = acl_entries parser dim ls
      in rd_total_num s = length es
         \<and> rd_route_cnt s = length (filter fst es) \<and> rd_acl_cnt s = length (filter (\<lambda>e. \<not> fst e) es)
         \<and> rd_route_cnt s \<le> length (rd_route_rules s) \<and> rd_acl_cnt s \<le> length (rd_acl_rules s)
         \<and> (\<forall>i. rd_route_cnt s \<le> i \<and> i < length (rd_route_rules s) \<longrightarrow> rd_route_rules s ! i = zero_acl_rule dim)
         \<and> (\<forall>i. rd_acl_cnt s \<le> i \<and> i < length (rd_acl_rules s) \<longrightarrow> rd_acl_rules s ! i = zero_acl_rule dim)
         \<and> set (take (rd_route_cnt s) (rd_route_rules s)) \<union> set (take (rd_acl_cnt s) (rd_acl_rules s))
             = acl_stored mp es ` {..<length es}
         \<and> rd_acl_cnt s = length (filter (\<lambda>l. first_char l = Some ACL_LEAD_CHAR) ls)
         \<and> (\<forall>e \<in> set es. fst e \<longrightarrow> in_mask m (unat (ar_userdata (snd e)))))"

lemma acl_line_bypass:
  assumes "is_bypass_line l" shows "first_char l \<noteq> Some ACL_LEAD_CHAR"
proof
  assume a: "first_char l = Some ACL_LEAD_CHAR"
  then obtain cs where l: "l = ACL_LEAD_CHAR # cs" by (cases l) (auto simp: first_char_def)
  have "\<not> isspace CHR ''@''" by (simp add: isspace_def code_of_def)
  then show False using assms by (simp add: l is_bypass_line_def first_char_def ACL_LEAD_CHAR_def COMMENT_LEAD_CHAR_def)
qed

lemma image_lessThan_Suc: "f ` {..<Suc n} = insert (f n) (f ` {..<n})"
  by (simp add: lessThan_Suc)

text \<open>Both arrays are filled in the same way.\<close>

lemma acl_fill:
  assumes "cnt < length arr" and "\<forall>i. cnt \<le> i \<and> i < length arr \<longrightarrow> arr ! i = z"
  shows "take (Suc cnt) (arr[cnt := x]) = take cnt arr @ [x]"
    and "\<forall>i. Suc cnt \<le> i \<and> i < length arr \<longrightarrow> arr[cnt := x] ! i = z" and "arr ! cnt = z"
  using assms by (simp_all add: take_Suc_conv_app_nth)

lemma acl_line_inv:
  assumes "acl_line m mp parser l s = Inr t" and "acl_read_inv m mp dim parser ls s"
  shows "acl_read_inv m mp dim parser (ls @ [l]) t"
proof (cases "is_bypass_line l")
  case True
  then have "t = s" using assms(1) by (simp add: acl_line_def)
  moreover have "acl_entries parser dim (ls @ [l]) = acl_entries parser dim ls" using True by (simp add: acl_entries_def)
  moreover have "filter (\<lambda>l. first_char l = Some ACL_LEAD_CHAR) (ls @ [l]) = filter (\<lambda>l. first_char l = Some ACL_LEAD_CHAR) ls"
    using acl_line_bypass [OF True] by simp
  ultimately show ?thesis using assms(2) unfolding acl_read_inv_def by (simp only:)
next
  case nb: False
  let ?rt = "first_char l = Some ROUTE_LEAD_CHAR"
  let ?es = "acl_entries parser dim ls"
  let ?arr = "if ?rt then rd_route_rules s else rd_acl_rules s"
  let ?cnt = "if ?rt then rd_route_cnt s else rd_acl_cnt s"
  have inv: "rd_total_num s = length ?es" "rd_route_cnt s = length (filter fst ?es)"
      "rd_acl_cnt s = length (filter (\<lambda>e. \<not> fst e) ?es)"
      "rd_route_cnt s \<le> length (rd_route_rules s)" "rd_acl_cnt s \<le> length (rd_acl_rules s)"
      "\<forall>i. rd_route_cnt s \<le> i \<and> i < length (rd_route_rules s) \<longrightarrow> rd_route_rules s ! i = zero_acl_rule dim"
      "\<forall>i. rd_acl_cnt s \<le> i \<and> i < length (rd_acl_rules s) \<longrightarrow> rd_acl_rules s ! i = zero_acl_rule dim"
      "set (take (rd_route_cnt s) (rd_route_rules s)) \<union> set (take (rd_acl_cnt s) (rd_acl_rules s))
         = acl_stored mp ?es ` {..<length ?es}"
      "rd_acl_cnt s = length (filter (\<lambda>l. first_char l = Some ACL_LEAD_CHAR) ls)"
      "\<forall>e \<in> set ?es. fst e \<longrightarrow> in_mask m (unat (ar_userdata (snd e)))"
    using assms(2) unfolding acl_read_inv_def Let_def by blast+
  have z: "\<forall>i. ?cnt \<le> i \<and> i < length ?arr \<longrightarrow> ?arr ! i = zero_acl_rule dim" using inv(6,7) by simp
  obtain r where lead: "?rt \<or> first_char l = Some ACL_LEAD_CHAR" and c: "?cnt < length ?arr"
      and r: "parser (tl l) (?arr ! ?cnt) ?rt = Some r" and m: "?rt \<longrightarrow> in_mask m (unat (ar_userdata r))"
    using assms(1) nb by (auto simp: acl_line_def Let_def split: if_splits option.splits)
  let ?n = "r\<lparr>ar_userdata := (if ?rt then ar_userdata r + FWD_PORT_SHIFT else ACL_DENY_SIGNATURE + of_nat ?cnt),
      ar_priority := mp - int (rd_total_num s), ar_category_mask := - 1\<rparr>"
  have t: "t = (if ?rt then s\<lparr>rd_route_rules := ?arr[?cnt := ?n], rd_route_cnt := ?cnt + 1, rd_total_num := rd_total_num s + 1\<rparr>
      else s\<lparr>rd_acl_rules := ?arr[?cnt := ?n], rd_acl_cnt := ?cnt + 1, rd_total_num := rd_total_num s + 1\<rparr>)"
    using assms(1) nb lead c r m by (auto simp: acl_line_def Let_def split: if_splits)
  note f = acl_fill [OF c z]
  have e: "acl_entry parser dim l = (?rt, r)" using r unfolding f(3) by (simp add: acl_entry_def Let_def)
  have es: "acl_entries parser dim (ls @ [l]) = ?es @ [(?rt, r)]" using nb e by (simp add: acl_entries_def)
  have st: "acl_stored mp (?es @ [(?rt, r)]) ` {..<length (?es @ [(?rt, r)])}
      = insert ?n (acl_stored mp ?es ` {..<length ?es})"
  proof -
    have "acl_stored mp (?es @ [(?rt, r)]) (length ?es) = ?n"
      using inv(1-3) by (simp add: acl_stored_def)
    moreover have "acl_stored mp (?es @ [(?rt, r)]) ` {..<length ?es} = acl_stored mp ?es ` {..<length ?es}"
      by (rule image_cong [OF refl]) (simp add: acl_stored_app)
    ultimately show ?thesis by (simp only: length_append_singleton image_lessThan_Suc)
  qed
  have ne: "ROUTE_LEAD_CHAR \<noteq> ACL_LEAD_CHAR" by (simp add: ROUTE_LEAD_CHAR_def ACL_LEAD_CHAR_def)
  show ?thesis
  proof (cases ?rt)
    case True
    then show ?thesis
      using inv f(1,2) c m ne st unfolding acl_read_inv_def Let_def es by (simp add: t)
  next
    case False
    then show ?thesis
      using inv f(1,2) c m lead st unfolding acl_read_inv_def Let_def es by (simp add: t)
  qed
qed

lemma acl_add_rules_entries:
  assumes "acl_add_rules S m mp dim parser path = Inr ((rr, nr), (ar, na))"
  obtains f where "fopen S path = Some f"
    and "set (take nr rr @ take na ar)
      = acl_stored mp (acl_entries parser dim (file_lines f)) ` {..<length (acl_entries parser dim (file_lines f))}"
    and "na = length (filter (\<lambda>e. \<not> fst e) (acl_entries parser dim (file_lines f)))"
    and "na \<le> length ar"
    and "\<And>r. (True, r) \<in> set (acl_entries parser dim (file_lines f)) \<Longrightarrow> in_mask m (unat (ar_userdata r))"
proof -
  obtain f where f: "fopen S path = Some f" using assms by (auto simp: acl_add_rules_def split: option.splits)
  let ?ls = "file_lines f"
  let ?s0 = "\<lparr>rd_route_rules = replicate (length (filter (\<lambda>b. first_char b = Some ROUTE_LEAD_CHAR) ?ls)) (zero_acl_rule dim),
      rd_acl_rules = replicate (length (filter (\<lambda>b. first_char b = Some ACL_LEAD_CHAR) ?ls)) (zero_acl_rule dim),
      rd_route_cnt = 0, rd_acl_cnt = 0, rd_total_num = 0\<rparr>"
  obtain s where s: "foldM (acl_line m mp parser) ?ls ?s0 = Inr s"
      and r: "rr = rd_route_rules s" "nr = rd_route_cnt s" "ar = rd_acl_rules s"
      and na: "na = length (filter (\<lambda>b. first_char b = Some ACL_LEAD_CHAR) ?ls)"
    using assms by (auto simp: acl_add_rules_def f Let_def split: if_splits sum.splits)
  have "acl_read_inv m mp dim parser ?ls s"
    by (rule foldM_passes [where P = "acl_read_inv m mp dim parser", OF s])
       (simp add: acl_read_inv_def acl_entries_def, rule acl_line_inv)
  then have "set (take nr rr) \<union> set (take na ar)
        = acl_stored mp (acl_entries parser dim ?ls) ` {..<length (acl_entries parser dim ?ls)}"
      "na = length (filter (\<lambda>e. \<not> fst e) (acl_entries parser dim ?ls))" "na \<le> length ar"
      "\<forall>e \<in> set (acl_entries parser dim ?ls). fst e \<longrightarrow> in_mask m (unat (ar_userdata (snd e)))"
    unfolding acl_read_inv_def Let_def r na by metis+
  with that [OF f] show thesis by (simp only: set_append) force
qed

section \<open>The first matching entry decides\<close>

lemma find_index:
  "find P xs = map_option ((!) xs) (find (\<lambda>j. P (xs ! j)) [0..<length xs])"
proof (cases "find (\<lambda>j. P (xs ! j)) [0..<length xs]")
  case None
  then have "\<forall>j < length xs. \<not> P (xs ! j)" by (auto simp: find_None_iff)
  then have "find P xs = None" by (auto simp: find_None_iff in_set_conv_nth)
  then show ?thesis using None by simp
next
  case (Some j)
  then have "j < length xs" "P (xs ! j)" "\<forall>i < j. \<not> P (xs ! i)"
    by (auto simp: find_Some_iff)
  then have "find P xs = Some (xs ! j)" by (auto simp: find_Some_iff)
  then show ?thesis using Some by simp
qed

lemma acl_classify_first:
  assumes "acl_lib_ok L" and "set (ac_rules c) = acl_stored mp es ` {..<length es}"
  shows "al_classify L c data =
    (case find (\<lambda>j. acl_matches (ac_defs c) data (snd (es ! j))) [0..<length es] of
       None \<Rightarrow> 0 | Some j \<Rightarrow> ar_userdata (acl_stored mp es j))"
proof (cases "find (\<lambda>j. acl_matches (ac_defs c) data (snd (es ! j))) [0..<length es]")
  case None
  then have "\<forall>r \<in> set (ac_rules c). \<not> acl_matches (ac_defs c) data r"
    unfolding assms(2) by (auto simp: find_None_iff acl_stored_matches)
  then show ?thesis using assms(1) None unfolding acl_lib_ok_def by simp
next
  case (Some j)
  then have j: "j < length es" "acl_matches (ac_defs c) data (snd (es ! j))"
      and least: "\<forall>i < j. \<not> acl_matches (ac_defs c) data (snd (es ! i))"
    by (auto simp: find_Some_iff)
  have mem: "acl_stored mp es j \<in> set (ac_rules c)" "acl_matches (ac_defs c) data (acl_stored mp es j)"
    using j by (simp_all add: assms(2) acl_stored_matches)
  obtain r where r: "r \<in> set (ac_rules c)" "acl_matches (ac_defs c) data r" "al_classify L c data = ar_userdata r"
      "ar_priority (acl_stored mp es j) \<le> ar_priority r"
    using assms(1) mem unfolding acl_lib_ok_def by metis
  obtain k where k: "k < length es" "r = acl_stored mp es k" using r(1) unfolding assms(2) by blast
  have "k \<le> j" using r(4) unfolding k(2) by (simp add: acl_stored_def)
  moreover have "\<not> k < j" using least r(2) unfolding k(2) acl_stored_matches by blast
  ultimately show ?thesis using Some r(3) k(2) by simp
qed

text \<open>From the result of the library to the port.\<close>

definition acl_res_hop :: "u32 \<Rightarrow> u16" where
  "acl_res_hop res = (if res AND ACL_DENY_SIGNATURE = 0 \<and> res \<noteq> 0 then ucast (res - FWD_PORT_SHIFT) else BAD_PORT)"

lemma bit_small_nat: "bit (k :: nat) n \<Longrightarrow> k < 2 ^ m \<Longrightarrow> n < m"
proof (rule ccontr)
  assume "bit k n" "k < 2 ^ m" "\<not> n < m"
  then have "(2 :: nat) ^ m \<le> 2 ^ n" by simp
  then have "k < 2 ^ n" using \<open>k < 2 ^ m\<close> by (rule less_le_trans [rotated])
  then have "k div 2 ^ n = 0" by simp
  then show False using \<open>bit k n\<close> by (simp add: bit_iff_odd)
qed

lemma acl_signature: "ACL_DENY_SIGNATURE = push_bit 28 15"
  by (simp add: ACL_DENY_SIGNATURE_def push_bit_eq_mult)

lemma acl_signature_bit: "bit ACL_DENY_SIGNATURE n \<Longrightarrow> 28 \<le> n"
  by (simp only: acl_signature bit_push_bit_iff)

lemma acl_deny_and:
  assumes "k < 2 ^ 28" shows "(ACL_DENY_SIGNATURE + of_nat k) AND ACL_DENY_SIGNATURE \<noteq> 0"
proof -
  have "ACL_DENY_SIGNATURE + of_nat k = ACL_DENY_SIGNATURE OR of_nat k"
  proof (rule disjunctive_add)
    fix n show "\<not> bit ACL_DENY_SIGNATURE n \<or> \<not> bit (of_nat k :: u32) n"
      using bit_small_nat [OF _ assms, of n] acl_signature_bit [of n] by (auto simp: bit_simps)
  qed
  moreover have "bit ACL_DENY_SIGNATURE 31" by (simp add: acl_signature bit_simps bit_numeral_rec)
  ultimately have "bit ((ACL_DENY_SIGNATURE + of_nat k) AND ACL_DENY_SIGNATURE) 31" by (simp add: bit_simps)
  then show ?thesis by (metis bit_0_eq bot_apply bot_bool_def)
qed

lemma acl_res_hop_deny: "k < 2 ^ 28 \<Longrightarrow> acl_res_hop (ACL_DENY_SIGNATURE + of_nat k) = BAD_PORT"
  by (simp add: acl_res_hop_def acl_deny_and)

lemma acl_res_hop_route:
  assumes "unat u < 2 ^ 16" shows "acl_res_hop (u + FWD_PORT_SHIFT) = ucast u"
proof -
  have s: "unat (u + FWD_PORT_SHIFT) = unat u + 1"
    using assms by (simp add: FWD_PORT_SHIFT_def unat_word_ariths)
  have "(u + FWD_PORT_SHIFT) AND ACL_DENY_SIGNATURE = 0"
  proof (rule bit_word_eqI)
    fix n
    have "bit (unat (u + FWD_PORT_SHIFT)) n \<Longrightarrow> n < 28"
      using bit_small_nat [of _ n 28] s assms by (simp add: bit_small_nat)
    then show "bit ((u + FWD_PORT_SHIFT) AND ACL_DENY_SIGNATURE) n = bit (0 :: u32) n"
      using acl_signature_bit [of n] by (auto simp: bit_simps)
  qed
  moreover have "u + FWD_PORT_SHIFT \<noteq> 0" using s by (metis add_is_0 unat_0 zero_neq_one)
  ultimately show ?thesis by (simp add: acl_res_hop_def)
qed

lemma acl_classify_verdict:
  assumes "acl_lib_ok L" and "set (ac_rules c) = acl_stored mp es ` {..<length es}"
    and "length (filter (\<lambda>e. \<not> fst e) es) < 2 ^ 28" and "\<And>r. (True, r) \<in> set es \<Longrightarrow> unat (ar_userdata r) < 2 ^ 16"
  shows "acl_res_hop (al_classify L c data) = acl_verdict (ac_defs c) es data"
proof (cases "find (\<lambda>j. acl_matches (ac_defs c) data (snd (es ! j))) [0..<length es]")
  case None
  then show ?thesis
    by (simp add: acl_classify_first [OF assms(1,2)] acl_verdict_def find_index [where xs = es] acl_res_hop_def)
next
  case (Some j)
  then have j: "j < length es" by (auto simp: find_Some_iff)
  have v: "acl_verdict (ac_defs c) es data = (if fst (es ! j) then ucast (ar_userdata (snd (es ! j))) else BAD_PORT)"
    using Some by (simp add: acl_verdict_def find_index [where xs = es] case_prod_beta)
  have "length (filter (\<lambda>e. \<not> fst e) (take j es)) \<le> length (filter (\<lambda>e. \<not> fst e) (take j es @ drop j es))"
    by (simp only: filter_append length_append le_add1)
  then have k: "length (filter (\<lambda>e. \<not> fst e) (take j es)) < 2 ^ 28" using assms(3) by simp
  have u: "fst (es ! j) \<Longrightarrow> unat (ar_userdata (snd (es ! j))) < 2 ^ 16"
    using assms(4) [of "snd (es ! j)"] nth_mem [OF j] by (metis prod.collapse)
  show ?thesis
    using Some acl_res_hop_deny [OF k] acl_res_hop_route [OF u]
    unfolding v acl_classify_first [OF assms(1,2)] by (simp add: acl_stored_def)
qed

section \<open>Set-up\<close>

lemma app_acl_init_ctx:
  assumes "app_acl_init L alg rb ab rn an v6 sock = Inr c" and "acl_lib_ok L"
  shows "c = \<lparr>ac_defs = (if v6 then ipv6_defs else ipv4_defs), ac_rules = take rn rb @ take an ab\<rparr>"
    and "length (take an ab) \<le> MAX_ACL_RULE_NUM"
proof -
  have a: "al_add L (length (take rn rb)) (take an ab)"
      and "c = \<lparr>ac_defs = (if v6 then ipv6_defs else ipv4_defs), ac_rules = take rn rb @ take an ab\<rparr>"
    using assms(1) by (auto simp: app_acl_init_def Let_def split: if_splits)
  then show "c = \<lparr>ac_defs = (if v6 then ipv6_defs else ipv4_defs), ac_rules = take rn rb @ take an ab\<rparr>" by simp
  show "length (take an ab) \<le> MAX_ACL_RULE_NUM" using a assms(2) unfolding acl_lib_ok_def by (meson add_leD2)
qed

text \<open>A context that was built from a file.\<close>

definition acl_ctx_of :: "acl_field_def list \<Rightarrow> u32 \<Rightarrow> int \<Rightarrow> (bool \<times> acl_rule) list \<Rightarrow> acl_ctx \<Rightarrow> bool" where
  "acl_ctx_of defs m mp es c \<longleftrightarrow> ac_defs c = defs \<and> set (ac_rules c) = acl_stored mp es ` {..<length es}
     \<and> length (filter (\<lambda>e. \<not> fst e) es) < 2 ^ 28 \<and> (\<forall>r. (True, r) \<in> set es \<longrightarrow> in_mask m (unat (ar_userdata r)))"

lemma acl_ctx_from_file:
  assumes "acl_add_rules S m mp dim parser path = Inr ((rr, nr), (ar, na))" and "fopen S path = Some f"
    and "app_acl_init L alg rr ar nr na v6 sock = Inr c" and "acl_lib_ok L"
  shows "acl_ctx_of (if v6 then ipv6_defs else ipv4_defs) m mp (acl_entries parser dim (file_lines f)) c"
proof -
  obtain f' where "fopen S path = Some f'"
      and 1: "set (take nr rr @ take na ar)
        = acl_stored mp (acl_entries parser dim (file_lines f')) ` {..<length (acl_entries parser dim (file_lines f'))}"
        "na = length (filter (\<lambda>e. \<not> fst e) (acl_entries parser dim (file_lines f')))" "na \<le> length ar"
        "\<And>r. (True, r) \<in> set (acl_entries parser dim (file_lines f')) \<Longrightarrow> in_mask m (unat (ar_userdata r))"
    using acl_add_rules_entries [OF assms(1)] by metis
  then have f: "f' = f" using assms(2) by simp
  note c = app_acl_init_ctx [OF assms(3,4)]
  have "na \<le> 100000" using c(2) 1(3) by (simp add: MAX_ACL_RULE_NUM_def)
  then have "na < 2 ^ 28" by simp
  then show ?thesis using 1 unfolding acl_ctx_of_def c(1) f by simp
qed

lemma acl_setup_ctx:
  assumes "read_config_files_acl S N m mp cfg st0 = Inr st" and "setup_acl L cfg alg sock st = Inr st'"
    and "sock < NB_SOCKETS" and "acl_lib_ok L"
    and "rule_ipv4_name cfg = Some n4" "fopen S n4 = Some f4" "rule_ipv6_name cfg = Some n6" "fopen S n6 = Some f6"
  obtains c4 c6 where "as_ctx4 st' sock = Some c4" and "as_ctx6 st' sock = Some c6"
    and "acl_ctx_of ipv4_defs m mp (acl_entries (parse_cb_ipv4vlan_rule N) (length ipv4_defs) (file_lines f4)) c4"
    and "acl_ctx_of ipv6_defs m mp (acl_entries parse_cb_ipv6_rule (length ipv6_defs) (file_lines f6)) c6"
proof -
  obtain r4 k4 a4 j4 r6 k6 a6 j6
    where 4: "acl_add_rules S m mp (length ipv4_defs) (parse_cb_ipv4vlan_rule N) n4 = Inr ((r4, k4), (a4, j4))"
      and 6: "acl_add_rules S m mp (length ipv6_defs) parse_cb_ipv6_rule n6 = Inr ((r6, k6), (a6, j6))"
      and st: "st = st0\<lparr>as_route4 := Some (r4, k4), as_acl4 := Some (a4, j4), as_route6 := Some (r6, k6), as_acl6 := Some (a6, j6)\<rparr>"
    using assms(1,5,7) by (auto simp: read_config_files_acl_def Let_def split: sum.splits)
  obtain c4 c6 where c4: "app_acl_init L alg r4 a4 k4 j4 False sock = Inr c4"
      and c6: "app_acl_init L alg r6 a6 k6 j6 True sock = Inr c6"
      and st': "as_ctx4 st' sock = Some c4" "as_ctx6 st' sock = Some c6"
    using assms(2,3) unfolding setup_acl_def st by (auto simp: rules_in_def split: if_splits sum.splits)
  show thesis
    using that [OF st'] acl_ctx_from_file [OF 4 assms(6) c4 assms(4)] acl_ctx_from_file [OF 6 assms(8) c6 assms(4)] by simp
qed

section \<open>The four masks of an IPv6 net\<close>

lemma div_split_low:
  assumes "l < 2 ^ n" "l' < (2 :: nat) ^ n" "k \<le> n"
  shows "(h * 2 ^ n + l) div 2 ^ k = (h' * 2 ^ n + l') div 2 ^ k \<longleftrightarrow> h = h' \<and> l div 2 ^ k = l' div 2 ^ k"
proof -
  have e: "(a * 2 ^ n + b) div 2 ^ k = a * 2 ^ (n - k) + b div 2 ^ k" for a b :: nat
  proof -
    have "(2 :: nat) ^ n = 2 ^ (n - k) * 2 ^ k" using assms(3) by (metis le_add_diff_inverse2 power_add)
    then have "a * 2 ^ n + b = b + (a * 2 ^ (n - k)) * 2 ^ k" by simp
    then show ?thesis by (simp only: div_mult_self1 power_not_zero) simp
  qed
  have small: "b div 2 ^ k < 2 ^ (n - k)" if "b < 2 ^ n" for b :: nat
    using that assms(3) by (simp add: less_mult_imp_div_less power_add [symmetric])
  have "h = h'" if eq: "h * 2 ^ (n - k) + l div 2 ^ k = h' * 2 ^ (n - k) + l' div 2 ^ k"
  proof -
    have "(h * 2 ^ (n - k) + l div 2 ^ k) div 2 ^ (n - k) = (h' * 2 ^ (n - k) + l' div 2 ^ k) div 2 ^ (n - k)"
      using eq by simp
    then show ?thesis using small [OF assms(1)] small [OF assms(2)] by simp
  qed
  then show ?thesis unfolding e by auto
qed

lemma div_split_high:
  assumes "l < (2 :: nat) ^ n" "n \<le> k"
  shows "(h * 2 ^ n + l) div 2 ^ k = h div 2 ^ (k - n)"
proof -
  have "(2 :: nat) ^ k = 2 ^ n * 2 ^ (k - n)" using assms(2) by (simp add: power_add [symmetric])
  then have "(h * 2 ^ n + l) div 2 ^ k = (h * 2 ^ n + l) div 2 ^ n div 2 ^ (k - n)" by (simp only: div_mult2_eq)
  then show ?thesis using assms(1) by simp
qed

text \<open>Words of \<open>b\<close> bits, most significant first, as one number.\<close>

definition val4 :: "nat \<Rightarrow> (nat \<Rightarrow> nat) \<Rightarrow> nat" where
  "val4 b w = ((w 0 * 2 ^ b + w 1) * 2 ^ b + w 2) * 2 ^ b + w 3"

definition mask_part :: "nat \<Rightarrow> nat \<Rightarrow> nat \<Rightarrow> nat" where
  "mask_part b m i = (if (i + 1) * b \<le> m then b else if i * b < m then m - i * b else 0)"

lemma prefix_words:
  assumes "\<And>i. w i < 2 ^ b" "\<And>i. w' i < 2 ^ b" and "m \<le> 4 * b"
  shows "(\<forall>i < 4. w i div 2 ^ (b - mask_part b m i) = w' i div 2 ^ (b - mask_part b m i))
    \<longleftrightarrow> val4 b w div 2 ^ (4 * b - m) = val4 b w' div 2 ^ (4 * b - m)"
proof -
  have z: "w i div 2 ^ b = 0" "w' i div 2 ^ b = 0" for i using assms(1,2) by simp_all
  have all4: "(\<forall>i < 4. P i) \<longleftrightarrow> P 0 \<and> P 1 \<and> P 2 \<and> P (3 :: nat)" for P
    by (auto simp: numeral_eq_Suc less_Suc_eq)
  have full: "h * 2 ^ b + w i = h' * 2 ^ b + w' i \<longleftrightarrow> h = h' \<and> w i = w' i" for h h' i
    using div_split_low [OF assms(1,2) [of i], of 0 h h'] by simp
  have hi: "(h * 2 ^ b + w i) div 2 ^ (b + k) = h div 2 ^ k" "(h * 2 ^ b + w' i) div 2 ^ (b + k) = h div 2 ^ k" for h i k
    using div_split_high [OF assms(1) [of i], of "b + k" h] div_split_high [OF assms(2) [of i], of "b + k" h] by simp_all
  consider "m \<le> b" | "b < m" "m \<le> 2 * b" | "2 * b < m" "m \<le> 3 * b" | "3 * b < m" by linarith
  then show ?thesis
  proof cases
    case 1
    then have k: "4 * b - m = b + (b + (b + (b - m)))" by simp
    have "mask_part b m 0 = m" "mask_part b m 1 = 0" "mask_part b m 2 = 0" "mask_part b m 3 = 0"
      using 1 by (auto simp: mask_part_def)
    then show ?thesis unfolding all4 val4_def k hi by (simp add: z)
  next
    case 2
    then have k: "4 * b - m = b + (b + (2 * b - m))" "2 * b - m \<le> b" by simp_all
    have "mask_part b m 0 = b" "mask_part b m 1 = m - b" "mask_part b m 2 = 0" "mask_part b m 3 = 0"
      using 2 by (auto simp: mask_part_def)
    moreover have "b - (m - b) = 2 * b - m" using 2 by simp
    ultimately show ?thesis unfolding all4 val4_def k(1) hi div_split_low [OF assms(1,2) k(2)] by (simp add: z)
  next
    case 3
    then have k: "4 * b - m = b + (3 * b - m)" "3 * b - m \<le> b" by simp_all
    have "mask_part b m 0 = b" "mask_part b m 1 = b" "mask_part b m 2 = m - 2 * b" "mask_part b m 3 = 0"
      using 3 by (auto simp: mask_part_def)
    moreover have "b - (m - 2 * b) = 3 * b - m" using 3 by simp
    ultimately show ?thesis unfolding all4 val4_def k(1) hi div_split_low [OF assms(1,2) k(2)] full by (simp add: z)
  next
    case 4
    then have k: "4 * b - m \<le> b" by simp
    have "mask_part b m 0 = b" "mask_part b m 1 = b" "mask_part b m 2 = b" "mask_part b m 3 = m - 3 * b"
      using 4 assms(3) by (auto simp: mask_part_def)
    moreover have "b - (m - 3 * b) = 4 * b - m" using 4 assms(3) by simp
    ultimately show ?thesis unfolding all4 val4_def div_split_low [OF assms(1,2) k] full by simp
  qed
qed

lemma be_val_4_less: "be_val d off 4 < 2 ^ 32"
proof -
  have "unat (d k) < 256" for k using unsigned_less [of "d k"] by simp
  note b = this [of off] this [of "off + 1"] this [of "off + 2"] this [of "off + 3"]
  show ?thesis using b by (simp add: be_val_def upt_4)
qed

lemma be_val_app: "be_val d off (n + 4) = be_val d off n * 2 ^ 32 + be_val d (off + n) 4"
proof -
  have "[0..<n + 4] = [0..<n] @ [n, n + 1, n + 2, n + 3]" by (simp add: numeral_eq_Suc)
  then show ?thesis by (simp add: be_val_def upt_4 add.assoc distrib_right)
qed

lemma be_val_16: "be_val d off 16 = val4 32 (\<lambda>i. be_val d (off + i * 4) 4)"
  using be_val_app [of d off 12] be_val_app [of d off 8] be_val_app [of d off 4] by (simp add: val4_def)

lemma mask_part_32: "mask_part 32 m i = acl_mask32 m i"
  by (simp add: mask_part_def acl_mask32_def)

text \<open>The fields an IPv6 net fills, and how \<open>ipv6_defs\<close> reads them at the offset of the address.\<close>

definition acl_net_defs :: "nat \<Rightarrow> nat \<Rightarrow> acl_field_def list" where
  "acl_net_defs f off = map (\<lambda>k. \<lparr>fd_type = Field_mask, fd_size = 4, fd_field_index = f + k, fd_input_index = f + k,
     fd_offset = off + k * 4\<rparr>) [0..<4]"

lemma ipv6_defs_nets:
  "take 4 (drop 1 ipv6_defs) = acl_net_defs SRC1_FIELD_IPV6 (IPV6_SRC_ADDR - IPV6_PROTO)"
  "take 4 (drop 5 ipv6_defs) = acl_net_defs DST1_FIELD_IPV6 (IPV6_DST_ADDR - IPV6_PROTO)"
  by (simp_all add: ipv6_defs_def acl_net_defs_def upt_4)

lemma acl_net_fields:
  assumes "f + 4 \<le> length (ar_field v0)" and "i < 4"
  shows "ar_field (fold (\<lambda>i r. set_value (f + i) (a ! i) (set_mask (f + i) (x i) r)) [0..<4] v0) ! (f + i)
    = \<lparr>af_value = a ! i, af_mask = x i\<rparr>"
proof -
  have "i = 0 \<or> i = 1 \<or> i = 2 \<or> i = 3" using assms(2) by linarith
  then show ?thesis using assms(1)
    by (elim disjE) (simp_all add: upt_4 set_value_def set_mask_def)
qed

lemma acl_mask_word: "unat (of_nat (acl_mask32 m i) :: u32) = acl_mask32 m i"
proof -
  have "acl_mask32 m i \<le> 32" unfolding acl_mask32_def by (simp; linarith)
  then show ?thesis by (simp add: unat_of_nat)
qed

text \<open>C21. The four fields an IPv6 net of a rule is split into match an address exactly when its first \<open>m\<close> bits
  are those of the net, for every prefix length \<open>m\<close> from 0 to 128: the split of the length over the four words
  neither loses nor adds a bit.\<close>

theorem acl6_net_is_prefix:
  assumes "acl_parse_ipv6_net inp f v0 = Some v" and "f + 4 \<le> length (ar_field v0)"
  shows "\<exists>a mp m rest. acl_parse_ipv6_addr inp (Some CHR ''/'') = Some (a, mp) \<and> get_cb_field mp 0 128 None = Some (m, rest)
    \<and> (\<forall>data off. acl_matches (acl_net_defs f off) data v
         \<longleftrightarrow> be_val data off 16 div 2 ^ (128 - m) = val4 32 (\<lambda>i. unat (a ! i)) div 2 ^ (128 - m))"
proof -
  obtain a mp m rest where p: "acl_parse_ipv6_addr inp (Some CHR ''/'') = Some (a, mp)"
      and m: "get_cb_field mp 0 128 None = Some (m, rest)"
      and v: "v = fold (\<lambda>i r. set_value (f + i) (a ! i) (set_mask (f + i) (of_nat (acl_mask32 m i)) r)) [0..<4] v0"
    using assms(1) by (auto simp: acl_parse_ipv6_net_def bind_eq_Some_conv)
  have le: "m \<le> 128" using m by (auto simp: get_cb_field_num dest: cb_num_le)
  have "acl_matches (acl_net_defs f off) data v \<longleftrightarrow> (\<forall>i < 4. be_val data (off + i * 4) 4 div 2 ^ (32 - acl_mask32 m i)
      = unat (a ! i) div 2 ^ (32 - acl_mask32 m i))" for data off
    using acl_net_fields [OF assms(2), of _ a "\<lambda>i. of_nat (acl_mask32 m i)"] unfolding v acl_matches_def acl_net_defs_def
    by (auto simp: list_all_iff acl_field_match_def acl_mask_word drop_bit_eq_div)
  moreover have "unat w < 2 ^ 32" for w :: u32 using unsigned_less [of w] by simp
  then have "(\<forall>i < 4. be_val data (off + i * 4) 4 div 2 ^ (32 - acl_mask32 m i) = unat (a ! i) div 2 ^ (32 - acl_mask32 m i))
      \<longleftrightarrow> be_val data off 16 div 2 ^ (128 - m) = val4 32 (\<lambda>i. unat (a ! i)) div 2 ^ (128 - m)" for data off
    using prefix_words [of "\<lambda>i. be_val data (off + i * 4) 4" 32 "\<lambda>i. unat (a ! i)" m, OF be_val_4_less] le
    unfolding mask_part_32 be_val_16 by simp
  ultimately have "acl_matches (acl_net_defs f off) data v
      \<longleftrightarrow> be_val data off 16 div 2 ^ (128 - m) = val4 32 (\<lambda>i. unat (a ! i)) div 2 ^ (128 - m)" for data off by simp
  with p m show ?thesis by blast
qed

lemma strtoul_hex_digit:
  assumes "is_digit 16 d" and "\<not> isspace d" "code_of d \<noteq> 45" "code_of d \<noteq> 43" and "\<not> is_digit 16 c" "\<not> is_x c"
  shows "strtoul (d # c # r) 16 = \<lparr>su_erange = False, su_val = digit_val d, su_end = c # r\<rparr>"
proof -
  have "num_prefix 16 (d # c # r) = (16, d # c # r)"
    using assms(6) by (simp add: num_prefix_def split: list.splits)
  moreover have "digit_val d \<le> ULONG_MAX" using assms(1) by (simp add: is_digit_def ULONG_MAX_def)
  ultimately show ?thesis using assms by (simp add: strtoul_def Let_def num_of_def)
qed

lemma acl_net_ex:
  "\<exists>v. acl_parse_ipv6_net ''1:2:3:4:5:6:7:8/48'' f v0 = Some v \<and> length (ar_field v) = length (ar_field v0)"
proof -
  have d: "is_digit 16 c \<and> \<not> isspace c \<and> code_of c \<noteq> 45 \<and> code_of c \<noteq> 43 \<and> digit_val c \<le> 65535" if "c \<in> set ''12345678''" for c
  proof -
    have "list_all (\<lambda>c. is_digit 16 c \<and> \<not> isspace c \<and> code_of c \<noteq> 45 \<and> code_of c \<noteq> 43 \<and> digit_val c \<le> 8) ''12345678''" by code_simp
    then show ?thesis using that by (auto simp: list_all_iff)
  qed
  have e: "\<not> is_digit 16 CHR '':''" "\<not> is_x CHR '':''" "\<not> is_digit 16 CHR ''/''" "\<not> is_x CHR ''/''" by code_simp+
  have g: "get_cb_field (c # CHR '':'' # r) 16 65535 (Some CHR '':'') = Some (digit_val c, r)"
    and l: "get_cb_field (c # CHR ''/'' # r) 16 65535 (Some CHR ''/'') = Some (digit_val c, r)"
    if "c \<in> set ''12345678''" for c r
    using d [OF that] e by (simp_all add: get_cb_field_def strtoul_hex_digit first_char_def Let_def)
  have "dec 48 = ''48''" by code_simp
  then have m: "get_cb_field ''48'' 0 128 None = Some (48, [])"
    using get_cb_field_num [of "dec 48" 128] cb_num_dec [of 48 128] by (simp add: ULONG_MAX_def)
  have r: "replicate 7 x = [x, x, x, x, x, x, x]" for x :: "char option" by (simp add: numeral_eq_Suc)
  have len: "length (ar_field (fold (\<lambda>i r. set_value (f + i) (V i) (set_mask (f + i) (M i) r)) is v)) = length (ar_field v)"
    for V M "is" v
    by (induction "is" arbitrary: v) (simp_all add: set_value_def set_mask_def)
  show ?thesis by (simp add: acl_parse_ipv6_net_def acl_parse_ipv6_addr_def r g l m len)
qed

text \<open>Applied to the net 1:2:3:4:5:6:7:8/48.\<close>

theorem acl6_net_is_prefix_witness:
  "\<exists>v a mp m rest. acl_parse_ipv6_net ''1:2:3:4:5:6:7:8/48'' SRC1_FIELD_IPV6 (zero_acl_rule 11) = Some v
    \<and> get_cb_field mp 0 128 None = Some (m, rest)
    \<and> acl_matches (acl_net_defs SRC1_FIELD_IPV6 2) (\<lambda>_. 0) v
        = (be_val (\<lambda>_. 0) 2 16 div 2 ^ (128 - m) = val4 32 (\<lambda>i. unat (a ! i :: u32)) div 2 ^ (128 - m))"
proof -
  obtain v where v: "acl_parse_ipv6_net ''1:2:3:4:5:6:7:8/48'' SRC1_FIELD_IPV6 (zero_acl_rule 11) = Some v"
    using acl_net_ex by blast
  have l: "SRC1_FIELD_IPV6 + 4 \<le> length (ar_field (zero_acl_rule 11))" by (simp add: SRC1_FIELD_IPV6_def zero_acl_rule_def)
  obtain a mp m rest where g: "get_cb_field mp 0 128 None = Some (m, rest)"
      and h: "\<forall>data off. acl_matches (acl_net_defs SRC1_FIELD_IPV6 off) data v
        = (be_val data off 16 div 2 ^ (128 - m) = val4 32 (\<lambda>i. unat (a ! i :: u32)) div 2 ^ (128 - m))"
    using acl6_net_is_prefix [OF v l] by (elim exE conjE) (rule that)
  show ?thesis by (intro exI conjI, rule v, rule g, rule h [THEN spec, THEN spec])
qed

end
