(* ===== verification/Acl_Forward.thy ===== *)
theory Acl_Forward
  imports Acl_Rules Poll_Loop
begin

text \<open>
  Forwarding with access control lists (\<open>l3fwd/l3fwd_acl.c\<close>, \<open>l3fwd/l3fwd_acl_scalar.h\<close>): a burst is
  split by family, classified, and put together again; packets without a route or denied are
  dropped. A burst without drops goes through \<open>send_packets_multi\<close>, one with drops through
  \<open>send_packets_single\<close>, both on the same transmit buffers.
\<close>

section \<open>Classifying a burst\<close>

definition TYPE_NONE :: nat where "TYPE_NONE = 0"
definition TYPE_IPV4 :: nat where "TYPE_IPV4 = 1"
definition TYPE_IPV6 :: nat where "TYPE_IPV6 = 2"

text \<open>\<open>struct acl_search_t\<close>: \<open>data_ipv4\<close> and \<open>data_ipv6\<close> up to \<open>num_ipv4\<close> and \<open>num_ipv6\<close>. A pointer into a packet
  is the bytes from there on.\<close>

record acl_search =
  sr_types :: "nat \<Rightarrow> nat"
  sr_data4 :: "mem list"
  sr_data6 :: "mem list"

definition MBUF_IPV4_2PROTO :: "mbuf \<Rightarrow> mem" where
  "MBUF_IPV4_2PROTO m = (\<lambda>i. mb_data m (ETH_LEN + IPV4_NEXT_PROTO + i))"

definition MBUF_IPV6_2PROTO :: "mbuf \<Rightarrow> mem" where
  "MBUF_IPV6_2PROTO m = (\<lambda>i. mb_data m (ETH_LEN + IPV6_PROTO + i))"

definition l3fwd_acl_prepare_one_packet :: "dpdk \<Rightarrow> (nat \<Rightarrow> mbuf) \<Rightarrow> nat \<Rightarrow> acl_search \<Rightarrow> acl_search" where
  "l3fwd_acl_prepare_one_packet E pkts_in index acl =
     (let pkt = pkts_in index
      in if is_ipv4_hdr E (packet_type pkt)
         then acl\<lparr>sr_data4 := sr_data4 acl @ [MBUF_IPV4_2PROTO pkt], sr_types := (sr_types acl)(index := TYPE_IPV4)\<rparr>
         else if is_ipv6_hdr E (packet_type pkt)
         then acl\<lparr>sr_data6 := sr_data6 acl @ [MBUF_IPV6_2PROTO pkt], sr_types := (sr_types acl)(index := TYPE_IPV6)\<rparr>
         else acl\<lparr>sr_types := (sr_types acl)(index := TYPE_NONE)\<rparr>)"

text \<open>Two loops over the packets; the first one also prefetches.\<close>

definition l3fwd_acl_prepare_acl_parameter :: "dpdk \<Rightarrow> (nat \<Rightarrow> mbuf) \<Rightarrow> nat \<Rightarrow> (nat \<Rightarrow> nat) \<Rightarrow> acl_search" where
  "l3fwd_acl_prepare_acl_parameter E pkts_in nb_rx types =
     (let acl = \<lparr>sr_types = types, sr_data4 = [], sr_data6 = []\<rparr>;
          k = nb_rx - PREFETCH_OFFSET
      in fold (l3fwd_acl_prepare_one_packet E pkts_in) [k..<nb_rx]
           (fold (l3fwd_acl_prepare_one_packet E pkts_in) [0..<k] acl))"

text \<open>\<open>rte_acl_classify\<close> on an array of inputs.\<close>

definition acl_classify_all :: "acl_lib \<Rightarrow> acl_ctx \<Rightarrow> mem list \<Rightarrow> u32 list" where
  "acl_classify_all L ctx data = map (al_classify L ctx) data"

text \<open>Putting the results together; the state is \<open>n4\<close>, \<open>n6\<close>, \<open>k\<close> and \<open>hops\<close>.\<close>

definition acl_combine :: "acl_search \<Rightarrow> u32 list \<Rightarrow> u32 list \<Rightarrow> nat \<Rightarrow> nat \<times> nat \<times> nat \<times> (nat \<Rightarrow> u16)
    \<Rightarrow> nat \<times> nat \<times> nat \<times> (nat \<Rightarrow> u16)" where
  "acl_combine acl res4 res6 i st =
     (let (n4, n6, k, hops) = st;
          (res, n4, n6) = (if sr_types acl i = TYPE_IPV4 then (res4 ! n4, n4 + 1, n6)
                           else if sr_types acl i = TYPE_IPV6 then (res6 ! n6, n4, n6 + 1)
                           else (0, n4, n6))
      in if res AND ACL_DENY_SIGNATURE = 0 \<and> res \<noteq> 0
         then (n4, n6, k, hops(i := ucast (res - FWD_PORT_SHIFT)))
         else (n4, n6, k + 1, hops(i := BAD_PORT)))"

definition acl_process_pkts :: "dpdk \<Rightarrow> acl_lib \<Rightarrow> acl_ctx \<Rightarrow> acl_ctx \<Rightarrow> (nat \<Rightarrow> nat) \<Rightarrow> (nat \<Rightarrow> mbuf) \<Rightarrow> (nat \<Rightarrow> u16) \<Rightarrow> nat
    \<Rightarrow> (nat \<Rightarrow> u16) \<times> nat" where
  "acl_process_pkts E L ctx4 ctx6 types pkts hops num =
     (let acl = l3fwd_acl_prepare_acl_parameter E pkts num types;
          res4 = (if sr_data4 acl \<noteq> [] then acl_classify_all L ctx4 (sr_data4 acl) else []);
          res6 = (if sr_data6 acl \<noteq> [] then acl_classify_all L ctx6 (sr_data6 acl) else []);
          (n4, n6, k, hops1) = fold (acl_combine acl res4 res6) [0..<num] (0, 0, 0, hops)
      in (hops1, k))"

section \<open>Sending a burst\<close>

text \<open>\<open>None\<close>: the two arrays of addresses are read outside their bounds.\<close>

fun acl_send_loop :: "dpdk \<Rightarrow> glob \<Rightarrow> (nat \<Rightarrow> mbuf) \<Rightarrow> (nat \<Rightarrow> u16) \<Rightarrow> nat list \<Rightarrow> lcore \<Rightarrow> lcore option" where
  "acl_send_loop E G pkts hops [] s = Some s"
| "acl_send_loop E G pkts hops (j # js) s =
     (let (d, hop) = rfc1812_process E (mb_data (pkts j)) (hops j) (packet_type (pkts j))
      in if hop \<noteq> BAD_PORT then
           (if port_index_bad E hop then None
            else acl_send_loop E G pkts hops js
                   (snd (send_single_packet E G ((pkts j)\<lparr>mb_data := set_mac G hop d\<rparr>) hop s)))
         else acl_send_loop E G pkts hops js (pktmbuf_free ((pkts j)\<lparr>mb_data := d\<rparr>) s))"

definition send_packets_single :: "dpdk \<Rightarrow> glob \<Rightarrow> (nat \<Rightarrow> mbuf) \<Rightarrow> (nat \<Rightarrow> u16) \<Rightarrow> nat \<Rightarrow> lcore \<Rightarrow> lcore option" where
  "send_packets_single E G pkts hops nb_tx s = acl_send_loop E G pkts hops [0..<nb_tx] s"

text \<open>\<open>multi\<close>: the build has one of the vector units (\<open>ACL_SEND_MULTI\<close>).\<close>

definition acl_send_packets :: "bool \<Rightarrow> dpdk \<Rightarrow> glob \<Rightarrow> (nat \<Rightarrow> nat) \<Rightarrow> (nat \<Rightarrow> mbuf) \<Rightarrow> (nat \<Rightarrow> u16) \<Rightarrow> nat \<Rightarrow> nat
    \<Rightarrow> lcore \<Rightarrow> lcore option" where
  "acl_send_packets multi E G pnum0 pkts hops num nb_drop s =
     (if multi \<and> nb_drop = 0 then map_option snd (send_packets_multi E G pnum0 (pkts, hops) num s)
      else send_packets_single E G pkts hops num s)"

section \<open>The main loop\<close>

text \<open>The parameters of the loop; \<open>ap_types\<close> is what the array \<open>types\<close> holds when a burst arrives.\<close>

record acl_prog =
  ap_multi :: bool
  ap_env :: dpdk
  ap_glob :: glob
  ap_lib :: acl_lib
  ap_ctx4 :: acl_ctx
  ap_ctx6 :: acl_ctx
  ap_types :: "loop_in \<Rightarrow> nat \<Rightarrow> nat"

definition acl_forward :: "acl_prog \<Rightarrow> forward" where
  "acl_forward c i nb_rx pkts portid s =
     (let (hops, nb_drop) = acl_process_pkts (ap_env c) (ap_lib c) (ap_ctx4 c) (ap_ctx6 c) (ap_types c i) pkts (in_dst i) nb_rx
      in acl_send_packets (ap_multi c) (ap_env c) (ap_glob c) (in_pnum i) pkts hops nb_rx nb_drop s)"

text \<open>The clock is read at the start of a pass, and \<open>prev_tsc\<close> starts as 0.\<close>

definition acl_pass :: "acl_prog \<Rightarrow> u64 \<Rightarrow> loop_in \<Rightarrow> poll \<Rightarrow> poll option" where
  "acl_pass c drain_tsc i st =
     (let st1 = poll_drain (ap_env c) drain_tsc (st\<lparr>pl_cur := in_tsc i\<rparr>)
      in case poll_queues (acl_forward c) i (queue_ports (pl_core st1)) (pl_core st1) of
           None \<Rightarrow> None
         | Some s \<Rightarrow> Some (st1\<lparr>pl_core := s\<rparr>))"

fun acl_passes :: "acl_prog \<Rightarrow> u64 \<Rightarrow> loop_in list \<Rightarrow> poll \<Rightarrow> poll option" where
  "acl_passes c drain_tsc [] st = Some st"
| "acl_passes c drain_tsc (i # ins) st =
     (case acl_pass c drain_tsc i st of None \<Rightarrow> None | Some st' \<Rightarrow> acl_passes c drain_tsc ins st')"

definition acl_main_loop :: "acl_prog \<Rightarrow> u64 \<Rightarrow> loop_in list \<Rightarrow> lcore \<Rightarrow> poll option" where
  "acl_main_loop c hz ins s =
     (let st0 = \<lparr>pl_core = s, pl_prev = 0, pl_cur = 0\<rparr>
      in if rx_queue_list s = [] then Some st0 else acl_passes c (drain_tsc_of hz) ins st0)"

section \<open>One packet\<close>

definition acl_res :: "dpdk \<Rightarrow> acl_lib \<Rightarrow> acl_ctx \<Rightarrow> acl_ctx \<Rightarrow> mbuf \<Rightarrow> u32" where
  "acl_res E L c4 c6 m =
     (if is_ipv4_hdr E (packet_type m) then al_classify L c4 (MBUF_IPV4_2PROTO m)
      else if is_ipv6_hdr E (packet_type m) then al_classify L c6 (MBUF_IPV6_2PROTO m) else 0)"

definition acl_type :: "dpdk \<Rightarrow> mbuf \<Rightarrow> nat" where
  "acl_type E m = (if is_ipv4_hdr E (packet_type m) then TYPE_IPV4
     else if is_ipv6_hdr E (packet_type m) then TYPE_IPV6 else TYPE_NONE)"

definition acl_fam :: "dpdk \<Rightarrow> nat \<Rightarrow> (nat \<Rightarrow> mbuf) \<Rightarrow> nat \<Rightarrow> nat list" where
  "acl_fam E t P n = filter (\<lambda>k. acl_type E (P k) = t) [0..<n]"

lemma acl_fam_Suc: "acl_fam E t P (Suc n) = acl_fam E t P n @ (if acl_type E (P n) = t then [n] else [])"
  by (simp add: acl_fam_def)

lemma acl_fam_nth: "i < n \<Longrightarrow> acl_type E (P i) = t \<Longrightarrow>
    length (acl_fam E t P i) < length (acl_fam E t P n) \<and> acl_fam E t P n ! length (acl_fam E t P i) = i"
proof (induction n)
  case (Suc n)
  then show ?case by (cases "i = n") (auto simp: acl_fam_Suc nth_append)
qed simp

lemma type_consts [simp]: "TYPE_IPV4 \<noteq> TYPE_IPV6" "TYPE_IPV6 \<noteq> TYPE_IPV4" "TYPE_NONE \<noteq> TYPE_IPV4" "TYPE_NONE \<noteq> TYPE_IPV6"
  by (simp_all add: TYPE_NONE_def TYPE_IPV4_def TYPE_IPV6_def)

lemma acl_prepare_eq:
  "l3fwd_acl_prepare_acl_parameter E P n types =
     \<lparr>sr_types = (\<lambda>k. if k < n then acl_type E (P k) else types k),
      sr_data4 = map (\<lambda>k. MBUF_IPV4_2PROTO (P k)) (acl_fam E TYPE_IPV4 P n),
      sr_data6 = map (\<lambda>k. MBUF_IPV6_2PROTO (P k)) (acl_fam E TYPE_IPV6 P n)\<rparr>"
proof -
  have loop: "fold (l3fwd_acl_prepare_one_packet E P) [0..<i] \<lparr>sr_types = types, sr_data4 = [], sr_data6 = []\<rparr>
      = \<lparr>sr_types = (\<lambda>k. if k < i then acl_type E (P k) else types k),
         sr_data4 = map (\<lambda>k. MBUF_IPV4_2PROTO (P k)) (acl_fam E TYPE_IPV4 P i),
         sr_data6 = map (\<lambda>k. MBUF_IPV6_2PROTO (P k)) (acl_fam E TYPE_IPV6 P i)\<rparr>" for i
  proof (induction i)
    case 0
    show ?case by (simp add: acl_fam_def)
  next
    case (Suc i)
    then show ?case
      by (auto simp: l3fwd_acl_prepare_one_packet_def acl_fam_Suc acl_type_def Let_def less_Suc_eq fun_eq_iff)
  qed
  have join: "fold f [n - PREFETCH_OFFSET..<n] (fold f [0..<n - PREFETCH_OFFSET] x) = fold f [0..<n] x" for f x
  proof -
    have "[0..<n] = [0..<n - PREFETCH_OFFSET] @ [n - PREFETCH_OFFSET..<n]"
      using upt_add_eq_append [of 0 "n - PREFETCH_OFFSET" "n - (n - PREFETCH_OFFSET)"] by simp
    then show ?thesis by simp
  qed
  show ?thesis by (simp only: l3fwd_acl_prepare_acl_parameter_def Let_def join loop)
qed

definition acl_dropped :: "u32 \<Rightarrow> bool" where
  "acl_dropped res \<longleftrightarrow> res AND ACL_DENY_SIGNATURE \<noteq> 0 \<or> res = 0"

lemma acl_process_pkts_eq:
  "acl_process_pkts E L c4 c6 types P D n =
     (\<lambda>k. if k < n then acl_res_hop (acl_res E L c4 c6 (P k)) else D k,
      length (filter (\<lambda>k. acl_dropped (acl_res E L c4 c6 (P k))) [0..<n]))"
proof -
  let ?a = "l3fwd_acl_prepare_acl_parameter E P n types"
  let ?r4 = "if sr_data4 ?a \<noteq> [] then acl_classify_all L c4 (sr_data4 ?a) else []"
  let ?r6 = "if sr_data6 ?a \<noteq> [] then acl_classify_all L c6 (sr_data6 ?a) else []"
  let ?r = "\<lambda>k. acl_res E L c4 c6 (P k)"
  have r4: "?r4 = map (\<lambda>k. al_classify L c4 (MBUF_IPV4_2PROTO (P k))) (acl_fam E TYPE_IPV4 P n)"
    and r6: "?r6 = map (\<lambda>k. al_classify L c6 (MBUF_IPV6_2PROTO (P k))) (acl_fam E TYPE_IPV6 P n)"
    by (auto simp: acl_prepare_eq acl_classify_all_def)
  have "i \<le> n \<Longrightarrow> fold (acl_combine ?a ?r4 ?r6) [0..<i] (0, 0, 0, D) =
      (length (acl_fam E TYPE_IPV4 P i), length (acl_fam E TYPE_IPV6 P i),
       length (filter (\<lambda>k. acl_dropped (?r k)) [0..<i]),
       \<lambda>k. if k < i then acl_res_hop (?r k) else D k)" for i
  proof (induction i)
    case 0
    show ?case by (simp add: acl_fam_def)
  next
    case (Suc i)
    then have i: "i < n" by simp
    have t: "sr_types ?a i = acl_type E (P i)" using i by (simp add: acl_prepare_eq)
    have "acl_type E (P i) = TYPE_IPV4 \<Longrightarrow> ?r4 ! length (acl_fam E TYPE_IPV4 P i) = ?r i"
      using acl_fam_nth [OF i, of E P TYPE_IPV4] unfolding r4
      by (auto simp: acl_res_def acl_type_def split: if_splits)
    moreover have "acl_type E (P i) = TYPE_IPV6 \<Longrightarrow> ?r6 ! length (acl_fam E TYPE_IPV6 P i) = ?r i"
      using acl_fam_nth [OF i, of E P TYPE_IPV6] unfolding r6
      by (auto simp: acl_res_def acl_type_def split: if_splits)
    moreover have "acl_type E (P i) \<noteq> TYPE_IPV4 \<Longrightarrow> acl_type E (P i) \<noteq> TYPE_IPV6 \<Longrightarrow> ?r i = 0"
      by (auto simp: acl_res_def acl_type_def split: if_splits)
    ultimately have "acl_combine ?a ?r4 ?r6 i (length (acl_fam E TYPE_IPV4 P i), length (acl_fam E TYPE_IPV6 P i), k, h)
        = (length (acl_fam E TYPE_IPV4 P (Suc i)), length (acl_fam E TYPE_IPV6 P (Suc i)),
           if ?r i AND ACL_DENY_SIGNATURE = 0 \<and> ?r i \<noteq> 0 then k else k + 1, h(i := acl_res_hop (?r i)))" for k h
      unfolding acl_combine_def t Let_def prod.case
      by (cases "acl_type E (P i) = TYPE_IPV4"; cases "acl_type E (P i) = TYPE_IPV6")
         (simp_all add: acl_fam_Suc acl_res_hop_def)
    then show ?case using Suc by (auto simp: acl_dropped_def fun_eq_iff less_Suc_eq)
  qed
  from this [of n] show ?thesis by (simp add: acl_process_pkts_def Let_def)
qed

section \<open>The file decides\<close>

lemma acl_dropped_hop: "acl_dropped res \<Longrightarrow> acl_res_hop res = BAD_PORT"
  by (auto simp: acl_dropped_def acl_res_hop_def)

text \<open>A context built from a file whose ports are small enough for a 16 bit word.\<close>

lemma acl_ctx_verdict:
  assumes "acl_lib_ok L" and "acl_ctx_of defs m mp es c" and "\<And>r. (True, r) \<in> set es \<Longrightarrow> unat (ar_userdata r) < 65535"
  shows "acl_res_hop (al_classify L c data) = acl_verdict defs es data"
    and "acl_dropped (al_classify L c data) \<longleftrightarrow> acl_verdict defs es data = BAD_PORT"
proof -
  have c: "ac_defs c = defs" "set (ac_rules c) = acl_stored mp es ` {..<length es}"
      "length (filter (\<lambda>e. \<not> fst e) es) < 2 ^ 28"
    using assms(2) by (simp_all add: acl_ctx_of_def)
  have u: "(True, r) \<in> set es \<Longrightarrow> unat (ar_userdata r) < 2 ^ 16" for r using assms(3) [of r] by simp
  have v: "acl_res_hop (al_classify L c data) = acl_verdict defs es data"
    using acl_classify_verdict [OF assms(1) c(2,3) u] by (simp add: c(1))
  show "acl_res_hop (al_classify L c data) = acl_verdict defs es data" by (rule v)
  show "acl_dropped (al_classify L c data) \<longleftrightarrow> acl_verdict defs es data = BAD_PORT"
  proof
    assume "acl_dropped (al_classify L c data)"
    then show "acl_verdict defs es data = BAD_PORT" using acl_dropped_hop v by simp
  next
    assume b: "acl_verdict defs es data = BAD_PORT"
    show "acl_dropped (al_classify L c data)"
    proof (cases "find (\<lambda>j. acl_matches defs data (snd (es ! j))) [0..<length es]")
      case None
      then show ?thesis using acl_classify_first [OF assms(1) c(2), of data] by (simp add: c(1) acl_dropped_def)
    next
      case (Some j)
      then have j: "j < length es" by (auto simp: find_Some_iff)
      have w: "acl_verdict defs es data = (if fst (es ! j) then ucast (ar_userdata (snd (es ! j))) else BAD_PORT)"
        using Some by (simp add: acl_verdict_def find_index [where xs = es] case_prod_beta)
      have "\<not> fst (es ! j)"
      proof
        assume f: "fst (es ! j)"
        then have "unat (ar_userdata (snd (es ! j))) < 65535"
          using assms(3) [of "snd (es ! j)"] nth_mem [OF j] by (metis prod.collapse)
        moreover have "unat (ucast (ar_userdata (snd (es ! j))) :: u16) = 65535"
          using b f unfolding w by (simp add: BAD_PORT_def unsigned_minus_1_eq_mask mask_eq_exp_minus_1)
        ultimately show False by (simp add: unsigned_ucast_eq take_bit_nat_eq_self)
      qed
      then have r: "al_classify L c data = ACL_DENY_SIGNATURE + of_nat (length (filter (\<lambda>e. \<not> fst e) (take j es)))"
        using acl_classify_first [OF assms(1) c(2), of data] Some by (simp add: c(1) acl_stored_def)
      have "length (filter (\<lambda>e. \<not> fst e) (take j es)) \<le> length (filter (\<lambda>e. \<not> fst e) (take j es @ drop j es))"
        by (simp only: filter_append length_append le_add1)
      then have "length (filter (\<lambda>e. \<not> fst e) (take j es)) < 2 ^ 28" using c(3) by simp
      then show ?thesis using acl_deny_and unfolding r acl_dropped_def by blast
    qed
  qed
qed

text \<open>The port a packet is sent to, by the entries of the two files.\<close>

definition acl_port_of :: "dpdk \<Rightarrow> (bool \<times> acl_rule) list \<Rightarrow> (bool \<times> acl_rule) list \<Rightarrow> mbuf \<Rightarrow> u16" where
  "acl_port_of E es4 es6 m =
     (if is_ipv4_hdr E (packet_type m) then acl_verdict ipv4_defs es4 (MBUF_IPV4_2PROTO m)
      else if is_ipv6_hdr E (packet_type m) then acl_verdict ipv6_defs es6 (MBUF_IPV6_2PROTO m)
      else BAD_PORT)"

definition acl_ports_small :: "(bool \<times> acl_rule) list \<Rightarrow> nat \<Rightarrow> bool" where
  "acl_ports_small es n \<longleftrightarrow> list_all (\<lambda>e. if fst e then unat (ar_userdata (snd e)) < n else True) es"

lemma acl_ports_smallD: "acl_ports_small es n \<Longrightarrow> (True, r) \<in> set es \<Longrightarrow> unat (ar_userdata r) < n"
  by (force simp: acl_ports_small_def list_all_iff)

lemma acl_res_port:
  assumes "acl_lib_ok L" and "acl_ctx_of ipv4_defs m mp es4 c4" and "acl_ctx_of ipv6_defs m mp es6 c6"
    and "acl_ports_small es4 65535" and "acl_ports_small es6 65535"
  shows "acl_res_hop (acl_res E L c4 c6 p) = acl_port_of E es4 es6 p
    \<and> (acl_dropped (acl_res E L c4 c6 p) \<longleftrightarrow> acl_port_of E es4 es6 p = BAD_PORT)"
  using acl_ctx_verdict [OF assms(1,2) acl_ports_smallD [OF assms(4)], of "MBUF_IPV4_2PROTO p"]
    acl_ctx_verdict [OF assms(1,3) acl_ports_smallD [OF assms(5)], of "MBUF_IPV6_2PROTO p"]
  by (auto simp: acl_res_def acl_port_of_def acl_res_hop_def acl_dropped_def)

section \<open>The precedence that is documented\<close>

text \<open>What the comment at \<open>ACL_RULE_PRIORITY_MAX\<close> in \<open>l3fwd_acl.h\<close> asks for: ACL rules outrank routes, so a packet that
  an ACL rule matches is dropped wherever the rule stands; any other goes by the first route that matches.\<close>

definition acl_documented :: "acl_field_def list \<Rightarrow> (bool \<times> acl_rule) list \<Rightarrow> mem \<Rightarrow> u16" where
  "acl_documented defs es data =
     (if list_ex (\<lambda>e. \<not> fst e \<and> acl_matches defs data (snd e)) es then BAD_PORT
      else case find (\<lambda>e. fst e \<and> acl_matches defs data (snd e)) es of
        None \<Rightarrow> BAD_PORT | Some e \<Rightarrow> ucast (ar_userdata (snd e)))"

text \<open>The first line that matches is a route and a later one is an ACL line that matches, too.\<close>

definition acl_shadowed :: "acl_field_def list \<Rightarrow> (bool \<times> acl_rule) list \<Rightarrow> mem \<Rightarrow> bool" where
  "acl_shadowed defs es data =
     (case find (\<lambda>e. acl_matches defs data (snd e)) es of None \<Rightarrow> False
      | Some e \<Rightarrow> fst e \<and> list_ex (\<lambda>e. \<not> fst e \<and> acl_matches defs data (snd e)) es)"

text \<open>A destination port that was read is below 65535, so it is not \<open>BAD_PORT\<close>.\<close>

lemma small_userdata: "unat (v :: u32) < 65535 \<Longrightarrow> (ucast v :: u16) \<noteq> BAD_PORT"
proof
  assume v: "unat v < 65535" and e: "(ucast v :: u16) = BAD_PORT"
  have "unat (ucast v :: u16) = unat v" using v by (simp add: unsigned_ucast_eq take_bit_eq_mod)
  moreover have "unat BAD_PORT = 65535" by (simp add: BAD_PORT_def unsigned_minus_1_eq_mask mask_eq_exp_minus_1)
  ultimately show False using v e by simp
qed

lemma acl_verdict_documented:
  assumes "acl_ports_small es 65535"
  shows "acl_verdict defs es data = acl_documented defs es data \<longleftrightarrow> \<not> acl_shadowed defs es data"
proof -
  let ?m = "\<lambda>e. acl_matches defs data (snd e)"
  have f: "find (\<lambda>e. fst e \<and> ?m e) es = find ?m es" if "\<not> list_ex (\<lambda>e. \<not> fst e \<and> ?m e) es"
    using that by (induction es) auto
  show ?thesis
  proof (cases "find ?m es")
    case None
    then have "\<not> list_ex (\<lambda>e. \<not> fst e \<and> ?m e) es" by (auto simp: find_None_iff list_ex_iff)
    then show ?thesis using None f by (simp add: acl_verdict_def acl_documented_def acl_shadowed_def)
  next
    case (Some e)
    obtain b r where e: "e = (b, r)" by (cases e)
    have "e \<in> set es" "?m e" using Some by (auto simp: find_Some_iff)
    then have in_es: "(b, r) \<in> set es" "acl_matches defs data r" by (simp_all add: e)
    then have "b \<Longrightarrow> (ucast (ar_userdata r) :: u16) \<noteq> BAD_PORT"
      using acl_ports_smallD [OF assms, of r] small_userdata [of "ar_userdata r"] by simp
    moreover have "\<not> b \<Longrightarrow> list_ex (\<lambda>e. \<not> fst e \<and> ?m e) es" using in_es by (force simp: list_ex_iff)
    ultimately show ?thesis using Some f
      by (auto simp: acl_verdict_def acl_documented_def acl_shadowed_def e)
  qed
qed

text \<open>The same for a packet, by its family and the two files.\<close>

definition acl_documented_port :: "dpdk \<Rightarrow> (bool \<times> acl_rule) list \<Rightarrow> (bool \<times> acl_rule) list \<Rightarrow> mbuf \<Rightarrow> u16" where
  "acl_documented_port E es4 es6 m =
     (if is_ipv4_hdr E (packet_type m) then acl_documented ipv4_defs es4 (MBUF_IPV4_2PROTO m)
      else if is_ipv6_hdr E (packet_type m) then acl_documented ipv6_defs es6 (MBUF_IPV6_2PROTO m)
      else BAD_PORT)"

definition acl_shadowed_pkt :: "dpdk \<Rightarrow> (bool \<times> acl_rule) list \<Rightarrow> (bool \<times> acl_rule) list \<Rightarrow> mbuf \<Rightarrow> bool" where
  "acl_shadowed_pkt E es4 es6 m =
     (if is_ipv4_hdr E (packet_type m) then acl_shadowed ipv4_defs es4 (MBUF_IPV4_2PROTO m)
      else is_ipv6_hdr E (packet_type m) \<and> acl_shadowed ipv6_defs es6 (MBUF_IPV6_2PROTO m))"

lemma acl_port_documented:
  assumes "acl_ports_small es4 65535" and "acl_ports_small es6 65535"
  shows "acl_port_of E es4 es6 m = acl_documented_port E es4 es6 m \<longleftrightarrow> \<not> acl_shadowed_pkt E es4 es6 m"
  using acl_verdict_documented [OF assms(1)] acl_verdict_documented [OF assms(2)]
  by (simp add: acl_port_of_def acl_documented_port_def acl_shadowed_pkt_def)

text \<open>With the ACL lines before the routes the two agree; an ACL line after a route for the same packets is shadowed.\<close>

lemma acl_lines_first:
  assumes "list_all (\<lambda>e. \<not> fst e) as" and "list_all fst rs"
  shows "\<not> acl_shadowed defs (as @ rs) data"
proof -
  let ?m = "\<lambda>e. acl_matches defs data (snd e)"
  have "\<not> fst e" if "find ?m (as @ rs) = Some e" "list_ex (\<lambda>e. \<not> fst e \<and> ?m e) (as @ rs)" for e
    using that assms by (induction as) (auto simp: list_ex_iff list_all_iff split: if_splits)
  then show ?thesis by (auto simp: acl_shadowed_def split: option.splits)
qed

lemma acl_line_after_route:
  assumes "acl_matches defs data r" and "acl_matches defs data r'"
  shows "acl_shadowed defs [(True, r), (False, r')] data"
    and "acl_verdict defs [(True, r), (False, r')] data = ucast (ar_userdata r)"
    and "acl_documented defs [(True, r), (False, r')] data = BAD_PORT"
  using assms by (simp_all add: acl_shadowed_def acl_verdict_def acl_documented_def)

text \<open>C19. Which line of a rule file decides, against the precedence the comment in \<open>l3fwd_acl.h\<close> promises. When the
  files were read and the set-up of a socket succeeded, then in every burst of IPv4, IPv6 and other packets in any
  order each packet gets the port of the first line of its file that matches when that line is a route, and is dropped when it
  is an ACL line, when no line matches or when it is of neither family; the count that is returned is that of the dropped
  packets. That is the verdict with ACL rules above all routes for exactly those packets that are not shadowed: a packet whose
  first matching line is a route is forwarded although a later ACL line matches it, where the comment has it dropped.\<close>

theorem acl_first_line_decides:
  assumes "read_config_files_acl S N m mp cfg st0 = Inr st" and "setup_acl L cfg alg sock st = Inr st'"
    and "sock < NB_SOCKETS" and "acl_lib_ok L"
    and "rule_ipv4_name cfg = Some n4" "fopen S n4 = Some f4" "rule_ipv6_name cfg = Some n6" "fopen S n6 = Some f6"
    and "es4 = acl_entries (parse_cb_ipv4vlan_rule N) (length ipv4_defs) (file_lines f4)"
    and "es6 = acl_entries parse_cb_ipv6_rule (length ipv6_defs) (file_lines f6)"
    and "acl_ports_small es4 65535" and "acl_ports_small es6 65535"
  shows "\<exists>c4 c6. as_ctx4 st' sock = Some c4 \<and> as_ctx6 st' sock = Some c6
    \<and> acl_process_pkts E L c4 c6 types P D n
      = (\<lambda>k. if k < n then acl_port_of E es4 es6 (P k) else D k,
         length (filter (\<lambda>k. acl_port_of E es4 es6 (P k) = BAD_PORT) [0..<n]))
    \<and> (\<forall>k<n. fst (acl_process_pkts E L c4 c6 types P D n) k = acl_documented_port E es4 es6 (P k)
          \<longleftrightarrow> \<not> acl_shadowed_pkt E es4 es6 (P k))"
proof -
  obtain c4 c6 where c: "as_ctx4 st' sock = Some c4" "as_ctx6 st' sock = Some c6"
      "acl_ctx_of ipv4_defs m mp es4 c4" "acl_ctx_of ipv6_defs m mp es6 c6"
    using acl_setup_ctx [OF assms(1-8)] unfolding assms(9,10) by metis
  note r = acl_res_port [OF assms(4) c(3,4) assms(11,12)]
  have "acl_process_pkts E L c4 c6 types P D n
      = (\<lambda>k. if k < n then acl_port_of E es4 es6 (P k) else D k,
         length (filter (\<lambda>k. acl_port_of E es4 es6 (P k) = BAD_PORT) [0..<n]))"
    by (simp only: acl_process_pkts_eq r)
  moreover from this have "\<forall>k<n. fst (acl_process_pkts E L c4 c6 types P D n) k = acl_documented_port E es4 es6 (P k)
      \<longleftrightarrow> \<not> acl_shadowed_pkt E es4 es6 (P k)"
    using acl_port_documented [OF assms(11,12)] by simp
  ultimately show ?thesis using c(1,2) by (intro exI conjI)
qed

section \<open>No packet is lost\<close>

definition acl_good :: "acl_prog \<Rightarrow> bool" where
  "acl_good c \<longleftrightarrow> tx_burst_ok (ap_env c) \<and> ports_16 (ap_env c) \<and> rx_burst_size (ap_glob c) = MAX_PKT_BURST
     \<and> (\<forall>m. let r = acl_res (ap_env c) (ap_lib c) (ap_ctx4 c) (ap_ctx6 c) m in acl_dropped r \<or> port_ok (ap_env c) (acl_res_hop r))"

lemma held_free: "held (pktmbuf_free m s) = held s + {#mb_id m#}" "same_conf s (pktmbuf_free m s)"
proof -
  have "buffered (pktmbuf_free m s) = buffered s" by (simp add: buffered_def pktmbuf_free_def fun_eq_iff)
  then show "held (pktmbuf_free m s) = held s + {#mb_id m#}"
    by (simp add: held_def content_def tx_view_def) (simp add: pktmbuf_free_def)
  show "same_conf s (pktmbuf_free m s)" by (simp add: pktmbuf_free_def same_conf_def)
qed

lemma rfc1812_port: "snd (rfc1812_process E d hop t) = hop \<or> snd (rfc1812_process E d hop t) = BAD_PORT"
  by (simp add: rfc1812_process_def Let_def)

lemma acl_send_loop_holds:
  assumes "tx_burst_ok E" and "single_good G n"
  shows "\<forall>j \<in> set js. hops j = BAD_PORT \<or> port_ok E (hops j) \<Longrightarrow> tx_inv (rx_burst_size G) s \<Longrightarrow>
    \<exists>s'. acl_send_loop E G P hops js s = Some s' \<and> tx_inv (rx_burst_size G) s' \<and> same_conf s s'
      \<and> held s' = held s + mset (map (\<lambda>j. mb_id (P j)) js)"
proof (induction js arbitrary: s)
  case (Cons j js)
  obtain d hop where r: "rfc1812_process E (mb_data (P j)) (hops j) (packet_type (P j)) = (d, hop)" by fastforce
  have hop: "hop = hops j \<or> hop = BAD_PORT" using rfc1812_port [of E "mb_data (P j)" "hops j" "packet_type (P j)"] by (simp add: r)
  have js: "\<forall>j \<in> set js. hops j = BAD_PORT \<or> port_ok E (hops j)" using Cons.prems(1) by simp
  show ?case
  proof (cases "hop = BAD_PORT")
    case True
    let ?s = "pktmbuf_free ((P j)\<lparr>mb_data := d\<rparr>) s"
    have "tx_inv (rx_burst_size G) ?s" using Cons.prems(2) by (simp add: free_one)
    from Cons.IH [OF js this] show ?thesis using True held_free [where m = "(P j)\<lparr>mb_data := d\<rparr>" and s = s]
      by (auto simp: r same_conf_def)
  next
    case False
    then have p: "port_ok E hop" using hop Cons.prems(1) by auto
    let ?m = "(P j)\<lparr>mb_data := set_mac G hop d\<rparr>"
    let ?s = "snd (send_single_packet E G ?m hop s)"
    note v = single_step [OF assms p Cons.prems(2), where m = "?m"]
    have h: "held ?s = held s + {#mb_id (P j)#}" by (simp add: held_def v(1) abs_single_content)
    have "same_conf s ?s" by (rule send_single_packet_conf)
    then show ?thesis using Cons.IH [OF js v(2)] False p h by (auto simp: r same_conf_def)
  qed
qed simp

interpretation acl: burst_sender acl_good ap_env acl_forward
proof
  fix c :: acl_prog and p :: u16 and s :: lcore and n :: nat and P :: "nat \<Rightarrow> mbuf" and i :: loop_in
  assume good: "acl_good c"
  let ?E = "ap_env c" and ?G = "ap_glob c"
  have hop: "acl_dropped (acl_res ?E (ap_lib c) (ap_ctx4 c) (ap_ctx6 c) m)
      \<or> port_ok ?E (acl_res_hop (acl_res ?E (ap_lib c) (ap_ctx4 c) (ap_ctx6 c) m))" for m
    using good by (simp add: acl_good_def Let_def)
  show "tx_burst_ok ?E" using good by (simp add: acl_good_def)
  assume p: "port_ok ?E p" and inv: "tx_inv MAX_PKT_BURST s" and n: "0 < n" "n \<le> MAX_PKT_BURST"
  let ?r = "\<lambda>k. acl_res ?E (ap_lib c) (ap_ctx4 c) (ap_ctx6 c) (P k)"
  let ?D = "\<lambda>k. if k < n then acl_res_hop (?r k) else in_dst i k"
  let ?k = "length (filter (\<lambda>k. acl_dropped (?r k)) [0..<n])"
  have f: "acl_forward c i n P p s = acl_send_packets (ap_multi c) ?E ?G (in_pnum i) P ?D n ?k s"
    by (simp add: acl_forward_def acl_process_pkts_eq)
  have g3: "tx_burst_ok ?E" "ports_16 ?E" "rx_burst_size ?G = MAX_PKT_BURST" using good by (simp_all add: acl_good_def)
  show "\<exists>s'. acl_forward c i n P p s = Some s' \<and> tx_inv MAX_PKT_BURST s' \<and> same_conf s s'
      \<and> held s' = held s + mset (map (\<lambda>k. mb_id (P k)) [0..<n])"
  proof (cases "ap_multi c \<and> ?k = 0")
    case True
    then have "\<forall>k < n. \<not> acl_dropped (?r k)" by (simp add: filter_empty_conv)
    then have "\<forall>k < n. port_ok ?E (snd (P, ?D) k)" using hop by auto
    from multi_holds [OF g3(1,2) inv n this, of ?G "in_pnum i"] show ?thesis
      using True by (auto simp: f acl_send_packets_def)
  next
    case False
    have "single_good ?G n" using g3(3) MAX_PKT_BURST_pos by (simp add: single_good_def)
    moreover have "\<forall>k \<in> set [0..<n]. ?D k = BAD_PORT \<or> port_ok ?E (?D k)" using hop acl_dropped_hop by auto
    moreover have "tx_inv (rx_burst_size ?G) s" using inv by (simp add: g3(3))
    ultimately show ?thesis
      using acl_send_loop_holds [OF g3(1), of ?G n "[0..<n]" ?D s P] False
      by (auto simp: f acl_send_packets_def send_packets_single_def g3(3))
  qed
qed

lemma acl_pass_holds:
  assumes "acl_good c" and "bursts_fit i" and "poll_ok (ap_env c) (pl_core st)"
  shows "\<exists>st'. acl_pass c dt i st = Some st' \<and> poll_ok (ap_env c) (pl_core st') \<and> same_conf (pl_core st) (pl_core st')
    \<and> held (pl_core st') = held (pl_core st) + mset (arrived i [0..<length (rx_queue_list (pl_core st))])"
proof -
  let ?st = "st\<lparr>pl_cur := in_tsc i\<rparr>"
  let ?s1 = "pl_core (poll_drain (ap_env c) dt ?st)"
  have "poll_ok (ap_env c) (pl_core ?st)" using assms(3) by simp
  from acl.drain_holds [OF assms(1) this, of dt]
  have d: "poll_ok (ap_env c) ?s1" "same_conf (pl_core st) ?s1" "held ?s1 = held (pl_core st)" by simp_all
  have "port_ok (ap_env c) (fst (rx_queue_list ?s1 ! k))" if "k < length (rx_queue_list ?s1)" for k
    using d(1) nth_mem [OF that] by (auto simp: poll_ok_def case_prod_beta)
  then have q: "\<forall>(k, p) \<in> set (queue_ports ?s1). port_ok (ap_env c) p"
    by (auto simp: in_set_enumerate_eq) (metis fst_conv)
  have k: "map fst (queue_ports ?s1) = [0..<length (rx_queue_list (pl_core st))]"
    using d(2) by (simp add: comp_def case_prod_beta same_conf_def)
  obtain s' where "poll_queues (acl_forward c) i (queue_ports ?s1) ?s1 = Some s'" "poll_ok (ap_env c) s'" "same_conf ?s1 s'"
      "held s' = held ?s1 + mset (arrived i [0..<length (rx_queue_list (pl_core st))])"
    using acl.queues_hold [OF assms(1,2) q d(1)] unfolding k by blast
  then show ?thesis using d by (simp add: acl_pass_def Let_def same_conf_def)
qed

lemma acl_passes_hold:
  assumes "acl_good c"
  shows "\<forall>i \<in> set ins. bursts_fit i \<Longrightarrow> poll_ok (ap_env c) (pl_core st) \<Longrightarrow>
    \<exists>st'. acl_passes c dt ins st = Some st' \<and> poll_ok (ap_env c) (pl_core st')
      \<and> held (pl_core st') = held (pl_core st) + mset (received ins (pl_core st))"
proof (induction ins arbitrary: st)
  case (Cons i ins)
  have f: "bursts_fit i" "\<forall>i \<in> set ins. bursts_fit i" using Cons.prems(1) by simp_all
  obtain st1 where 1: "acl_pass c dt i st = Some st1" "poll_ok (ap_env c) (pl_core st1)" "same_conf (pl_core st) (pl_core st1)"
      "held (pl_core st1) = held (pl_core st) + mset (arrived i [0..<length (rx_queue_list (pl_core st))])"
    using acl_pass_holds [OF assms f(1) Cons.prems(2)] by blast
  have "received ins (pl_core st1) = received ins (pl_core st)" using 1(3) by (simp add: received_def same_conf_def)
  then show ?case using Cons.IH [OF f(2) 1(2)] 1 by (auto simp: received_def)
qed (simp add: received_def)

text \<open>C20. With a receive burst of 512 packets, the size of the transmit tables, the ACL loop never fails and loses no packet,
  although it mixes the two ways of sending: when every route of the contexts names an existing port, then after any number of
  passes the packets on the wire, in the transmit buffers and freed are those from before and those
  received, each once.\<close>

theorem acl_main_loop_keeps:
  assumes "acl_good c" and "poll_ok (ap_env c) s" and "\<forall>i \<in> set ins. bursts_fit i"
  shows "\<exists>st. acl_main_loop c hz ins s = Some st \<and> tx_inv MAX_PKT_BURST (pl_core st)
    \<and> held (pl_core st) = held s + mset (received ins s)"
proof (cases "rx_queue_list s = []")
  case True
  have "received ins s = []" unfolding received_def arrived_def by (simp add: True)
  then show ?thesis using True assms(2) by (simp add: acl_main_loop_def poll_ok_def)
next
  case False
  let ?st = "\<lparr>pl_core = s, pl_prev = 0, pl_cur = 0\<rparr>"
  have "poll_ok (ap_env c) (pl_core ?st)" using assms(2) by simp
  then obtain st where "acl_passes c (drain_tsc_of hz) ins ?st = Some st" "poll_ok (ap_env c) (pl_core st)"
      "held (pl_core st) = held s + mset (received ins s)"
    using acl_passes_hold [OF assms(1,3), of ?st "drain_tsc_of hz"] by auto
  then show ?thesis using False by (simp add: acl_main_loop_def Let_def poll_ok_def)
qed


section \<open>Examples\<close>

text \<open>A library that looks for the rule with the highest priority.\<close>

fun acl_best :: "acl_field_def list \<Rightarrow> mem \<Rightarrow> acl_rule list \<Rightarrow> acl_rule option" where
  "acl_best defs data [] = None"
| "acl_best defs data (r # rs) =
     (case acl_best defs data rs of
        None \<Rightarrow> if acl_matches defs data r then Some r else None
      | Some b \<Rightarrow> if acl_matches defs data r \<and> ar_priority b \<le> ar_priority r then Some r else Some b)"

definition acl_lib_ex :: acl_lib where
  "acl_lib_ex = \<lparr>al_max_priority = 1000, al_create = (\<lambda>_ _. True), al_set_alg = (\<lambda>_. True), al_default_alg = 0,
     al_add = (\<lambda>k rs. k + length rs \<le> MAX_ACL_RULE_NUM), al_build = (\<lambda>_. True),
     al_classify = (\<lambda>c data. case acl_best (ac_defs c) data (ac_rules c) of None \<Rightarrow> 0 | Some r \<Rightarrow> ar_userdata r)\<rparr>"

lemma acl_best_None: "acl_best defs data rs = None \<longleftrightarrow> (\<forall>r \<in> set rs. \<not> acl_matches defs data r)"
  by (induction rs) (auto split: option.splits)

lemma acl_best_Some: "acl_best defs data rs = Some b \<Longrightarrow> b \<in> set rs \<and> acl_matches defs data b
    \<and> (\<forall>r \<in> set rs. acl_matches defs data r \<longrightarrow> ar_priority r \<le> ar_priority b)"
proof (induction rs arbitrary: b)
  case (Cons r rs)
  then show ?case
    by (cases "acl_best defs data rs") (force simp: acl_best_None split: if_splits)+
qed simp

lemma acl_lib_ok_ex: "acl_lib_ok acl_lib_ex"
proof -
  have "\<exists>r' \<in> set (ac_rules c). acl_matches (ac_defs c) data r' \<and> al_classify acl_lib_ex c data = ar_userdata r'
      \<and> (\<forall>r'' \<in> set (ac_rules c). acl_matches (ac_defs c) data r'' \<longrightarrow> ar_priority r'' \<le> ar_priority r')"
    if r: "r \<in> set (ac_rules c)" "acl_matches (ac_defs c) data r" for c data r
  proof -
    obtain b where b: "acl_best (ac_defs c) data (ac_rules c) = Some b"
      using r acl_best_None [of "ac_defs c" data "ac_rules c"] by (cases "acl_best (ac_defs c) data (ac_rules c)") auto
    then show ?thesis using acl_best_Some [OF b] by (intro bexI [of _ b]) (simp_all add: acl_lib_ex_def)
  qed
  moreover have "al_classify acl_lib_ex c data = 0" if "\<forall>r \<in> set (ac_rules c). \<not> acl_matches (ac_defs c) data r" for c data
    using that acl_best_None [of "ac_defs c" data "ac_rules c"] by (simp add: acl_lib_ex_def)
  moreover have "al_add acl_lib_ex k rs \<Longrightarrow> k + length rs \<le> MAX_ACL_RULE_NUM" for k rs by (simp add: acl_lib_ex_def)
  ultimately show ?thesis unfolding acl_lib_ok_def by blast
qed

text \<open>Two files, each with an ACL line before a route.\<close>

definition acl_inet_ex :: inet where
  "acl_inet_ex = inet_ex\<lparr>inet_pton4 := (\<lambda>s. if s = ''1.2.3.4'' then Some 0x04030201 else None)\<rparr>"

definition rule4_ex :: string where "rule4_ex = ''1.2.3.4/8 1.2.3.4/0 0 : 9 0 : 9 6/0''"
definition rule6_ex :: string where "rule6_ex = ''1:2:3:4:5:6:7:8/48 1:2:3:4:5:6:7:8/48 0 : 9 0 : 9 6/0''"

definition acl_file_ex :: "string \<Rightarrow> string" where
  "acl_file_ex r = (ACL_LEAD_CHAR # r) @ CHR 0x0A # (ROUTE_LEAD_CHAR # r @ '' 3'') @ CHR 0x0A # []"

definition acl_stdio_ex :: stdio where
  "acl_stdio_ex = \<lparr>fopen = (\<lambda>p. if p = ''v4'' then Some (acl_file_ex rule4_ex)
       else if p = ''v6'' then Some (acl_file_ex rule6_ex) else None), fseek_ok = True, calloc_ok = (\<lambda>n. True)\<rparr>"

lemma acl_file_lines_ex:
  "file_lines (acl_file_ex rule4_ex) = [(ACL_LEAD_CHAR # rule4_ex) @ [CHR 0x0A], (ROUTE_LEAD_CHAR # rule4_ex @ '' 3'') @ [CHR 0x0A]]"
  "file_lines (acl_file_ex rule6_ex) = [(ACL_LEAD_CHAR # rule6_ex) @ [CHR 0x0A], (ROUTE_LEAD_CHAR # rule6_ex @ '' 3'') @ [CHR 0x0A]]"
proof -
  have e: "file_lines [] = []" by (simp add: file_lines.simps)
  have ok: "file_lines (acl_file_ex r) = [(ACL_LEAD_CHAR # r) @ [CHR 0x0A], (ROUTE_LEAD_CHAR # r @ '' 3'') @ [CHR 0x0A]]"
    if "list_all (\<lambda>c. c \<noteq> CHR 0x0A \<and> code_of c \<noteq> 0) ((ACL_LEAD_CHAR # r) @ (ROUTE_LEAD_CHAR # r @ '' 3''))" "length r < 100" for r
    unfolding acl_file_ex_def using that
    by (subst file_lines_cons, force simp: list_all_iff, force simp: list_all_iff, simp add: LINE_MAX_def,
        subst file_lines_cons, force simp: list_all_iff, force simp: list_all_iff, simp add: LINE_MAX_def, simp add: e)
  show "file_lines (acl_file_ex rule4_ex) = [(ACL_LEAD_CHAR # rule4_ex) @ [CHR 0x0A], (ROUTE_LEAD_CHAR # rule4_ex @ '' 3'') @ [CHR 0x0A]]"
    by (rule ok) (code_simp, simp add: rule4_ex_def)
  show "file_lines (acl_file_ex rule6_ex) = [(ACL_LEAD_CHAR # rule6_ex) @ [CHR 0x0A], (ROUTE_LEAD_CHAR # rule6_ex @ '' 3'') @ [CHR 0x0A]]"
    by (rule ok) (code_simp, simp add: rule6_ex_def)
qed

lemma acl_tokens_ex:
  "strtoks rule_dlm CB_FLD_NUM (rule4_ex @ '' 3'' @ [CHR 0x0A])
     = Some [''1.2.3.4/8'', ''1.2.3.4/0'', ''0'', '':'', ''9'', ''0'', '':'', ''9'', ''6/0'', ''3'']"
  "strtoks rule_dlm CB_FLD_USERDATA (rule4_ex @ [CHR 0x0A])
     = Some [''1.2.3.4/8'', ''1.2.3.4/0'', ''0'', '':'', ''9'', ''0'', '':'', ''9'', ''6/0'']"
  "strtoks rule_dlm CB_FLD_NUM (rule6_ex @ '' 3'' @ [CHR 0x0A])
     = Some [''1:2:3:4:5:6:7:8/48'', ''1:2:3:4:5:6:7:8/48'', ''0'', '':'', ''9'', ''0'', '':'', ''9'', ''6/0'', ''3'']"
  "strtoks rule_dlm CB_FLD_USERDATA (rule6_ex @ [CHR 0x0A])
     = Some [''1:2:3:4:5:6:7:8/48'', ''1:2:3:4:5:6:7:8/48'', ''0'', '':'', ''9'', ''0'', '':'', ''9'', ''6/0'']"
  by code_simp+

lemma acl_num_ex: "s = dec n \<Longrightarrow> n \<le> lim \<Longrightarrow> n < 100 \<Longrightarrow> get_cb_field s 0 lim None = Some (n, [])"
  using get_cb_field_num [of "dec n" lim] cb_num_dec [of n lim] by (simp add: ULONG_MAX_def)

lemma acl_digits_ex: "dec 0 = ''0''" "dec 3 = ''3''" "dec 8 = ''8''" "dec 9 = ''9''"
  by code_simp+

lemma acl_set_simps [simp]:
  "length (ar_field (set_value i x v)) = length (ar_field v)" "length (ar_field (set_mask i x v)) = length (ar_field v)"
  "ar_userdata (set_value i x v) = ar_userdata v" "ar_userdata (set_mask i x v) = ar_userdata v"
  by (simp_all add: set_value_def set_mask_def)

lemma acl_ports_ex:
  assumes "inp ! 2 = ''0''" "inp ! 3 = '':''" "inp ! 4 = ''9''" "inp ! 5 = ''0''" "inp ! 6 = '':''" "inp ! 7 = ''9''"
    and "a \<noteq> b" "a < length (ar_field v)" "b < length (ar_field v)"
  shows "\<exists>v2. acl_parse_ports inp a b v = Some v2 \<and> length (ar_field v2) = length (ar_field v)"
proof -
  note n = acl_num_ex [OF acl_digits_ex(1) [symmetric], of 65535, simplified]
    acl_num_ex [OF acl_digits_ex(4) [symmetric], of 65535, simplified]
  show ?thesis using assms(7-9)
    by (simp add: acl_parse_ports_def n assms(1-6) cb_port_delim_def Let_def)
       (simp add: set_value_def set_mask_def nth_list_update)
qed

lemma acl_proto_field_ex: "get_cb_field ''6/0'' 0 255 (Some CHR ''/'') = Some (6, ''0'')"
proof -
  have "num_prefix 0 ''6/0'' = (10, ''6/0'')" "dropWhile isspace ''6/0'' = ''6/0''" "takeWhile (is_digit 10) ''6/0'' = ''6''"
      "code_of CHR ''6'' \<noteq> 45 \<and> code_of CHR ''6'' \<noteq> 43" "num_of 10 ''6'' = 6"
    by code_simp+
  then have "strtoul ''6/0'' 0 = \<lparr>su_erange = False, su_val = 6, su_end = ''/0''\<rparr>"
    by (simp add: strtoul_def ULONG_MAX_def)
  then show ?thesis by (simp add: get_cb_field_def first_char_def)
qed

lemma acl_proto_ex:
  assumes "inp ! 8 = ''6/0''" and "u \<Longrightarrow> inp ! CB_FLD_USERDATA = ''3''"
  shows "\<exists>v2. acl_parse_proto inp u v = Some v2 \<and> (u \<longrightarrow> ar_userdata v2 = 3)"
proof -
  note n = acl_num_ex [OF acl_digits_ex(1) [symmetric], of 255, simplified]
    acl_num_ex [OF acl_digits_ex(2) [symmetric], of "2 ^ 32 - 1", simplified]
  show ?thesis using n(2) assms(2)
    by (cases u) (simp_all add: acl_parse_proto_def assms(1) acl_proto_field_ex n(1) Let_def)
qed

lemma acl_parse4_ex:
  "\<exists>v. parse_cb_ipv4vlan_rule acl_inet_ex (rule4_ex @ '' 3'' @ [CHR 0x0A]) (zero_acl_rule 5) True = Some v \<and> ar_userdata v = 3"
  "\<exists>v. parse_cb_ipv4vlan_rule acl_inet_ex (rule4_ex @ [CHR 0x0A]) (zero_acl_rule 5) False = Some v"
proof -
  have t: "strtok_r ''/'' ''1.2.3.4/8'' = Some (''1.2.3.4'', ''8'')" "strtok_r ''/'' ''1.2.3.4/0'' = Some (''1.2.3.4'', ''0'')"
      "strtok_r ''/'' ''8'' = Some (''8'', [])" "strtok_r ''/'' ''0'' = Some (''0'', [])"
    by code_simp+
  note n = acl_num_ex [OF acl_digits_ex(1) [symmetric], of 32, simplified] acl_num_ex [OF acl_digits_ex(3) [symmetric], of 32, simplified]
  have net: "acl_parse_ipv4_net acl_inet_ex ''1.2.3.4/8'' = Some (bswap32 0x04030201, 8)"
    "acl_parse_ipv4_net acl_inet_ex ''1.2.3.4/0'' = Some (bswap32 0x04030201, 0)"
    by (simp_all add: acl_parse_ipv4_net_def t n acl_inet_ex_def)
  let ?v = "set_mask DST_FIELD_IPV4 0 (set_value DST_FIELD_IPV4 (bswap32 0x04030201)
    (set_mask SRC_FIELD_IPV4 8 (set_value SRC_FIELD_IPV4 (bswap32 0x04030201) (zero_acl_rule 5))))"
  let ?inp = "[''1.2.3.4/8'', ''1.2.3.4/0'', ''0'', '':'', ''9'', ''0'', '':'', ''9'', ''6/0'']"
  have p: "SRCP_FIELD_IPV4 \<noteq> DSTP_FIELD_IPV4" "SRCP_FIELD_IPV4 < length (ar_field ?v)" "DSTP_FIELD_IPV4 < length (ar_field ?v)"
    by (simp_all add: SRCP_FIELD_IPV4_def DSTP_FIELD_IPV4_def zero_acl_rule_def)
  obtain v2 where v2: "acl_parse_ports (?inp @ [''3'']) SRCP_FIELD_IPV4 DSTP_FIELD_IPV4 ?v = Some v2"
    using acl_ports_ex [of "?inp @ [''3'']", OF _ _ _ _ _ _ p] by auto
  obtain v3 where v3: "acl_parse_ports ?inp SRCP_FIELD_IPV4 DSTP_FIELD_IPV4 ?v = Some v3"
    using acl_ports_ex [of ?inp, OF _ _ _ _ _ _ p] by auto
  show "\<exists>v. parse_cb_ipv4vlan_rule acl_inet_ex (rule4_ex @ '' 3'' @ [CHR 0x0A]) (zero_acl_rule 5) True = Some v \<and> ar_userdata v = 3"
    using acl_proto_ex [of "?inp @ [''3'']" True v2] v2
    by (simp add: parse_cb_ipv4vlan_rule_def acl_tokens_ex [simplified] net CB_FLD_USERDATA_def Let_def)
  show "\<exists>v. parse_cb_ipv4vlan_rule acl_inet_ex (rule4_ex @ [CHR 0x0A]) (zero_acl_rule 5) False = Some v"
    using acl_proto_ex [of ?inp False v3] v3
    by (simp add: parse_cb_ipv4vlan_rule_def acl_tokens_ex [simplified] net Let_def)
qed

lemma acl_parse6_ex:
  "\<exists>v. parse_cb_ipv6_rule (rule6_ex @ '' 3'' @ [CHR 0x0A]) (zero_acl_rule 11) True = Some v \<and> ar_userdata v = 3"
  "\<exists>v. parse_cb_ipv6_rule (rule6_ex @ [CHR 0x0A]) (zero_acl_rule 11) False = Some v"
proof -
  obtain v where v: "acl_parse_ipv6_net ''1:2:3:4:5:6:7:8/48'' SRC1_FIELD_IPV6 (zero_acl_rule 11) = Some v"
      "length (ar_field v) = length (ar_field (zero_acl_rule 11))"
    using acl_net_ex [of SRC1_FIELD_IPV6 "zero_acl_rule 11"] by (elim exE conjE) (rule that)
  obtain v1 where v1: "acl_parse_ipv6_net ''1:2:3:4:5:6:7:8/48'' DST1_FIELD_IPV6 v = Some v1"
      "length (ar_field v1) = length (ar_field v)"
    using acl_net_ex [of DST1_FIELD_IPV6 v] by (elim exE conjE) (rule that)
  let ?inp = "[''1:2:3:4:5:6:7:8/48'', ''1:2:3:4:5:6:7:8/48'', ''0'', '':'', ''9'', ''0'', '':'', ''9'', ''6/0'']"
  have p: "SRCP_FIELD_IPV6 \<noteq> DSTP_FIELD_IPV6" "SRCP_FIELD_IPV6 < length (ar_field v1)" "DSTP_FIELD_IPV6 < length (ar_field v1)"
    by (simp_all add: SRCP_FIELD_IPV6_def DSTP_FIELD_IPV6_def v(2) v1(2)) (simp_all add: zero_acl_rule_def)
  obtain v2 where v2: "acl_parse_ports (?inp @ [''3'']) SRCP_FIELD_IPV6 DSTP_FIELD_IPV6 v1 = Some v2"
    using acl_ports_ex [of "?inp @ [''3'']", OF _ _ _ _ _ _ p] by auto
  obtain v3 where v3: "acl_parse_ports ?inp SRCP_FIELD_IPV6 DSTP_FIELD_IPV6 v1 = Some v3"
    using acl_ports_ex [of ?inp, OF _ _ _ _ _ _ p] by auto
  show "\<exists>v. parse_cb_ipv6_rule (rule6_ex @ '' 3'' @ [CHR 0x0A]) (zero_acl_rule 11) True = Some v \<and> ar_userdata v = 3"
    using acl_proto_ex [of "?inp @ [''3'']" True v2] v2
    unfolding parse_cb_ipv6_rule_def acl_tokens_ex if_True
    unfolding bind.bind_lunit append.simps nth_Cons_0 One_nat_def nth_Cons_Suc v(1) v1(1)
    by (simp add: CB_FLD_USERDATA_def)
  show "\<exists>v. parse_cb_ipv6_rule (rule6_ex @ [CHR 0x0A]) (zero_acl_rule 11) False = Some v"
    using acl_proto_ex [of ?inp False v3] v3
    unfolding parse_cb_ipv6_rule_def acl_tokens_ex if_False bind.bind_lunit nth_Cons_0 One_nat_def nth_Cons_Suc v(1) v1(1)
    by simp
qed

lemma acl_add_rules_ex:
  assumes "fopen acl_stdio_ex path = Some (acl_file_ex r)"
    and "file_lines (acl_file_ex r) = [(ACL_LEAD_CHAR # r) @ [CHR 0x0A], (ROUTE_LEAD_CHAR # r @ '' 3'') @ [CHR 0x0A]]"
    and "parser (r @ '' 3'' @ [CHR 0x0A]) (zero_acl_rule dim) True = Some v1" and "ar_userdata v1 = 3"
    and "parser (r @ [CHR 0x0A]) (zero_acl_rule dim) False = Some v2"
  obtains r1 a1 where "acl_add_rules acl_stdio_ex 15 1000 dim parser path = Inr (([r1], 1), ([a1], 1))"
proof -
  have c: "ACL_LEAD_CHAR \<noteq> ROUTE_LEAD_CHAR" "ROUTE_LEAD_CHAR \<noteq> ACL_LEAD_CHAR" "ACL_LEAD_CHAR \<noteq> COMMENT_LEAD_CHAR"
      "ROUTE_LEAD_CHAR \<noteq> COMMENT_LEAD_CHAR" "\<not> isspace ACL_LEAD_CHAR" "\<not> isspace ROUTE_LEAD_CHAR"
    by code_simp+
  have b: "\<not> is_bypass_line (ACL_LEAD_CHAR # x)" "\<not> is_bypass_line (ROUTE_LEAD_CHAR # x)" for x
    using c by (simp_all add: is_bypass_line_def first_char_def)
  have m: "in_mask 15 3" by (simp add: in_mask_def shl1_def)
  have s: "fseek_ok acl_stdio_ex" "calloc_ok acl_stdio_ex n" for n by (simp_all add: acl_stdio_ex_def)
  show thesis
    by (rule that) (simp add: acl_add_rules_def assms(1,2) s first_char_def c acl_line_def b assms(3-5) [simplified] m Let_def cong: if_cong)
qed

lemma acl_files_ex:
  assumes "rule_ipv4_name cfg = Some ''v4''" and "rule_ipv6_name cfg = Some ''v6''" and "as_ctx4 s = (\<lambda>_. None)" "as_ctx6 s = (\<lambda>_. None)"
  obtains st st' where "read_config_files_acl acl_stdio_ex acl_inet_ex 15 1000 cfg s = Inr st"
    and "setup_acl acl_lib_ex cfg 0 0 st = Inr st'"
proof -
  have f: "fopen acl_stdio_ex ''v4'' = Some (acl_file_ex rule4_ex)" "fopen acl_stdio_ex ''v6'' = Some (acl_file_ex rule6_ex)"
    by (simp_all add: acl_stdio_ex_def)
  have l: "length ipv4_defs = 5" "length ipv6_defs = 11" by (simp_all add: ipv4_defs_def ipv6_defs_def)
  obtain u1 u2 w1 w2 where u: "parse_cb_ipv4vlan_rule acl_inet_ex (rule4_ex @ '' 3'' @ [CHR 0x0A]) (zero_acl_rule 5) True = Some u1" "ar_userdata u1 = 3"
      "parse_cb_ipv4vlan_rule acl_inet_ex (rule4_ex @ [CHR 0x0A]) (zero_acl_rule 5) False = Some u2"
      and w: "parse_cb_ipv6_rule (rule6_ex @ '' 3'' @ [CHR 0x0A]) (zero_acl_rule 11) True = Some w1" "ar_userdata w1 = 3"
      "parse_cb_ipv6_rule (rule6_ex @ [CHR 0x0A]) (zero_acl_rule 11) False = Some w2"
    using acl_parse4_ex acl_parse6_ex by (elim exE conjE) (rule that)
  obtain r4 a4 where 4: "acl_add_rules acl_stdio_ex 15 1000 (length ipv4_defs) (parse_cb_ipv4vlan_rule acl_inet_ex) ''v4'' = Inr (([r4], 1), ([a4], 1))"
    unfolding l by (rule acl_add_rules_ex [where parser = "parse_cb_ipv4vlan_rule acl_inet_ex", OF f(1) acl_file_lines_ex(1) u])
  obtain r6 a6 where 6: "acl_add_rules acl_stdio_ex 15 1000 (length ipv6_defs) parse_cb_ipv6_rule ''v6'' = Inr (([r6], 1), ([a6], 1))"
    unfolding l by (rule acl_add_rules_ex [where parser = parse_cb_ipv6_rule, OF f(2) acl_file_lines_ex(2) w])
  let ?s = "s\<lparr>as_route4 := Some ([r4], 1), as_acl4 := Some ([a4], 1), as_route6 := Some ([r6], 1), as_acl6 := Some ([a6], 1)\<rparr>"
  have "read_config_files_acl acl_stdio_ex acl_inet_ex 15 1000 cfg s = Inr ?s"
    by (simp add: read_config_files_acl_def assms 4 6 Let_def)
  moreover have "app_acl_init acl_lib_ex 0 [r] [a] 1 1 b 0 = Inr \<lparr>ac_defs = (if b then ipv6_defs else ipv4_defs), ac_rules = [r, a]\<rparr>" for r a b
    by (simp add: app_acl_init_def acl_lib_ex_def MAX_ACL_RULE_NUM_def)
  then have "setup_acl acl_lib_ex cfg 0 0 ?s = Inr (?s\<lparr>as_ctx4 := (as_ctx4 ?s)(0 := Some \<lparr>ac_defs = ipv4_defs, ac_rules = [r4, a4]\<rparr>),
      as_ctx6 := (as_ctx6 ?s)(0 := Some \<lparr>ac_defs = ipv6_defs, ac_rules = [r6, a6]\<rparr>)\<rparr>)"
    by (simp add: setup_acl_def check_acl_config_def assms rules_in_def NB_SOCKETS_def)
  ultimately show thesis by (rule that)
qed

definition acl_state_ex :: acl_state where
  "acl_state_ex = \<lparr>as_route4 = None, as_acl4 = None, as_route6 = None, as_acl6 = None, as_ctx4 = (\<lambda>_. None), as_ctx6 = (\<lambda>_. None)\<rparr>"

text \<open>Applied to two files with an ACL line before a route.\<close>

theorem acl_first_line_decides_witness:
  "\<exists>es4 es6 st st'. read_config_files_acl acl_stdio_ex acl_inet_ex 15 1000
        \<lparr>rule_ipv4_name = Some ''v4'', rule_ipv6_name = Some ''v6''\<rparr> acl_state_ex = Inr st
    \<and> setup_acl acl_lib_ex \<lparr>rule_ipv4_name = Some ''v4'', rule_ipv6_name = Some ''v6''\<rparr> 0 0 st = Inr st'
    \<and> es4 = acl_entries (parse_cb_ipv4vlan_rule acl_inet_ex) (length ipv4_defs) (file_lines (acl_file_ex rule4_ex))
    \<and> es6 = acl_entries parse_cb_ipv6_rule (length ipv6_defs) (file_lines (acl_file_ex rule6_ex))
    \<and> (\<exists>c4 c6. as_ctx4 st' 0 = Some c4 \<and> as_ctx6 st' 0 = Some c6
        \<and> acl_process_pkts dpdk_ex acl_lib_ex c4 c6 (\<lambda>_. 0) mbuf_ex (\<lambda>_. 0) 5
          = (\<lambda>k. if k < 5 then acl_port_of dpdk_ex es4 es6 (mbuf_ex k) else 0,
             length (filter (\<lambda>k. acl_port_of dpdk_ex es4 es6 (mbuf_ex k) = BAD_PORT) [0..<5]))
        \<and> (\<forall>k<5. fst (acl_process_pkts dpdk_ex acl_lib_ex c4 c6 (\<lambda>_. 0) mbuf_ex (\<lambda>_. 0) 5) k
                = acl_documented_port dpdk_ex es4 es6 (mbuf_ex k) \<longleftrightarrow> \<not> acl_shadowed_pkt dpdk_ex es4 es6 (mbuf_ex k)))"
proof -
  let ?cfg = "\<lparr>rule_ipv4_name = Some ''v4'', rule_ipv6_name = Some ''v6''\<rparr>"
  have s: "as_ctx4 acl_state_ex = (\<lambda>_. None)" "as_ctx6 acl_state_ex = (\<lambda>_. None)" by (simp_all add: acl_state_ex_def)
  obtain st st' where st: "read_config_files_acl acl_stdio_ex acl_inet_ex 15 1000 ?cfg acl_state_ex = Inr st"
      "setup_acl acl_lib_ex ?cfg 0 0 st = Inr st'"
    by (rule acl_files_ex [of ?cfg, OF _ _ s]) simp_all
  have f: "fopen acl_stdio_ex ''v4'' = Some (acl_file_ex rule4_ex)" "fopen acl_stdio_ex ''v6'' = Some (acl_file_ex rule6_ex)"
    by (simp_all add: acl_stdio_ex_def)
  have n: "(0::nat) < NB_SOCKETS" "rule_ipv4_name ?cfg = Some ''v4''" "rule_ipv6_name ?cfg = Some ''v6''" by (simp_all add: NB_SOCKETS_def)
  have b: "\<not> is_bypass_line (ROUTE_LEAD_CHAR # x)" "\<not> is_bypass_line (ACL_LEAD_CHAR # x)" for x
    by (simp_all add: is_bypass_line_def first_char_def ROUTE_LEAD_CHAR_def ACL_LEAD_CHAR_def COMMENT_LEAD_CHAR_def) code_simp+
  have e: "first_char (ROUTE_LEAD_CHAR # x) = Some ROUTE_LEAD_CHAR" "first_char (ACL_LEAD_CHAR # x) \<noteq> Some ROUTE_LEAD_CHAR" for x
    by (simp_all add: first_char_def ROUTE_LEAD_CHAR_def ACL_LEAD_CHAR_def)
  have l: "length ipv4_defs = 5" "length ipv6_defs = 11" by (simp_all add: ipv4_defs_def ipv6_defs_def)
  have small4: "acl_ports_small (acl_entries (parse_cb_ipv4vlan_rule acl_inet_ex) (length ipv4_defs) (file_lines (acl_file_ex rule4_ex))) 65535"
    using acl_parse4_ex(1)
    by (auto simp: acl_ports_small_def acl_entries_def acl_entry_def acl_file_lines_ex b e Let_def l)
  have small6: "acl_ports_small (acl_entries parse_cb_ipv6_rule (length ipv6_defs) (file_lines (acl_file_ex rule6_ex))) 65535"
    using acl_parse6_ex(1)
    by (auto simp: acl_ports_small_def acl_entries_def acl_entry_def acl_file_lines_ex b e Let_def l)
  note d = acl_first_line_decides [OF st n(1) acl_lib_ok_ex n(2) f(1) n(3) f(2) refl refl small4 small6,
      of dpdk_ex "\<lambda>_. 0" mbuf_ex "\<lambda>_. 0" 5]
  show ?thesis by (rule exI, rule exI, rule exI, rule exI, intro conjI, rule st(1), rule st(2), rule refl, rule refl, rule d)
qed

text \<open>Applied to a library that denies the packets whose first input byte is not 6.\<close>

definition acl_prog_ex :: acl_prog where
  "acl_prog_ex = \<lparr>ap_multi = True, ap_env = dpdk_ex, ap_glob = glob_ex\<lparr>rx_burst_size := 512\<rparr>,
     ap_lib = acl_lib_ex\<lparr>al_classify := (\<lambda>c d. if d 0 = 6 then 2 else ACL_DENY_SIGNATURE)\<rparr>,
     ap_ctx4 = \<lparr>ac_defs = ipv4_defs, ac_rules = []\<rparr>, ap_ctx6 = \<lparr>ac_defs = ipv6_defs, ac_rules = []\<rparr>, ap_types = (\<lambda>_ _. 0)\<rparr>"

theorem acl_main_loop_keeps_witness:
  "let i = \<lparr>in_rx = (\<lambda>_. map mbuf_ex [0..<20]), in_tsc = 5, in_pnum = (\<lambda>_. 7), in_dst = (\<lambda>_. 0)\<rparr> in
   \<exists>st. acl_main_loop acl_prog_ex 1000 [i, i] lcore_ex = Some st
    \<and> tx_inv MAX_PKT_BURST (pl_core st)
    \<and> held (pl_core st) = held lcore_ex + mset (received [i, i] lcore_ex)"
proof -
  have "acl_dropped (acl_res dpdk_ex L c4 c6 m) \<or> port_ok dpdk_ex (acl_res_hop (acl_res dpdk_ex L c4 c6 m))"
    if "L = ap_lib acl_prog_ex" for L c4 c6 m
    using that by (simp add: acl_res_def acl_prog_ex_def acl_dropped_def acl_res_hop_def ACL_DENY_SIGNATURE_def FWD_PORT_SHIFT_def port_ok_ex)
  then have g: "acl_good acl_prog_ex"
    unfolding acl_good_def Let_def using tx_burst_ok_ex ports_16_ex by (simp add: acl_prog_ex_def MAX_PKT_BURST_def)
  show ?thesis unfolding Let_def
    by (rule acl_main_loop_keeps [OF g])
       (simp_all add: poll_ok_def bursts_fit_def tx_inv_ex [of 512, simplified] MAX_PKT_BURST_def acl_prog_ex_def,
        simp_all add: lcore_ex_def port_ok_ex)
qed

end
