(* ===== verification/Event_Setup.thy ===== *)
theory Event_Setup
  imports Setup Event_Modes
begin

text \<open>
  Setting up the event device: \<open>l3fwd/l3fwd_event.c\<close> and its two sets of operations,
  \<open>l3fwd/l3fwd_event_generic.c\<close> and \<open>l3fwd/l3fwd_event_internal_port.c\<close>. The library answers through the
  record \<open>evs_env\<close>; the calls that configure it are kept in a trace. An exit or a panic of the program and an
  access outside an array are \<open>Inl\<close>.
\<close>

section \<open>The library and the state\<close>

record evd_info =
  vi_max_queues :: u8
  vi_max_events :: int
  vi_max_flows :: u32
  vi_max_deq :: u8
  vi_max_enq :: u32
  vi_max_ports :: u8
  vi_cap :: u32

datatype preschedule = Presched_none | Presched | Presched_adaptive

record evd_conf =
  vc_nb_queues :: u8
  vc_nb_ports :: u8
  vc_events_limit :: int
  vc_flows :: u32
  vc_deq :: u32
  vc_enq :: u32
  vc_presched :: preschedule

record evq_conf =
  qc_flows :: u32
  qc_sequences :: u32
  qc_cfg :: u32
  qc_sched :: sched_type
  qc_highest :: bool

record evp_conf =
  epc_threshold :: int
  epc_deq :: u16
  epc_enq :: u16
  epc_cfg :: u32

text \<open>The flags of the library, and its answers. \<open>vs_junk\<close> is what \<open>malloc\<close> returns, \<open>vs_service0\<close> the
  variable \<open>service_id\<close> before it is written.\<close>

record evs_env = setup_env +
  vs_internal_port :: u32
  vs_no_implicit_release :: u32
  vs_all_types :: u32
  vs_burst_mode :: u32
  vs_preschedule :: u32
  vs_preschedule_adaptive :: u32
  vs_event_vector :: u32
  vs_q_all_types :: u32
  vs_q_single_link :: u32
  vs_p_disable_release :: u32
  vs_eventdevs :: nat
  vs_service_lcores :: nat
  vs_info :: evd_info
  vs_tx_caps :: "nat \<Rightarrow> u32 option"
  vs_rx_caps :: "nat \<Rightarrow> u32 option"
  vs_device :: "evd_conf \<Rightarrow> bool"
  vs_queue_default :: "evq_conf option"
  vs_queue :: "u8 \<Rightarrow> evq_conf \<Rightarrow> bool"
  vs_port_default :: "evp_conf option"
  vs_port :: "u8 \<Rightarrow> evp_conf \<Rightarrow> bool"
  vs_link :: "u8 \<Rightarrow> u8 list option \<Rightarrow> int"
  vs_malloc :: "nat \<Rightarrow> bool"
  vs_junk :: "nat \<Rightarrow> u8"
  vs_adapter :: "bool \<Rightarrow> nat \<Rightarrow> evp_conf \<Rightarrow> bool"
  vs_rx_add :: "nat \<Rightarrow> nat \<Rightarrow> u8 \<Rightarrow> bool"
  vs_tx_add :: "nat \<Rightarrow> nat \<Rightarrow> bool"
  vs_adapter_start :: "bool \<Rightarrow> nat \<Rightarrow> bool"
  vs_service :: "bool \<Rightarrow> int \<times> u32"
  vs_service0 :: u32
  vs_tx_port :: "u8 option"
  vs_start :: bool

text \<open>The calls; \<open>Rx_add\<close> has the adapter, the port, the event queue and, for vectors, their size, the time-out
  and the pool.\<close>

datatype ev_call =
    Ev_device evd_conf
  | Ev_queue u8 evq_conf
  | Ev_port u8 evp_conf
  | Ev_link u8 "u8 list option"
  | Rx_adapter nat | Rx_add nat nat u8 sched_type "(u16 \<times> u64 \<times> nat) option"
  | Tx_adapter nat | Tx_add nat nat
  | Adapter_start bool nat
  | Service_on u32

text \<open>The part of \<open>struct l3fwd_event_resources\<close> the set-up fills.\<close>

record evs =
  vt_tx_mode_q :: bool
  vt_has_burst :: bool
  vt_disable_release :: bool
  vt_nb_queues :: u8
  vt_event_q_id :: "u8 list"
  vt_nb_ports :: u8
  vt_event_p_id :: "u8 list"
  vt_deq_depth :: u8
  vt_def_p_conf :: evp_conf
  vt_rx_adptr :: "u8 list"
  vt_tx_adptr :: "u8 list"
  vt_rx_service :: u32
  vt_tx_service :: u32
  vt_calls :: "ev_call list"

definition init_evs :: evs where
  "init_evs = \<lparr>vt_tx_mode_q = False, vt_has_burst = False, vt_disable_release = False, vt_nb_queues = 0, vt_event_q_id = [],
     vt_nb_ports = 0, vt_event_p_id = [], vt_deq_depth = 0,
     vt_def_p_conf = \<lparr>epc_threshold = 0, epc_deq = 0, epc_enq = 0, epc_cfg = 0\<rparr>, vt_rx_adptr = [], vt_tx_adptr = [],
     vt_rx_service = 0, vt_tx_service = 0, vt_calls = []\<rparr>"

definition ev_log :: "ev_call list \<Rightarrow> evs \<Rightarrow> evs" where
  "ev_log cs s = s\<lparr>vt_calls := vt_calls s @ cs\<rparr>"

text \<open>An array from \<open>malloc\<close>; a write into it.\<close>

definition ev_malloc :: "evs_env \<Rightarrow> nat \<Rightarrow> u8 list" where
  "ev_malloc E n = map (vs_junk E) [0..<n]"

definition ev_write :: "u8 list \<Rightarrow> nat \<Rightarrow> u8 \<Rightarrow> string + u8 list" where
  "ev_write xs i v = (if i < length xs then Inr (xs[i := v]) else Inl ''write past the array'')"

definition ev_enabled_ports :: "evs_env \<Rightarrow> u32 \<Rightarrow> nat list" where
  "ev_enabled_ports E m = filter (in_mask m) (se_ports E)"

section \<open>The Ethernet devices\<close>

definition ev_local_conf :: "evs_env \<Rightarrow> dev_info \<Rightarrow> port_conf \<Rightarrow> port_conf" where
  "ev_local_conf E di conf =
     (let c1 = (if di_tx_capa di AND se_fast_free E \<noteq> 0
                then conf\<lparr>pc_tx_off := pc_tx_off conf OR se_fast_free E\<rparr> else conf)
      in c1\<lparr>pc_rss_hf := pc_rss_hf c1 AND di_rss di\<rparr>)"

text \<open>\<open>rte_eth_macaddr_get\<close> is not checked: without an answer the address stays as it was.\<close>

definition ev_configure_port :: "evs_env \<Rightarrow> cfg \<Rightarrow> nat \<Rightarrow> sstate \<Rightarrow> string + port_conf \<times> sstate" where
  "ev_configure_port E c portid s =
     (case se_dev_info E portid of
        None \<Rightarrow> Inl ''Error during getting device info''
      | Some di \<Rightarrow>
          let (ret, conf) = config_port_max_pkt_len (setup_env.truncate E) (c_max_pkt_len c) (port_conf_of (setup_env.truncate E) c) di;
              conf1 = ev_local_conf E di conf; n = unat (ev_eth_rx_queues (c_evt c))
          in if ret \<noteq> 0 then Inl ''Invalid max packet length''
             else if \<not> se_configure E portid n 1 conf1 then Inl ''Cannot configure device''
             else case se_adjust E portid (ss_rxd s) (ss_txd s) of
                    None \<Rightarrow> Inl ''Cannot adjust number of descriptors''
                  | Some (rxd, txd) \<Rightarrow>
                      let mac = (case se_mac E portid of Some a \<Rightarrow> a | None \<Rightarrow> ss_macs s portid)
                      in Inr (conf1, s\<lparr>ss_rxd := rxd, ss_txd := txd, ss_macs := (ss_macs s)(portid := mac),
                                ss_val_eth := (ss_val_eth s)(portid := take 6 (ss_val_eth s portid) @ mac
                                                               @ drop 12 (ss_val_eth s portid)),
                                ss_trace := ss_trace s @ [Configure portid n 1 conf1]\<rparr>))"

definition ev_nb_mbuf :: "evs_env \<Rightarrow> cfg \<Rightarrow> u16 \<Rightarrow> u16 \<Rightarrow> u32" where
  "ev_nb_mbuf E c rxd txd =
     (let nb_ports = of_nat (length (se_ports E)) :: u32; nb_lcores = of_nat (se_lcore_count E)
      in if \<not> c_per_port_pool c
         then max (nb_ports * ucast rxd + nb_ports * ucast txd + nb_ports * nb_lcores * of_nat MAX_PKT_BURST
                   + nb_lcores * se_cache_size E) 8192
         else max (ucast rxd + ucast rxd + nb_lcores * of_nat MAX_PKT_BURST + nb_lcores * se_cache_size E) 8192)"

text \<open>The loop over the receive queues: \<open>eth_qid\<close> has 8 bits, \<open>eth_rx_queues\<close> 16. \<open>None\<close> is a loop that
  never ends.\<close>

partial_function (option) ev_rxq_loop ::
    "(u8 \<Rightarrow> bool) \<Rightarrow> (u8 \<Rightarrow> dev_call) \<Rightarrow> u16 \<Rightarrow> u8 \<Rightarrow> dev_call list \<Rightarrow> (string + dev_call list) option" where
  "ev_rxq_loop ok call eth_rx_queues eth_qid tr =
     (if ucast eth_qid < eth_rx_queues then
        (if \<not> ok eth_qid then Some (Inl ''rte_eth_rx_queue_setup'')
         else ev_rxq_loop ok call eth_rx_queues (eth_qid + 1) (tr @ [call eth_qid]))
      else Some (Inr tr))"

definition ev_rx_queues :: "evs_env \<Rightarrow> cfg \<Rightarrow> nat \<Rightarrow> port_conf \<Rightarrow> sstate \<Rightarrow> (string + sstate) option" where
  "ev_rx_queues E c portid conf s =
     (let pool = (if \<not> c_per_port_pool c then (0, 0) else (portid, 0))
      in case ev_rxq_loop (\<lambda>q. se_rxq E portid (unat q) (ss_rxd s) 0 (pc_rx_off conf) pool)
                (\<lambda>q. Rx_queue portid (unat q) 0 pool) (ev_eth_rx_queues (c_evt c)) 0 (ss_trace s) of
           None \<Rightarrow> None | Some (Inl e) \<Rightarrow> Some (Inl e) | Some (Inr tr) \<Rightarrow> Some (Inr (s\<lparr>ss_trace := tr\<rparr>)))"

definition ev_setup_port :: "evs_env \<Rightarrow> cfg \<Rightarrow> nat \<Rightarrow> sstate \<Rightarrow> (string + sstate) option" where
  "ev_setup_port E c portid s =
     (if \<not> in_mask (c_port_mask c) portid then Some (Inr s)
      else case ev_configure_port E c portid s of
             Inl e \<Rightarrow> Some (Inl e)
           | Inr (conf, s1) \<Rightarrow>
               (case init_mem (setup_env.truncate E) c (if \<not> c_per_port_pool c then 0 else portid)
                       (ev_nb_mbuf E c (ss_rxd s1) (ss_txd s1)) s1 of
                  Inl e \<Rightarrow> Some (Inl e)
                | Inr s2 \<Rightarrow>
                    (case ev_rx_queues E c portid conf s2 of
                       None \<Rightarrow> None
                     | Some (Inl e) \<Rightarrow> Some (Inl e)
                     | Some (Inr s3) \<Rightarrow>
                         Some (if \<not> se_txq E portid 0 (ss_txd s3) 0 (pc_tx_off conf) then Inl ''rte_eth_tx_queue_setup''
                               else Inr (s3\<lparr>ss_trace := ss_trace s3 @ [Tx_queue portid 0 0]\<rparr>)))))"

fun ev_setup_ports :: "evs_env \<Rightarrow> cfg \<Rightarrow> nat list \<Rightarrow> sstate \<Rightarrow> (string + sstate) option" where
  "ev_setup_ports E c [] s = Some (Inr s)"
| "ev_setup_ports E c (p # ps) s =
     (case ev_setup_port E c p s of
        None \<Rightarrow> None | Some (Inl e) \<Rightarrow> Some (Inl e) | Some (Inr s1) \<Rightarrow> ev_setup_ports E c ps s1)"

definition l3fwd_eth_dev_port_setup :: "evs_env \<Rightarrow> cfg \<Rightarrow> sstate \<Rightarrow> (string + sstate) option" where
  "l3fwd_eth_dev_port_setup E c s = ev_setup_ports E c (se_ports E) s"

definition ev_capability_step :: "evs_env \<Rightarrow> nat \<Rightarrow> evs \<Rightarrow> string + evs" where
  "ev_capability_step E i s =
     (case vs_tx_caps E i of
        None \<Rightarrow> Inl ''Invalid capability for Tx adptr port''
      | Some caps \<Rightarrow> Inr (s\<lparr>vt_tx_mode_q := vt_tx_mode_q s \<or> caps AND vs_internal_port E = 0\<rparr>))"

definition l3fwd_event_capability_setup :: "evs_env \<Rightarrow> evs \<Rightarrow> string + evs" where
  "l3fwd_event_capability_setup E s = foldM (ev_capability_step E) (se_ports E) s"

section \<open>The event device\<close>

text \<open>The common part of the two set-ups: \<open>nb_event_queues\<close> and \<open>num_workers\<close> differ. The result
  has \<open>event_queue_cfg\<close>.\<close>

definition ev_dev_conf :: "evs_env \<Rightarrow> u8 \<Rightarrow> u16 \<Rightarrow> evd_conf" where
  "ev_dev_conf E nb_event_queues num_workers =
     (let i = vs_info E
      in \<lparr>vc_nb_queues = (if vi_max_queues i < nb_event_queues then vi_max_queues i else nb_event_queues),
          vc_nb_ports = ucast (if ucast (vi_max_ports i) < num_workers then ucast (vi_max_ports i) else num_workers),
          vc_events_limit = (if vi_max_events i < 4096 then vi_max_events i else 4096),
          vc_flows = (if vi_max_flows i < 1024 then vi_max_flows i else 1024),
          vc_deq = (if ucast (vi_max_deq i) < (128 :: u32) then ucast (vi_max_deq i) else 128),
          vc_enq = (if vi_max_enq i < 128 then vi_max_enq i else 128),
          vc_presched = (if vi_cap i AND vs_preschedule_adaptive E \<noteq> 0 then Presched_adaptive
                         else if vi_cap i AND vs_preschedule E \<noteq> 0 then Presched else Presched_none)\<rparr>)"

definition ev_device_setup :: "evs_env \<Rightarrow> u8 \<Rightarrow> u16 \<Rightarrow> evs \<Rightarrow> string + u32 \<times> evs" where
  "ev_device_setup E nb_event_queues num_workers s =
     (let conf = ev_dev_conf E nb_event_queues num_workers; cap = vi_cap (vs_info E);
          s1 = ev_log [Ev_device conf]
                 (s\<lparr>vt_disable_release := (if cap AND vs_no_implicit_release E \<noteq> 0 then False else vt_disable_release s),
                    vt_nb_ports := vc_nb_ports conf, vt_nb_queues := vc_nb_queues conf,
                    vt_has_burst := (cap AND vs_burst_mode E \<noteq> 0)\<rparr>)
      in if \<not> vs_device E conf then Inl ''Error in configuring event device''
         else Inr (if cap AND vs_all_types E \<noteq> 0 then vs_q_all_types E else 0, s1))"

text \<open>One queue for each port and one for the transmit adapter; the service lcores are no workers.\<close>

definition l3fwd_event_device_setup_generic :: "evs_env \<Rightarrow> u32 \<Rightarrow> evs \<Rightarrow> string + u32 \<times> evs" where
  "l3fwd_event_device_setup_generic E port_mask s =
     ev_device_setup E (of_nat (length (ev_enabled_ports E port_mask)) + 1)
       (of_nat (se_lcore_count E) - of_nat (vs_service_lcores E)) s"

definition l3fwd_event_device_setup_internal_port :: "evs_env \<Rightarrow> u32 \<Rightarrow> evs \<Rightarrow> string + u32 \<times> evs" where
  "l3fwd_event_device_setup_internal_port E port_mask s =
     ev_device_setup E (of_nat (length (ev_enabled_ports E port_mask))) (of_nat (se_lcore_count E)) s"

section \<open>Event queues\<close>

definition ev_queue_step :: "evs_env \<Rightarrow> evq_conf \<Rightarrow> nat \<Rightarrow> evs \<Rightarrow> string + evs" where
  "ev_queue_step E conf q s =
     (if \<not> vs_queue E (of_nat q) conf then Inl ''Error in configuring event queue''
      else case ev_write (vt_event_q_id s) q (of_nat q) of
             Inl e \<Rightarrow> Inl e
           | Inr xs \<Rightarrow> Inr (ev_log [Ev_queue (of_nat q) conf] (s\<lparr>vt_event_q_id := xs\<rparr>)))"

text \<open>The last queue is the one of the transmit adapter.\<close>

definition l3fwd_event_queue_setup_generic :: "evs_env \<Rightarrow> sched_type \<Rightarrow> u32 \<Rightarrow> evs \<Rightarrow> string + evs" where
  "l3fwd_event_queue_setup_generic E sched event_queue_cfg s =
     (let nb = unat (vt_nb_queues s)
      in if \<not> vs_malloc E nb then Inl ''Memory allocation failure''
         else case vs_queue_default E of
                None \<Rightarrow> Inl ''Error to get default config of event queue''
              | Some d \<Rightarrow>
                  let conf = \<lparr>qc_flows = (if qc_flows d < 1024 then qc_flows d else 1024), qc_sequences = 1024,
                              qc_cfg = event_queue_cfg, qc_sched = sched, qc_highest = False\<rparr>
                  in (case foldM (ev_queue_step E conf) [0..<nb - 1] (s\<lparr>vt_event_q_id := ev_malloc E nb\<rparr>) of
                        Inl e \<Rightarrow> Inl e
                      | Inr s1 \<Rightarrow> ev_queue_step E (conf\<lparr>qc_cfg := qc_cfg conf OR vs_q_single_link E, qc_highest := True\<rparr>)
                                    (nb - 1) s1))"

definition l3fwd_event_queue_setup_internal_port :: "evs_env \<Rightarrow> sched_type \<Rightarrow> u32 \<Rightarrow> evs \<Rightarrow> string + evs" where
  "l3fwd_event_queue_setup_internal_port E sched event_queue_cfg s =
     (let nb = unat (vt_nb_queues s)
      in case vs_queue_default E of
           None \<Rightarrow> Inl ''Error to get default config of event queue''
         | Some d \<Rightarrow>
             let conf = \<lparr>qc_flows = (if qc_flows d < 1024 then qc_flows d else 1024),
                         qc_sequences = (if qc_sequences d < 1024 then qc_sequences d else 1024),
                         qc_cfg = event_queue_cfg, qc_sched = sched, qc_highest = False\<rparr>
             in if \<not> vs_malloc E nb then Inl ''Memory allocation failure''
                else foldM (ev_queue_step E conf) [0..<nb] (s\<lparr>vt_event_q_id := ev_malloc E nb\<rparr>))"

section \<open>Event ports\<close>

definition ev_port_conf :: "evs_env \<Rightarrow> bool \<Rightarrow> evp_conf \<Rightarrow> evp_conf" where
  "ev_port_conf E disable_release d =
     \<lparr>epc_threshold = (if epc_threshold d < 4096 then epc_threshold d else 4096),
      epc_deq = (if epc_deq d < 32 then epc_deq d else 32), epc_enq = (if epc_enq d < 32 then epc_enq d else 32),
      epc_cfg = (if disable_release then vs_p_disable_release E else 0)\<rparr>"

text \<open>\<open>linked\<close> tests what \<open>rte_event_port_link\<close> returns.\<close>

definition ev_port_step :: "evs_env \<Rightarrow> evp_conf \<Rightarrow> u8 list option \<Rightarrow> (int \<Rightarrow> bool) \<Rightarrow> nat \<Rightarrow> evs \<Rightarrow> string + evs" where
  "ev_port_step E conf queues linked p s =
     (if \<not> vs_port E (of_nat p) conf then Inl ''Error in configuring event port''
      else if \<not> linked (vs_link E (of_nat p) queues) then Inl ''Error in linking event port''
      else case ev_write (vt_event_p_id s) p (of_nat p) of
             Inl e \<Rightarrow> Inl e
           | Inr xs \<Rightarrow> Inr (ev_log [Ev_port (of_nat p) conf, Ev_link (of_nat p) queues] (s\<lparr>vt_event_p_id := xs\<rparr>)))"

definition ev_port_setup :: "evs_env \<Rightarrow> u8 list option \<Rightarrow> (int \<Rightarrow> bool) \<Rightarrow> evs \<Rightarrow> string + evs" where
  "ev_port_setup E queues linked s =
     (let nb = unat (vt_nb_ports s)
      in if \<not> vs_malloc E nb then Inl ''No space is available''
         else case vs_port_default E of
                None \<Rightarrow> Inl ''Error to get default configuration of event port''
              | Some d \<Rightarrow>
                  let conf = ev_port_conf E (vt_disable_release s) d;
                      s1 = s\<lparr>vt_event_p_id := ev_malloc E nb, vt_deq_depth := ucast (epc_deq d)\<rparr>
                  in (case foldM (ev_port_step E conf queues linked) [0..<nb] s1 of
                        Inl e \<Rightarrow> Inl e | Inr s2 \<Rightarrow> Inr (s2\<lparr>vt_def_p_conf := conf\<rparr>)))"

text \<open>The workers are linked to all queues but the last.\<close>

definition l3fwd_event_port_setup_generic :: "evs_env \<Rightarrow> evs \<Rightarrow> string + evs" where
  "l3fwd_event_port_setup_generic E s =
     ev_port_setup E (Some (take (unat (vt_nb_queues s) - 1) (vt_event_q_id s))) (\<lambda>r. r = uint (vt_nb_queues s) - 1) s"

text \<open>No list of queues stands for all of them.\<close>

definition l3fwd_event_port_setup_internal_port :: "evs_env \<Rightarrow> evs \<Rightarrow> string + evs" where
  "l3fwd_event_port_setup_internal_port E s = ev_port_setup E None (\<lambda>r. \<not> r < 0) s"

section \<open>Adapters\<close>

definition ESRCH :: int where "ESRCH = 3"

definition sbind :: "string + 'a \<Rightarrow> ('a \<Rightarrow> string + 'b) \<Rightarrow> string + 'b" where
  "sbind r f = (case r of Inl e \<Rightarrow> Inl e | Inr x \<Rightarrow> f x)"

definition ev_need :: "bool \<Rightarrow> string \<Rightarrow> string + 'a \<Rightarrow> string + 'a" where
  "ev_need b msg r = (if b then r else Inl msg)"

text \<open>The id of an adapter's service. On \<open>-ESRCH\<close> the variable keeps its value; the program goes on with it.\<close>

definition ev_service :: "evs_env \<Rightarrow> bool \<Rightarrow> u32 \<Rightarrow> string + u32" where
  "ev_service E tx service_id =
     (let (ret, sid) = vs_service E tx
      in if ret \<noteq> - ESRCH \<and> ret \<noteq> 0 then Inl ''Error getting the service ID''
         else Inr (if ret = 0 then sid else service_id))"

text \<open>The queue of the next port: the first component is \<open>i\<close>.\<close>

definition ev_rx_add_step :: "evs_env \<Rightarrow> sched_type \<Rightarrow> nat \<Rightarrow> nat \<times> evs \<Rightarrow> string + nat \<times> evs" where
  "ev_rx_add_step E sched portid st =
     (let (i, s) = st
      in if length (vt_event_q_id s) \<le> i then Inl ''read past event_q_id''
         else let q = vt_event_q_id s ! i
              in if \<not> vs_rx_add E 0 portid q then Inl ''Failed to add queues to Rx adapter''
                 else Inr (if i < unat (vt_nb_queues s) then i + 1 else i, ev_log [Rx_add 0 portid q sched None] s))"

definition ev_tx_add_step :: "evs_env \<Rightarrow> nat \<Rightarrow> evs \<Rightarrow> string + evs" where
  "ev_tx_add_step E portid s =
     (if \<not> vs_tx_add E 0 portid then Inl ''Failed to add queues to Tx adapter'' else Inr (ev_log [Tx_add 0 portid] s))"

definition ev_rx_adapter_generic :: "evs_env \<Rightarrow> u32 \<Rightarrow> sched_type \<Rightarrow> evs \<Rightarrow> string + evs" where
  "ev_rx_adapter_generic E port_mask sched s =
     ev_need (vs_malloc E 1) ''Failed to allocate memory for Rx adapter'' (
     ev_need (vs_adapter E False 0 (vt_def_p_conf s)) ''Failed to create rx adapter'' (
     sbind (foldM (ev_rx_add_step E sched) (ev_enabled_ports E port_mask) (0, ev_log [Rx_adapter 0] s)) (\<lambda>(i, s1).
     sbind (ev_service E False (vs_service0 E)) (\<lambda>service_id.
     ev_need (vs_adapter_start E False 0) ''Rx adapter start Failed'' (
     Inr (ev_log [Service_on service_id, Adapter_start False 0]
            (s1\<lparr>vt_rx_service := service_id, vt_rx_adptr := [0]\<rparr>)))))))"

definition ev_tx_adapter_generic :: "evs_env \<Rightarrow> u32 \<Rightarrow> evs \<Rightarrow> string + evs" where
  "ev_tx_adapter_generic E port_mask s =
     ev_need (vs_malloc E 1) ''Failed to allocate memory for Rx adapter'' (
     ev_need (vs_adapter E True 0 (vt_def_p_conf s)) ''Failed to create tx adapter'' (
     sbind (foldM (ev_tx_add_step E) (ev_enabled_ports E port_mask) (ev_log [Tx_adapter 0] s)) (\<lambda>s1.
     sbind (ev_service E True (vt_rx_service s1)) (\<lambda>service_id.
     case vs_tx_port E of
       None \<Rightarrow> Inl ''Failed to get Tx adapter port id''
     | Some tx_port \<Rightarrow>
         let qs = Some [vt_event_q_id s1 ! (unat (vt_nb_queues s1) - 1)]
         in ev_need (vs_link E tx_port qs = 1) ''Unable to link Tx adapter port to Tx queue'' (
            ev_need (vs_adapter_start E True 0) ''Tx adapter start Failed'' (
            Inr (ev_log [Service_on service_id, Ev_link tx_port qs, Adapter_start True 0]
                   (s1\<lparr>vt_tx_service := service_id, vt_tx_adptr := [0]\<rparr>))))))))"

definition l3fwd_rx_tx_adapter_setup_generic :: "evs_env \<Rightarrow> u32 \<Rightarrow> sched_type \<Rightarrow> evs \<Rightarrow> string + evs" where
  "l3fwd_rx_tx_adapter_setup_generic E port_mask sched s =
     sbind (ev_rx_adapter_generic E port_mask sched s) (ev_tx_adapter_generic E port_mask)"

text \<open>An adapter for each port. What a vector needs: \<open>None\<close> without vectors.\<close>

definition ev_vector_conf :: "evs_env \<Rightarrow> cfg \<Rightarrow> nat \<Rightarrow> string + (u16 \<times> u64 \<times> nat) option" where
  "ev_vector_conf E c portid =
     (if \<not> ev_vector_enabled (c_evt c) then Inr None
      else case vs_rx_caps E portid of
             None \<Rightarrow> Inl ''Failed to get event rx adapter capability''
           | Some cap \<Rightarrow>
               if cap AND vs_event_vector E \<noteq> 0
               then Inr (Some (ev_vector_size (c_evt c), ev_vector_tmo_ns (c_evt c), if c_per_port_pool c then portid else 0))
               else Inl ''Rx adapter doesn't support event vector'')"

text \<open>The first two components are \<open>adapter_id\<close> and \<open>q_id\<close>.\<close>

definition ev_rx_port_step :: "evs_env \<Rightarrow> cfg \<Rightarrow> nat \<Rightarrow> nat \<times> nat \<times> evs \<Rightarrow> string + nat \<times> nat \<times> evs" where
  "ev_rx_port_step E c portid st =
     (let (adapter_id, q_id, s) = st
      in sbind (ev_vector_conf E c portid) (\<lambda>vec.
         ev_need (vs_adapter E False adapter_id (vt_def_p_conf s)) ''Failed to create rx adapter'' (
         ev_need (q_id < length (vt_event_q_id s)) ''read past event_q_id'' (
         let q = vt_event_q_id s ! q_id
         in ev_need (vs_rx_add E adapter_id portid q) ''Failed to add queues to Rx adapter'' (
            ev_need (vs_adapter_start E False adapter_id) ''Rx adapter start Failed'' (
            sbind (ev_write (vt_rx_adptr s) adapter_id (of_nat adapter_id)) (\<lambda>xs.
            Inr (adapter_id + 1, if q_id < unat (vt_nb_queues s) then q_id + 1 else q_id,
                 ev_log [Rx_adapter adapter_id, Rx_add adapter_id portid q (ev_sched_type (c_evt c)) vec, Adapter_start False adapter_id]
                   (s\<lparr>vt_rx_adptr := xs\<rparr>)))))))))"

definition ev_tx_port_step :: "evs_env \<Rightarrow> nat \<Rightarrow> nat \<times> evs \<Rightarrow> string + nat \<times> evs" where
  "ev_tx_port_step E portid st =
     (let (adapter_id, s) = st
      in ev_need (vs_adapter E True adapter_id (vt_def_p_conf s)) ''Failed to create tx adapter'' (
         ev_need (vs_tx_add E adapter_id portid) ''Failed to add queues to Tx adapter'' (
         ev_need (vs_adapter_start E True adapter_id) ''Tx adapter start Failed'' (
         sbind (ev_write (vt_tx_adptr s) adapter_id (of_nat adapter_id)) (\<lambda>xs.
         Inr (adapter_id + 1, ev_log [Tx_adapter adapter_id, Tx_add adapter_id portid, Adapter_start True adapter_id]
                                (s\<lparr>vt_tx_adptr := xs\<rparr>)))))))"

text \<open>\<open>nb_rx_adptr\<close> and \<open>nb_tx_adptr\<close> have 8 bits.\<close>

definition l3fwd_rx_tx_adapter_setup_internal_port :: "evs_env \<Rightarrow> cfg \<Rightarrow> evs \<Rightarrow> string + evs" where
  "l3fwd_rx_tx_adapter_setup_internal_port E c s =
     (let ports = ev_enabled_ports E (c_port_mask c); n = unat (of_nat (length ports) :: u8)
      in ev_need (vs_malloc E n) ''Failed to allocate memory for Rx adapter'' (
         sbind (foldM (ev_rx_port_step E c) ports (0, 0, s\<lparr>vt_rx_adptr := ev_malloc E n\<rparr>)) (\<lambda>(_, _, s1).
         sbind (foldM (ev_tx_port_step E) ports (0, s1\<lparr>vt_tx_adptr := ev_malloc E n\<rparr>)) (\<lambda>(_, s2).
         Inr s2))))"

section \<open>The whole set-up\<close>

definition ev_device_part :: "evs_env \<Rightarrow> cfg \<Rightarrow> evs \<Rightarrow> string + evs" where
  "ev_device_part E c s =
     (let m = c_port_mask c; sched = ev_sched_type (c_evt c)
      in sbind (if vt_tx_mode_q s
                then sbind (l3fwd_event_device_setup_generic E m s) (\<lambda>(cf, s1).
                     sbind (l3fwd_event_queue_setup_generic E sched cf s1) (\<lambda>s2.
                     sbind (l3fwd_event_port_setup_generic E s2) (\<lambda>s3.
                     l3fwd_rx_tx_adapter_setup_generic E m sched s3)))
                else sbind (l3fwd_event_device_setup_internal_port E m s) (\<lambda>(cf, s1).
                     sbind (l3fwd_event_queue_setup_internal_port E sched cf s1) (\<lambda>s2.
                     sbind (l3fwd_event_port_setup_internal_port E s2) (\<lambda>s3.
                     l3fwd_rx_tx_adapter_setup_internal_port E c s3))))
         (\<lambda>s4. ev_need (vs_start E) ''Error in starting eventdev'' (Inr s4)))"

definition l3fwd_event_resource_setup :: "evs_env \<Rightarrow> cfg \<Rightarrow> sstate \<Rightarrow> (string + sstate \<times> evs) option" where
  "l3fwd_event_resource_setup E c ss =
     (if vs_eventdevs E = 0 then Some (Inl ''No Eventdev found'')
      else case l3fwd_event_capability_setup E init_evs of
             Inl e \<Rightarrow> Some (Inl e)
           | Inr s \<Rightarrow>
               (case l3fwd_eth_dev_port_setup E c ss of
                  None \<Rightarrow> None
                | Some (Inl e) \<Rightarrow> Some (Inl e)
                | Some (Inr ss1) \<Rightarrow>
                    Some (case ev_device_part E c s of Inl e \<Rightarrow> Inl e | Inr s1 \<Rightarrow> Inr (ss1, s1))))"

text \<open>What the workers use of it.\<close>

definition resources_of :: "evs \<Rightarrow> event_resources" where
  "resources_of s = \<lparr>er_event_q_id = vt_event_q_id s, er_nb_queues = vt_nb_queues s, er_deq_depth = vt_deq_depth s\<rparr>"

section \<open>Reading the trace\<close>

text \<open>The event queue each port was attached to, and the queues each event port was linked to (\<open>None\<close>: all).\<close>

definition rx_queues :: "ev_call list \<Rightarrow> (nat \<times> u8) list" where
  "rx_queues cs = List.map_filter (\<lambda>x. case x of Rx_add a p q sched v \<Rightarrow> Some (p, q) | _ \<Rightarrow> None) cs"

definition ev_links :: "ev_call list \<Rightarrow> (u8 \<times> u8 list option) list" where
  "ev_links cs = List.map_filter (\<lambda>x. case x of Ev_link p qs \<Rightarrow> Some (p, qs) | _ \<Rightarrow> None) cs"

lemma trace_app [simp]: "rx_queues (a @ b) = rx_queues a @ rx_queues b" "ev_links (a @ b) = ev_links a @ ev_links b"
  by (simp_all add: rx_queues_def ev_links_def map_filter_def)

lemma rx_queues_Cons [simp]:
  "rx_queues [] = []" "rx_queues (Rx_add a p q sc v # cs) = (p, q) # rx_queues cs" "rx_queues (Ev_device d # cs) = rx_queues cs"
  "rx_queues (Ev_queue q qc # cs) = rx_queues cs" "rx_queues (Ev_port ep pc # cs) = rx_queues cs"
  "rx_queues (Ev_link ep qs # cs) = rx_queues cs" "rx_queues (Rx_adapter n # cs) = rx_queues cs"
  "rx_queues (Tx_adapter n # cs) = rx_queues cs" "rx_queues (Tx_add n k # cs) = rx_queues cs"
  "rx_queues (Adapter_start b n # cs) = rx_queues cs" "rx_queues (Service_on sv # cs) = rx_queues cs"
  by (simp_all add: rx_queues_def map_filter_def)

lemma ev_links_Cons [simp]:
  "ev_links [] = []" "ev_links (Rx_add a p q sc v # cs) = ev_links cs" "ev_links (Ev_device d # cs) = ev_links cs"
  "ev_links (Ev_queue q qc # cs) = ev_links cs" "ev_links (Ev_port ep pc # cs) = ev_links cs"
  "ev_links (Ev_link ep qs # cs) = (ep, qs) # ev_links cs" "ev_links (Rx_adapter n # cs) = ev_links cs"
  "ev_links (Tx_adapter n # cs) = ev_links cs" "ev_links (Tx_add n k # cs) = ev_links cs"
  "ev_links (Adapter_start b n # cs) = ev_links cs" "ev_links (Service_on sv # cs) = ev_links cs"
  by (simp_all add: ev_links_def map_filter_def)

lemma trace_maps [simp]:
  "rx_queues (map (\<lambda>q. Ev_queue (f q) conf) xs) = []" "ev_links (map (\<lambda>q. Ev_queue (f q) conf) xs) = []"
  "rx_queues (concat (map (\<lambda>p. [Ev_port (f p) pc, Ev_link (f p) qs]) xs)) = []"
  "ev_links (concat (map (\<lambda>p. [Ev_port (f p) pc, Ev_link (f p) qs]) xs)) = map (\<lambda>p. (f p, qs)) xs"
  by (induction xs) simp_all

lemma trace_rx_adds [simp]:
  "rx_queues (map (\<lambda>(k, p). Rx_add n p (g k) sc v) ys) = map (\<lambda>(k, p). (p, g k)) ys"
  "ev_links (map (\<lambda>(k, p). Rx_add n p (g k) sc v) ys) = []"
  by (induction ys) auto

section \<open>What the loops leave behind\<close>

lemma foldM_app: "foldM f (xs @ ys) s = (case foldM f xs s of Inl e \<Rightarrow> Inl e | Inr t \<Rightarrow> foldM f ys t)"
  by (induction xs arbitrary: s) (auto split: sum.splits)

lemma sbind_Inr: "sbind r f = Inr y \<longleftrightarrow> (\<exists>x. r = Inr x \<and> f x = Inr y)"
  by (cases r) (simp_all add: sbind_def)

lemma ev_need_Inr: "ev_need b msg r = Inr y \<longleftrightarrow> b \<and> r = Inr y"
  by (simp add: ev_need_def)

lemmas ev_monad = sbind_Inr ev_need_Inr

text \<open>Writing \<open>i\<close> at index \<open>i\<close>, for all indices below \<open>n\<close>.\<close>

definition numbered :: "nat \<Rightarrow> u8 list \<Rightarrow> u8 list" where
  "numbered n xs = map of_nat [0..<n] @ drop n xs"

lemma numbered_0 [simp]: "numbered 0 xs = xs"
  by (simp add: numbered_def)

lemma numbered_Suc: "n < length xs \<Longrightarrow> (numbered n xs)[n := of_nat n] = numbered (Suc n) xs"
proof -
  assume n: "n < length xs"
  then have "drop n xs = xs ! n # drop (Suc n) xs" by (rule Cons_nth_drop_Suc [symmetric])
  then show ?thesis by (simp add: numbered_def list_update_append)
qed

lemma length_numbered: "n \<le> length xs \<Longrightarrow> length (numbered n xs) = length xs"
  by (simp add: numbered_def)

lemma numbered_all: "length xs = n \<Longrightarrow> numbered n xs = map of_nat [0..<n]"
  by (simp add: numbered_def)

lemma ev_queue_loop:
  "foldM (ev_queue_step E conf) [0..<n] s = Inr s' \<Longrightarrow> n \<le> length (vt_event_q_id s)
    \<and> s' = s\<lparr>vt_event_q_id := numbered n (vt_event_q_id s),
             vt_calls := vt_calls s @ map (\<lambda>q. Ev_queue (of_nat q) conf) [0..<n]\<rparr>"
proof (induction n arbitrary: s')
  case (Suc n)
  then obtain t where t: "foldM (ev_queue_step E conf) [0..<n] s = Inr t" and st: "ev_queue_step E conf n t = Inr s'"
    by (auto simp: foldM_app split: sum.splits)
  note i = Suc.IH [OF t]
  have n: "n < length (vt_event_q_id s)"
    using st i by (auto simp: ev_queue_step_def ev_write_def length_numbered split: if_splits)
  then show ?case
    using st i by (auto simp: ev_queue_step_def ev_write_def ev_log_def numbered_Suc split: if_splits)
qed simp

lemma ev_port_loop:
  "foldM (ev_port_step E conf qs linked) [0..<n] s = Inr s' \<Longrightarrow> n \<le> length (vt_event_p_id s)
    \<and> s' = s\<lparr>vt_event_p_id := numbered n (vt_event_p_id s),
             vt_calls := vt_calls s @ concat (map (\<lambda>p. [Ev_port (of_nat p) conf, Ev_link (of_nat p) qs]) [0..<n])\<rparr>
    \<and> list_all (\<lambda>p. linked (vs_link E (of_nat p) qs)) [0..<n]"
proof (induction n arbitrary: s')
  case (Suc n)
  then obtain t where t: "foldM (ev_port_step E conf qs linked) [0..<n] s = Inr t" and st: "ev_port_step E conf qs linked n t = Inr s'"
    by (auto simp: foldM_app split: sum.splits)
  note i = Suc.IH [OF t]
  have n: "n < length (vt_event_p_id s)"
    using st i by (auto simp: ev_port_step_def ev_write_def length_numbered split: if_splits)
  then show ?case
    using st i by (auto simp: ev_port_step_def ev_write_def ev_log_def numbered_Suc split: if_splits)
qed simp

lemma ev_rx_add_loop:
  "foldM (ev_rx_add_step E sched) ps (0, s) = Inr (i, s') \<Longrightarrow> length (vt_event_q_id s) = unat (vt_nb_queues s) \<Longrightarrow>
    length ps \<le> unat (vt_nb_queues s) \<and> i = length ps
    \<and> s' = s\<lparr>vt_calls := vt_calls s @ map (\<lambda>(k, p). Rx_add 0 p (vt_event_q_id s ! k) sched None) (enumerate 0 ps)\<rparr>"
proof (induction ps arbitrary: i s' rule: rev_induct)
  case (snoc p ps)
  then obtain j t where t: "foldM (ev_rx_add_step E sched) ps (0, s) = Inr (j, t)" and st: "ev_rx_add_step E sched p (j, t) = Inr (i, s')"
    by (auto simp: foldM_app split: sum.splits)
  show ?case
    using st snoc.IH [OF t snoc.prems(2)] snoc.prems(2)
    by (auto simp: ev_rx_add_step_def ev_log_def enumerate_append_eq Let_def split: if_splits)
qed simp

text \<open>The set-up of the adapters keeps the queues, the ports of the workers and their links.\<close>

definition ev_same :: "evs \<Rightarrow> evs \<Rightarrow> bool" where
  "ev_same s t \<longleftrightarrow> vt_tx_mode_q t = vt_tx_mode_q s \<and> vt_nb_queues t = vt_nb_queues s \<and> vt_event_q_id t = vt_event_q_id s
     \<and> vt_nb_ports t = vt_nb_ports s \<and> vt_event_p_id t = vt_event_p_id s
     \<and> (\<exists>ls. ev_links (vt_calls t) = ev_links (vt_calls s) @ ls)"

lemma ev_rx_port_loop:
  "foldM (ev_rx_port_step E c) ps (0, 0, s) = Inr (a, i, s') \<Longrightarrow> length (vt_event_q_id s) = unat (vt_nb_queues s) \<Longrightarrow>
    length ps \<le> unat (vt_nb_queues s) \<and> a = length ps \<and> i = length ps \<and> ev_same s s'
    \<and> rx_queues (vt_calls s') = rx_queues (vt_calls s) @ map (\<lambda>(k, p). (p, vt_event_q_id s ! k)) (enumerate 0 ps)"
proof (induction ps arbitrary: a i s' rule: rev_induct)
  case (snoc p ps)
  then obtain b j t where t: "foldM (ev_rx_port_step E c) ps (0, 0, s) = Inr (b, j, t)"
      and st: "ev_rx_port_step E c p (b, j, t) = Inr (a, i, s')"
    by (auto simp: foldM_app split: sum.splits)
  show ?case
    using st snoc.IH [OF t snoc.prems(2)] snoc.prems(2)
    by (auto simp: ev_rx_port_step_def ev_log_def ev_monad Let_def ev_same_def enumerate_append_eq)
qed (simp add: ev_same_def)

lemma ev_tx_add_loop:
  "foldM (ev_tx_add_step E) ps s = Inr s' \<Longrightarrow> ev_same s s' \<and> rx_queues (vt_calls s') = rx_queues (vt_calls s)"
proof (induction ps arbitrary: s' rule: rev_induct)
  case (snoc p ps)
  then obtain t where t: "foldM (ev_tx_add_step E) ps s = Inr t" and st: "ev_tx_add_step E p t = Inr s'"
    by (auto simp: foldM_app split: sum.splits)
  show ?case using st snoc.IH [OF t] by (auto simp: ev_tx_add_step_def ev_log_def ev_same_def split: if_splits)
qed (simp add: ev_same_def)

lemma ev_tx_port_loop:
  "foldM (ev_tx_port_step E) ps (a, s) = Inr (b, s') \<Longrightarrow> ev_same s s' \<and> rx_queues (vt_calls s') = rx_queues (vt_calls s)"
proof (induction ps arbitrary: b s' rule: rev_induct)
  case (snoc p ps)
  then obtain j t where t: "foldM (ev_tx_port_step E) ps (a, s) = Inr (j, t)" and st: "ev_tx_port_step E p (j, t) = Inr (b, s')"
    by (auto simp: foldM_app split: sum.splits)
  show ?case using st snoc.IH [OF t] by (auto simp: ev_tx_port_step_def ev_log_def ev_monad ev_same_def)
qed (simp add: ev_same_def)

section \<open>The stages\<close>

lemma ev_dev_conf_queues: "vc_nb_queues (ev_dev_conf E nq nw) = min nq (vi_max_queues (vs_info E))"
  by (auto simp: ev_dev_conf_def Let_def min_def)

lemma ev_device_stage:
  assumes "ev_device_setup E nq nw s = Inr (cf, s1)"
  shows "vt_nb_queues s1 = min nq (vi_max_queues (vs_info E)) \<and> vt_nb_ports s1 = vc_nb_ports (ev_dev_conf E nq nw)
    \<and> vt_tx_mode_q s1 = vt_tx_mode_q s \<and> rx_queues (vt_calls s1) = rx_queues (vt_calls s) \<and> ev_links (vt_calls s1) = ev_links (vt_calls s)"
proof -
  have "vs_device E (ev_dev_conf E nq nw)" using assms by (simp add: ev_device_setup_def Let_def split: if_splits)
  then show ?thesis using assms by (auto simp: ev_device_setup_def ev_log_def Let_def ev_dev_conf_queues)
qed

lemma ev_queue_stage:
  assumes "l3fwd_event_queue_setup_generic E sched cf s = Inr s1 \<or> l3fwd_event_queue_setup_internal_port E sched cf s = Inr s1"
  shows "vt_event_q_id s1 = map of_nat [0..<unat (vt_nb_queues s)] \<and> vt_nb_queues s1 = vt_nb_queues s
    \<and> vt_nb_ports s1 = vt_nb_ports s \<and> vt_tx_mode_q s1 = vt_tx_mode_q s
    \<and> rx_queues (vt_calls s1) = rx_queues (vt_calls s) \<and> ev_links (vt_calls s1) = ev_links (vt_calls s)"
  using assms
proof
  let ?nb = "unat (vt_nb_queues s)"
  assume "l3fwd_event_queue_setup_generic E sched cf s = Inr s1"
  then obtain conf t where l: "foldM (ev_queue_step E conf) [0..<?nb - 1] (s\<lparr>vt_event_q_id := ev_malloc E ?nb\<rparr>) = Inr t"
      and st: "ev_queue_step E (conf\<lparr>qc_cfg := qc_cfg conf OR vs_q_single_link E, qc_highest := True\<rparr>) (?nb - 1) t = Inr s1"
    by (auto simp: l3fwd_event_queue_setup_generic_def Let_def split: if_splits option.splits sum.splits)
  note i = ev_queue_loop [OF l]
  have len: "length (ev_malloc E ?nb) = ?nb" by (simp add: ev_malloc_def)
  have nb: "0 < ?nb" using st i len by (auto simp: ev_queue_step_def ev_write_def length_numbered split: if_splits)
  then have "(numbered (?nb - 1) (ev_malloc E ?nb))[?nb - 1 := of_nat (?nb - 1)] = map of_nat [0..<?nb]"
    using numbered_Suc [of "?nb - 1" "ev_malloc E ?nb"] numbered_all [OF len] len by simp
  then show ?thesis using st i
    by (auto simp: ev_queue_step_def ev_write_def ev_log_def split: if_splits)
next
  let ?nb = "unat (vt_nb_queues s)"
  assume "l3fwd_event_queue_setup_internal_port E sched cf s = Inr s1"
  then obtain conf where l: "foldM (ev_queue_step E conf) [0..<?nb] (s\<lparr>vt_event_q_id := ev_malloc E ?nb\<rparr>) = Inr s1"
    by (auto simp: l3fwd_event_queue_setup_internal_port_def Let_def split: if_splits option.splits)
  show ?thesis using ev_queue_loop [OF l] numbered_all [of "ev_malloc E ?nb" ?nb] by (simp add: ev_malloc_def)
qed

lemma ev_queue_generic_pos:
  assumes "l3fwd_event_queue_setup_generic E sched cf s = Inr s1" shows "0 < unat (vt_nb_queues s)"
proof (rule ccontr)
  assume "\<not> 0 < unat (vt_nb_queues s)"
  then have "unat (vt_nb_queues s) = 0" by simp
  with assms show False
    by (auto simp: l3fwd_event_queue_setup_generic_def Let_def ev_queue_step_def ev_write_def ev_malloc_def split: if_splits option.splits)
qed

lemma ev_port_stage:
  assumes "ev_port_setup E qs linked s = Inr s1"
  shows "vt_event_p_id s1 = map of_nat [0..<unat (vt_nb_ports s)] \<and> vt_nb_queues s1 = vt_nb_queues s
    \<and> vt_nb_ports s1 = vt_nb_ports s \<and> vt_tx_mode_q s1 = vt_tx_mode_q s \<and> vt_event_q_id s1 = vt_event_q_id s
    \<and> rx_queues (vt_calls s1) = rx_queues (vt_calls s)
    \<and> ev_links (vt_calls s1) = ev_links (vt_calls s) @ map (\<lambda>p. (of_nat p, qs)) [0..<unat (vt_nb_ports s)]"
proof -
  let ?nb = "unat (vt_nb_ports s)"
  obtain conf d t where l: "foldM (ev_port_step E conf qs linked) [0..<?nb] (s\<lparr>vt_event_p_id := ev_malloc E ?nb, vt_deq_depth := d\<rparr>) = Inr t"
      and s1: "s1 = t\<lparr>vt_def_p_conf := conf\<rparr>"
    using assms by (auto simp: ev_port_setup_def Let_def split: if_splits option.splits sum.splits)
  show ?thesis using ev_port_loop [OF l] numbered_all [of "ev_malloc E ?nb" ?nb] by (simp add: s1 ev_malloc_def)
qed

lemma ev_adapter_stage_generic:
  assumes "l3fwd_rx_tx_adapter_setup_generic E m sched s = Inr s1" and "length (vt_event_q_id s) = unat (vt_nb_queues s)"
  shows "length (ev_enabled_ports E m) \<le> unat (vt_nb_queues s) \<and> ev_same s s1
    \<and> rx_queues (vt_calls s1) = rx_queues (vt_calls s) @ map (\<lambda>(k, p). (p, vt_event_q_id s ! k)) (enumerate 0 (ev_enabled_ports E m))"
proof -
  obtain t where rx: "ev_rx_adapter_generic E m sched s = Inr t" and tx: "ev_tx_adapter_generic E m t = Inr s1"
    using assms(1) by (auto simp: l3fwd_rx_tx_adapter_setup_generic_def ev_monad)
  obtain i u where u: "foldM (ev_rx_add_step E sched) (ev_enabled_ports E m) (0, ev_log [Rx_adapter 0] s) = Inr (i, u)"
      and t: "ev_same u t \<and> rx_queues (vt_calls t) = rx_queues (vt_calls u)"
    using rx by (auto simp: ev_rx_adapter_generic_def ev_monad ev_log_def ev_same_def)
  have len: "length (vt_event_q_id (ev_log [Rx_adapter 0] s)) = unat (vt_nb_queues (ev_log [Rx_adapter 0] s))"
    using assms(2) by (simp add: ev_log_def)
  have su: "length (ev_enabled_ports E m) \<le> unat (vt_nb_queues s) \<and> ev_same s u
      \<and> rx_queues (vt_calls u) = rx_queues (vt_calls s) @ map (\<lambda>(k, p). (p, vt_event_q_id s ! k)) (enumerate 0 (ev_enabled_ports E m))"
    using ev_rx_add_loop [OF u len] by (simp add: ev_log_def ev_same_def)
  obtain v where v: "foldM (ev_tx_add_step E) (ev_enabled_ports E m) (ev_log [Tx_adapter 0] t) = Inr v"
      and s1: "ev_same v s1 \<and> rx_queues (vt_calls s1) = rx_queues (vt_calls v)"
    using tx by (auto simp: ev_tx_adapter_generic_def ev_monad ev_log_def ev_same_def Let_def split: option.splits)
  have tv: "ev_same t v \<and> rx_queues (vt_calls v) = rx_queues (vt_calls t)"
    using ev_tx_add_loop [OF v] by (simp add: ev_log_def ev_same_def)
  show ?thesis using su t tv s1 by (auto simp: ev_same_def)
qed

lemma ev_adapter_stage_internal:
  assumes "l3fwd_rx_tx_adapter_setup_internal_port E c s = Inr s1" and "length (vt_event_q_id s) = unat (vt_nb_queues s)"
  shows "length (ev_enabled_ports E (c_port_mask c)) \<le> unat (vt_nb_queues s) \<and> ev_same s s1
    \<and> rx_queues (vt_calls s1) = rx_queues (vt_calls s)
        @ map (\<lambda>(k, p). (p, vt_event_q_id s ! k)) (enumerate 0 (ev_enabled_ports E (c_port_mask c)))"
proof -
  let ?ps = "ev_enabled_ports E (c_port_mask c)"
  obtain xs a i t ys b where rx: "foldM (ev_rx_port_step E c) ?ps (0, 0, s\<lparr>vt_rx_adptr := xs\<rparr>) = Inr (a, i, t)"
      and tx: "foldM (ev_tx_port_step E) ?ps (0, t\<lparr>vt_tx_adptr := ys\<rparr>) = Inr (b, s1)"
    using assms(1) by (auto simp: l3fwd_rx_tx_adapter_setup_internal_port_def ev_monad Let_def)
  have len: "length (vt_event_q_id (s\<lparr>vt_rx_adptr := xs\<rparr>)) = unat (vt_nb_queues (s\<lparr>vt_rx_adptr := xs\<rparr>))" using assms(2) by simp
  show ?thesis using ev_rx_port_loop [OF rx len] ev_tx_port_loop [OF tx] by (auto simp: ev_same_def)
qed

section \<open>Ports, queues and workers\<close>

text \<open>The number of event queues the program wants: one for each port, and one for the transmit adapter when it
  has no port of its own.\<close>

definition ev_wanted :: "evs_env \<Rightarrow> u32 \<Rightarrow> bool \<Rightarrow> nat" where
  "ev_wanted E m tx_mode_q = length (ev_enabled_ports E m) + (if tx_mode_q then 1 else 0)"

lemma ev_device_part_stages:
  assumes "ev_device_part E c s0 = Inr s" and "ev_wanted E (c_port_mask c) (vt_tx_mode_q s) < 256"
    and "rx_queues (vt_calls s0) = []" "ev_links (vt_calls s0) = []"
  shows "vt_tx_mode_q s = vt_tx_mode_q s0 \<and> (vt_tx_mode_q s \<longrightarrow> 0 < unat (vt_nb_queues s))
    \<and> unat (vt_nb_queues s) = min (ev_wanted E (c_port_mask c) (vt_tx_mode_q s)) (unat (vi_max_queues (vs_info E)))
    \<and> vt_event_q_id s = map of_nat [0..<unat (vt_nb_queues s)] \<and> vt_event_p_id s = map of_nat [0..<unat (vt_nb_ports s)]
    \<and> length (ev_enabled_ports E (c_port_mask c)) \<le> unat (vt_nb_queues s)
    \<and> rx_queues (vt_calls s) = map (\<lambda>(k, p). (p, of_nat k)) (enumerate 0 (ev_enabled_ports E (c_port_mask c)))
    \<and> (\<exists>ls. ev_links (vt_calls s)
          = map (\<lambda>p. (of_nat p, if vt_tx_mode_q s then Some (map of_nat [0..<unat (vt_nb_queues s) - 1]) else None))
              [0..<unat (vt_nb_ports s)] @ ls)"
proof -
  let ?m = "c_port_mask c" and ?ps = "ev_enabled_ports E (c_port_mask c)"
  let ?sched = "ev_sched_type (c_evt c)"
  have w: "unat (min (of_nat k :: u8) x) = min k (unat x)" if "k < 256" for k x
    using that by (simp add: min_def word_le_nat_alt unat_of_nat)
  have rxq: "map (\<lambda>(k, p). (p, map of_nat [0..<n] ! k)) (enumerate 0 ?ps) = map (\<lambda>(k, p). (p, of_nat k :: u8)) (enumerate 0 ?ps)"
    if "length ?ps \<le> n" for n using that by (intro map_cong refl) (auto simp: in_set_enumerate_eq)
  show ?thesis
  proof (cases "vt_tx_mode_q s0")
    case True
    obtain cf s1 s2 s3 where
        1: "ev_device_setup E (of_nat (length ?ps) + 1) (of_nat (se_lcore_count E) - of_nat (vs_service_lcores E)) s0 = Inr (cf, s1)"
      and 2: "l3fwd_event_queue_setup_generic E ?sched cf s1 = Inr s2"
      and 3: "l3fwd_event_port_setup_generic E s2 = Inr s3" and 4: "l3fwd_rx_tx_adapter_setup_generic E ?m ?sched s3 = Inr s"
      using assms(1) True by (auto simp: ev_device_part_def ev_monad Let_def l3fwd_event_device_setup_generic_def)
    note d = ev_device_stage [OF 1] and q = ev_queue_stage [OF disjI1, OF 2]
      and p = ev_port_stage [OF 3 [unfolded l3fwd_event_port_setup_generic_def]]
    have len: "length (vt_event_q_id s3) = unat (vt_nb_queues s3)" using q p by simp
    note a = ev_adapter_stage_generic [OF 4 len]
    have tm: "vt_tx_mode_q s" using d q p a True by (simp add: ev_same_def)
    have n: "unat (vt_nb_queues s1) = min (length ?ps + 1) (unat (vi_max_queues (vs_info E)))"
      using w [of "length ?ps + 1" "vi_max_queues (vs_info E)"] d assms(2) tm by (simp add: ev_wanted_def add.commute)
    have tk: "take (k - 1) (map of_nat [0..<k]) = map of_nat [0..<k - 1]" for k by (simp add: take_map)
    show ?thesis using d q p a n True assms(3,4) rxq [of "unat (vt_nb_queues s1)"] tk ev_queue_generic_pos [OF 2]
      by (auto simp: ev_same_def ev_wanted_def)
  next
    case False
    obtain cf s1 s2 s3 where
        1: "ev_device_setup E (of_nat (length ?ps)) (of_nat (se_lcore_count E)) s0 = Inr (cf, s1)"
      and 2: "l3fwd_event_queue_setup_internal_port E ?sched cf s1 = Inr s2"
      and 3: "l3fwd_event_port_setup_internal_port E s2 = Inr s3" and 4: "l3fwd_rx_tx_adapter_setup_internal_port E c s3 = Inr s"
      using assms(1) False by (auto simp: ev_device_part_def ev_monad Let_def l3fwd_event_device_setup_internal_port_def)
    note d = ev_device_stage [OF 1] and q = ev_queue_stage [OF disjI2, OF 2]
      and p = ev_port_stage [OF 3 [unfolded l3fwd_event_port_setup_internal_port_def]]
    have len: "length (vt_event_q_id s3) = unat (vt_nb_queues s3)" using q p by simp
    note a = ev_adapter_stage_internal [OF 4 len]
    have tm: "\<not> vt_tx_mode_q s" using d q p a False by (simp add: ev_same_def)
    have n: "unat (vt_nb_queues s1) = min (length ?ps) (unat (vi_max_queues (vs_info E)))"
      using w [of "length ?ps" "vi_max_queues (vs_info E)"] d assms(2) tm by (simp add: ev_wanted_def)
    show ?thesis using d q p a n False assms(3,4) rxq [of "unat (vt_nb_queues s1)"]
      by (auto simp: ev_same_def ev_wanted_def)
  qed
qed

text \<open>C28. The set-up of the event device, when it succeeds: each enabled Ethernet port is attached to an event queue of its
  own, every worker has an event port of its own, linked to all queues in the mode where the devices send by
  themselves, and to all queues but that of the transmit adapter otherwise. In that second mode the queue of the transmit
  adapter is none of the ports' exactly when the event device has more queues than there are ports; with as many queues as
  ports the packets of the last port go to the transmit adapter without passing a worker, which the program
  does not notice.\<close>

theorem event_setup_queues:
  assumes "l3fwd_event_resource_setup E c ss = Some (Inr (ss', s))"
    and "ev_wanted E (c_port_mask c) (vt_tx_mode_q s) < 256"
  shows "let ports = ev_enabled_ports E (c_port_mask c); qs = rx_queues (vt_calls s); most = unat (vi_max_queues (vs_info E)) in
     qs = map (\<lambda>(k, p). (p, of_nat k)) (enumerate 0 ports) \<and> distinct (map snd qs) \<and> length ports \<le> most
     \<and> vt_event_p_id s = map of_nat [0..<unat (vt_nb_ports s)] \<and> distinct (vt_event_p_id s)
     \<and> (\<forall>p \<in> set (vt_event_p_id s).
          (p, if vt_tx_mode_q s then Some (butlast (vt_event_q_id s)) else None) \<in> set (ev_links (vt_calls s)))
     \<and> (vt_tx_mode_q s \<longrightarrow> (tx_q_id_of (resources_of s) \<notin> snd ` set qs \<longleftrightarrow> length ports < most))"
proof -
  let ?ps = "ev_enabled_ports E (c_port_mask c)" and ?most = "unat (vi_max_queues (vs_info E))" and ?nb = "unat (vt_nb_queues s)"
  obtain s0 where s0: "l3fwd_event_capability_setup E init_evs = Inr s0" and part: "ev_device_part E c s0 = Inr s"
    using assms(1) by (auto simp: l3fwd_event_resource_setup_def split: if_splits sum.splits option.splits)
  have "rx_queues (vt_calls s0) = [] \<and> ev_links (vt_calls s0) = []"
    by (rule foldM_inv [OF s0 [unfolded l3fwd_event_capability_setup_def],
        where I = "\<lambda>s. rx_queues (vt_calls s) = [] \<and> ev_links (vt_calls s) = []"])
       (auto simp: init_evs_def ev_capability_step_def split: option.splits)
  then have f: "vt_tx_mode_q s \<longrightarrow> 0 < ?nb" "?nb = min (ev_wanted E (c_port_mask c) (vt_tx_mode_q s)) ?most"
      "vt_event_q_id s = map of_nat [0..<?nb]" "vt_event_p_id s = map of_nat [0..<unat (vt_nb_ports s)]" "length ?ps \<le> ?nb"
      "rx_queues (vt_calls s) = map (\<lambda>(k, p). (p, of_nat k)) (enumerate 0 ?ps)"
      "\<exists>ls. ev_links (vt_calls s)
         = map (\<lambda>p. (of_nat p, if vt_tx_mode_q s then Some (map of_nat [0..<?nb - 1]) else None)) [0..<unat (vt_nb_ports s)] @ ls"
    using ev_device_part_stages [OF part assms(2)] by blast+
  have inj: "inj_on (of_nat :: nat \<Rightarrow> u8) {..<256}"
    by (rule inj_onI) (auto dest!: arg_cong [where f = unat] simp: unat_of_nat)
  have nb: "?nb < 256" using unsigned_less [of "vt_nb_queues s"] by simp
  have np: "unat (vt_nb_ports s) < 256" using unsigned_less [of "vt_nb_ports s"] by simp
  have qs: "map snd (rx_queues (vt_calls s)) = map of_nat [0..<length ?ps]"
    unfolding f(6) by (rule nth_equalityI) (simp_all add: nth_enumerate_eq)
  have dist: "distinct (map of_nat [0..<n] :: u8 list)" if "n < 256" for n
    using that by (auto simp: distinct_map intro: inj_on_subset [OF inj])
  have most: "length ?ps \<le> ?most" using f(2,5) by simp
  have link: "\<forall>p \<in> set (vt_event_p_id s).
      (p, if vt_tx_mode_q s then Some (butlast (vt_event_q_id s)) else None) \<in> set (ev_links (vt_calls s))"
    using f(4,7) unfolding f(3) by (auto simp: butlast_conv_take take_map)
  have tx: "tx_q_id_of (resources_of s) \<notin> snd ` set (rx_queues (vt_calls s)) \<longleftrightarrow> length ?ps < ?most" if t: "vt_tx_mode_q s"
  proof -
    have "0 < ?nb" using f(1) t by simp
    then have "tx_q_id_of (resources_of s) = of_nat (?nb - 1)" by (simp add: tx_q_id_of_def resources_of_def f(3))
    moreover have "snd ` set (rx_queues (vt_calls s)) = of_nat ` {..<length ?ps}"
      using arg_cong [OF qs, of set] by (simp add: atLeast0LessThan)
    moreover have "of_nat (?nb - 1) \<in> (of_nat :: nat \<Rightarrow> u8) ` {..<length ?ps} \<longleftrightarrow> ?nb - 1 < length ?ps"
      using inj_on_image_mem_iff [OF inj, of "?nb - 1" "{..<length ?ps}"] nb f(5) by auto
    moreover have "?nb = min (length ?ps + 1) ?most" using f(2) t by (simp add: ev_wanted_def)
    ultimately show ?thesis using \<open>0 < ?nb\<close> by (auto simp: min_def split: if_splits)
  qed
  show ?thesis using f(4,6) most link tx dist [OF np] dist [of "length ?ps"] f(5) nb qs by (simp add: Let_def)
qed

section \<open>The receive queues of a port\<close>

lemma ucast_less_16: "ucast (q :: u8) < (n :: u16) \<longleftrightarrow> unat q < unat n"
proof -
  have "unat q < 256" using unsigned_less [of q] by simp
  then show ?thesis by (simp add: word_less_nat_alt unsigned_ucast_eq take_bit_nat_eq_self)
qed

lemma ev_rxq_loop_ends:
  assumes "\<And>q. ok q" and "unat n < 256"
  shows "k \<le> unat n \<Longrightarrow> ev_rxq_loop ok call n (of_nat k) tr = Some (Inr (tr @ map (\<lambda>q. call (of_nat q)) [k..<unat n]))"
proof (induction "unat n - k" arbitrary: k tr)
  case 0
  then have "k = unat n" by simp
  moreover have "\<not> ucast (of_nat (unat n) :: u8) < n"
    using assms(2) by (simp add: ucast_less_16 unat_of_nat del: of_nat_unat)
  ultimately show ?case by (subst ev_rxq_loop.simps) simp
next
  case (Suc d)
  then have k: "k < unat n" by simp
  have "ucast (of_nat k :: u8) < n"
    using k assms(2) by (simp add: ucast_less_16 unat_of_nat)
  moreover have "[k..<unat n] = k # [Suc k..<unat n]" using k by (rule upt_conv_Cons)
  moreover have "ev_rxq_loop ok call n (of_nat (Suc k)) (tr @ [call (of_nat k)])
      = Some (Inr ((tr @ [call (of_nat k)]) @ map (\<lambda>q. call (of_nat q)) [Suc k..<unat n]))"
    by (rule Suc.hyps(1)) (use Suc.hyps(2) k in auto)
  ultimately show ?case using assms(1) by (subst ev_rxq_loop.simps) (simp add: add.commute)
qed

lemma ev_rxq_loop_hangs:
  assumes "256 \<le> unat n" and "\<And>q. ok q"
  shows "ev_rxq_loop ok call n q tr = None"
proof -
  have lt: "ucast q < (n :: u16)" if "256 \<le> unat n" for q :: u8 and n
  proof -
    have "unat q < 256" using unsigned_less [of q] by simp
    then show ?thesis using that by (simp add: ucast_less_16)
  qed
  have "256 \<le> unat n \<longrightarrow> (\<exists>q. \<not> ok q)" if "ev_rxq_loop ok call n q tr = Some y" for ok call n q tr y
    by (rule ev_rxq_loop.raw_induct [where P = "\<lambda>ok call n q tr y. 256 \<le> unat n \<longrightarrow> (\<exists>q. \<not> ok q)", OF _ that])
       (use lt in \<open>auto split: if_splits\<close>)
  from this [of ok call n q tr] assms show ?thesis by (cases "ev_rxq_loop ok call n q tr") auto
qed

text \<open>C29. The receive queues of a port in event mode: with fewer than 256 they are set up once each, in order. From 256
  on, which \<open>--event-eth-rxqs\<close> accepts, the loop never ends: its counter has 8 bits and the number of queues
  16, so a device that accepts the queues is asked for queue 0 again and again.\<close>

theorem event_rx_queues_end:
  assumes "\<forall>q :: u8. se_rxq E portid (unat q) (ss_rxd s) 0 (pc_rx_off conf) pool"
    and "pool = (if \<not> c_per_port_pool c then (0, 0) else (portid, 0))" and "n = unat (ev_eth_rx_queues (c_evt c))"
  shows "ev_rx_queues E c portid conf s
    = (if n < 256 then Some (Inr (s\<lparr>ss_trace := ss_trace s @ map (\<lambda>q. Rx_queue portid q 0 pool) [0..<n]\<rparr>)) else None)"
proof (cases "n < 256")
  case True
  have "map (\<lambda>q. Rx_queue portid (unat (of_nat q :: u8)) 0 pool) [0..<n] = map (\<lambda>q. Rx_queue portid q 0 pool) [0..<n]"
    using True by (simp add: unat_of_nat)
  then show ?thesis
    using ev_rxq_loop_ends [of "\<lambda>q. se_rxq E portid (unat q) (ss_rxd s) 0 (pc_rx_off conf) pool" "ev_eth_rx_queues (c_evt c)" 0
        "\<lambda>q. Rx_queue portid (unat q) 0 pool" "ss_trace s"] True assms
    by (simp add: ev_rx_queues_def Let_def del: map_eq_conv)
next
  case False
  then show ?thesis
    using ev_rxq_loop_hangs [of "ev_eth_rx_queues (c_evt c)" "\<lambda>q. se_rxq E portid (unat q) (ss_rxd s) 0 (pc_rx_off conf) pool"] assms
    by (simp add: ev_rx_queues_def Let_def)
qed

section \<open>Examples\<close>

text \<open>A device with room for five queues and four ports, and a transmit adapter without a port of its own.\<close>

definition evs_ex :: evs_env where
  "evs_ex = setup_env.extend setup_ex \<lparr>vs_internal_port = 1, vs_no_implicit_release = 1, vs_all_types = 2, vs_burst_mode = 4,
     vs_preschedule = 8, vs_preschedule_adaptive = 16, vs_event_vector = 2, vs_q_all_types = 1, vs_q_single_link = 2,
     vs_p_disable_release = 1, vs_eventdevs = 1, vs_service_lcores = 1,
     vs_info = \<lparr>vi_max_queues = 5, vi_max_events = 4096, vi_max_flows = 1024, vi_max_deq = 128, vi_max_enq = 128,
       vi_max_ports = 8, vi_cap = 6\<rparr>,
     vs_tx_caps = (\<lambda>_. Some 0), vs_rx_caps = (\<lambda>_. Some 2), vs_device = (\<lambda>_. True),
     vs_queue_default = Some \<lparr>qc_flows = 1024, qc_sequences = 1024, qc_cfg = 0, qc_sched = Sched_atomic, qc_highest = False\<rparr>,
     vs_queue = (\<lambda>_ _. True), vs_port_default = Some \<lparr>epc_threshold = 4096, epc_deq = 32, epc_enq = 32, epc_cfg = 0\<rparr>,
     vs_port = (\<lambda>_ _. True), vs_link = (\<lambda>_ qs. case qs of None \<Rightarrow> 5 | Some q \<Rightarrow> int (length q)), vs_malloc = (\<lambda>_. True),
     vs_junk = (\<lambda>_. 0xa5), vs_adapter = (\<lambda>_ _ _. True), vs_rx_add = (\<lambda>_ _ _. True), vs_tx_add = (\<lambda>_ _. True),
     vs_adapter_start = (\<lambda>_ _. True), vs_service = (\<lambda>_. (0, 7)), vs_service0 = 0, vs_tx_port = Some 4, vs_start = True\<rparr>"

definition ev_cfg_ex :: cfg where
  "ev_cfg_ex = cfg_ex\<lparr>c_fl_eth_rxq := True, c_evt := (c_evt cfg_ex)\<lparr>ev_enabled := True, ev_eth_rx_queues := 2\<rparr>\<rparr>"

lemma truncate_ex: "setup_env.truncate evs_ex = setup_ex"
  by (simp add: evs_ex_def setup_env.defs)

lemma ev_init_mem_ex: "\<exists>s'. init_mem setup_ex ev_cfg_ex p n s = Inr s'"
  unfolding init_mem_def
proof (rule foldM_total)
  fix l s
  have "l mod 2 < NB_SOCKETS" by (rule order.strict_trans2 [of _ 2]) (simp_all add: NB_SOCKETS_def)
  then show "\<exists>s'. init_mem_lcore setup_ex ev_cfg_ex p n l s = Inr s'"
    by (auto simp: init_mem_lcore_def init_pool_def init_vec_pool_def setup_ex_def ev_cfg_ex_def cfg_ex_def init_cfg_def
        socket_of_def Let_def)
qed

lemma ev_rx_queues_ex: "\<exists>s'. ev_rx_queues evs_ex ev_cfg_ex p conf s = Some (Inr s')"
proof -
  have "se_rxq evs_ex = (\<lambda>_ _ _ _ _ _. True)" by (simp add: evs_ex_def setup_env.defs setup_ex_def)
  moreover have "unat (ev_eth_rx_queues (c_evt ev_cfg_ex)) = 2" by (simp add: ev_cfg_ex_def)
  ultimately show ?thesis
    using ev_rxq_loop_ends [of "\<lambda>_. True" "ev_eth_rx_queues (c_evt ev_cfg_ex)" 0 _ "ss_trace s"]
    by (simp add: ev_rx_queues_def Let_def)
qed

lemma ev_setup_port_ex: "\<exists>s'. ev_setup_port evs_ex ev_cfg_ex p s = Some (Inr s')"
proof -
  have "\<exists>conf s1. ev_configure_port evs_ex ev_cfg_ex p s = Inr (conf, s1)"
    by (simp add: ev_configure_port_def truncate_ex) 
       (simp add: evs_ex_def setup_env.defs setup_ex_def ev_cfg_ex_def cfg_ex_def init_cfg_def config_port_max_pkt_len_def Let_def)
  moreover have "se_txq evs_ex = (\<lambda>_ _ _ _ _. True)" by (simp add: evs_ex_def setup_env.defs setup_ex_def)
  ultimately show ?thesis unfolding ev_setup_port_def truncate_ex
    using ev_init_mem_ex ev_rx_queues_ex by (auto split: sum.splits option.splits) (metis sum.distinct(1) option.distinct(1) option.inject)+
qed

lemma ev_setup_ports_ex: "\<exists>s'. ev_setup_ports evs_ex ev_cfg_ex ps s = Some (Inr s')"
proof (induction ps arbitrary: s)
  case (Cons p ps)
  obtain s1 where "ev_setup_port evs_ex ev_cfg_ex p s = Some (Inr s1)" using ev_setup_port_ex by blast
  then show ?case using Cons.IH [of s1] by simp
qed simp

lemma ev_device_part_ex: "\<exists>s. ev_device_part evs_ex ev_cfg_ex (init_evs\<lparr>vt_tx_mode_q := True\<rparr>) = Inr s \<and> vt_tx_mode_q s"
proof -
  have "case ev_device_part evs_ex ev_cfg_ex (init_evs\<lparr>vt_tx_mode_q := True\<rparr>) of Inl _ \<Rightarrow> False | Inr s \<Rightarrow> vt_tx_mode_q s"
    by code_simp
  then show ?thesis by (auto split: sum.splits)
qed

lemma event_setup_ex:
  "\<exists>ss' s. l3fwd_event_resource_setup evs_ex ev_cfg_ex (init_sstate ev_cfg_ex) = Some (Inr (ss', s)) \<and> vt_tx_mode_q s"
proof -
  obtain ss' where 1: "l3fwd_eth_dev_port_setup evs_ex ev_cfg_ex (init_sstate ev_cfg_ex) = Some (Inr ss')"
    using ev_setup_ports_ex unfolding l3fwd_eth_dev_port_setup_def by blast
  obtain s where 2: "ev_device_part evs_ex ev_cfg_ex (init_evs\<lparr>vt_tx_mode_q := True\<rparr>) = Inr s" "vt_tx_mode_q s"
    using ev_device_part_ex by blast
  have 3: "l3fwd_event_capability_setup evs_ex init_evs = Inr (init_evs\<lparr>vt_tx_mode_q := True\<rparr>)"
    by (simp add: l3fwd_event_capability_setup_def ev_capability_step_def evs_ex_def setup_env.defs setup_ex_def init_evs_def)
  have "vs_eventdevs evs_ex \<noteq> 0" by (simp add: evs_ex_def setup_env.defs)
  then show ?thesis using 2(2) by (simp add: l3fwd_event_resource_setup_def 1 2(1) 3)
qed

theorem event_setup_queues_witness:
  "\<exists>ss' s. l3fwd_event_resource_setup evs_ex ev_cfg_ex (init_sstate ev_cfg_ex) = Some (Inr (ss', s))
    \<and> rx_queues (vt_calls s) = [(0, 0), (1, 1), (2, 2), (3, 3)]
    \<and> tx_q_id_of (resources_of s) \<notin> snd ` set (rx_queues (vt_calls s))"
proof -
  obtain ss' s where 1: "l3fwd_event_resource_setup evs_ex ev_cfg_ex (init_sstate ev_cfg_ex) = Some (Inr (ss', s))" "vt_tx_mode_q s"
    using event_setup_ex by blast
  have p: "ev_enabled_ports evs_ex (c_port_mask ev_cfg_ex) = [0, 1, 2, 3]" by code_simp
  have m: "unat (vi_max_queues (vs_info evs_ex)) = 5" by code_simp
  have "ev_wanted evs_ex (c_port_mask ev_cfg_ex) (vt_tx_mode_q s) < 256" by (simp add: ev_wanted_def p)
  note w = event_setup_queues [OF 1(1) this, unfolded Let_def p m]
  have "length [0 :: nat, 1, 2, 3] < 5" by simp
  then have "tx_q_id_of (resources_of s) \<notin> snd ` set (rx_queues (vt_calls s))" using w 1(2) by blast
  moreover have "rx_queues (vt_calls s) = [(0, 0), (1, 1), (2, 2), (3, 3)]" using w by simp
  ultimately show ?thesis using 1(1) by (intro exI conjI)
qed

theorem event_rx_queues_end_witness:
  "ev_rx_queues evs_ex (ev_cfg_ex\<lparr>c_evt := (c_evt ev_cfg_ex)\<lparr>ev_eth_rx_queues := 300\<rparr>\<rparr>) 1
     (port_conf_of setup_ex ev_cfg_ex) (init_sstate ev_cfg_ex) = None"
proof -
  have "\<forall>q :: u8. se_rxq evs_ex 1 (unat q) (ss_rxd (init_sstate ev_cfg_ex)) 0 (pc_rx_off (port_conf_of setup_ex ev_cfg_ex)) pool" for pool
    by (simp add: evs_ex_def setup_env.defs setup_ex_def)
  from event_rx_queues_end [OF this refl refl, of "ev_cfg_ex\<lparr>c_evt := (c_evt ev_cfg_ex)\<lparr>ev_eth_rx_queues := 300\<rparr>\<rparr>"]
  show ?thesis by simp
qed

end
