(* ===== verification/L3_Main.thy ===== *)
theory L3_Main
  imports Event_Setup Acl_Rules Em_Forward Link_Wait
begin

text \<open>
  The program \<open>l3fwd\<close> as a whole, \<open>main\<close> of \<open>l3fwd/main.c\<close>: options, the choice of the lookup method, the
  rule files, the set-up of the devices in polling or event mode, the services of the event device, the start of
  the ports, the packet type parsers, the main loop that is launched, and the end of the program.
\<close>

section \<open>The lookup methods\<close>

text \<open>The functions of \<open>struct l3fwd_lkp_mode\<close>, by name.\<close>

datatype route_reader = Read_config_files_em | Read_config_files_lpm | Read_config_files_acl
datatype lookup_setup = Setup_hash | Setup_lpm | Setup_fib | Setup_acl
datatype ptype_parser = Em_ptype | Lpm_ptype
datatype main_loop = Em_main_loop | Lpm_main_loop | Fib_main_loop | Acl_main_loop
  | Em_event_loop | Lpm_event_loop | Fib_event_loop

record l3fwd_lkp_mode =
  lk_read :: route_reader
  lk_setup :: lookup_setup
  lk_ptype :: ptype_parser
  lk_loop :: main_loop

definition l3fwd_em_lkp :: l3fwd_lkp_mode where
  "l3fwd_em_lkp = \<lparr>lk_read = Read_config_files_em, lk_setup = Setup_hash, lk_ptype = Em_ptype, lk_loop = Em_main_loop\<rparr>"

definition l3fwd_lpm_lkp :: l3fwd_lkp_mode where
  "l3fwd_lpm_lkp = \<lparr>lk_read = Read_config_files_lpm, lk_setup = Setup_lpm, lk_ptype = Lpm_ptype, lk_loop = Lpm_main_loop\<rparr>"

definition l3fwd_fib_lkp :: l3fwd_lkp_mode where
  "l3fwd_fib_lkp = \<lparr>lk_read = Read_config_files_lpm, lk_setup = Setup_fib, lk_ptype = Lpm_ptype, lk_loop = Fib_main_loop\<rparr>"

definition l3fwd_acl_lkp :: l3fwd_lkp_mode where
  "l3fwd_acl_lkp = \<lparr>lk_read = Read_config_files_acl, lk_setup = Setup_acl, lk_ptype = Em_ptype, lk_loop = Acl_main_loop\<rparr>"

definition setup_l3fwd_lookup_tables :: "lookup_mode \<Rightarrow> l3fwd_lkp_mode" where
  "setup_l3fwd_lookup_tables lookup_mode =
     (if lookup_mode = Lookup_em then l3fwd_em_lkp
      else if lookup_mode = Lookup_fib then l3fwd_fib_lkp
      else if lookup_mode = Lookup_acl then l3fwd_acl_lkp
      else l3fwd_lpm_lkp)"

section \<open>The environment\<close>

text \<open>The service library sees the calls that map a service to an lcore or unmap it; \<open>sv_count\<close> is the number of
  services of an lcore after the calls.\<close>

type_synonym svc_call = "u32 \<times> nat \<times> bool"

record svc_api =
  sv_lcore_count :: nat
  sv_lcores :: "nat list option"
  sv_map :: "svc_call list \<Rightarrow> svc_call \<Rightarrow> bool"
  sv_count :: "svc_call list \<Rightarrow> nat \<Rightarrow> int"
  sv_distributed :: bool
  sv_dev_id :: "int \<times> u32"
  sv_rx_caps :: "u8 \<Rightarrow> bool"
  sv_rx_id :: "int \<times> u32"
  sv_tx_caps :: "u8 \<Rightarrow> bool"
  sv_tx_id :: "int \<times> u32"
  sv_id0 :: u32

record main_env =
  mn_cfg :: cfg_env
  mn_local_admin :: u64
  mn_rss_hf :: u64
  mn_dev :: evs_env
  mn_stdio :: stdio
  mn_inet :: inet
  mn_acl_priority :: int
  mn_dpdk :: dpdk
  mn_ptypes :: "nat \<Rightarrow> u32 list"
  mn_callback :: "nat \<Rightarrow> nat \<Rightarrow> bool"
  mn_start :: "nat \<Rightarrow> bool"
  mn_promiscuous :: "nat \<Rightarrow> bool"
  mn_services :: svc_api
  mn_stop :: "nat \<Rightarrow> int"

section \<open>Routes\<close>

datatype routes =
    Em_routes "(u32 em_rule, u8 list em_rule) route_tables"
  | Lpm_routes "(u32 route, u8 list route) route_tables"
  | Acl_routes acl_state

definition no_tables :: "('a, 'b) route_tables" where
  "no_tables = \<lparr>route_base_v4 = None, route_base_v6 = None, route_num_v4 = 0, route_num_v6 = 0\<rparr>"

definition no_acl :: acl_state where
  "no_acl = \<lparr>as_route4 = None, as_acl4 = None, as_route6 = None, as_acl6 = None, as_ctx4 = (\<lambda>_. None), as_ctx6 = (\<lambda>_. None)\<rparr>"

definition tables_or_exit :: "(bool \<times> 't) option \<Rightarrow> string + 't" where
  "tables_or_exit r = (case r of None \<Rightarrow> Inl ''write past an array'' | Some (ex, t) \<Rightarrow> if ex then Inl ''exit'' else Inr t)"

definition read_config_files :: "main_env \<Rightarrow> cfg \<Rightarrow> route_reader \<Rightarrow> string + routes" where
  "read_config_files M c r =
     (case r of
        Read_config_files_em \<Rightarrow>
          sbind (tables_or_exit (read_config_files_em (mn_stdio M) (mn_inet M) (c_rules c) no_tables)) (\<lambda>t. Inr (Em_routes t))
      | Read_config_files_lpm \<Rightarrow>
          sbind (tables_or_exit (read_config_files_lpm (mn_stdio M) (mn_inet M) (c_rules c) no_tables)) (\<lambda>t. Inr (Lpm_routes t))
      | Read_config_files_acl \<Rightarrow>
          sbind (read_config_files_acl (mn_stdio M) (mn_inet M) (c_port_mask c) (mn_acl_priority M) (c_rules c) no_acl)
            (\<lambda>t. Inr (Acl_routes t)))"

section \<open>Packet types\<close>

definition check_ptype :: "main_env \<Rightarrow> cfg \<Rightarrow> ptype_parser \<Rightarrow> nat \<Rightarrow> bool" where
  "check_ptype M c p portid =
     (case p of Em_ptype \<Rightarrow> em_check_ptype (mn_dpdk M) (c_ipv6 c) (mn_ptypes M portid)
      | Lpm_ptype \<Rightarrow> lpm_check_ptype (mn_dpdk M) (c_ipv6 c) (mn_ptypes M portid))"

definition prepare_ptype_parser :: "main_env \<Rightarrow> cfg \<Rightarrow> ptype_parser \<Rightarrow> nat \<Rightarrow> nat \<Rightarrow> bool" where
  "prepare_ptype_parser M c p portid queueid =
     (if c_parse_ptype c then mn_callback M portid queueid else check_ptype M c p portid)"

definition ptype_step :: "main_env \<Rightarrow> cfg \<Rightarrow> ptype_parser \<Rightarrow> u16 \<times> u16 \<Rightarrow> unit \<Rightarrow> string + unit" where
  "ptype_step M c p pq u =
     (if prepare_ptype_parser M c p (unat (fst pq)) (unat (snd pq)) then Inr u else Inl ''ptype check fails'')"

definition ptype_lcore :: "main_env \<Rightarrow> cfg \<Rightarrow> ptype_parser \<Rightarrow> (nat \<Rightarrow> lconf) \<Rightarrow> nat \<Rightarrow> unit \<Rightarrow> string + unit" where
  "ptype_lcore M c p lcores lcore_id u =
     (if \<not> se_lcore_enabled (mn_dev M) lcore_id then Inr u
      else foldM (ptype_step M c p) (lc_rx (lcores lcore_id)) u)"

section \<open>Services of the event device\<close>

definition ENOENT :: int where "ENOENT = 2"

text \<open>The service lcore with the fewest services; the service is unmapped from all on the way. The state is
  \<open>min_service_count\<close>, \<open>slcore\<close> and the calls.\<close>

definition service_step :: "svc_api \<Rightarrow> u32 \<Rightarrow> nat \<Rightarrow> u8 \<times> nat \<times> svc_call list \<Rightarrow> svc_call list + u8 \<times> nat \<times> svc_call list" where
  "service_step V service_id l st =
     (let (min_service_count, slcore, h) = st
      in if \<not> sv_map V h (service_id, l, False) then Inl h
         else let h1 = h @ [(service_id, l, False)]; service_count = of_int (sv_count V h1 l)
              in if service_count < min_service_count then Inr (service_count, l, h1) else Inr (min_service_count, slcore, h1))"

definition l3fwd_service_enable :: "svc_api \<Rightarrow> u32 \<Rightarrow> svc_call list \<Rightarrow> int \<times> svc_call list" where
  "l3fwd_service_enable V service_id h =
     (if sv_lcore_count V = 0 then (- ENOENT, h)
      else case sv_lcores V of
             None \<Rightarrow> (- ENOENT, h)
           | Some ls \<Rightarrow>
               (case foldM (service_step V service_id) (rev ls) (- 1, 0, h) of
                  Inl h1 \<Rightarrow> (- ENOENT, h1)
                | Inr (_, slcore, h1) \<Rightarrow>
                    if \<not> sv_map V h1 (service_id, slcore, True) then (- ENOENT, h1)
                    else (0, h1 @ [(service_id, slcore, True)])))"

text \<open>The ids of the adapters in \<open>rx_adptr\<close> are asked only for their capabilities; the service is the one
  of the adapter with the id of the event device. The result of \<open>l3fwd_service_enable\<close> is not used. On \<open>-ESRCH\<close> the
  variable keeps its value.\<close>

definition service_of :: "int \<times> u32 \<Rightarrow> u32 \<Rightarrow> string + u32" where
  "service_of a service_id =
     (if fst a \<noteq> - ESRCH \<and> fst a \<noteq> 0 then Inl ''Error in starting service''
      else Inr (if fst a = 0 then snd a else service_id))"

definition enable_step :: "svc_api \<Rightarrow> (u8 \<Rightarrow> bool) \<Rightarrow> int \<times> u32 \<Rightarrow> u8 \<Rightarrow> u32 \<times> svc_call list \<Rightarrow> string + u32 \<times> svc_call list" where
  "enable_step V caps a adapter st =
     (let (service_id, h) = st
      in ev_need (caps adapter) ''Failed to get adapter caps'' (
         sbind (service_of a service_id) (\<lambda>sid. Inr (sid, snd (l3fwd_service_enable V sid h)))))"

definition l3fwd_event_service_setup :: "svc_api \<Rightarrow> evs \<Rightarrow> string + svc_call list" where
  "l3fwd_event_service_setup V s =
     sbind (if sv_distributed V then Inr (sv_id0 V, [])
            else sbind (service_of (sv_dev_id V) (sv_id0 V)) (\<lambda>sid. Inr (sid, snd (l3fwd_service_enable V sid [])))) (\<lambda>st0.
     sbind (foldM (enable_step V (sv_rx_caps V) (sv_rx_id V)) (vt_rx_adptr s) st0) (\<lambda>st1.
     sbind (foldM (enable_step V (sv_tx_caps V) (sv_tx_id V)) (vt_tx_adptr s) st1) (\<lambda>st2.
     Inr (snd st2))))"

section \<open>From the options to the launch\<close>

text \<open>The devices in polling or in event mode, with the main loop. \<open>None\<close> is a set-up that never ends.\<close>

definition setup_mode :: "main_env \<Rightarrow> cfg \<Rightarrow> main_loop \<Rightarrow> (string + main_loop \<times> sstate \<times> evs option) option" where
  "setup_mode M c loop =
     (if ev_enabled (c_evt c) then
        (case l3fwd_event_resource_setup (mn_dev M) c (init_sstate c) of
           None \<Rightarrow> None
         | Some (Inl e) \<Rightarrow> Some (Inl e)
         | Some (Inr (ss, s)) \<Rightarrow>
             Some (Inr (if c_lookup c = Lookup_em then Em_event_loop
                        else if c_lookup c = Lookup_fib then Fib_event_loop else Lpm_event_loop, ss, Some s)))
      else Some (sbind (l3fwd_poll_resource_setup (setup_env.truncate (mn_dev M)) c (init_sstate c)) (\<lambda>ss. Inr (loop, ss, None))))"

definition start_port :: "main_env \<Rightarrow> cfg \<Rightarrow> nat \<Rightarrow> nat list \<Rightarrow> string + nat list" where
  "start_port M c portid started =
     (if \<not> in_mask (c_port_mask c) portid then Inr started
      else if \<not> mn_start M portid then Inl ''rte_eth_dev_start''
      else if c_promiscuous c \<and> \<not> mn_promiscuous M portid then Inl ''rte_eth_promiscuous_enable''
      else Inr (started @ [portid]))"

record main_run =
  mr_cfg :: cfg
  mr_loop :: main_loop
  mr_setup :: lookup_setup
  mr_routes :: routes
  mr_state :: sstate
  mr_event :: "evs option"
  mr_started :: "nat list"

definition start_all :: "main_env \<Rightarrow> cfg \<Rightarrow> l3fwd_lkp_mode \<Rightarrow> routes \<Rightarrow> main_loop \<times> sstate \<times> evs option \<Rightarrow> string + main_run" where
  "start_all M c lkp rts r =
     (let (loop, ss, ev) = r
      in sbind (foldM (start_port M c) (se_ports (mn_dev M)) []) (\<lambda>started.
         sbind (case ev of None \<Rightarrow> Inr [] | Some s \<Rightarrow> l3fwd_event_service_setup (mn_services M) s) (\<lambda>_.
         sbind (foldM (ptype_lcore M c (lk_ptype lkp) (ss_lcores ss)) [0..<se_max_lcore (mn_dev M)] ()) (\<lambda>_.
         Inr \<lparr>mr_cfg = c, mr_loop = loop, mr_setup = lk_setup lkp, mr_routes = rts, mr_state = ss, mr_event = ev, mr_started = started\<rparr>))))"

definition l3fwd_main :: "main_env \<Rightarrow> opt list \<Rightarrow> (string + main_run) option" where
  "l3fwd_main M opts =
     (case parse_args (mn_cfg M) (init_cfg (mn_cfg M) (mn_local_admin M) (mn_rss_hf M)) opts of
        Fails \<Rightarrow> Some (Inl ''Invalid L3FWD parameters'')
      | Exits \<Rightarrow> Some (Inl ''exit'')
      | Goes c \<Rightarrow>
          let lkp = setup_l3fwd_lookup_tables (c_lookup c)
          in (case read_config_files M c (lk_read lkp) of
                Inl e \<Rightarrow> Some (Inl e)
              | Inr rts \<Rightarrow>
                  (case setup_mode M c (lk_loop lkp) of
                     None \<Rightarrow> None
                   | Some (Inl e) \<Rightarrow> Some (Inl e)
                   | Some (Inr r) \<Rightarrow> Some (start_all M c lkp rts r))))"

section \<open>The end of the program\<close>

datatype end_call = Adapter_stop bool u8 | Port_stop nat | Port_close nat | Wait_lcores | Event_dev_stop | Event_dev_close | Free_routes

text \<open>What \<open>main\<close> calls after the launch, and what it returns: the result of the last port that was stopped.\<close>

definition l3fwd_end :: "main_env \<Rightarrow> main_run \<Rightarrow> end_call list \<times> int" where
  "l3fwd_end M r =
     (let ports = filter (in_mask (c_port_mask (mr_cfg r))) (se_ports (mn_dev M));
          ret = (if ports = [] then 0 else mn_stop M (last ports))
      in ((case mr_event r of
            Some s \<Rightarrow>
              map (Adapter_stop False) (vt_rx_adptr s) @ map (Adapter_stop True) (vt_tx_adptr s) @ map Port_stop ports
              @ [Wait_lcores] @ map Port_close ports @ [Event_dev_stop, Event_dev_close]
          | None \<Rightarrow> Wait_lcores # concat (map (\<lambda>p. [Port_stop p, Port_close p]) ports)) @ [Free_routes],
          ret))"

section \<open>What a run that starts has gone through\<close>

lemma start_ports_effect:
  assumes "foldM (start_port M c) ps [] = Inr started"
  shows "started = filter (in_mask (c_port_mask c)) ps
    \<and> (\<forall>p \<in> set started. mn_start M p \<and> (\<not> c_promiscuous c \<or> mn_promiscuous M p))"
  by (rule foldM_passes [where P = "\<lambda>ys st. st = filter (in_mask (c_port_mask c)) ys
        \<and> (\<forall>p \<in> set st. mn_start M p \<and> (\<not> c_promiscuous c \<or> mn_promiscuous M p))", OF assms])
     (auto simp: start_port_def split: if_splits)

lemma ptype_lcore_effect:
  assumes "ptype_lcore M c p lcores l u = Inr u'" and "se_lcore_enabled (mn_dev M) l"
    and "x \<in> set (lc_rx (lcores l))"
  shows "prepare_ptype_parser M c p (unat (fst x)) (unat (snd x))"
proof -
  have "foldM (ptype_step M c p) (lc_rx (lcores l)) u = Inr u'"
    using assms(1,2) by (simp add: ptype_lcore_def)
  then have "\<forall>x \<in> set (lc_rx (lcores l)). prepare_ptype_parser M c p (unat (fst x)) (unat (snd x))"
    by (rule foldM_passes [where P = "\<lambda>ys _. \<forall>x \<in> set ys. prepare_ptype_parser M c p (unat (fst x)) (unat (snd x))"])
       (auto simp: ptype_step_def split: if_splits)
  then show ?thesis using assms(3) by blast
qed

lemma ptype_effect:
  assumes "foldM (ptype_lcore M c p lcores) ls u = Inr u'" and "l \<in> set ls" and "se_lcore_enabled (mn_dev M) l"
    and "x \<in> set (lc_rx (lcores l))"
  shows "prepare_ptype_parser M c p (unat (fst x)) (unat (snd x))"
proof -
  let ?P = "\<lambda>ys. \<forall>l \<in> set ys. se_lcore_enabled (mn_dev M) l \<longrightarrow> (\<forall>x \<in> set (lc_rx (lcores l)).
      prepare_ptype_parser M c p (unat (fst x)) (unat (snd x)))"
  have "?P ls"
  proof (rule foldM_passes [where P = "\<lambda>ys _. ?P ys", OF assms(1)])
    fix ys y zs u1 u2
    assume "?P ys" and "ptype_lcore M c p lcores y u1 = Inr u2"
    then show "?P (ys @ [y])" using ptype_lcore_effect by auto
  qed simp
  then show ?thesis using assms(2-4) by blast
qed

lemma l3fwd_main_steps:
  assumes "l3fwd_main M opts = Some (Inr r)"
  obtains c lkp where "parse_args (mn_cfg M) (init_cfg (mn_cfg M) (mn_local_admin M) (mn_rss_hf M)) opts = Goes c"
    and "lkp = setup_l3fwd_lookup_tables (c_lookup c)" and "read_config_files M c (lk_read lkp) = Inr (mr_routes r)"
    and "setup_mode M c (lk_loop lkp) = Some (Inr (mr_loop r, mr_state r, mr_event r))"
    and "mr_cfg r = c" and "mr_setup r = lk_setup lkp"
    and "foldM (start_port M c) (se_ports (mn_dev M)) [] = Inr (mr_started r)"
    and "foldM (ptype_lcore M c (lk_ptype lkp) (ss_lcores (mr_state r))) [0..<se_max_lcore (mn_dev M)] () = Inr ()"
proof -
  obtain c where c: "parse_args (mn_cfg M) (init_cfg (mn_cfg M) (mn_local_admin M) (mn_rss_hf M)) opts = Goes c"
    using assms by (simp add: l3fwd_main_def split: parsed.splits)
  let ?lkp = "setup_l3fwd_lookup_tables (c_lookup c)"
  obtain rts loop ss ev where 1: "read_config_files M c (lk_read ?lkp) = Inr rts"
    and 2: "setup_mode M c (lk_loop ?lkp) = Some (Inr (loop, ss, ev))" and 3: "start_all M c ?lkp rts (loop, ss, ev) = Inr r"
    using assms by (auto simp: l3fwd_main_def c Let_def split: sum.splits option.splits)
  obtain started where 4: "foldM (start_port M c) (se_ports (mn_dev M)) [] = Inr started"
    and 5: "foldM (ptype_lcore M c (lk_ptype ?lkp) (ss_lcores ss)) [0..<se_max_lcore (mn_dev M)] () = Inr ()"
    and r: "r = \<lparr>mr_cfg = c, mr_loop = loop, mr_setup = lk_setup ?lkp, mr_routes = rts, mr_state = ss, mr_event = ev, mr_started = started\<rparr>"
    using 3 by (auto simp: start_all_def ev_monad)
  show ?thesis using that [OF c refl, of] 1 2 4 5 by (simp add: r)
qed

lemma setup_mode_poll:
  assumes "setup_mode M c loop0 = Some (Inr (loop, ss, ev))" and "\<not> ev_enabled (c_evt c)"
  shows "loop = loop0 \<and> ev = None \<and> l3fwd_poll_resource_setup (setup_env.truncate (mn_dev M)) c (init_sstate c) = Inr ss"
  using assms by (auto simp: setup_mode_def ev_monad)

lemma setup_mode_event:
  assumes "setup_mode M c loop0 = Some (Inr (loop, ss, ev))" and "ev_enabled (c_evt c)"
  shows "loop = (if c_lookup c = Lookup_em then Em_event_loop
                 else if c_lookup c = Lookup_fib then Fib_event_loop else Lpm_event_loop)
    \<and> (\<exists>s. ev = Some s \<and> l3fwd_event_resource_setup (mn_dev M) c (init_sstate c) = Some (Inr (ss, s)))"
  using assms by (auto simp: setup_mode_def split: option.splits sum.splits)

section \<open>The lcores of event mode\<close>

text \<open>The set-up of event mode gives the lcores no receive queues.\<close>

definition no_rx :: "sstate \<Rightarrow> bool" where
  "no_rx s \<longleftrightarrow> mem_inv s \<and> (\<forall>l. lc_rx (ss_lcores s l) = [])"

lemma ev_configure_port_no_rx:
  assumes "ev_configure_port E c p s = Inr (conf, s')" and "no_rx s"
  shows "no_rx s'"
  using assms by (auto simp: ev_configure_port_def no_rx_def mem_inv_def Let_def split: option.splits prod.splits if_splits)

lemma init_mem_no_rx:
  assumes "init_mem E c p n s = Inr s'" and "no_rx s"
  shows "no_rx s'"
proof -
  have "mem_inv s" and "\<And>l. lc_rx (ss_lcores s l) = []" using assms(2) by (auto simp: no_rx_def)
  with init_mem_effect [OF assms(1)] show ?thesis by (auto simp: no_rx_def set_lookup_def)
qed

lemma rxq_loop_setups:
  assumes "ev_rxq_loop ok (\<lambda>q. Rx_queue p (f q) 0 pool) n q tr = Some (Inr tr')"
  shows "lookup_setups tr' = lookup_setups tr"
  by (rule ev_rxq_loop.raw_induct [where P = "\<lambda>ok call n q tr res. (\<forall>tr k. lookup_setups (tr @ [call k]) = lookup_setups tr)
        \<longrightarrow> (\<forall>tr'. res = Inr tr' \<longrightarrow> lookup_setups tr' = lookup_setups tr)", OF _ assms, rule_format])
     (auto split: if_splits)

lemma ev_rx_queues_no_rx:
  assumes "ev_rx_queues E c p conf s = Some (Inr s')" and "no_rx s"
  shows "no_rx s'"
proof -
  let ?pool = "if \<not> c_per_port_pool c then (0, 0) else (p, 0)"
  obtain tr where t: "s' = s\<lparr>ss_trace := tr\<rparr>"
    and l: "ev_rxq_loop (\<lambda>q. se_rxq E p (unat q) (ss_rxd s) 0 (pc_rx_off conf) ?pool) (\<lambda>q. Rx_queue p (unat q) 0 ?pool)
        (ev_eth_rx_queues (c_evt c)) 0 (ss_trace s) = Some (Inr tr)"
    using assms(1) unfolding ev_rx_queues_def Let_def
    by (cases "ev_rxq_loop (\<lambda>q. se_rxq E p (unat q) (ss_rxd s) 0 (pc_rx_off conf) ?pool) (\<lambda>q. Rx_queue p (unat q) 0 ?pool)
        (ev_eth_rx_queues (c_evt c)) 0 (ss_trace s)") (auto simp del: if_split split: sum.splits)
  have "lookup_setups tr = lookup_setups (ss_trace s)" by (rule rxq_loop_setups [OF l])
  then show ?thesis using assms(2) by (auto simp: t no_rx_def mem_inv_def)
qed

lemma ev_setup_port_no_rx:
  assumes "ev_setup_port E c p s = Some (Inr s')" and "no_rx s"
  shows "no_rx s'"
proof (cases "in_mask (c_port_mask c) p")
  case True
  then obtain conf s1 s2 s3 where 1: "ev_configure_port E c p s = Inr (conf, s1)"
    and 2: "init_mem (setup_env.truncate E) c (if \<not> c_per_port_pool c then 0 else p) (ev_nb_mbuf E c (ss_rxd s1) (ss_txd s1)) s1 = Inr s2"
    and 3: "ev_rx_queues E c p conf s2 = Some (Inr s3)" and 4: "s' = s3\<lparr>ss_trace := ss_trace s3 @ [Tx_queue p 0 0]\<rparr>"
    using assms(1) by (auto simp: ev_setup_port_def simp del: if_image_distrib split: sum.splits option.splits if_split_asm)
  have "no_rx s3" using ev_rx_queues_no_rx [OF 3] init_mem_no_rx [OF 2] ev_configure_port_no_rx [OF 1 assms(2)] by blast
  then show ?thesis by (auto simp: 4 no_rx_def mem_inv_def)
qed (use assms in \<open>simp add: ev_setup_port_def\<close>)

lemma ev_setup_ports_no_rx: "ev_setup_ports E c ps s = Some (Inr s') \<Longrightarrow> no_rx s \<Longrightarrow> no_rx s'"
  by (induction ps arbitrary: s) (auto split: option.splits sum.splits dest: ev_setup_port_no_rx)

lemma event_setup_no_rx:
  assumes "l3fwd_event_resource_setup E c (init_sstate c) = Some (Inr (ss, s))"
  shows "lc_rx (ss_lcores ss l) = []"
proof -
  have "no_rx (init_sstate c)" by (simp add: no_rx_def mem_inv_def init_sstate_def lconf0_def)
  moreover have "ev_setup_ports E c (se_ports E) (init_sstate c) = Some (Inr ss)"
    using assms by (auto simp: l3fwd_event_resource_setup_def l3fwd_eth_dev_port_setup_def split: option.splits sum.splits if_splits)
  ultimately show ?thesis using ev_setup_ports_no_rx by (auto simp: no_rx_def)
qed

lemma ptype_lcores_idle:
  assumes "\<And>l. lc_rx (lcores l) = []"
  shows "foldM (ptype_lcore M c p lcores) ls u = Inr u"
  by (induction ls) (simp_all add: ptype_lcore_def assms)

text \<open>A loop and the lookup structure that was set up belong together.\<close>

definition loop_serves :: "main_loop \<Rightarrow> lookup_setup \<Rightarrow> bool" where
  "loop_serves loop setup \<longleftrightarrow> setup =
     (case loop of Em_main_loop \<Rightarrow> Setup_hash | Em_event_loop \<Rightarrow> Setup_hash | Lpm_main_loop \<Rightarrow> Setup_lpm | Lpm_event_loop \<Rightarrow> Setup_lpm
      | Fib_main_loop \<Rightarrow> Setup_fib | Fib_event_loop \<Rightarrow> Setup_fib | Acl_main_loop \<Rightarrow> Setup_acl)"

definition routes_serve :: "routes \<Rightarrow> lookup_setup \<Rightarrow> bool" where
  "routes_serve rts setup \<longleftrightarrow>
     (case rts of Em_routes _ \<Rightarrow> setup = Setup_hash | Lpm_routes _ \<Rightarrow> setup = Setup_lpm \<or> setup = Setup_fib | Acl_routes _ \<Rightarrow> setup = Setup_acl)"

lemmas lookup_modes = setup_l3fwd_lookup_tables_def l3fwd_em_lkp_def l3fwd_lpm_lkp_def l3fwd_fib_lkp_def l3fwd_acl_lkp_def

lemma read_routes_serve:
  assumes "read_config_files M c (lk_read (setup_l3fwd_lookup_tables m)) = Inr rts"
  shows "routes_serve rts (lk_setup (setup_l3fwd_lookup_tables m))"
  using assms by (auto simp: read_config_files_def lookup_modes routes_serve_def ev_monad split: if_splits)

lemma poll_loop_serves: "loop_serves (lk_loop (setup_l3fwd_lookup_tables m)) (lk_setup (setup_l3fwd_lookup_tables m))"
  by (simp add: lookup_modes loop_serves_def)

text \<open>In event mode the packet type check does nothing.\<close>

lemma start_all_event:
  assumes "\<And>l. lc_rx (ss_lcores ss l) = []"
  shows "start_all M c lkp rts (loop, ss, ev) =
     sbind (foldM (start_port M c) (se_ports (mn_dev M)) []) (\<lambda>started.
     sbind (case ev of None \<Rightarrow> Inr [] | Some s \<Rightarrow> l3fwd_event_service_setup (mn_services M) s) (\<lambda>_.
     Inr \<lparr>mr_cfg = c, mr_loop = loop, mr_setup = lk_setup lkp, mr_routes = rts, mr_state = ss, mr_event = ev, mr_started = started\<rparr>))"
  by (simp only: start_all_def Let_def prod.case ptype_lcores_idle [OF assms]) (simp add: sbind_def)

section \<open>The choice of a service lcore\<close>

text \<open>Unmapping a service from another lcore does not change the number of services of an lcore, and no
  lcore has 255 of them.\<close>

definition service_counts_ok :: "svc_api \<Rightarrow> u32 \<Rightarrow> bool" where
  "service_counts_ok V sid \<longleftrightarrow>
     (\<forall>h l l'. l \<noteq> l' \<longrightarrow> sv_count V (h @ [(sid, l', False)]) l = sv_count V h l) \<and> (\<forall>h l. 0 \<le> sv_count V h l \<and> sv_count V h l < 255)"

lemma service_count_kept:
  assumes "service_counts_ok V sid" and "l \<notin> set zs"
  shows "sv_count V (h @ map (\<lambda>l. (sid, l, False)) zs) l = sv_count V h l"
  using assms(2)
proof (induction zs rule: rev_induct)
  case (snoc z zs)
  have "sv_count V ((h @ map (\<lambda>l. (sid, l, False)) zs) @ [(sid, z, False)]) l = sv_count V (h @ map (\<lambda>l. (sid, l, False)) zs) l"
    using assms(1) snoc.prems unfolding service_counts_ok_def by (metis in_set_conv_decomp)
  then show ?case using snoc by simp
qed simp

lemma u8_of_int_less: "0 \<le> a \<Longrightarrow> a < 256 \<Longrightarrow> 0 \<le> b \<Longrightarrow> b < 256 \<Longrightarrow> (of_int a :: u8) < of_int b \<longleftrightarrow> a < b"
  by (simp add: word_less_def uint_word_of_int)

lemma service_loop:
  assumes "service_counts_ok V sid" and "\<forall>h c. sv_map V h c" and "distinct ls" and "ls \<noteq> []"
  shows "\<exists>m s. foldM (service_step V sid) ls (- 1, 0, h) = Inr (m, s, h @ map (\<lambda>l. (sid, l, False)) ls) \<and> s \<in> set ls
    \<and> m = of_int (sv_count V (h @ map (\<lambda>l. (sid, l, False)) ls) s)
    \<and> (\<forall>l \<in> set ls. sv_count V (h @ map (\<lambda>l. (sid, l, False)) ls) s \<le> sv_count V (h @ map (\<lambda>l. (sid, l, False)) ls) l)"
  using assms(3,4)
proof (induction ls rule: rev_induct)
  case (snoc x xs)
  let ?u = "map (\<lambda>l. (sid, l, False))"
  let ?n = "sv_count V (h @ ?u (xs @ [x]))"
  have step: "service_step V sid x (m, s, h @ ?u xs) =
      Inr (if of_int (?n x) < m then (of_int (?n x), x, h @ ?u (xs @ [x])) else (m, s, h @ ?u (xs @ [x])))" for m s
    using assms(2) by (simp add: service_step_def Let_def)
  have range: "0 \<le> ?n l \<and> ?n l < 255" for l using assms(1) unfolding service_counts_ok_def by blast
  show ?case
  proof (cases "xs = []")
    case True
    have "(of_int (?n x) :: u8) < of_int 255" using range [of x] by (subst u8_of_int_less) auto
    moreover have "(of_int 255 :: u8) = - 1" by simp
    ultimately have "(of_int (?n x) :: u8) < - 1" by (simp only:)
    then show ?thesis using step [of "- 1" 0] by (simp add: True)
  next
    case False
    from snoc.IH snoc.prems(1) False obtain m s where
      f: "foldM (service_step V sid) xs (- 1, 0, h) = Inr (m, s, h @ ?u xs)" and s: "s \<in> set xs"
      and m: "m = of_int (sv_count V (h @ ?u xs) s)" and le: "\<forall>l \<in> set xs. sv_count V (h @ ?u xs) s \<le> sv_count V (h @ ?u xs) l" by auto
    have k: "?n l = sv_count V (h @ ?u xs) l" if "l \<in> set xs" for l
      using service_count_kept [OF assms(1), of l "[x]" "h @ ?u xs"] that snoc.prems(1) by auto
    have lt: "(of_int (?n x) :: u8) < m \<longleftrightarrow> ?n x < ?n s"
      using range [of x] range [of s] by (simp add: m k [OF s, symmetric] u8_of_int_less)
    have app: "foldM (service_step V sid) (xs @ [x]) (- 1, 0, h) = service_step V sid x (m, s, h @ ?u xs)"
      by (simp add: foldM_app f split: sum.split)
    show ?thesis
    proof (cases "?n x < ?n s")
      case True
      have "\<forall>l \<in> set (xs @ [x]). ?n x \<le> ?n l" using le k s True by fastforce
      then show ?thesis using app step [of m s] True lt by (intro exI [of _ "of_int (?n x)"] exI [of _ x]) simp
    next
      case nlt: False
      have "\<forall>l \<in> set (xs @ [x]). ?n s \<le> ?n l" using le k s nlt by fastforce
      then show ?thesis using app step [of m s] nlt lt s k [OF s] m by (intro exI [of _ m] exI [of _ s]) simp
    qed
  qed
qed simp

text \<open>\<open>l3fwd_service_enable\<close> takes the service from all the service lcores and gives it to one with the
  fewest services left.\<close>

lemma l3fwd_service_enable_least:
  assumes "service_counts_ok V sid" and "\<forall>h c. sv_map V h c" and "sv_lcores V = Some ls" and "distinct ls" and "ls \<noteq> []"
    and "sv_lcore_count V = length ls"
  shows "\<exists>s. s \<in> set ls \<and> l3fwd_service_enable V sid h = (0, h @ map (\<lambda>l. (sid, l, False)) (rev ls) @ [(sid, s, True)])
    \<and> (\<forall>l \<in> set ls. sv_count V (h @ map (\<lambda>l. (sid, l, False)) (rev ls)) s \<le> sv_count V (h @ map (\<lambda>l. (sid, l, False)) (rev ls)) l)"
proof -
  have "distinct (rev ls)" "rev ls \<noteq> []" using assms(4,5) by simp_all
  from service_loop [OF assms(1,2) this, of h] obtain m s where
    f: "foldM (service_step V sid) (rev ls) (- 1, 0, h) = Inr (m, s, h @ map (\<lambda>l. (sid, l, False)) (rev ls))"
    and s: "s \<in> set ls" and le: "\<forall>l \<in> set ls. sv_count V (h @ map (\<lambda>l. (sid, l, False)) (rev ls)) s
      \<le> sv_count V (h @ map (\<lambda>l. (sid, l, False)) (rev ls)) l" by auto
  have "l3fwd_service_enable V sid h = (0, h @ map (\<lambda>l. (sid, l, False)) (rev ls) @ [(sid, s, True)])"
    using assms(2,3,5,6) f by (simp add: l3fwd_service_enable_def)
  with s le show ?thesis by blast
qed

section \<open>Examples\<close>

text \<open>Four ports that are started and know the packet types, without rule files.\<close>

definition main_ex :: main_env where
  "main_ex = \<lparr>mn_cfg = env_ex, mn_local_admin = 2, mn_rss_hf = 0x10, mn_dev = evs_ex, mn_stdio = stdio_ex, mn_inet = inet_ex,
     mn_acl_priority = 100, mn_dpdk = dpdk_ex, mn_ptypes = (\<lambda>_. [0x10, 0x40]), mn_callback = (\<lambda>_ _. True), mn_start = (\<lambda>_. True),
     mn_promiscuous = (\<lambda>_. True),
     mn_services = \<lparr>sv_lcore_count = 1, sv_lcores = Some [5], sv_map = (\<lambda>_ _. True), sv_count = (\<lambda>_ _. 0), sv_distributed = False,
       sv_dev_id = (0, 3), sv_rx_caps = (\<lambda>_. True), sv_rx_id = (- ESRCH, 0), sv_tx_caps = (\<lambda>_. True), sv_tx_id = (0, 4), sv_id0 = 0\<rparr>,
     mn_stop = (\<lambda>_. 0)\<rparr>"

definition poll_opts :: "opt list" where
  "poll_opts = [Opt_p ''f'', Opt_lookup ''lpm'']"

definition event_opts :: "opt list" where
  "event_opts = [Opt_mode ''eventdev'', Opt_p ''f'', Opt_event_eth_rxqs ''2'', Opt_lookup ''lpm'']"

lemma strtoul_2: "strtoul ''2'' 10 = \<lparr>su_erange = False, su_val = 2, su_end = []\<rparr>"
proof -
  have "dec 2 @ [] = ''2''" by code_simp
  moreover have "(2 :: nat) \<le> ULONG_MAX" by (simp add: ULONG_MAX_def)
  ultimately show ?thesis using strtoul10_app [of 2 "[]"] by simp
qed

lemma parse_event_ex: "parse_args env_ex (init_cfg env_ex 2 0x10) event_opts = Goes ev_cfg_ex"
  by (simp add: event_opts_def parse_args_def init_cfg_def parse_lookup_def finish_args_def ev_cfg_ex_def cfg_ex_def
      parse_portmask_ex set_evt_def parse_mode_def parse_event_eth_rx_queues_def strtoul_2 bad_number_def Let_def)

lemma start_all_ex:
  assumes "lk_ptype lkp = Lpm_ptype" and "\<not> c_ipv6 c" and "\<not> c_parse_ptype c"
  shows "\<exists>r. start_all main_ex c lkp rts (loop, ss, ev) = Inr r \<and> mr_event r = ev"
proof -
  have 1: "\<exists>t. foldM (start_port main_ex c) (se_ports (mn_dev main_ex)) [] = Inr t"
    by (rule foldM_total) (simp add: start_port_def main_ex_def)
  have 2: "\<exists>h. (case ev of None \<Rightarrow> Inr [] | Some s \<Rightarrow> l3fwd_event_service_setup (mn_services main_ex) s) = Inr h"
  proof (cases ev)
    case (Some s)
    have st: "\<exists>t. foldM (enable_step V caps a) xs st0 = Inr t" if "\<forall>x. caps x" "fst a = 0 \<or> fst a = - ESRCH" for V caps a xs st0
      by (rule foldM_total) (use that in \<open>auto simp: enable_step_def ev_need_def service_of_def sbind_def split: prod.splits\<close>)
    let ?V = "mn_services main_ex"
    have c: "\<forall>x. sv_rx_caps ?V x" "\<forall>x. sv_tx_caps ?V x" "fst (sv_rx_id ?V) = 0 \<or> fst (sv_rx_id ?V) = - ESRCH"
      "fst (sv_tx_id ?V) = 0 \<or> fst (sv_tx_id ?V) = - ESRCH" "fst (sv_dev_id ?V) = 0" "\<not> sv_distributed ?V" by (simp_all add: main_ex_def)
    let ?st0 = "(snd (sv_dev_id ?V), snd (l3fwd_service_enable ?V (snd (sv_dev_id ?V)) []))"
    obtain st1 where s1: "foldM (enable_step ?V (sv_rx_caps ?V) (sv_rx_id ?V)) (vt_rx_adptr s) ?st0 = Inr st1"
      using st [OF c(1,3)] by blast
    obtain st2 where s2: "foldM (enable_step ?V (sv_tx_caps ?V) (sv_tx_id ?V)) (vt_tx_adptr s) st1 = Inr st2"
      using st [OF c(2,4)] by blast
    have "service_of (sv_dev_id ?V) (sv_id0 ?V) = Inr (snd (sv_dev_id ?V))" using c(5) by (simp add: service_of_def)
    then show ?thesis by (simp only: Some option.case l3fwd_event_service_setup_def c(6) if_False sbind_def sum.case s1 s2) blast
  qed simp
  have "\<exists>u. foldM (ptype_lcore main_ex c Lpm_ptype (ss_lcores ss)) ls () = Inr u" for ls
  proof (rule foldM_total)
    fix l u
    have "lpm_check_ptype dpdk_ex False [0x10, 0x40]" by code_simp
    then have "prepare_ptype_parser main_ex c Lpm_ptype p q" for p q
      using assms by (simp add: prepare_ptype_parser_def check_ptype_def main_ex_def)
    then have "\<exists>t. foldM (ptype_step main_ex c Lpm_ptype) qs u = Inr t" for qs
      by (intro foldM_total) (simp add: ptype_step_def)
    then show "\<exists>t. ptype_lcore main_ex c Lpm_ptype (ss_lcores ss) l u = Inr t" by (simp add: ptype_lcore_def)
  qed
  then show ?thesis using 1 2 by (auto simp: start_all_def assms(1) ev_monad)
qed

lemma read_rules_ex:
  assumes "c_rules c = \<lparr>rule_ipv4_name = None, rule_ipv6_name = None\<rparr>"
  shows "\<exists>rts. read_config_files main_ex c Read_config_files_lpm = Inr rts"
proof -
  have "\<exists>t'. read_config_files_lpm stdio_ex inet_ex (c_rules c) no_tables = Some (False, t') \<and> lpm_tables_ok t'"
    by (rule read_config_default) (simp_all add: stdio_ex_def assms)
  then show ?thesis by (auto simp: read_config_files_def main_ex_def tables_or_exit_def sbind_def)
qed

lemma main_goes:
  assumes "parse_args (mn_cfg M) (init_cfg (mn_cfg M) (mn_local_admin M) (mn_rss_hf M)) opts = Goes c"
    and "read_config_files M c (lk_read (setup_l3fwd_lookup_tables (c_lookup c))) = Inr rts"
    and "setup_mode M c (lk_loop (setup_l3fwd_lookup_tables (c_lookup c))) = Some (Inr x)"
  shows "l3fwd_main M opts = Some (start_all M c (setup_l3fwd_lookup_tables (c_lookup c)) rts x)"
  using assms by (simp add: l3fwd_main_def Let_def)

lemma lpm_mode: "setup_l3fwd_lookup_tables Lookup_lpm = l3fwd_lpm_lkp"
  by (simp add: setup_l3fwd_lookup_tables_def)

lemma poll_runs: "\<exists>r. l3fwd_main main_ex poll_opts = Some (Inr r) \<and> mr_event r = None"
proof -
  have p: "parse_args (mn_cfg main_ex) (init_cfg (mn_cfg main_ex) (mn_local_admin main_ex) (mn_rss_hf main_ex)) poll_opts = Goes cfg_ex"
    using parse_args_ex by (simp add: main_ex_def poll_opts_def)
  have c: "c_lookup cfg_ex = Lookup_lpm" "\<not> ev_enabled (c_evt cfg_ex)" "\<not> c_ipv6 cfg_ex" "\<not> c_parse_ptype cfg_ex"
    "c_rules cfg_ex = \<lparr>rule_ipv4_name = None, rule_ipv6_name = None\<rparr>" by (simp_all add: cfg_ex_def init_cfg_def)
  obtain rts where r: "read_config_files main_ex cfg_ex Read_config_files_lpm = Inr rts"
    using read_rules_ex [OF c(5)] by blast
  obtain s where "l3fwd_poll_resource_setup setup_ex cfg_ex (init_sstate cfg_ex) = Inr s" by (rule setup_ex_runs)
  then have s: "setup_mode main_ex cfg_ex Lpm_main_loop = Some (Inr (Lpm_main_loop, s, None))"
    by (simp add: setup_mode_def c main_ex_def truncate_ex sbind_def)
  have l: "lk_ptype l3fwd_lpm_lkp = Lpm_ptype" by (simp add: l3fwd_lpm_lkp_def)
  have "l3fwd_main main_ex poll_opts = Some (start_all main_ex cfg_ex l3fwd_lpm_lkp rts (Lpm_main_loop, s, None))"
    using main_goes [OF p, unfolded c lpm_mode, of rts] r s by (simp add: l3fwd_lpm_lkp_def)
  then show ?thesis using start_all_ex [OF l c(3,4), of rts Lpm_main_loop s None] by auto
qed

lemma event_runs: "\<exists>r. l3fwd_main main_ex event_opts = Some (Inr r) \<and> mr_event r \<noteq> None"
proof -
  have p: "parse_args (mn_cfg main_ex) (init_cfg (mn_cfg main_ex) (mn_local_admin main_ex) (mn_rss_hf main_ex)) event_opts = Goes ev_cfg_ex"
    using parse_event_ex by (simp add: main_ex_def)
  have c: "c_lookup ev_cfg_ex = Lookup_lpm" "ev_enabled (c_evt ev_cfg_ex)" "\<not> c_ipv6 ev_cfg_ex" "\<not> c_parse_ptype ev_cfg_ex"
    "c_rules ev_cfg_ex = \<lparr>rule_ipv4_name = None, rule_ipv6_name = None\<rparr>" by (simp_all add: ev_cfg_ex_def cfg_ex_def init_cfg_def)
  obtain rts where r: "read_config_files main_ex ev_cfg_ex Read_config_files_lpm = Inr rts"
    using read_rules_ex [OF c(5)] by blast
  obtain ss s where "l3fwd_event_resource_setup evs_ex ev_cfg_ex (init_sstate ev_cfg_ex) = Some (Inr (ss, s))"
    using event_setup_ex by blast
  then have s: "setup_mode main_ex ev_cfg_ex Lpm_main_loop = Some (Inr (Lpm_event_loop, ss, Some s))"
    by (simp add: setup_mode_def c main_ex_def)
  have l: "lk_ptype l3fwd_lpm_lkp = Lpm_ptype" by (simp add: l3fwd_lpm_lkp_def)
  have "l3fwd_main main_ex event_opts = Some (start_all main_ex ev_cfg_ex l3fwd_lpm_lkp rts (Lpm_event_loop, ss, Some s))"
    using main_goes [OF p, unfolded c lpm_mode, of rts] r s by (simp add: l3fwd_lpm_lkp_def)
  then show ?thesis using start_all_ex [OF l c(3,4), of rts Lpm_event_loop ss "Some s"] by auto
qed

section \<open>Properties\<close>

text \<open>C26. When \<open>l3fwd\<close> gets to its main loop in polling mode, every queue an lcore polls belongs to a port that
  was started (in promiscuous mode, when asked), and its packet types are known: either the callback that parses them
  is installed on this very queue, or the port reports the types the lookup needs. The ports that were started are the
  enabled ones, every port an lcore can send to is among them, and at the end these ports and no others are
  stopped and closed, after the lcores are done.\<close>

theorem l3fwd_main_polls_started:
  assumes "l3fwd_main M opts = Some (Inr r)" and "mr_event r = None" and "setup_env_ok (setup_env.truncate (mn_dev M))"
  shows "mr_started r = filter (in_mask (c_port_mask (mr_cfg r))) (se_ports (mn_dev M))
    \<and> (\<forall>p \<in> set (mr_started r). mn_start M p \<and> (\<not> c_promiscuous (mr_cfg r) \<or> mn_promiscuous M p))
    \<and> (\<forall>(p, q) \<in> set (lc_rx (ss_lcores (mr_state r) l)). unat p \<in> set (mr_started r)
        \<and> (if c_parse_ptype (mr_cfg r) then mn_callback M (unat p) (unat q)
           else check_ptype M (mr_cfg r) (lk_ptype (setup_l3fwd_lookup_tables (c_lookup (mr_cfg r)))) (unat p)))
    \<and> set (lc_tx_ports (ss_lcores (mr_state r) l)) \<subseteq> of_nat ` set (mr_started r)
    \<and> fst (l3fwd_end M r) = Wait_lcores # concat (map (\<lambda>p. [Port_stop p, Port_close p]) (mr_started r)) @ [Free_routes]"
proof -
  let ?E = "setup_env.truncate (mn_dev M)" and ?c = "mr_cfg r" and ?s = "mr_state r"
  let ?ports = "filter (in_mask (c_port_mask ?c)) (se_ports (mn_dev M))"
  let ?lkp = "setup_l3fwd_lookup_tables (c_lookup ?c)"
  obtain m: "setup_mode M ?c (lk_loop ?lkp) = Some (Inr (mr_loop r, ?s, mr_event r))"
    and st: "foldM (start_port M ?c) (se_ports (mn_dev M)) [] = Inr (mr_started r)"
    and pt: "foldM (ptype_lcore M ?c (lk_ptype ?lkp) (ss_lcores ?s)) [0..<se_max_lcore (mn_dev M)] () = Inr ()"
    using l3fwd_main_steps [OF assms(1)] by metis
  have "\<not> ev_enabled (c_evt ?c)" using setup_mode_event [OF m] assms(2) by auto
  then have p: "l3fwd_poll_resource_setup ?E ?c (init_sstate ?c) = Inr ?s" using setup_mode_poll [OF m] by blast
  have ports: "se_ports ?E = se_ports (mn_dev M)" "se_lcore_enabled ?E = se_lcore_enabled (mn_dev M)"
    "se_max_lcore ?E = se_max_lcore (mn_dev M)" by (simp_all add: setup_env.defs)
  obtain started: "mr_started r = ?ports" "\<forall>p \<in> set (mr_started r). mn_start M p \<and> (\<not> c_promiscuous ?c \<or> mn_promiscuous M p)"
    using start_ports_effect [OF st] by blast
  obtain a: "\<not> check_lcore_params ?E (active_params ?c) < 0"
      and b: "\<not> check_port_config ?E (c_port_mask ?c) (active_params ?c) < 0"
    using poll_setup_steps [OF p assms(3)] by metis
  have "unat (fst x) \<in> set ?ports \<and> prepare_ptype_parser M ?c (lk_ptype ?lkp) (unat (fst x)) (unat (snd x))"
    if x: "x \<in> set (lc_rx (ss_lcores ?s l))" for x
  proof -
    obtain q where q: "q \<in> set (active_params ?c)" "unat (lp_lcore q) = l" "x = queue_of q"
      using x poll_setup_rx [OF p assms(3), of l] by (auto simp: queues_of_def)
    have "se_lcore_enabled ?E l" using a q by (auto simp: check_lcore_params_ok)
    moreover from this have "l < se_max_lcore ?E" using assms(3) by (simp add: setup_env_ok_def)
    ultimately show ?thesis using active_ports_valid [OF b assms(3) q(1)] q(3) ptype_effect [OF pt _ _ x] by (simp add: ports)
  qed
  then have rx: "\<forall>(p, q) \<in> set (lc_rx (ss_lcores ?s l)). unat p \<in> set (mr_started r)
        \<and> (if c_parse_ptype ?c then mn_callback M (unat p) (unat q) else check_ptype M ?c (lk_ptype ?lkp) (unat p))"
    unfolding started(1) prepare_ptype_parser_def by fastforce
  have tx: "set (lc_tx_ports (ss_lcores ?s l)) \<subseteq> of_nat ` set (mr_started r)"
    using poll_setup_tx [OF p assms(3), of l] by (simp add: started(1) ports split: if_splits)
  have "fst (l3fwd_end M r) = Wait_lcores # concat (map (\<lambda>p. [Port_stop p, Port_close p]) (mr_started r)) @ [Free_routes]"
    by (simp add: l3fwd_end_def assms(2) started(1) Let_def)
  then show ?thesis using started rx tx by blast
qed

theorem l3fwd_main_polls_started_witness:
  "\<exists>r. l3fwd_main main_ex poll_opts = Some (Inr r) \<and> set (lc_tx_ports (ss_lcores (mr_state r) 2)) \<subseteq> of_nat ` set (mr_started r)"
proof -
  obtain r where r: "l3fwd_main main_ex poll_opts = Some (Inr r)" "mr_event r = None" using poll_runs by blast
  have "setup_env_ok (setup_env.truncate (mn_dev main_ex))" by (simp add: main_ex_def truncate_ex setup_env_ok_ex)
  from l3fwd_main_polls_started [OF r this, of 2] r(1) show ?thesis by blast
qed

text \<open>In event mode the packet types are neither checked nor parsed, with \<open>--parse-ptype\<close> or without: the
  loop over the receive queues of the lcores is over an empty list, since only polling mode fills it. A run with ports
  that report no packet types, or whose receive callback cannot be added, goes as one with ports that can.\<close>

lemma l3fwd_main_event_ignores_ptypes:
  assumes "parse_args (mn_cfg M) (init_cfg (mn_cfg M) (mn_local_admin M) (mn_rss_hf M)) opts = Goes c"
    and "ev_enabled (c_evt c)"
  shows "l3fwd_main (M\<lparr>mn_callback := cb, mn_ptypes := pt\<rparr>) opts = l3fwd_main M opts"
proof -
  let ?M = "M\<lparr>mn_callback := cb, mn_ptypes := pt\<rparr>" and ?lkp = "setup_l3fwd_lookup_tables (c_lookup c)"
  have rd: "read_config_files ?M c k = read_config_files M c k" for k
    by (cases k) (simp_all add: read_config_files_def)
  have sm: "setup_mode ?M c k = setup_mode M c k" for k
    by (cases "ev_enabled (c_evt c)") (simp_all add: setup_mode_def)
  have sp: "start_port ?M c = start_port M c" by (simp add: start_port_def fun_eq_iff)
  have rx: "lc_rx (ss_lcores ss l) = []" if "setup_mode M c (lk_loop ?lkp) = Some (Inr (loop, ss, ev))" for loop ss ev l
    using setup_mode_event [OF that assms(2)] event_setup_no_rx by blast
  have st: "start_all ?M c ?lkp rts x = start_all M c ?lkp rts x"
    if "setup_mode M c (lk_loop ?lkp) = Some (Inr x)" for rts x
  proof -
    obtain loop ss ev where x: "x = (loop, ss, ev)" by (cases x)
    have d: "mn_dev ?M = mn_dev M" "mn_services ?M = mn_services M" by simp_all
    have "lc_rx (ss_lcores ss l) = []" for l using rx that by (simp add: x)
    from start_all_event [OF this] sp show ?thesis by (simp only: x d)
  qed
  show ?thesis
    by (simp add: l3fwd_main_def assms(1) rd sm Let_def split: sum.split option.split) (use st in blast)
qed

lemma l3fwd_main_event_ignores_ptypes_witness:
  "\<exists>r. l3fwd_main (main_ex\<lparr>mn_callback := (\<lambda>_ _. False), mn_ptypes := (\<lambda>_. [])\<rparr>) event_opts = Some (Inr r)"
proof -
  have "parse_args (mn_cfg main_ex) (init_cfg (mn_cfg main_ex) (mn_local_admin main_ex) (mn_rss_hf main_ex)) event_opts = Goes ev_cfg_ex"
    using parse_event_ex by (simp add: main_ex_def)
  from l3fwd_main_event_ignores_ptypes [OF this] event_runs show ?thesis
    by (auto simp: ev_cfg_ex_def)
qed

text \<open>C27. The main loop that is launched, the lookup structure that was set up and the rules that were read belong
  to the same lookup method, except in event mode with access control lists: there the LPM event loop runs, although the
  classifier was set up and the LPM tables were not. The event loops run in event mode only.\<close>

theorem l3fwd_main_modes:
  assumes "l3fwd_main M opts = Some (Inr r)"
  shows "routes_serve (mr_routes r) (mr_setup r)
    \<and> loop_serves (mr_loop r) (mr_setup r) = (\<not> (ev_enabled (c_evt (mr_cfg r)) \<and> c_lookup (mr_cfg r) = Lookup_acl))
    \<and> (mr_event r \<noteq> None) = ev_enabled (c_evt (mr_cfg r))
    \<and> (mr_loop r \<in> {Em_event_loop, Lpm_event_loop, Fib_event_loop}) = ev_enabled (c_evt (mr_cfg r))
    \<and> (if ev_enabled (c_evt (mr_cfg r)) \<and> c_lookup (mr_cfg r) = Lookup_acl
       then mr_loop r = Lpm_event_loop \<and> mr_setup r = Setup_acl else True)"
proof -
  let ?c = "mr_cfg r" and ?lkp = "setup_l3fwd_lookup_tables (c_lookup (mr_cfg r))"
  obtain rd: "read_config_files M ?c (lk_read ?lkp) = Inr (mr_routes r)"
    and m: "setup_mode M ?c (lk_loop ?lkp) = Some (Inr (mr_loop r, mr_state r, mr_event r))"
    and su: "mr_setup r = lk_setup ?lkp" using l3fwd_main_steps [OF assms] by metis
  have rs: "routes_serve (mr_routes r) (mr_setup r)" using read_routes_serve [OF rd] su by simp
  show ?thesis
  proof (cases "ev_enabled (c_evt ?c)")
    case True
    from setup_mode_event [OF m True] rs True show ?thesis
      by (auto simp: su lookup_modes loop_serves_def)
  next
    case False
    from setup_mode_poll [OF m False] have "mr_loop r = lk_loop ?lkp" "mr_event r = None" by simp_all
    with rs False poll_loop_serves show ?thesis by (simp add: su) (simp add: lookup_modes)
  qed
qed

theorem l3fwd_main_modes_witness:
  "\<exists>r. l3fwd_main main_ex event_opts = Some (Inr r) \<and> routes_serve (mr_routes r) (mr_setup r)"
proof -
  obtain r where r: "l3fwd_main main_ex event_opts = Some (Inr r)" using event_runs by blast
  from l3fwd_main_modes [OF this] r show ?thesis by blast
qed

end
