(* ===== verification/Em_Neon.thy ===== *)
theory Em_Neon
  imports Em_Forward
begin

text \<open>
  The bulk lookups of IPv6 packets with the keys of \<open>l3fwd/l3fwd_em_hlm_neon.h\<close>: which rule a packet is taken for.
\<close>

text \<open>The five tuple such a key stands for: the second load starts 8 bytes after the first and the third 16 bytes, so the end
  of the source address is read twice, and neither the last twelve bytes of the destination nor the ports are
  read at all.\<close>

definition neon_tuple :: "mem \<Rightarrow> u8 list five_tuple" where
  "neon_tuple m =
     (let src = ldn m (ETH_LEN + 8) 16; dst4 = ldn m (ETH_LEN + 24) 4
      in \<lparr>ip_dst = drop 8 src @ dst4 @ drop 12 src, ip_src = take 12 src @ take 4 (drop 4 src),
          port_dst = bswap16 (ld16 m (ETH_LEN + 26)), port_src = bswap16 (ld16 m (ETH_LEN + 24)), proto = m (ETH_LEN + 6)\<rparr>)"

lemma ldn_list:
  "ldn m a 16 = [m a, m (a + 1), m (a + 2), m (a + 3), m (a + 4), m (a + 5), m (a + 6), m (a + 7), m (a + 8), m (a + 9),
    m (a + 10), m (a + 11), m (a + 12), m (a + 13), m (a + 14), m (a + 15)]"
  "ldn m a 4 = [m a, m (a + 1), m (a + 2), m (a + 3)]"
  by (simp_all add: ldn_def upt_rec numeral_eq_Suc)

lemma neon_key:
  assumes "em_mask1 T = xmm_u32 [BIT_16_TO_23, ALL_32_BITS, ALL_32_BITS, ALL_32_BITS]"
    and "em_mask2 T = xmm_u32 [ALL_32_BITS, ALL_32_BITS, 0, 0]"
  shows "get_ipv6_5tuple_neon T m = xmm6 (convert_ipv6_5tuple (neon_tuple m))"
proof -
  have z: "le64 0 = [0, 0, 0, 0, 0, 0, 0, 0]" by (simp add: le64_def upt_8)
  have l: "length (ip_src (neon_tuple m)) = 16" "length (ip_dst (neon_tuple m)) = 16" by (simp_all add: neon_tuple_def Let_def)
  show ?thesis
    unfolding get_ipv6_5tuple_neon_def em_mask_key_def assms xmm6_def convert_ipv6_5tuple_def
      ipv6_5tuple_host.simps map_nth16 [OF l(1)] map_nth16 [OF l(2)]
    by (simp add: neon_tuple_def Let_def ldn_list xmm_u32_def le32_masks le16_ld16 le16_0 ETH_LEN_def IP6_PAYLOAD_LEN_def z and_ff)
qed

lemma neon_tuple_cong:
  assumes "\<forall>a < ETH_LEN + 28. m' a = m a"
  shows "neon_tuple m' = neon_tuple m"
  using assms by (simp add: neon_tuple_def Let_def ldn_list ld16_def ETH_LEN_def)

section \<open>Properties\<close>

text \<open>C15. On ARM a group of IPv6 packets is not forwarded by the rules: each packet goes to the port of the rule for another
  five tuple, \<open>neon_tuple\<close>, made of pieces of its source address and the first four bytes of its destination. Packets
  that differ only after these bytes, in the rest of the destination or in the ports, get the same port. The scalar
  lookup of the same program looks for the real five tuple.\<close>

theorem em_neon_ipv6_key:
  assumes "hash_ok A" and "setup_hash msk A dev True rs4 rs6 o4 o6 = Inr T" and "\<forall>r \<in> set rs6. addr16 (em_key r)" and "i < N"
  shows "em_get_dst_port_ipv6xN E G A T get_ipv6_5tuple_neon N P j portid D (j + i)
      = (let hop = (case map_of (em_rules msk rs6) (neon_tuple (mb_data (P (j + i)))) of None \<Rightarrow> portid | Some p \<Rightarrow> ucast p)
         in if port_enabled E G hop then hop else portid)
    \<and> (\<forall>m. (\<forall>a < ETH_LEN + 28. m a = mb_data (P (j + i)) a) \<longrightarrow> neon_tuple m = neon_tuple (mb_data (P (j + i))))"
proof -
  let ?m = "mb_data (P (j + i))"
  have bulk: "h_bulk A h ks = map (h_lookup A h) ks" for h ks using assms(1) by (simp add: hash_ok_def)
  have t: "em_table6 A T (em_rules msk rs6)" by (rule setup_hash_table6 [OF assms(1-3)])
  have "addr16 (neon_tuple ?m)" by (simp add: addr16_def neon_tuple_def Let_def)
  then have "em_view A (em_h6 T) (em_out6 T) (get_ipv6_5tuple_neon T ?m) = map_of (em_rules msk rs6) (neon_tuple ?m)"
    using t neon_key [of T ?m] by (simp add: em_table6_def)
  then have "em_get_dst_port_ipv6xN E G A T get_ipv6_5tuple_neon N P j portid D (j + i)
      = (let hop = (case map_of (em_rules msk rs6) (neon_tuple ?m) of None \<Rightarrow> portid | Some p \<Rightarrow> ucast p)
         in if port_enabled E G hop then hop else portid)"
    using assms(4) by (auto simp: em_get_dst_port_ipv6xN_def em_dst_xN_eq bulk Let_def em_view_def split: if_splits option.splits)
  then show ?thesis using neon_tuple_cong by blast
qed

text \<open>A rule like the first default one, from 2001:200:: to 2001:200::1, ports 9, UDP, and a packet it is for.\<close>

definition em_rule6_ex :: "u8 list em_rule" where
  "em_rule6_ex = \<lparr>em_key = \<lparr>ip_dst = [32, 1, 2, 0, 0, 0, 0, 0, 0, 0, 0, 0, 0, 0, 0, 1],
     ip_src = [32, 1, 2, 0, 0, 0, 0, 0, 0, 0, 0, 0, 0, 0, 0, 0], port_dst = 9, port_src = 9, proto = 17\<rparr>, em_out = 3\<rparr>"

definition packet6_ex :: mem where
  "packet6_ex a = (if a = 20 then 17 else if a = 22 \<or> a = 38 then 32 else if a = 23 \<or> a = 39 then 1 else if a = 24 \<or> a = 40 then 2
     else if a = 53 then 1 else if a = 55 \<or> a = 57 then 9 else 0)"

lemma packet6_ex_tuples:
  "five_tuple6 packet6_ex = em_key em_rule6_ex" "neon_tuple packet6_ex \<noteq> em_key em_rule6_ex"
  by (simp_all add: five_tuple6_def neon_tuple_def Let_def ldn_list ld16_def ETH_LEN_def packet6_ex_def em_rule6_ex_def bswap16_def)

lemma setup_hash6_ex_runs:
  obtains T where "setup_hash 0xf hash_ex (\<lambda>_. True) True [] [em_rule6_ex] (\<lambda>_. 0) (\<lambda>_. 0) = Inr T"
proof -
  have "\<exists>T. setup_hash 0xf hash_ex (\<lambda>_. True) True [] [em_rule6_ex] (\<lambda>_. 0) (\<lambda>_. 0) = Inr T"
    by (simp add: setup_hash_def populate_ipv6_flow_into_table_def hash_ex_simps Let_def)
  then show ?thesis using that by blast
qed

theorem em_neon_ipv6_key_witness:
  "\<exists>T. setup_hash 0xf hash_ex (\<lambda>_. True) True [] [em_rule6_ex] (\<lambda>_. 0) (\<lambda>_. 0) = Inr T
    \<and> em_get_dst_port_ipv6xN dpdk_ex glob_ex hash_ex T get_ipv6_5tuple_neon 16 (\<lambda>i. (mbuf_ex i)\<lparr>mb_data := packet6_ex\<rparr>) 0 1 (\<lambda>_. 0) 5 = 1
    \<and> em_get_ipv6_dst_port hash_ex T packet6_ex 1 = 3"
proof -
  obtain T where T: "setup_hash 0xf hash_ex (\<lambda>_. True) True [] [em_rule6_ex] (\<lambda>_. 0) (\<lambda>_. 0) = Inr T"
    by (rule setup_hash6_ex_runs)
  have a: "\<forall>r \<in> set [em_rule6_ex]. addr16 (em_key r)" by (simp add: addr16_def em_rule6_ex_def)
  have r: "em_rules 0xf [em_rule6_ex] = [(em_key em_rule6_ex, 3)]" by (simp add: em_rules_def em_rule6_ex_def in_mask_def shl1_def)
  have "em_get_ipv6_dst_port hash_ex T packet6_ex 1 = 3"
    using em_get_ipv6 [OF setup_hash_table6 [OF hash_ok_ex T a], of packet6_ex 1] by (simp add: r packet6_ex_tuples)
  moreover have "em_get_dst_port_ipv6xN dpdk_ex glob_ex hash_ex T get_ipv6_5tuple_neon 16 (\<lambda>i. (mbuf_ex i)\<lparr>mb_data := packet6_ex\<rparr>) 0 1 (\<lambda>_. 0) 5 = 1"
    using em_neon_ipv6_key [OF hash_ok_ex T a, of 5 16 dpdk_ex glob_ex "\<lambda>i. (mbuf_ex i)\<lparr>mb_data := packet6_ex\<rparr>" 0 1 "\<lambda>_. 0"]
    by (simp add: r packet6_ex_tuples)
  ultimately show ?thesis using T by blast
qed

end
