(* ===== verification/Em_Hash.thy ===== *)
theory Em_Hash
  imports Em_Forward
begin

text \<open>
  The hash functions of the exact-match tables, \<open>ipv4_hash_crc\<close> and \<open>ipv6_hash_crc\<close> in \<open>l3fwd/l3fwd_em.c\<close>, over the functions of
  the library: \<open>rte_hash_crc_4byte\<close> where the processor has it (\<open>EM_HASH_CRC\<close>), \<open>rte_jhash_1word\<close> and \<open>rte_jhash\<close> elsewhere.
\<close>

record hash_fns =
  hf_crc4 :: "u32 \<Rightarrow> u32 \<Rightarrow> u32"
  hf_jhash1 :: "u32 \<Rightarrow> u32 \<Rightarrow> u32"
  hf_jhash :: "u8 list \<Rightarrow> u32 \<Rightarrow> u32"

text \<open>Both ports as one word of the host.\<close>

definition ports_word :: "u16 \<Rightarrow> u16 \<Rightarrow> u32" where
  "ports_word sport dport = ucast sport OR push_bit 16 (ucast dport)"

definition ipv4_hash_crc :: "hash_fns \<Rightarrow> bool \<Rightarrow> ipv4_5tuple_host \<Rightarrow> u32 \<Rightarrow> u32" where
  "ipv4_hash_crc H crc k init_val =
     (let t = ucast (k4_proto k); p = ports_word (k4_sport k) (k4_dport k); f = (if crc then hf_crc4 H else hf_jhash1 H);
          init_val = f t init_val; init_val = f (k4_src k) init_val; init_val = f (k4_dst k) init_val
      in f p init_val)"

definition ipv6_hash_crc :: "hash_fns \<Rightarrow> bool \<Rightarrow> ipv6_5tuple_host \<Rightarrow> u32 \<Rightarrow> u32" where
  "ipv6_hash_crc H crc k init_val =
     (let t = ucast (k6_proto k); p = ports_word (k6_sport k) (k6_dport k);
          word = (\<lambda>xs i. ld32 (\<lambda>a. xs ! a) (4 * i))
      in if crc then
           let init_val = hf_crc4 H t init_val;
               init_val = fold (\<lambda>i. hf_crc4 H (word (k6_src k) i)) [0, 1, 2, 3] init_val;
               init_val = fold (\<lambda>i. hf_crc4 H (word (k6_dst k) i)) [0, 1, 2, 3] init_val
           in hf_crc4 H p init_val
         else
           let init_val = hf_jhash1 H t init_val; init_val = hf_jhash H (k6_src k) init_val; init_val = hf_jhash H (k6_dst k) init_val
           in hf_jhash1 H p init_val)"

text \<open>What the table needs of its hash function: keys with equal bytes have equal hashes. The padding is not hashed, so it
  would even be allowed to differ.\<close>

lemma ipv4_hash_key:
  assumes "xmm4 k = xmm4 k'"
  shows "ipv4_hash_crc H crc k v = ipv4_hash_crc H crc k' v"
proof -
  have l: "length (le16 v) = 2" "length (le32 w) = 4" for v w by (simp_all add: le16_def le32_def)
  have "k4_proto k = k4_proto k' \<and> k4_src k = k4_src k' \<and> k4_dst k = k4_dst k' \<and> k4_sport k = k4_sport k' \<and> k4_dport k = k4_dport k'"
    using assms by (simp add: xmm4_def l)
  then show ?thesis unfolding ipv4_hash_crc_def Let_def by simp
qed

lemma ipv6_hash_key:
  assumes "xmm6 k = xmm6 k'" and "length (k6_src k) = 16" "length (k6_src k') = 16" "length (k6_dst k) = 16" "length (k6_dst k') = 16"
  shows "ipv6_hash_crc H crc k v = ipv6_hash_crc H crc k' v"
proof -
  have l: "length (le16 v) = 2" for v by (simp add: le16_def)
  have "k6_proto k = k6_proto k' \<and> k6_src k = k6_src k' \<and> k6_dst k = k6_dst k' \<and> k6_sport k = k6_sport k' \<and> k6_dport k = k6_dport k'"
    using assms by (simp add: xmm6_def l)
  then show ?thesis unfolding ipv6_hash_crc_def Let_def by simp
qed

end
