(* ===== verification/Em_Variants.thy ===== *)
theory Em_Variants
  imports Em_Forward
begin

text \<open>
  The routines for events of the two builds without bulk lookups: \<open>l3fwd/l3fwd_em.h\<close>, without vector instructions, and
  \<open>l3fwd/l3fwd_em_sequential.h\<close> (\<open>NO_HASH_MULTI_LOOKUP\<close>).
\<close>

section \<open>Without vector instructions\<close>

definition no_opt_event_step :: "dpdk \<Rightarrow> glob \<Rightarrow> 'h hash_api \<Rightarrow> 'h em_state \<Rightarrow> nat \<Rightarrow> (nat \<Rightarrow> mbuf) \<times> lcore \<Rightarrow> (nat \<Rightarrow> mbuf) \<times> lcore" where
  "no_opt_event_step E G A T j PS =
     (let (P, s) = PS; (m, s') = l3fwd_em_simple_process E G A T (P j) s in (P(j := m), s'))"

definition l3fwd_em_no_opt_process_events :: "dpdk \<Rightarrow> glob \<Rightarrow> 'h hash_api \<Rightarrow> 'h em_state \<Rightarrow> nat \<Rightarrow> (nat \<Rightarrow> mbuf) \<Rightarrow> lcore \<Rightarrow>
    (nat \<Rightarrow> mbuf) \<times> lcore" where
  "l3fwd_em_no_opt_process_events E G A T nb_rx P s =
     (let PS = fold (no_opt_event_step E G A T) [0..<nb_rx - PREFETCH_OFFSET] (P, s)
      in fold (no_opt_event_step E G A T) [nb_rx - PREFETCH_OFFSET..<nb_rx] PS)"

definition no_opt_vector_step :: "dpdk \<Rightarrow> glob \<Rightarrow> 'h hash_api \<Rightarrow> 'h em_state \<Rightarrow> nat \<Rightarrow> burst \<times> lcore \<Rightarrow> burst \<times> lcore" where
  "no_opt_vector_step E G A T i st =
     (let ((P, D), s) = st; (m, s') = l3fwd_em_simple_process E G A T (P i) s in ((P(i := m), D(i := mb_port m)), s'))"

definition l3fwd_em_no_opt_process_event_vector :: "dpdk \<Rightarrow> glob \<Rightarrow> 'h hash_api \<Rightarrow> 'h em_state \<Rightarrow> event_vector \<Rightarrow> (nat \<Rightarrow> u16) \<Rightarrow> lcore \<Rightarrow>
    (event_vector \<times> mbuf list) \<times> lcore" where
  "l3fwd_em_no_opt_process_event_vector E G A T vec dst_ports s =
     (let n = unat (vec_nb vec);
          st = fold (no_opt_vector_step E G A T) [0..<n - PREFETCH_OFFSET] ((vec_mbufs vec, dst_ports), s);
          ((P, D), s') = fold (no_opt_vector_step E G A T) [n - PREFETCH_OFFSET..<n] st
      in (process_event_vector (vec\<lparr>vec_mbufs := P\<rparr>) D, s'))"

section \<open>One lookup at a time\<close>

definition sequential_event :: "simd \<Rightarrow> dpdk \<Rightarrow> glob \<Rightarrow> 'h hash_api \<Rightarrow> 'h em_state \<Rightarrow> mbuf \<Rightarrow> mbuf" where
  "sequential_event U E G A T mbuf =
     (let port = mb_port mbuf;
          m1 = mbuf\<lparr>mb_port := em_get_dst_port_sequential E G A T mbuf (mb_port mbuf)\<rparr>;
          (m2, p) = sd_proc U E G m1 (mb_port m1)
      in m2\<lparr>mb_port := if p = BAD_PORT then port else p\<rparr>)"

definition l3fwd_em_process_events_sequential :: "simd \<Rightarrow> dpdk \<Rightarrow> glob \<Rightarrow> 'h hash_api \<Rightarrow> 'h em_state \<Rightarrow> nat \<Rightarrow> (nat \<Rightarrow> mbuf) \<Rightarrow> nat \<Rightarrow> mbuf" where
  "l3fwd_em_process_events_sequential U E G A T nb_rx P =
     fold (\<lambda>j P. P(j := sequential_event U E G A T (P j))) [0..<nb_rx] P"

definition l3fwd_em_process_event_vector_sequential :: "simd \<Rightarrow> dpdk \<Rightarrow> glob \<Rightarrow> 'h hash_api \<Rightarrow> 'h em_state \<Rightarrow> event_vector \<Rightarrow>
    (nat \<Rightarrow> u16) \<Rightarrow> event_vector \<times> mbuf list" where
  "l3fwd_em_process_event_vector_sequential U E G A T vec dst_ports =
     (let n = unat (vec_nb vec); P = vec_mbufs vec; j = n - n mod FWDSTEP;
          D1 = fold (\<lambda>i D. D(i := em_get_dst_port_sequential E G A T (P i) (if vec_attr_valid vec then vec_port vec else mb_port (P i))))
                 [0..<n] dst_ports;
          PD2 = fold (\<lambda>i. sd_step3 U E G (FWDSTEP * i)) [0..<j div FWDSTEP] (P, D1);
          (P3, D3) = fold (\<lambda>i (P, D). let (m, p) = sd_proc U E G (P i) (D i) in (P(i := m), D(i := p))) [j..<n] PD2
      in process_event_vector (vec\<lparr>vec_mbufs := P3\<rparr>) D3)"

section \<open>What they do\<close>

text \<open>Up to port 255 the sequential lookup is the one of the bulk build.\<close>

lemma sequential_port:
  assumes "unat portid < 256"
  shows "em_get_dst_port_sequential E G A T m portid = em_get_dst_port E G A T m portid"
proof -
  have u: "ucast (ucast p :: u8) = p" if "unat p < 256" for p :: u16
    using that by (simp add: word_unat_eq_iff unsigned_ucast_eq take_bit_eq_mod unat_mod)
  have v: "unat (ucast x :: u16) < 256" for x :: u8
  proof -
    have "unat x < 256" using unsigned_less [of x] by simp
    then show ?thesis by (simp add: unsigned_ucast_eq take_bit_eq_mod)
  qed
  have h: "unat (em_get_ipv4_dst_port A T d portid) < 256" "unat (em_get_ipv6_dst_port A T d portid) < 256" for d
    using assms v by (simp_all add: em_get_ipv4_dst_port_def em_get_ipv6_dst_port_def Let_def)
  show ?thesis by (simp add: em_get_dst_port_sequential_def em_get_dst_port_def Let_def u [OF h(1)] u [OF h(2)] u [OF assms])
qed

text \<open>The events of a burst, one by one: as the worker for single events, but a rejected packet keeps the port it came
  from, and so is sent back.\<close>

lemma sequential_events:
  assumes "rewrites_as_ref U E G" and "\<forall>j < n. unat (mb_port (P j)) < 256"
  shows "l3fwd_em_process_events_sequential U E G A T n P = (\<lambda>k. if k < n
    then (let m = em_process_event_pkt E G A T (P k) in if mb_port m = BAD_PORT then m\<lparr>mb_port := mb_port (P k)\<rparr> else m) else P k)"
proof -
  have p: "sd_proc U E G m q = process_packet E G m q" for m q using assms(1) unfolding rewrites_as_ref_def by blast
  have s: "sequential_event U E G A T (P k)
      = (let m = em_process_event_pkt E G A T (P k) in if mb_port m = BAD_PORT then m\<lparr>mb_port := mb_port (P k)\<rparr> else m)" if "k < n" for k
    using assms(2) that by (simp add: sequential_event_def em_process_event_pkt_def sequential_port p Let_def case_prod_beta)
  have "l3fwd_em_process_events_sequential U E G A T m P = (\<lambda>k. if k < m then sequential_event U E G A T (P k) else P k)" for m
    unfolding l3fwd_em_process_events_sequential_def by (induction m) (auto simp: fun_eq_iff less_Suc_eq)
  then show ?thesis using s by (auto simp: fun_eq_iff)
qed

text \<open>An IPv4 packet that the checks refuse.\<close>

definition em_rejected :: "dpdk \<Rightarrow> mbuf \<Rightarrow> bool" where
  "em_rejected E m \<longleftrightarrow> em_l4_type E m \<noteq> 0 \<and> em_l3_type E m = ptype_l3_ipv4 E
     \<and> fst (is_valid_ipv4_pkt E (mb_data m) (pkt_len m) (ol_flags m)) < 0"

lemma simple_process_cases:
  "fst (l3fwd_em_simple_process E G A T m s) = fst (l3fwd_em_simple_process E G A T m s')"
  "set (freed s) \<subseteq> set (freed (snd (l3fwd_em_simple_process E G A T m s)))"
  "mb_id (fst (l3fwd_em_simple_process E G A T m s)) = mb_id m"
  by (auto simp: l3fwd_em_simple_process_def l3fwd_em_handle_ipv4_def l3fwd_em_handle_ipv6_def Let_def pktmbuf_free_def
      split: prod.splits)

lemma simple_process_rejected:
  assumes "em_rejected E m"
  shows "mb_port (fst (l3fwd_em_simple_process E G A T m s)) = BAD_PORT
    \<and> mb_id m \<in> mb_id ` set (freed (snd (l3fwd_em_simple_process E G A T m s)))"
  using assms
  by (auto simp: em_rejected_def em_l4_type_def em_l3_type_def l4_types_def l3fwd_em_simple_process_def l3fwd_em_handle_ipv4_def
      Let_def pktmbuf_free_def split: prod.splits)

lemma no_opt_vector_fold:
  assumes "fold (no_opt_vector_step E G A T) [0..<n] ((P, D), s) = ((P', D'), s')"
  shows "(\<forall>k < n. P' k = fst (l3fwd_em_simple_process E G A T (P k) s) \<and> D' k = mb_port (P' k)
      \<and> (em_rejected E (P k) \<longrightarrow> mb_id (P k) \<in> mb_id ` set (freed s'))) \<and> (\<forall>k \<ge> n. P' k = P k)"
  using assms
proof (induction n arbitrary: P' D' s')
  case (Suc n)
  obtain P1 D1 s1 where 1: "fold (no_opt_vector_step E G A T) [0..<n] ((P, D), s) = ((P1, D1), s1)" by (metis prod.collapse)
  obtain m s2 where m: "l3fwd_em_simple_process E G A T (P1 n) s1 = (m, s2)" by fastforce
  have "fold (no_opt_vector_step E G A T) [0..<Suc n] ((P, D), s) = no_opt_vector_step E G A T n ((P1, D1), s1)"
    using 1 by simp
  also have "\<dots> = ((P1(n := m), D1(n := mb_port m)), s2)" by (simp add: no_opt_vector_step_def m)
  finally have e: "P' = P1(n := m)" "D' = D1(n := mb_port m)" "s' = s2" using Suc.prems by simp_all
  note IH = Suc.IH [OF 1]
  have n: "P1 n = P n" using IH by simp
  have "set (freed s1) \<subseteq> set (freed s2)" using simple_process_cases(2) [of s1 E G A T "P1 n"] by (simp add: m)
  then have f: "x \<in> mb_id ` set (freed s1) \<Longrightarrow> x \<in> mb_id ` set (freed s2)" for x by blast
  have "m = fst (l3fwd_em_simple_process E G A T (P n) s)"
    using simple_process_cases(1) [of E G A T "P n" s1 s] m n by simp
  moreover have "em_rejected E (P n) \<Longrightarrow> mb_id (P n) \<in> mb_id ` set (freed s2)"
    using simple_process_rejected [of E "P n" G A T s1] m n by simp
  ultimately show ?case using IH f unfolding e by (auto simp: less_Suc_eq)
qed simp

text \<open>Without vector instructions a rejected packet of an event vector is freed twice: by the check, and again when the packets
  without a port are taken out of the vector.\<close>

lemma no_opt_vector_frees_twice:
  assumes "i < unat (vec_nb vec)" and "em_rejected E (vec_mbufs vec i)"
    and "l3fwd_em_no_opt_process_event_vector E G A T vec D s = ((v, gone), s')"
  shows "mb_id (vec_mbufs vec i) \<in> mb_id ` set (freed s') \<and> mb_id (vec_mbufs vec i) \<in> mb_id ` set gone"
proof -
  let ?n = "unat (vec_nb vec)"
  obtain P' D' s1 where f: "fold (no_opt_vector_step E G A T) [0..<?n] ((vec_mbufs vec, D), s) = ((P', D'), s1)" by (metis prod.collapse)
  have "[0..<?n] = [0..<?n - PREFETCH_OFFSET] @ [?n - PREFETCH_OFFSET..<?n]"
    using upt_add_eq_append [of 0 "?n - PREFETCH_OFFSET" "?n - (?n - PREFETCH_OFFSET)"] by simp
  then have "fold (no_opt_vector_step E G A T) [?n - PREFETCH_OFFSET..<?n]
      (fold (no_opt_vector_step E G A T) [0..<?n - PREFETCH_OFFSET] ((vec_mbufs vec, D), s)) = ((P', D'), s1)"
    using f by (metis fold_append comp_apply)
  then have pv: "process_event_vector (vec\<lparr>vec_mbufs := P'\<rparr>) D' = (v, gone)" and s1: "s1 = s'"
    using assms(3) by (simp_all add: l3fwd_em_no_opt_process_event_vector_def Let_def)
  note F = no_opt_vector_fold [OF f]
  have p: "P' i = fst (l3fwd_em_simple_process E G A T (vec_mbufs vec i) s)" "D' i = BAD_PORT"
      "mb_id (vec_mbufs vec i) \<in> mb_id ` set (freed s')"
    using F assms(1,2) simple_process_rejected [OF assms(2), of G A T s] s1 by simp_all
  have "gone = map P' (dropped D' ?n)" using process_event_vector_ok(1) [OF pv] by simp
  moreover have "i \<in> set (dropped D' ?n)" using assms(1) p(2) by (simp add: dropped_def)
  ultimately have "P' i \<in> set gone" by simp
  moreover have "mb_id (P' i) = mb_id (vec_mbufs vec i)" using p(1) simple_process_cases(3) by metis
  ultimately show ?thesis using p(3) by (metis imageI)
qed

end
