(* ===== verification/Lpm_Stats.thy ===== *)
theory Lpm_Stats
  imports Lpm_Forward
begin

text \<open>
  The statistics the first lcore prints every second, \<open>print_lcore_stats\<close> in \<open>l3fwd/l3fwd_lpm.c\<close>.
\<close>

type_synonym lcore_stat = "u64 \<times> u64 \<times> u64"

text \<open>\<open>stats\<close> is the array \<open>lcore_stats\<close>: received, sent, dropped. A line has the lcore and its three counters; the totals
  come last.\<close>

definition stats_step :: "(nat \<Rightarrow> lcore_stat) \<Rightarrow> nat \<Rightarrow> (nat \<times> lcore_stat) list \<times> lcore_stat \<Rightarrow> (nat \<times> lcore_stat) list \<times> lcore_stat" where
  "stats_step stats i out =
     (let (ls, total_rx, total_tx, total_dropped) = out; (rx, tx, dropped) = stats i
      in (if rx \<noteq> 0 \<or> tx \<noteq> 0 \<or> dropped \<noteq> 0 then ls @ [(i, rx, tx, dropped)] else ls,
          total_rx + rx, total_tx + tx, total_dropped + dropped))"

definition print_lcore_stats :: "nat \<Rightarrow> (nat \<Rightarrow> lcore_stat) \<Rightarrow> (nat \<times> lcore_stat) list \<times> lcore_stat" where
  "print_lcore_stats max_lcore stats = fold (stats_step stats) [0..<max_lcore] ([], 0, 0, 0)"

lemma print_lcore_stats_eq:
  "print_lcore_stats n stats =
    (map (\<lambda>i. (i, stats i)) (filter (\<lambda>i. stats i \<noteq> (0, 0, 0)) [0..<n]),
     \<Sum>i<n. fst (stats i), \<Sum>i<n. fst (snd (stats i)), \<Sum>i<n. snd (snd (stats i)))"
proof (induction n)
  case (Suc n)
  obtain rx tx dropped where s: "stats n = (rx, tx, dropped)" by (cases "stats n") auto
  have "print_lcore_stats (Suc n) stats = stats_step stats n (print_lcore_stats n stats)" by (simp add: print_lcore_stats_def)
  then show ?case by (simp add: Suc stats_step_def s)
qed (simp add: print_lcore_stats_def)

text \<open>When the counters of each lcore account for its packets, so do the totals: received is sent, dropped and waiting,
  modulo the width of the counters.\<close>

lemma totals_account:
  assumes "\<And>i. i < n \<Longrightarrow> lo_rx (st i) = lo_tx (st i) + lo_dropped (st i) + of_nat (waiting (lo_core (st i)))"
    and "print_lcore_stats n (\<lambda>i. (lo_rx (st i), lo_tx (st i), lo_dropped (st i))) = (ls, rx, tx, dropped)"
  shows "rx = tx + dropped + of_nat (\<Sum>i<n. waiting (lo_core (st i)))"
proof -
  have "rx = (\<Sum>i<n. lo_rx (st i))" "tx = (\<Sum>i<n. lo_tx (st i))" "dropped = (\<Sum>i<n. lo_dropped (st i))"
    using assms(2) by (simp_all add: print_lcore_stats_eq)
  moreover have "(\<Sum>i<n. lo_rx (st i)) = (\<Sum>i<n. lo_tx (st i) + lo_dropped (st i) + of_nat (waiting (lo_core (st i))))"
    using assms(1) by (intro sum.cong) auto
  ultimately show ?thesis by (simp add: sum.distrib)
qed

end
