(* ===== verification/Acl_Dump.thy ===== *)
theory Acl_Dump
  imports Acl_Rules
begin

text \<open>
  What \<open>l3fwd/l3fwd_acl.c\<close> prints of the rules, \<open>print_one_ipv4_rule\<close>, \<open>print_one_ipv6_rule\<close> and the loops
  around them, and the list of the algorithms in the usage text, \<open>usage_acl_alg\<close>.
\<close>

section \<open>Numbers as text\<close>

definition hexd :: "nat \<Rightarrow> char" where
  "hexd k = (if k < 10 then char_of (48 + k) else char_of (87 + k))"

text \<open>The conversions \<open>%x\<close> and \<open>%.2x\<close>.\<close>

function hexs :: "nat \<Rightarrow> string" where
  "hexs n = (if n < 16 then [hexd n] else hexs (n div 16) @ [hexd (n mod 16)])"
  by pat_completeness auto
termination by (relation "measure id") auto

declare hexs.simps [simp del]

definition hex2 :: "u8 \<Rightarrow> string" where
  "hex2 b = (if unat b < 16 then [CHR ''0''] else []) @ hexs (unat b)"

definition uint32_t_to_char :: "u32 \<Rightarrow> u8 \<times> u8 \<times> u8 \<times> u8" where
  "uint32_t_to_char ip = (ucast (drop_bit 24 ip AND 0xff), ucast (drop_bit 16 ip AND 0xff), ucast (drop_bit 8 ip AND 0xff), ucast (ip AND 0xff))"

section \<open>Rules as text\<close>

abbreviation fval :: "acl_rule \<Rightarrow> nat \<Rightarrow> u32" where "fval r i \<equiv> af_value (ar_field r ! i)"
abbreviation fmask :: "acl_rule \<Rightarrow> nat \<Rightarrow> u32" where "fmask r i \<equiv> af_mask (ar_field r ! i)"

text \<open>The members \<open>u16\<close> and \<open>u8\<close> of the unions.\<close>

definition hu :: "u32 \<Rightarrow> string" where "hu x = dec (unat (ucast x :: u16))"
definition hhx :: "u32 \<Rightarrow> string" where "hhx x = hexs (unat (ucast x :: u8))"

definition print_ipv6_word :: "u32 \<Rightarrow> string" where
  "print_ipv6_word w = (let (a, b, c, d) = uint32_t_to_char w in hex2 a @ hex2 b @ '':'' @ hex2 c @ hex2 d)"

text \<open>The address in the four fields from \<open>f\<close> on, and the sum of their masks.\<close>

definition print_ipv6_net :: "acl_rule \<Rightarrow> nat \<Rightarrow> string" where
  "print_ipv6_net r f =
     print_ipv6_word (fval r f) @ '':'' @ print_ipv6_word (fval r (f + 1)) @ '':'' @ print_ipv6_word (fval r (f + 2))
     @ '':'' @ print_ipv6_word (fval r (f + 3)) @ ''/''
     @ dec (unat (fmask r f + fmask r (f + 1) + fmask r (f + 2) + fmask r (f + 3))) @ '' ''"

text \<open>Ports and protocol, the same for both families up to the field indices.\<close>

definition print_rule_tail :: "acl_rule \<Rightarrow> nat \<Rightarrow> nat \<Rightarrow> string" where
  "print_rule_tail r srcp dstp =
     hu (fval r srcp) @ '' : '' @ hu (fmask r srcp) @ '' '' @ hu (fval r dstp) @ '' : '' @ hu (fmask r dstp)
     @ '' 0x'' @ hhx (fval r 0) @ ''/0x'' @ hhx (fmask r 0) @ '' ''"

definition print_rule_extra :: "acl_rule \<Rightarrow> bool \<Rightarrow> string" where
  "print_rule_extra r extra =
     (if extra then ''0x'' @ hexs (unat (ar_category_mask r)) @ ''-0x'' @ hexs (unat (of_int (ar_priority r) :: u32))
        @ ''-0x'' @ hexs (unat (ar_userdata r)) @ '' '' else [])"

text \<open>\<open>ntop\<close> is \<open>inet_ntop\<close> for IPv4.\<close>

definition print_one_ipv4_rule :: "(u32 \<Rightarrow> string) \<Rightarrow> acl_rule \<Rightarrow> bool \<Rightarrow> string" where
  "print_one_ipv4_rule ntop r extra =
     ntop (bswap32 (fval r SRC_FIELD_IPV4)) @ ''/'' @ dec (unat (fmask r SRC_FIELD_IPV4)) @ '' ''
     @ ntop (bswap32 (fval r DST_FIELD_IPV4)) @ ''/'' @ dec (unat (fmask r DST_FIELD_IPV4)) @ '' ''
     @ print_rule_tail r SRCP_FIELD_IPV4 DSTP_FIELD_IPV4 @ print_rule_extra r extra"

definition print_one_ipv6_rule :: "acl_rule \<Rightarrow> bool \<Rightarrow> string" where
  "print_one_ipv6_rule r extra =
     print_ipv6_net r SRC1_FIELD_IPV6 @ print_ipv6_net r DST1_FIELD_IPV6
     @ print_rule_tail r SRCP_FIELD_IPV6 DSTP_FIELD_IPV6 @ print_rule_extra r extra"

text \<open>The loops: a tab, the number of the rule, the rule, a newline.\<close>

definition dump_rules :: "(acl_rule \<Rightarrow> bool \<Rightarrow> string) \<Rightarrow> acl_rule list \<Rightarrow> bool \<Rightarrow> string" where
  "dump_rules print_one rules extra =
     concat (map (\<lambda>i. [CHR 0x09] @ dec (i + 1) @ '':'' @ print_one (rules ! i) extra @ [CHR 0x0A]) [0..<length rules])"

section \<open>The list of the algorithms\<close>

text \<open>\<open>snprintf\<close> into the buffer from position \<open>n\<close> on, with the space that is left: what fits, and a NUL.
  Its result is the length of the whole text.\<close>

definition snprintf :: "string \<Rightarrow> nat \<Rightarrow> string \<Rightarrow> string" where
  "snprintf buf n txt =
     (let sz = length buf - n; k = min (length txt) (sz - 1)
      in if sz = 0 then buf else take n buf @ take k txt @ [CHR 0x00] @ drop (n + k + 1) buf)"

fun usage_loop :: "string list \<Rightarrow> string \<Rightarrow> nat \<Rightarrow> nat \<Rightarrow> string \<times> nat \<times> nat" where
  "usage_loop [] buf n tn = (buf, n, tn)"
| "usage_loop (name # names) buf n tn =
     (let txt = (if names = [] then name else name @ ''|''); rc = length txt; buf1 = snprintf buf n txt
      in usage_loop names buf1 (if rc < length buf - n then n + rc else n) (tn + rc))"

text \<open>The buffer of size \<open>sz\<close> and the result.\<close>

definition usage_acl_alg :: "string \<Rightarrow> string \<times> nat" where
  "usage_acl_alg buf = (let (buf1, n, tn) = usage_loop acl_alg_names buf 0 0 in (buf1, tn))"

section \<open>Reading the numbers back\<close>

lemma hexd_code: "k < 16 \<Longrightarrow> code_of (hexd k) = (if k < 10 then 48 + k else 87 + k)"
  by (simp add: hexd_def code_of_def)

lemma hexd_val: "k < 16 \<Longrightarrow> digit_val (hexd k) = k"
  by (auto simp: digit_val_def hexd_code Let_def)

definition hex_char :: "char \<Rightarrow> bool" where
  "hex_char c \<longleftrightarrow> (48 \<le> code_of c \<and> code_of c \<le> 57) \<or> (97 \<le> code_of c \<and> code_of c \<le> 102)"

lemma hexd_char: "k < 16 \<Longrightarrow> hex_char (hexd k)"
  by (auto simp: hex_char_def hexd_code)

lemma hex_char_digit: "hex_char c \<Longrightarrow> is_digit 16 c \<and> \<not> isspace c \<and> code_of c \<noteq> 45 \<and> code_of c \<noteq> 43 \<and> \<not> is_x c"
  by (auto simp: hex_char_def is_digit_def digit_val_def isspace_def is_x_def Let_def)

lemma hexs_chars: "c \<in> set (hexs n) \<Longrightarrow> hex_char c"
proof (induction n rule: hexs.induct)
  case (1 n)
  show ?case
  proof (cases "n < 16")
    case True
    then show ?thesis using 1(2) hexd_char by (subst (asm) hexs.simps) simp
  next
    case False
    then show ?thesis using 1 hexd_char [of "n mod 16"] by (subst (asm) hexs.simps) auto
  qed
qed

lemma hexs_nonempty [simp]: "hexs n \<noteq> []"
  by (subst hexs.simps) simp

lemma num_of_hexs: "num_of 16 (hexs n) = n"
proof (induction n rule: hexs.induct)
  case (1 n)
  show ?case
  proof (cases "n < 16")
    case True
    then show ?thesis by (subst hexs.simps) (simp add: num_of_def hexd_val)
  next
    case False
    then have "num_of 16 (hexs n) = num_of 16 (hexs (n div 16)) * 16 + n mod 16"
      by (subst hexs.simps) (simp add: num_of_def hexd_val)
    then show ?thesis using 1 False by simp
  qed
qed

text \<open>\<open>strtoul\<close> in base 16, and in base 0 after \<open>0x\<close>.\<close>

lemma strtoul_hex:
  assumes "\<forall>c \<in> set ds. hex_char c" and "ds \<noteq> []" and "num_of 16 ds \<le> ULONG_MAX" and "x = [] \<or> \<not> is_digit 16 (hd x) \<and> \<not> is_x (hd x)"
  shows "strtoul (ds @ x) 16 = \<lparr>su_erange = False, su_val = num_of 16 ds, su_end = x\<rparr>"
proof -
  obtain c cs where d: "ds = c # cs" using assms(2) by (cases ds) auto
  have c: "is_digit 16 c" "\<not> isspace c" "code_of c \<noteq> 45" "code_of c \<noteq> 43" using hex_char_digit assms(1) d by simp_all
  have p: "num_prefix 16 (ds @ x) = (16, ds @ x)"
  proof -
    have nx: "\<not> is_x b" if "cs @ x = b # t" for b t
      using that assms(1,4) hex_char_digit by (cases cs) (auto simp: d)
    show ?thesis by (auto simp: num_prefix_def d split: list.splits dest: nx)
  qed
  have "takeWhile (is_digit 16) x = []" using assms(4) by (cases x) auto
  then have t: "takeWhile (is_digit 16) (ds @ x) = ds" using assms(1) hex_char_digit by (simp add: takeWhile_append)
  have s: "dropWhile isspace (ds @ x) = ds @ x" using c by (simp add: d)
  have sg: "(if ds @ x \<noteq> [] \<and> (code_of (hd (ds @ x)) = 45 \<or> code_of (hd (ds @ x)) = 43) then tl (ds @ x) else ds @ x) = ds @ x"
    using c by (simp add: d)
  show ?thesis unfolding strtoul_def Let_def s sg p prod.case t using assms(2,3) c by (simp add: d)
qed

lemma strtoul_0x:
  assumes "n \<le> ULONG_MAX" and "x = [] \<or> \<not> is_digit 16 (hd x)"
  shows "strtoul (''0x'' @ hexs n @ x) 0 = \<lparr>su_erange = False, su_val = n, su_end = x\<rparr>"
proof -
  let ?s = "''0x'' @ hexs n @ x"
  obtain c cs where d: "hexs n = c # cs" by (cases "hexs n") auto
  have c0: "code_of CHR ''0'' = 48" "code_of CHR ''x'' = 120" by (simp_all add: code_of_def)
  have "is_digit 16 c" using hexs_chars [of c n] hex_char_digit d by simp
  then have p: "num_prefix 0 ?s = (16, hexs n @ x)"
    by (simp add: num_prefix_def d c0 is_x_def)
  have "takeWhile (is_digit 16) x = []" using assms(2) by (cases x) auto
  then have t: "takeWhile (is_digit 16) (hexs n @ x) = hexs n"
    using hexs_chars hex_char_digit by (simp add: takeWhile_append)
  have s: "dropWhile isspace ?s = ?s" by (simp add: isspace_def c0)
  have sg: "(if ?s \<noteq> [] \<and> (code_of (hd ?s) = 45 \<or> code_of (hd ?s) = 43) then tl ?s else ?s) = ?s" by (simp add: c0)
  have ng: "(?s \<noteq> [] \<and> code_of (hd ?s) = 45) = False" by (simp add: c0)
  show ?thesis unfolding strtoul_def Let_def s sg ng p prod.case t num_of_hexs using assms(1) by simp
qed

section \<open>Words and nets\<close>

lemma hex2_digits: "hex2 b = [hexd (unat b div 16), hexd (unat b mod 16)]"
proof (cases "unat b < 16")
  case True
  have "hexd 0 = CHR ''0''" by (simp add: hexd_def char_zero)
  with True show ?thesis by (simp add: hex2_def hexs.simps [of "unat b"])
next
  case False
  have "unat b < 256" using unsigned_less [of b] by simp
  then have "unat b div 16 < 16" by simp
  with False show ?thesis by (simp add: hex2_def hexs.simps [of "unat b"] hexs.simps [of "unat b div 16"])
qed

lemma num_of_hex2: "num_of 16 (hex2 a @ hex2 b) = unat a * 256 + unat b" and hex2_chars: "c \<in> set (hex2 a) \<Longrightarrow> hex_char c"
proof -
  have l: "unat a < 256" "unat b < 256" using unsigned_less [of a] unsigned_less [of b] by simp_all
  then have d: "unat a div 16 < 16" "unat b div 16 < 16" by simp_all
  have s: "((unat a div 16 * 16 + unat a mod 16) * 16 + unat b div 16) * 16 + unat b mod 16 = unat a * 256 + unat b"
  proof -
    have "((x div 16 * 16 + x mod 16) * 16 + y div 16) * 16 + y mod 16 = x * 256 + y" for x y :: nat by presburger
    then show ?thesis .
  qed
  show "num_of 16 (hex2 a @ hex2 b) = unat a * 256 + unat b"
    using s d by (simp add: hex2_digits num_of_def hexd_val)
  show "c \<in> set (hex2 a) \<Longrightarrow> hex_char c" using d by (auto simp: hex2_digits hexd_char)
qed

lemma group_field:
  assumes "d = CHR '':'' \<or> d = CHR ''/''"
  shows "get_cb_field (hex2 a @ hex2 b @ d # r) 16 65535 (Some d) = Some (unat a * 256 + unat b, r)"
proof -
  have l: "unat a < 256" "unat b < 256" using unsigned_less [of a] unsigned_less [of b] by simp_all
  have nd: "\<not> is_digit 16 d \<and> \<not> is_x d" using assms by (auto simp: is_digit_def digit_val_def is_x_def code_of_def)
  have "strtoul ((hex2 a @ hex2 b) @ d # r) 16 = \<lparr>su_erange = False, su_val = num_of 16 (hex2 a @ hex2 b), su_end = d # r\<rparr>"
  proof (rule strtoul_hex)
    show "\<forall>c \<in> set (hex2 a @ hex2 b). hex_char c" using hex2_chars by auto
    show "hex2 a @ hex2 b \<noteq> []" by (simp add: hex2_digits)
    show "num_of 16 (hex2 a @ hex2 b) \<le> ULONG_MAX" using l unfolding num_of_hex2 by (simp add: ULONG_MAX_def)
    show "d # r = [] \<or> \<not> is_digit 16 (hd (d # r)) \<and> \<not> is_x (hd (d # r))" using nd by simp
  qed
  then show ?thesis using l by (simp add: get_cb_field_def num_of_hex2 first_char_def)
qed

lemma base256:
  fixes x :: nat assumes "x < 2 ^ 32"
  shows "(x div 2 ^ 24 mod 256 * 256 + x div 2 ^ 16 mod 256) * 2 ^ 16 + (x div 2 ^ 8 mod 256 * 256 + x mod 256) = x"
proof -
  have e: "\<exists>q r. y = q * 256 + r \<and> r < 256" for y :: nat
    by (intro exI [of _ "y div 256"] exI [of _ "y mod 256"]) simp
  obtain q1 r0 where 1: "x = q1 * 256 + r0" "r0 < 256" using e by blast
  obtain q2 r1 where 2: "q1 = q2 * 256 + r1" "r1 < 256" using e by blast
  obtain q3 r2 where 3: "q2 = q3 * 256 + r2" "r2 < 256" using e by blast
  have "q3 < 256" using assms 1 2 3 by simp
  have "x div 2 ^ 8 = q1" "x mod 256 = r0" using 1 by simp_all
  moreover have "q1 div 2 ^ 8 = q2" "q1 mod 256 = r1" using 2 by simp_all
  moreover have "q2 div 2 ^ 8 = q3" "q2 mod 256 = r2" using 3 by simp_all
  moreover note d = calculation
  have "x div 2 ^ 16 = x div 2 ^ 8 div 2 ^ 8" "x div 2 ^ 24 = x div 2 ^ 8 div 2 ^ 8 div 2 ^ 8"
    by (simp_all add: div_mult2_eq [symmetric])
  then show ?thesis using \<open>q3 < 256\<close> by (simp add: d del: power_numeral) (simp add: 1 2 3 algebra_simps)
qed

lemma word_bytes: "uint32_t_to_char w = (a, b, c, d) \<Longrightarrow>
    push_bit 16 (of_nat (unat a * 256 + unat b)) + of_nat (unat c * 256 + unat d) = w"
proof -
  assume u: "uint32_t_to_char w = (a, b, c, d)"
  have m: "unat (ucast (drop_bit k w AND 0xff) :: u8) = unat w div 2 ^ k mod 256" for k
  proof -
    have "x AND 255 = x mod 256" for x :: nat using take_bit_eq_mask [of 8 x] by (simp add: take_bit_eq_mod mask_eq_exp_minus_1)
    moreover have "unat (drop_bit k w AND 0xff) = unat (drop_bit k w) AND 255" by (simp only: unsigned_and_eq) simp
    moreover have "unat w < 4294967296" using unsigned_less [of w] by simp
    then have "unat (drop_bit k w) = unat w div 2 ^ k" by (simp only: unsigned_drop_bit_eq) (simp add: drop_bit_eq_div take_bit_eq_mod)
    ultimately have "unat (drop_bit k w AND 0xff) = unat w div 2 ^ k mod 256" by presburger
    then show ?thesis by (simp add: unsigned_ucast_eq take_bit_eq_mod)
  qed
  have a: "unat a = unat w div 2 ^ 24 mod 256" "unat b = unat w div 2 ^ 16 mod 256" "unat c = unat w div 2 ^ 8 mod 256" "unat d = unat w mod 256"
    using u m [of 24] m [of 16] m [of 8] m [of 0] by (auto simp: uint32_t_to_char_def)
  have l: "unat w < 2 ^ 32" using unsigned_less [of w] by simp
  have n: "(unat a * 256 + unat b) * 2 ^ 16 + (unat c * 256 + unat d) = unat w"
    unfolding a by (rule base256 [OF l])
  have "push_bit 16 (of_nat (unat a * 256 + unat b)) + of_nat (unat c * 256 + unat d)
      = (of_nat ((unat a * 256 + unat b) * 2 ^ 16 + (unat c * 256 + unat d)) :: u32)"
    by (simp add: push_bit_eq_mult)
  then show ?thesis unfolding n by simp
qed

text \<open>The text of a net, and its reading.\<close>

lemma groups_word:
  assumes "acl_groups r ds = Some (gs, x)" and "d = CHR '':'' \<or> d = CHR ''/''"
  obtains h l where "acl_groups (print_ipv6_word w @ d # r) (Some CHR '':'' # Some d # ds) = Some (h # l # gs, x)"
    and "push_bit 16 h + l = w"
proof -
  obtain a b c e where u: "uint32_t_to_char w = (a, b, c, e)" by (cases "uint32_t_to_char w") auto
  have "print_ipv6_word w @ d # r = hex2 a @ hex2 b @ CHR '':'' # hex2 c @ hex2 e @ d # r"
    by (simp add: print_ipv6_word_def u)
  then have "acl_groups (print_ipv6_word w @ d # r) (Some CHR '':'' # Some d # ds)
      = Some (of_nat (unat a * 256 + unat b) # of_nat (unat c * 256 + unat e) # gs, x)"
    using group_field [of "CHR '':''" a b] group_field [OF assms(2), of c e] assms(1) by simp
  with word_bytes [OF u] that show ?thesis by blast
qed

definition net_text :: "u32 list \<Rightarrow> nat \<Rightarrow> string" where
  "net_text a m = print_ipv6_word (a ! 0) @ CHR '':'' # print_ipv6_word (a ! 1) @ CHR '':''
     # print_ipv6_word (a ! 2) @ CHR '':'' # print_ipv6_word (a ! 3) @ CHR ''/'' # dec m"

lemma parse_addr_text:
  "acl_parse_ipv6_addr (net_text a m) (Some CHR ''/'') = Some ([a ! 0, a ! 1, a ! 2, a ! 3], dec m)"
proof -
  have r: "replicate 7 x @ [y] = [x, x, x, x, x, x, x, y]" for x y :: "char option" by (simp add: numeral_eq_Suc)
  let ?r = "\<lambda>i. print_ipv6_word (a ! i)" and ?c = "CHR '':''"
  obtain h3 l3 where 3: "acl_groups (?r 3 @ CHR ''/'' # dec m) [Some ?c, Some CHR ''/''] = Some ([h3, l3], dec m)"
      "push_bit 16 h3 + l3 = a ! 3"
    using groups_word [of "dec m" "[]" "[]" "dec m" "CHR ''/''" "a ! 3"] by auto
  obtain h2 l2 where 2: "acl_groups (?r 2 @ ?c # ?r 3 @ CHR ''/'' # dec m)
      [Some ?c, Some ?c, Some ?c, Some CHR ''/''] = Some ([h2, l2, h3, l3], dec m)" "push_bit 16 h2 + l2 = a ! 2"
    using groups_word [OF 3(1), of ?c "a ! 2"] by auto
  obtain h1 l1 where 1: "acl_groups (?r 1 @ ?c # ?r 2 @ ?c # ?r 3 @ CHR ''/'' # dec m)
      [Some ?c, Some ?c, Some ?c, Some ?c, Some ?c, Some CHR ''/''] = Some ([h1, l1, h2, l2, h3, l3], dec m)" "push_bit 16 h1 + l1 = a ! 1"
    using groups_word [OF 2(1), of ?c "a ! 1"] by auto
  obtain h0 l0 where 0: "acl_groups (net_text a m)
      [Some ?c, Some ?c, Some ?c, Some ?c, Some ?c, Some ?c, Some ?c, Some CHR ''/''] = Some ([h0, l0, h1, l1, h2, l2, h3, l3], dec m)"
      "push_bit 16 h0 + l0 = a ! 0"
    using groups_word [OF 1(1), of ?c "a ! 0"] unfolding net_text_def by auto
  show ?thesis using 0(2) 1(2) 2(2) 3(2) unfolding acl_parse_ipv6_addr_def r 0(1) by simp
qed

section \<open>The line of a rule\<close>

text \<open>The fields a line sets: protocol, the two nets, the two port ranges.\<close>

definition net_fields :: "u32 list \<Rightarrow> nat \<Rightarrow> acl_field list" where
  "net_fields a m = map (\<lambda>i. \<lparr>af_value = a ! i, af_mask = of_nat (acl_mask32 m i)\<rparr>) [0, 1, 2, 3]"

definition num_field :: "nat \<Rightarrow> nat \<Rightarrow> acl_field" where
  "num_field x y = \<lparr>af_value = of_nat x, af_mask = of_nat y\<rparr>"

definition rule6_fields :: "nat \<Rightarrow> nat \<Rightarrow> u32 list \<Rightarrow> nat \<Rightarrow> u32 list \<Rightarrow> nat \<Rightarrow> nat \<Rightarrow> nat \<Rightarrow> nat \<Rightarrow> nat \<Rightarrow> acl_field list" where
  "rule6_fields p q a m b k sl sh dl dh =
     num_field p q # net_fields a m @ net_fields b k @ [num_field sl sh, num_field dl dh]"

definition proto_text :: "nat \<Rightarrow> nat \<Rightarrow> string" where
  "proto_text p q = ''0x'' @ hexs p @ CHR ''/'' # ''0x'' @ hexs q"

definition rule6_tokens :: "nat \<Rightarrow> nat \<Rightarrow> u32 list \<Rightarrow> nat \<Rightarrow> u32 list \<Rightarrow> nat \<Rightarrow> nat \<Rightarrow> nat \<Rightarrow> nat \<Rightarrow> nat \<Rightarrow> string list" where
  "rule6_tokens p q a m b k sl sh dl dh =
     [net_text a m, net_text b k, dec sl, '':'', dec sh, dec dl, '':'', dec dh, proto_text p q]"

lemma mask32_sum: "m \<le> 128 \<Longrightarrow> acl_mask32 m 0 + acl_mask32 m 1 + acl_mask32 m 2 + acl_mask32 m 3 = m"
  by (simp add: acl_mask32_def)

lemma mask_words_sum:
  "m \<le> 128 \<Longrightarrow> unat (of_nat (acl_mask32 m 0) + of_nat (acl_mask32 m 1) + of_nat (acl_mask32 m 2) + of_nat (acl_mask32 m 3) :: u32) = m"
  unfolding of_nat_add [symmetric] mask32_sum by (simp add: unat_of_nat)

lemma num_ucast: "n \<le> 65535 \<Longrightarrow> unat (ucast (of_nat n :: u32) :: u16) = n" "n \<le> 255 \<Longrightarrow> unat (ucast (of_nat n :: u32) :: u8) = n"
  by (simp_all add: unsigned_ucast_eq unat_of_nat take_bit_eq_mod)

lemma print_rule6:
  assumes "ar_field r = rule6_fields p q a m b k sl sh dl dh" and "m \<le> 128" "k \<le> 128" "p \<le> 255" "q \<le> 255"
    and "sl \<le> 65535" "sh \<le> 65535" "dl \<le> 65535" "dh \<le> 65535"
  shows "print_one_ipv6_rule r extra = concat (map (\<lambda>t. t @ '' '') (rule6_tokens p q a m b k sl sh dl dh)) @ print_rule_extra r extra"
proof -
  have f: "fval r 0 = of_nat p" "fmask r 0 = of_nat q" "fval r 9 = of_nat sl" "fmask r 9 = of_nat sh" "fval r 10 = of_nat dl" "fmask r 10 = of_nat dh"
    by (simp_all add: assms(1) rule6_fields_def net_fields_def num_field_def)
  have n: "print_ipv6_net r 1 = net_text a m @ '' ''" "print_ipv6_net r 5 = net_text b k @ '' ''"
    using mask_words_sum [OF assms(2)] mask_words_sum [OF assms(3)]
    by (simp_all add: print_ipv6_net_def net_text_def assms(1) rule6_fields_def net_fields_def num_field_def)
  show ?thesis unfolding print_one_ipv6_rule_def SRC1_FIELD_IPV6_def DST1_FIELD_IPV6_def SRCP_FIELD_IPV6_def DSTP_FIELD_IPV6_def
      print_rule_tail_def f n hu_def hhx_def num_ucast(1) [OF assms(6)] num_ucast(1) [OF assms(7)] num_ucast(1) [OF assms(8)]
      num_ucast(1) [OF assms(9)] num_ucast(2) [OF assms(4)] num_ucast(2) [OF assms(5)]
    by (simp add: rule6_tokens_def proto_text_def)
qed

text \<open>Tokens without delimiters, each followed by one, are what \<open>strtoks\<close> finds.\<close>

lemma strtoks_concat:
  assumes "\<forall>t \<in> set ts. t \<noteq> [] \<and> set t \<inter> set dlm = {}" and "d \<in> set dlm"
  shows "strtoks dlm (length ts) (concat (map (\<lambda>t. t @ [d]) ts) @ rest) = Some ts"
  using assms(1)
proof (induction ts)
  case (Cons t ts)
  have "strtok_r dlm (t @ d # concat (map (\<lambda>t. t @ [d]) ts) @ rest) = Some (t, concat (map (\<lambda>t. t @ [d]) ts) @ rest)"
    by (rule strtok_r_app) (use Cons.prems assms(2) in auto)
  with Cons show ?case by simp
qed simp

lemma word_text_chars: "c \<in> set (print_ipv6_word w) \<Longrightarrow> hex_char c \<or> c = CHR '':''"
  by (auto simp: print_ipv6_word_def hex2_chars split: prod.splits)

lemma not_delim:
  "hex_char c \<Longrightarrow> c \<notin> set rule_dlm" "c \<in> set (dec n) \<Longrightarrow> c \<notin> set rule_dlm"
  "CHR '':'' \<notin> set rule_dlm" "CHR ''/'' \<notin> set rule_dlm" "CHR ''x'' \<notin> set rule_dlm" "CHR ''0'' \<notin> set rule_dlm"
  using dec_digits [of c n] by (auto simp: rule_dlm_def hex_char_def code_of_def)

lemma rule6_tokens_ok: "\<forall>t \<in> set (rule6_tokens p q a m b k sl sh dl dh). t \<noteq> [] \<and> set t \<inter> set rule_dlm = {}"
proof -
  have n: "set (net_text a m) \<inter> set rule_dlm = {}" for a m
    using word_text_chars not_delim by (fastforce simp: net_text_def)
  have d: "set (dec n) \<inter> set rule_dlm = {}" for n using not_delim(2) by blast
  have p: "set (proto_text p q) \<inter> set rule_dlm = {}"
    using hexs_chars not_delim by (fastforce simp: proto_text_def)
  have e: "net_text a m \<noteq> []" for a m by (simp add: net_text_def)
  show ?thesis using n d p e not_delim(3) by (simp add: rule6_tokens_def proto_text_def)
qed

lemma proto_fields:
  assumes "p \<le> 255" "q \<le> 255"
  shows "get_cb_field (proto_text p q) 0 255 (Some CHR ''/'') = Some (p, ''0x'' @ hexs q)"
    and "get_cb_field (''0x'' @ hexs q) 0 255 None = Some (q, [])"
proof -
  have l: "p \<le> ULONG_MAX" "q \<le> ULONG_MAX" using assms by (simp_all add: ULONG_MAX_def)
  have nd: "\<not> is_digit 16 CHR ''/''" by (simp add: is_digit_def digit_val_def code_of_def)
  show "get_cb_field (proto_text p q) 0 255 (Some CHR ''/'') = Some (p, ''0x'' @ hexs q)"
    using strtoul_0x [OF l(1), of "CHR ''/'' # ''0x'' @ hexs q"] nd assms(1)
    by (simp add: get_cb_field_def proto_text_def first_char_def)
  show "get_cb_field (''0x'' @ hexs q) 0 255 None = Some (q, [])"
    using strtoul_0x [OF l(2), of "[]"] assms(2) by (simp add: get_cb_field_def first_char_def)
qed

text \<open>What the parsers leave in the fields.\<close>

lemma parse_tokens6:
  assumes "strtoks rule_dlm (if u then CB_FLD_NUM else CB_FLD_USERDATA) str = Some inp"
    and "acl_parse_ipv6_addr (inp ! 0) (Some CHR ''/'') = Some (a, x)" "get_cb_field x 0 128 None = Some (m, x')"
    and "acl_parse_ipv6_addr (inp ! 1) (Some CHR ''/'') = Some (b, y)" "get_cb_field y 0 128 None = Some (k, y')"
  shows "parse_cb_ipv6_rule str (zero_acl_rule 11) u = do {
      v3 \<leftarrow> acl_parse_ports inp 9 10 ((zero_acl_rule 11)\<lparr>ar_field :=
        num_field 0 0 # net_fields a m @ net_fields b k @ [num_field 0 0, num_field 0 0]\<rparr>);
      acl_parse_proto inp u v3 }"
proof -
  have r: "replicate 11 x = [x, x, x, x, x, x, x, x, x, x, x]" for x :: acl_field by (simp add: numeral_eq_Suc)
  have f: "fold (\<lambda>i r. set_value (5 + i) (b ! i) (set_mask (5 + i) (of_nat (acl_mask32 k i)) r)) [0..<4]
      (fold (\<lambda>i r. set_value (1 + i) (a ! i) (set_mask (1 + i) (of_nat (acl_mask32 m i)) r)) [0..<4] (zero_acl_rule 11))
      = (zero_acl_rule 11)\<lparr>ar_field := num_field 0 0 # net_fields a m @ net_fields b k @ [num_field 0 0, num_field 0 0]\<rparr>"
    by (simp add: upt_4 set_value_def set_mask_def zero_acl_rule_def net_fields_def num_field_def r)
  show ?thesis unfolding parse_cb_ipv6_rule_def acl_parse_ipv6_net_def assms(1) SRC1_FIELD_IPV6_def DST1_FIELD_IPV6_def
      SRCP_FIELD_IPV6_def DSTP_FIELD_IPV6_def
    using assms(2-) f by simp
qed

lemma parse_ports6:
  assumes "get_cb_field (inp ! 2) 0 65535 None = Some (sl, x1)" "get_cb_field (inp ! 4) 0 65535 None = Some (sh, x2)"
    and "get_cb_field (inp ! 5) 0 65535 None = Some (dl, x3)" "get_cb_field (inp ! 7) 0 65535 None = Some (dh, x4)"
    and "sl \<le> 65535" "sh \<le> 65535" "dl \<le> 65535" "dh \<le> 65535"
    and "ar_field v = num_field p q # net_fields a m @ net_fields b k @ [num_field 0 0, num_field 0 0]"
  shows "acl_parse_ports inp 9 10 v =
    (if inp ! 3 = cb_port_delim \<and> inp ! 6 = cb_port_delim \<and> sl \<le> sh \<and> dl \<le> dh
     then Some (v\<lparr>ar_field := rule6_fields p q a m b k sl sh dl dh\<rparr>) else None)"
proof -
  have o: "(of_nat y :: u32) < of_nat x \<longleftrightarrow> y < x" if "x \<le> 65535" "y \<le> 65535" for x y
    using that by (simp add: word_less_nat_alt unat_of_nat)
  show ?thesis unfolding acl_parse_ports_def assms(1-4) bind.bind_lunit Let_def prod.case
    using o [OF assms(5,6)] o [OF assms(7,8)]
    by (auto simp: set_value_def set_mask_def assms(9) net_fields_def num_field_def rule6_fields_def)
qed

lemma parse_proto6:
  assumes "get_cb_field (inp ! 8) 0 255 (Some CHR ''/'') = Some (p, x)" "get_cb_field x 0 255 None = Some (q, y)"
    and "ar_field v = rule6_fields p' q' a m b k sl sh dl dh"
  shows "acl_parse_proto inp False v = Some (v\<lparr>ar_field := rule6_fields p q a m b k sl sh dl dh\<rparr>)"
  using assms by (simp add: acl_parse_proto_def Let_def set_value_def set_mask_def rule6_fields_def num_field_def)

lemma get_cb_field_le: "get_cb_field s base lim d = Some (v, x) \<Longrightarrow> v \<le> lim"
  by (auto simp: get_cb_field_def Let_def split: if_splits)

lemma parse_proto6_fields:
  assumes "acl_parse_proto inp u v = Some w" and "ar_field v = rule6_fields p' q' a m b k sl sh dl dh"
  obtains p q where "p \<le> 255" "q \<le> 255" "ar_field w = rule6_fields p q a m b k sl sh dl dh"
proof -
  obtain p x q y where g: "get_cb_field (inp ! 8) 0 255 (Some CHR ''/'') = Some (p, x)" "get_cb_field x 0 255 None = Some (q, y)"
    using assms(1) by (auto simp: acl_parse_proto_def bind_eq_Some_conv)
  have "ar_field w = ar_field (set_mask 0 (of_nat q) (set_value 0 (of_nat p) v))"
    using assms(1) by (auto simp: acl_parse_proto_def g bind_eq_Some_conv Let_def split: if_splits)
  then have "ar_field w = rule6_fields p q a m b k sl sh dl dh"
    using assms(2) by (simp add: set_value_def set_mask_def rule6_fields_def num_field_def)
  with g [THEN get_cb_field_le] that show ?thesis by blast
qed

text \<open>The fields of a rule that was read.\<close>

lemma parsed_rule6:
  assumes "parse_cb_ipv6_rule str (zero_acl_rule 11) u = Some r"
  obtains p q a m b k sl sh dl dh where "ar_field r = rule6_fields p q a m b k sl sh dl dh"
    and "m \<le> 128" "k \<le> 128" "p \<le> 255" "q \<le> 255" "sl \<le> sh" "sh \<le> 65535" "dl \<le> dh" "dh \<le> 65535"
proof -
  obtain inp v1 v2 where i: "strtoks rule_dlm (if u then CB_FLD_NUM else CB_FLD_USERDATA) str = Some inp"
      and n: "acl_parse_ipv6_net (inp ! 0) SRC1_FIELD_IPV6 (zero_acl_rule 11) = Some v1"
        "acl_parse_ipv6_net (inp ! 1) DST1_FIELD_IPV6 v1 = Some v2"
    using assms unfolding parse_cb_ipv6_rule_def by (auto simp: bind_eq_Some_conv)
  have net: "\<exists>a x m x'. acl_parse_ipv6_addr t (Some CHR ''/'') = Some (a, x) \<and> get_cb_field x 0 128 None = Some (m, x')"
    if "acl_parse_ipv6_net t f v = Some v'" for t f v v'
    using that by (auto simp: acl_parse_ipv6_net_def bind_eq_Some_conv)
  obtain a x m x' b y k y' where t: "strtoks rule_dlm (if u then CB_FLD_NUM else CB_FLD_USERDATA) str = Some inp"
      "acl_parse_ipv6_addr (inp ! 0) (Some CHR ''/'') = Some (a, x)" "get_cb_field x 0 128 None = Some (m, x')"
      "acl_parse_ipv6_addr (inp ! 1) (Some CHR ''/'') = Some (b, y)" "get_cb_field y 0 128 None = Some (k, y')"
    using i net [OF n(1)] net [OF n(2)] by blast
  let ?v = "(zero_acl_rule 11)\<lparr>ar_field := num_field 0 0 # net_fields a m @ net_fields b k @ [num_field 0 0, num_field 0 0]\<rparr>"
  obtain v3 where v3: "acl_parse_ports inp 9 10 ?v = Some v3" and pr: "acl_parse_proto inp u v3 = Some r"
    using assms unfolding parse_tokens6 [OF t] by (auto simp: bind_eq_Some_conv)
  obtain sl x1 sh x2 dl x3 dh x4 where g: "get_cb_field (inp ! 2) 0 65535 None = Some (sl, x1)" "get_cb_field (inp ! 4) 0 65535 None = Some (sh, x2)"
      "get_cb_field (inp ! 5) 0 65535 None = Some (dl, x3)" "get_cb_field (inp ! 7) 0 65535 None = Some (dh, x4)"
    using v3 by (auto simp: acl_parse_ports_def bind_eq_Some_conv Let_def split: if_splits)
  have f: "ar_field v3 = rule6_fields 0 0 a m b k sl sh dl dh" "sl \<le> sh" "dl \<le> dh"
    using v3 parse_ports6 [OF g g [THEN get_cb_field_le], of ?v 0 0 a m b k] by (auto split: if_splits)
  from pr f(1) obtain p q where pq: "p \<le> 255" "q \<le> 255" and r: "ar_field r = rule6_fields p q a m b k sl sh dl dh"
    by (rule parse_proto6_fields)
  show ?thesis by (rule that [OF r get_cb_field_le [OF t(3)] get_cb_field_le [OF t(5)] pq f(2) get_cb_field_le [OF g(2)] f(3)
      get_cb_field_le [OF g(4)]])
qed

lemma parse_printed6:
  assumes "m \<le> 128" "k \<le> 128" "p \<le> 255" "q \<le> 255" "sl \<le> sh" "sh \<le> 65535" "dl \<le> dh" "dh \<le> 65535"
  shows "\<exists>r'. parse_cb_ipv6_rule (concat (map (\<lambda>t. t @ '' '') (rule6_tokens p q a m b k sl sh dl dh)) @ rest) (zero_acl_rule 11) False = Some r'
    \<and> ar_field r' = rule6_fields p q a m b k sl sh dl dh"
proof -
  let ?inp = "rule6_tokens p q a m b k sl sh dl dh"
  have "length ?inp = CB_FLD_USERDATA" by (simp add: CB_FLD_USERDATA_def rule6_tokens_def)
  moreover have "strtoks rule_dlm (length ?inp) (concat (map (\<lambda>t. t @ '' '') ?inp) @ rest) = Some ?inp"
    by (rule strtoks_concat [OF rule6_tokens_ok]) (simp add: rule_dlm_def)
  ultimately have t: "strtoks rule_dlm CB_FLD_USERDATA (concat (map (\<lambda>t. t @ '' '') ?inp) @ rest) = Some ?inp" by simp
  have c: "get_cb_field (dec n) 0 lim None = Some (n, [])" if "n \<le> lim" "lim \<le> 65535" for n lim
    using that by (simp add: get_cb_field_num cb_num_dec ULONG_MAX_def)
  have n: "acl_parse_ipv6_addr (net_text a m) (Some CHR ''/'') = Some ([a ! 0, a ! 1, a ! 2, a ! 3], dec m)" for a m
    by (rule parse_addr_text)
  have f: "net_fields [a ! 0, a ! 1, a ! 2, a ! 3] m = net_fields a m" for a m by (simp add: net_fields_def)
  let ?v = "(zero_acl_rule 11)\<lparr>ar_field := num_field 0 0 # net_fields a m @ net_fields b k @ [num_field 0 0, num_field 0 0]\<rparr>"
  have i: "?inp ! 0 = net_text a m" "?inp ! 1 = net_text b k" "?inp ! 2 = dec sl" "?inp ! 3 = cb_port_delim" "?inp ! 4 = dec sh"
      "?inp ! 5 = dec dl" "?inp ! 6 = cb_port_delim" "?inp ! 7 = dec dh" "?inp ! 8 = proto_text p q"
    by (simp_all add: rule6_tokens_def cb_port_delim_def)
  have v: "ar_field ?v = num_field 0 0 # net_fields a m @ net_fields b k @ [num_field 0 0, num_field 0 0]" by simp
  have po: "acl_parse_ports ?inp 9 10 ?v = Some (?v\<lparr>ar_field := rule6_fields 0 0 a m b k sl sh dl dh\<rparr>)"
    using parse_ports6 [of ?inp sl "[]" sh "[]" dl "[]" dh "[]" ?v 0 0 a m b k] i c v assms(5-8) by simp
  have "parse_cb_ipv6_rule (concat (map (\<lambda>t. t @ '' '') ?inp) @ rest) (zero_acl_rule 11) False
      = Option.bind (acl_parse_ports ?inp 9 10 ?v) (acl_parse_proto ?inp False)"
    using parse_tokens6 [of False "concat (map (\<lambda>t. t @ '' '') ?inp) @ rest" ?inp "[a ! 0, a ! 1, a ! 2, a ! 3]" "dec m" m "[]"
        "[b ! 0, b ! 1, b ! 2, b ! 3]" "dec k" k "[]"] t n i c assms(1,2) unfolding f by simp
  moreover have "acl_parse_proto ?inp False (?v\<lparr>ar_field := rule6_fields 0 0 a m b k sl sh dl dh\<rparr>)
      = Some (?v\<lparr>ar_field := rule6_fields p q a m b k sl sh dl dh\<rparr>)"
    by (subst parse_proto6 [OF _ proto_fields(2) [OF assms(3,4)]]) (simp_all add: i proto_fields [OF assms(3,4)])
  ultimately show ?thesis unfolding po by simp
qed

text \<open>C35. A rule that was read, dumped, reads as the same fields: the line \<open>print_one_ipv6_rule\<close> prints of a rule
  with the fields of a line that \<open>parse_cb_ipv6_rule\<close> accepted is accepted by it again, with the nets, their
  prefix lengths (printed as the sum of the four words' masks), the ports and the protocol. It does not matter
  whether priority and user data are printed after them, nor which the rule has got since.\<close>

theorem dump_parse_rule6:
  assumes "parse_cb_ipv6_rule str (zero_acl_rule 11) u = Some r" and "ar_field s = ar_field r"
  shows "\<exists>r'. parse_cb_ipv6_rule (print_one_ipv6_rule s extra) (zero_acl_rule 11) False = Some r' \<and> ar_field r' = ar_field r"
proof -
  obtain p q a m b k sl sh dl dh where f: "ar_field r = rule6_fields p q a m b k sl sh dl dh"
    and l: "m \<le> 128" "k \<le> 128" "p \<le> 255" "q \<le> 255" "sl \<le> sh" "sh \<le> 65535" "dl \<le> dh" "dh \<le> 65535"
    using assms(1) by (rule parsed_rule6)
  have "print_one_ipv6_rule s extra = concat (map (\<lambda>t. t @ '' '') (rule6_tokens p q a m b k sl sh dl dh)) @ print_rule_extra s extra"
    by (rule print_rule6) (use assms(2) f l in auto)
  then show ?thesis using parse_printed6 [OF l] f by simp
qed

text \<open>Applied to a rule from the net 2001:db8::/32, to any address and port 80, of TCP.\<close>

theorem dump_parse_rule6_witness:
  "\<exists>r r'. parse_cb_ipv6_rule ''2001:0db8:0000:0000:0000:0000:0000:0000/32 0000:0000:0000:0000:0000:0000:0000:0000/0 0 : 99 80 : 80 0x6/0xff '' (zero_acl_rule 11) False = Some r
    \<and> parse_cb_ipv6_rule (print_one_ipv6_rule r True) (zero_acl_rule 11) False = Some r' \<and> ar_field r' = ar_field r"
proof -
  let ?ts = "rule6_tokens 6 255 [0x20010db8, 0, 0, 0] 32 [0, 0, 0, 0] 0 0 99 80 80"
  have t: "concat (map (\<lambda>t. t @ '' '') ?ts)
      = ''2001:0db8:0000:0000:0000:0000:0000:0000/32 0000:0000:0000:0000:0000:0000:0000:0000/0 0 : 99 80 : 80 0x6/0xff ''"
  proof -
    have c: "char_of (48 :: nat) = CHR ''0''" "char_of (49 :: nat) = CHR ''1''" "char_of (50 :: nat) = CHR ''2''"
        "char_of (56 :: nat) = CHR ''8''" "char_of (98 :: nat) = CHR ''b''" "char_of (100 :: nat) = CHR ''d''"
      by code_simp+
    have w: "print_ipv6_word 0x20010db8 = ''2001:0db8''" "print_ipv6_word 0 = ''0000:0000''"
      by (simp_all add: print_ipv6_word_def uint32_t_to_char_def hex2_def hexs.simps hexd_def Let_def c)
    have d: "dec 0 = ''0''" "dec 32 = ''32''" "dec 80 = ''80''" "dec 99 = ''99''" "hexs 6 = ''6''" "hexs 255 = ''ff''" by code_simp+
    show ?thesis by (simp add: rule6_tokens_def net_text_def proto_text_def w d)
  qed
  obtain r where r: "parse_cb_ipv6_rule (concat (map (\<lambda>t. t @ '' '') ?ts)) (zero_acl_rule 11) False = Some r"
    using parse_printed6 [of 32 0 6 255 0 99 80 80 "[0x20010db8, 0, 0, 0]" "[0, 0, 0, 0]" "[]"] by auto
  show ?thesis using r dump_parse_rule6 [OF r refl] unfolding t by blast
qed

section \<open>The buffer of the list\<close>

lemma snprintf_fits:
  assumes "n + length txt < length buf"
  shows "length (snprintf buf n txt) = length buf" "take (n + length txt) (snprintf buf n txt) = take n buf @ txt"
    and "snprintf buf n txt ! (n + length txt) = CHR 0x00"
proof -
  have "length txt - (length buf - Suc n) = 0" "min (length txt) (length buf - Suc n) = length txt" using assms by auto
  then show "length (snprintf buf n txt) = length buf" "take (n + length txt) (snprintf buf n txt) = take n buf @ txt"
    and "snprintf buf n txt ! (n + length txt) = CHR 0x00"
    using assms by (auto simp: snprintf_def Let_def nth_append)
qed

text \<open>The names with a bar between them.\<close>

fun alg_text :: "string list \<Rightarrow> string" where
  "alg_text [] = []"
| "alg_text (x # names) = (if names = [] then x else x @ ''|'') @ alg_text names"

lemma usage_loop_text:
  assumes "n + length (alg_text names) < length buf" and "names \<noteq> []"
  shows "\<exists>buf1. usage_loop names buf n tn = (buf1, n + length (alg_text names), tn + length (alg_text names))
    \<and> length buf1 = length buf \<and> take (n + length (alg_text names)) buf1 = take n buf @ alg_text names
    \<and> buf1 ! (n + length (alg_text names)) = CHR 0x00"
  using assms
proof (induction names arbitrary: buf n tn)
  case (Cons x names)
  let ?t = "if names = [] then x else x @ ''|''"
  have f: "n + length ?t < length buf" and l: "length ?t < length buf - n" using Cons.prems by auto
  note s = snprintf_fits [OF f]
  show ?case
  proof (cases "names = []")
    case True
    then show ?thesis using s l by (simp add: Let_def)
  next
    case False
    have "n + length ?t + length (alg_text names) < length (snprintf buf n ?t)" using Cons.prems by (simp only: s(1)) simp
    from Cons.IH [OF this False, of "tn + length ?t"] show ?thesis using s(1,2) l
      by (auto simp: Let_def False add.assoc)
  qed
qed simp

text \<open>A buffer with room for the list holds it, ended by a NUL, and the result is its length.\<close>

lemma usage_acl_alg_text:
  assumes "alg_text acl_alg_names = txt" "length txt < length buf"
  shows "\<exists>rest. usage_acl_alg buf = (txt @ CHR 0x00 # rest, length txt)"
proof -
  obtain buf1 where b: "usage_loop acl_alg_names buf 0 0 = (buf1, length txt, length txt)" "take (length txt) buf1 = txt"
      "buf1 ! length txt = CHR 0x00" "length buf1 = length buf"
  proof -
    have "acl_alg_names \<noteq> []" by (simp add: acl_alg_names_def)
    with usage_loop_text [of 0 acl_alg_names buf 0, unfolded assms(1) add_0 take_0 append_Nil] assms(2) that show ?thesis by blast
  qed
  have "buf1 = take (length txt) buf1 @ buf1 ! length txt # drop (Suc (length txt)) buf1"
    by (rule id_take_nth_drop) (simp add: b(4) assms(2))
  note e = this [unfolded b(2,3)]
  have "usage_acl_alg buf = (buf1, length txt)" by (simp add: usage_acl_alg_def b(1))
  then show ?thesis by (subst (asm) e) blast
qed

lemma alg_text_all: "alg_text acl_alg_names = ''scalar|sse|avx2|neon|altivec|avx512x16|avx512x32''"
  by (simp add: acl_alg_names_def)

end
