(* ===== verification/Rss_Verify.thy ===== *)
theory Rss_Verify
  imports Prelude Complex_Main
begin

text \<open>
  The receive side scaling check \<open>rss_verify/rss_verify.c\<close>: the set-up of the port, one polling lcore for each of
  four receive queues, and the main lcore that reads their counters and prints them. The lcores run in any
  interleaving; a step is one access to the shared counters. Percentages, which the code computes in floating point, are
  real numbers here; of the rates only the differences they are computed from are modelled.
\<close>

section \<open>Set-up of the port\<close>

definition RX_PORT :: nat where "RX_PORT = 0"
definition NB_QUEUES :: nat where "NB_QUEUES = 4"
definition NB_RXDESC :: nat where "NB_RXDESC = 1024"
definition BURST_SIZE :: nat where "BURST_SIZE = 32"

text \<open>What the library answers; \<open>rve_rss_hf\<close> are the hash types the program asks for, \<open>rve_info\<close> is the return code
  and the hash types the device knows.\<close>

record rv_env =
  rve_eal :: int
  rve_ports :: nat
  rve_pool :: bool
  rve_rss_hf :: u64
  rve_info :: "int \<times> u64"
  rve_configure :: "u64 \<Rightarrow> int"
  rve_rxq :: "nat \<Rightarrow> int"
  rve_txq :: int
  rve_start :: int
  rve_lcore_count :: nat
  rve_workers :: "nat list"

datatype rv_call =
    Rv_configure nat nat nat u64
  | Rv_rx_queue nat nat nat
  | Rv_tx_queue nat nat nat
  | Rv_start nat
  | Rv_promiscuous nat

fun rv_rx_queues :: "rv_env \<Rightarrow> nat \<Rightarrow> nat list \<Rightarrow> rv_call list \<Rightarrow> int \<times> rv_call list" where
  "rv_rx_queues E port [] tr = (0, tr)"
| "rv_rx_queues E port (q # qs) tr =
     (let ret = rve_rxq E q
      in if ret \<noteq> 0 then (ret, tr) else rv_rx_queues E port qs (tr @ [Rv_rx_queue port q NB_RXDESC]))"

definition rv_init_port :: "rv_env \<Rightarrow> nat \<Rightarrow> int \<times> rv_call list" where
  "rv_init_port E port =
     (let (ret, offloads) = rve_info E; rss_hf = rve_rss_hf E AND offloads
      in if ret \<noteq> 0 then (ret, [])
         else if rve_configure E rss_hf \<noteq> 0 then (rve_configure E rss_hf, [])
         else let (ret, tr) = rv_rx_queues E port [0..<NB_QUEUES] [Rv_configure port NB_QUEUES 1 rss_hf]
              in if ret \<noteq> 0 then (ret, tr)
                 else if rve_txq E \<noteq> 0 then (rve_txq E, tr)
                 else if rve_start E \<noteq> 0 then (rve_start E, tr @ [Rv_tx_queue port 0 512])
                 else (0, tr @ [Rv_tx_queue port 0 512, Rv_start port, Rv_promiscuous port]))"

section \<open>The launch\<close>

text \<open>The worker lcores in their order, each with the queue it polls.\<close>

fun rv_assign :: "nat list \<Rightarrow> nat \<Rightarrow> (nat \<times> u16) list" where
  "rv_assign [] queue_idx = []"
| "rv_assign (lcore_id # ls) queue_idx =
     (if NB_QUEUES \<le> queue_idx then [] else (lcore_id, of_nat queue_idx) # rv_assign ls (queue_idx + 1))"

definition rv_main :: "rv_env \<Rightarrow> string + rv_call list \<times> (nat \<times> u16) list" where
  "rv_main E =
     (if rve_eal E < 0 then Inl ''rte_eal_init''
      else if (of_nat (rve_ports E) :: u16) < 1 then Inl ''no port''
      else if \<not> rve_pool E then Inl ''mbuf pool''
      else let (ret, tr) = rv_init_port E RX_PORT
           in if ret \<noteq> 0 then Inl ''init_port''
              else if unat (of_nat (rve_lcore_count E) :: u16) < NB_QUEUES + 1 then Inl ''not enough lcores''
              else Inr (tr, rv_assign (rve_workers E) 0))"

section \<open>Counters and threads\<close>

record queue_stats =
  qs_packets :: u64
  qs_bytes :: u64
  qs_last :: u64

text \<open>Where a polling lcore is: at the test of \<open>force_quit\<close>, at the burst, before it counts the packets of a burst,
  or in the loop that counts their bytes and frees them.\<close>

datatype rv_worker = W_test | W_burst | W_packets "u32 list" | W_bytes "u32 list" | W_done

text \<open>Where the main lcore is; each access to a counter is a step of its own. \<open>M_pct q total pps\<close> has the
  difference for the rate, \<open>M_print q total pps num\<close> also the number of packets the percentage is made of.\<close>

datatype rv_main_pc =
    M_test
  | M_total nat u64
  | M_rate nat u64
  | M_pct nat u64 u64
  | M_print nat u64 u64 u64
  | M_last nat u64
  | M_wait
  | M_final nat u64
  | M_done

text \<open>A printed line: queue, packets, bytes, difference for the rate, numerator and denominator of the percentage; the
  lines of the final report have queue, packets and the denominator of the percentage.\<close>

datatype rv_row = Row nat u64 u64 u64 u64 u64 | Final nat u64 u64

text \<open>\<open>rv_recv\<close> and \<open>rv_freed\<close> keep the lengths of the packets a queue has delivered, and how many were freed.\<close>

text \<open>The percentage of a line, over the real numbers: \<open>total > 0 ? (double)n / total * 100.0 : 0.0\<close>.\<close>

definition rv_pct :: "u64 \<Rightarrow> u64 \<Rightarrow> real" where
  "rv_pct n tot = (if 0 < tot then real (unat n) / real (unat tot) * 100 else 0)"

fun row_pct :: "rv_row \<Rightarrow> real" where
  "row_pct (Row q n b pps num tot) = rv_pct num tot"
| "row_pct (Final q n tot) = rv_pct n tot"

lemma rv_pct_self: "rv_pct n n = (if n = 0 then 0 else 100)"
proof -
  have "n \<noteq> 0 \<Longrightarrow> unat n \<noteq> 0" by (simp add: unat_eq_zero)
  then show ?thesis by (cases "n = 0") (simp_all add: rv_pct_def word_gt_0 del: of_nat_unat)
qed

record rv =
  rv_stats :: "nat \<Rightarrow> queue_stats"
  rv_quit :: bool
  rv_w :: "nat \<Rightarrow> rv_worker"
  rv_m :: rv_main_pc
  rv_recv :: "nat \<Rightarrow> u32 list"
  rv_freed :: "nat \<Rightarrow> nat"
  rv_rows :: "rv_row list"

definition rv_init :: rv where
  "rv_init = \<lparr>rv_stats = (\<lambda>_. \<lparr>qs_packets = 0, qs_bytes = 0, qs_last = 0\<rparr>), rv_quit = False, rv_w = (\<lambda>_. W_test), rv_m = M_test,
     rv_recv = (\<lambda>_. []), rv_freed = (\<lambda>_. 0), rv_rows = []\<rparr>"

definition rv_to :: "nat \<Rightarrow> rv_worker \<Rightarrow> rv \<Rightarrow> rv" where
  "rv_to q pc s = s\<lparr>rv_w := (rv_w s)(q := pc)\<rparr>"

definition rv_put :: "nat \<Rightarrow> queue_stats \<Rightarrow> rv \<Rightarrow> rv" where
  "rv_put q st s = s\<lparr>rv_stats := (rv_stats s)(q := st)\<rparr>"

text \<open>A step of the lcore of queue \<open>q\<close>; \<open>pkts\<close> is what the driver has for a burst.\<close>

definition rx_loop :: "nat \<Rightarrow> u32 list \<Rightarrow> rv \<Rightarrow> rv" where
  "rx_loop q pkts s =
     (let st = rv_stats s q
      in case rv_w s q of
           W_test \<Rightarrow> rv_to q (if rv_quit s then W_done else W_burst) s
         | W_burst \<Rightarrow>
             let ps = take BURST_SIZE pkts
             in rv_to q (if ps = [] then W_test else W_packets ps) (s\<lparr>rv_recv := (rv_recv s)(q := rv_recv s q @ ps)\<rparr>)
         | W_packets ps \<Rightarrow> rv_to q (W_bytes ps) (rv_put q (st\<lparr>qs_packets := qs_packets st + of_nat (length ps)\<rparr>) s)
         | W_bytes ps \<Rightarrow>
             (case ps of
                [] \<Rightarrow> rv_to q W_test s
              | p # ps' \<Rightarrow> rv_to q (W_bytes ps')
                  (rv_put q (st\<lparr>qs_bytes := qs_bytes st + ucast p\<rparr>) (s\<lparr>rv_freed := (rv_freed s)(q := rv_freed s q + 1)\<rparr>)))
         | W_done \<Rightarrow> s)"

text \<open>A step of the main lcore: \<open>print_stats_loop\<close>, the wait for the workers and the final report.\<close>

definition print_stats :: "rv \<Rightarrow> rv" where
  "print_stats s =
     (case rv_m s of
        M_test \<Rightarrow> s\<lparr>rv_m := (if rv_quit s then M_wait else M_total 0 0)\<rparr>
      | M_total q tot \<Rightarrow>
          s\<lparr>rv_m := (if q < NB_QUEUES then M_total (q + 1) (tot + qs_packets (rv_stats s q)) else M_rate 0 tot)\<rparr>
      | M_rate q tot \<Rightarrow>
          s\<lparr>rv_m := (if q < NB_QUEUES then M_pct q tot (qs_packets (rv_stats s q) - qs_last (rv_stats s q)) else M_test)\<rparr>
      | M_pct q tot pps \<Rightarrow> s\<lparr>rv_m := M_print q tot pps (qs_packets (rv_stats s q))\<rparr>
      | M_print q tot pps num \<Rightarrow>
          s\<lparr>rv_m := M_last q tot,
            rv_rows := rv_rows s @ [Row q (qs_packets (rv_stats s q)) (qs_bytes (rv_stats s q)) pps num tot]\<rparr>
      | M_last q tot \<Rightarrow> (rv_put q ((rv_stats s q)\<lparr>qs_last := qs_packets (rv_stats s q)\<rparr>) s)\<lparr>rv_m := M_rate (q + 1) tot\<rparr>
      | M_wait \<Rightarrow> if list_all (\<lambda>q. rv_w s q = W_done) [0..<NB_QUEUES] then s\<lparr>rv_m := M_final 0 0\<rparr> else s
      | M_final q tot \<Rightarrow>
          (if q < NB_QUEUES
           then let tot = tot + qs_packets (rv_stats s q)
                in s\<lparr>rv_m := M_final (q + 1) tot, rv_rows := rv_rows s @ [Final q (qs_packets (rv_stats s q)) tot]\<rparr>
           else s\<lparr>rv_m := M_done\<rparr>)
      | M_done \<Rightarrow> s)"

text \<open>The bar next to a percentage: \<open>bar_len\<close> may be any number, the array has 24 characters.\<close>

function rv_bar_loop :: "int \<Rightarrow> int \<Rightarrow> string \<Rightarrow> string" where
  "rv_bar_loop bar_len b bar =
     (if b < bar_len \<and> b < 20 then rv_bar_loop bar_len (b + 1) (bar[nat b := CHR ''#'']) else bar)"
  by pat_completeness auto
termination by (relation "measure (\<lambda>(_, b, _). nat (20 - b))") auto

definition rv_bar :: "int \<Rightarrow> string" where
  "rv_bar bar_len = rv_bar_loop bar_len 0 (replicate 24 (CHR 0x00))"

text \<open>The whole program after the launch, as a sequence of events.\<close>

datatype rv_event = Worker nat "u32 list" | Main | Signal

fun rv_step :: "rv_event \<Rightarrow> rv \<Rightarrow> rv" where
  "rv_step (Worker q pkts) s = (if q < NB_QUEUES then rx_loop q pkts s else s)"
| "rv_step Main s = print_stats s"
| "rv_step Signal s = s\<lparr>rv_quit := True\<rparr>"

definition rv_run :: "rv_event list \<Rightarrow> rv \<Rightarrow> rv" where
  "rv_run es s = fold rv_step es s"

section \<open>The set-up\<close>

lemma rv_rx_queues_ok:
  "rv_rx_queues E port qs tr =
     (case dropWhile (\<lambda>q. rve_rxq E q = 0) qs of
        [] \<Rightarrow> (0, tr @ map (\<lambda>q. Rv_rx_queue port q NB_RXDESC) qs)
      | q # _ \<Rightarrow> (rve_rxq E q, tr @ map (\<lambda>q. Rv_rx_queue port q NB_RXDESC) (takeWhile (\<lambda>q. rve_rxq E q = 0) qs)))"
  by (induction qs arbitrary: tr) (simp_all add: Let_def del: dropWhile_eq_Nil_conv split: list.split)

lemma rv_assign_zip: "rv_assign ls i = zip ls (map of_nat [i..<NB_QUEUES])"
proof (induction ls arbitrary: i)
  case (Cons l ls)
  then show ?case by (cases "i < NB_QUEUES") (simp_all add: upt_conv_Cons)
qed simp

text \<open>A set-up that returns 0 has made all its calls, in this order.\<close>

lemma rv_rx_queues_zero:
  "rv_rx_queues E port qs tr = (0, tr') \<Longrightarrow> tr' = tr @ map (\<lambda>q. Rv_rx_queue port q NB_RXDESC) qs"
proof (induction qs arbitrary: tr)
  case (Cons q qs)
  have "rv_rx_queues E port qs (tr @ [Rv_rx_queue port q NB_RXDESC]) = (0, tr')"
    using Cons.prems by (simp add: Let_def split: if_splits)
  from Cons.IH [OF this] show ?case by simp
qed simp

lemma rv_init_port_ok:
  assumes "rv_init_port E port = (0, tr)"
  shows "tr = Rv_configure port NB_QUEUES 1 (rve_rss_hf E AND snd (rve_info E)) # map (\<lambda>q. Rv_rx_queue port q NB_RXDESC) [0..<NB_QUEUES]
    @ [Rv_tx_queue port 0 512, Rv_start port, Rv_promiscuous port]"
proof -
  obtain ret offloads where i: "rve_info E = (ret, offloads)" by fastforce
  obtain r tr1 where q: "rv_rx_queues E port [0..<NB_QUEUES] [Rv_configure port NB_QUEUES 1 (rve_rss_hf E AND offloads)] = (r, tr1)"
    by fastforce
  have "r = 0" "tr = tr1 @ [Rv_tx_queue port 0 512, Rv_start port, Rv_promiscuous port]"
    using assms by (simp_all add: rv_init_port_def i q [simplified] Let_def split: if_splits)
  moreover from this q have "rv_rx_queues E port [0..<NB_QUEUES] [Rv_configure port NB_QUEUES 1 (rve_rss_hf E AND offloads)] = (0, tr1)" by blast
  from rv_rx_queues_zero [OF this] have "tr1 = Rv_configure port NB_QUEUES 1 (rve_rss_hf E AND offloads) # map (\<lambda>q. Rv_rx_queue port q NB_RXDESC) [0..<NB_QUEUES]" by simp
  ultimately show ?thesis by (simp add: i)
qed

section \<open>Counting\<close>

definition bytes_of :: "u32 list \<Rightarrow> u64" where
  "bytes_of ps = sum_list (map ucast ps)"

text \<open>The packets of the current burst that are not counted yet, and those whose bytes are not.\<close>

definition uncounted :: "rv_worker \<Rightarrow> nat" where
  "uncounted w = (case w of W_packets ps \<Rightarrow> length ps | _ \<Rightarrow> 0)"

definition in_hand :: "rv_worker \<Rightarrow> u32 list" where
  "in_hand w = (case w of W_packets ps \<Rightarrow> ps | W_bytes ps \<Rightarrow> ps | _ \<Rightarrow> [])"

definition queue_inv :: "rv \<Rightarrow> nat \<Rightarrow> bool" where
  "queue_inv s q \<longleftrightarrow>
     (\<exists>counted. rv_recv s q = counted @ in_hand (rv_w s q) \<and> rv_freed s q = length counted
        \<and> qs_bytes (rv_stats s q) = bytes_of counted
        \<and> qs_packets (rv_stats s q) + of_nat (uncounted (rv_w s q)) = of_nat (length (rv_recv s q))
        \<and> length (in_hand (rv_w s q)) \<le> BURST_SIZE)"

lemmas thread_defs = rv_to_def rv_put_def uncounted_def in_hand_def

lemma rx_loop_other: "q \<noteq> q' \<Longrightarrow> rv_recv (rx_loop q ps s) q' = rv_recv s q' \<and> rv_freed (rx_loop q ps s) q' = rv_freed s q'
    \<and> rv_stats (rx_loop q ps s) q' = rv_stats s q' \<and> rv_w (rx_loop q ps s) q' = rv_w s q'"
  by (cases "rv_w s q") (auto simp: rx_loop_def Let_def thread_defs split: list.split)

lemma rx_loop_main: "rv_m (rx_loop q ps s) = rv_m s \<and> rv_rows (rx_loop q ps s) = rv_rows s \<and> rv_quit (rx_loop q ps s) = rv_quit s
    \<and> qs_last (rv_stats (rx_loop q ps s) k) = qs_last (rv_stats s k)"
  by (cases "rv_w s q") (auto simp: rx_loop_def Let_def thread_defs split: list.split)

lemma rx_loop_inv:
  assumes "queue_inv s q"
  shows "queue_inv (rx_loop q ps s) q"
proof -
  obtain counted where c: "rv_recv s q = counted @ in_hand (rv_w s q)" "rv_freed s q = length counted"
      "qs_bytes (rv_stats s q) = bytes_of counted" "length (in_hand (rv_w s q)) \<le> BURST_SIZE"
      "qs_packets (rv_stats s q) + of_nat (uncounted (rv_w s q)) = of_nat (length (rv_recv s q))"
    using assms by (auto simp: queue_inv_def)
  show ?thesis
  proof (cases "rv_w s q")
    case (W_bytes pkts)
    show ?thesis
    proof (cases pkts)
      case (Cons p ps)
      with W_bytes c show ?thesis unfolding queue_inv_def
        by (intro exI [of _ "counted @ [p]"]) (simp add: rx_loop_def Let_def thread_defs bytes_of_def)
    next
      case Nil
      with W_bytes c show ?thesis unfolding queue_inv_def
        by (intro exI [of _ counted]) (simp add: rx_loop_def Let_def thread_defs)
    qed
  qed (use c in \<open>auto simp: queue_inv_def rx_loop_def Let_def thread_defs\<close>)
qed

lemma print_stats_workers:
  "rv_w (print_stats s) = rv_w s \<and> rv_recv (print_stats s) = rv_recv s \<and> rv_freed (print_stats s) = rv_freed s
    \<and> rv_quit (print_stats s) = rv_quit s
    \<and> qs_packets (rv_stats (print_stats s) q) = qs_packets (rv_stats s q) \<and> qs_bytes (rv_stats (print_stats s) q) = qs_bytes (rv_stats s q)"
  by (cases "rv_m s") (auto simp: print_stats_def rv_put_def Let_def)

lemma step_queue_inv: "queue_inv s q \<Longrightarrow> queue_inv (rv_step e s) q"
proof (cases e)
  case (Worker q' ps)
  assume "queue_inv s q"
  then show ?thesis using rx_loop_inv [of s q ps] rx_loop_other [of q' q ps s] Worker
    by (cases "q = q'") (simp_all add: queue_inv_def)
next
  case Main
  assume "queue_inv s q"
  then show ?thesis using Main print_stats_workers [of s q] by (simp add: queue_inv_def)
qed (simp add: queue_inv_def)

lemma run_invariant:
  assumes "I rv_init" and "\<And>e s. I s \<Longrightarrow> I (rv_step e s)"
  shows "I (rv_run es rv_init)"
proof -
  have "I s \<Longrightarrow> I (rv_run es s)" for s
    using assms(2) by (induction es arbitrary: s) (simp_all add: rv_run_def)
  then show ?thesis using assms(1) by blast
qed

lemma queue_inv_run: "queue_inv (rv_run es rv_init) q"
  by (rule run_invariant [where I = "\<lambda>s. queue_inv s q", OF _ step_queue_inv]) (simp add: queue_inv_def rv_init_def thread_defs bytes_of_def)

section \<open>The final report\<close>

definition finals :: "rv_row list \<Rightarrow> rv_row list" where
  "finals rows = filter (\<lambda>r. case r of Final q n tot \<Rightarrow> True | _ \<Rightarrow> False) rows"

definition total_to :: "rv \<Rightarrow> nat \<Rightarrow> u64" where
  "total_to s q = (\<Sum>k<q. qs_packets (rv_stats s k))"

definition report :: "rv \<Rightarrow> nat \<Rightarrow> rv_row list" where
  "report s n = map (\<lambda>q. Final q (qs_packets (rv_stats s q)) (total_to s (q + 1))) [0..<n]"

definition final_inv :: "rv \<Rightarrow> bool" where
  "final_inv s \<longleftrightarrow>
     (case rv_m s of
        M_final q tot \<Rightarrow> (\<forall>k < NB_QUEUES. rv_w s k = W_done) \<and> q \<le> NB_QUEUES \<and> tot = total_to s q \<and> finals (rv_rows s) = report s q
      | M_done \<Rightarrow> (\<forall>k < NB_QUEUES. rv_w s k = W_done) \<and> finals (rv_rows s) = report s NB_QUEUES
      | _ \<Rightarrow> finals (rv_rows s) = [])"

lemma rx_loop_done: "rv_w s q = W_done \<Longrightarrow> rx_loop q ps s = s"
  by (simp add: rx_loop_def Let_def)

lemma step_final_inv: "final_inv s \<Longrightarrow> final_inv (rv_step e s)"
proof (cases e)
  case (Worker q ps)
  assume i: "final_inv s"
  show ?thesis
  proof (cases "(\<exists>k t. rv_m s = M_final k t) \<or> rv_m s = M_done")
    case True
    then have "\<forall>k < NB_QUEUES. rv_w s k = W_done" using i by (auto simp: final_inv_def)
    then show ?thesis using i Worker by (simp add: rx_loop_done)
  next
    case False
    then show ?thesis using i Worker rx_loop_main [of q ps s]
      by (cases "rv_m s") (simp_all add: final_inv_def)
  qed
next
  case Main
  assume i: "final_inv s"
  have fin: "finals (rows @ [Final q n tot]) = finals rows @ [Final q n tot]" "finals (rows @ [Row q n b d k tot]) = finals rows" for rows q n tot b d k
    by (simp_all add: finals_def)
  show ?thesis
  proof (cases "rv_m s")
    case (M_final q tot)
    then show ?thesis using i Main
      by (auto simp: final_inv_def print_stats_def Let_def fin report_def total_to_def)
  qed (use i Main in \<open>auto simp: final_inv_def print_stats_def Let_def fin report_def total_to_def rv_put_def list_all_iff\<close>)
next
  case Signal
  assume "final_inv s"
  then show ?thesis using Signal by (cases "rv_m s") (simp_all add: final_inv_def report_def total_to_def)
qed

lemma final_inv_run: "final_inv (rv_run es rv_init)"
  by (rule run_invariant [where I = final_inv, OF _ step_final_inv]) (simp add: final_inv_def rv_init_def finals_def)

lemma bar_length: "length (rv_bar_loop n b bar) = length bar"
  by (induction n b bar rule: rv_bar_loop.induct) (subst rv_bar_loop.simps, simp)

text \<open>Whatever the length of the bar, it stays inside its array, and the terminating zero stays too.\<close>

lemma rv_bar_loop_fits:
  assumes "0 \<le> b" and "20 < length bar" and "k \<ge> 20" and "k < length bar"
  shows "rv_bar_loop n b bar ! k = bar ! k"
  using assms
proof (induction n b bar rule: rv_bar_loop.induct)
  case (1 n b bar)
  show ?case
  proof (cases "b < n \<and> b < 20")
    case True
    then have "nat b < 20" using 1(2) by (simp add: nat_less_iff)
    then show ?thesis using 1 True by (subst rv_bar_loop.simps) simp
  next
    case False
    then show ?thesis by (subst rv_bar_loop.simps) (simp only: if_False)
  qed
qed

section \<open>Properties\<close>

text \<open>C36. The counters of a queue, for every interleaving of the polling lcores, the main lcore and the signal: the packets
  received so far are those that are counted and freed, in order, and at most one burst still in hand; the byte counter is
  the sum over the counted ones; the packet counter has all received packets, or all but those in hand. No lcore
  disturbs the counters of another, and an lcore that has ended has nothing in hand.\<close>

theorem rss_counters:
  "let s = rv_run es rv_init in \<exists>counted hand. rv_recv s q = counted @ hand \<and> length hand \<le> BURST_SIZE
    \<and> rv_freed s q = length counted \<and> qs_bytes (rv_stats s q) = bytes_of counted
    \<and> (qs_packets (rv_stats s q) = of_nat (length (rv_recv s q)) \<or> qs_packets (rv_stats s q) = of_nat (length counted))
    \<and> (if rv_w s q = W_done then hand = [] \<and> qs_packets (rv_stats s q) = of_nat (length (rv_recv s q)) else True)"
proof -
  let ?s = "rv_run es rv_init" and ?w = "rv_w (rv_run es rv_init) q"
  obtain counted where c: "rv_recv ?s q = counted @ in_hand ?w" "rv_freed ?s q = length counted"
      "qs_bytes (rv_stats ?s q) = bytes_of counted" "length (in_hand ?w) \<le> BURST_SIZE"
      "qs_packets (rv_stats ?s q) + of_nat (uncounted ?w) = of_nat (length (rv_recv ?s q))"
    using queue_inv_run [of es q] by (auto simp: queue_inv_def)
  have "qs_packets (rv_stats ?s q) = of_nat (length (rv_recv ?s q)) \<or> qs_packets (rv_stats ?s q) = of_nat (length counted)"
    using c(1,5) by (cases ?w) (auto simp: uncounted_def in_hand_def)
  moreover have "?w = W_done \<Longrightarrow> in_hand ?w = [] \<and> qs_packets (rv_stats ?s q) = of_nat (length (rv_recv ?s q))"
    using c(1,5) by (simp add: uncounted_def in_hand_def)
  ultimately show ?thesis unfolding Let_def using c
    by (intro exI [of _ counted] exI [of _ "in_hand ?w"]) simp
qed

text \<open>C37. The final report comes after all lcores have ended and shows for every queue exactly the packets it received, all of
  them freed. The denominator of its percentage is the sum over the queues up to this one only, since the total is still
  being added up in the same loop. So the first queue is shown as 100 percent when it received anything, whatever
  the other queues received, and as 0 percent when it received nothing (counts are taken modulo \<open>2 ^ 64\<close>).\<close>

theorem rss_final_report:
  assumes "rv_m (rv_run es rv_init) = M_done"
  shows "finals (rv_rows (rv_run es rv_init)) =
      map (\<lambda>q. Final q (of_nat (length (rv_recv (rv_run es rv_init) q)))
                  (\<Sum>k<q + 1. of_nat (length (rv_recv (rv_run es rv_init) k)))) [0..<4]
    \<and> row_pct (hd (finals (rv_rows (rv_run es rv_init))))
        = (if (of_nat (length (rv_recv (rv_run es rv_init) 0)) :: u64) = 0 then 0 else 100)
    \<and> (\<forall>q < 4. rv_freed (rv_run es rv_init) q = length (rv_recv (rv_run es rv_init) q))"
proof -
  let ?s = "rv_run es rv_init"
  have f: "\<forall>k < NB_QUEUES. rv_w ?s k = W_done" "finals (rv_rows ?s) = report ?s NB_QUEUES"
    using final_inv_run [of es] assms by (simp_all add: final_inv_def)
  have n: "qs_packets (rv_stats ?s q) = of_nat (length (rv_recv ?s q)) \<and> rv_freed ?s q = length (rv_recv ?s q)" if "q < 4" for q
    using queue_inv_run [of es q] f(1) that by (auto simp: queue_inv_def NB_QUEUES_def uncounted_def in_hand_def)
  have "total_to ?s (q + 1) = (\<Sum>k<q + 1. of_nat (length (rv_recv ?s k)))" if "q < 4" for q
    unfolding total_to_def by (rule sum.cong) (use n that in auto)
  then have "report ?s NB_QUEUES = map (\<lambda>q. Final q (of_nat (length (rv_recv ?s q)))
      (\<Sum>k<q + 1. of_nat (length (rv_recv ?s k)))) [0..<4]"
    unfolding report_def NB_QUEUES_def using n by (auto intro!: map_cong)
  moreover from this have "row_pct (hd (report ?s NB_QUEUES)) = (if (of_nat (length (rv_recv ?s 0)) :: u64) = 0 then 0 else 100)"
    by (simp add: upt_rec rv_pct_self)
  ultimately show ?thesis unfolding f(2) using n by simp
qed

definition rss_run_ex :: "rv_event list" where
  "rss_run_ex = replicate 6 Main @ [Main, Worker 0 [], Worker 0 [64, 128], Worker 0 []] @ replicate 16 Main
     @ concat (map (\<lambda>e. [e, e, e]) [Worker 0 []]) @ [Worker 1 [], Worker 1 [60], Worker 1 [], Worker 1 [], Worker 1 []]
     @ [Signal, Worker 0 [], Worker 1 [], Worker 2 [], Worker 3 []] @ replicate 40 Main"

theorem rss_final_report_witness:
  "finals (rv_rows (rv_run rss_run_ex rv_init)) = [Final 0 2 2, Final 1 1 3, Final 2 0 3, Final 3 0 3]
    \<and> row_pct (hd (finals (rv_rows (rv_run rss_run_ex rv_init)))) = 100"
proof -
  have "rv_m (rv_run rss_run_ex rv_init) = M_done" by code_simp
  note r = rss_final_report [OF this]
  have f: "finals (rv_rows (rv_run rss_run_ex rv_init)) = [Final 0 2 2, Final 1 1 3, Final 2 0 3, Final 3 0 3]"
    using r [THEN conjunct1] by code_simp
  have "length (rv_recv (rv_run rss_run_ex rv_init) 0) = 2" by code_simp
  with r [THEN conjunct2, THEN conjunct1] have "row_pct (hd (finals (rv_rows (rv_run rss_run_ex rv_init)))) = 100" by simp
  with f show ?thesis by blast
qed

definition rate_run :: "rv_event list" where
  "rate_run = replicate 7 Main @ [Worker 0 [], Worker 0 [64], Worker 0 [], Worker 0 [], Worker 0 []] @ replicate 16 Main"

definition rows_of :: "nat \<Rightarrow> rv \<Rightarrow> rv_row list" where
  "rows_of k s = filter (\<lambda>r. case r of Row q n b pps num tot \<Rightarrow> q = k | Final q n tot \<Rightarrow> False) (rv_rows s)"

text \<open>The rates of the live report miss packets. The difference for the rate is computed from one read of the counter and
  \<open>last_packets\<close> is set from a later one, so a packet that is counted between the two is in no difference: a run has received
  a packet, shown in a line, while all the differences ever shown for the queue are 0 and will stay so without new packets.\<close>

lemma rss_rate_misses_packets:
  "\<exists>es. let s = rv_run es rv_init in rv_m s = M_test \<and> rv_recv s 0 = [64]
    \<and> qs_packets (rv_stats s 0) = 1 \<and> qs_last (rv_stats s 0) = 1 \<and> rows_of 0 s = [Row 0 1 64 0 1 0]"
proof -
  have 1: "rv_m (rv_run rate_run rv_init) = M_test" by code_simp
  have 2: "rv_recv (rv_run rate_run rv_init) 0 = [64]" by code_simp
  have 3: "qs_packets (rv_stats (rv_run rate_run rv_init) 0) = 1" by code_simp
  have 4: "qs_last (rv_stats (rv_run rate_run rv_init) 0) = 1" by code_simp
  have 5: "rows_of 0 (rv_run rate_run rv_init) = [Row 0 1 64 0 1 0]" by code_simp
  show ?thesis unfolding Let_def by (intro exI [of _ rate_run] conjI 1 2 3 4 5)
qed

text \<open>When the program gets to the launch, the port has four receive queues, set up with the hash types that both the
  program and the device know, it is started, and each queue is polled by exactly one worker lcore and no other.\<close>

lemma rss_launch:
  assumes "rv_main E = Inr (tr, ws)" and "rve_lcore_count E = length (rve_workers E) + 1" and "distinct (rve_workers E)"
    and "length (rve_workers E) < 0xffff"
  shows "map snd ws = [0, 1, 2, 3] \<and> distinct (map fst ws) \<and> set (map fst ws) \<subseteq> set (rve_workers E)
    \<and> tr = [Rv_configure 0 4 1 (rve_rss_hf E AND snd (rve_info E))] @ map (\<lambda>q. Rv_rx_queue 0 q 1024) [0, 1, 2, 3]
         @ [Rv_tx_queue 0 0 512, Rv_start 0, Rv_promiscuous 0]"
proof -
  have p: "rv_init_port E RX_PORT = (0, tr)" and w: "ws = rv_assign (rve_workers E) 0"
    and n: "\<not> unat (of_nat (rve_lcore_count E) :: u16) < NB_QUEUES + 1"
    using assms(1) by (auto simp: rv_main_def Let_def split: if_splits prod.splits)
  have "unat (of_nat (length (rve_workers E) + 1) :: u16) = length (rve_workers E) + 1" using assms(4) by (simp only: unat_of_nat) simp
  then have "4 \<le> length (rve_workers E)" using n by (simp only: assms(2) NB_QUEUES_def)
  then obtain a b c d ls where ls: "rve_workers E = a # b # c # d # ls"
    by (auto simp: numeral_eq_Suc Suc_le_length_iff)
  have ws: "ws = [(a, 0), (b, 1), (c, 2), (d, 3)]"
    by (simp add: w ls rv_assign_zip NB_QUEUES_def upt_rec)
  have q: "[0..<NB_QUEUES] = [0, 1, 2, 3]" by (simp add: NB_QUEUES_def upt_rec)
  have tr: "tr = [Rv_configure 0 4 1 (rve_rss_hf E AND snd (rve_info E))] @ map (\<lambda>q. Rv_rx_queue 0 q 1024) [0, 1, 2, 3]
         @ [Rv_tx_queue 0 0 512, Rv_start 0, Rv_promiscuous 0]"
    using rv_init_port_ok [OF p] by (simp add: RX_PORT_def q NB_RXDESC_def) (simp add: NB_QUEUES_def)
  show ?thesis using assms(3) tr by (simp add: ws ls)
qed

definition rv_env_ex :: rv_env where
  "rv_env_ex = \<lparr>rve_eal = 3, rve_ports = 1, rve_pool = True, rve_rss_hf = 0xf0f, rve_info = (0, 0x38f), rve_configure = (\<lambda>_. 0),
     rve_rxq = (\<lambda>_. 0), rve_txq = 0, rve_start = 0, rve_lcore_count = 6, rve_workers = [1, 2, 3, 4, 5]\<rparr>"

end
