(* ===== verification/X710_Check.thy ===== *)
theory X710_Check
  imports Prelude
begin

text \<open>
  The feature check of a network card, \<open>x710_check/x710_check.c\<close>: what the device reports is compared with
  tables of what an X710 should have. The values of the flags are those of the library, a parameter \<open>F\<close> from their
  names.
\<close>

section \<open>The tables\<close>

definition X710_SPEC_MAX_RX_QUEUES :: u16 where "X710_SPEC_MAX_RX_QUEUES = 64"
definition X710_SPEC_MAX_TX_QUEUES :: u16 where "X710_SPEC_MAX_TX_QUEUES = 64"
definition X710_SPEC_RETA_SIZE :: u16 where "X710_SPEC_RETA_SIZE = 512"

text \<open>A row: flag, name, whether an X710 should have it.\<close>

type_synonym feature = "u64 \<times> string \<times> bool"

definition rss_types :: "(string \<Rightarrow> u64) \<Rightarrow> feature list" where
  "rss_types F =
    [(F ''RTE_ETH_RSS_IPV4'', ''ipv4'', True),
     (F ''RTE_ETH_RSS_FRAG_IPV4'', ''ipv4-frag'', True),
     (F ''RTE_ETH_RSS_NONFRAG_IPV4_TCP'', ''ipv4-tcp'', True),
     (F ''RTE_ETH_RSS_NONFRAG_IPV4_UDP'', ''ipv4-udp'', True),
     (F ''RTE_ETH_RSS_NONFRAG_IPV4_SCTP'', ''ipv4-sctp'', True),
     (F ''RTE_ETH_RSS_NONFRAG_IPV4_OTHER'', ''ipv4-other'', True),
     (F ''RTE_ETH_RSS_IPV6'', ''ipv6'', True),
     (F ''RTE_ETH_RSS_FRAG_IPV6'', ''ipv6-frag'', True),
     (F ''RTE_ETH_RSS_NONFRAG_IPV6_TCP'', ''ipv6-tcp'', True),
     (F ''RTE_ETH_RSS_NONFRAG_IPV6_UDP'', ''ipv6-udp'', True),
     (F ''RTE_ETH_RSS_NONFRAG_IPV6_SCTP'', ''ipv6-sctp'', True),
     (F ''RTE_ETH_RSS_NONFRAG_IPV6_OTHER'', ''ipv6-other'', True),
     (F ''RTE_ETH_RSS_L2_PAYLOAD'', ''l2-payload'', False),
     (F ''RTE_ETH_RSS_IPV6_EX'', ''ipv6-ex'', False),
     (F ''RTE_ETH_RSS_IPV6_TCP_EX'', ''ipv6-tcp-ex'', False),
     (F ''RTE_ETH_RSS_IPV6_UDP_EX'', ''ipv6-udp-ex'', False),
     (F ''RTE_ETH_RSS_PORT'', ''port'', False),
     (F ''RTE_ETH_RSS_VXLAN'', ''vxlan'', False),
     (F ''RTE_ETH_RSS_GENEVE'', ''geneve'', False),
     (F ''RTE_ETH_RSS_NVGRE'', ''nvgre'', False)]"

definition rx_offloads :: "(string \<Rightarrow> u64) \<Rightarrow> feature list" where
  "rx_offloads F =
    [(F ''RTE_ETH_RX_OFFLOAD_VLAN_STRIP'', ''vlan-strip'', True),
     (F ''RTE_ETH_RX_OFFLOAD_IPV4_CKSUM'', ''ipv4-cksum'', True),
     (F ''RTE_ETH_RX_OFFLOAD_UDP_CKSUM'', ''udp-cksum'', True),
     (F ''RTE_ETH_RX_OFFLOAD_TCP_CKSUM'', ''tcp-cksum'', True),
     (F ''RTE_ETH_RX_OFFLOAD_TCP_LRO'', ''tcp-lro'', False),
     (F ''RTE_ETH_RX_OFFLOAD_QINQ_STRIP'', ''qinq-strip'', False),
     (F ''RTE_ETH_RX_OFFLOAD_OUTER_IPV4_CKSUM'', ''outer-ipv4-cksum'', True),
     (F ''RTE_ETH_RX_OFFLOAD_MACSEC_STRIP'', ''macsec-strip'', False),
     (F ''RTE_ETH_RX_OFFLOAD_VLAN_FILTER'', ''vlan-filter'', True),
     (F ''RTE_ETH_RX_OFFLOAD_VLAN_EXTEND'', ''vlan-extend'', False),
     (F ''RTE_ETH_RX_OFFLOAD_SCATTER'', ''scatter'', True),
     (F ''RTE_ETH_RX_OFFLOAD_TIMESTAMP'', ''timestamp'', False),
     (F ''RTE_ETH_RX_OFFLOAD_SECURITY'', ''security'', False),
     (F ''RTE_ETH_RX_OFFLOAD_KEEP_CRC'', ''keep-crc'', False),
     (F ''RTE_ETH_RX_OFFLOAD_RSS_HASH'', ''rss-hash'', True)]"

definition tx_offloads :: "(string \<Rightarrow> u64) \<Rightarrow> feature list" where
  "tx_offloads F =
    [(F ''RTE_ETH_TX_OFFLOAD_VLAN_INSERT'', ''vlan-insert'', True),
     (F ''RTE_ETH_TX_OFFLOAD_IPV4_CKSUM'', ''ipv4-cksum'', True),
     (F ''RTE_ETH_TX_OFFLOAD_UDP_CKSUM'', ''udp-cksum'', True),
     (F ''RTE_ETH_TX_OFFLOAD_TCP_CKSUM'', ''tcp-cksum'', True),
     (F ''RTE_ETH_TX_OFFLOAD_SCTP_CKSUM'', ''sctp-cksum'', True),
     (F ''RTE_ETH_TX_OFFLOAD_TCP_TSO'', ''tcp-tso'', True),
     (F ''RTE_ETH_TX_OFFLOAD_UDP_TSO'', ''udp-tso'', False),
     (F ''RTE_ETH_TX_OFFLOAD_OUTER_IPV4_CKSUM'', ''outer-ipv4-cksum'', True),
     (F ''RTE_ETH_TX_OFFLOAD_QINQ_INSERT'', ''qinq-insert'', False),
     (F ''RTE_ETH_TX_OFFLOAD_VXLAN_TNL_TSO'', ''vxlan-tso'', True),
     (F ''RTE_ETH_TX_OFFLOAD_GRE_TNL_TSO'', ''gre-tso'', True),
     (F ''RTE_ETH_TX_OFFLOAD_IPIP_TNL_TSO'', ''ipip-tso'', False),
     (F ''RTE_ETH_TX_OFFLOAD_GENEVE_TNL_TSO'', ''geneve-tso'', True),
     (F ''RTE_ETH_TX_OFFLOAD_MACSEC_INSERT'', ''macsec-insert'', False),
     (F ''RTE_ETH_TX_OFFLOAD_MT_LOCKFREE'', ''mt-lockfree'', False),
     (F ''RTE_ETH_TX_OFFLOAD_MULTI_SEGS'', ''multi-segs'', True),
     (F ''RTE_ETH_TX_OFFLOAD_MBUF_FAST_FREE'', ''mbuf-fast-free'', True),
     (F ''RTE_ETH_TX_OFFLOAD_SECURITY'', ''security'', False)]"

section \<open>Comparing\<close>

datatype verdict = V_OK | V_NA | V_BONUS | V_MISS

definition feature_status :: "bool \<Rightarrow> bool \<Rightarrow> verdict" where
  "feature_status supported expected =
     (if supported \<and> expected then V_OK
      else if \<not> supported \<and> \<not> expected then V_NA
      else if supported \<and> \<not> expected then V_BONUS
      else V_MISS)"

text \<open>The helper \<open>print_check\<close>, which nothing calls, has another verdict for what is neither expected nor there.\<close>

definition print_check :: "bool \<Rightarrow> bool \<Rightarrow> verdict" where
  "print_check actual expected =
     (if actual \<and> expected then V_OK else if \<not> actual \<and> \<not> expected then V_OK
      else if actual \<and> \<not> expected then V_BONUS else V_MISS)"

text \<open>A printed line: verdict, name, whether the device has the feature and whether it should.\<close>

type_synonym feature_line = "verdict \<times> string \<times> bool \<times> bool"

text \<open>The loop of the three checks; \<open>show_all\<close> prints the rows that are neither expected nor supported, too.\<close>

fun feature_loop :: "bool \<Rightarrow> u64 \<Rightarrow> feature list \<Rightarrow> feature_line list \<times> int \<Rightarrow> feature_line list \<times> int" where
  "feature_loop show_all actual [] out = out"
| "feature_loop show_all actual ((flag, name, expected) # ts) out =
     (let supported = (actual AND flag \<noteq> 0); status = feature_status supported expected; (ls, miss_count) = out;
          miss_count = (if status = V_MISS then miss_count + 1 else miss_count);
          ls = (if show_all \<or> expected \<or> supported then ls @ [(status, name, supported, expected)] else ls)
      in feature_loop show_all actual ts (ls, miss_count))"

record x710_info =
  xi_driver :: string
  xi_max_rx_queues :: u16
  xi_max_tx_queues :: u16
  xi_reta_size :: u16
  xi_speed_capa :: u32
  xi_rss :: u64
  xi_rx_capa :: u64
  xi_tx_capa :: u64

definition check_rss :: "(string \<Rightarrow> u64) \<Rightarrow> x710_info \<Rightarrow> feature_line list \<times> int" where
  "check_rss F info = feature_loop False (xi_rss info) (rss_types F) ([], 0)"

definition check_rx_offloads :: "(string \<Rightarrow> u64) \<Rightarrow> x710_info \<Rightarrow> feature_line list \<times> int" where
  "check_rx_offloads F info = feature_loop True (xi_rx_capa info) (rx_offloads F) ([], 0)"

definition check_tx_offloads :: "(string \<Rightarrow> u64) \<Rightarrow> x710_info \<Rightarrow> feature_line list \<times> int" where
  "check_tx_offloads F info = feature_loop True (xi_tx_capa info) (tx_offloads F) ([], 0)"

definition check_queue_config :: "x710_info \<Rightarrow> (string \<times> u16 \<times> u16 \<times> bool) list" where
  "check_queue_config info =
     [(''Max RX queues'', xi_max_rx_queues info, X710_SPEC_MAX_RX_QUEUES, xi_max_rx_queues info \<ge> X710_SPEC_MAX_RX_QUEUES),
      (''Max TX queues'', xi_max_tx_queues info, X710_SPEC_MAX_TX_QUEUES, xi_max_tx_queues info \<ge> X710_SPEC_MAX_TX_QUEUES),
      (''RSS RETA size'', xi_reta_size info, X710_SPEC_RETA_SIZE, xi_reta_size info \<ge> X710_SPEC_RETA_SIZE)]"

text \<open>The link: \<open>ret\<close> of \<open>rte_eth_link_get_nowait\<close> is not looked at, so without an answer the values are what
  was on the stack, \<open>junk\<close>.\<close>

definition check_speed :: "(string \<Rightarrow> u64) \<Rightarrow> x710_info \<Rightarrow> 'link option \<Rightarrow> 'link \<Rightarrow> (bool \<times> string) list \<times> 'link" where
  "check_speed F info link junk =
     (map (\<lambda>(flag, name). (xi_speed_capa info AND ucast flag \<noteq> 0, name))
        [(F ''RTE_ETH_LINK_SPEED_1G'', ''1G''), (F ''RTE_ETH_LINK_SPEED_10G'', ''10G''), (F ''RTE_ETH_LINK_SPEED_25G'', ''25G''),
         (F ''RTE_ETH_LINK_SPEED_40G'', ''40G''), (F ''RTE_ETH_LINK_SPEED_100G'', ''100G'')],
      case link of None \<Rightarrow> junk | Some l \<Rightarrow> l)"

section \<open>The program\<close>

fun strstr :: "string \<Rightarrow> string \<Rightarrow> bool" where
  "strstr [] needle = (needle = [])"
| "strstr (c # cs) needle = (take (length needle) (c # cs) = needle \<or> strstr cs needle)"

record 'link x710_env =
  xe_flag :: "string \<Rightarrow> u64"
  xe_eal :: int
  xe_ports :: "nat list"
  xe_info :: "nat \<Rightarrow> x710_info option"
  xe_link :: "nat \<Rightarrow> 'link option"
  xe_junk :: "nat \<Rightarrow> 'link"

record 'link x710_report =
  xr_port :: nat
  xr_is_x710 :: bool
  xr_speed :: "(bool \<times> string) list \<times> 'link"
  xr_queues :: "(string \<times> u16 \<times> u16 \<times> bool) list"
  xr_rss :: "feature_line list \<times> int"
  xr_rx :: "feature_line list \<times> int"
  xr_tx :: "feature_line list \<times> int"

definition x710_port :: "'link x710_env \<Rightarrow> nat \<Rightarrow> 'link x710_report list" where
  "x710_port E port_id =
     (case xe_info E port_id of
        None \<Rightarrow> []
      | Some info \<Rightarrow>
          [\<lparr>xr_port = port_id, xr_is_x710 = strstr (xi_driver info) ''i40e'',
            xr_speed = check_speed (xe_flag E) info (xe_link E port_id) (xe_junk E port_id), xr_queues = check_queue_config info,
            xr_rss = check_rss (xe_flag E) info, xr_rx = check_rx_offloads (xe_flag E) info,
            xr_tx = check_tx_offloads (xe_flag E) info\<rparr>])"

text \<open>The exit status and the reports; \<open>nb_ports\<close> has 16 bits.\<close>

definition x710_main :: "'link x710_env \<Rightarrow> int \<times> 'link x710_report list" where
  "x710_main E =
     (if xe_eal E < 0 then (1, [])
      else if (of_nat (length (xe_ports E)) :: u16) = 0 then (1, [])
      else (0, concat (map (x710_port E) (xe_ports E))))"

section \<open>What the checks say\<close>

definition supports :: "u64 \<Rightarrow> feature \<Rightarrow> bool" where
  "supports actual t \<longleftrightarrow> actual AND fst t \<noteq> 0"

definition line_of :: "u64 \<Rightarrow> feature \<Rightarrow> feature_line" where
  "line_of actual t = (feature_status (supports actual t) (snd (snd t)), fst (snd t), supports actual t, snd (snd t))"

lemma feature_loop_lines:
  "feature_loop show_all actual ts (ls, n) =
     (ls @ map (line_of actual) (filter (\<lambda>t. show_all \<or> snd (snd t) \<or> supports actual t) ts),
      n + int (length (filter (\<lambda>t. snd (snd t) \<and> \<not> supports actual t) ts)))"
proof (induction show_all actual ts "(ls, n)" arbitrary: ls n rule: feature_loop.induct)
  case (2 show_all actual flag name expected ts)
  show ?case
    by (simp only: feature_loop.simps Let_def prod.case 2 [OF refl refl refl refl refl refl])
       (auto simp: line_of_def supports_def feature_status_def)
qed simp

text \<open>The bits an X710 should have.\<close>

definition spec_mask :: "feature list \<Rightarrow> u64" where
  "spec_mask ts = foldr (\<lambda>t m. if snd (snd t) then fst t OR m else m) ts 0"

definition one_bit :: "u64 \<Rightarrow> bool" where
  "one_bit f \<longleftrightarrow> (\<exists>k < 64. f = push_bit k 1)"

lemma and_one_bit: "one_bit f \<Longrightarrow> actual AND f \<noteq> 0 \<longleftrightarrow> f AND actual = f"
proof -
  assume "one_bit f"
  then obtain k where k: "k < 64" "f = 2 ^ k" by (auto simp: one_bit_def push_bit_eq_mult)
  have "bit (f AND actual) n = bit f n \<longleftrightarrow> (n \<noteq> k \<or> bit actual k)" for n
    using k(1) by (auto simp: k(2) bit_and_iff bit_exp_iff)
  then have "f AND actual = f \<longleftrightarrow> bit actual k" by (simp add: bit_eq_iff) (use k(1) in blast)
  then show ?thesis using and_exp_eq_0_iff_not_bit [of actual k] by (simp add: k(2))
qed

lemma spec_mask_covered:
  assumes "\<forall>t \<in> set ts. one_bit (fst t)"
  shows "spec_mask ts AND actual = spec_mask ts \<longleftrightarrow> (\<forall>t \<in> set ts. snd (snd t) \<longrightarrow> supports actual t)"
  using assms
proof (induction ts)
  case (Cons t ts)
  have split: "(a OR b) AND actual = a OR b \<longleftrightarrow> a AND actual = a \<and> b AND actual = b" for a b :: u64
    by (auto simp: bit_eq_iff bit_simps)
  have "fst t AND actual = fst t \<longleftrightarrow> supports actual t"
    using Cons.prems and_one_bit [of "fst t" actual] by (simp add: supports_def)
  moreover have "spec_mask (t # ts) = (if snd (snd t) then fst t OR spec_mask ts else spec_mask ts)" by (simp add: spec_mask_def)
  ultimately show ?case using Cons split by simp
qed (simp add: spec_mask_def)

lemmas x710_checks = check_rss_def check_rx_offloads_def check_tx_offloads_def

lemma table_conforms:
  assumes "\<forall>n. one_bit (F n)" and "\<forall>t \<in> set ts. fst t \<in> range F"
  shows "snd (feature_loop show_all actual ts ([], 0)) = 0 \<longleftrightarrow> spec_mask ts AND actual = spec_mask ts"
proof -
  have "\<forall>t \<in> set ts. one_bit (fst t)" using assms by auto
  from spec_mask_covered [OF this, of actual] show ?thesis
    by (simp add: feature_loop_lines filter_empty_conv)
qed

text \<open>Every port is reported once, in order, unless its information cannot be read.\<close>

lemma x710_main_reports:
  assumes "0 \<le> xe_eal E" and "length (xe_ports E) < 2 ^ 16" and "xe_ports E \<noteq> []"
  shows "fst (x710_main E) = 0 \<and> map xr_port (snd (x710_main E)) = filter (\<lambda>p. xe_info E p \<noteq> None) (xe_ports E)"
proof -
  have "(of_nat (length (xe_ports E)) :: u16) \<noteq> 0"
    using assms(2,3) by (auto simp: word_of_nat_eq_0_iff dest: dvd_imp_le)
  moreover have "map xr_port (concat (map (x710_port E) ps)) = filter (\<lambda>p. xe_info E p \<noteq> None) ps" for ps
    by (induction ps) (auto simp: x710_port_def split: option.split)
  ultimately show ?thesis using assms(1) by (simp add: x710_main_def)
qed

section \<open>Properties\<close>

text \<open>C38. What the three feature checks report. A table is said to conform, no row is a \<open>MISS\<close>, exactly when all the bits an
  X710 should have are set in what the device reports; the count of the warning is the number of \<open>MISS\<close> lines; each printed
  line is right about its row, in the order of the table, and the RSS check leaves out just the rows that are neither
  expected nor there. Each flag of the library is one bit.\<close>

theorem x710_conforms:
  assumes "\<forall>n. one_bit (F n)"
  shows "(snd (check_rss F info) = 0) = (spec_mask (rss_types F) AND xi_rss info = spec_mask (rss_types F))
    \<and> (snd (check_rx_offloads F info) = 0) = (spec_mask (rx_offloads F) AND xi_rx_capa info = spec_mask (rx_offloads F))
    \<and> (snd (check_tx_offloads F info) = 0) = (spec_mask (tx_offloads F) AND xi_tx_capa info = spec_mask (tx_offloads F))
    \<and> (\<forall>c \<in> {check_rss F info, check_rx_offloads F info, check_tx_offloads F info}.
         snd c = int (length (filter (\<lambda>l. fst l = V_MISS) (fst c))))
    \<and> fst (check_rx_offloads F info) = map (line_of (xi_rx_capa info)) (rx_offloads F)
    \<and> fst (check_tx_offloads F info) = map (line_of (xi_tx_capa info)) (tx_offloads F)
    \<and> fst (check_rss F info) = filter (\<lambda>l. fst l \<noteq> V_NA) (map (line_of (xi_rss info)) (rss_types F))"
proof -
  have miss: "fst (line_of a t) = V_MISS \<longleftrightarrow> snd (snd t) \<and> \<not> supports a t"
    and na: "fst (line_of a t) \<noteq> V_NA \<longleftrightarrow> snd (snd t) \<or> supports a t" for a t
    by (auto simp: line_of_def feature_status_def)
  have count: "snd (feature_loop b a ts ([], 0)) = int (length (filter (\<lambda>l. fst l = V_MISS) (fst (feature_loop b a ts ([], 0)))))" for b a ts
  proof -
    have "filter (\<lambda>t. (snd (snd t) \<and> \<not> supports a t) \<and> (b \<or> snd (snd t) \<or> supports a t)) ts = filter (\<lambda>t. snd (snd t) \<and> \<not> supports a t) ts"
      by (rule filter_cong) auto
    then show ?thesis by (simp add: feature_loop_lines filter_map comp_def miss conj_commute)
  qed
  have tabs: "\<forall>t \<in> set (rss_types F). fst t \<in> range F" "\<forall>t \<in> set (rx_offloads F). fst t \<in> range F" "\<forall>t \<in> set (tx_offloads F). fst t \<in> range F"
    by (simp_all add: rss_types_def rx_offloads_def tx_offloads_def)
  have lines: "fst (feature_loop True a ts ([], 0)) = map (line_of a) ts"
      "fst (feature_loop False a ts ([], 0)) = filter (\<lambda>l. fst l \<noteq> V_NA) (map (line_of a) ts)" for a ts
    by (simp_all add: feature_loop_lines filter_map comp_def na)
  have "\<forall>c \<in> {check_rss F info, check_rx_offloads F info, check_tx_offloads F info}.
      snd c = int (length (filter (\<lambda>l. fst l = V_MISS) (fst c)))"
    unfolding x710_checks using count by blast
  then show ?thesis unfolding x710_checks
    by (intro conjI table_conforms [OF assms tabs(1)] table_conforms [OF assms tabs(2)] table_conforms [OF assms tabs(3)] lines)
qed

text \<open>The RSS flags of the library have the bits from 2 on.\<close>

fun index_of :: "string list \<Rightarrow> string \<Rightarrow> nat" where
  "index_of [] x = 0"
| "index_of (y # ys) x = (if x = y then 0 else index_of ys x + 1)"

definition flag_ex :: "string \<Rightarrow> u64" where
  "flag_ex n = push_bit (index_of [''RTE_ETH_RSS_IPV4'', ''RTE_ETH_RSS_FRAG_IPV4'', ''RTE_ETH_RSS_NONFRAG_IPV4_TCP'', ''RTE_ETH_RSS_NONFRAG_IPV4_UDP'', ''RTE_ETH_RSS_NONFRAG_IPV4_SCTP'', ''RTE_ETH_RSS_NONFRAG_IPV4_OTHER'', ''RTE_ETH_RSS_IPV6'', ''RTE_ETH_RSS_FRAG_IPV6'', ''RTE_ETH_RSS_NONFRAG_IPV6_TCP'', ''RTE_ETH_RSS_NONFRAG_IPV6_UDP'', ''RTE_ETH_RSS_NONFRAG_IPV6_SCTP'', ''RTE_ETH_RSS_NONFRAG_IPV6_OTHER'', ''RTE_ETH_RSS_L2_PAYLOAD'', ''RTE_ETH_RSS_IPV6_EX'', ''RTE_ETH_RSS_IPV6_TCP_EX'', ''RTE_ETH_RSS_IPV6_UDP_EX'', ''RTE_ETH_RSS_PORT'', ''RTE_ETH_RSS_VXLAN'', ''RTE_ETH_RSS_GENEVE'', ''RTE_ETH_RSS_NVGRE''] n + 2) 1"

lemma index_of_le: "index_of ys x \<le> length ys"
  by (induction ys) auto

definition x710_ex :: x710_info where
  "x710_ex = \<lparr>xi_driver = ''net_i40e'', xi_max_rx_queues = 320, xi_max_tx_queues = 320, xi_reta_size = 512, xi_speed_capa = 0,
     xi_rss = 0x7ff8, xi_rx_capa = 0, xi_tx_capa = 0\<rparr>"

text \<open>A device without the hash for plain IPv4: the mask shows the missing bit, and the check says so.\<close>

theorem x710_conforms_witness:
  "snd (check_rss flag_ex x710_ex) \<noteq> 0 \<and> spec_mask (rss_types flag_ex) = 0x3ffc"
proof -
  have "one_bit (flag_ex n)" for n
  proof -
    have "index_of [''RTE_ETH_RSS_IPV4'', ''RTE_ETH_RSS_FRAG_IPV4'', ''RTE_ETH_RSS_NONFRAG_IPV4_TCP'', ''RTE_ETH_RSS_NONFRAG_IPV4_UDP'', ''RTE_ETH_RSS_NONFRAG_IPV4_SCTP'', ''RTE_ETH_RSS_NONFRAG_IPV4_OTHER'', ''RTE_ETH_RSS_IPV6'', ''RTE_ETH_RSS_FRAG_IPV6'', ''RTE_ETH_RSS_NONFRAG_IPV6_TCP'', ''RTE_ETH_RSS_NONFRAG_IPV6_UDP'', ''RTE_ETH_RSS_NONFRAG_IPV6_SCTP'', ''RTE_ETH_RSS_NONFRAG_IPV6_OTHER'', ''RTE_ETH_RSS_L2_PAYLOAD'', ''RTE_ETH_RSS_IPV6_EX'', ''RTE_ETH_RSS_IPV6_TCP_EX'', ''RTE_ETH_RSS_IPV6_UDP_EX'', ''RTE_ETH_RSS_PORT'', ''RTE_ETH_RSS_VXLAN'', ''RTE_ETH_RSS_GENEVE'', ''RTE_ETH_RSS_NVGRE''] n + 2 < 64" using index_of_le [of "[''RTE_ETH_RSS_IPV4'', ''RTE_ETH_RSS_FRAG_IPV4'', ''RTE_ETH_RSS_NONFRAG_IPV4_TCP'', ''RTE_ETH_RSS_NONFRAG_IPV4_UDP'', ''RTE_ETH_RSS_NONFRAG_IPV4_SCTP'', ''RTE_ETH_RSS_NONFRAG_IPV4_OTHER'', ''RTE_ETH_RSS_IPV6'', ''RTE_ETH_RSS_FRAG_IPV6'', ''RTE_ETH_RSS_NONFRAG_IPV6_TCP'', ''RTE_ETH_RSS_NONFRAG_IPV6_UDP'', ''RTE_ETH_RSS_NONFRAG_IPV6_SCTP'', ''RTE_ETH_RSS_NONFRAG_IPV6_OTHER'', ''RTE_ETH_RSS_L2_PAYLOAD'', ''RTE_ETH_RSS_IPV6_EX'', ''RTE_ETH_RSS_IPV6_TCP_EX'', ''RTE_ETH_RSS_IPV6_UDP_EX'', ''RTE_ETH_RSS_PORT'', ''RTE_ETH_RSS_VXLAN'', ''RTE_ETH_RSS_GENEVE'', ''RTE_ETH_RSS_NVGRE'']" n] by simp
    then show ?thesis unfolding one_bit_def flag_ex_def by blast
  qed
  then have "\<forall>n. one_bit (flag_ex n)" by blast
  moreover have m: "spec_mask (rss_types flag_ex) = 0x3ffc" by code_simp
  moreover have "(0x3ffc :: u64) AND 0x7ff8 \<noteq> 0x3ffc" by code_simp
  ultimately show ?thesis using x710_conforms [of flag_ex x710_ex, THEN conjunct1] by (simp only: m x710_ex_def x710_info.simps) simp
qed

end
