(* ===== verification/Mempool_Test.thy ===== *)
theory Mempool_Test
  imports Prelude
begin

text \<open>
  The benchmark of the memory pool, \<open>mempool_cache_test/main.c\<close>. What an lcore gets from the pool and from the clock
  is a function of how often it has asked: the other lcores use the same pool at the same time, so nothing is
  known of it.
\<close>

section \<open>One lcore\<close>

definition WARMUP_ITER :: nat where "WARMUP_ITER = 2000"
definition TEST_ITER :: nat where "TEST_ITER = 200000"

record mp_env =
  me_get :: "nat \<Rightarrow> nat option"
  me_tsc :: "nat \<Rightarrow> u64"

datatype mp_call = Mp_get nat | Mp_put nat

text \<open>The number of the call of \<open>rte_mempool_get\<close>, and the objects that were taken and given back.\<close>

type_synonym mp_trace = "nat \<times> mp_call list"

fun mp_warmup :: "mp_env \<Rightarrow> nat \<Rightarrow> mp_trace \<Rightarrow> mp_trace" where
  "mp_warmup E 0 tr = tr"
| "mp_warmup E (Suc n) tr =
     (let (k, h) = tr
      in mp_warmup E n (k + 1, case me_get E k of None \<Rightarrow> h | Some obj \<Rightarrow> h @ [Mp_get obj, Mp_put obj]))"

text \<open>The timed loop, with the number of clock reads and the two sums; the first component of the result is
  \<open>None\<close> when the pool was empty.\<close>

fun mp_timed :: "mp_env \<Rightarrow> nat \<Rightarrow> nat \<Rightarrow> u64 \<Rightarrow> u64 \<Rightarrow> mp_trace \<Rightarrow> (u64 \<times> u64) option \<times> mp_trace" where
  "mp_timed E 0 t sum_alloc sum_free tr = (Some (sum_alloc, sum_free), tr)"
| "mp_timed E (Suc n) t sum_alloc sum_free tr =
     (let (k, h) = tr; t0 = me_tsc E t
      in case me_get E k of
           None \<Rightarrow> (None, (k + 1, h))
         | Some obj \<Rightarrow>
             let sum_alloc = sum_alloc + (me_tsc E (t + 1) - t0);
                 t0 = me_tsc E (t + 2); h = h @ [Mp_get obj, Mp_put obj];
                 sum_free = sum_free + (me_tsc E (t + 3) - t0)
             in mp_timed E n (t + 4) sum_alloc sum_free (k + 1, h))"

record mp_args =
  la_alloc :: u64
  la_free :: u64
  la_result :: int

definition lcore_test_fn :: "mp_env \<Rightarrow> mp_args \<Rightarrow> mp_call list \<Rightarrow> int \<times> mp_args \<times> mp_call list" where
  "lcore_test_fn E a h =
     (let tr = mp_warmup E WARMUP_ITER (0, h)
      in case mp_timed E TEST_ITER 0 0 0 tr of
           (None, tr1) \<Rightarrow> (- 1, a\<lparr>la_result := - 1\<rparr>, snd tr1)
         | (Some (sum_alloc, sum_free), tr1) \<Rightarrow>
             (0, a\<lparr>la_alloc := sum_alloc div of_nat TEST_ITER, la_free := sum_free div of_nat TEST_ITER, la_result := 0\<rparr>, snd tr1))"

section \<open>An experiment\<close>

definition mp_slot0 :: mp_args where
  "mp_slot0 = \<lparr>la_alloc = 0, la_free = 0, la_result = 0\<rparr>"

text \<open>The array with the slots of the workers and of the main lcore, which has the last one, before and after the run.
  \<open>None\<close> is a write past the array.\<close>

definition mp_start :: "nat \<Rightarrow> nat list \<Rightarrow> mp_args list \<Rightarrow> mp_args list option" where
  "mp_start n_lcores workers args =
     (if length args \<le> n_lcores then None
      else Some ((fold (\<lambda>i xs. xs[i := mp_slot0]) [0..<min n_lcores (length workers)] args)[n_lcores := mp_slot0]))"

definition mp_run :: "(nat \<Rightarrow> mp_env) \<Rightarrow> nat \<Rightarrow> nat list \<Rightarrow> mp_args list \<Rightarrow> mp_args list" where
  "mp_run E n_lcores workers args =
     (let test = (\<lambda>i xs. xs[i := fst (snd (lcore_test_fn (E i) (xs ! i) []))])
      in test n_lcores (fold test [0..<min n_lcores (length workers)] args))"

record mp_sums =
  su_alloc :: u64
  su_free :: u64
  su_count :: u32
  su_error :: bool

definition mp_sum_worker :: "mp_args list \<Rightarrow> nat \<Rightarrow> mp_sums \<Rightarrow> mp_sums" where
  "mp_sum_worker args j s =
     (if la_result (args ! j) \<noteq> 0 then s\<lparr>su_error := True\<rparr>
      else s\<lparr>su_alloc := su_alloc s + la_alloc (args ! j), su_free := su_free s + la_free (args ! j), su_count := su_count s + 1\<rparr>)"

definition mp_sum_main :: "mp_args list \<Rightarrow> nat \<Rightarrow> mp_sums \<Rightarrow> mp_sums" where
  "mp_sum_main args n s =
     (if la_result (args ! n) = 0
      then s\<lparr>su_alloc := su_alloc s + la_alloc (args ! n), su_free := su_free s + la_free (args ! n), su_count := su_count s + 1\<rparr>
      else s)"

text \<open>What is printed: whether some lcore failed, and the three averages when there are any.\<close>

definition mp_summary :: "mp_args list \<Rightarrow> nat \<Rightarrow> bool \<times> (u64 \<times> u64 \<times> u64) option" where
  "mp_summary args n =
     (let s = mp_sum_main args n (fold (mp_sum_worker args) [0..<n] \<lparr>su_alloc = 0, su_free = 0, su_count = 0, su_error = False\<rparr>);
          c = ucast (su_count s)
      in (su_error s, if su_count s > 0 then Some (su_alloc s div c, su_free s div c, (su_alloc s + su_free s) div c) else None))"

definition run_experiment :: "(nat \<Rightarrow> mp_env) \<Rightarrow> nat \<Rightarrow> nat list \<Rightarrow> mp_args list \<Rightarrow> (mp_args list \<times> bool \<times> (u64 \<times> u64 \<times> u64) option) option" where
  "run_experiment E n_lcores workers args =
     (case mp_start n_lcores workers args of
        None \<Rightarrow> None
      | Some args0 \<Rightarrow> let args1 = mp_run E n_lcores workers args0 in Some (args1, mp_summary args1 n_lcores))"

text \<open>\<open>main\<close>: both experiments on the array of \<open>RTE_MAX_LCORE\<close> slots; the pools are created before the first.\<close>

definition mempool_main :: "int \<Rightarrow> nat \<Rightarrow> nat list \<Rightarrow> bool \<Rightarrow> bool \<Rightarrow> (nat \<Rightarrow> mp_env) \<Rightarrow> (nat \<Rightarrow> mp_env) \<Rightarrow>
    string + ((bool \<times> (u64 \<times> u64 \<times> u64) option) \<times> (bool \<times> (u64 \<times> u64 \<times> u64) option)) option" where
  "mempool_main eal max_lcore workers no_cache cached E1 E2 =
     (let n_workers = length workers; args = replicate max_lcore mp_slot0
      in if eal < 0 then Inl ''rte_eal_init failed''
         else if \<not> no_cache then Inl ''mp_no_cache''
         else if \<not> cached then Inl ''mp_cache''
         else Inr (case run_experiment E1 n_workers workers args of
                     None \<Rightarrow> None
                   | Some (args1, r1) \<Rightarrow>
                       (case run_experiment E2 n_workers workers args1 of None \<Rightarrow> None | Some (_, r2) \<Rightarrow> Some (r1, r2))))"

section \<open>One lcore gives back what it takes\<close>

definition give_back :: "nat list \<Rightarrow> mp_call list" where
  "give_back objs = concat (map (\<lambda>obj. [Mp_get obj, Mp_put obj]) objs)"

lemma give_back_Cons: "give_back (x # xs) = [Mp_get x, Mp_put x] @ give_back xs" "give_back [] = []"
  by (simp_all add: give_back_def)

lemma mp_warmup_trace: "\<exists>objs. mp_warmup E n (k, h) = (k + n, h @ give_back objs) \<and> length objs \<le> n"
proof (induction n arbitrary: k h)
  case 0
  show ?case by (intro exI [of _ "[]"]) (simp add: give_back_Cons)
next
  case (Suc n)
  show ?case
  proof (cases "me_get E k")
    case None
    from Suc.IH [of "k + 1" h] None show ?thesis by (auto intro: le_SucI)
  next
    case (Some x)
    obtain objs where "mp_warmup E n (k + 1, h @ [Mp_get x, Mp_put x]) = (k + 1 + n, (h @ [Mp_get x, Mp_put x]) @ give_back objs)"
      "length objs \<le> n" using Suc.IH by blast
    with Some show ?thesis by (intro exI [of _ "x # objs"]) (simp add: give_back_Cons)
  qed
qed

text \<open>The time of the \<open>i\<close>-th pair of calls, from clock read \<open>t\<close> on.\<close>

definition alloc_time :: "mp_env \<Rightarrow> nat \<Rightarrow> nat \<Rightarrow> u64" where
  "alloc_time E t i = me_tsc E (t + 4 * i + 1) - me_tsc E (t + 4 * i)"

definition free_time :: "mp_env \<Rightarrow> nat \<Rightarrow> nat \<Rightarrow> u64" where
  "free_time E t i = me_tsc E (t + 4 * i + 3) - me_tsc E (t + 4 * i + 2)"

lemma times_shift: "alloc_time E (t + 4) i = alloc_time E t (Suc i)" "free_time E (t + 4) i = free_time E t (Suc i)"
  by (simp_all add: alloc_time_def free_time_def algebra_simps)

lemma mp_timed_trace:
  "\<exists>objs. snd (snd (mp_timed E n t sa sf (k, h))) = h @ give_back objs
    \<and> (case fst (mp_timed E n t sa sf (k, h)) of
         None \<Rightarrow> length objs < n \<and> me_get E (k + length objs) = None
       | Some (a, f) \<Rightarrow> length objs = n \<and> (\<forall>i < n. me_get E (k + i) \<noteq> None)
           \<and> a = sa + (\<Sum>i<n. alloc_time E t i) \<and> f = sf + (\<Sum>i<n. free_time E t i))"
proof (induction n arbitrary: t sa sf k h)
  case 0
  show ?case by (intro exI [of _ "[]"]) (simp add: give_back_Cons)
next
  case (Suc n)
  show ?case
  proof (cases "me_get E k")
    case None
    then show ?thesis by (intro exI [of _ "[]"]) (simp add: give_back_Cons)
  next
    case (Some x)
    let ?sa = "sa + alloc_time E t 0" and ?sf = "sf + free_time E t 0" and ?h = "h @ [Mp_get x, Mp_put x]"
    let ?r = "mp_timed E n (t + 4) ?sa ?sf (k + 1, ?h)"
    have r: "mp_timed E (Suc n) t sa sf (k, h) = ?r"
      by (simp add: Some Let_def alloc_time_def free_time_def)
    obtain objs where o: "snd (snd ?r) = ?h @ give_back objs"
      and c: "case fst ?r of None \<Rightarrow> length objs < n \<and> me_get E (k + 1 + length objs) = None
        | Some (a, f) \<Rightarrow> length objs = n \<and> (\<forall>i < n. me_get E (k + 1 + i) \<noteq> None)
           \<and> a = ?sa + (\<Sum>i<n. alloc_time E (t + 4) i) \<and> f = ?sf + (\<Sum>i<n. free_time E (t + 4) i)"
      using Suc.IH [of "t + 4" ?sa ?sf "k + 1" ?h] by blast
    have all: "(\<forall>i < n. me_get E (k + 1 + i) \<noteq> None) \<Longrightarrow> \<forall>i < Suc n. me_get E (k + i) \<noteq> None"
      using Some by (auto simp: less_Suc_eq_0_disj)
    show ?thesis unfolding r using o c all
      by (intro exI [of _ "x # objs"])
         (auto simp: give_back_Cons times_shift sum.lessThan_Suc_shift add.assoc split: option.splits simp del: sum.lessThan_Suc)
  qed
qed

section \<open>The array of an experiment\<close>

lemma length_fold_slot: "length (fold (\<lambda>i xs. xs[i := f i xs]) is xs) = length xs"
  by (induction "is" arbitrary: xs) simp_all

lemma fold_slot_above:
  assumes "m \<le> j"
  shows "fold (\<lambda>i xs. xs[i := f i xs]) [0..<m] xs ! j = xs ! j"
  using assms by (induction m) simp_all

lemma fold_slots_nth:
  assumes "\<And>i xs ys. xs ! i = ys ! i \<Longrightarrow> f i xs = f i ys" and "j < length xs" and "m \<le> length xs"
  shows "fold (\<lambda>i xs. xs[i := f i xs]) [0..<m] xs ! j = (if j < m then f j xs else xs ! j)"
  using assms(3)
proof (induction m)
  case (Suc m)
  let ?ys = "fold (\<lambda>i xs. xs[i := f i xs]) [0..<m] xs"
  have "?ys ! m = xs ! m" by (rule fold_slot_above) simp
  then have f: "f m ?ys = f m xs" by (rule assms(1))
  have l: "length ?ys = length xs" by (rule length_fold_slot)
  have ih: "?ys ! j = (if j < m then f j xs else xs ! j)" using Suc by simp
  have e: "fold (\<lambda>i xs. xs[i := f i xs]) [0..<Suc m] xs = ?ys[m := f m xs]" by (simp add: f)
  show ?case unfolding e using ih l assms(2) by (cases "j = m") simp_all
qed simp

lemma mp_run_nth:
  assumes "n < length args" and "n \<le> length workers" and "j \<le> n"
  shows "mp_run E n workers args ! j = fst (snd (lcore_test_fn (E j) (args ! j) []))"
proof -
  let ?f = "\<lambda>i xs. fst (snd (lcore_test_fn (E i) (xs ! i) []))"
  let ?ys = "fold (\<lambda>i xs. xs[i := ?f i xs]) [0..<min n (length workers)] args"
  have m: "min n (length workers) = n" using assms(2) by simp
  have l: "length ?ys = length args" by (rule length_fold_slot)
  have "?ys ! j = (if j < n then ?f j args else args ! j)"
    unfolding m by (rule fold_slots_nth) (use assms in auto)
  then show ?thesis using assms l by (auto simp: mp_run_def Let_def nth_list_update)
qed

lemma mp_start_nth:
  assumes "n < length args" and "n \<le> length workers" and "j \<le> n"
  shows "\<exists>args0. mp_start n workers args = Some args0 \<and> length args0 = length args \<and> args0 ! j = mp_slot0"
proof -
  let ?ys = "fold (\<lambda>i xs. xs[i := mp_slot0]) [0..<min n (length workers)] args"
  have m: "min n (length workers) = n" using assms(2) by simp
  have l: "length ?ys = length args" by (rule length_fold_slot)
  have "?ys ! j = (if j < n then mp_slot0 else args ! j)"
    unfolding m by (rule fold_slots_nth) (use assms in auto)
  then show ?thesis using assms l by (auto simp: mp_start_def nth_list_update)
qed

text \<open>The slots of the workers that did not fail.\<close>

definition good_slots :: "mp_args list \<Rightarrow> nat \<Rightarrow> nat list" where
  "good_slots args m = filter (\<lambda>j. la_result (args ! j) = 0) [0..<m]"

lemma mp_sum_workers:
  "fold (mp_sum_worker args) [0..<n] \<lparr>su_alloc = 0, su_free = 0, su_count = 0, su_error = False\<rparr> =
     \<lparr>su_alloc = sum_list (map (\<lambda>j. la_alloc (args ! j)) (good_slots args n)),
      su_free = sum_list (map (\<lambda>j. la_free (args ! j)) (good_slots args n)),
      su_count = of_nat (length (good_slots args n)), su_error = (\<exists>j < n. la_result (args ! j) \<noteq> 0)\<rparr>"
  by (induction n) (auto simp: mp_sum_worker_def good_slots_def less_Suc_eq)

lemma good_slots_Suc: "good_slots args (n + 1) = good_slots args n @ (if la_result (args ! n) = 0 then [n] else [])"
  by (simp add: good_slots_def)

lemma mp_summary_eq:
  assumes "n < 2 ^ 16"
  shows "mp_summary args n = ((\<exists>j < n. la_result (args ! j) \<noteq> 0),
    let js = good_slots args (n + 1); a = sum_list (map (\<lambda>j. la_alloc (args ! j)) js); f = sum_list (map (\<lambda>j. la_free (args ! j)) js);
        c = of_nat (length js)
    in if js = [] then None else Some (a div c, f div c, (a + f) div c))"
proof -
  have s: "mp_sum_main args n (fold (mp_sum_worker args) [0..<n] \<lparr>su_alloc = 0, su_free = 0, su_count = 0, su_error = False\<rparr>) =
     \<lparr>su_alloc = sum_list (map (\<lambda>j. la_alloc (args ! j)) (good_slots args (n + 1))),
      su_free = sum_list (map (\<lambda>j. la_free (args ! j)) (good_slots args (n + 1))),
      su_count = of_nat (length (good_slots args (n + 1))), su_error = (\<exists>j < n. la_result (args ! j) \<noteq> 0)\<rparr>"
    unfolding mp_sum_workers good_slots_Suc by (simp add: mp_sum_main_def)
  have l: "length (good_slots args (n + 1)) \<le> n + 1"
    using length_filter_le [of _ "[0..<n + 1]"] by (simp only: good_slots_def length_upt diff_zero)
  have u: "unat (of_nat (length (good_slots args (n + 1))) :: u32) = length (good_slots args (n + 1))"
    using l assms by (simp add: unat_of_nat)
  have c: "(ucast (of_nat (length (good_slots args (n + 1))) :: u32) :: u64) = of_nat (length (good_slots args (n + 1)))"
    by (subst of_nat_unat [symmetric]) (simp only: u)
  have z: "(0 < (of_nat (length (good_slots args (n + 1))) :: u32)) = (good_slots args (n + 1) \<noteq> [])"
    using u by (simp add: word_less_nat_alt)
  show ?thesis by (simp only: mp_summary_def Let_def s mp_sums.select_convs c z) simp
qed

lemma lcore_test_empty:
  assumes "me_get E WARMUP_ITER = None"
  shows "fst (snd (lcore_test_fn E a h)) = a\<lparr>la_result := - 1\<rparr>"
proof -
  obtain h' where w: "mp_warmup E WARMUP_ITER (0, h) = (WARMUP_ITER, h')" using mp_warmup_trace [of E WARMUP_ITER 0 h] by auto
  obtain n where "TEST_ITER = Suc n" by (metis TEST_ITER_def gr0_implies_Suc zero_less_numeral)
  moreover have "mp_timed E (Suc n) 0 0 0 (WARMUP_ITER, h') = (None, WARMUP_ITER + 1, h')" using assms by simp
  ultimately show ?thesis by (simp only: lcore_test_fn_def w Let_def) simp
qed

section \<open>Properties\<close>

text \<open>A benchmark lcore, whatever the pool and the clock do while others use them: every object it takes it gives back at
  once, before the next one. It succeeds exactly when each of the 200000 timed calls gets an object, and then
  leaves the average times, rounded down, of the sums of all timed calls; when the pool is empty in between it
  reports -1 and leaves the averages as they were.\<close>

lemma lcore_test_gives_back:
  "let (ret, a', h') = lcore_test_fn E a h
   in (\<exists>objs. h' = h @ give_back objs)
    \<and> la_result a' = ret
    \<and> ret = (if \<exists>i < 200000. me_get E (2000 + i) = None then - 1 else 0)
    \<and> (if ret = 0 then la_alloc a' = (\<Sum>i<200000. alloc_time E 0 i) div 200000 \<and> la_free a' = (\<Sum>i<200000. free_time E 0 i) div 200000
       else la_alloc a' = la_alloc a \<and> la_free a' = la_free a)"
proof -
  obtain os1 where w: "mp_warmup E WARMUP_ITER (0, h) = (0 + WARMUP_ITER, h @ give_back os1)"
    using mp_warmup_trace [of E WARMUP_ITER 0 h] by blast
  let ?r = "mp_timed E TEST_ITER 0 0 0 (WARMUP_ITER, h @ give_back os1)"
  obtain os2 where o: "snd (snd ?r) = (h @ give_back os1) @ give_back os2"
    and c: "case fst ?r of None \<Rightarrow> length os2 < TEST_ITER \<and> me_get E (WARMUP_ITER + length os2) = None
       | Some (a, f) \<Rightarrow> length os2 = TEST_ITER \<and> (\<forall>i < TEST_ITER. me_get E (WARMUP_ITER + i) \<noteq> None)
           \<and> a = 0 + (\<Sum>i<TEST_ITER. alloc_time E 0 i) \<and> f = 0 + (\<Sum>i<TEST_ITER. free_time E 0 i)"
    using mp_timed_trace [of E TEST_ITER 0 0 0 WARMUP_ITER "h @ give_back os1"] by blast
  have h: "snd (snd ?r) = h @ give_back (os1 @ os2)" using o by (simp add: give_back_def)
  have iters: "(of_nat TEST_ITER :: u64) = 200000" "TEST_ITER = 200000" "WARMUP_ITER = 2000"
    by (simp_all add: TEST_ITER_def WARMUP_ITER_def)
  show ?thesis
  proof (cases "fst ?r")
    case None
    then have "\<exists>i < 200000. me_get E (2000 + i) = None" using c by (auto simp: iters)
    moreover have "lcore_test_fn E a h = (- 1, a\<lparr>la_result := - 1\<rparr>, h @ give_back (os1 @ os2))"
    proof -
      obtain k where "?r = (None, k, h @ give_back (os1 @ os2))" by (metis None h prod.collapse)
      then show ?thesis by (simp add: lcore_test_fn_def w)
    qed
    ultimately show ?thesis by auto
  next
    case (Some x)
    obtain sa sf where x: "x = (sa, sf)" by fastforce
    have all: "\<not> (\<exists>i < 200000. me_get E (2000 + i) = None)"
      and s: "sa = (\<Sum>i<200000. alloc_time E 0 i)" "sf = (\<Sum>i<200000. free_time E 0 i)" using c unfolding Some x option.case prod.case by (simp_all add: iters)
    have "lcore_test_fn E a h = (0, a\<lparr>la_alloc := sa div 200000, la_free := sf div 200000, la_result := 0\<rparr>, h @ give_back (os1 @ os2))"
    proof -
      obtain k where "?r = (Some (sa, sf), k, h @ give_back (os1 @ os2))" by (metis Some x h prod.collapse)
      then show ?thesis by (simp add: lcore_test_fn_def w iters(1))
    qed
    then show ?thesis using all by (auto simp: s)
  qed
qed

text \<open>The report of an experiment. No slot outside the array is written when the machine has no more lcores than slots. The
  averages are over all lcores that did not fail, the main lcore included. The warning is about the workers only: when the
  main lcore alone finds the pool empty, nothing is said.\<close>

lemma experiment_report:
  assumes "n < length args" and "n = length workers" and "n < 2 ^ 16"
  shows "\<exists>args' avgs. run_experiment E n workers args = Some (args', \<exists>j < n. la_result (args' ! j) \<noteq> 0, avgs)
    \<and> length args' = length args
    \<and> (\<forall>j \<le> n. args' ! j = fst (snd (lcore_test_fn (E j) mp_slot0 [])))
    \<and> (let js = good_slots args' (n + 1); c = of_nat (length js)
       in avgs = (if js = [] then None
                  else Some (sum_list (map (\<lambda>j. la_alloc (args' ! j)) js) div c, sum_list (map (\<lambda>j. la_free (args' ! j)) js) div c,
                             (sum_list (map (\<lambda>j. la_alloc (args' ! j)) js) + sum_list (map (\<lambda>j. la_free (args' ! j)) js)) div c)))"
proof -
  have n: "n \<le> length workers" using assms(2) by simp
  obtain args0 where a0: "mp_start n workers args = Some args0" "length args0 = length args"
    using mp_start_nth [OF assms(1) n le0] by blast
  have slot: "args0 ! j = mp_slot0" if "j \<le> n" for j using mp_start_nth [OF assms(1) n that] a0 by simp
  let ?args = "mp_run E n workers args0"
  have l: "length ?args = length args" by (simp add: mp_run_def Let_def length_fold_slot a0(2))
  have r: "\<forall>j \<le> n. ?args ! j = fst (snd (lcore_test_fn (E j) mp_slot0 []))"
    using mp_run_nth [of n args0 workers] a0(2) assms(1) n slot by simp
  have "run_experiment E n workers args = Some (?args, mp_summary ?args n)"
    by (simp add: run_experiment_def a0(1) Let_def)
  then show ?thesis using l r unfolding mp_summary_eq [OF assms(3)]
    by (intro exI [of _ ?args] exI conjI) (auto simp: Let_def)
qed

text \<open>The main lcore alone, on an empty pool: it fails, and there is no warning.\<close>

end
