(* ===== verification/Spec2Isabelle.thy ===== *)
theory Spec2Isabelle
  imports Setup Send_Altivec Event_Modes L2_Forward Acl_Forward L3_Main Em_Neon Em_Hash Em_Variants
    Lpm_Stats Acl_Dump Rss_Verify X710_Check Mempool_Test
begin

text \<open>
  A model of the packet forwarder \<open>src/l3fwd\<close>, its helpers in \<open>src/common\<close>, of the smaller forwarder
  \<open>src/l2fwd\<close>, and of three test programs: \<open>src/rss_verify\<close>, \<open>src/x710_check\<close> and \<open>src/mempool_cache_test\<close>.

  \<^bold>\<open>Parts.\<close> The forwarder reads a command line and route files, sets up ports and lookup tables,
  and then runs one polling loop per lcore: receive a burst, look up the output port of every
  packet, rewrite the headers four at a time, group consecutive packets with the same port, append
  each group to the transmit buffer of its port, send a buffer when it is full or after a timeout.

  \<^item> \<open>Prelude\<close>: machine words, byte memory, lists.
  \<^item> \<open>Dpdk\<close>: what the program takes from the DPDK headers, as a record of parameters with their
    documented laws, and the program's own globals (\<open>l3fwd.h\<close>).
  \<^item> \<open>Rewrite\<close>: \<open>is_valid_ipv4_pkt\<close>, \<open>rfc1812_process\<close>, \<open>process_packet\<close>,
    \<open>processx4_step3\<close> for SSE, NEON and AltiVec.
  \<^item> \<open>Pkt_Group\<close>: \<open>pkt_group.h\<close> and the three \<open>port_groupx4\<close>; \<open>process_dst_port\<close>.
  \<^item> \<open>Tx_Path\<close>: the lcore state, \<open>send_burst\<close>, \<open>send_single_packet\<close>, \<open>send_packetsx4\<close>,
    with an abstract transmitter over lists that they refine.
  \<^item> \<open>Send_Multi\<close>: \<open>send_packets_multi\<close> for SSE and NEON; \<open>Send_Altivec\<close>: for AltiVec, on a little-endian
    host, where two vector permutations are wrong and only a weaker contract holds.
  \<^item> \<open>Lpm_Forward\<close>: \<open>l3fwd_lpm.c\<close> with its three burst routines, the main loop, \<open>setup_lpm\<close>
    and the packet type callback; \<open>Lpm_Stats\<close>: \<open>print_lcore_stats\<close>.
  \<^item> \<open>C_String\<close>: the functions of the C library on strings that the parsers call.
  \<^item> \<open>Route_Parse\<close>: \<open>lpm_route_parse.c\<close>, \<open>em_route_parse.c\<close>, \<open>l3fwd_route.h\<close>.
  \<^item> \<open>Config\<close>: the command line of \<open>main.c\<close>.
  \<^item> \<open>Poll_Loop\<close>: the polling loop of the modes without statistics (\<open>em_main_loop\<close>,
    \<open>fib_main_loop\<close>), with the forwarding routine as an interface.
  \<^item> \<open>Event_Vec\<close>: event vectors, \<open>filter_bad_packets\<close> and \<open>process_event_vector\<close> of \<open>l3fwd_event.h\<close>.
  \<^item> \<open>Em_Forward\<close>: forwarding by exact match, \<open>l3fwd_em.c\<close> and its four headers: keys and
    masks, filling the hash tables, bulk lookups, bursts, events, vectors, packet types. The key of the bulk lookups is
    a parameter: \<open>get_ipv6_5tuple\<close> for SSE, \<open>get_ipv6_5tuple_neon\<close> for ARM.
  \<^item> \<open>Em_Neon\<close>: what the keys of \<open>l3fwd_em_hlm_neon.h\<close> stand for.
  \<^item> \<open>Em_Hash\<close>: the hash functions of the exact-match tables.
  \<^item> \<open>Em_Variants\<close>: events without vector instructions (\<open>l3fwd_em.h\<close>) and with one lookup at a time
    (\<open>l3fwd_em_sequential.h\<close>).
  \<^item> \<open>Fib_Forward\<close>: forwarding with the FIB, \<open>l3fwd_fib.c\<close>: lookups in bulk for the two families, bursts,
    events, vectors, \<open>setup_fib\<close> and the main loop.
  \<^item> \<open>Event_Loop\<close>: the loops of the event workers over single events and bursts, with their clean-up and the
    event ports (\<open>l3fwd_event.c\<close>); what forwards the packets is an interface.
  \<^item> \<open>Event_Modes\<close>: the event workers of \<open>l3fwd_lpm.c\<close>, \<open>l3fwd_em.c\<close> and \<open>l3fwd_fib.c\<close> and the choice among them.
  \<^item> \<open>Setup\<close>: \<open>l3fwd_poll_resource_setup\<close> and what it calls: the checks of the queue
    configuration, the frame sizes, memory pools and lookup tables for each socket, transmit and
    receive queues. Devices answer through a record; the calls to them are kept as a trace.
  \<^item> \<open>Event_Setup\<close>: \<open>l3fwd_event_resource_setup\<close> and what it calls (\<open>l3fwd_event.c\<close>, \<open>l3fwd_event_generic.c\<close>,
    \<open>l3fwd_event_internal_port.c\<close>): ports, event device, queues, event ports, adapters.
  \<^item> \<open>L3_Main\<close>: \<open>main\<close> of \<open>l3fwd/main.c\<close>, from the options over the choice of the lookup method and of the mode to
    the launch, and the end of the program.
  \<^item> \<open>Acl_Rules\<close>: the rule files of the ACL mode and the set-up of its contexts (\<open>l3fwd_acl.c\<close>), with what a
    file means: the first line that matches decides.
  \<^item> \<open>Acl_Forward\<close>: classification of a burst, sending and the main loop (\<open>l3fwd_acl.c\<close>, \<open>l3fwd_acl_scalar.h\<close>).
  \<^item> \<open>Acl_Dump\<close>: what \<open>l3fwd_acl.c\<close> prints of the rules and of the list of algorithms.
  \<^item> \<open>Link_Wait\<close>: \<open>check_all_ports_link_status\<close>, the same text in both programs.
  \<^item> \<open>L2_Setup\<close>: \<open>l2fwd/main.c\<close> up to the launch of the lcores: options, port pairs, destination ports, lcores, devices.
  \<^item> \<open>L2_Forward\<close>: its loop, for all lcores in any interleaving, with the statistics; the transmit buffers of
    the library are a parameter with its documented law.
  \<^item> \<open>Rss_Verify\<close>: \<open>rss_verify.c\<close>, four polling lcores and the main lcore that prints their counters, as steps in any
    interleaving.
  \<^item> \<open>X710_Check\<close>: \<open>x710_check.c\<close>, the comparison of a device's capabilities with tables.
  \<^item> \<open>Mempool_Test\<close>: \<open>mempool_cache_test/main.c\<close>, the timed loop of an lcore, the experiments and their reports.

  \<^bold>\<open>Conventions.\<close> Words have the width of the C types. An array of the stack that the code fills is
  a function from indices; a heap array or a fixed table whose bounds matter is a list or carries a
  length, and a write outside it is a visible outcome (\<open>out_of_range\<close>, \<open>Overrun\<close>, \<open>None\<close>).
  \<open>rte_exit\<close> and return codes are branches of the results. Loops over counters are folds; the
  loop over runs in \<open>send_packets_multi\<close>, which would not end on a run of length 0, is a partial
  function whose termination is part of the theorems. The endless main loop takes the list of what each
  pass receives, so a statement about every list is one about every number of passes. The event workers, which
  end, are partial functions as well; their library answers by the time of the call, and \<open>force_quit\<close> is set at
  some time.

  \<^bold>\<open>Theorems.\<close> The vector routines equal their scalar counterparts; the header rewrite is known byte by
  byte; grouping yields the maximal runs; the transmit path keeps its bounds, loses
  nothing and keeps the order per port; the main loop's statistics add up; rule files and queue
  configurations that are printed are read back; the command line leaves a usable configuration; the first
  line of an ACL file that matches decides, which departs from the documented precedence exactly where a route stands
  before an ACL line for the same packet; the event workers end and hand on or free each packet once, where the
  workers for single events may free one rejected packet twice; the L2 forwarder sends every packet to the partner of its
  port, in order, and no two of its lcores share a transmit buffer; a dumped ACL rule is read as the same rule; the counters of the
  RSS check are right in every interleaving, the benchmark gives back what it takes, and the feature check compares masks.
  Several theorems state where the code does something it should not.

  \<^bold>\<open>Not modelled.\<close> Output, logging and prefetching; what DPDK does behind its interface; floating-point rates, of
  which the operands are modelled, while percentages are real numbers; the packet generator, a Python script. The exact-match
  worker for bursts of events casts its array of events to an array of pointers; what it then does is undefined.
\<close>

section \<open>From the command line to the statistics\<close>

lemma waiting_polled:
  assumes "l3fwd_poll_resource_setup E c (init_sstate c) = Inr s" and "setup_env_ok E"
    and "\<forall>p \<in> set (se_ports E). p < max_ethports D"
  shows "(\<forall>p \<in> set (tx_port_id (lcore_of (ss_lcores s l) tab)). port_ok D p)
    \<and> (\<forall>(p, q) \<in> set (rx_queue_list (lcore_of (ss_lcores s l) tab)). port_ok D p)"
proof -
  obtain b: "\<not> check_port_config E (c_port_mask c) (active_params c) < 0"
    using poll_setup_steps [OF assms(1,2)] by metis
  have "unat (of_nat p :: u16) = p" if "p \<in> set (se_ports E)" for p
    using that assms(2) by (auto simp: setup_env_ok_def unat_of_nat)
  then have "\<forall>p \<in> set (lc_tx_ports (ss_lcores s l)). port_ok D p"
    using poll_setup_tx [OF assms(1,2), of l] assms(3) by (auto simp: port_ok_def split: if_splits)
  moreover have "\<forall>(p, q) \<in> set (lc_rx (ss_lcores s l)). port_ok D p"
    using poll_setup_rx [OF assms(1,2), of l] active_ports_valid [OF b assms(2)] assms(3)
    by (auto simp: queues_of_def port_ok_def)
  ultimately show ?thesis by (simp add: lcore_of_def)
qed

text \<open>What the libraries promise; the burst size is the program's own business.\<close>

definition lpm_libs_ok :: "dpdk \<Rightarrow> lpm_tables \<Rightarrow> bool" where
  "lpm_libs_ok D L \<longleftrightarrow> tx_burst_ok D \<and> ptype_ok D \<and> ports_16 D \<and> lookupx4_ok L \<and> max_ethports D \<le> 0x8000
     \<and> (\<forall>a h. lpm4 L a = Some h \<longrightarrow> unat h < max_ethports D)
     \<and> (\<forall>a h. lpm6 L a = Some h \<longrightarrow> unat h < max_ethports D)"

lemma lpm_env_ok_of_args:
  assumes "cfg_env_ok C" and "parse_args C (init_cfg C a h) opts = Goes c" and "lpm_libs_ok D L"
  shows "lpm_env_ok D (glob_of c s) L"
  using parse_args_cfg_inv [OF assms(1,2)] assms(3)
  by (simp add: lpm_env_ok_def lpm_libs_ok_def glob_of_def cfg_inv_def bursts_ok_def)

text \<open>C2. The program as a whole, in polling mode with longest prefix match: whatever options were
  accepted, when the ports, queues and lcores could be set up, the loop of every lcore runs without
  failing for any number of passes over whatever the ports deliver, never writes outside its transmit
  buffers, and its statistics add up. What is assumed is what the libraries promise: a driver that takes
  at most what it is given and delivers at most what it is asked for, tables that give existing ports.\<close>

theorem l3fwd_lpm_runs:
  assumes "cfg_env_ok C" and "parse_args C (init_cfg C a h) opts = Goes c"
    and "l3fwd_poll_resource_setup E c (init_sstate c) = Inr s" and "setup_env_ok E"
    and "\<forall>p \<in> set (se_ports E). p < max_ethports D"
    and "lpm_libs_ok D L" and "\<forall>i \<in> set ins. rx_ok (glob_of c s) i"
  shows "\<exists>st. lpm_main_loop D (glob_of c s) L hz tsc ins (lcore_of (ss_lcores s l) tab) = Some st
    \<and> lo_rx st = lo_tx st + lo_dropped st + of_nat (waiting (lo_core st))
    \<and> tx_inv MAX_PKT_BURST (lo_core st)"
proof -
  let ?s = "lcore_of (ss_lcores s l) tab"
  let ?st = "\<lparr>lo_core = ?s, lo_rx = 0, lo_tx = 0, lo_dropped = 0, lo_prev = tsc, lo_cur = tsc\<rparr>"
  have ok: "loop_ok D ?st"
    using lcore_of_empty waiting_polled [OF assms(3-5)] by (simp add: loop_ok_def)
  show ?thesis
    using lpm_passes_ok [OF lpm_env_ok_of_args [OF assms(1,2,6)] assms(7) ok, of "drain_tsc_of hz"] lcore_of_empty [of "ss_lcores s l" tab]
    by (auto simp: lpm_main_loop_def Let_def loop_ok_def)
qed

lemma lpm_libs_ok_ex: "lpm_libs_ok dpdk_ex lpm_ex"
  using lpm_env_ok_ex by (simp add: lpm_env_ok_def lpm_libs_ok_def)

theorem l3fwd_lpm_runs_witness:
  "let i = \<lparr>in_rx = (\<lambda>_. map mbuf_ex [0..<20]), in_tsc = 5, in_pnum = (\<lambda>_. 7), in_dst = (\<lambda>_. 0)\<rparr> in
   \<exists>s st. l3fwd_poll_resource_setup setup_ex cfg_ex (init_sstate cfg_ex) = Inr s
    \<and> lpm_main_loop dpdk_ex (glob_of cfg_ex s) lpm_ex 1000 0 [i, i] (lcore_of (ss_lcores s 2) (\<lambda>_ _. mbuf_ex 0)) = Some st
    \<and> lo_rx st = lo_tx st + lo_dropped st + of_nat (waiting (lo_core st))"
proof -
  let ?i = "\<lparr>in_rx = (\<lambda>_. map mbuf_ex [0..<20]), in_tsc = 5, in_pnum = (\<lambda>_. 7), in_dst = (\<lambda>_. 0)\<rparr>"
  obtain s where s: "l3fwd_poll_resource_setup setup_ex cfg_ex (init_sstate cfg_ex) = Inr s"
    by (rule setup_ex_runs)
  have p: "\<forall>p \<in> set (se_ports setup_ex). p < max_ethports dpdk_ex" by (simp add: setup_ex_def dpdk_ex_def)
  have r: "\<forall>i \<in> set [?i, ?i]. rx_ok (glob_of cfg_ex s) i"
    by (simp add: rx_ok_def glob_of_def cfg_ex_def init_cfg_def DEFAULT_PKT_BURST_def)
  show ?thesis unfolding Let_def
    using l3fwd_lpm_runs [OF env_ok_ex parse_args_ex s setup_env_ok_ex p lpm_libs_ok_ex r] s by blast
qed

end
